(* ===== verification/Prelude.thy ===== *)
theory Prelude
  imports Main "HOL-Library.Char_ord" "HOL-Library.List_Lexorder" "HOL-Library.Sublist" "HOL-Library.Multiset"
begin

text \<open>
  The prelude of the development: the collections the component proofs are simplified with,
  the error-or-value results of fallible Go code, Go maps with a zero value, and the model of
  a directory of named files (sorted by name, as \<open>os.ReadDir\<close> lists it) behind the
  \<open>directory\<close> interface that the spool and the daemon's session store both rest on.
\<close>

named_theorems frame "fields an operation leaves alone"

section \<open>Go maps\<close>

text \<open>Reading a Go map yields the zero value for an absent key.\<close>

definition mget :: "('k \<rightharpoonup> int) \<Rightarrow> 'k \<Rightarrow> int" where
  "mget m k = (case m k of None \<Rightarrow> 0 | Some v \<Rightarrow> v)"

lemma mget_empty [simp]: "mget Map.empty k = 0"
  by (simp add: mget_def)

lemma mget_upd [simp]: "mget (m(k \<mapsto> v)) k' = (if k' = k then v else mget m k')"
  by (simp add: mget_def)

section \<open>Sorting stably by a comparison\<close>

text \<open>
  \<open>sort.SliceStable\<close> with a less function, and \<open>sort.Slice\<close> where the
  less function is total on the elements at hand: insertion keeps equal elements in their order.
\<close>

fun ins_by :: "('a \<Rightarrow> 'a \<Rightarrow> bool) \<Rightarrow> 'a \<Rightarrow> 'a list \<Rightarrow> 'a list" where
  "ins_by lt x [] = [x]"
| "ins_by lt x (y # ys) = (if lt y x then y # ins_by lt x ys else x # y # ys)"

definition sort_by :: "('a \<Rightarrow> 'a \<Rightarrow> bool) \<Rightarrow> 'a list \<Rightarrow> 'a list" where
  "sort_by lt xs = foldr (ins_by lt) xs []"

lemma sort_by_Nil [simp]: "sort_by lt [] = []"
  by (simp add: sort_by_def)

lemma sort_by_Cons [simp]: "sort_by lt (x # xs) = ins_by lt x (sort_by lt xs)"
  by (simp add: sort_by_def)

lemma set_ins_by [simp]: "set (ins_by lt x ys) = insert x (set ys)"
  by (induction ys) auto

lemma set_sort_by [simp]: "set (sort_by lt xs) = set xs"
  by (induction xs) auto

lemma length_ins_by [simp]: "length (ins_by lt x ys) = Suc (length ys)"
  by (induction ys) auto

lemma length_sort_by [simp]: "length (sort_by lt xs) = length xs"
  by (induction xs) auto

lemma distinct_ins_by [simp]: "distinct (ins_by lt x ys) \<longleftrightarrow> x \<notin> set ys \<and> distinct ys"
  by (induction ys) auto

lemma distinct_sort_by [simp]: "distinct (sort_by lt xs) \<longleftrightarrow> distinct xs"
  by (induction xs) auto

lemma sum_list_ins_by:
  "sum_list (map f (ins_by lt x ys)) = (f x :: 'b::comm_monoid_add) + sum_list (map f ys)"
  by (induction ys) (auto simp: ac_simps)

lemma sum_list_sort_by:
  "sum_list (map (f :: 'a \<Rightarrow> 'b::comm_monoid_add) (sort_by lt xs)) = sum_list (map f xs)"
  by (induction xs) (auto simp: sum_list_ins_by)

lemma mset_ins_by [simp]: "mset (ins_by lt x ys) = add_mset x (mset ys)"
  by (induction ys) auto

lemma mset_sort_by [simp]: "mset (sort_by lt xs) = mset xs"
  by (induction xs) auto

lemma distinct_map_sort_by: "distinct (map f (sort_by lt xs)) \<longleftrightarrow> distinct (map f xs)"
  by (rule mset_eq_imp_distinct_iff) simp

lemma filter_ins_by_in:
  "P x \<Longrightarrow> length (filter P (ins_by lt x ys)) = Suc (length (filter P ys))"
  by (induction ys) auto

lemma sorted_ins_by:
  assumes "\<And>a b c. le a b \<Longrightarrow> le b c \<Longrightarrow> le a c"
    and "\<And>a b. lt a b \<Longrightarrow> le a b" and "\<And>a b. \<not> lt a b \<Longrightarrow> le b a"
    and "sorted_wrt le ys"
  shows "sorted_wrt le (ins_by lt x ys)"
  using assms(4)
proof (induction ys)
  case Nil
  then show ?case by simp
next
  case (Cons y ys)
  show ?case
  proof (cases "lt y x")
    case True
    with Cons assms(2) show ?thesis by auto
  next
    case False
    then have "le x y" by (rule assms(3))
    with False Cons.prems assms(1) show ?thesis by (auto intro: assms(1) [of x y])
  qed
qed

lemma sorted_sort_by:
  assumes "\<And>a b c. le a b \<Longrightarrow> le b c \<Longrightarrow> le a c"
    and "\<And>a b. lt a b \<Longrightarrow> le a b" and "\<And>a b. \<not> lt a b \<Longrightarrow> le b a"
  shows "sorted_wrt le (sort_by lt xs)"
proof (induction xs)
  case Nil
  then show ?case by simp
next
  case (Cons x xs)
  show ?case unfolding sort_by_Cons by (rule sorted_ins_by [OF assms Cons.IH])
qed

section \<open>Directories\<close>

text \<open>
  A directory is the list of its entries, sorted by name as \<open>os.ReadDir\<close> returns it. Writing
  or renaming onto an existing name replaces the file.
\<close>

type_synonym 'v dir = "(string \<times> 'v) list"

fun dir_put :: "string \<Rightarrow> 'v \<Rightarrow> 'v dir \<Rightarrow> 'v dir" where
  "dir_put k v [] = [(k, v)]"
| "dir_put k v ((k', v') # d) =
     (if k < k' then (k, v) # (k', v') # d
      else if k = k' then (k, v) # d
      else (k', v') # dir_put k v d)"

definition dir_del :: "string \<Rightarrow> 'v dir \<Rightarrow> 'v dir" where
  "dir_del k d = filter (\<lambda>p. fst p \<noteq> k) d"

definition dir_names :: "'v dir \<Rightarrow> string list" where
  "dir_names d = map fst d"

definition dir_ok :: "'v dir \<Rightarrow> bool" where
  "dir_ok d \<longleftrightarrow> sorted_wrt (<) (dir_names d)"

text \<open>What a user of a directory relies on.\<close>

locale directory =
  fixes get :: "'d \<Rightarrow> 'k \<Rightarrow> 'v option"
    and put :: "'k \<Rightarrow> 'v \<Rightarrow> 'd \<Rightarrow> 'd"
    and del :: "'k \<Rightarrow> 'd \<Rightarrow> 'd"
    and names :: "'d \<Rightarrow> 'k list"
    and ok :: "'d \<Rightarrow> bool"
  assumes get_put: "get (put k v d) = (get d)(k \<mapsto> v)"
    and get_del: "get (del k d) = (get d)(k := None)"
    and names_get: "set (names d) = dom (get d)"
    and ok_put: "ok d \<Longrightarrow> ok (put k v d)"
    and ok_del: "ok d \<Longrightarrow> ok (del k d)"
    and ok_names: "ok d \<Longrightarrow> distinct (names d)"
begin

text \<open>Publishing by rename: the destination holds what the source held, the source is gone.\<close>

lemma get_move:
  "get d a = Some v \<Longrightarrow> get (put b v (del a d)) = (get d)(a := None, b \<mapsto> v)"
  by (simp add: get_put get_del)

lemma write_then_rename:
  "a \<noteq> b \<Longrightarrow> get (put b v (del a (put a v d))) k = (if k = b then Some v else if k = a then None else get d k)"
  by (simp add: get_put get_del)

lemma finite_dom: "finite (dom (get d))"
  by (metis List.finite_set names_get)

end

lemma map_of_dir_put: "map_of (dir_put k v d) = (map_of d)(k \<mapsto> v)"
  by (induction k v d rule: dir_put.induct) (auto simp: fun_eq_iff)

lemma map_of_dir_del: "map_of (dir_del k d) = (map_of d)(k := None)"
  by (induction d) (auto simp: dir_del_def fun_eq_iff)

lemma set_dir_names: "set (dir_names d) = dom (map_of d)"
  by (simp add: dir_names_def dom_map_of_conv_image_fst)

lemma set_names_put: "set (dir_names (dir_put k v d)) = insert k (set (dir_names d))"
  by (simp add: set_dir_names map_of_dir_put)

lemma dir_ok_Nil [simp]: "dir_ok []"
  by (simp add: dir_ok_def dir_names_def)

lemma dir_ok_Cons [simp]: "dir_ok ((k, v) # d) \<longleftrightarrow> (\<forall>x\<in>set (dir_names d). k < x) \<and> dir_ok d"
  by (simp add: dir_ok_def dir_names_def)

lemma dir_ok_put: "dir_ok d \<Longrightarrow> dir_ok (dir_put k v d)"
proof (induction k v d rule: dir_put.induct)
  case (1 k v)
  then show ?case by (simp add: dir_names_def)
next
  case (2 k v k' v' d)
  consider "k < k'" | "k = k'" | "k' < k" by fastforce
  then show ?case
  proof cases
    case 1
    with 2 show ?thesis by (auto simp: dir_names_def intro: order_less_trans)
  next
    case 2
    with "2.prems" show ?thesis by simp
  next
    case 3
    with 2 show ?thesis by (auto simp: set_names_put)
  qed
qed

lemma dir_ok_del: "dir_ok d \<Longrightarrow> dir_ok (dir_del k d)"
  by (induction d) (auto simp: dir_del_def dir_names_def)

lemma dir_ok_distinct: "dir_ok d \<Longrightarrow> distinct (dir_names d)"
  by (simp add: dir_ok_def strict_sorted_iff)

lemma dir_ok_sorted: "dir_ok d \<Longrightarrow> sorted (dir_names d)"
  by (simp add: dir_ok_def strict_sorted_iff)

interpretation fs: directory map_of dir_put dir_del dir_names dir_ok
  by unfold_locales
    (auto simp: map_of_dir_put map_of_dir_del set_dir_names dir_ok_put dir_ok_del dir_ok_distinct)

section \<open>Holding on to keys through a run of operations\<close>

text \<open>
  What the delivery side needs of a store: every legal operation keeps the store's invariant
  and lets go of no key but those it is told to release. Then no run of legal operations loses
  a key that none of them releases.
\<close>

locale keeper =
  fixes exec :: "'o \<Rightarrow> 's \<Rightarrow> 's"
    and legal :: "'o \<Rightarrow> bool"
    and invar :: "'s \<Rightarrow> bool"
    and held :: "'s \<Rightarrow> 'k set"
    and releases :: "'o \<Rightarrow> 'k set"
  assumes invar_exec: "legal oo \<Longrightarrow> invar s \<Longrightarrow> invar (exec oo s)"
    and held_exec: "legal oo \<Longrightarrow> invar s \<Longrightarrow> held s - releases oo \<subseteq> held (exec oo s)"
begin

lemma invar_run: "list_all legal ops \<Longrightarrow> invar s \<Longrightarrow> invar (fold exec ops s)"
  by (induction ops arbitrary: s) (auto intro: invar_exec)

lemma held_run:
  "list_all legal ops \<Longrightarrow> invar s \<Longrightarrow>
   held s - (\<Union>oo\<in>set ops. releases oo) \<subseteq> held (fold exec ops s)"
proof (induction ops arbitrary: s)
  case Nil
  then show ?case by simp
next
  case (Cons x ops)
  then have "held (exec x s) - (\<Union>oo\<in>set ops. releases oo) \<subseteq> held (fold exec ops (exec x s))"
    by (auto intro: invar_exec)
  moreover have "held s - releases x \<subseteq> held (exec x s)"
    using Cons.prems by (auto intro: held_exec [THEN subsetD])
  ultimately show ?case by auto
qed

end

end
