(* ===== verification/GoLib.thy ===== *)
theory GoLib
  imports Prelude
begin

text \<open>
  What the program uses of Go's standard library, written out: byte strings and the functions
  of package \<open>strings\<close> it calls, the decimal formatting of \<open>fmt\<close> and \<open>strconv\<close>, and
  package \<open>time\<close>. A string is its list of bytes; the Unicode tables behind
  \<open>TrimSpace\<close> and \<open>ToLower\<close> are represented by their ASCII part.
\<close>

section \<open>Strings\<close>

definition HasPrefix :: "string \<Rightarrow> string \<Rightarrow> bool" where
  "HasPrefix s p \<longleftrightarrow> take (length p) s = p"

definition HasSuffix :: "string \<Rightarrow> string \<Rightarrow> bool" where
  "HasSuffix s p \<longleftrightarrow> length p \<le> length s \<and> drop (length s - length p) s = p"

definition TrimSuffix :: "string \<Rightarrow> string \<Rightarrow> string" where
  "TrimSuffix s p = (if HasSuffix s p then take (length s - length p) s else s)"

definition TrimPrefix :: "string \<Rightarrow> string \<Rightarrow> string" where
  "TrimPrefix s p = (if HasPrefix s p then drop (length p) s else s)"

definition is_space :: "char \<Rightarrow> bool" where
  "is_space c \<longleftrightarrow> (let n = (of_char c :: nat) in n = 32 \<or> 9 \<le> n \<and> n \<le> 13)"

definition TrimSpace :: "string \<Rightarrow> string" where
  "TrimSpace s = rev (dropWhile is_space (rev (dropWhile is_space s)))"

definition lower_char :: "char \<Rightarrow> char" where
  "lower_char c = (let n = (of_char c :: nat) in if 65 \<le> n \<and> n \<le> 90 then char_of (n + 32) else c)"

definition ToLower :: "string \<Rightarrow> string" where
  "ToLower s = map lower_char s"

text \<open>\<open>strings.Index\<close>: the position of the first occurrence.\<close>

fun Index :: "string \<Rightarrow> string \<Rightarrow> nat option" where
  "Index [] p = (if p = [] then Some 0 else None)"
| "Index (c # s) p = (if HasPrefix (c # s) p then Some 0 else map_option Suc (Index s p))"

text \<open>\<open>strings.Cut\<close>: what is before and after the first separator.\<close>

definition Cut :: "string \<Rightarrow> string \<Rightarrow> string \<times> string \<times> bool" where
  "Cut s sep = (case Index s sep of
     None \<Rightarrow> (s, [], False)
   | Some i \<Rightarrow> (take i s, drop (i + length sep) s, True))"

lemma HasPrefix_append [simp]: "HasPrefix (p @ s) p"
  by (simp add: HasPrefix_def)

lemma HasPrefix_iff: "HasPrefix s p \<longleftrightarrow> (\<exists>t. s = p @ t)"
  unfolding HasPrefix_def by (metis append_eq_conv_conj append_take_drop_id)

lemma HasSuffix_append [simp]: "HasSuffix (s @ p) p"
  by (simp add: HasSuffix_def)

lemma HasSuffix_iff: "HasSuffix s p \<longleftrightarrow> (\<exists>t. s = t @ p)"
  unfolding HasSuffix_def by (metis append_take_drop_id diff_diff_cancel diff_le_self
      length_append append_eq_conv_conj add_diff_cancel_right' le_add2)

lemma TrimSuffix_append [simp]: "TrimSuffix (s @ p) p = s"
  by (simp add: TrimSuffix_def)

lemma TrimSuffix_cases: "s = TrimSuffix s p @ p \<or> \<not> HasSuffix s p \<and> TrimSuffix s p = s"
  by (auto simp: TrimSuffix_def HasSuffix_iff)

definition Contains :: "string \<Rightarrow> string \<Rightarrow> bool" where
  "Contains s p \<longleftrightarrow> Index s p \<noteq> None"

text \<open>\<open>strings.LastIndex\<close>: the position of the last occurrence.\<close>

fun LastIndex :: "string \<Rightarrow> string \<Rightarrow> nat option" where
  "LastIndex [] p = (if p = [] then Some 0 else None)"
| "LastIndex (c # s) p =
     (case LastIndex s p of Some i \<Rightarrow> Some (Suc i)
      | None \<Rightarrow> if HasPrefix (c # s) p then Some 0 else None)"

text \<open>\<open>strings.Fields\<close> (the words between runs of white space) and \<open>strings.Join\<close>.\<close>

fun fieldsLoop :: "string \<Rightarrow> string \<Rightarrow> string list" where
  "fieldsLoop w [] = (if w = [] then [] else [w])"
| "fieldsLoop w (c # s) =
     (if is_space c then (if w = [] then fieldsLoop [] s else w # fieldsLoop [] s)
      else fieldsLoop (w @ [c]) s)"

definition Fields :: "string \<Rightarrow> string list" where
  "Fields s = fieldsLoop [] s"

fun Join :: "string list \<Rightarrow> string \<Rightarrow> string" where
  "Join [] sep = []"
| "Join [w] sep = w"
| "Join (w # ws) sep = w @ sep @ Join ws sep"

lemma Index_Some: "Index s p = Some i \<Longrightarrow> i + length p \<le> length s \<and> take (length p) (drop i s) = p"
proof (induction s arbitrary: i)
  case Nil
  then show ?case by (auto split: if_splits)
next
  case (Cons c s)
  then show ?case
    by (auto simp: HasPrefix_def split: if_splits) (metis length_Cons length_take min.absorb_iff2 nat_le_linear min.cobounded1)
qed

lemma LastIndex_Some: "LastIndex s p = Some i \<Longrightarrow> i + length p \<le> length s \<and> drop i s = p @ drop (i + length p) s"
proof (induction s arbitrary: i)
  case Nil
  then show ?case by (auto split: if_splits)
next
  case (Cons c s)
  show ?case
  proof (cases "LastIndex s p")
    case (Some j)
    with Cons show ?thesis by auto
  next
    case None
    with Cons.prems have "i = 0" "HasPrefix (c # s) p" by (auto split: if_splits)
    then obtain t where "i = 0" "c # s = p @ t" by (auto simp: HasPrefix_iff)
    then show ?thesis using arg_cong [of "c # s" "p @ t" length] by simp
  qed
qed

lemma dropWhile_idem: "dropWhile P (dropWhile P xs) = dropWhile P xs"
  by (induction xs) auto

lemma TrimSpace_idem [simp]: "TrimSpace (TrimSpace s) = TrimSpace s"
proof -
  let ?t = "dropWhile is_space s"
  let ?u = "rev (dropWhile is_space (rev ?t))"
  have "dropWhile is_space ?u = ?u"
  proof (cases "?u")
    case Nil
    then show ?thesis by (metis dropWhile.simps(1))
  next
    case (Cons c r)
    have "?t = ?u @ rev (takeWhile is_space (rev ?t))"
      by (metis rev_append rev_rev_ident takeWhile_dropWhile_id)
    with Cons have "?t \<noteq> []" "hd ?t = c" by (metis append_is_Nil_conv list.distinct(1), metis append_Cons list.sel(1))
    then have "\<not> is_space c" using hd_dropWhile [of is_space s] by blast
    with Cons show ?thesis by simp
  qed
  then show ?thesis by (simp add: TrimSpace_def dropWhile_idem)
qed

text \<open>\<open>strings.Count\<close> for a non-empty pattern: occurrences that do not overlap.\<close>

function Count :: "string \<Rightarrow> string \<Rightarrow> nat" where
  "Count s p =
     (if p = [] then length s + 1
      else case Index s p of None \<Rightarrow> 0 | Some i \<Rightarrow> Suc (Count (drop (i + length p) s) p))"
  by pat_completeness auto
termination
proof (relation "measure (\<lambda>(s, p). length s)")
  fix s p :: string and i
  assume "p \<noteq> []" "Index s p = Some i"
  then show "((drop (i + length p) s, p), (s, p)) \<in> measure (\<lambda>(s, p). length s)"
    using Index_Some [of s p i] by (cases s) auto
qed simp

declare Count.simps [simp del]

text \<open>The bytes that start a rune of valid UTF-8.\<close>

definition rune_start :: "char \<Rightarrow> bool" where
  "rune_start c \<longleftrightarrow> (let n = (of_char c :: nat) in n < 128 \<or> 192 \<le> n)"

section \<open>Decimal numbers\<close>

definition digit :: "nat \<Rightarrow> char" where
  "digit n = char_of (48 + n)"

fun dec :: "nat \<Rightarrow> string" where
  "dec n = (if n < 10 then [digit n] else dec (n div 10) @ [digit (n mod 10)])"

declare dec.simps [simp del]

text \<open>\<open>strconv.FormatInt(i, 10)\<close> and \<open>strconv.Itoa\<close>.\<close>

definition FormatInt :: "int \<Rightarrow> string" where
  "FormatInt i = (if i < 0 then CHR ''-'' # dec (nat (- i)) else dec (nat i))"

text \<open>\<open>fmt\<close>'s \<open>%0wd\<close>: zeros after the sign, up to the width.\<close>

definition fmt0 :: "nat \<Rightarrow> int \<Rightarrow> string" where
  "fmt0 w i =
     (if i < 0
      then CHR ''-'' # replicate (w - 1 - length (dec (nat (- i)))) (CHR ''0'') @ dec (nat (- i))
      else replicate (w - length (dec (nat i))) (CHR ''0'') @ dec (nat i))"

text \<open>The digits of a number in a fixed width, the shape \<open>fmt0\<close> produces when it fits.\<close>

fun digs :: "nat \<Rightarrow> nat \<Rightarrow> string" where
  "digs 0 n = []"
| "digs (Suc w) n = digs w (n div 10) @ [digit (n mod 10)]"

lemma of_char_digit: "n < 10 \<Longrightarrow> of_char (digit n) = (48 + n :: nat)"
  by (simp add: digit_def)

lemma digit_less: "a < b \<Longrightarrow> b < 10 \<Longrightarrow> digit a < digit b"
  by (simp add: less_char_def of_char_digit)

lemma length_digs [simp]: "length (digs w n) = w"
  by (induction w arbitrary: n) auto

lemma digs_0: "digs w 0 = replicate w (CHR ''0'')"
proof (induction w)
  case 0
  then show ?case by simp
next
  case (Suc w)
  have "digit 0 = CHR ''0''" by code_simp
  with Suc show ?case by (simp add: replicate_append_same)
qed

lemma dec_pos_length: "0 < length (dec n)"
  by (subst dec.simps) simp

lemma pad_dec: "n < 10 ^ w \<Longrightarrow> 0 < w \<Longrightarrow> length (dec n) \<le> w \<and>
    replicate (w - length (dec n)) (CHR ''0'') @ dec n = digs w n"
proof (induction w arbitrary: n)
  case 0
  then show ?case by simp
next
  case (Suc w)
  show ?case
  proof (cases "n < 10")
    case True
    then have "dec n = [digit n]" by (subst dec.simps) simp
    with True show ?thesis by (simp add: digs_0)
  next
    case False
    then have d: "dec n = dec (n div 10) @ [digit (n mod 10)]" by (subst dec.simps) simp
    from Suc.prems have "n div 10 < 10 ^ w" by (simp add: less_mult_imp_div_less mult.commute)
    moreover have "0 < w" using Suc.prems False by (cases w) auto
    ultimately have "length (dec (n div 10)) \<le> w \<and>
        replicate (w - length (dec (n div 10))) (CHR ''0'') @ dec (n div 10) = digs w (n div 10)"
      by (rule Suc.IH)
    with d show ?thesis by simp
  qed
qed

lemma fmt0_digs: "0 \<le> i \<Longrightarrow> i < 10 ^ w \<Longrightarrow> 0 < w \<Longrightarrow> fmt0 w i = digs w (nat i)"
proof -
  assume "0 \<le> i" "i < 10 ^ w" "0 < w"
  then have "nat i < 10 ^ w" by (simp add: nat_less_iff)
  with pad_dec [OF this] \<open>0 < w\<close> \<open>0 \<le> i\<close> show ?thesis by (simp add: fmt0_def)
qed

subsection \<open>Fixed-width digits sort as the numbers do\<close>

lemma less_append_same_length:
  fixes xs ys :: "string"
  shows "length xs = length ys \<Longrightarrow> xs < ys \<Longrightarrow> xs @ us < ys @ vs"
  by (induction xs ys rule: list_induct2) (auto simp: not_less)

lemma less_append_last: "(a :: char) < b \<Longrightarrow> xs @ a # us < xs @ b # vs"
  by (induction xs) auto

lemma digs_less: "a < b \<Longrightarrow> b < 10 ^ w \<Longrightarrow> digs w a < digs w b"
proof (induction w arbitrary: a b)
  case 0
  then show ?case by simp
next
  case (Suc w)
  have "b div 10 < 10 ^ w" using Suc.prems by (simp add: less_mult_imp_div_less mult.commute)
  show ?case
  proof (cases "a div 10 < b div 10")
    case True
    then have "digs w (a div 10) < digs w (b div 10)"
      using \<open>b div 10 < 10 ^ w\<close> by (rule Suc.IH)
    then show ?thesis by (simp add: less_append_same_length)
  next
    case False
    with Suc.prems(1) have eq: "a div 10 = b div 10"
      by (simp add: div_le_mono order_antisym)
    with Suc.prems(1) have "a mod 10 < b mod 10"
      by (metis div_mult_mod_eq nat_add_left_cancel_less)
    with eq show ?thesis by (simp add: less_append_last digit_less)
  qed
qed

lemma fmt0_less:
  assumes "0 \<le> i" "i < j" "j < 10 ^ w" "0 < w"
  shows "fmt0 w i @ us < fmt0 w j @ vs"
proof -
  have "digs w (nat i) < digs w (nat j)"
    using assms by (intro digs_less) (auto simp: nat_less_iff)
  with assms show ?thesis by (simp add: fmt0_digs less_append_same_length)
qed

section \<open>Time\<close>

text \<open>
  A \<open>time.Time\<close> is its instant in nanoseconds since Go's zero time (January 1, year 1,
  UTC), so the zero value is 0; monotonic clock readings are not represented. A
  \<open>time.Duration\<close> is its count of nanoseconds, an int64: \<open>Sub\<close> saturates at its
  range, and negation wraps at the minimum.
\<close>

type_synonym time = int
type_synonym duration = int

definition IsZero :: "time \<Rightarrow> bool" where
  "IsZero t \<longleftrightarrow> t = 0"

definition unix_epoch :: int where
  "unix_epoch = 62135596800"

definition second :: duration where "second = 1000000000"
definition minute :: duration where "minute = 60 * second"
definition hour :: duration where "hour = 60 * minute"

definition max_duration :: duration where "max_duration = 2 ^ 63 - 1"
definition min_duration :: duration where "min_duration = - (2 ^ 63)"

definition Sub :: "time \<Rightarrow> time \<Rightarrow> duration" where
  "Sub t u = max min_duration (min max_duration (t - u))"

definition neg64 :: "int \<Rightarrow> int" where
  "neg64 d = (if d = min_duration then min_duration else - d)"

definition Unix :: "time \<Rightarrow> int" where
  "Unix t = t div 1000000000 - unix_epoch"

definition UnixMilli :: "time \<Rightarrow> int" where
  "UnixMilli t = t div 1000000 - 1000 * unix_epoch"

text \<open>\<open>Duration.Milliseconds\<close>: integer division towards zero.\<close>

definition Milliseconds :: "duration \<Rightarrow> int" where
  "Milliseconds d = (if d < 0 then - (- d div 1000000) else d div 1000000)"

lemmas go_time = IsZero_def Sub_def neg64_def Unix_def UnixMilli_def Milliseconds_def
  max_duration_def min_duration_def second_def minute_def hour_def unix_epoch_def

lemma Sub_pos_iff [simp]: "0 < Sub t u \<longleftrightarrow> u < t"
  by (auto simp: go_time)

lemma Sub_bounds: "min_duration \<le> Sub t u" "Sub t u \<le> max_duration"
  by (auto simp: go_time)

lemma UnixMilli_mono: "t \<le> u \<Longrightarrow> UnixMilli t \<le> UnixMilli u"
  by (simp add: UnixMilli_def zdiv_mono1)

lemma Milliseconds_mono: "d \<le> e \<Longrightarrow> Milliseconds d \<le> Milliseconds e"
  by (auto simp: Milliseconds_def zdiv_mono1 intro: order_trans [of _ 0])

lemma Milliseconds_nonneg: "0 \<le> d \<Longrightarrow> 0 \<le> Milliseconds d"
  by (simp add: Milliseconds_def)

end
