(* ===== verification/Authz.thy ===== *)
theory Authz
  imports GoLib
begin

text \<open>
  Who may read a session (\<open>server/auth/auth.go\<close>, \<open>server/auth/authz.go\<close>): roles, email
  identity, share grants and the decision, with the order of its rules and its audit flag.
  A role is the string it is in the code; a denied decision is the zero \<open>Decision\<close>.
\<close>

section \<open>Identity\<close>

type_synonym Role = string

definition RoleAdmin :: Role where "RoleAdmin = ''admin''"
definition RoleMember :: Role where "RoleMember = ''member''"

definition Valid :: "Role \<Rightarrow> bool" where
  "Valid r \<longleftrightarrow> r = RoleAdmin \<or> r = RoleMember"

definition ParseRole :: "string \<Rightarrow> Role option" where
  "ParseRole s = (let r = ToLower (TrimSpace s) in if \<not> Valid r then None else Some r)"

definition Normalize :: "string \<Rightarrow> string" where
  "Normalize email = ToLower (TrimSpace email)"

definition SameEmail :: "string \<Rightarrow> string \<Rightarrow> bool" where
  "SameEmail a b \<longleftrightarrow> (let na = Normalize a; nb = Normalize b in na \<noteq> [] \<and> na = nb)"

section \<open>The decision\<close>

datatype Via = ViaNone | ViaOwn | ViaAdmin | ViaShare

record Viewer =
  Email :: string
  vRole :: Role

record Grant =
  g_ID :: string
  Grantee :: string
  ExpiresAt :: time
  RevokedAt :: time

definition Active :: "Grant \<Rightarrow> time \<Rightarrow> bool" where
  "Active g t =
     (if \<not> IsZero (RevokedAt g) \<and> \<not> t < RevokedAt g then False
      else if \<not> IsZero (ExpiresAt g) \<and> \<not> t < ExpiresAt g then False
      else True)"

record Decision =
  is_allowed :: bool
  via :: Via
  Audit :: bool
  ShareID :: string

definition no_Decision :: Decision where
  "no_Decision = \<lparr>is_allowed = False, via = ViaNone, Audit = False, ShareID = []\<rparr>"

fun grantLoop :: "Viewer \<Rightarrow> time \<Rightarrow> Grant list \<Rightarrow> Decision" where
  "grantLoop v t [] = no_Decision"
| "grantLoop v t (g # gs) =
     (if \<not> Active g t then grantLoop v t gs
      else if Grantee g = [] \<or> SameEmail (Email v) (Grantee g)
      then \<lparr>is_allowed = True, via = ViaShare, Audit = True, ShareID = g_ID g\<rparr>
      else grantLoop v t gs)"

definition CanRead :: "Viewer \<Rightarrow> string \<Rightarrow> Grant list \<Rightarrow> time \<Rightarrow> Decision" where
  "CanRead v owner grants t =
     (if Normalize (Email v) = [] then no_Decision
      else if SameEmail (Email v) owner then no_Decision\<lparr>is_allowed := True, via := ViaOwn\<rparr>
      else if vRole v = RoleAdmin then no_Decision\<lparr>is_allowed := True, via := ViaAdmin, Audit := True\<rparr>
      else grantLoop v t grants)"

definition CanShare :: "Viewer \<Rightarrow> string \<Rightarrow> bool" where
  "CanShare v owner =
     (if Normalize (Email v) = [] then False
      else SameEmail (Email v) owner \<or> vRole v = RoleAdmin)"

section \<open>Normalising twice\<close>

lemma of_char_lower: "of_char (lower_char c) =
    (let n = (of_char c :: nat) in if 65 \<le> n \<and> n \<le> 90 then n + 32 else n)"
  by (simp add: lower_char_def Let_def)

lemma is_space_lower [simp]: "is_space (lower_char c) = is_space c"
  by (auto simp: is_space_def of_char_lower Let_def)

lemma lower_lower [simp]: "lower_char (lower_char c) = lower_char c"
proof -
  have "(of_char (lower_char (lower_char c)) :: nat) = of_char (lower_char c)"
    by (simp add: of_char_lower Let_def)
  then show ?thesis by simp
qed

lemma ToLower_TrimSpace: "TrimSpace (ToLower s) = ToLower (TrimSpace s)"
proof -
  have d: "dropWhile is_space (map lower_char xs) = map lower_char (dropWhile is_space xs)" for xs
    by (induction xs) auto
  show ?thesis by (simp add: TrimSpace_def ToLower_def d rev_map)
qed

lemma Normalize_idem [simp]: "Normalize (Normalize e) = Normalize e"
  by (simp add: Normalize_def ToLower_TrimSpace) (simp add: ToLower_def)

lemma SameEmail_equiv: "SameEmail a b \<Longrightarrow> SameEmail b c \<Longrightarrow> SameEmail a c" "SameEmail a b = SameEmail b a"
  by (auto simp: SameEmail_def Let_def)

section \<open>The properties\<close>

lemma grantLoop_find:
  "grantLoop v t gs =
     (case find (\<lambda>g. Active g t \<and> (Grantee g = [] \<or> SameEmail (Email v) (Grantee g))) gs of
        None \<Rightarrow> no_Decision
      | Some g \<Rightarrow> \<lparr>is_allowed = True, via = ViaShare, Audit = True, ShareID = g_ID g\<rparr>)"
  by (induction gs) auto

lemma grantLoop_allowed:
  "is_allowed (grantLoop v t gs) \<longleftrightarrow>
     (\<exists>g. g \<in> set gs \<and> Active g t \<and> (Grantee g = [] \<or> SameEmail (Email v) (Grantee g)))"
  by (induction gs) (auto simp: no_Decision_def)

lemma grantLoop_audit: "Audit (grantLoop v t gs) = is_allowed (grantLoop v t gs)"
  by (induction gs) (auto simp: no_Decision_def)

text \<open>
  C19. The read rule, complete: a read is allowed exactly to a caller with an address who owns
  the session, is an administrator, or is named by (or falls under) a grant active now; it is
  audited exactly when it is allowed and the session is somebody else's; and an empty address
  gets nothing, whatever its role and whatever the grants.
\<close>
theorem CanRead_rule:
  "(is_allowed (CanRead v owner gs t) \<longleftrightarrow>
      Normalize (Email v) \<noteq> [] \<and>
      (SameEmail (Email v) owner \<or> vRole v = RoleAdmin \<or>
       (\<exists>g. g \<in> set gs \<and> Active g t \<and> (Grantee g = [] \<or> SameEmail (Email v) (Grantee g))))) \<and>
   (Audit (CanRead v owner gs t) \<longleftrightarrow> is_allowed (CanRead v owner gs t) \<and> \<not> SameEmail (Email v) owner) \<and>
   (via (CanRead v owner gs t) = ViaOwn \<longleftrightarrow> is_allowed (CanRead v owner gs t) \<and> SameEmail (Email v) owner) \<and>
   (via (CanRead v owner gs t) = ViaNone \<longleftrightarrow> CanRead v owner gs t = no_Decision)"
proof -
  have "via (grantLoop v t gs) \<noteq> ViaOwn" "via (grantLoop v t gs) = ViaNone \<longleftrightarrow> grantLoop v t gs = no_Decision"
    by (auto simp: grantLoop_find no_Decision_def split: option.splits)
  then show ?thesis
    by (auto simp: CanRead_def grantLoop_allowed grantLoop_audit) (auto simp: no_Decision_def)
qed

text \<open>
  Access by a grant ends and does not come back: a caller whom the rule allows at some time
  was allowed at every earlier one with the same grants, so a share that has expired or been
  revoked stays unusable; at the very instant of expiry it already is.
\<close>
theorem CanRead_only_expires:
  assumes "is_allowed (CanRead v owner gs u)" "t \<le> u"
  shows "is_allowed (CanRead v owner gs t) \<and> (0 < u \<longrightarrow> \<not> Active (g\<lparr>ExpiresAt := u\<rparr>) u)"
proof -
  have "Active h u \<Longrightarrow> Active h t" for h using assms(2) by (auto simp: Active_def split: if_splits)
  then have "is_allowed (CanRead v owner gs t)"
    using assms(1) by (auto simp: CanRead_def grantLoop_allowed no_Decision_def split: if_splits)
  then show ?thesis by (simp add: Active_def IsZero_def)
qed

text \<open>A viewer and a share to look at.\<close>

definition sample_grant :: Grant where
  "sample_grant = \<lparr>g_ID = ''sh1'', Grantee = ''Dev@Example.com'', ExpiresAt = 100, RevokedAt = 0\<rparr>"

theorem CanRead_only_expires_witness:
  "is_allowed (CanRead \<lparr>Email = '' dev@example.com'', vRole = RoleMember\<rparr> ''boss@example.com'' [sample_grant] 40) \<and>
   \<not> Active sample_grant 100"
proof -
  have "is_allowed (CanRead \<lparr>Email = '' dev@example.com'', vRole = RoleMember\<rparr> ''boss@example.com'' [sample_grant] 99)"
    by code_simp
  from CanRead_only_expires [OF this, of 40] show ?thesis
    by (simp add: sample_grant_def Active_def IsZero_def)
qed

text \<open>
  Spelling changes nothing: two spellings of one address get the same decision, as viewer
  and as owner, and a received share gives no right to share on.
\<close>
theorem CanRead_spelling:
  assumes "SameEmail a b" "SameEmail owner owner'"
  shows "CanRead \<lparr>Email = a, vRole = r\<rparr> owner gs t = CanRead \<lparr>Email = b, vRole = r\<rparr> owner' gs t \<and>
    CanShare \<lparr>Email = a, vRole = r\<rparr> owner = CanShare \<lparr>Email = b, vRole = r\<rparr> owner' \<and>
    (CanShare \<lparr>Email = a, vRole = r\<rparr> owner \<longrightarrow>
       via (CanRead \<lparr>Email = a, vRole = r\<rparr> owner gs t) \<noteq> ViaShare)"
proof -
  have n: "Normalize a = Normalize b" "Normalize owner = Normalize owner'"
    using assms by (simp_all add: SameEmail_def Let_def)
  then have "SameEmail a x = SameEmail b x" "SameEmail x owner = SameEmail x owner'" for x
    by (simp_all add: SameEmail_def)
  then have "grantLoop \<lparr>Email = a, vRole = r\<rparr> t gs = grantLoop \<lparr>Email = b, vRole = r\<rparr> t gs"
    "SameEmail a owner = SameEmail b owner'"
    by (simp_all add: grantLoop_find cong: option.case_cong)
  then show ?thesis using n by (auto simp: CanRead_def CanShare_def no_Decision_def)
qed

theorem CanRead_spelling_witness:
  "CanRead \<lparr>Email = ''Dev@Example.COM '', vRole = RoleMember\<rparr> ''boss@example.com'' [sample_grant] 40 =
   CanRead \<lparr>Email = ''dev@example.com'', vRole = RoleMember\<rparr> ''BOSS@example.com'' [sample_grant] 40"
proof -
  have "SameEmail ''Dev@Example.COM '' ''dev@example.com''" "SameEmail ''boss@example.com'' ''BOSS@example.com''"
    by code_simp+
  from CanRead_spelling [OF this] show ?thesis by blast
qed

end
