(* ===== verification/Normalize.thy ===== *)
theory Normalize
  imports GoLib
begin

text \<open>
  What a user record is (\<open>internal/normalize/normalize.go\<close>, \<open>internal/normalize/skills.go\<close>):
  the ordered rules of \<open>ClassifyUser\<close> and their helpers, the assistant rule, session titles
  and the commands the skill derivation reads. The decoded transcript record is a value
  (\<open>raw_doc\<close>); text is bytes, and runes are counted at the bytes that start one.
\<close>

section \<open>Kinds and messages\<close>

text \<open>\<open>KindNone\<close> is the empty kind of rows stored before kinds existed.\<close>

datatype Kind =
    KindNone | KindHuman | KindSlashCommand | KindCaveat | KindCommandOutput
  | KindTaskNotification | KindSystemReminder | KindSystemNotification | KindTeammateMessage
  | KindInterrupted | KindIDEContext | KindCompactSummary | KindEnvContext | KindHarnessInjected
  | KindSubagentTask | KindAssistantText | KindAssistantUsageOnly | KindTool

record Message =
  m_kind :: Kind
  m_text :: string
  Command :: string
  Args :: string
  Envelope :: bool
  Attached :: "string list"
  Subkind :: string

definition msg :: "Kind \<Rightarrow> string \<Rightarrow> Message" where
  "msg k t = \<lparr>m_kind = k, m_text = t, Command = [], Args = [], Envelope = False, Attached = [], Subkind = []\<rparr>"

definition IsHumanKind :: "Kind \<Rightarrow> bool" where
  "IsHumanKind k \<longleftrightarrow> k = KindHuman \<or> k = KindSlashCommand"

record rawProbe =
  IsMeta :: bool
  IsCompactSummary :: bool
  PromptSource :: string
  OriginKind :: string

text \<open>A record line: absent, not decodable, or its probe with the hook event name it carries.\<close>

datatype raw_doc = NoRaw | BadRaw | Raw rawProbe string

definition no_probe :: rawProbe where
  "no_probe = \<lparr>IsMeta = False, IsCompactSummary = False, PromptSource = [], OriginKind = []\<rparr>"

definition probeRaw :: "raw_doc \<Rightarrow> rawProbe" where
  "probeRaw raw =
     (case raw of NoRaw \<Rightarrow> no_probe | BadRaw \<Rightarrow> no_probe
      | Raw p hook \<Rightarrow> if hook \<noteq> [] then no_probe else p)"

section \<open>Helpers\<close>

definition newline :: char where "newline = CHR 0x0A"
definition quote :: char where "quote = CHR 0x22"

definition hasAnyPrefix :: "string \<Rightarrow> string list \<Rightarrow> bool" where
  "hasAnyPrefix t ps \<longleftrightarrow> list_ex (HasPrefix t) ps"

definition firstLine :: "string \<Rightarrow> string" where
  "firstLine t = TrimSpace (fst (Cut (TrimSpace t) [newline]))"

definition oneLine :: "string \<Rightarrow> string" where
  "oneLine t = Join (Fields t) '' ''"

definition firstNonEmpty :: "string \<Rightarrow> string \<Rightarrow> string" where
  "firstNonEmpty a b = (if a \<noteq> [] then a else b)"

definition open_tag :: "string \<Rightarrow> string" where "open_tag n = ''<'' @ n @ ''>''"
definition close_tag :: "string \<Rightarrow> string" where "close_tag n = ''</'' @ n @ ''>''"

definition envelope :: "string \<Rightarrow> string \<Rightarrow> string option" where
  "envelope t tag =
     (if \<not> HasPrefix t (open_tag tag) \<or> \<not> HasSuffix t (close_tag tag) \<or> Count t (close_tag tag) \<noteq> 1 then None
      else Some (TrimSuffix (TrimPrefix t (open_tag tag)) (close_tag tag)))"

definition xfield :: "string \<Rightarrow> string \<Rightarrow> string" where
  "xfield t name =
     (case Cut t (open_tag name) of (_, tail, ok) \<Rightarrow>
        if \<not> ok then []
        else (case Cut tail (close_tag name) of (v, _, ok2) \<Rightarrow> if \<not> ok2 then [] else TrimSpace v))"

definition teammatePreface :: string where
  "teammatePreface = ''Another Claude session sent a message:''"

definition teammateEnvelope :: "string \<Rightarrow> string option" where
  "teammateEnvelope text0 =
     (let t = TrimSpace (TrimPrefix text0 teammatePreface)
      in if \<not> HasPrefix t ''<teammate-message '' then None
         else (case Index t ''>'' of
                 None \<Rightarrow> None
               | Some e \<Rightarrow>
                   (case Cut (take e t) (''teammate_id='' @ [quote]) of (_, after, ok) \<Rightarrow>
                      if \<not> ok then None else Some (fst (Cut after [quote])))))"

definition compactPrefixes :: "string list" where
  "compactPrefixes = [''This session is being continued from a previous conversation'']"
definition compactBoundary :: string where "compactBoundary = ''Conversation compacted''"
definition idePrefixes :: "string list" where "idePrefixes = [''<ide_opened_file>'', ''<ide_selection>'']"
definition envPrefixes :: "string list" where
  "envPrefixes = [''<codex_internal_context'', ''<in-app-browser-context'', ''The following is the Codex agent history'']"
definition injectedPrefixes :: "string list" where
  "injectedPrefixes = [''# AGENTS.md instructions'', ''<user_instructions>'', ''<recommended_plugins>'',
     ''<skill>'', ''<heartbeat>'', ''<system_instruction>'', ''<permissions'']"

definition codexEnvironment :: "string \<Rightarrow> bool" where
  "codexEnvironment t =
     (case envelope t ''environment_context'' of None \<Rightarrow> False
      | Some body \<Rightarrow> xfield body ''cwd'' \<noteq> [] \<and> xfield body ''shell'' \<noteq> [])"

section \<open>System reminders\<close>

definition reminderOpen :: string where "reminderOpen = ''<system-reminder>''"
definition reminderClose :: string where "reminderClose = ''</system-reminder>''"

lemma length_TrimSpace: "length (TrimSpace s) \<le> length s"
proof -
  have "length (TrimSpace s) \<le> length (dropWhile is_space s)"
    using length_dropWhile_le [of is_space "rev (dropWhile is_space s)"] by (simp add: TrimSpace_def)
  also have "\<dots> \<le> length s" by (rule length_dropWhile_le)
  finally show ?thesis .
qed

text \<open>The loop peels one block per round off the trimmed text, so it ends.\<close>

function stripLoop :: "string \<Rightarrow> string list \<Rightarrow> string \<times> string list" where
  "stripLoop core0 attached =
     (let core = TrimSpace core0
      in if HasPrefix core reminderOpen then
           (case Index core reminderClose of
              None \<Rightarrow> (core, attached)
            | Some e \<Rightarrow> stripLoop (drop (e + length reminderClose) core)
                                 (attached @ [take (e + length reminderClose) core]))
         else if HasSuffix core reminderClose then
           (case LastIndex core reminderOpen of
              None \<Rightarrow> (core, attached)
            | Some b \<Rightarrow> stripLoop (take b core) (attached @ [drop b core]))
         else (core, attached))"
  by pat_completeness auto
termination
proof (relation "measure (\<lambda>(s, a). length s)")
  fix core0 core :: string and attached :: "string list" and e
  assume c: "core = TrimSpace core0" and i: "Index core reminderClose = Some e"
  have "core \<noteq> []" using Index_Some [OF i] by (auto simp: reminderClose_def)
  then have "length (drop (e + length reminderClose) core) < length core"
    by (cases core) (auto simp: reminderClose_def)
  also have "\<dots> \<le> length core0" using length_TrimSpace c by simp
  finally show "((drop (e + length reminderClose) core, attached @ [take (e + length reminderClose) core]), core0, attached)
      \<in> measure (\<lambda>(s, a). length s)" by simp
next
  fix core0 core :: string and attached :: "string list" and b
  assume c: "core = TrimSpace core0" and i: "LastIndex core reminderOpen = Some b"
  have "b < length core" using LastIndex_Some [OF i] by (auto simp: reminderOpen_def)
  then have "length (take b core) < length core" by simp
  also have "\<dots> \<le> length core0" using length_TrimSpace c by simp
  finally show "((take b core, attached @ [drop b core]), core0, attached) \<in> measure (\<lambda>(s, a). length s)" by simp
qed simp

declare stripLoop.simps [simp del]

definition stripReminders :: "string \<Rightarrow> string \<times> string list" where
  "stripReminders t = stripLoop t []"

section \<open>Slash commands\<close>

definition isCommandByte :: "char \<Rightarrow> bool" where
  "isCommandByte c \<longleftrightarrow> (let n = (of_char c :: nat) in
     97 \<le> n \<and> n \<le> 122 \<or> 65 \<le> n \<and> n \<le> 90 \<or> 48 \<le> n \<and> n \<le> 57) \<or>
     c = CHR ''_'' \<or> c = CHR ''-'' \<or> c = CHR '':'' \<or> c = CHR ''.''"

definition blank :: "char \<Rightarrow> bool" where
  "blank c \<longleftrightarrow> c = CHR '' '' \<or> c = CHR 0x09 \<or> c = CHR 0x0A \<or> c = CHR 0x0D"

definition slashCommand :: "string \<Rightarrow> Message option" where
  "slashCommand t =
     (if HasPrefix t ''<command-name>'' \<or> HasPrefix t ''<command-message>'' then
        (let name = xfield t ''command-name''
         in if name = [] then Some ((msg KindHarnessInjected t)\<lparr>Subkind := ''empty_command''\<rparr>)
            else (let args = oneLine (xfield t ''command-args'')
                  in Some ((msg KindSlashCommand (TrimSpace (name @ '' '' @ args)))
                       \<lparr>Command := name, Args := args, Subkind := xfield t ''command-message'', Envelope := True\<rparr>)))
      else case t of
        [] \<Rightarrow> None
      | c # cs \<Rightarrow>
          if c \<noteq> CHR ''/'' then None
          else (let name = takeWhile isCommandByte cs; rest = dropWhile isCommandByte cs
                in if name = [] \<or> (rest \<noteq> [] \<and> \<not> blank (hd rest)) then None
                   else (let args = TrimSpace rest
                         in Some ((msg KindSlashCommand (TrimSpace (c # name @ '' '' @ args)))
                              \<lparr>Command := c # name, Args := args\<rparr>))))"

section \<open>The classifier\<close>

text \<open>The rules after the reminders have been peeled off: record flags, commands, prose.\<close>

definition classifyCore :: "string \<Rightarrow> rawProbe \<Rightarrow> string \<Rightarrow> string list \<Rightarrow> bool \<Rightarrow> bool \<Rightarrow> Message" where
  "classifyCore t p core attached agentStream firstInStream =
     (if OriginKind p = ''task-notification'' then (msg KindTaskNotification t)\<lparr>Subkind := ''origin''\<rparr>
      else if OriginKind p = ''peer'' then (msg KindTeammateMessage t)\<lparr>Subkind := ''origin''\<rparr>
      else if IsMeta p then
        (msg KindHarnessInjected t)\<lparr>Subkind := (if Contains t ''<skill-format>'' then ''skill'' else ''meta'')\<rparr>
      else if OriginKind p = ''auto-continuation'' \<or> PromptSource p = ''system'' then
        (msg KindHarnessInjected t)\<lparr>Subkind := firstNonEmpty (OriginKind p) ''system''\<rparr>
      else case slashCommand core of
        Some m \<Rightarrow> m\<lparr>Attached := attached\<rparr>
      | None \<Rightarrow>
          if agentStream \<and> firstInStream then (msg KindSubagentTask core)\<lparr>Attached := attached\<rparr>
          else (msg KindHuman core)\<lparr>Attached := attached\<rparr>)"

definition classifyReminders :: "string \<Rightarrow> rawProbe \<Rightarrow> bool \<Rightarrow> bool \<Rightarrow> Message" where
  "classifyReminders t p agentStream firstInStream =
     (let (core, attached) = stripReminders t
      in if core = [] \<and> attached \<noteq> [] then (msg KindSystemReminder t)\<lparr>Attached := attached\<rparr>
         else if core = reminderOpen \<or> HasPrefix core (reminderOpen @ [newline])
         then (msg KindSystemReminder t)\<lparr>Attached := attached, Subkind := ''unterminated''\<rparr>
         else classifyCore t p core attached agentStream firstInStream)"

definition taskNotification :: "string \<Rightarrow> Message option" where
  "taskNotification t =
     (case envelope t ''task-notification'' of
        None \<Rightarrow> None
      | Some body \<Rightarrow>
          if xfield body ''task-id'' = [] then None
          else (let s = oneLine (xfield body ''summary'')
                in Some ((msg KindTaskNotification (if s \<noteq> [] then s else t))\<lparr>Subkind := xfield body ''status''\<rparr>)))"

definition ClassifyUser :: "string \<Rightarrow> raw_doc \<Rightarrow> bool \<Rightarrow> bool \<Rightarrow> Message" where
  "ClassifyUser text0 raw agentStream firstInStream =
     (let t = TrimSpace text0; p = probeRaw raw
      in if IsCompactSummary p \<or> hasAnyPrefix t compactPrefixes \<or> t = compactBoundary then msg KindCompactSummary t
         else if HasPrefix t ''[Request interrupted'' then
           (if Contains t ''for tool use'' then (msg KindInterrupted t)\<lparr>Subkind := ''tool_use''\<rparr>
            else msg KindInterrupted t)
         else if HasPrefix t ''<turn_aborted>'' then (msg KindInterrupted t)\<lparr>Subkind := ''turn_aborted''\<rparr>
         else if HasPrefix t ''<local-command-caveat>'' then msg KindCaveat t
         else if HasPrefix t ''<local-command-stdout>'' then
           (msg KindCommandOutput t)\<lparr>Subkind := ''local_command_stdout''\<rparr>
         else if HasPrefix t ''<bash-input>'' then (msg KindCommandOutput t)\<lparr>Subkind := ''bash_input''\<rparr>
         else if HasPrefix t ''<bash-stdout>'' \<or> HasPrefix t ''<bash-stderr>'' then
           (msg KindCommandOutput t)\<lparr>Subkind := ''bash_stdout''\<rparr>
         else case taskNotification t of
           Some m \<Rightarrow> m
         | None \<Rightarrow>
             if HasPrefix t ''[SYSTEM NOTIFICATION]'' then
               msg KindSystemNotification (TrimSpace (TrimPrefix t ''[SYSTEM NOTIFICATION]''))
             else case teammateEnvelope t of
               Some i \<Rightarrow> (msg KindTeammateMessage t)\<lparr>Subkind := i\<rparr>
             | None \<Rightarrow>
                 if hasAnyPrefix t idePrefixes then msg KindIDEContext t
                 else if hasAnyPrefix t envPrefixes \<or> codexEnvironment t then msg KindEnvContext t
                 else if hasAnyPrefix t injectedPrefixes \<or> t = ''Warmup'' then msg KindHarnessInjected t
                 else classifyReminders t p agentStream firstInStream)"

definition ClassifyAssistant :: "string \<Rightarrow> bool \<Rightarrow> Kind" where
  "ClassifyAssistant t hasUsage = (if TrimSpace t \<noteq> [] then KindAssistantText else KindAssistantUsageOnly)"

section \<open>Templates, titles and commands\<close>

definition internalTemplates :: "(string \<times> string) list" where
  "internalTemplates = [
     (''title_generator'', ''You are generating a short''),
     (''statusline_labeler'', ''You label Claude Code work''),
     (''pong'', ''Reply with exactly: pong''),
     (''claude_mem'', ''You are a Claude-Mem''),
     (''claude_mem'', ''Hello memory agent''),
     (''system_instruction'', ''<system_instruction>''),
     (''recommended_plugins'', ''<recommended_plugins>'')]"

definition InternalTemplatePrefixes :: "string list" where
  "InternalTemplatePrefixes = map snd internalTemplates"

definition TemplateCutset :: string where
  "TemplateCutset = [CHR '' '', CHR 0x09, CHR 0x0D, CHR 0x0A]"

definition IsInternalTemplate :: "string \<Rightarrow> string option" where
  "IsInternalTemplate firstHumanText =
     (let t = dropWhile (\<lambda>c. c \<in> set TemplateCutset) firstHumanText
      in map_option fst (find (\<lambda>tpl. HasPrefix t (snd tpl)) internalTemplates))"

definition TitleMax :: nat where "TitleMax = 200"

definition RuneCount :: "string \<Rightarrow> nat" where
  "RuneCount s = length (filter rune_start s)"

fun cutRunes :: "nat \<Rightarrow> string \<Rightarrow> string" where
  "cutRunes n [] = []"
| "cutRunes n (c # s) =
     (if rune_start c then (if n = 0 then [] else c # cutRunes (n - 1) s) else c # cutRunes n s)"

definition Title :: "Message \<Rightarrow> string" where
  "Title m =
     (let t = (if m_kind m = KindSlashCommand then TrimSpace (Command m @ '' '' @ Args m) else m_text m);
          line = firstLine t
      in if RuneCount line \<le> TitleMax then line else cutRunes TitleMax line)"

text \<open>\<open>SlashCommand\<close>: the name without its slash, and whether the envelope named it.\<close>

definition SlashCommand :: "string \<Rightarrow> raw_doc \<Rightarrow> (string \<times> bool) option" where
  "SlashCommand t raw =
     (let m = ClassifyUser t raw False False
      in if m_kind m \<noteq> KindSlashCommand then None
         else (let name = TrimPrefix (Command m) ''/''
               in if name = [] then None else Some (name, Envelope m)))"

definition builtinCommands :: "string list" where
  "builtinCommands = [''login'', ''logout'', ''effort'', ''model'', ''rate-limit-options'',
     ''reload-skills'', ''reload-plugins'', ''insights'', ''compact'', ''clear'',
     ''help'', ''status'', ''plugin'', ''mcp'', ''resume'', ''rename'',
     ''permissions'', ''btw'', ''fast'', ''exit'', ''cost'', ''doctor'',
     ''config'', ''memory'', ''hooks'', ''agents'', ''context'',
     ''terminal-setup'', ''vim'', ''bug'', ''release-notes'', ''upgrade'',
     ''privacy-settings'', ''stats'', ''usage'', ''add-dir'', ''ide'',
     ''install-github-app'']"

definition IsBuiltinCommand :: "string \<Rightarrow> bool" where
  "IsBuiltinCommand name \<longleftrightarrow> ToLower (TrimPrefix (TrimSpace name) ''/'') \<in> set builtinCommands"

text \<open>\<open>FlattenContent\<close> of a content value: absent, a string, an array of blocks, or other JSON.\<close>

datatype content_value = NoContent | StrContent string | BlockContent "string list" | OtherContent string

definition FlattenContent :: "content_value \<Rightarrow> string" where
  "FlattenContent v =
     (case v of NoContent \<Rightarrow> [] | StrContent s \<Rightarrow> s
      | BlockContent bs \<Rightarrow> Join (filter (\<lambda>b. b \<noteq> []) bs) [newline]
      | OtherContent raw \<Rightarrow> raw)"

section \<open>Only what a person said\<close>

lemma msg_simps [simp]: "m_kind (msg k t) = k" "m_text (msg k t) = t" "Attached (msg k t) = []"
  by (simp_all add: msg_def)

lemma human_kinds [simp]: "IsHumanKind KindHuman" "IsHumanKind KindSlashCommand"
  "k \<notin> {KindHuman, KindSlashCommand} \<Longrightarrow> \<not> IsHumanKind k"
  by (auto simp: IsHumanKind_def)

lemma taskNotification_kind: "taskNotification t = Some m \<Longrightarrow> m_kind m = KindTaskNotification"
  by (auto simp: taskNotification_def Let_def split: option.splits if_splits)

lemma slashCommand_kind: "slashCommand t = Some m \<Longrightarrow> m_kind m = KindSlashCommand \<or> m_kind m = KindHarnessInjected"
  by (auto simp: slashCommand_def Let_def split: if_splits list.splits)

lemma classifyCore_human:
  assumes "IsHumanKind (m_kind (classifyCore t p core att a f))"
  shows "\<not> IsMeta p \<and> OriginKind p \<noteq> ''task-notification'' \<and> OriginKind p \<noteq> ''peer'' \<and>
    OriginKind p \<noteq> ''auto-continuation'' \<and> PromptSource p \<noteq> ''system'' \<and>
    (slashCommand core = None \<longrightarrow> \<not> (a \<and> f) \<and> m_text (classifyCore t p core att a f) = core)"
  using assms by (auto simp: classifyCore_def split: if_splits option.splits)

lemma if_human:
  "\<not> IsHumanKind (m_kind x) \<Longrightarrow>
   IsHumanKind (m_kind (if c then x else y)) \<longleftrightarrow> \<not> c \<and> IsHumanKind (m_kind y)"
  by simp

lemma case_human:
  "\<forall>m. v = Some m \<longrightarrow> \<not> IsHumanKind (m_kind (h m)) \<Longrightarrow>
   IsHumanKind (m_kind (case v of None \<Rightarrow> y | Some m \<Rightarrow> h m)) \<longleftrightarrow> v = None \<and> IsHumanKind (m_kind y)"
  by (cases v) auto

lemma ClassifyUser_reaches:
  assumes "IsHumanKind (m_kind (ClassifyUser text0 raw a f))"
  defines "t \<equiv> TrimSpace text0" and "p \<equiv> probeRaw raw"
  shows "ClassifyUser text0 raw a f = classifyReminders t p a f \<and> \<not> IsCompactSummary p \<and>
    \<not> hasAnyPrefix t (compactPrefixes @ [''[Request interrupted'', ''<turn_aborted>'', ''<local-command-caveat>'',
       ''<local-command-stdout>'', ''<bash-input>'', ''<bash-stdout>'', ''<bash-stderr>'', ''[SYSTEM NOTIFICATION]''] @
       idePrefixes @ envPrefixes @ injectedPrefixes)"
proof -
  have tn: "\<forall>m. taskNotification t = Some m \<longrightarrow> \<not> IsHumanKind (m_kind m)"
    by (auto dest: taskNotification_kind)
  have app: "hasAnyPrefix t (xs @ ys) \<longleftrightarrow> hasAnyPrefix t xs \<or> hasAnyPrefix t ys"
    "hasAnyPrefix t (x # ys) \<longleftrightarrow> HasPrefix t x \<or> hasAnyPrefix t ys" "\<not> hasAnyPrefix t []" for xs ys x
    by (auto simp: hasAnyPrefix_def)
  have int: "m_kind (if Contains t ''for tool use'' then (msg KindInterrupted t)\<lparr>Subkind := ''tool_use''\<rparr>
      else msg KindInterrupted t) = KindInterrupted" by simp
  note c = assms(1) [unfolded ClassifyUser_def Let_def, folded t_def p_def]
  have conds: "\<not> (IsCompactSummary p \<or> hasAnyPrefix t compactPrefixes \<or> t = compactBoundary)"
    "\<not> HasPrefix t ''[Request interrupted''" "\<not> HasPrefix t ''<turn_aborted>''"
    "\<not> HasPrefix t ''<local-command-caveat>''" "\<not> HasPrefix t ''<local-command-stdout>''"
    "\<not> HasPrefix t ''<bash-input>''" "\<not> (HasPrefix t ''<bash-stdout>'' \<or> HasPrefix t ''<bash-stderr>'')"
    "taskNotification t = None" "\<not> HasPrefix t ''[SYSTEM NOTIFICATION]''" "teammateEnvelope t = None"
    "\<not> hasAnyPrefix t idePrefixes" "\<not> (hasAnyPrefix t envPrefixes \<or> codexEnvironment t)"
    "\<not> (hasAnyPrefix t injectedPrefixes \<or> t = ''Warmup'')"
    using c by (simp_all add: if_human case_human tn int split del: if_split)
  have "ClassifyUser text0 raw a f = classifyReminders t p a f"
    unfolding ClassifyUser_def Let_def t_def [symmetric] p_def [symmetric]
    using conds by (simp only: if_False option.case simp_thms)
  with conds show ?thesis by (simp only: app de_Morgan_disj simp_thms)
qed

text \<open>
  Only a person's record is a person's: a record classified as human or as a command
  carries none of the harness's flags and opens with none of its markers, and unless it has a
  command's shape its text is what was left of it once the reminders were peeled off and it
  is not the task that drives a subagent.
\<close>
theorem ClassifyUser_human:
  assumes "IsHumanKind (m_kind (ClassifyUser text0 raw agentStream firstInStream))"
  shows "\<not> IsMeta (probeRaw raw) \<and> \<not> IsCompactSummary (probeRaw raw) \<and> PromptSource (probeRaw raw) \<noteq> ''system'' \<and>
    OriginKind (probeRaw raw) \<notin> {''task-notification'', ''peer'', ''auto-continuation''} \<and>
    \<not> hasAnyPrefix (TrimSpace text0) (compactPrefixes @ [''[Request interrupted'', ''<turn_aborted>'',
       ''<local-command-caveat>'', ''<local-command-stdout>'', ''<bash-input>'', ''<bash-stdout>'', ''<bash-stderr>'',
       ''[SYSTEM NOTIFICATION]''] @ idePrefixes @ envPrefixes @ injectedPrefixes) \<and>
    (slashCommand (fst (stripReminders (TrimSpace text0))) = None \<longrightarrow>
       \<not> (agentStream \<and> firstInStream) \<and>
       m_text (ClassifyUser text0 raw agentStream firstInStream) = fst (stripReminders (TrimSpace text0)))"
proof -
  note r = ClassifyUser_reaches [OF assms]
  obtain core att where sr: "stripReminders (TrimSpace text0) = (core, att)" by (meson surj_pair)
  have "ClassifyUser text0 raw agentStream firstInStream =
      classifyCore (TrimSpace text0) (probeRaw raw) core att agentStream firstInStream"
    using r assms sr by (auto simp: classifyReminders_def split: if_splits)
  with assms classifyCore_human [of "TrimSpace text0" "probeRaw raw" core att agentStream firstInStream] r sr
  show ?thesis by auto
qed

theorem ClassifyUser_human_witness:
  "\<not> hasAnyPrefix (TrimSpace ''  fix the build'') injectedPrefixes \<and>
   m_text (ClassifyUser ''  fix the build'' NoRaw False False) = ''fix the build''"
proof -
  have "IsHumanKind (m_kind (ClassifyUser ''  fix the build'' NoRaw False False))"
    "slashCommand (fst (stripReminders (TrimSpace ''  fix the build''))) = None"
    "fst (stripReminders (TrimSpace ''  fix the build'')) = ''fix the build''"
    by code_simp+
  with ClassifyUser_human [OF this(1)] show ?thesis by (auto simp: hasAnyPrefix_def)
qed

section \<open>Reminders\<close>

definition stripped :: "string \<Rightarrow> bool" where
  "stripped c \<longleftrightarrow> TrimSpace c = c \<and> (HasPrefix c reminderOpen \<longrightarrow> Index c reminderClose = None) \<and>
     (HasSuffix c reminderClose \<and> \<not> HasPrefix c reminderOpen \<longrightarrow> LastIndex c reminderOpen = None)"

lemma stripLoop_stripped: "stripped core \<Longrightarrow> stripLoop core att = (core, att)"
  by (subst stripLoop.simps) (auto simp: stripped_def Let_def split: option.splits)

text \<open>A block peeled off the end closes inside itself: the closing tag does not hold an opening one.\<close>

lemma tail_block:
  assumes "HasSuffix core reminderClose" "drop b core = reminderOpen @ r" "b \<le> length core"
  shows "HasSuffix (drop b core) reminderClose"
proof (cases "length reminderClose \<le> length (drop b core)")
  case True
  then have "length core - (b + length reminderClose) + b = length core - length reminderClose"
    using assms(3) by (auto simp: reminderClose_def)
  with True assms(1) show ?thesis by (simp add: HasSuffix_def)
next
  case False
  have l: "length reminderOpen = 17" "length reminderClose = 18" by code_simp+
  have "length (drop b core) = 17 + length r" using assms(2) l by simp
  with False l have r: "r = []" by (cases r) auto
  with \<open>length (drop b core) = 17 + length r\<close> have "length (drop b core) = 17" by simp
  then have "b = Suc (length core - 18)" "18 \<le> length core"
    using assms(1,3) l by (auto simp: HasSuffix_def)
  then have "drop b core = drop 1 (drop (length core - 18) core)" by simp
  also have "\<dots> = drop 1 reminderClose" using assms(1) l by (simp add: HasSuffix_def)
  finally have "reminderOpen = drop 1 reminderClose" using assms(2) r by simp
  moreover have "reminderOpen \<noteq> drop 1 reminderClose" by code_simp
  ultimately show ?thesis by contradiction
qed

definition block_ok :: "string \<Rightarrow> bool" where
  "block_ok b \<longleftrightarrow> HasPrefix b reminderOpen \<and> HasSuffix b reminderClose"

lemma take_HasSuffix:
  assumes "Index c p = Some i"
  shows "HasSuffix (take (i + length p) c) p"
proof -
  have "take (i + length p) c = take i c @ p" using Index_Some [OF assms] by (simp add: take_add)
  then show ?thesis by simp
qed

lemma head_block:
  assumes "HasPrefix core reminderOpen" "Index core reminderClose = Some i"
  shows "block_ok (take (i + length reminderClose) core)"
proof -
  have l: "length reminderOpen = 17" "length reminderClose = 18" by code_simp+
  then have "take (length reminderOpen) (take (i + length reminderClose) core) = reminderOpen"
    using assms(1) by (simp add: HasPrefix_def min_def)
  then show ?thesis using take_HasSuffix [OF assms(2)] by (simp add: block_ok_def HasPrefix_def)
qed

lemma stripLoop_post:
  "stripLoop c0 att = (core, att') \<Longrightarrow> stripped core \<and> (\<exists>new. att' = att @ new \<and>
     list_all block_ok new \<and> length core + sum_list (map length new) \<le> length c0)"
proof (induction c0 att rule: stripLoop.induct)
  case (1 c0 att)
  let ?c = "TrimSpace c0"
  have len: "length ?c \<le> length c0" by (rule length_TrimSpace)
  show ?case
  proof (cases "HasPrefix ?c reminderOpen \<and> Index ?c reminderClose \<noteq> None")
    case True
    then obtain i where i: "HasPrefix ?c reminderOpen" "Index ?c reminderClose = Some i" by auto
    let ?b = "take (i + length reminderClose) ?c" and ?r = "drop (i + length reminderClose) ?c"
    have "stripLoop ?r (att @ [?b]) = (core, att')"
      using "1.prems" i by (subst (asm) stripLoop.simps) (simp add: Let_def)
    from "1.IH"(1) [OF refl i this] obtain new where "stripped core" "att' = att @ [?b] @ new"
      "list_all block_ok new" "length core + sum_list (map length new) \<le> length ?r" by auto
    moreover have "length ?b + length ?r = length ?c" using Index_Some [OF i(2)] by simp
    ultimately show ?thesis using head_block [OF i] len by (intro conjI exI [of _ "?b # new"]) auto
  next
    case no_head: False
    show ?thesis
    proof (cases "\<not> HasPrefix ?c reminderOpen \<and> HasSuffix ?c reminderClose \<and> LastIndex ?c reminderOpen \<noteq> None")
      case True
      then obtain b where b: "\<not> HasPrefix ?c reminderOpen" "HasSuffix ?c reminderClose" "LastIndex ?c reminderOpen = Some b" by auto
      let ?r = "take b ?c" and ?b = "drop b ?c"
      have "stripLoop ?r (att @ [?b]) = (core, att')"
        using "1.prems" b by (subst (asm) stripLoop.simps) (simp add: Let_def)
      from "1.IH"(2) [OF refl b this] obtain new where n: "stripped core" "att' = att @ [?b] @ new"
        "list_all block_ok new" "length core + sum_list (map length new) \<le> length ?r" by auto
      note li = LastIndex_Some [OF b(3)]
      then have "block_ok ?b" using tail_block [OF b(2), of b] by (simp add: block_ok_def)
      moreover have "length ?r + length ?b = length ?c" using li by simp
      ultimately show ?thesis using n len by (intro conjI exI [of _ "?b # new"]) auto
    next
      case False
      with no_head "1.prems" have "core = ?c" "att' = att"
        by (subst (asm) stripLoop.simps; force simp: Let_def split: if_splits option.splits)+
      with no_head False len show ?thesis by (auto simp: stripped_def TrimSpace_idem)
    qed
  qed
qed

text \<open>
  Peeling the reminders off a record leaves nothing to peel: doing it again changes
  nothing, every block taken off opens and closes as a reminder, and what is left and what
  was taken are no longer than the record.
\<close>
theorem stripReminders_complete:
  "case stripReminders t of (core, attached) \<Rightarrow>
     stripReminders core = (core, []) \<and> TrimSpace core = core \<and>
     list_all (\<lambda>b. HasPrefix b reminderOpen \<and> HasSuffix b reminderClose) attached \<and>
     length core + sum_list (map length attached) \<le> length t"
proof -
  obtain core att where r: "stripLoop t [] = (core, att)" by (meson surj_pair)
  from stripLoop_post [OF r] have "stripped core" "list_all block_ok att"
    "length core + sum_list (map length att) \<le> length t" by auto
  then show ?thesis using r stripLoop_stripped [of core "[]"]
    by (simp add: stripReminders_def block_ok_def [abs_def] stripped_def)
qed

section \<open>Titles and templates\<close>

lemma cutRunes_count: "RuneCount (cutRunes n s) \<le> n"
  by (induction n s rule: cutRunes.induct) (auto simp: RuneCount_def)

lemma cutRunes_prefix: "\<exists>r. s = cutRunes n s @ r"
  by (induction n s rule: cutRunes.induct) auto

lemma set_TrimSpace: "set (TrimSpace s) \<subseteq> set s"
proof
  fix c assume "c \<in> set (TrimSpace s)"
  then have "c \<in> set (dropWhile is_space s)" by (auto simp: TrimSpace_def dest: set_dropWhileD)
  then show "c \<in> set s" by (rule set_dropWhileD)
qed

lemma Index_char: "Index s [c] = Some i \<Longrightarrow> c \<notin> set (take i s)" "Index s [c] = None \<Longrightarrow> c \<notin> set s"
proof (induction s arbitrary: i)
  case Nil
  case 1
  then show ?case by simp
next
  case Nil
  case 2
  then show ?case by simp
next
  case (Cons a s)
  case 1
  with Cons(1) show ?case by (cases i) (auto simp: HasPrefix_def split: if_splits)
next
  case (Cons a s)
  case 2
  with Cons(2) show ?case by (auto simp: HasPrefix_def split: if_splits)
qed

lemma firstLine_no_newline: "newline \<notin> set (firstLine t)"
proof -
  have "newline \<notin> set (fst (Cut (TrimSpace t) [newline]))"
    using Index_char [of "TrimSpace t" newline] by (auto simp: Cut_def split: option.splits)
  then show ?thesis using set_TrimSpace by (auto simp: firstLine_def)
qed

text \<open>
  A title is one line of at most two hundred runes and is the beginning of the first line
  of what the message shows; the template list the store renders into SQL decides as
  \<open>IsInternalTemplate\<close> does.
\<close>
theorem Title_bounded:
  "RuneCount (Title m) \<le> TitleMax \<and> newline \<notin> set (Title m) \<and>
   (\<exists>r. firstLine (if m_kind m = KindSlashCommand then TrimSpace (Command m @ '' '' @ Args m) else m_text m) = Title m @ r) \<and>
   (IsInternalTemplate t \<noteq> None \<longleftrightarrow>
      hasAnyPrefix (dropWhile (\<lambda>c. c \<in> set TemplateCutset) t) InternalTemplatePrefixes)"
proof -
  let ?l = "firstLine (if m_kind m = KindSlashCommand then TrimSpace (Command m @ '' '' @ Args m) else m_text m)"
  have T: "Title m = (if RuneCount ?l \<le> TitleMax then ?l else cutRunes TitleMax ?l)"
    unfolding Title_def Let_def by (rule refl)
  have "newline \<notin> set ?l" by (rule firstLine_no_newline)
  moreover obtain r where "?l = cutRunes TitleMax ?l @ r" using cutRunes_prefix by blast
  moreover from this have "set (cutRunes TitleMax ?l) \<subseteq> set ?l" by (metis Un_upper1 set_append)
  moreover have "RuneCount (Title m) \<le> TitleMax" using cutRunes_count unfolding T by simp
  moreover have "IsInternalTemplate t \<noteq> None \<longleftrightarrow>
      hasAnyPrefix (dropWhile (\<lambda>c. c \<in> set TemplateCutset) t) InternalTemplatePrefixes"
    by (force simp: IsInternalTemplate_def Let_def InternalTemplatePrefixes_def hasAnyPrefix_def find_None_iff list_ex_iff)
  ultimately show ?thesis unfolding T by auto
qed

end
