(* ===== verification/Fold.thy ===== *)
theory Fold
  imports Normalize
begin

text \<open>
  Folding a session's rows into turns (\<open>server/store/derive/fold.go\<close>, \<open>thread.go\<close>). A
  \<open>*Row\<close> is a row with its address; a \<open>*group\<close> and a \<open>*turn\<close> are positions in
  the thread's groups and in the heap of turns allocated so far, so two pointers to one turn
  stay one turn, and the slice \<open>turns\<close> lists heap positions in order. Go's maps are partial
  functions; the state a sweep carries is one record, and each closure of \<open>foldThread\<close> is
  one operation on it.
\<close>

section \<open>Data\<close>

datatype event_type =
    SessionStarted | SessionEnded | UserPrompt | AssistantTurn | ToolCall | ToolResult | ToolFailed
  | FileChanged | SubagentStart | SubagentEnd | Compaction | Artifact | OtherType string

definition OriginHook :: string where "OriginHook = ''hook''"
definition OriginTranscript :: string where "OriginTranscript = ''transcript''"

record Row =
  addr :: nat
  row_ID :: string
  row_Seq :: int
  row_Type :: event_type
  row_Origin :: string
  AgentID :: string
  OccurredAt :: time
  PromptID :: string
  MessageID :: string
  ToolUseID :: string
  row_Kind :: Kind
  HasText :: bool
  HasUsage :: bool
  TextHash :: string

record FoldOptions =
  optSessionEnded :: bool

datatype Role = RolePrompt | RoleFinal | RoleWork | RoleSuperseded

datatype Outcome =
    OutcomeUnset | OutcomeAnswered | OutcomeInterrupted | OutcomeNoAnswerCaptured | OutcomeNoWork | OutcomeInProgress

definition HeadKey :: string where "HeadKey = ''head''"

type_synonym TurnEvent = "string \<times> Role"

record Turn =
  Thread :: string
  t_Index :: nat
  Key :: string
  t_Kind :: Kind
  PromptEventID :: string
  FinalEventID :: string
  t_Outcome :: Outcome
  StartedAt :: time
  FirstActivityAt :: time
  LastActivityAt :: time
  AnsweredAt :: time
  WallMS :: int
  ActiveMS :: int
  IdleMS :: int
  WaitingForHumanMS :: int
  Origins :: "string list"
  Merged :: nat
  Prompts :: nat
  ToolCalls :: nat
  Errors :: nat
  Subagents :: nat
  FilesChanged :: nat
  Events :: "TurnEvent list"

record turn = Turn +
  groups :: "nat list"
  work :: "Row list"
  closed :: bool
  opened :: bool
  interruptedAt :: time

definition new_turn :: "string \<Rightarrow> string \<Rightarrow> Kind \<Rightarrow> time \<Rightarrow> turn" where
  "new_turn thread k kind at = \<lparr>Thread = thread, t_Index = 0, Key = k, t_Kind = kind,
     PromptEventID = [], FinalEventID = [], t_Outcome = OutcomeUnset, StartedAt = at, FirstActivityAt = 0,
     LastActivityAt = 0, AnsweredAt = 0, WallMS = 0, ActiveMS = 0, IdleMS = 0, WaitingForHumanMS = 0,
     Origins = [], Merged = 0, Prompts = 0, ToolCalls = 0, Errors = 0, Subagents = 0, FilesChanged = 0,
     Events = [], groups = [], work = [], closed = False, opened = False, interruptedAt = 0\<rparr>"

record group =
  g_rows :: "Row list"
  canonical :: Row
  g_pid :: string
  g_pids :: "string list"
  g_kind :: Kind
  g_at :: time
  g_seq :: int
  g_hash :: string
  dupOf :: "nat option"
  owner :: "nat option"

record Result =
  res_Turns :: "Turn list"
  Superseded :: "string \<rightharpoonup> string"

definition pairWindow :: duration where "pairWindow = 5 * second"
definition idleGap :: duration where "idleGap = 5 * minute"

section \<open>Threads\<close>

definition hex_char :: "char \<Rightarrow> bool" where
  "hex_char c \<longleftrightarrow> (let n = (of_char c :: nat) in 48 \<le> n \<and> n \<le> 57 \<or> 97 \<le> n \<and> n \<le> 102)"

text \<open>The regular expression's alternatives: \<open>a\<close> and sixteen digits, or sixteen at the end.\<close>

definition agentCore :: "string \<Rightarrow> string option" where
  "agentCore s =
     (if length s = 17 \<and> HasPrefix s ''a'' \<and> list_all hex_char (tl s) then Some (tl s)
      else if 16 \<le> length s \<and> list_all hex_char (drop (length s - 16) s) then Some (drop (length s - 16) s)
      else None)"

definition CanonicalThread :: "string \<Rightarrow> string" where
  "CanonicalThread agentID0 =
     (let a = TrimSpace agentID0
      in if a = [] then []
         else case agentCore a of Some m \<Rightarrow> m | None \<Rightarrow> a)"

section \<open>Rows and groups\<close>

definition rowLess :: "Row \<Rightarrow> Row \<Rightarrow> bool" where
  "rowLess a b =
     (if OccurredAt a \<noteq> OccurredAt b then OccurredAt a < OccurredAt b
      else if row_Seq a \<noteq> row_Seq b then row_Seq a < row_Seq b
      else row_ID a < row_ID b)"

definition isMarker :: "event_type \<Rightarrow> bool" where
  "isMarker t \<longleftrightarrow> t = SubagentStart \<or> t = SubagentEnd \<or> t = Compaction"

definition opensTurn :: "Kind \<Rightarrow> bool" where
  "opensTurn k \<longleftrightarrow> IsHumanKind k \<or> k = KindNone \<or> k = KindSubagentTask"

definition kindsAgree :: "Kind \<Rightarrow> Kind \<Rightarrow> bool" where
  "kindsAgree a b =
     (if a = KindNone \<or> b = KindNone then True
      else if IsHumanKind a \<and> IsHumanKind b then True
      else a = b)"

definition absDuration :: "duration \<Rightarrow> duration" where
  "absDuration d = (if d < 0 then neg64 d else d)"

definition dupKey :: "group \<Rightarrow> string" where
  "dupKey g =
     (if g_pid g \<noteq> [] \<or> g_hash g = [] then []
      else row_Origin (canonical g) @ ''|'' @ FormatInt (Unix (OccurredAt (canonical g))) @ ''|'' @ g_hash g)"

definition groupKey :: "group \<Rightarrow> string" where
  "groupKey g =
     (if g_pid g \<noteq> [] then ''pid:'' @ g_pid g
      else ''ts:'' @ FormatInt (Unix (g_at g)) @ '':'' @ (if g_hash g = [] then ''notext'' else g_hash g))"

section \<open>Pairing prompts\<close>

text \<open>The nearest acceptable row in the order of the list; the first of equals is kept.\<close>

fun closest :: "(Row \<Rightarrow> bool) \<Rightarrow> Row \<Rightarrow> Row list \<Rightarrow> (Row \<times> duration) option \<Rightarrow> Row option" where
  "closest ok h [] best = map_option fst best"
| "closest ok h (t # ts) best =
     (if \<not> ok t then closest ok h ts best
      else let gap = absDuration (Sub (OccurredAt t) (OccurredAt h))
           in closest ok h ts
                (case best of None \<Rightarrow> Some (t, gap) | Some (b, bg) \<Rightarrow> if gap < bg then Some (t, gap) else best))"

record pairing =
  twin :: "nat \<rightharpoonup> Row"
  taken :: "nat set"

definition pair_one :: "Row list \<Rightarrow> (Row \<Rightarrow> bool) \<Rightarrow> Row \<Rightarrow> pairing \<Rightarrow> pairing" where
  "pair_one transcripts accept h p =
     (case closest (\<lambda>t. addr t \<notin> taken p \<and> accept t) h transcripts None of
        None \<Rightarrow> p
      | Some best \<Rightarrow> p\<lparr>twin := (twin p)(addr best \<mapsto> h), taken := insert (addr h) (insert (addr best) (taken p))\<rparr>)"

definition accept_pid :: "Row \<Rightarrow> Row \<Rightarrow> bool" where
  "accept_pid h t \<longleftrightarrow> PromptID t = PromptID h \<and> kindsAgree (row_Kind h) (row_Kind t)"

definition accept_text :: "Row \<Rightarrow> Row \<Rightarrow> bool" where
  "accept_text h t =
     (if TextHash t \<noteq> TextHash h \<or> \<not> kindsAgree (row_Kind h) (row_Kind t) then False
      else if absDuration (Sub (OccurredAt t) (OccurredAt h)) > pairWindow then False
      else if PromptID t \<noteq> [] \<and> PromptID h \<noteq> [] \<and> PromptID t \<noteq> PromptID h \<and>
              IsHumanKind (row_Kind t) \<and> IsHumanKind (row_Kind h) then False
      else True)"

fun pairByPid :: "Row list \<Rightarrow> Row list \<Rightarrow> pairing \<Rightarrow> pairing" where
  "pairByPid transcripts [] p = p"
| "pairByPid transcripts (h # hs) p =
     (if PromptID h = [] then pairByPid transcripts hs p
      else pairByPid transcripts hs (pair_one transcripts (accept_pid h) h p))"

fun pairByText :: "Row list \<Rightarrow> Row list \<Rightarrow> pairing \<Rightarrow> pairing" where
  "pairByText transcripts [] p = p"
| "pairByText transcripts (h # hs) p =
     (if addr h \<in> taken p \<or> TextHash h = [] then pairByText transcripts hs p
      else pairByText transcripts hs (pair_one transcripts (accept_text h) h p))"

definition bare_group :: "Row list \<Rightarrow> Row \<Rightarrow> group" where
  "bare_group rs c = \<lparr>g_rows = rs, canonical = c, g_pid = [], g_pids = [], g_kind = KindNone, g_at = 0,
     g_seq = 0, g_hash = [], dupOf = None, owner = None\<rparr>"

definition group_row :: "Row \<Rightarrow> group \<Rightarrow> group" where
  "group_row r g0 =
     (let g1 = (if PromptID r \<noteq> []
                then g0\<lparr>g_pids := g_pids g0 @ [PromptID r], g_pid := (if g_pid g0 = [] then PromptID r else g_pid g0)\<rparr>
                else g0);
          g2 = (if g_kind g1 = KindNone then g1\<lparr>g_kind := row_Kind r\<rparr> else g1);
          g3 = (if g_hash g2 = [] then g2\<lparr>g_hash := TextHash r\<rparr> else g2)
      in if IsZero (g_at g3) \<or> OccurredAt r < g_at g3 then g3\<lparr>g_at := OccurredAt r, g_seq := row_Seq r\<rparr> else g3)"

definition group_fill :: "group \<Rightarrow> group" where
  "group_fill g = fold group_row (g_rows g) g"

definition groupLess :: "group \<Rightarrow> group \<Rightarrow> bool" where
  "groupLess a b =
     (if g_at a \<noteq> g_at b then g_at a < g_at b
      else if g_seq a \<noteq> g_seq b then g_seq a < g_seq b
      else row_ID (canonical a) < row_ID (canonical b))"

definition rawGroups :: "Row list \<Rightarrow> group list" where
  "rawGroups prompts =
     (let hooks = filter (\<lambda>p. row_Origin p = OriginHook) prompts;
          transcripts = filter (\<lambda>p. row_Origin p \<noteq> OriginHook) prompts;
          p = pairByText transcripts hooks (pairByPid transcripts hooks \<lparr>twin = Map.empty, taken = {}\<rparr>)
      in map (\<lambda>t. bare_group (t # (case twin p (addr t) of None \<Rightarrow> [] | Some h \<Rightarrow> [h])) t) transcripts @
         map (\<lambda>h. bare_group [h] h) (filter (\<lambda>h. addr h \<notin> taken p) hooks))"

definition pairPrompts :: "Row list \<Rightarrow> group list" where
  "pairPrompts prompts = sort_by groupLess (map group_fill (rawGroups prompts))"

section \<open>The sweep's state\<close>

datatype item = GroupItem nat | RowItem Row

record sweep =
  grps :: "group list"
  heap :: "turn list"
  turns :: "nat list"
  pidIndex :: "string \<rightharpoonup> nat"
  keys :: "string \<Rightarrow> nat"
  head :: "nat option"
  pending :: "Row list"
  dupIndex :: "string \<rightharpoonup> nat"

definition attachedAt :: "time \<Rightarrow> turn \<Rightarrow> turn" where
  "attachedAt at t = (if IsZero (LastActivityAt t) \<or> LastActivityAt t < at then t\<lparr>LastActivityAt := at\<rparr> else t)"

definition add_work :: "Row \<Rightarrow> turn \<Rightarrow> turn" where
  "add_work r t = attachedAt (OccurredAt r) (t\<lparr>work := work t @ [r]\<rparr>)"

definition upd_turn :: "nat \<Rightarrow> (turn \<Rightarrow> turn) \<Rightarrow> sweep \<Rightarrow> sweep" where
  "upd_turn i f st = st\<lparr>heap := (heap st)[i := f (heap st ! i)]\<rparr>"

definition place :: "nat \<Rightarrow> sweep \<Rightarrow> sweep" where
  "place i st = (upd_turn i (fold add_work (pending st)) st)\<lparr>pending := []\<rparr>"

definition key_name :: "string \<Rightarrow> nat \<Rightarrow> string" where
  "key_name base n = (if 0 < n then base @ ''#'' @ dec (n + 1) else base)"

text \<open>\<open>open\<close> and \<open>openHead\<close> return the new turn's position.\<close>

definition open_turn :: "string \<Rightarrow> nat \<Rightarrow> sweep \<Rightarrow> nat \<times> sweep" where
  "open_turn thread gi st =
     (let g = grps st ! gi; base = groupKey g; n = keys st base; i = length (heap st);
          t = new_turn thread (key_name base n) (g_kind g) (g_at g)
      in (i, place i (st\<lparr>keys := (keys st)(base := n + 1), heap := heap st @ [t], turns := turns st @ [i]\<rparr>)))"

definition openHead :: "string \<Rightarrow> time \<Rightarrow> sweep \<Rightarrow> nat \<times> sweep" where
  "openHead thread at st =
     (case head st of
        Some i \<Rightarrow> (i, st)
      | None \<Rightarrow>
          (let i = length (heap st)
           in (i, st\<lparr>head := Some i, keys := (keys st)(HeadKey := keys st HeadKey + 1),
                    heap := heap st @ [new_turn thread HeadKey KindNone at], turns := i # turns st\<rparr>)))"

fun index_pids :: "nat \<Rightarrow> string list \<Rightarrow> (string \<rightharpoonup> nat) \<Rightarrow> (string \<rightharpoonup> nat)" where
  "index_pids ti [] m = m"
| "index_pids ti (pid # pids) m = index_pids ti pids (if m pid = None then m(pid \<mapsto> ti) else m)"

text \<open>The cases of an adoption: the group's \<open>dupOf\<close>, the turn's \<open>opened\<close> and its prompts.\<close>

definition adopt_case :: "group \<Rightarrow> turn \<Rightarrow> nat list \<Rightarrow> nat option \<Rightarrow> nat option \<times> bool \<times> nat" where
  "adopt_case g t gs' dup =
     (if dup \<noteq> None then (dup, opened t, Prompts t)
      else if \<not> opensTurn (g_kind g) then (dup, opened t, Prompts t + 1)
      else if \<not> opened t then (dup, True, Prompts t + 1)
      else (Some (hd gs'), opened t, Prompts t))"

definition adopt_turn :: "group \<Rightarrow> nat \<Rightarrow> nat option \<Rightarrow> turn \<Rightarrow> turn" where
  "adopt_turn g gi dup t =
     (let gs' = groups t @ [gi]; c = adopt_case g t gs' dup;
          t' = attachedAt (g_at g) (t\<lparr>groups := gs', opened := fst (snd c), Prompts := snd (snd c)\<rparr>)
      in if g_kind g = KindInterrupted then t'\<lparr>interruptedAt := g_at g\<rparr> else t')"

definition adopt :: "nat \<Rightarrow> nat \<Rightarrow> nat option \<Rightarrow> sweep \<Rightarrow> sweep" where
  "adopt ti gi dup st =
     (let g = grps st ! gi; t = heap st ! ti; k = dupKey g
      in st\<lparr>grps := (grps st)[gi := g\<lparr>owner := Some ti, dupOf := fst (adopt_case g t (groups t @ [gi]) dup)\<rparr>],
            heap := (heap st)[ti := adopt_turn g gi dup t],
            pidIndex := index_pids ti (g_pids g) (pidIndex st),
            dupIndex := (if k \<noteq> [] \<and> dupIndex st k = None then (dupIndex st)(k \<mapsto> gi) else dupIndex st)\<rparr>)"

fun byPid :: "(string \<rightharpoonup> nat) \<Rightarrow> string list \<Rightarrow> nat option" where
  "byPid m [] = None"
| "byPid m (pid # pids) =
     (if pid = [] then byPid m pids
      else case m pid of Some t \<Rightarrow> Some t | None \<Rightarrow> byPid m pids)"

definition lastClosed :: "sweep \<Rightarrow> nat option" where
  "lastClosed st = find (\<lambda>i. closed (heap st ! i)) (rev (turns st))"

definition last_turn :: "sweep \<Rightarrow> nat option" where
  "last_turn st = (if turns st = [] then None else Some (last (turns st)))"

definition or_else :: "'a option \<Rightarrow> 'a option \<Rightarrow> 'a option" where
  "or_else a b = (case a of None \<Rightarrow> b | Some x \<Rightarrow> Some x)"

definition sweepGroup :: "string \<Rightarrow> nat \<Rightarrow> sweep \<Rightarrow> sweep" where
  "sweepGroup thread gi st =
     (let g = grps st ! gi; k = dupKey g
      in case (if k \<noteq> [] then dupIndex st k else None) of
           Some fst0 \<Rightarrow> adopt (the (owner (grps st ! fst0))) gi (Some fst0) st
         | None \<Rightarrow>
             if opensTurn (g_kind g) then
               (case (if g_pid g \<noteq> [] then pidIndex st (g_pid g) else None) of
                  Some ti \<Rightarrow>
                    if Key (heap st ! ti) = ''pid:'' @ g_pid g then adopt ti gi None st
                    else (case open_turn thread gi st of (i, st1) \<Rightarrow> adopt i gi None st1)
                | None \<Rightarrow> (case open_turn thread gi st of (i, st1) \<Rightarrow> adopt i gi None st1))
             else
               (case or_else (or_else (byPid (pidIndex st) (g_pids g))
                                (if g_kind g \<noteq> KindInterrupted then lastClosed st else None))
                       (last_turn st) of
                  Some ti \<Rightarrow> adopt ti gi None st
                | None \<Rightarrow> (case open_turn thread gi st of (i, st1) \<Rightarrow> adopt i gi None st1)))"

definition attachRow :: "Row \<Rightarrow> nat \<Rightarrow> sweep \<Rightarrow> sweep" where
  "attachRow r ti st =
     upd_turn ti (\<lambda>t. let t' = add_work r t
                      in if row_Type r = AssistantTurn \<and> HasText r then t'\<lparr>closed := True\<rparr> else t') st"

definition sweepRow :: "string \<Rightarrow> Row \<Rightarrow> sweep \<Rightarrow> sweep" where
  "sweepRow thread r st =
     (case or_else (byPid (pidIndex st) [PromptID r]) (last_turn st) of
        Some ti \<Rightarrow> attachRow r ti st
      | None \<Rightarrow>
          if isMarker (row_Type r) then st\<lparr>pending := pending st @ [r]\<rparr>
          else (case openHead thread (OccurredAt r) st of (i, st1) \<Rightarrow> attachRow r i (place i st1)))"

definition sweepItem :: "string \<Rightarrow> item \<Rightarrow> sweep \<Rightarrow> sweep" where
  "sweepItem thread it st =
     (case it of GroupItem gi \<Rightarrow> sweepGroup thread gi st | RowItem r \<Rightarrow> sweepRow thread r st)"

definition sweepEnd :: "string \<Rightarrow> sweep \<Rightarrow> sweep" where
  "sweepEnd thread st =
     (if pending st \<noteq> []
      then (case openHead thread (OccurredAt (hd (pending st))) st of (i, st1) \<Rightarrow> place i st1)
      else st)"

section \<open>The sweep's order\<close>

text \<open>Time, then a prompt group before a row, then sequence, then id.\<close>

definition item_key :: "group list \<Rightarrow> item \<Rightarrow> time \<times> bool \<times> int \<times> string" where
  "item_key gs it =
     (case it of
        GroupItem gi \<Rightarrow> (g_at (gs ! gi), False, g_seq (gs ! gi), row_ID (canonical (gs ! gi)))
      | RowItem r \<Rightarrow> (OccurredAt r, True, row_Seq r, row_ID r))"

definition itemLess :: "group list \<Rightarrow> item \<Rightarrow> item \<Rightarrow> bool" where
  "itemLess gs a b =
     (case (item_key gs a, item_key gs b) of
        ((ta, ra, sa, ia), (tb, rb, sb, ib)) \<Rightarrow>
          if ta \<noteq> tb then ta < tb
          else if ra \<noteq> rb then \<not> ra
          else if sa \<noteq> sb then sa < sb
          else ia < ib)"

section \<open>Finishing a turn\<close>

text \<open>What \<open>finish\<close> changes: the roles by address, the superseded map, the turn.\<close>

record finishing =
  roles :: "nat \<rightharpoonup> Role"
  sup :: "string \<rightharpoonup> string"
  ft :: turn

definition set_role :: "Row \<Rightarrow> Role \<Rightarrow> finishing \<Rightarrow> finishing" where
  "set_role r x f = f\<lparr>roles := (roles f)(addr r \<mapsto> x)\<rparr>"

definition merge :: "finishing \<Rightarrow> finishing" where
  "merge f = f\<lparr>ft := (ft f)\<lparr>Merged := Merged (ft f) + 1\<rparr>\<rparr>"

definition supersede :: "Row \<Rightarrow> Row \<Rightarrow> finishing \<Rightarrow> finishing" where
  "supersede r by f = f\<lparr>sup := (sup f)(row_ID r \<mapsto> row_ID by)\<rparr>"

definition dup_row :: "Row \<Rightarrow> Row \<Rightarrow> finishing \<Rightarrow> finishing" where
  "dup_row by r f =
     (let f1 = merge (set_role r RoleSuperseded f)
      in if row_Origin r = OriginHook then supersede r by f1 else f1)"

definition copy_row :: "Row \<Rightarrow> Row \<Rightarrow> finishing \<Rightarrow> finishing" where
  "copy_row c r f =
     (if addr r = addr c then f
      else let f1 = set_role r RoleSuperseded f
           in if row_Origin r = OriginHook then merge (supersede r c f1) else f1)"

definition finishGroup :: "group list \<Rightarrow> nat \<times> nat \<Rightarrow> finishing \<Rightarrow> finishing" where
  "finishGroup gs ig f =
     (let g = gs ! snd ig
      in case dupOf g of
           Some d \<Rightarrow> fold (dup_row (canonical (gs ! d))) (g_rows g) f
         | None \<Rightarrow>
             (let opener = (fst ig = 0 \<and> opensTurn (g_kind g));
                  f1 = (if opener then f\<lparr>ft := (ft f)\<lparr>PromptEventID := row_ID (canonical g)\<rparr>\<rparr> else f);
                  f2 = set_role (canonical g) (if opener then RolePrompt else RoleWork) f1
              in fold (copy_row (canonical g)) (g_rows g) f2))"

text \<open>\<open>nearest\<close>: a zero window is none.\<close>

definition nearest :: "Row list \<Rightarrow> Row \<Rightarrow> (Row \<Rightarrow> bool) \<Rightarrow> duration \<Rightarrow> Row option" where
  "nearest rs h accept window =
     closest (\<lambda>c. addr c \<noteq> addr h \<and> row_Origin c = OriginTranscript \<and> accept c \<and>
        \<not> (0 < window \<and> absDuration (Sub (OccurredAt c) (OccurredAt h)) > window)) h rs None"

definition answer_twin :: "Row list \<Rightarrow> Row \<Rightarrow> Row option" where
  "answer_twin assistants h =
     (if MessageID h \<noteq> [] then nearest assistants h (\<lambda>c. MessageID c = MessageID h) 0
      else if HasText h then nearest assistants h (\<lambda>c. HasText c \<and> TextHash c = TextHash h) pairWindow
      else if \<not> HasUsage h then nearest assistants h (\<lambda>c. True) 0
      else None)"

definition finishAnswer :: "Row list \<Rightarrow> Row \<Rightarrow> finishing \<Rightarrow> finishing" where
  "finishAnswer assistants h f =
     (if row_Origin h \<noteq> OriginHook then f
      else case answer_twin assistants h of
        None \<Rightarrow> f
      | Some tw \<Rightarrow> merge (supersede h tw (set_role h RoleSuperseded f)))"

fun finalLoop :: "(nat \<rightharpoonup> Role) \<Rightarrow> Row list \<Rightarrow> Row option \<Rightarrow> Row option" where
  "finalLoop rls [] fin = fin"
| "finalLoop rls (a # as) fin =
     (if \<not> HasText a \<or> rls (addr a) = Some RoleSuperseded then finalLoop rls as fin
      else finalLoop rls as
             (case fin of None \<Rightarrow> Some a | Some b \<Rightarrow> if \<not> rowLess a b then Some a else fin))"

definition finishFinal :: "Row list \<Rightarrow> finishing \<Rightarrow> finishing" where
  "finishFinal assistants f =
     (case finalLoop (roles f) assistants None of
        None \<Rightarrow> f
      | Some fin \<Rightarrow>
          (set_role fin RoleFinal f)\<lparr>ft := (ft f)\<lparr>FinalEventID := row_ID fin, AnsweredAt := OccurredAt fin\<rparr>\<rparr>)"

text \<open>Tools: by id where both carry one, then the k-th unpaired by the k-th unpaired.\<close>

fun electById :: "Row list \<Rightarrow> Row list \<Rightarrow> nat set \<times> (nat \<rightharpoonup> Role) \<Rightarrow> nat set \<times> (nat \<rightharpoonup> Role)" where
  "electById transcripts [] tr = tr"
| "electById transcripts (h # hs) (tk, rls) =
     (if ToolUseID h = [] then electById transcripts hs (tk, rls)
      else case find (\<lambda>t. addr t \<notin> tk \<and> ToolUseID t = ToolUseID h) transcripts of
        None \<Rightarrow> electById transcripts hs (tk, rls)
      | Some t \<Rightarrow> electById transcripts hs (insert (addr h) (insert (addr t) tk), rls(addr t \<mapsto> RoleSuperseded)))"

fun electByOrder :: "Row list \<Rightarrow> Row list \<Rightarrow> nat set \<Rightarrow> (nat \<rightharpoonup> Role) \<Rightarrow> (nat \<rightharpoonup> Role)" where
  "electByOrder [] ts tk rls = rls"
| "electByOrder (h # hs) ts tk rls =
     (if addr h \<in> tk then electByOrder hs ts tk rls
      else case dropWhile (\<lambda>t. addr t \<in> tk) ts of
        [] \<Rightarrow> rls
      | t # ts' \<Rightarrow> electByOrder hs ts' (insert (addr h) (insert (addr t) tk)) (rls(addr t \<mapsto> RoleSuperseded)))"

definition electTools :: "Row list \<Rightarrow> event_type \<Rightarrow> (nat \<rightharpoonup> Role) \<Rightarrow> (nat \<rightharpoonup> Role) \<times> nat" where
  "electTools rs countType rls =
     (let hooks = filter (\<lambda>r. row_Origin r = OriginHook) rs;
          transcripts = filter (\<lambda>r. row_Origin r \<noteq> OriginHook) rs;
          hookCount = length (filter (\<lambda>r. row_Type r = countType) hooks);
          transcriptCount = length (filter (\<lambda>r. row_Type r = countType) transcripts);
          (tk, rls1) = electById transcripts hooks ({}, rls)
      in (electByOrder hooks transcripts tk rls1,
          if hookCount > transcriptCount then hookCount else transcriptCount))"

text \<open>The timing loop over the turn's rows in order; \<open>prev\<close> is zero before the first.\<close>

fun timeLoop :: "(nat \<rightharpoonup> Role) \<Rightarrow> Row list \<Rightarrow> time \<Rightarrow> turn \<Rightarrow> turn" where
  "timeLoop rls [] prev t = t"
| "timeLoop rls (r # rs) prev t =
     (if OccurredAt r < StartedAt t then timeLoop rls rs prev t
      else
        let t1 = (if rls (addr r) \<noteq> Some RolePrompt \<and> rls (addr r) \<noteq> Some RoleSuperseded \<and>
                     row_Type r \<noteq> UserPrompt \<and> IsZero (FirstActivityAt t)
                  then t\<lparr>FirstActivityAt := OccurredAt r\<rparr> else t);
            gap = Sub (OccurredAt r) prev;
            t2 = (if \<not> IsZero prev \<and> gap \<le> idleGap then t1\<lparr>ActiveMS := ActiveMS t1 + Milliseconds gap\<rparr> else t1)
        in timeLoop rls rs (OccurredAt r) t2)"

definition finishTimes :: "turn \<Rightarrow> turn" where
  "finishTimes t =
     (let t1 = (if IsZero (LastActivityAt t) then t\<lparr>LastActivityAt := StartedAt t\<rparr> else t);
          w = Milliseconds (Sub (LastActivityAt t1) (StartedAt t1));
          w' = (if w < 0 then 0 else w);
          i = w' - ActiveMS t1
      in t1\<lparr>WallMS := w', IdleMS := (if i < 0 then 0 else i)\<rparr>)"

definition turn_rows :: "group list \<Rightarrow> turn \<Rightarrow> Row list" where
  "turn_rows gs t = concat (map (\<lambda>gi. g_rows (gs ! gi)) (groups t)) @ work t"

definition role_of :: "(nat \<rightharpoonup> Role) \<Rightarrow> Row \<Rightarrow> Role" where
  "role_of rls r = (case rls (addr r) of Some x \<Rightarrow> x | None \<Rightarrow> RoleWork)"

definition finish :: "group list \<Rightarrow> turn \<Rightarrow> (string \<rightharpoonup> string) \<Rightarrow> turn \<times> (string \<rightharpoonup> string)" where
  "finish gs t superseded =
     (let all = turn_rows gs t;
          assistants = filter (\<lambda>r. row_Type r = AssistantTurn) (work t);
          calls = filter (\<lambda>r. row_Type r = ToolCall) (work t);
          results = filter (\<lambda>r. row_Type r = ToolResult \<or> row_Type r = ToolFailed) (work t);
          changed = length (filter (\<lambda>r. row_Type r = FileChanged) (work t));
          f0 = \<lparr>roles = Map.empty, sup = superseded, ft = t\<rparr>;
          f1 = fold (finishGroup gs) (zip [0..<length (groups t)] (groups t)) f0;
          f2 = fold (\<lambda>r. set_role r RoleWork) (work t) f1;
          f3 = fold (finishAnswer assistants) assistants f2;
          f4 = finishFinal assistants f3;
          (rls1, nCalls) = electTools calls ToolCall (roles f4);
          (rls2, nErrors) = electTools results ToolFailed rls1;
          sorted_all = sort_by rowLess all;
          t1 = (ft f4)\<lparr>FilesChanged := FilesChanged (ft f4) + changed, ToolCalls := nCalls, Errors := nErrors\<rparr>;
          t2 = finishTimes (timeLoop rls2 sorted_all 0 t1)
      in (t2\<lparr>Events := Events t2 @ map (\<lambda>r. (row_ID r, role_of rls2 r)) sorted_all,
            Origins := sort (Origins t2 @ remdups (map row_Origin all))\<rparr>, sup f4))"

definition outcome :: "turn \<Rightarrow> bool \<Rightarrow> bool \<Rightarrow> Outcome" where
  "outcome t is_last ended =
     (let hasFinal = (FinalEventID t \<noteq> [])
      in if \<not> IsZero (interruptedAt t) \<and> (\<not> hasFinal \<or> AnsweredAt t < interruptedAt t) then OutcomeInterrupted
         else if hasFinal then OutcomeAnswered
         else if is_last \<and> \<not> ended then OutcomeInProgress
         else if work t = [] then OutcomeNoWork
         else OutcomeNoAnswerCaptured)"

section \<open>Folding a thread and a session\<close>

text \<open>The closing loop: \<open>i\<close> is the position, \<open>ts\<close> the turns from there on.\<close>

fun closeLoop :: "group list \<Rightarrow> bool \<Rightarrow> nat \<Rightarrow> turn list \<Rightarrow> (string \<rightharpoonup> string) \<Rightarrow> turn list \<times> (string \<rightharpoonup> string)" where
  "closeLoop gs ended i [] sp = ([], sp)"
| "closeLoop gs ended i (t # ts) sp =
     (case finish gs t sp of (t1, sp1) \<Rightarrow>
        let t2 = t1\<lparr>t_Index := i\<rparr>;
            t3 = t2\<lparr>t_Outcome := outcome t2 (ts = []) ended\<rparr>;
            t4 = (case ts of [] \<Rightarrow> t3
                  | n # _ \<Rightarrow> let wait = Sub (StartedAt n) (LastActivityAt t3)
                            in if 0 < wait then t3\<lparr>WaitingForHumanMS := Milliseconds wait\<rparr> else t3)
        in case closeLoop gs ended (Suc i) ts sp1 of (ts', sp2) \<Rightarrow> (t4 # ts', sp2))"

definition init_sweep :: "group list \<Rightarrow> sweep" where
  "init_sweep gs = \<lparr>grps = gs, heap = [], turns = [], pidIndex = Map.empty, keys = (\<lambda>k. 0), head = None,
     pending = [], dupIndex = Map.empty\<rparr>"

definition is_lifecycle :: "event_type \<Rightarrow> bool" where
  "is_lifecycle t \<longleftrightarrow> t = SessionStarted \<or> t = SessionEnded"

definition thread_prompts :: "Row list \<Rightarrow> Row list" where
  "thread_prompts rs = filter (\<lambda>r. row_Type r = UserPrompt) rs"

definition thread_others :: "Row list \<Rightarrow> Row list" where
  "thread_others rs = filter (\<lambda>r. row_Type r \<noteq> UserPrompt \<and> \<not> is_lifecycle (row_Type r)) rs"

definition thread_items :: "group list \<Rightarrow> Row list \<Rightarrow> item list" where
  "thread_items gs others = sort_by (itemLess gs) (map GroupItem [0..<length gs] @ map RowItem others)"

definition sweepThread :: "string \<Rightarrow> Row list \<Rightarrow> sweep" where
  "sweepThread thread rs =
     (let gs = pairPrompts (thread_prompts rs)
      in sweepEnd thread (fold (sweepItem thread) (thread_items gs (thread_others rs)) (init_sweep gs)))"

text \<open>\<open>rows\<close> comes in as the thread's rows; the closed turns, their index and the map come out.\<close>

definition foldThread ::
  "string \<Rightarrow> Row list \<Rightarrow> FoldOptions \<Rightarrow> (string \<rightharpoonup> string) \<Rightarrow> (turn list \<times> (string \<rightharpoonup> nat)) \<times> (string \<rightharpoonup> string)" where
  "foldThread thread rows0 o0 superseded =
     (let rs = sort_by rowLess rows0;
          ended = (optSessionEnded o0 \<or> list_ex (\<lambda>r. row_Type r = SubagentEnd) rs);
          st = sweepThread thread rs
      in case closeLoop (grps st) ended 0 (map (\<lambda>i. heap st ! i) (turns st)) superseded of
           (ts, sp) \<Rightarrow> ((ts, \<lambda>pid. map_option (\<lambda>i. length (takeWhile (\<lambda>j. j \<noteq> i) (turns st))) (pidIndex st pid)), sp))"

fun earliestLoop :: "Row list \<Rightarrow> time \<Rightarrow> time" where
  "earliestLoop [] t = t"
| "earliestLoop (r # rs) t = earliestLoop rs (if IsZero t \<or> OccurredAt r < t then OccurredAt r else t)"

definition earliest :: "Row list \<Rightarrow> time" where
  "earliest rs = earliestLoop rs 0"

definition threadLess :: "(string \<Rightarrow> Row list) \<Rightarrow> string \<Rightarrow> string \<Rightarrow> bool" where
  "threadLess byThread a b =
     (if a = [] \<or> b = [] then a = []
      else let x = earliest (byThread a); y = earliest (byThread b)
           in if x \<noteq> y then x < y else a < b)"

definition attachTarget :: "turn list \<Rightarrow> (string \<rightharpoonup> nat) \<Rightarrow> string \<Rightarrow> time \<Rightarrow> nat option" where
  "attachTarget ts index pid at =
     (case byPid index [pid] of
        Some i \<Rightarrow> Some i
      | None \<Rightarrow> find (\<lambda>i. \<not> at < StartedAt (ts ! i)) (rev [0..<length ts]))"

record session_fold =
  folded :: "turn list list"
  main_turns :: "turn list"
  main_index :: "string \<rightharpoonup> nat"
  sf_sup :: "string \<rightharpoonup> string"

definition bump_subagents :: "turn \<Rightarrow> turn" where
  "bump_subagents t = t\<lparr>Subagents := Subagents t + 1\<rparr>"

text \<open>The main thread comes first, so its turns are the head of \<open>folded\<close>, shared with it.\<close>

definition foldNext :: "(string \<Rightarrow> Row list) \<Rightarrow> FoldOptions \<Rightarrow> string \<Rightarrow> session_fold \<Rightarrow> session_fold" where
  "foldNext byThread o0 thread sf =
     (case foldThread thread (byThread thread) o0 (sf_sup sf) of ((trs, index), sp) \<Rightarrow>
        let sf1 = sf\<lparr>folded := folded sf @ [trs], sf_sup := sp\<rparr>
        in if thread = [] then sf1\<lparr>main_turns := trs, main_index := index\<rparr>
           else case sort_by rowLess (byThread thread) of
             [] \<Rightarrow> sf1
           | r # _ \<Rightarrow>
               (case attachTarget (main_turns sf1) (main_index sf1) (PromptID r) (OccurredAt r) of
                  None \<Rightarrow> sf1
                | Some i \<Rightarrow>
                    (let m = (main_turns sf1)[i := bump_subagents (main_turns sf1 ! i)]
                     in sf1\<lparr>main_turns := m, folded := (folded sf1)[0 := m]\<rparr>)))"

definition FoldTurns :: "Row list \<Rightarrow> FoldOptions \<Rightarrow> Result" where
  "FoldTurns rows0 o0 =
     (let rows = map (\<lambda>(i, r). r\<lparr>addr := i\<rparr>) (enumerate 0 rows0);
          byThread = (\<lambda>k. filter (\<lambda>r. CanonicalThread (AgentID r) = k) rows);
          threads = sort_by (threadLess byThread) (remdups (map (\<lambda>r. CanonicalThread (AgentID r)) rows));
          sf = fold (foldNext byThread o0) threads \<lparr>folded = [], main_turns = [], main_index = Map.empty, sf_sup = Map.empty\<rparr>
      in \<lparr>res_Turns = map Turn.truncate (concat (folded sf)), Superseded = sf_sup sf\<rparr>)"

end
