(* ===== verification/Event.thy ===== *)
theory Event
  imports Fold
begin

text \<open>
  The captured event (\<open>internal/event/event.go\<close>) as client and server exchange it, the
  counters both sides tally redactions in, and what package \<open>encoding/json\<close> does for this
  program: a document is a string of bytes, and decoding it at one of the program's types is a
  function of the \<open>codec\<close> the definitions take.
\<close>

section \<open>Data\<close>

definition SourceClaudeCode :: string where "SourceClaudeCode = ''claude_code''"

record Launcher =
  la_Entrypoint :: string
  la_BundleID :: string
  la_Term :: string
  la_ParentComm :: string

record Usage =
  InputTokens :: int
  OutputTokens :: int
  CacheReadTokens :: int
  CacheCreationTokens :: int
  Ephemeral5m :: int
  Ephemeral1h :: int
  ServiceTier :: string
  u_RequestID :: string
  u_MessageID :: string

record Diff =
  df_Path :: string
  df_Before :: string
  df_After :: string
  df_Patch :: string
  df_Created :: bool
  df_Truncated :: bool

record Tool =
  tl_Name :: string
  tl_Input :: string
  tl_Output :: string
  tl_OutputPath :: string
  tl_Truncated :: bool
  tl_Diff :: "Diff option"
  tl_Error :: string

type_synonym tally_map = "(string \<times> int) list"

record Event =
  ev_ID :: string
  ev_CaptureVersion :: int
  ev_Source :: string
  ev_Origin :: string
  ev_Type :: event_type
  ev_SessionID :: string
  ev_ParentSessionID :: string
  ev_AgentID :: string
  ev_WorkflowID :: string
  ev_PromptID :: string
  ev_ToolUseID :: string
  ev_RecordUUID :: string
  ev_ParentRecordUUID :: string
  ev_LineageSource :: string
  ev_ForkPrefixSeq :: int
  ev_Launcher :: "Launcher option"
  ev_TranscriptExists :: "bool option"
  ev_HarnessTitle :: string
  ev_Seq :: int
  ev_OccurredAt :: time
  ev_Cwd :: string
  ev_GitBranch :: string
  ev_HarnessVersion :: string
  ev_Entrypoint :: string
  ev_MirrorRequest :: string
  ev_Model :: string
  ev_Usage :: "Usage option"
  ev_Tool :: "Tool option"
  ev_Text :: string
  ev_Raw :: string
  ev_Redactions :: tally_map

definition zero_Event :: Event where
  "zero_Event = \<lparr>ev_ID = [], ev_CaptureVersion = 0, ev_Source = [], ev_Origin = [], ev_Type = OtherType [],
     ev_SessionID = [], ev_ParentSessionID = [], ev_AgentID = [], ev_WorkflowID = [], ev_PromptID = [],
     ev_ToolUseID = [], ev_RecordUUID = [], ev_ParentRecordUUID = [], ev_LineageSource = [],
     ev_ForkPrefixSeq = 0, ev_Launcher = None, ev_TranscriptExists = None, ev_HarnessTitle = [], ev_Seq = 0,
     ev_OccurredAt = 0, ev_Cwd = [], ev_GitBranch = [], ev_HarnessVersion = [], ev_Entrypoint = [],
     ev_MirrorRequest = [], ev_Model = [], ev_Usage = None, ev_Tool = None, ev_Text = [], ev_Raw = [],
     ev_Redactions = []\<rparr>"

text \<open>\<open>Validate\<close>: the problems found, in order; none means valid.\<close>

definition Validate :: "Event \<Rightarrow> string list" where
  "Validate e =
     (if ev_SessionID e = [] then [''session_id is required''] else []) @
     (if ev_Type e = OtherType [] then [''type is required''] else []) @
     (if ev_Source e = [] then [''source is required''] else []) @
     (if ev_Origin e = [] then [''origin is required''] else []) @
     (if IsZero (ev_OccurredAt e) then [''occurred_at is required and must be the real event time''] else []) @
     (if ev_ID e = [] then [''id is required for idempotent delivery''] else [])"

lemma Validate_nil: "Validate e = [] \<longleftrightarrow> ev_SessionID e \<noteq> [] \<and> ev_Type e \<noteq> OtherType [] \<and> ev_Source e \<noteq> [] \<and>
    ev_Origin e \<noteq> [] \<and> \<not> IsZero (ev_OccurredAt e) \<and> ev_ID e \<noteq> []"
  by (simp add: Validate_def)

section \<open>Counters\<close>

text \<open>A \<open>map[string]int\<close> that is only added to, as its entries.\<close>

fun bump :: "string \<Rightarrow> int \<Rightarrow> tally_map \<Rightarrow> tally_map" where
  "bump k n [] = [(k, n)]"
| "bump k n ((k', m) # t) = (if k' = k then (k', m + n) # t else (k', m) # bump k n t)"

definition bump_all :: "(string \<Rightarrow> string) \<Rightarrow> tally_map \<Rightarrow> tally_map \<Rightarrow> tally_map" where
  "bump_all rename add into = fold (\<lambda>(k, n). bump (rename k) n) add into"

definition tally_total :: "tally_map \<Rightarrow> int" where
  "tally_total t = sum_list (map snd t)"

lemma bump_total [simp]: "tally_total (bump k n t) = tally_total t + n"
  by (induction k n t rule: bump.induct) (auto simp: tally_total_def)

lemma bump_all_total: "tally_total (bump_all f add into) = tally_total into + tally_total add"
  unfolding bump_all_def by (induction add arbitrary: into) (auto simp: tally_total_def[symmetric], auto simp: tally_total_def)

lemma bump_keys: "fst ` set (bump k n t) = insert k (fst ` set t)"
  by (induction k n t rule: bump.induct) auto

lemma bump_distinct: "distinct (map fst t) \<Longrightarrow> distinct (map fst (bump k n t))"
  by (induction k n t rule: bump.induct) (auto, metis bump_keys fst_conv image_eqI insertE)

lemma bump_not_Nil [simp]: "bump k n t \<noteq> []"
  by (induction k n t rule: bump.induct) auto

section \<open>JSON documents\<close>

text \<open>
  A decoded document of no fixed type: numbers keep their notation; an object is its fields in
  the order the decoder presents them.
\<close>

datatype json =
    JNull | JBool bool | JNumber string | JString string | JArray "json list" | JObject "(string \<times> json) list"

record rawRecord =
  rr_UUID :: string
  rr_PromptID :: string
  rr_LogicalParentUUID :: string
  rr_RequestID :: string
  rr_HookEventName :: string
  rr_Message :: "(string \<times> string) option"

record rawBlock =
  rb_Type :: string
  rb_ID :: string
  rb_Name :: string
  rb_Input :: string
  rb_ToolUseID :: string
  rb_Content :: string
  rb_Text :: string

text \<open>
  \<open>dec_*\<close> is \<open>json.Unmarshal\<close> at a type (\<open>None\<close> its error), \<open>enc_*\<close> \<open>json.Marshal\<close>;
  \<open>dec_number\<close> decodes with \<open>UseNumber\<close>. \<open>dec_launch\<close> is the probe of the launcher evidence:
  \<open>entrypoint\<close> and \<open>payload.originator\<close>.
\<close>

record codec =
  dec_event :: "string \<Rightarrow> Event option"
  dec_record :: "string \<Rightarrow> rawRecord option"
  dec_blocks :: "string \<Rightarrow> rawBlock list option"
  dec_string :: "string \<Rightarrow> string option"
  dec_any :: "string \<Rightarrow> json option"
  dec_number :: "string \<Rightarrow> json option"
  dec_probe :: "string \<Rightarrow> raw_doc"
  dec_launch :: "string \<Rightarrow> (string \<times> string) option"
  enc_event :: "Event \<Rightarrow> string option"
  enc_any :: "json \<Rightarrow> string option"
  json_valid :: "string \<Rightarrow> bool"

end
