(* ===== verification/Keys.thy ===== *)
theory Keys
  imports Event
begin

text \<open>
  The identities an event carries across capture paths (\<open>server/store/derive/keys.go\<close>): the
  named fields, the transcript record as the fallback, the bound every key is held to, the
  block a tool event was split out of, and the record identity a re-walk is recognised by.
\<close>

section \<open>Definitions\<close>

record Keys =
  k_PromptID :: string
  k_RecordUUID :: string
  k_ParentRecordUUID :: string
  k_RequestID :: string
  k_MessageID :: string
  k_ToolUseID :: string

definition KeyMaxBytes :: nat where "KeyMaxBytes = 256"

definition bound_key :: "string \<Rightarrow> string" where
  "bound_key v = (if length v > KeyMaxBytes then [] else v)"

definition bounded :: "Keys \<Rightarrow> Keys" where
  "bounded k = \<lparr>k_PromptID = bound_key (k_PromptID k), k_RecordUUID = bound_key (k_RecordUUID k),
     k_ParentRecordUUID = bound_key (k_ParentRecordUUID k), k_RequestID = bound_key (k_RequestID k),
     k_MessageID = bound_key (k_MessageID k), k_ToolUseID = bound_key (k_ToolUseID k)\<rparr>"

text \<open>\<open>jsonEqual\<close>: equal bytes, or equal decoded values.\<close>

definition jsonEqual :: "codec \<Rightarrow> string \<Rightarrow> string \<Rightarrow> bool" where
  "jsonEqual c a0 b0 =
     (let a = TrimSpace a0; b = TrimSpace b0
      in if a = b then True
         else if a = [] \<or> b = [] then False
         else case (dec_any c a, dec_any c b) of (Some va, Some vb) \<Rightarrow> va = vb | _ \<Rightarrow> False)"

text \<open>\<open>flatten\<close>: a string as itself, text blocks joined by newlines, anything else as it is.\<close>

fun flattenLoop :: "bool \<Rightarrow> rawBlock list \<Rightarrow> string" where
  "flattenLoop first [] = []"
| "flattenLoop first (b # bs) =
     (if rb_Text b = [] then flattenLoop first bs
      else (if first then [] else [newline]) @ rb_Text b @ flattenLoop False bs)"

definition flatten :: "codec \<Rightarrow> string \<Rightarrow> string" where
  "flatten c raw =
     (if raw = [] then []
      else case dec_string c raw of Some s \<Rightarrow> s
           | None \<Rightarrow> (case dec_blocks c raw of Some bs \<Rightarrow> flattenLoop True bs | None \<Rightarrow> raw))"

text \<open>The two passes over the record's blocks: those that match the event, and those of its kind.\<close>

definition block_matches :: "codec \<Rightarrow> event_type \<Rightarrow> Tool \<Rightarrow> rawBlock \<Rightarrow> bool" where
  "block_matches c t tool b =
     (case t of
        ToolCall \<Rightarrow> rb_Type b = ''tool_use'' \<and> rb_Name b = tl_Name tool \<and> jsonEqual c (rb_Input b) (tl_Input tool)
      | ToolResult \<Rightarrow> rb_Type b = ''tool_result'' \<and> flatten c (rb_Content b) = tl_Output tool
      | ToolFailed \<Rightarrow> rb_Type b = ''tool_result'' \<and> flatten c (rb_Content b) = tl_Output tool
      | _ \<Rightarrow> False)"

definition block_of_kind :: "event_type \<Rightarrow> rawBlock \<Rightarrow> bool" where
  "block_of_kind t b =
     (if t = ToolCall then rb_Type b = ''tool_use'' else rb_Type b = ''tool_result'')"

definition block_id :: "event_type \<Rightarrow> rawBlock \<Rightarrow> string" where
  "block_id t b = (if t = ToolCall then rb_ID b else rb_ToolUseID b)"

definition toolUseIDFor :: "codec \<Rightarrow> Event \<Rightarrow> string \<Rightarrow> string" where
  "toolUseIDFor c e content =
     (case ev_Tool e of None \<Rightarrow> []
      | Some tool \<Rightarrow>
          if content = [] then []
          else case dec_blocks c content of None \<Rightarrow> []
               | Some blocks \<Rightarrow>
                   let matches = map (block_id (ev_Type e)) (filter (block_matches c (ev_Type e) tool) blocks);
                       only = map (block_id (ev_Type e)) (filter (block_of_kind (ev_Type e)) blocks)
                   in if length matches = 1 \<and> hd matches \<noteq> [] then hd matches
                      else if length matches = 0 \<and> length only = 1 then hd only
                      else [])"

definition named_keys :: "Event \<Rightarrow> Keys" where
  "named_keys e = \<lparr>k_PromptID = ev_PromptID e, k_RecordUUID = ev_RecordUUID e,
     k_ParentRecordUUID = ev_ParentRecordUUID e,
     k_RequestID = (case ev_Usage e of None \<Rightarrow> [] | Some u \<Rightarrow> u_RequestID u),
     k_MessageID = (case ev_Usage e of None \<Rightarrow> [] | Some u \<Rightarrow> u_MessageID u),
     k_ToolUseID = ev_ToolUseID e\<rparr>"

definition keysOf :: "codec \<Rightarrow> Event \<Rightarrow> string \<Rightarrow> Keys" where
  "keysOf c e raw =
     (let k = named_keys e
      in if ev_Origin e \<noteq> OriginTranscript \<or> raw = [] then k
         else case dec_record c raw of None \<Rightarrow> k
              | Some r \<Rightarrow>
                  if rr_HookEventName r \<noteq> [] then k
                  else \<lparr>k_PromptID = firstNonEmpty (k_PromptID k) (rr_PromptID r),
                        k_RecordUUID = firstNonEmpty (k_RecordUUID k) (rr_UUID r),
                        k_ParentRecordUUID = firstNonEmpty (k_ParentRecordUUID k) (rr_LogicalParentUUID r),
                        k_RequestID = firstNonEmpty (k_RequestID k) (rr_RequestID r),
                        k_MessageID = (case rr_Message r of Some (i, _) \<Rightarrow> firstNonEmpty (k_MessageID k) i
                                       | None \<Rightarrow> k_MessageID k),
                        k_ToolUseID = (case rr_Message r of
                            Some (_, content) \<Rightarrow> firstNonEmpty (k_ToolUseID k) (toolUseIDFor c e content)
                          | None \<Rightarrow> k_ToolUseID k)\<rparr>)"

definition KeysOf :: "codec \<Rightarrow> Event \<Rightarrow> string \<Rightarrow> Keys" where
  "KeysOf c e raw = bounded (keysOf c e raw)"

record Identity =
  i_SessionID :: string
  i_AgentID :: string
  i_Record :: string
  i_Type :: event_type
  i_ToolUseID :: string

definition tool_type :: "event_type \<Rightarrow> bool" where
  "tool_type t \<longleftrightarrow> t = ToolCall \<or> t = ToolResult \<or> t = ToolFailed"

definition IdentityOf :: "Event \<Rightarrow> Keys \<Rightarrow> Identity option" where
  "IdentityOf e k =
     (if ev_Origin e \<noteq> OriginTranscript \<or> k_RecordUUID k = [] then None
      else if tool_type (ev_Type e) \<and> k_ToolUseID k = [] then None
      else Some \<lparr>i_SessionID = ev_SessionID e, i_AgentID = ev_AgentID e, i_Record = k_RecordUUID k,
                 i_Type = ev_Type e, i_ToolUseID = k_ToolUseID k\<rparr>)"

text \<open>
  \<open>KindOf\<close>, and \<open>classifyIngest\<close> (\<open>store.go\<close>), which is the same function over an item's
  event: what a text-bearing event is, by the normalizer.
\<close>

definition KindOf :: "codec \<Rightarrow> Event \<Rightarrow> Message option" where
  "KindOf c e =
     (case ev_Type e of
        UserPrompt \<Rightarrow>
          (let raw = (if ev_Origin e = OriginTranscript then dec_probe c (ev_Raw e) else NoRaw);
               agentStream = (ev_AgentID e \<noteq> [])
           in Some (ClassifyUser (ev_Text e) raw agentStream (agentStream \<and> ev_Seq e \<le> 1)))
      | AssistantTurn \<Rightarrow> Some (msg (ClassifyAssistant (ev_Text e) (ev_Usage e \<noteq> None)) (ev_Text e))
      | ToolResult \<Rightarrow> Some (msg KindTool (ev_Text e))
      | ToolFailed \<Rightarrow> Some (msg KindTool (ev_Text e))
      | _ \<Rightarrow> None)"

section \<open>What is known of a key\<close>

lemma bound_key_length: "length (bound_key v) \<le> KeyMaxBytes"
  by (simp add: bound_key_def)

lemma bound_key_cases: "bound_key v = v \<or> bound_key v = []"
  by (simp add: bound_key_def)

lemma filter_single:
  assumes "filter P xs = [b]"
  shows "b \<in> set xs" "P b" "\<forall>x\<in>set xs. P x \<longrightarrow> x = b"
proof -
  from assms have "set (filter P xs) = {b}" by simp
  then show "b \<in> set xs" "P b" "\<forall>x\<in>set xs. P x \<longrightarrow> x = b" by auto
qed

lemma toolUseIDFor_cases:
  assumes "toolUseIDFor c e content = i" "i \<noteq> []"
  obtains tool blocks b where "ev_Tool e = Some tool" "dec_blocks c content = Some blocks"
    "b \<in> set blocks" "i = block_id (ev_Type e) b"
    "filter (block_matches c (ev_Type e) tool) blocks = [b] \<or>
     filter (block_matches c (ev_Type e) tool) blocks = [] \<and> filter (block_of_kind (ev_Type e)) blocks = [b]"
proof -
  obtain tool where tool: "ev_Tool e = Some tool" using assms by (cases "ev_Tool e") (auto simp: toolUseIDFor_def)
  obtain blocks where bl: "dec_blocks c content = Some blocks" "content \<noteq> []"
    using assms tool by (cases "dec_blocks c content") (auto simp: toolUseIDFor_def split: if_splits)
  let ?m = "filter (block_matches c (ev_Type e) tool) blocks" and ?o = "filter (block_of_kind (ev_Type e)) blocks"
  have "(\<exists>b. ?m = [b] \<and> i = block_id (ev_Type e) b) \<or> ?m = [] \<and> (\<exists>b. ?o = [b] \<and> i = block_id (ev_Type e) b)"
    using assms tool bl by (auto simp: toolUseIDFor_def Let_def length_Suc_conv split: if_splits)
  then obtain b where "?m = [b] \<or> ?m = [] \<and> ?o = [b]" "i = block_id (ev_Type e) b" by blast
  moreover have "b \<in> set blocks"
    using calculation(1) by (metis filter_single(1))
  ultimately show thesis using that tool bl by blast
qed

lemma matches_kind: "block_matches c t tool b \<Longrightarrow> block_of_kind t b"
  by (cases t) (auto simp: block_matches_def block_of_kind_def)

section \<open>Properties\<close>

lemma key_source_named:
  "length (bound_key n) \<le> KeyMaxBytes \<and> (n \<noteq> [] \<longrightarrow> bound_key n = bound_key n) \<and> (bound_key n \<noteq> [] \<longrightarrow> bound_key n = n \<or> Q)"
  by (simp add: bound_key_def)

lemma key_source_either:
  "Q \<Longrightarrow> length (bound_key (firstNonEmpty n v)) \<le> KeyMaxBytes \<and>
     (n \<noteq> [] \<longrightarrow> bound_key (firstNonEmpty n v) = bound_key n) \<and>
     (bound_key (firstNonEmpty n v) \<noteq> [] \<longrightarrow> bound_key (firstNonEmpty n v) = n \<or> Q)"
  by (simp add: bound_key_def firstNonEmpty_def)

lemma keysOf_cases:
  obtains "keysOf c e raw = named_keys e"
  | r where "ev_Origin e = OriginTranscript" "dec_record c raw = Some r" "rr_HookEventName r = []"
proof (cases "keysOf c e raw = named_keys e")
  case False
  then have "ev_Origin e = OriginTranscript \<and> (\<exists>r. dec_record c raw = Some r \<and> rr_HookEventName r = [])"
    unfolding keysOf_def Let_def by (cases "dec_record c raw") (auto split: if_splits)
  then show thesis using that by blast
qed (use that in blast)

definition key_fields :: "(Keys \<Rightarrow> string) list" where
  "key_fields = [k_PromptID, k_RecordUUID, k_ParentRecordUUID, k_RequestID, k_MessageID, k_ToolUseID]"

text \<open>
  Every key an event is stored under is at most 256 bytes; a named field the client sent is
  the key, or the key is empty because the field is too long; and a key that is not a named
  field was read from the raw line of a transcript row, decoded as a transcript record: a hook
  row is never keyed by a document.
\<close>
theorem KeysOf_sources:
  "\<forall>f\<in>set key_fields. length (f (KeysOf c e raw)) \<le> KeyMaxBytes \<and>
     (f (named_keys e) \<noteq> [] \<longrightarrow> f (KeysOf c e raw) = bound_key (f (named_keys e))) \<and>
     (f (KeysOf c e raw) \<noteq> [] \<longrightarrow> f (KeysOf c e raw) = f (named_keys e) \<or>
        ev_Origin e = OriginTranscript \<and> (\<exists>r. dec_record c raw = Some r \<and> rr_HookEventName r = []))"
proof (rule keysOf_cases [of c e raw])
  assume "keysOf c e raw = named_keys e"
  then show ?thesis
    unfolding key_fields_def KeysOf_def bounded_def using key_source_named by simp
next
  fix r
  assume r: "ev_Origin e = OriginTranscript" "dec_record c raw = Some r" "rr_HookEventName r = []"
  then have q: "ev_Origin e = OriginTranscript \<and> (\<exists>r. dec_record c raw = Some r \<and> rr_HookEventName r = [])" by blast
  show ?thesis
  proof (cases "raw = []")
    case True
    then show ?thesis
      unfolding key_fields_def KeysOf_def bounded_def keysOf_def using key_source_named by simp
  next
    case False
    then show ?thesis
      unfolding key_fields_def KeysOf_def bounded_def keysOf_def Let_def
      using r key_source_either [OF q] key_source_named
      by (simp split: option.split)
  qed
qed

definition sample_codec :: codec where
  "sample_codec = \<lparr>dec_event = (\<lambda>s. None),
     dec_record = (\<lambda>s. Some \<lparr>rr_UUID = ''rec'', rr_PromptID = ''p1'', rr_LogicalParentUUID = [], rr_RequestID = [],
       rr_HookEventName = [], rr_Message = Some (''m1'', ''blocks'')\<rparr>),
     dec_blocks = (\<lambda>s. Some [\<lparr>rb_Type = ''tool_use'', rb_ID = ''t1'', rb_Name = ''Bash'', rb_Input = ''1'', rb_ToolUseID = [],
         rb_Content = [], rb_Text = []\<rparr>,
       \<lparr>rb_Type = ''tool_use'', rb_ID = ''t2'', rb_Name = ''Bash'', rb_Input = ''2'', rb_ToolUseID = [], rb_Content = [], rb_Text = []\<rparr>]),
     dec_string = (\<lambda>s. Some s), dec_any = (\<lambda>s. None), dec_number = (\<lambda>s. None), dec_probe = (\<lambda>s. NoRaw),
     dec_launch = (\<lambda>s. None), enc_event = (\<lambda>e. None), enc_any = (\<lambda>j. None), json_valid = (\<lambda>s. True)\<rparr>"

definition sample_call :: Event where
  "sample_call = zero_Event\<lparr>ev_Type := ToolCall, ev_Origin := OriginTranscript, ev_SessionID := ''s'',
     ev_Tool := Some \<lparr>tl_Name = ''Bash'', tl_Input = ''2'', tl_Output = [], tl_OutputPath = [], tl_Truncated = False,
       tl_Diff = None, tl_Error = []\<rparr>\<rparr>"

lemma sample_call_id: "toolUseIDFor sample_codec sample_call ''blocks'' = ''t2''"
  by code_simp

theorem KeysOf_sources_witness:
  "k_PromptID (KeysOf sample_codec sample_call ''line'') = ''p1'' \<and>
   (\<exists>r. dec_record sample_codec ''line'' = Some r \<and> rr_HookEventName r = [])"
proof -
  have "k_PromptID (KeysOf sample_codec sample_call ''line'') = ''p1''" by code_simp
  moreover have "k_PromptID (named_keys sample_call) = []" by code_simp
  ultimately show ?thesis
    using KeysOf_sources [of sample_codec sample_call "''line''"] by (auto simp: key_fields_def)
qed

text \<open>
  A tool event read from its record is only given the id of a block of that record: the one
  block it matches or, when none matches, the one block of its kind; when it matches a block,
  no other block's id can be taken for it. Two matching blocks leave the id empty.
\<close>
theorem toolUseIDFor_never_guesses:
  assumes "ev_Tool e = Some tool" "dec_blocks c content = Some blocks" "toolUseIDFor c e content \<noteq> []"
  shows "\<exists>b\<in>set blocks. toolUseIDFor c e content = block_id (ev_Type e) b \<and> block_of_kind (ev_Type e) b \<and>
    (\<forall>b'\<in>set blocks. block_matches c (ev_Type e) tool b' \<longrightarrow> b' = b)"
proof -
  obtain b where b: "b \<in> set blocks" "toolUseIDFor c e content = block_id (ev_Type e) b"
    "filter (block_matches c (ev_Type e) tool) blocks = [b] \<or>
     filter (block_matches c (ev_Type e) tool) blocks = [] \<and> filter (block_of_kind (ev_Type e)) blocks = [b]"
    using toolUseIDFor_cases [OF refl assms(3)] assms(1,2) by (metis option.inject)
  have "block_of_kind (ev_Type e) b \<and> (\<forall>b'\<in>set blocks. block_matches c (ev_Type e) tool b' \<longrightarrow> b' = b)"
    using b(3)
  proof
    assume one: "filter (block_matches c (ev_Type e) tool) blocks = [b]"
    show ?thesis using filter_single(2,3) [OF one] matches_kind by simp
  next
    assume none: "filter (block_matches c (ev_Type e) tool) blocks = [] \<and> filter (block_of_kind (ev_Type e)) blocks = [b]"
    then have "block_of_kind (ev_Type e) b" by (metis filter_single(2))
    with none show ?thesis by (simp add: filter_empty_conv)
  qed
  with b(1,2) show ?thesis by blast
qed

theorem toolUseIDFor_never_guesses_witness:
  "\<exists>b\<in>set (the (dec_blocks sample_codec ''blocks'')). rb_ID b = ''t2'' \<and>
     (\<forall>b'\<in>set (the (dec_blocks sample_codec ''blocks'')). block_matches sample_codec ToolCall (the (ev_Tool sample_call)) b' \<longrightarrow> b' = b)"
proof -
  have e: "ev_Tool sample_call = Some (the (ev_Tool sample_call))" "ev_Type sample_call = ToolCall"
    "dec_blocks sample_codec ''blocks'' = Some (the (dec_blocks sample_codec ''blocks''))"
    by (simp_all add: sample_call_def sample_codec_def)
  have "toolUseIDFor sample_codec sample_call ''blocks'' \<noteq> []" by (simp add: sample_call_id)
  from toolUseIDFor_never_guesses [OF e(1,3) this] show ?thesis
    by (simp only: e(2) sample_call_id block_id_def simp_thms if_True) (metis (no_types))
qed

end
