(* ===== verification/Pricing.thy ===== *)
theory Pricing
  imports Event "HOL-Library.Multiset" Complex_Main
begin

text \<open>
  What a model call costs (\<open>server/ingest/cost.go\<close>): dated rates per model, the one in force
  at the call found by binary search, and the formula over the usage. Dollars are exact
  rationals. \<open>sort.Slice\<close> is not stable, so the sorter is a parameter of which only
  \<open>is_sorter\<close> is known.
\<close>

section \<open>Rates\<close>

definition SyntheticModel :: string where "SyntheticModel = ''<synthetic>''"

definition DefaultCacheReadMultiplier :: rat where "DefaultCacheReadMultiplier = 1 / 10"
definition DefaultCacheWrite5mMultiplier :: rat where "DefaultCacheWrite5mMultiplier = 5 / 4"
definition DefaultCacheWrite1hMultiplier :: rat where "DefaultCacheWrite1hMultiplier = 2"

record Rate =
  rt_Model :: string
  EffectiveFrom :: time
  InputPerMTok :: rat
  OutputPerMTok :: rat
  CacheReadMultiplier :: rat
  CacheWrite5mMultiplier :: rat
  CacheWrite1hMultiplier :: rat

definition withDefaults :: "Rate \<Rightarrow> Rate" where
  "withDefaults r = r\<lparr>
     CacheReadMultiplier := (if CacheReadMultiplier r = 0 then DefaultCacheReadMultiplier else CacheReadMultiplier r),
     CacheWrite5mMultiplier := (if CacheWrite5mMultiplier r = 0 then DefaultCacheWrite5mMultiplier else CacheWrite5mMultiplier r),
     CacheWrite1hMultiplier := (if CacheWrite1hMultiplier r = 0 then DefaultCacheWrite1hMultiplier else CacheWrite1hMultiplier r)\<rparr>"

record Pricer =
  rates :: "string \<Rightarrow> Rate list"
  warned :: "string list"

definition is_sorter :: "(Rate list \<Rightarrow> Rate list) \<Rightarrow> bool" where
  "is_sorter srt \<longleftrightarrow> (\<forall>rs. mset (srt rs) = mset rs \<and> sorted (map EffectiveFrom (srt rs)))"

text \<open>\<open>Load\<close> replaces the whole table and forgets the warnings; \<open>NewPricer\<close> is a load.\<close>

definition Load :: "(Rate list \<Rightarrow> Rate list) \<Rightarrow> Rate list \<Rightarrow> Pricer \<Rightarrow> Pricer" where
  "Load srt rs p = \<lparr>
     rates = (\<lambda>m. srt (map withDefaults (filter (\<lambda>r. rt_Model r \<noteq> [] \<and> rt_Model r = m) rs))),
     warned = []\<rparr>"

definition NewPricer :: "(Rate list \<Rightarrow> Rate list) \<Rightarrow> Rate list \<Rightarrow> Pricer" where
  "NewPricer srt rs = Load srt rs \<lparr>rates = (\<lambda>m. []), warned = []\<rparr>"

section \<open>The rate in force\<close>

text \<open>\<open>sort.Search\<close>: the smallest index in \<open>[i, j)\<close> when which a monotone predicate holds, else \<open>j\<close>.\<close>

function search_loop :: "(nat \<Rightarrow> bool) \<Rightarrow> nat \<Rightarrow> nat \<Rightarrow> nat" where
  "search_loop f i j =
     (if i < j then
        let h = (i + j) div 2
        in if \<not> f h then search_loop f (h + 1) j else search_loop f i h
      else i)"
  by pat_completeness auto
termination by (relation "measure (\<lambda>(f, i, j). j - i)") auto

definition Search :: "nat \<Rightarrow> (nat \<Rightarrow> bool) \<Rightarrow> nat" where
  "Search n f = search_loop f 0 n"

definition rateAt :: "Pricer \<Rightarrow> string \<Rightarrow> time \<Rightarrow> time \<Rightarrow> Rate option" where
  "rateAt p model now0 moment0 =
     (let rs = rates p model
      in if rs = [] then None
         else let moment = (if IsZero moment0 then now0 else moment0);
                  n = Search (length rs) (\<lambda>i. EffectiveFrom (rs ! i) > moment)
              in if n = 0 then Some (rs ! 0) else Some (rs ! (n - 1)))"

text \<open>\<open>warnUnpriced\<close>: one line per model; the result says whether it was written.\<close>

definition warnUnpriced :: "string \<Rightarrow> Pricer \<Rightarrow> bool \<times> Pricer" where
  "warnUnpriced model p =
     (if model \<in> set (warned p) then (False, p) else (True, p\<lparr>warned := model # warned p\<rparr>))"

definition cache_writes :: "Usage \<Rightarrow> int \<times> int" where
  "cache_writes u =
     (if Ephemeral5m u = 0 \<and> Ephemeral1h u = 0 then (CacheCreationTokens u, Ephemeral1h u)
      else (Ephemeral5m u, Ephemeral1h u))"

definition cost_at :: "Rate \<Rightarrow> Usage \<Rightarrow> rat" where
  "cost_at rate u =
     (let inp = InputPerMTok rate / 1000000;
          outp = OutputPerMTok rate / 1000000;
          cost = of_int (InputTokens u) * inp + of_int (OutputTokens u) * outp;
          cost1 = cost + of_int (CacheReadTokens u) * inp * CacheReadMultiplier rate;
          (w5, w1) = cache_writes u;
          cost2 = cost1 + of_int w5 * inp * CacheWrite5mMultiplier rate
      in cost2 + of_int w1 * inp * CacheWrite1hMultiplier rate)"

definition CostUSD :: "Pricer \<Rightarrow> time \<Rightarrow> string \<Rightarrow> Usage \<Rightarrow> time \<Rightarrow> rat \<times> Pricer" where
  "CostUSD p now0 model u moment =
     (if model = [] \<or> model = SyntheticModel then (0, p)
      else case rateAt p model now0 moment of
             None \<Rightarrow> (0, snd (warnUnpriced model p))
           | Some rate \<Rightarrow> (cost_at rate u, p))"

section \<open>Lemmas\<close>

lemma search_loop_least:
  assumes "i \<le> j" "\<And>a b. a \<le> b \<Longrightarrow> b < j \<Longrightarrow> f a \<Longrightarrow> f b"
  shows "i \<le> search_loop f i j \<and> search_loop f i j \<le> j \<and>
    (\<forall>k. i \<le> k \<and> k < search_loop f i j \<longrightarrow> \<not> f k) \<and> (search_loop f i j < j \<longrightarrow> f (search_loop f i j))"
  using assms
proof (induction f i j rule: search_loop.induct)
  case (1 f i j)
  show ?case
  proof (cases "i < j")
    case False
    then have "search_loop f i j = i" by (subst search_loop.simps) simp
    with False "1.prems"(1) show ?thesis by auto
  next
    case True
    define h where "h = (i + j) div 2"
    have h: "i \<le> h" "h < j" using True by (auto simp: h_def)
    show ?thesis
    proof (cases "f h")
      case fh: True
      have e: "search_loop f i j = search_loop f i h"
        using True fh by (simp add: search_loop.simps [of f i j] h_def Let_def)
      have "i \<le> search_loop f i h \<and> search_loop f i h \<le> h \<and>
        (\<forall>k. i \<le> k \<and> k < search_loop f i h \<longrightarrow> \<not> f k) \<and> (search_loop f i h < h \<longrightarrow> f (search_loop f i h))"
        using "1.IH"(2) [OF True h_def] fh h "1.prems"(2) by (metis less_trans)
      then show ?thesis unfolding e using fh h by (metis le_neq_implies_less le_trans less_imp_le_nat)
    next
      case nfh: False
      have e: "search_loop f i j = search_loop f (h + 1) j"
        using True nfh by (simp add: search_loop.simps [of f i j] h_def Let_def)
      have ih: "h + 1 \<le> search_loop f (h + 1) j \<and> search_loop f (h + 1) j \<le> j \<and>
        (\<forall>k. h + 1 \<le> k \<and> k < search_loop f (h + 1) j \<longrightarrow> \<not> f k) \<and>
        (search_loop f (h + 1) j < j \<longrightarrow> f (search_loop f (h + 1) j))"
        using "1.IH"(1) [OF True h_def] nfh h "1.prems"(2) by (metis Suc_eq_plus1 Suc_leI)
      have "\<not> f k" if "k < h + 1" for k
        using that nfh h(2) "1.prems"(2) [of k h] by auto
      with ih show ?thesis unfolding e using h by (metis le_trans less_imp_le_nat not_less trans_le_add1)
    qed
  qed
qed

declare search_loop.simps [simp del]

lemma Search_least:
  assumes "\<And>a b. a \<le> b \<Longrightarrow> b < n \<Longrightarrow> f a \<Longrightarrow> f b"
  shows "Search n f \<le> n" "\<forall>k < Search n f. \<not> f k" "Search n f < n \<Longrightarrow> f (Search n f)"
  using search_loop_least [of 0 n f] assms unfolding Search_def by auto

lemma Search_sorted:
  fixes moment :: time
  assumes "sorted (map EffectiveFrom rs)"
  defines "n \<equiv> Search (length rs) (\<lambda>i. EffectiveFrom (rs ! i) > moment)"
  shows "n \<le> length rs" "\<forall>k < n. EffectiveFrom (rs ! k) \<le> moment" "\<forall>k. n \<le> k \<and> k < length rs \<longrightarrow> moment < EffectiveFrom (rs ! k)"
proof -
  have mono: "moment < EffectiveFrom (rs ! b)" if "a \<le> b" "b < length rs" "moment < EffectiveFrom (rs ! a)" for a b
    using sorted_nth_mono [OF assms(1), of a b] that by simp
  let ?f = "\<lambda>i. EffectiveFrom (rs ! i) > moment"
  have m: "?f b" if "a \<le> b" "b < length rs" "?f a" for a b using mono [OF that] .
  show "n \<le> length rs" unfolding n_def by (rule Search_least(1) [of _ ?f]) (rule m)
  show "\<forall>k < n. EffectiveFrom (rs ! k) \<le> moment"
    unfolding n_def using Search_least(2) [of "length rs" ?f, OF m] by (simp add: not_less)
  have L: "?f n" if "n < length rs"
    using Search_least(3) [of "length rs" ?f, OF m] that by (simp add: n_def)
  show "\<forall>k. n \<le> k \<and> k < length rs \<longrightarrow> moment < EffectiveFrom (rs ! k)"
    using L mono by (meson le_less_trans)
qed

lemma Load_rates:
  assumes "is_sorter srt"
  shows "set (rates (Load srt rs p) m) = withDefaults ` {r \<in> set rs. rt_Model r = m \<and> m \<noteq> []}"
    and "sorted (map EffectiveFrom (rates (Load srt rs p) m))"
proof -
  have "mset (srt xs) = mset xs" for xs using assms by (simp add: is_sorter_def)
  then have "set (srt xs) = set xs" for xs by (metis set_mset_mset)
  then show "set (rates (Load srt rs p) m) = withDefaults ` {r \<in> set rs. rt_Model r = m \<and> m \<noteq> []}"
    by (auto simp: Load_def)
  show "sorted (map EffectiveFrom (rates (Load srt rs p) m))"
    using assms by (simp add: Load_def is_sorter_def)
qed

lemma withDefaults_keeps [simp]: "EffectiveFrom (withDefaults r) = EffectiveFrom r" "rt_Model (withDefaults r) = rt_Model r"
  "InputPerMTok (withDefaults r) = InputPerMTok r" "OutputPerMTok (withDefaults r) = OutputPerMTok r"
  by (simp_all add: withDefaults_def)

section \<open>Properties\<close>

text \<open>The rate of a table that is in force at a moment: the latest that has begun, or else the earliest.\<close>

definition in_force :: "Rate set \<Rightarrow> time \<Rightarrow> Rate \<Rightarrow> bool" where
  "in_force R moment r \<longleftrightarrow> r \<in> R \<and>
     (if \<exists>r'\<in>R. EffectiveFrom r' \<le> moment
      then EffectiveFrom r \<le> moment \<and> (\<forall>r'\<in>R. EffectiveFrom r' \<le> moment \<longrightarrow> EffectiveFrom r' \<le> EffectiveFrom r)
      else \<forall>r'\<in>R. EffectiveFrom r \<le> EffectiveFrom r')"

definition model_rates :: "Rate list \<Rightarrow> string \<Rightarrow> Rate set" where
  "model_rates rs m = withDefaults ` {r \<in> set rs. rt_Model r = m}"

text \<open>
  A call is priced at the rate in force when it happened: over any loaded table and any
  correct sort, the binary search returns, of the model's rows with their defaults, the latest
  one that had begun, or the earliest when none had; and a model has a rate exactly when the
  table has a row for it.
\<close>
theorem rateAt_in_force:
  assumes "is_sorter srt" "m \<noteq> []"
  shows "case rateAt (NewPricer srt rs) m t moment of
      None \<Rightarrow> model_rates rs m = {}
    | Some r \<Rightarrow> in_force (model_rates rs m) (if IsZero moment then t else moment) r"
proof (cases "rateAt (NewPricer srt rs) m t moment")
  case None
  have "set (rates (NewPricer srt rs) m) = model_rates rs m"
    using Load_rates(1) [OF assms(1)] assms(2) by (auto simp: NewPricer_def model_rates_def)
  with None show ?thesis by (auto simp: rateAt_def Let_def split: if_splits)
next
  case some: (Some r)
  let ?R = "model_rates rs m" and ?rs = "rates (NewPricer srt rs) m" and ?at = "if IsZero moment then t else moment"
  have set: "set ?rs = ?R" and sorted: "sorted (map EffectiveFrom ?rs)"
    using Load_rates [OF assms(1)] assms(2) by (auto simp: NewPricer_def model_rates_def)
  define n where "n = Search (length ?rs) (\<lambda>i. EffectiveFrom (?rs ! i) > ?at)"
  note S = Search_sorted [OF sorted, of ?at, folded n_def]
  from some have ne: "?rs \<noteq> []" and r: "r = ?rs ! (n - 1)"
    by (auto simp: rateAt_def Let_def n_def split: if_splits)
  have ix: "n - 1 < length ?rs" using S(1) ne by (cases n) auto
  have mem: "r \<in> ?R" using r ix set nth_mem by blast
  have "in_force ?R ?at r"
  proof (cases "n = 0")
    case True
    then have late: "?at < EffectiveFrom r'" if "r' \<in> ?R" for r'
      using S(3) that set by (metis in_set_conv_nth le0)
    have "EffectiveFrom r \<le> EffectiveFrom r'" if "r' \<in> ?R" for r'
      using sorted_nth_mono [OF sorted, of 0] that set r True
      by (metis (no_types, lifting) diff_0_eq_0 in_set_conv_nth le0 length_map nth_map ne length_greater_0_conv)
    with late mem show ?thesis unfolding in_force_def by (meson leD)
  next
    case False
    then have now: "EffectiveFrom r \<le> ?at" using S(2) r by simp
    have "EffectiveFrom r' \<le> EffectiveFrom r" if r': "r' \<in> ?R" "EffectiveFrom r' \<le> ?at" for r'
    proof -
      obtain k where k: "k < length ?rs" "r' = ?rs ! k" using r'(1) set by (metis in_set_conv_nth)
      then have "k < n" using S(3) r'(2) by (meson leD not_le)
      then show ?thesis using sorted_nth_mono [OF sorted, of k "n - 1"] k r ix by simp
    qed
    with now mem show ?thesis unfolding in_force_def by auto
  qed
  with some show ?thesis by simp
qed

definition sample_rates :: "Rate list" where
  "sample_rates = map (\<lambda>(t, p). \<lparr>rt_Model = ''opus'', EffectiveFrom = t, InputPerMTok = p, OutputPerMTok = 5 * p,
     CacheReadMultiplier = 0, CacheWrite5mMultiplier = 0, CacheWrite1hMultiplier = 0\<rparr>) [(300, 4), (100, 3), (200, 5)]"

definition by_start :: "Rate list \<Rightarrow> Rate list" where
  "by_start rs = sort_key EffectiveFrom rs"

lemma by_start_sorter: "is_sorter by_start"
  by (simp add: is_sorter_def by_start_def)

theorem rateAt_in_force_witness:
  "case rateAt (NewPricer by_start sample_rates) ''opus'' 0 250 of
      None \<Rightarrow> False
    | Some r \<Rightarrow> in_force (model_rates sample_rates ''opus'') 250 r \<and> InputPerMTok r = 5"
proof -
  have p: "map_option InputPerMTok (rateAt (NewPricer by_start sample_rates) ''opus'' 0 250) = Some 5"
    by code_simp
  show ?thesis
    using rateAt_in_force [OF by_start_sorter, where m = "''opus''" and rs = sample_rates and t = 0 and moment = 250] p
    by (auto simp: IsZero_def split: option.splits)
qed

end
