(* ===== verification/Tables.thy ===== *)
theory Tables
  imports Keys Pricing
begin

text \<open>
  The database as the ingest transaction uses it (\<open>server/store/store.go\<close>): the rows of
  \<open>sessions\<close>, \<open>events\<close>, \<open>messages\<close> and \<open>usage_ledger\<close>, and each SQL statement as the
  function it is on them. A table is the list of its rows in insertion order; a nullable text
  column is empty for NULL where the statements write it through \<open>nullif\<close>. A statement fails
  when the server fails it (\<open>stmt_ok\<close>) or when it breaks a rule Postgres enforces: \<open>ON
  CONFLICT DO UPDATE\<close> may not touch one row twice, and a message names an event.
\<close>

section \<open>Rows\<close>

record event_row =
  er_id :: string
  er_session :: string
  er_email :: string
  er_seq :: int
  er_type :: event_type
  er_origin :: string
  er_occurred :: time
  er_agent :: string
  er_workflow :: string
  er_model :: string
  er_tool :: string
  er_body :: string
  er_version :: int
  er_prompt :: string
  er_record :: string
  er_parent :: string
  er_request :: string
  er_message :: string
  er_tooluse :: string

record ledger_row =
  lr_message :: string
  lr_request :: string
  lr_event :: string
  lr_session :: string
  lr_email :: string
  lr_model :: string
  lr_occurred :: time
  lr_input :: int
  lr_output :: int
  lr_read :: int
  lr_5m :: int
  lr_1h :: int
  lr_cost :: rat

record message_row =
  mr_event :: string
  mr_session :: string
  mr_email :: string
  mr_seq :: int
  mr_role :: string
  mr_occurred :: time
  mr_text :: string
  mr_kind :: Kind
  mr_agent :: string

record session_row =
  sr_id :: string
  sr_email :: string
  sr_device :: string
  sr_source :: string
  sr_parent :: string
  sr_cwd :: string
  sr_repo :: string
  sr_branch :: string
  sr_started :: time
  sr_ended_at :: "time option"
  sr_ended :: bool
  sr_user_turns :: int
  sr_tool_calls :: int
  sr_subagents :: int
  sr_errors :: int
  sr_first_prompt :: "string option"
  sr_harness_versions :: "string list option"
  sr_input :: int
  sr_output :: int
  sr_read :: int
  sr_write :: int
  sr_cost :: rat
  sr_redactions :: "tally_map option"
  sr_type :: string
  sr_mirror :: string
  sr_lineage :: string
  sr_parent_record :: string
  sr_human_turns :: int
  sr_content :: int
  sr_agent_versions :: "string list option"
  sr_entrypoint :: string
  sr_launcher :: "Launcher option"
  sr_transcript :: "bool option"
  sr_harness_title :: string
  sr_title_source :: string
  sr_empty_kind :: string
  sr_head_state :: string
  sr_dirty :: bool
  sr_updated :: time

record db =
  t_sessions :: "session_row list"
  t_events :: "event_row list"
  t_messages :: "message_row list"
  t_ledger :: "ledger_row list"

section \<open>Statements and their failures\<close>

datatype stmt =
    SBegin | SClaim string | SMatch | SUpgrade | SInsert | SBody string | SCredit | SMessages | SArtifacts
  | SLinks | SRefresh | SMarkType string | SMarkDirty | SApply string | STitle string | SCommit

type_synonym 'a result = "stmt + 'a \<times> db"

definition bindS :: "'a result \<Rightarrow> ('a \<Rightarrow> db \<Rightarrow> 'b result) \<Rightarrow> 'b result" where
  "bindS m f = (case m of Inl e \<Rightarrow> Inl e | Inr (x, d) \<Rightarrow> f x d)"

lemma bindS_simps [simp]: "bindS (Inl e) f = Inl e" "bindS (Inr (x, d)) f = f x d"
  by (simp_all add: bindS_def)

lemma bindS_Inr: "bindS m f = Inr r \<longleftrightarrow> (\<exists>x d. m = Inr (x, d) \<and> f x d = Inr r)"
  by (auto simp: bindS_def split: sum.splits)

text \<open>What the outside supplies during one transaction.\<close>

record tx_env =
  stmt_ok :: "stmt \<Rightarrow> bool"
  index_ready :: bool
  tx_now :: time
  price :: "string \<Rightarrow> Usage \<Rightarrow> time \<Rightarrow> rat"
  tx_codec :: codec

definition exec :: "tx_env \<Rightarrow> stmt \<Rightarrow> 'a \<times> db \<Rightarrow> 'a result" where
  "exec e st r = (if stmt_ok e st then Inr r else Inl st)"

lemma exec_Inr [simp]: "exec e st r = Inr r' \<longleftrightarrow> stmt_ok e st \<and> r' = r"
  by (auto simp: exec_def)

text \<open>\<open>coalesce\<close> of two nullable text columns, \<open>LEAST\<close> and \<open>GREATEST\<close> of nullable times.\<close>

abbreviation coalesce :: "string \<Rightarrow> string \<Rightarrow> string" where
  "coalesce a b \<equiv> firstNonEmpty a b"

definition coalesce_opt :: "'a option \<Rightarrow> 'a option \<Rightarrow> 'a option" where
  "coalesce_opt a b = (if a = None then b else a)"

definition greatest :: "time option \<Rightarrow> time option \<Rightarrow> time option" where
  "greatest a b = (case (a, b) of (Some x, Some y) \<Rightarrow> Some (max x y) | (None, y) \<Rightarrow> y | (x, None) \<Rightarrow> x)"

section \<open>sessions\<close>

definition session_type_merge :: "string \<Rightarrow> string \<Rightarrow> string" where
  "session_type_merge old new =
     (if ''automation'' \<in> {old, new} then ''automation''
      else if ''internal'' \<in> {old, new} then ''internal''
      else if old = ''empty'' then new
      else ''user'')"

definition session_array_union :: "string list option \<Rightarrow> string list option \<Rightarrow> string list option" where
  "session_array_union a b =
     (case (a, b) of (None, _) \<Rightarrow> b | (_, None) \<Rightarrow> a | (Some x, Some y) \<Rightarrow> Some (sort (remdups (x @ y))))"

definition jsonb_counter_add :: "tally_map option \<Rightarrow> tally_map option \<Rightarrow> tally_map option" where
  "jsonb_counter_add a b =
     (case (a, b) of (None, _) \<Rightarrow> b | (_, None) \<Rightarrow> a | (Some x, Some y) \<Rightarrow> Some (bump_all (\<lambda>k. k) y x))"

definition find_session :: "db \<Rightarrow> string \<Rightarrow> session_row option" where
  "find_session d sid = find (\<lambda>s. sr_id s = sid) (t_sessions d)"

definition update_sessions :: "string \<Rightarrow> (session_row \<Rightarrow> session_row) \<Rightarrow> db \<Rightarrow> db" where
  "update_sessions sid f d = d\<lparr>t_sessions := map (\<lambda>s. if sr_id s = sid then f s else s) (t_sessions d)\<rparr>"

definition claimed_row :: "tx_env \<Rightarrow> string \<Rightarrow> string \<Rightarrow> string \<Rightarrow> string \<Rightarrow> time \<Rightarrow> session_row" where
  "claimed_row e sid email dev src t =
     \<lparr>sr_id = sid, sr_email = email, sr_device = dev, sr_source = src, sr_parent = [], sr_cwd = [], sr_repo = [],
      sr_branch = [], sr_started = t, sr_ended_at = None, sr_ended = False, sr_user_turns = 0, sr_tool_calls = 0,
      sr_subagents = 0, sr_errors = 0, sr_first_prompt = None, sr_harness_versions = None, sr_input = 0,
      sr_output = 0, sr_read = 0, sr_write = 0, sr_cost = 0, sr_redactions = None, sr_type = ''empty'',
      sr_mirror = [], sr_lineage = [], sr_parent_record = [], sr_human_turns = 0, sr_content = 0,
      sr_agent_versions = None, sr_entrypoint = [], sr_launcher = None, sr_transcript = None,
      sr_harness_title = [], sr_title_source = ''none'', sr_empty_kind = [], sr_head_state = ''unknown'',
      sr_dirty = True, sr_updated = tx_now e\<rparr>"

text \<open>\<open>claimSession\<close>: insert the row, or move its start back, and return its owner.\<close>

definition claim_stmt :: "tx_env \<Rightarrow> string \<Rightarrow> string \<Rightarrow> string \<Rightarrow> string \<Rightarrow> time \<Rightarrow> db \<Rightarrow> string \<times> db" where
  "claim_stmt e sid email dev src t d =
     (case find_session d sid of
        Some s \<Rightarrow> (sr_email s, update_sessions sid (\<lambda>s. s\<lparr>sr_started := min (sr_started s) t\<rparr>) d)
      | None \<Rightarrow> (email, d\<lparr>t_sessions := t_sessions d @ [claimed_row e sid email dev src t]\<rparr>))"

section \<open>events\<close>

definition event_ids :: "db \<Rightarrow> string list" where
  "event_ids d = map er_id (t_events d)"

definition merge_keys :: "event_row \<Rightarrow> event_row \<Rightarrow> event_row" where
  "merge_keys new old = old\<lparr>
     er_prompt := coalesce (er_prompt new) (er_prompt old),
     er_record := coalesce (er_record new) (er_record old),
     er_parent := coalesce (er_parent new) (er_parent old),
     er_request := coalesce (er_request new) (er_request old),
     er_message := coalesce (er_message new) (er_message old),
     er_tooluse := coalesce (er_tooluse new) (er_tooluse old)\<rparr>"

text \<open>\<open>INSERT INTO events \<dots> ON CONFLICT (id) DO UPDATE \<dots> RETURNING id, (xmax = 0)\<close>.\<close>

definition conflict_update :: "event_row \<Rightarrow> event_row \<Rightarrow> event_row" where
  "conflict_update new old = (merge_keys new old)\<lparr>
     er_body := er_body new, er_model := er_model new, er_tool := er_tool new, er_agent := er_agent new,
     er_workflow := er_workflow new, er_version := er_version new\<rparr>"

definition insert_row :: "event_row \<Rightarrow> event_row list \<Rightarrow> (string \<times> bool) list \<times> event_row list" where
  "insert_row r t =
     (case find (\<lambda>x. er_id x = er_id r) t of
        None \<Rightarrow> ([(er_id r, True)], t @ [r])
      | Some old \<Rightarrow>
          if er_version r > er_version old
          then ([(er_id r, False)], map (\<lambda>x. if er_id x = er_id r then conflict_update r x else x) t)
          else ([], t))"

fun insert_rows :: "event_row list \<Rightarrow> event_row list \<Rightarrow> (string \<times> bool) list \<times> event_row list" where
  "insert_rows [] t = ([], t)"
| "insert_rows (r # rs) t =
     (case insert_row r t of (out, t1) \<Rightarrow> case insert_rows rs t1 of (outs, t2) \<Rightarrow> (out @ outs, t2))"

definition insert_stmt :: "tx_env \<Rightarrow> event_row list \<Rightarrow> db \<Rightarrow> (string \<times> bool) list result" where
  "insert_stmt e rs d =
     (if \<not> distinct (map er_id rs) then Inl SInsert
      else case insert_rows rs (t_events d) of (out, t) \<Rightarrow> exec e SInsert (out, d\<lparr>t_events := t\<rparr>))"

text \<open>The identity join: the stored transcript rows of an identity, in id order.\<close>

definition match_stmt :: "Identity \<Rightarrow> db \<Rightarrow> event_row list" where
  "match_stmt i d = sort_key er_id (filter (\<lambda>x. er_origin x = OriginTranscript \<and> er_session x = i_SessionID i \<and>
     er_agent x = i_AgentID i \<and> er_record x = i_Record i \<and> er_type x = i_Type i \<and> er_tooluse x = i_ToolUseID i)
     (t_events d))"

definition upgrade_row :: "event_row \<Rightarrow> event_row \<Rightarrow> event_row" where
  "upgrade_row new old = (merge_keys new old)\<lparr>
     er_body := er_body new, er_model := er_model new, er_tool := er_tool new, er_version := er_version new\<rparr>"

definition upgrade_stmt :: "event_row list \<Rightarrow> db \<Rightarrow> db" where
  "upgrade_stmt us d = d\<lparr>t_events := map (\<lambda>x. case find (\<lambda>u. er_id u = er_id x) us of
       Some u \<Rightarrow> if er_version u > er_version x then upgrade_row u x else x
     | None \<Rightarrow> x) (t_events d)\<rparr>"

section \<open>usage_ledger\<close>

definition ledger_key :: "ledger_row \<Rightarrow> string \<times> string" where
  "ledger_key r = (lr_message r, lr_request r)"

text \<open>\<open>ON CONFLICT (message_id, request_id) DO NOTHING RETURNING \<dots>\<close>: the rows that were new.\<close>

fun credit_rows :: "ledger_row list \<Rightarrow> ledger_row list \<Rightarrow> ledger_row list" where
  "credit_rows [] t = []"
| "credit_rows (r # rs) t =
     (if ledger_key r \<in> ledger_key ` set t then credit_rows rs t
      else r # credit_rows rs (t @ [r]))"

text \<open>The column is \<open>NUMERIC(12,6)\<close>: the price is rounded to six places, halves away from zero.\<close>

definition round6 :: "rat \<Rightarrow> rat" where
  "round6 c = sgn c * of_int \<lfloor>\<bar>c\<bar> * 1000000 + 1 / 2\<rfloor> / 1000000"

definition credit_stmt :: "tx_env \<Rightarrow> ledger_row list \<Rightarrow> db \<Rightarrow> ledger_row list result" where
  "credit_stmt e rs d =
     (let new = credit_rows (map (\<lambda>r. r\<lparr>lr_cost := round6 (lr_cost r)\<rparr>) rs) (t_ledger d)
      in exec e SCredit (new, d\<lparr>t_ledger := t_ledger d @ new\<rparr>))"

section \<open>messages\<close>

definition put_message :: "message_row \<Rightarrow> message_row list \<Rightarrow> message_row list" where
  "put_message m t = (if mr_event m \<in> mr_event ` set t then t else t @ [m])"

definition refresh_message :: "message_row \<Rightarrow> message_row list \<Rightarrow> message_row list" where
  "refresh_message m t =
     (if mr_event m \<in> mr_event ` set t
      then map (\<lambda>x. if mr_event x = mr_event m
                    then x\<lparr>mr_text := mr_text m, mr_kind := mr_kind m, mr_agent := mr_agent m\<rparr> else x) t
      else t @ [m])"

definition messages_stmt :: "tx_env \<Rightarrow> message_row list \<Rightarrow> db \<Rightarrow> unit result" where
  "messages_stmt e ms d =
     (if \<not> (\<forall>m\<in>set ms. mr_event m \<in> set (event_ids d)) then Inl SMessages
      else exec e SMessages ((), d\<lparr>t_messages := fold put_message ms (t_messages d)\<rparr>))"

text \<open>The refresh joins the stored event, whose position it takes.\<close>

definition at_stored_position :: "db \<Rightarrow> message_row \<Rightarrow> message_row list" where
  "at_stored_position d m =
     map (\<lambda>x. m\<lparr>mr_seq := er_seq x, mr_occurred := er_occurred x\<rparr>) (filter (\<lambda>x. er_id x = mr_event m) (t_events d))"

definition refresh_stmt :: "tx_env \<Rightarrow> message_row list \<Rightarrow> db \<Rightarrow> unit result" where
  "refresh_stmt e ms d =
     (let ms1 = concat (map (at_stored_position d) ms)
      in if \<not> distinct (map mr_event ms1) then Inl SRefresh
         else exec e SRefresh ((), d\<lparr>t_messages := fold refresh_message ms1 (t_messages d)\<rparr>))"

end
