(* ===== verification/Store.thy ===== *)
theory Store
  imports Tables
begin

text \<open>
  Storing a batch (\<open>server/store/store.go\<close>): \<open>UpsertEvents\<close> and what it calls. Go's maps are
  lists of entries in the order of first insertion. The transaction is a chain of statements over
  the tables: an error anywhere gives the database as it was and a zero result. Derived tables
  (artifacts, links, skill invocations) are not represented; their statements can fail the
  transaction.
\<close>

section \<open>Data\<close>

record Ingest =
  in_Event :: Event
  in_Email :: string
  in_DeviceID :: string
  in_Repo :: string
  in_Body :: string
  in_AgentVersion :: string

record Refusal =
  rf_ID :: string
  rf_Reason :: string

record UpsertResult =
  Inserted :: "string list"
  Duplicate :: "string list"
  Refused :: "Refusal list"
  Sessions :: "string list"

definition zero_UpsertResult :: UpsertResult where
  "zero_UpsertResult = \<lparr>Inserted = [], Duplicate = [], Refused = [], Sessions = []\<rparr>"

abbreviation item_id_of :: "Ingest \<Rightarrow> string" where "item_id_of it \<equiv> ev_ID (in_Event it)"
abbreviation session_of :: "Ingest \<Rightarrow> string" where "session_of it \<equiv> ev_SessionID (in_Event it)"

text \<open>\<open>int32(x)\<close>.\<close>

definition to_int32 :: "int \<Rightarrow> int" where
  "to_int32 x = (x + 2 ^ 31) mod 2 ^ 32 - 2 ^ 31"

section \<open>Admission\<close>

definition validateIngest :: "codec \<Rightarrow> Ingest \<Rightarrow> string" where
  "validateIngest c it =
     (let e = in_Event it
      in if ev_ID e = [] then ''missing event id''
         else if ev_SessionID e = [] then ''missing session id''
         else if length (ev_ID e) > KeyMaxBytes then ''event id too long''
         else if length (ev_SessionID e) > KeyMaxBytes then ''session id too long''
         else if ev_Type e = OtherType [] then ''missing event type''
         else if ev_Origin e = [] then ''missing event origin''
         else if ev_Source e = [] then ''missing event source''
         else if IsZero (ev_OccurredAt e) then ''missing occurred_at''
         else if in_Email it = [] then ''unattributed event''
         else if in_Body it \<noteq> [] \<and> \<not> json_valid c (in_Body it) then ''body is not valid JSON''
         else [])"

record screening =
  sc_kept :: "Ingest list"
  sc_dups :: "string list"
  sc_refused :: "Refusal list"

fun screen :: "codec \<Rightarrow> Ingest list \<Rightarrow> screening \<Rightarrow> screening" where
  "screen c [] st = st"
| "screen c (it # its) st =
     (let reason = validateIngest c it
      in if reason \<noteq> [] then screen c its (st\<lparr>sc_refused := sc_refused st @ [\<lparr>rf_ID = item_id_of it, rf_Reason = reason\<rparr>]\<rparr>)
         else if item_id_of it \<in> item_id_of ` set (sc_kept st)
         then screen c its (st\<lparr>sc_dups := sc_dups st @ [item_id_of it]\<rparr>)
         else screen c its (st\<lparr>sc_kept := sc_kept st @ [it]\<rparr>))"

definition claimSession :: "tx_env \<Rightarrow> Ingest \<Rightarrow> db \<Rightarrow> string result" where
  "claimSession e it d =
     exec e (SClaim (session_of it))
       (claim_stmt e (session_of it) (in_Email it) (in_DeviceID it) (ev_Source (in_Event it)) (ev_OccurredAt (in_Event it)) d)"

record admission =
  ad_owners :: "(string \<times> string) list"
  ad_admitted :: "Ingest list"
  ad_refused :: "Refusal list"

definition admit_as :: "string \<Rightarrow> Ingest \<Rightarrow> admission \<Rightarrow> admission" where
  "admit_as own it st =
     (if own \<noteq> in_Email it
      then st\<lparr>ad_refused := ad_refused st @ [\<lparr>rf_ID = item_id_of it, rf_Reason = ''session belongs to another principal''\<rparr>]\<rparr>
      else st\<lparr>ad_admitted := ad_admitted st @ [it]\<rparr>)"

fun admit :: "tx_env \<Rightarrow> Ingest list \<Rightarrow> admission \<Rightarrow> db \<Rightarrow> admission result" where
  "admit e [] st d = Inr (st, d)"
| "admit e (it # its) st d =
     (case map_of (ad_owners st) (session_of it) of
        Some own \<Rightarrow> admit e its (admit_as own it st) d
      | None \<Rightarrow> bindS (claimSession e it d) (\<lambda>own d1.
          admit e its (admit_as own it (st\<lparr>ad_owners := (session_of it, own) # ad_owners st\<rparr>)) d1))"

section \<open>Events\<close>

definition keysFor :: "codec \<Rightarrow> Ingest \<Rightarrow> Keys" where
  "keysFor c it = KeysOf c (in_Event it) (ev_Raw (in_Event it))"

definition ingestBody :: "codec \<Rightarrow> Ingest \<Rightarrow> string option" where
  "ingestBody c it = (if in_Body it \<noteq> [] then Some (in_Body it) else enc_event c (in_Event it))"

definition tool_name :: "Event \<Rightarrow> string" where
  "tool_name ev = (case ev_Tool ev of None \<Rightarrow> [] | Some t \<Rightarrow> tl_Name t)"

definition row_of :: "codec \<Rightarrow> Ingest \<Rightarrow> string \<Rightarrow> string \<Rightarrow> event_row" where
  "row_of c it i body =
     (let ev = in_Event it; k = keysFor c it
      in \<lparr>er_id = i, er_session = ev_SessionID ev, er_email = in_Email it, er_seq = ev_Seq ev, er_type = ev_Type ev,
          er_origin = ev_Origin ev, er_occurred = ev_OccurredAt ev, er_agent = ev_AgentID ev,
          er_workflow = ev_WorkflowID ev, er_model = ev_Model ev, er_tool = tool_name ev, er_body = body,
          er_version = to_int32 (ev_CaptureVersion ev), er_prompt = k_PromptID k, er_record = k_RecordUUID k,
          er_parent = k_ParentRecordUUID k, er_request = k_RequestID k, er_message = k_MessageID k,
          er_tooluse = k_ToolUseID k\<rparr>)"

text \<open>
  \<open>upgradeByIdentity\<close>: the rows each transcript item's identity holds (\<open>matched\<close>), the copy
  elected for each of those rows, and the rows it upgrades.
\<close>

definition matched_rows :: "codec \<Rightarrow> db \<Rightarrow> Ingest \<Rightarrow> event_row list" where
  "matched_rows c d it =
     (case IdentityOf (in_Event it) (keysFor c it) of None \<Rightarrow> [] | Some i \<Rightarrow> match_stmt i d)"

definition matched_items :: "codec \<Rightarrow> db \<Rightarrow> Ingest list \<Rightarrow> (Ingest \<times> event_row list) list" where
  "matched_items c d its = filter (\<lambda>p. snd p \<noteq> []) (map (\<lambda>it. (it, matched_rows c d it)) its)"

type_synonym election = "(event_row \<times> Ingest) list"

fun elect_row :: "Ingest \<Rightarrow> event_row \<Rightarrow> election \<Rightarrow> election" where
  "elect_row it r [] = [(r, it)]"
| "elect_row it r ((r', w) # el) =
     (if er_id r' = er_id r
      then (r', if ev_CaptureVersion (in_Event it) \<ge> ev_CaptureVersion (in_Event w) then it else w) # el
      else (r', w) # elect_row it r el)"

definition elected :: "(Ingest \<times> event_row list) list \<Rightarrow> election" where
  "elected ms = fold (\<lambda>(it, rs) el. fold (elect_row it) rs el) ms []"

type_synonym held_map = "(string \<times> string list) list"

definition held_of :: "(Ingest \<times> event_row list) list \<Rightarrow> held_map" where
  "held_of ms = map (\<lambda>(it, rs). (item_id_of it, map er_id rs)) ms"

fun upgrades :: "tx_env \<Rightarrow> election \<Rightarrow> stmt + event_row list" where
  "upgrades e [] = Inr []"
| "upgrades e ((r, it) # el) =
     (if item_id_of it = er_id r then upgrades e el
      else if to_int32 (ev_CaptureVersion (in_Event it)) \<le> er_version r then upgrades e el
      else case ingestBody (tx_codec e) it of
             None \<Rightarrow> Inl (SBody (item_id_of it))
           | Some body \<Rightarrow> (case upgrades e el of Inl st \<Rightarrow> Inl st
                           | Inr us \<Rightarrow> Inr (row_of (tx_codec e) it (er_id r) body # us)))"

definition upgradeByIdentity :: "tx_env \<Rightarrow> Ingest list \<Rightarrow> db \<Rightarrow> (held_map \<times> string list) result" where
  "upgradeByIdentity e its d =
     (let c = tx_codec e; ms = matched_items c d its
      in if \<not> index_ready e \<or> (\<forall>it\<in>set its. IdentityOf (in_Event it) (keysFor c it) = None) then Inr (([], []), d)
         else bindS (exec e SMatch ((), d)) (\<lambda>_ d.
           if ms = [] then Inr (([], []), d)
           else case upgrades e (elected ms) of
                  Inl st \<Rightarrow> Inl st
                | Inr [] \<Rightarrow> Inr ((held_of ms, []), d)
                | Inr us \<Rightarrow> exec e SUpgrade ((held_of ms, map er_id us), upgrade_stmt us d)))"

text \<open>An alias is an incoming id that is not one of its identity's rows.\<close>

definition is_alias :: "held_map \<Rightarrow> string \<Rightarrow> bool" where
  "is_alias held i = (case map_of (rev held) i of None \<Rightarrow> False | Some ids \<Rightarrow> i \<notin> set ids)"

fun event_rows :: "tx_env \<Rightarrow> Ingest list \<Rightarrow> stmt + event_row list" where
  "event_rows e [] = Inr []"
| "event_rows e (it # its) =
     (case ingestBody (tx_codec e) it of
        None \<Rightarrow> Inl (SBody (item_id_of it))
      | Some body \<Rightarrow> (case event_rows e its of Inl st \<Rightarrow> Inl st
                      | Inr rs \<Rightarrow> Inr (row_of (tx_codec e) it (item_id_of it) body # rs)))"

definition insertEvents :: "tx_env \<Rightarrow> Ingest list \<Rightarrow> db \<Rightarrow> (string list \<times> held_map \<times> string list) result" where
  "insertEvents e its d =
     bindS (upgradeByIdentity e its d) (\<lambda>(held, up) d1.
       case event_rows e (filter (\<lambda>it. \<not> is_alias held (item_id_of it)) its) of
         Inl st \<Rightarrow> Inl st
       | Inr [] \<Rightarrow> Inr (([], held, up), d1)
       | Inr rs \<Rightarrow> bindS (insert_stmt e rs d1) (\<lambda>out d2.
           Inr ((map fst (filter snd out), held, up @ map fst (filter (\<lambda>p. \<not> snd p) out)), d2)))"

text \<open>\<open>collapseByStoredID\<close>.\<close>

definition as_stored :: "string \<Rightarrow> Ingest \<Rightarrow> Ingest" where
  "as_stored i it = it\<lparr>in_Event := (in_Event it)\<lparr>ev_ID := i\<rparr>\<rparr>"

fun place :: "Ingest \<Rightarrow> Ingest list \<Rightarrow> Ingest list" where
  "place it [] = [it]"
| "place it (x # xs) =
     (if item_id_of x = item_id_of it
      then (if ev_CaptureVersion (in_Event it) \<ge> ev_CaptureVersion (in_Event x) then it else x) # xs
      else x # place it xs)"

definition copies :: "held_map \<Rightarrow> Ingest \<Rightarrow> Ingest list" where
  "copies held it =
     (case map_of (rev held) (item_id_of it) of None \<Rightarrow> [it] | Some ids \<Rightarrow> map (\<lambda>i. as_stored i it) ids)"

definition collapseByStoredID :: "Ingest list \<Rightarrow> held_map \<Rightarrow> Ingest list" where
  "collapseByStoredID its held =
     (if held = [] then its else fold place (concat (map (copies held) its)) [])"

section \<open>Usage\<close>

definition usageKey :: "Ingest \<Rightarrow> string \<times> string" where
  "usageKey it =
     (case ev_Usage (in_Event it) of None \<Rightarrow> ([], [])
      | Some u \<Rightarrow>
          if u_MessageID u = [] \<or> length (u_MessageID u) > KeyMaxBytes then (''event:'' @ item_id_of it, [])
          else (u_MessageID u, []))"

definition ledger_row_of :: "tx_env \<Rightarrow> Ingest \<Rightarrow> Usage \<Rightarrow> ledger_row" where
  "ledger_row_of e it u =
     (let ev = in_Event it
      in \<lparr>lr_message = fst (usageKey it), lr_request = snd (usageKey it), lr_event = ev_ID ev, lr_session = ev_SessionID ev,
          lr_email = in_Email it, lr_model = ev_Model ev, lr_occurred = ev_OccurredAt ev, lr_input = InputTokens u,
          lr_output = OutputTokens u, lr_read = CacheReadTokens u, lr_5m = Ephemeral5m u, lr_1h = Ephemeral1h u,
          lr_cost = price e (ev_Model ev) u (ev_OccurredAt ev)\<rparr>)"

text \<open>The loop's \<open>batchSeen\<close> is the keys of the rows already made.\<close>

fun ledger_rows :: "tx_env \<Rightarrow> Ingest list \<Rightarrow> string list \<Rightarrow> ledger_row list" where
  "ledger_rows e [] seen = []"
| "ledger_rows e (it # its) seen =
     (case ev_Usage (in_Event it) of
        None \<Rightarrow> ledger_rows e its seen
      | Some u \<Rightarrow>
          if ev_Model (in_Event it) = SyntheticModel then ledger_rows e its seen
          else let mid = fst (usageKey it)
               in if mid = [] then ledger_rows e its seen
                  else if mid \<in> set seen then ledger_rows e its seen
                  else ledger_row_of e it u # ledger_rows e its (mid # seen))"

type_synonym credits = "(string \<times> Usage \<times> rat) list"

definition usage_of :: "Ingest list \<Rightarrow> string \<Rightarrow> Usage option" where
  "usage_of its i = (case find (\<lambda>it. item_id_of it = i) its of None \<Rightarrow> None | Some it \<Rightarrow> ev_Usage (in_Event it))"

definition zero_Usage :: Usage where
  "zero_Usage = \<lparr>InputTokens = 0, OutputTokens = 0, CacheReadTokens = 0, CacheCreationTokens = 0, Ephemeral5m = 0,
     Ephemeral1h = 0, ServiceTier = [], u_RequestID = [], u_MessageID = []\<rparr>"

definition creditUsage :: "tx_env \<Rightarrow> Ingest list \<Rightarrow> db \<Rightarrow> credits result" where
  "creditUsage e its d =
     (let rs = ledger_rows e its []
      in if rs = [] then Inr ([], d)
         else bindS (credit_stmt e rs d) (\<lambda>new d1.
           Inr (map (\<lambda>r. (lr_event r, case usage_of its (lr_event r) of None \<Rightarrow> zero_Usage | Some u \<Rightarrow> u, lr_cost r)) new, d1)))"

end
