(* ===== verification/Rollup.thy ===== *)
theory Rollup
  imports Store
begin

text \<open>
  The session rollup and the whole of \<open>UpsertEvents\<close> (\<open>server/store/store.go\<close>): what freshly
  stored events add to a session, the statements that fold it in, the messages corpus, the type
  and title rules, and the transaction that composes them with the admission and the inserts.
\<close>

section \<open>Messages\<close>

definition messageRole :: "event_type \<Rightarrow> string option" where
  "messageRole t =
     (case t of UserPrompt \<Rightarrow> Some ''user'' | AssistantTurn \<Rightarrow> Some ''assistant''
      | ToolResult \<Rightarrow> Some ''tool'' | ToolFailed \<Rightarrow> Some ''tool'' | _ \<Rightarrow> None)"

definition classifyIngest :: "codec \<Rightarrow> Ingest \<Rightarrow> Message" where
  "classifyIngest c it = (case KindOf c (in_Event it) of Some m \<Rightarrow> m | None \<Rightarrow> msg KindNone [])"

definition message_of :: "codec \<Rightarrow> Ingest \<Rightarrow> message_row option" where
  "message_of c it =
     (let ev = in_Event it
      in case messageRole (ev_Type ev) of
           None \<Rightarrow> None
         | Some role \<Rightarrow>
             if TrimSpace (ev_Text ev) = [] then None
             else Some \<lparr>mr_event = ev_ID ev, mr_session = ev_SessionID ev, mr_email = in_Email it, mr_seq = ev_Seq ev,
                    mr_role = role, mr_occurred = ev_OccurredAt ev, mr_text = ev_Text ev,
                    mr_kind = m_kind (classifyIngest c it), mr_agent = ev_AgentID ev\<rparr>)"

definition writeMessages :: "tx_env \<Rightarrow> Ingest list \<Rightarrow> bool \<Rightarrow> db \<Rightarrow> unit result" where
  "writeMessages e its refresh d =
     (let ms = List.map_filter (message_of (tx_codec e)) its
      in if ms = [] then Inr ((), d)
         else if refresh then refresh_stmt e ms d else messages_stmt e ms d)"

section \<open>Increments\<close>

record titleCandidate =
  tc_EventID :: string
  tc_Seq :: int
  tc_At :: time
  tc_Title :: string
  tc_Command :: bool

definition tc_earlier :: "titleCandidate \<Rightarrow> titleCandidate option \<Rightarrow> bool" where
  "tc_earlier c other =
     (case other of None \<Rightarrow> True
      | Some x \<Rightarrow> if tc_Seq c \<noteq> tc_Seq x then tc_Seq c < tc_Seq x else tc_At c < tc_At x)"

record SessionDelta =
  d_SessionID :: string
  d_Email :: string
  d_DeviceID :: string
  d_Source :: string
  d_ParentSessionID :: string
  d_Cwd :: string
  d_Repo :: string
  d_GitBranch :: string
  d_StartedAt :: time
  d_EndedAt :: time
  d_Ended :: bool
  d_UserTurns :: int
  d_ToolCalls :: int
  d_Subagents :: int
  d_Errors :: int
  d_HumanTurns :: int
  d_ContentEvents :: int
  d_HarnessVersions :: "string list"
  d_AgentVersions :: "string list"
  d_LineageSource :: string
  d_ParentRecordUUID :: string
  d_Entrypoint :: string
  d_Launcher :: "Launcher option"
  d_TranscriptExists :: "bool option"
  d_HarnessTitle :: string
  d_EndReason :: string
  d_Title :: "titleCandidate option"
  d_AnyPrompt :: "titleCandidate option"
  d_TokensInput :: int
  d_TokensOutput :: int
  d_TokensCacheRead :: int
  d_TokensCacheWrite :: int
  d_CostUSD :: rat
  d_Redactions :: tally_map
  d_SawUserPrompt :: bool
  d_MirrorRequest :: string
  d_Automation :: bool

definition new_delta :: "Ingest \<Rightarrow> SessionDelta" where
  "new_delta it = \<lparr>d_SessionID = session_of it, d_Email = in_Email it, d_DeviceID = in_DeviceID it,
     d_Source = ev_Source (in_Event it), d_ParentSessionID = [], d_Cwd = [], d_Repo = [], d_GitBranch = [],
     d_StartedAt = 0, d_EndedAt = 0, d_Ended = False, d_UserTurns = 0, d_ToolCalls = 0, d_Subagents = 0,
     d_Errors = 0, d_HumanTurns = 0, d_ContentEvents = 0, d_HarnessVersions = [], d_AgentVersions = [],
     d_LineageSource = [], d_ParentRecordUUID = [], d_Entrypoint = [], d_Launcher = None,
     d_TranscriptExists = None, d_HarnessTitle = [], d_EndReason = [], d_Title = None, d_AnyPrompt = None,
     d_TokensInput = 0, d_TokensOutput = 0, d_TokensCacheRead = 0, d_TokensCacheWrite = 0, d_CostUSD = 0,
     d_Redactions = [], d_SawUserPrompt = False, d_MirrorRequest = [], d_Automation = False\<rparr>"

definition knownLineageSource :: "string \<Rightarrow> bool" where
  "knownLineageSource s \<longleftrightarrow> s = ''fork_uuid'' \<or> s = ''fork_hook''"

definition harnessTitleMax :: nat where "harnessTitleMax = TitleMax"
definition entrypointMax :: nat where "entrypointMax = 64"
definition launcherFieldMax :: nat where "launcherFieldMax = 128"

definition clipRunes :: "string \<Rightarrow> nat \<Rightarrow> string" where
  "clipRunes s n = (if RuneCount s \<le> n then s else cutRunes n s)"

definition clipLauncher :: "Launcher \<Rightarrow> Launcher" where
  "clipLauncher l = \<lparr>la_Entrypoint = clipRunes (la_Entrypoint l) launcherFieldMax,
     la_BundleID = clipRunes (la_BundleID l) launcherFieldMax, la_Term = clipRunes (la_Term l) launcherFieldMax,
     la_ParentComm = clipRunes (la_ParentComm l) launcherFieldMax\<rparr>"

definition add_once :: "string \<Rightarrow> string list \<Rightarrow> string list" where
  "add_once v vs = (if v \<noteq> [] \<and> v \<notin> set vs then vs @ [v] else vs)"

text \<open>The first half of the loop body of \<open>foldDeltas\<close>: where, when and how the event was captured.\<close>

definition delta_context :: "Ingest \<Rightarrow> SessionDelta \<Rightarrow> SessionDelta" where
  "delta_context it d =
     (let e = in_Event it;
          d1 = (if knownLineageSource (ev_LineageSource e) \<and> ev_ParentSessionID e \<noteq> []
                then d\<lparr>d_ParentSessionID := ev_ParentSessionID e, d_LineageSource := ev_LineageSource e\<rparr>
                else if ev_ParentSessionID e \<noteq> [] \<and> d_ParentRecordUUID d = []
                then d\<lparr>d_ParentRecordUUID := ev_ParentSessionID e\<rparr> else d)
      in d1\<lparr>d_ParentRecordUUID := coalesce (ev_ParentRecordUUID e) (d_ParentRecordUUID d1),
            d_Cwd := coalesce (ev_Cwd e) (d_Cwd d1),
            d_Repo := coalesce (in_Repo it) (d_Repo d1),
            d_GitBranch := coalesce (ev_GitBranch e) (d_GitBranch d1),
            d_HarnessVersions := add_once (ev_HarnessVersion e) (d_HarnessVersions d1),
            d_AgentVersions := add_once (in_AgentVersion it) (d_AgentVersions d1),
            d_Entrypoint := (if ev_Entrypoint e \<noteq> [] \<and> d_Entrypoint d1 = []
                             then clipRunes (ev_Entrypoint e) entrypointMax else d_Entrypoint d1),
            d_HarnessTitle := (if ev_HarnessTitle e \<noteq> [] then clipRunes (ev_HarnessTitle e) harnessTitleMax
                               else d_HarnessTitle d1),
            d_StartedAt := (if IsZero (d_StartedAt d1) \<or> ev_OccurredAt e < d_StartedAt d1 then ev_OccurredAt e
                            else d_StartedAt d1),
            d_EndedAt := (if ev_OccurredAt e > d_EndedAt d1 then ev_OccurredAt e else d_EndedAt d1)\<rparr>)"

definition prompt_candidate :: "codec \<Rightarrow> Ingest \<Rightarrow> titleCandidate" where
  "prompt_candidate c it =
     (let e = in_Event it; m = classifyIngest c it
      in \<lparr>tc_EventID = ev_ID e, tc_Seq = ev_Seq e, tc_At = ev_OccurredAt e, tc_Title = Title m,
          tc_Command = (m_kind m = KindSlashCommand)\<rparr>)"

definition delta_prompt :: "codec \<Rightarrow> Ingest \<Rightarrow> SessionDelta \<Rightarrow> SessionDelta" where
  "delta_prompt c it d =
     (let e = in_Event it; m = classifyIngest c it; cand = prompt_candidate c it;
          d1 = d\<lparr>d_UserTurns := d_UserTurns d + 1, d_ContentEvents := d_ContentEvents d + 1, d_SawUserPrompt := True\<rparr>
      in if ev_AgentID e = [] \<and> TrimSpace (ev_Text e) \<noteq> []
         then let d2 = (if tc_earlier cand (d_AnyPrompt d1) then d1\<lparr>d_AnyPrompt := Some cand\<rparr> else d1)
              in if IsHumanKind (m_kind m)
                 then d2\<lparr>d_HumanTurns := d_HumanTurns d2 + 1,
                         d_Title := (if tc_earlier cand (d_Title d2) then Some cand else d_Title d2)\<rparr>
                 else d2
         else d1)"

definition delta_count :: "codec \<Rightarrow> Ingest \<Rightarrow> SessionDelta \<Rightarrow> SessionDelta" where
  "delta_count c it d =
     (let e = in_Event it
      in case ev_Type e of
           SessionStarted \<Rightarrow>
             d\<lparr>d_MirrorRequest := coalesce (ev_MirrorRequest e) (d_MirrorRequest d),
               d_Launcher := (if ev_Launcher e \<noteq> None \<and> d_Launcher d = None
                              then map_option clipLauncher (ev_Launcher e) else d_Launcher d)\<rparr>
         | UserPrompt \<Rightarrow> delta_prompt c it d
         | AssistantTurn \<Rightarrow>
             (if TrimSpace (ev_Text e) \<noteq> [] \<or> ev_Usage e \<noteq> None
              then d\<lparr>d_ContentEvents := d_ContentEvents d + 1\<rparr> else d)
         | ToolCall \<Rightarrow> d\<lparr>d_ToolCalls := d_ToolCalls d + 1, d_ContentEvents := d_ContentEvents d + 1\<rparr>
         | ToolResult \<Rightarrow> d\<lparr>d_ContentEvents := d_ContentEvents d + 1\<rparr>
         | FileChanged \<Rightarrow> d\<lparr>d_ContentEvents := d_ContentEvents d + 1\<rparr>
         | SubagentEnd \<Rightarrow> d\<lparr>d_ContentEvents := d_ContentEvents d + 1\<rparr>
         | ToolFailed \<Rightarrow> d\<lparr>d_Errors := d_Errors d + 1, d_ContentEvents := d_ContentEvents d + 1\<rparr>
         | SubagentStart \<Rightarrow> d\<lparr>d_Subagents := d_Subagents d + 1, d_ContentEvents := d_ContentEvents d + 1\<rparr>
         | SessionEnded \<Rightarrow>
             d\<lparr>d_Ended := True, d_EndReason := coalesce (ev_Text e) (d_EndReason d),
               d_TranscriptExists := (if ev_TranscriptExists e \<noteq> None then ev_TranscriptExists e else d_TranscriptExists d)\<rparr>
         | _ \<Rightarrow> d)"

text \<open>The tokens and the price of one credited call.\<close>

definition delta_credit :: "Usage \<times> rat \<Rightarrow> SessionDelta \<Rightarrow> SessionDelta" where
  "delta_credit uc d =
     (case uc of (u, cost) \<Rightarrow>
        d\<lparr>d_TokensInput := d_TokensInput d + InputTokens u,
          d_TokensOutput := d_TokensOutput d + OutputTokens u,
          d_TokensCacheRead := d_TokensCacheRead d + CacheReadTokens u,
          d_TokensCacheWrite := d_TokensCacheWrite d +
            (if Ephemeral5m u + Ephemeral1h u > 0 then Ephemeral5m u + Ephemeral1h u else CacheCreationTokens u),
          d_CostUSD := d_CostUSD d + cost\<rparr>)"

definition delta_item :: "codec \<Rightarrow> credits \<Rightarrow> Ingest \<Rightarrow> SessionDelta \<Rightarrow> SessionDelta" where
  "delta_item c counted it d =
     (let d1 = delta_count c it (delta_context it d);
          d2 = (case map_of counted (item_id_of it) of Some uc \<Rightarrow> delta_credit uc d1 | None \<Rightarrow> d1)
      in d2\<lparr>d_Redactions := bump_all (\<lambda>k. k) (ev_Redactions (in_Event it)) (d_Redactions d2)\<rparr>)"

text \<open>The map of increments: the entry of a session is updated, or begun.\<close>

fun upd_delta :: "(SessionDelta \<Rightarrow> SessionDelta) \<Rightarrow> SessionDelta \<Rightarrow> SessionDelta list \<Rightarrow> SessionDelta list" where
  "upd_delta f fresh [] = [f fresh]"
| "upd_delta f fresh (d # ds) =
     (if d_SessionID d = d_SessionID fresh then f d # ds else d # upd_delta f fresh ds)"

definition foldDeltas :: "codec \<Rightarrow> Ingest list \<Rightarrow> credits \<Rightarrow> SessionDelta list" where
  "foldDeltas c its counted = fold (\<lambda>it ds. upd_delta (delta_item c counted it) (new_delta it) ds) its []"

text \<open>Credits of rows that were stored before.\<close>

definition late_delta :: "Ingest \<Rightarrow> SessionDelta" where
  "late_delta it = (new_delta it)\<lparr>d_StartedAt := ev_OccurredAt (in_Event it), d_EndedAt := ev_OccurredAt (in_Event it)\<rparr>"

definition credit_late :: "credits \<Rightarrow> string list \<Rightarrow> Ingest list \<Rightarrow> SessionDelta list \<Rightarrow> SessionDelta list" where
  "credit_late counted inserted stored ds0 =
     fold (\<lambda>it ds.
         if item_id_of it \<in> set inserted then ds
         else case map_of counted (item_id_of it) of
                None \<Rightarrow> ds
              | Some uc \<Rightarrow> upd_delta (delta_credit uc) (late_delta it) ds)
       stored ds0"

section \<open>Automation\<close>

definition automationEntrypoint :: "string \<Rightarrow> bool" where
  "automationEntrypoint ep \<longleftrightarrow> ep = ''sdk-cli'' \<or> HasPrefix ep ''codex_exec''"

definition quoted :: "string \<Rightarrow> string" where
  "quoted s = quote # s @ [quote]"

definition automationEvidenceRaw :: "codec \<Rightarrow> string \<Rightarrow> bool option" where
  "automationEvidenceRaw c raw =
     (if raw = [] then None
      else if \<not> Contains raw (quoted ''entrypoint'') \<and> \<not> Contains raw (quoted ''originator'') then None
      else case dec_launch c raw of None \<Rightarrow> None
           | Some (ep, orig) \<Rightarrow>
               if ep \<noteq> [] then Some (automationEntrypoint ep)
               else if orig \<noteq> [] then Some (automationEntrypoint orig)
               else None)"

fun automationLoop :: "codec \<Rightarrow> Ingest list \<Rightarrow> string list \<Rightarrow> string list \<Rightarrow> string list" where
  "automationLoop c [] out probed = out"
| "automationLoop c (it # its) out probed =
     (let sid = session_of it; e = in_Event it
      in if sid \<in> set out then automationLoop c its out probed
         else if ev_Entrypoint e \<noteq> []
         then automationLoop c its (if automationEntrypoint (ev_Entrypoint e) then sid # out else out) probed
         else if sid \<in> set probed then automationLoop c its out probed
         else case automationEvidenceRaw c (ev_Raw e) of
                None \<Rightarrow> automationLoop c its out probed
              | Some a \<Rightarrow> automationLoop c its (if a then sid # out else out) (sid # probed))"

definition automationSessions :: "codec \<Rightarrow> Ingest list \<Rightarrow> string list" where
  "automationSessions c its = automationLoop c its [] []"

section \<open>Folding an increment into its session\<close>

definition sessionTypeOf :: "bool \<Rightarrow> int \<Rightarrow> string" where
  "sessionTypeOf automation content =
     (if automation then ''automation'' else if content > 0 then ''user'' else ''empty'')"

definition some_list :: "'a list \<Rightarrow> 'a list option" where
  "some_list xs = (if xs = [] then None else Some xs)"

definition nullTime :: "time \<Rightarrow> time option" where
  "nullTime t = (if IsZero t then None else Some t)"

definition blank_or_aborted :: "bool \<Rightarrow> string" where
  "blank_or_aborted b = (if b then ''blank'' else ''aborted'')"

definition long_enough :: "time option \<Rightarrow> time \<Rightarrow> bool" where
  "long_enough ended started = (case ended of None \<Rightarrow> False | Some t \<Rightarrow> t - started \<ge> 5 * second)"

text \<open>The values an increment brings (\<open>EXCLUDED\<close>), as a row.\<close>

definition excluded :: "tx_env \<Rightarrow> SessionDelta \<Rightarrow> session_row" where
  "excluded e d =
     (let typ = sessionTypeOf (d_Automation d) (d_ContentEvents d)
      in \<lparr>sr_id = d_SessionID d, sr_email = d_Email d, sr_device = d_DeviceID d, sr_source = d_Source d,
          sr_parent = d_ParentSessionID d, sr_cwd = d_Cwd d, sr_repo = d_Repo d, sr_branch = d_GitBranch d,
          sr_started = d_StartedAt d, sr_ended_at = nullTime (d_EndedAt d), sr_ended = d_Ended d,
          sr_user_turns = d_UserTurns d, sr_tool_calls = d_ToolCalls d, sr_subagents = d_Subagents d,
          sr_errors = d_Errors d, sr_first_prompt = None, sr_harness_versions = some_list (d_HarnessVersions d),
          sr_input = d_TokensInput d, sr_output = d_TokensOutput d, sr_read = d_TokensCacheRead d,
          sr_write = d_TokensCacheWrite d, sr_cost = d_CostUSD d, sr_redactions = some_list (d_Redactions d),
          sr_type = typ, sr_mirror = d_MirrorRequest d, sr_lineage = d_LineageSource d,
          sr_parent_record = d_ParentRecordUUID d, sr_human_turns = d_HumanTurns d, sr_content = d_ContentEvents d,
          sr_agent_versions = some_list (d_AgentVersions d), sr_entrypoint = d_Entrypoint d,
          sr_launcher = d_Launcher d, sr_transcript = d_TranscriptExists d, sr_harness_title = d_HarnessTitle d,
          sr_title_source = ''none'',
          sr_empty_kind = (if typ = ''empty'' \<and> d_Ended d
            then blank_or_aborted (d_EndReason d = ''prompt_input_exit'' \<or> long_enough (nullTime (d_EndedAt d)) (d_StartedAt d))
            else []),
          sr_head_state = (if d_ContentEvents d > 0 then ''complete'' else ''unknown''),
          sr_dirty = True, sr_updated = tx_now e\<rparr>)"

definition merge_empty_kind :: "string \<Rightarrow> session_row \<Rightarrow> session_row \<Rightarrow> string" where
  "merge_empty_kind reason x s =
     (if session_type_merge (sr_type s) (sr_type x) \<noteq> ''empty'' then []
      else if sr_ended s \<or> sr_ended x
      then blank_or_aborted (sr_empty_kind s = ''blank'' \<or> reason = ''prompt_input_exit'' \<or>
             long_enough (greatest (sr_ended_at s) (sr_ended_at x)) (min (sr_started s) (sr_started x)))
      else sr_empty_kind s)"

text \<open>The \<open>DO UPDATE SET\<close> list: every column added to, merged monotonically, or filled in once.\<close>

definition merge_session :: "tx_env \<Rightarrow> string \<Rightarrow> session_row \<Rightarrow> session_row \<Rightarrow> session_row" where
  "merge_session e reason x s = s\<lparr>
     sr_device := coalesce (sr_device s) (sr_device x),
     sr_parent := coalesce (sr_parent x) (sr_parent s),
     sr_cwd := coalesce (sr_cwd x) (sr_cwd s),
     sr_repo := coalesce (sr_repo x) (sr_repo s),
     sr_branch := coalesce (sr_branch x) (sr_branch s),
     sr_started := min (sr_started s) (sr_started x),
     sr_ended_at := greatest (sr_ended_at s) (sr_ended_at x),
     sr_ended := sr_ended s \<or> sr_ended x,
     sr_user_turns := sr_user_turns s + sr_user_turns x,
     sr_tool_calls := sr_tool_calls s + sr_tool_calls x,
     sr_subagents := sr_subagents s + sr_subagents x,
     sr_errors := sr_errors s + sr_errors x,
     sr_harness_versions := session_array_union (sr_harness_versions s) (sr_harness_versions x),
     sr_input := sr_input s + sr_input x,
     sr_output := sr_output s + sr_output x,
     sr_read := sr_read s + sr_read x,
     sr_write := sr_write s + sr_write x,
     sr_cost := sr_cost s + sr_cost x,
     sr_redactions := jsonb_counter_add (sr_redactions s) (sr_redactions x),
     sr_type := session_type_merge (sr_type s) (sr_type x),
     sr_mirror := coalesce (sr_mirror s) (sr_mirror x),
     sr_lineage := (if sr_parent x \<noteq> [] then sr_lineage x else sr_lineage s),
     sr_parent_record := coalesce (sr_parent_record x) (sr_parent_record s),
     sr_human_turns := sr_human_turns s + sr_human_turns x,
     sr_content := sr_content s + sr_content x,
     sr_agent_versions := session_array_union (sr_agent_versions s) (sr_agent_versions x),
     sr_entrypoint := coalesce (sr_entrypoint s) (sr_entrypoint x),
     sr_launcher := coalesce_opt (sr_launcher s) (sr_launcher x),
     sr_transcript := (if sr_transcript s = None \<and> sr_transcript x = None then None
       else Some (sr_transcript s = Some True \<or> sr_transcript x = Some True)),
     sr_harness_title := coalesce (sr_harness_title x) (sr_harness_title s),
     sr_empty_kind := merge_empty_kind reason x s,
     sr_head_state := (if sr_head_state s = ''unknown'' \<and> sr_content s + sr_content x > 0 then ''complete''
       else sr_head_state s),
     sr_dirty := True,
     sr_updated := tx_now e\<rparr>"

definition applyDelta :: "tx_env \<Rightarrow> SessionDelta \<Rightarrow> db \<Rightarrow> unit result" where
  "applyDelta e dl d =
     (let x = excluded e dl
      in exec e (SApply (d_SessionID dl)) ((),
           case find_session d (d_SessionID dl) of
             None \<Rightarrow> d\<lparr>t_sessions := t_sessions d @ [x]\<rparr>
           | Some _ \<Rightarrow> update_sessions (d_SessionID dl) (merge_session e (d_EndReason dl) x) d))"

section \<open>The opening prompt and the session's type\<close>

definition ltrim :: "string \<Rightarrow> string" where
  "ltrim s = dropWhile (\<lambda>ch. ch \<in> set TemplateCutset) s"

definition btrim :: "string \<Rightarrow> string" where
  "btrim s = rev (ltrim (rev (ltrim s)))"

text \<open>\<open>ORDER BY seq, occurred_at LIMIT 1\<close> over the main thread's user rows; a tie goes to the older row.\<close>

definition first_user_row :: "db \<Rightarrow> string \<Rightarrow> (Kind \<Rightarrow> bool) \<Rightarrow> message_row option" where
  "first_user_row d sid ok =
     (case sort_by (\<lambda>a b. mr_seq a < mr_seq b \<or> mr_seq a = mr_seq b \<and> mr_occurred a < mr_occurred b)
        (filter (\<lambda>m. mr_session m = sid \<and> mr_role m = ''user'' \<and> mr_agent m = [] \<and> ok (mr_kind m)) (t_messages d)) of
        [] \<Rightarrow> None | m # _ \<Rightarrow> Some m)"

definition row_title :: "string \<Rightarrow> string" where
  "row_title t = cutRunes TitleMax (btrim (fst (Cut (ltrim t) [newline])))"

definition internal_text :: "string \<Rightarrow> bool" where
  "internal_text t \<longleftrightarrow> list_ex (HasPrefix (ltrim t)) InternalTemplatePrefixes"

definition refresh_title :: "tx_env \<Rightarrow> SessionDelta \<Rightarrow> message_row option \<Rightarrow> message_row option \<Rightarrow> session_row \<Rightarrow> session_row" where
  "refresh_title e dl h a s =
     (let internal = internal_text (case h of Some m \<Rightarrow> mr_text m | None \<Rightarrow> (case a of Some m \<Rightarrow> mr_text m | None \<Rightarrow> []));
          human_id = (case d_Title dl of Some c \<Rightarrow> tc_EventID c | None \<Rightarrow> []);
          human_title = (case d_Title dl of Some c \<Rightarrow> tc_Title c | None \<Rightarrow> []);
          command = (case d_Title dl of Some c \<Rightarrow> tc_Command c | None \<Rightarrow> False);
          any_id = (case d_AnyPrompt dl of Some c \<Rightarrow> tc_EventID c | None \<Rightarrow> []);
          any_title = (case d_AnyPrompt dl of Some c \<Rightarrow> tc_Title c | None \<Rightarrow> []);
          machine = (sr_type s = ''automation'' \<or> internal)
      in s\<lparr>
        sr_first_prompt :=
          (case h of
             Some m \<Rightarrow> if mr_event m = human_id then Some human_title else sr_first_prompt s
           | None \<Rightarrow>
               if machine
               then (if map_option mr_event a = Some any_id then Some any_title
                     else coalesce_opt (sr_first_prompt s) (map_option (\<lambda>m. row_title (mr_text m)) a))
               else None),
        sr_title_source :=
          (case h of
             Some m \<Rightarrow> if mr_kind m = KindNone then sr_title_source s
                       else if mr_kind m = KindSlashCommand \<or> mr_event m = human_id \<and> command then ''command''
                       else ''human''
           | None \<Rightarrow> if machine \<and> a \<noteq> None then ''automation_template'' else ''none''),
        sr_type :=
          (if internal \<and> sr_type s \<noteq> ''automation'' then ''internal''
           else if \<not> internal \<and> sr_type s = ''internal'' then ''user''
           else sr_type s),
        sr_dirty := True,
        sr_updated := tx_now e\<rparr>)"

definition refreshFirstPrompt :: "tx_env \<Rightarrow> SessionDelta \<Rightarrow> db \<Rightarrow> unit result" where
  "refreshFirstPrompt e dl d =
     (let sid = d_SessionID dl;
          h = first_user_row d sid (\<lambda>k. k = KindNone \<or> k = KindHuman \<or> k = KindSlashCommand);
          a = first_user_row d sid (\<lambda>k. True)
      in exec e (STitle sid) ((), update_sessions sid (refresh_title e dl h a) d))"

definition mark_row :: "tx_env \<Rightarrow> string \<Rightarrow> session_row \<Rightarrow> session_row" where
  "mark_row e typ s =
     (let t = session_type_merge (sr_type s) typ
      in if t = sr_type s then s
         else s\<lparr>sr_type := t, sr_empty_kind := (if t \<noteq> ''empty'' then [] else sr_empty_kind s),
                sr_dirty := True, sr_updated := tx_now e\<rparr>)"

definition markSessionType :: "tx_env \<Rightarrow> string \<Rightarrow> string \<Rightarrow> db \<Rightarrow> bool result" where
  "markSessionType e sid typ d =
     exec e (SMarkType sid)
       (case find_session d sid of Some s \<Rightarrow> session_type_merge (sr_type s) typ \<noteq> sr_type s | None \<Rightarrow> False,
        update_sessions sid (mark_row e typ) d)"

definition empty_delta :: "string \<Rightarrow> SessionDelta" where
  "empty_delta sid = new_delta \<lparr>in_Event = zero_Event\<lparr>ev_SessionID := sid\<rparr>, in_Email = [], in_DeviceID = [], in_Repo = [],
     in_Body = [], in_AgentVersion = []\<rparr>"

definition markAutomation :: "tx_env \<Rightarrow> string \<Rightarrow> db \<Rightarrow> unit result" where
  "markAutomation e sid d =
     bindS (markSessionType e sid ''automation'' d) (\<lambda>promoted d1.
       if promoted then refreshFirstPrompt e (empty_delta sid) d1 else Inr ((), d1))"

section \<open>The transaction\<close>

fun each :: "('a \<Rightarrow> db \<Rightarrow> unit result) \<Rightarrow> 'a list \<Rightarrow> db \<Rightarrow> unit result" where
  "each f [] d = Inr ((), d)"
| "each f (x # xs) d = bindS (f x d) (\<lambda>_ d1. each f xs d1)"

definition mark_dirty :: "tx_env \<Rightarrow> string list \<Rightarrow> db \<Rightarrow> unit result" where
  "mark_dirty e sids d =
     (if sids = [] then Inr ((), d)
      else exec e SMarkDirty ((), d\<lparr>t_sessions :=
        map (\<lambda>s. if sr_id s \<in> set sids then s\<lparr>sr_dirty := True, sr_updated := tx_now e\<rparr> else s) (t_sessions d)\<rparr>))"

definition fold_in :: "tx_env \<Rightarrow> SessionDelta \<Rightarrow> db \<Rightarrow> unit result" where
  "fold_in e dl d =
     bindS (applyDelta e dl d) (\<lambda>_ d1.
       if d_SawUserPrompt dl \<or> d_Automation dl then refreshFirstPrompt e dl d1 else Inr ((), d1))"

definition deltas_of :: "tx_env \<Rightarrow> string list \<Rightarrow> string list \<Rightarrow> credits \<Rightarrow> Ingest list \<Rightarrow> Ingest list \<Rightarrow> SessionDelta list" where
  "deltas_of e auto inserted counted fresh stored =
     credit_late counted inserted stored
       (map (\<lambda>d. d\<lparr>d_Automation := (d_SessionID d \<in> set auto)\<rparr>) (foldDeltas (tx_codec e) fresh counted))"

text \<open>The half of the transaction after the inserts: usage, derived rows, rollups.\<close>

definition derive_rows :: "tx_env \<Rightarrow> Ingest list \<Rightarrow> db \<Rightarrow> unit result" where
  "derive_rows e fresh d =
     (if fresh = [] then Inr ((), d)
      else bindS (writeMessages e fresh False d) (\<lambda>_ d1.
           bindS (exec e SArtifacts ((), d1)) (\<lambda>_ d2. exec e SLinks ((), d2))))"

definition rollup :: "tx_env \<Rightarrow> Ingest list \<Rightarrow> string list \<Rightarrow> string list \<Rightarrow> Ingest list \<Rightarrow> credits \<Rightarrow> db \<Rightarrow> string list result" where
  "rollup e admitted inserted up stored counted d =
     (let fresh = filter (\<lambda>it. item_id_of it \<in> set inserted) admitted;
          auto = automationSessions (tx_codec e) admitted;
          moved = filter (\<lambda>it. item_id_of it \<in> set up) stored;
          deltas = deltas_of e auto inserted counted fresh stored;
          sids = map d_SessionID deltas
      in bindS (derive_rows e fresh d) (\<lambda>_ d1.
         bindS (if moved = [] then Inr ((), d1) else writeMessages e moved True d1) (\<lambda>_ d2.
         bindS (each (markAutomation e) (filter (\<lambda>s. s \<notin> set sids) (sort auto)) d2) (\<lambda>_ d3.
         bindS (mark_dirty e (filter (\<lambda>s. s \<notin> set sids) (sort (remdups (map session_of moved)))) d3) (\<lambda>_ d4.
         bindS (each (fold_in e) (sort_key d_SessionID deltas) d4) (\<lambda>_ d5.
         Inr (sort sids, d5)))))))"

definition upsert_tx :: "tx_env \<Rightarrow> screening \<Rightarrow> db \<Rightarrow> UpsertResult result" where
  "upsert_tx e sc d =
     bindS (exec e SBegin ((), d)) (\<lambda>_ d0.
     bindS (admit e (sort_by (\<lambda>a b. session_of a < session_of b) (sc_kept sc))
              \<lparr>ad_owners = [], ad_admitted = [], ad_refused = sc_refused sc\<rparr> d0) (\<lambda>ad d1.
       if ad_admitted ad = []
       then exec e SCommit (\<lparr>Inserted = [], Duplicate = sc_dups sc, Refused = ad_refused ad, Sessions = []\<rparr>, d1)
       else
         bindS (insertEvents e (ad_admitted ad) d1) (\<lambda>(inserted, held, up) d2.
         let stored = collapseByStoredID (ad_admitted ad) held;
             ids = map item_id_of (ad_admitted ad)
         in bindS (creditUsage e stored d2) (\<lambda>counted d3.
            bindS (rollup e (ad_admitted ad) inserted up stored counted d3) (\<lambda>sessions d4.
            exec e SCommit
              (\<lparr>Inserted = filter (\<lambda>i. i \<in> set inserted) ids,
                Duplicate = sc_dups sc @ filter (\<lambda>i. i \<notin> set inserted) ids,
                Refused = ad_refused ad, Sessions = sessions\<rparr>, d4))))))"

definition UpsertEvents :: "tx_env \<Rightarrow> Ingest list \<Rightarrow> db \<Rightarrow> (stmt option \<times> UpsertResult) \<times> db" where
  "UpsertEvents e items d =
     (let sc = screen (tx_codec e) items \<lparr>sc_kept = [], sc_dups = [], sc_refused = []\<rparr>
      in if sc_kept sc = [] then ((None, \<lparr>Inserted = [], Duplicate = sc_dups sc, Refused = sc_refused sc, Sessions = []\<rparr>), d)
         else case upsert_tx e sc d of
                Inl st \<Rightarrow> ((Some st, zero_UpsertResult), d)
              | Inr (res, d1) \<Rightarrow> ((None, res), d1))"

end
