(* ===== verification/Access.thy ===== *)
theory Access
  imports Authz Rollup
begin

text \<open>
  The tables of \<open>server/store/migrations/0001_init.sql\<close> and \<open>0002_admin_queries.sql\<close> that decide
  who may do what: \<open>principals\<close> with the trail of their changes, \<open>devices\<close> with their tokens, and
  \<open>shares\<close> with the log of accesses, beside the tables of captured work. A table is the list of its
  rows in insertion order. A nullable text column is empty for NULL where every statement reads it
  through \<open>deref\<close> and writes it through \<open>nullif\<close>; a nullable time is an option. An operation answers
  with an error or with a value and the tables as its transaction left them: a transaction that
  does not commit leaves them as they were.
\<close>

section \<open>Rows\<close>

record Principal =
  p_Email :: string
  p_Role :: Authz.Role
  p_DisplayName :: string
  p_AddedBy :: string
  p_AddedAt :: time
  p_DisabledAt :: "time option"

record PrincipalChange =
  c_Actor :: string
  c_Target :: string
  c_FromRole :: Authz.Role
  c_ToRole :: Authz.Role
  c_FromDisabled :: bool
  c_ToDisabled :: bool
  c_Created :: bool
  c_At :: time

text \<open>A row of \<open>principal_changes\<close>: no column for \<open>Created\<close>, and \<open>from_role\<close> empty for NULL.\<close>

record change_row =
  cr_Actor :: string
  cr_Target :: string
  cr_FromRole :: Authz.Role
  cr_ToRole :: Authz.Role
  cr_FromDisabled :: bool
  cr_ToDisabled :: bool
  cr_At :: time

record Device =
  v_ID :: string
  v_Email :: string
  v_Hostname :: string
  v_OS :: string
  v_Arch :: string
  v_AgentVersion :: string
  v_EnrolledAt :: time
  v_RevokedAt :: "time option"

record token_row =
  tk_ID :: string
  tk_Device :: string
  tk_Hash :: string
  tk_Expires :: "time option"
  tk_Revoked :: "time option"
  tk_LastUsed :: "time option"

record Share =
  sh_ID :: string
  sh_SessionID :: string
  sh_CreatedBy :: string
  sh_Grantee :: string
  sh_Token :: string
  sh_CreatedAt :: time
  sh_ExpiresAt :: "time option"
  sh_RevokedAt :: "time option"

record Access =
  a_ID :: int
  a_Viewer :: string
  a_SessionID :: string
  a_Owner :: string
  a_Via :: string
  a_At :: time

text \<open>
  \<open>r_superseded\<close> holds the ids of the events whose \<open>superseded_by\<close> column (migration 0017) the
  derivation runner has set; \<open>r_next\<close> is the sequence behind the log's \<open>BIGSERIAL\<close> key.
\<close>

record registry =
  r_principals :: "Principal list"
  r_changes :: "change_row list"
  r_devices :: "Device list"
  r_tokens :: "token_row list"
  r_shares :: "Share list"
  r_log :: "Access list"
  r_next :: int
  r_work :: db
  r_superseded :: "string list"

section \<open>Answers\<close>

text \<open>The statements of the operations below, for naming the one that failed.\<close>

datatype access_stmt =
    QBegin | QAdmins | QPrincipal | QPutPrincipal | QChange | QClaim | QSupersede | QDevice | QToken
  | QUsed | QRevoke | QRevokeTokens | QShareSession | QShare | QResolve | QSession | QAudit | QEvents
  | QList | QCommit

datatype access_error =
    ErrNotFound | ErrNotAdmin | ErrLastAdmin | ErrRoleRequired | ErrInvalid | ErrInvalidCursor
  | ErrStatement access_stmt

type_synonym 'a answer = "access_error + 'a \<times> registry"

text \<open>
  What an operation meets: which statements the server fails, the transaction's \<open>now()\<close> and the
  process's clock, Postgres's reading of a text as a UUID, the ids and the share secret that
  \<open>newUUID\<close> and \<open>newToken\<close> draw (\<open>ae_token_id\<close> is the one drawn second), the collation's sort key
  of a text and its case-insensitive search.
\<close>

record access_env =
  ae_ok :: "access_stmt \<Rightarrow> bool"
  ae_now :: time
  ae_clock :: time
  ae_uuid :: "string \<Rightarrow> string option"
  ae_id :: string
  ae_token_id :: string
  ae_secret :: string
  ae_collate :: "string \<Rightarrow> string"
  ae_ilike :: "string \<Rightarrow> string \<Rightarrow> bool"

text \<open>Run a statement, then go on; a failure ends the operation with it.\<close>

definition attempt :: "access_env \<Rightarrow> access_stmt \<Rightarrow> 'a answer \<Rightarrow> 'a answer" where
  "attempt e q k = (if ae_ok e q then k else Inl (ErrStatement q))"

lemma attempt_Inr [simp]: "attempt e q k = Inr y \<longleftrightarrow> ae_ok e q \<and> k = Inr y"
  by (simp add: attempt_def)

definition IsAdmin :: "Viewer \<Rightarrow> bool" where
  "IsAdmin v \<longleftrightarrow> vRole v = RoleAdmin"

definition defaultLimit :: int where "defaultLimit = 50"
definition maxLimit :: int where "maxLimit = 500"

definition clampLimit :: "int \<Rightarrow> int" where
  "clampLimit n = (if n \<le> 0 then defaultLimit else if n > maxLimit then maxLimit else n)"

lemma clampLimit_bounds: "1 \<le> clampLimit n \<and> clampLimit n \<le> maxLimit"
  by (simp add: clampLimit_def defaultLimit_def maxLimit_def)

text \<open>An expiry that has not come: a nullable time against the transaction's clock.\<close>

definition unexpired :: "time \<Rightarrow> time option \<Rightarrow> bool" where
  "unexpired t x = (case x of None \<Rightarrow> True | Some y \<Rightarrow> t < y)"

end
