(* ===== verification/Roster.thy ===== *)
theory Roster
  imports Access
begin

text \<open>
  The access list (\<open>server/store/store.go\<close>, \<open>server/store/admin_queries.go\<close>,
  \<open>server/store/bootstrap_admins.go\<close>) and the handler that edits it through the JSON API
  (\<open>server/admin/handler.go\<close>): reading a principal, the edit from the page, the edit in an
  administrator's transaction, self-enrolment and the administrators of the first boot, each with
  the trail row it writes.
\<close>

section \<open>Reading\<close>

definition find_principal :: "string \<Rightarrow> Principal list \<Rightarrow> Principal option" where
  "find_principal email ps = find (\<lambda>p. p_Email p = email) ps"

text \<open>\<open>Store.Principal\<close> reports absence as an error, \<open>principalLookup\<close> as a value.\<close>

definition principalLookup :: "access_env \<Rightarrow> string \<Rightarrow> registry \<Rightarrow> access_error + Principal option" where
  "principalLookup e email r =
     (if ae_ok e QPrincipal then Inr (find_principal email (r_principals r)) else Inl (ErrStatement QPrincipal))"

definition Store_Principal :: "access_env \<Rightarrow> string \<Rightarrow> registry \<Rightarrow> access_error + Principal" where
  "Store_Principal e email r =
     (if ae_ok e QPrincipal
      then (case find_principal email (r_principals r) of None \<Rightarrow> Inl ErrNotFound | Some p \<Rightarrow> Inr p)
      else Inl (ErrStatement QPrincipal))"

definition ListPrincipals :: "access_env \<Rightarrow> Viewer \<Rightarrow> registry \<Rightarrow> access_error + Principal list" where
  "ListPrincipals e v r =
     (if \<not> IsAdmin v then Inl ErrNotAdmin
      else if \<not> ae_ok e QList then Inl (ErrStatement QList)
      else Inr (sort_by (\<lambda>p q. ae_collate e (p_Email p) < ae_collate e (p_Email q)) (r_principals r)))"

definition Disabled :: "Principal \<Rightarrow> bool" where
  "Disabled p \<longleftrightarrow> p_DisabledAt p \<noteq> None"

definition ActiveAdmin :: "Principal \<Rightarrow> bool" where
  "ActiveAdmin p \<longleftrightarrow> p_Role p = RoleAdmin \<and> \<not> Disabled p"

text \<open>The count of \<open>CountActiveAdminsExcept\<close>, whose row locks make such transactions queue.\<close>

definition CountActiveAdminsExcept :: "string \<Rightarrow> registry \<Rightarrow> nat" where
  "CountActiveAdminsExcept email r =
     length (filter (\<lambda>p. ActiveAdmin p \<and> p_Email p \<noteq> email) (r_principals r))"

section \<open>Writing\<close>

text \<open>\<open>INSERT ... ON CONFLICT (email) DO UPDATE SET\<close>, the update a function of the row.\<close>

definition write_principal :: "Principal \<Rightarrow> (Principal \<Rightarrow> Principal) \<Rightarrow> Principal list \<Rightarrow> Principal list" where
  "write_principal new upd ps =
     (if find_principal (p_Email new) ps = None then ps @ [new]
      else map (\<lambda>p. if p_Email p = p_Email new then upd p else p) ps)"

definition RecordPrincipalChange :: "access_env \<Rightarrow> PrincipalChange \<Rightarrow> registry \<Rightarrow> unit answer" where
  "RecordPrincipalChange e c r =
     (if c_Target c = [] then Inl ErrInvalid
      else attempt e QChange
        (Inr ((), r\<lparr>r_changes := r_changes r @
           [\<lparr>cr_Actor = c_Actor c, cr_Target = c_Target c,
             cr_FromRole = (if c_Created c then [] else c_FromRole c), cr_ToRole = c_ToRole c,
             cr_FromDisabled = c_FromDisabled c, cr_ToDisabled = c_ToDisabled c,
             cr_At = (case nullTime (c_At c) of None \<Rightarrow> ae_now e | Some t \<Rightarrow> t)\<rparr>]\<rparr>)))"

definition SavePrincipal :: "access_env \<Rightarrow> Principal \<Rightarrow> registry \<Rightarrow> unit answer" where
  "SavePrincipal e p r =
     (if p_Email p = [] then Inl ErrInvalid
      else if \<not> Valid (p_Role p) then Inl ErrInvalid
      else attempt e QPutPrincipal
        (Inr ((), r\<lparr>r_principals := write_principal
             (p\<lparr>p_AddedAt := (case nullTime (p_AddedAt p) of None \<Rightarrow> ae_now e | Some t \<Rightarrow> t)\<rparr>)
             (\<lambda>q. q\<lparr>p_Role := p_Role p, p_DisplayName := p_DisplayName p, p_DisabledAt := p_DisabledAt p\<rparr>)
             (r_principals r)\<rparr>)))"

section \<open>The edit from the page\<close>

record PrincipalUpdate =
  u_Email :: string
  u_Role :: "Authz.Role option"
  u_DisplayName :: "string option"
  u_Disabled :: "bool option"

text \<open>The row the update's fields give, before any write: role, name and whether it is off.\<close>

definition put_role :: "PrincipalUpdate \<Rightarrow> Principal option \<Rightarrow> Authz.Role" where
  "put_role u current = (case u_Role u of Some x \<Rightarrow> x | None \<Rightarrow>
     (case current of Some p \<Rightarrow> p_Role p | None \<Rightarrow> RoleMember))"

definition put_disabled :: "PrincipalUpdate \<Rightarrow> Principal option \<Rightarrow> bool" where
  "put_disabled u current = (case u_Disabled u of Some x \<Rightarrow> x | None \<Rightarrow>
     (case current of Some p \<Rightarrow> Disabled p | None \<Rightarrow> False))"

definition put_name :: "PrincipalUpdate \<Rightarrow> Principal option \<Rightarrow> string" where
  "put_name u current = (case u_DisplayName u of Some x \<Rightarrow> x | None \<Rightarrow>
     (case current of Some p \<Rightarrow> p_DisplayName p | None \<Rightarrow> []))"

definition put_disabled_at :: "access_env \<Rightarrow> bool \<Rightarrow> Principal option \<Rightarrow> time option" where
  "put_disabled_at e disabled current =
     (if \<not> disabled then None
      else case current of
             Some p \<Rightarrow> (if Disabled p then p_DisabledAt p else Some (ae_clock e))
           | None \<Rightarrow> Some (ae_clock e))"

definition put_change :: "access_env \<Rightarrow> Viewer \<Rightarrow> PrincipalUpdate \<Rightarrow> Principal option \<Rightarrow> PrincipalChange" where
  "put_change e actor u current =
     \<lparr>c_Actor = Email actor, c_Target = u_Email u,
      c_FromRole = (case current of Some p \<Rightarrow> p_Role p | None \<Rightarrow> []), c_ToRole = put_role u current,
      c_FromDisabled = (case current of Some p \<Rightarrow> Disabled p | None \<Rightarrow> False),
      c_ToDisabled = put_disabled u current, c_Created = (current = None), c_At = ae_clock e\<rparr>"

text \<open>
  The statement of \<open>PutPrincipal\<close>: an update keeps the name where the new one is NULL, that is,
  empty.
\<close>

definition put_row :: "access_env \<Rightarrow> Viewer \<Rightarrow> PrincipalUpdate \<Rightarrow> registry \<Rightarrow> registry" where
  "put_row e actor u r =
     (let current = find_principal (u_Email u) (r_principals r);
          role = put_role u current; name = put_name u current;
          stamp = put_disabled_at e (put_disabled u current) current
      in r\<lparr>r_principals := write_principal
             \<lparr>p_Email = u_Email u, p_Role = role, p_DisplayName = name, p_AddedBy = Email actor,
              p_AddedAt = ae_now e, p_DisabledAt = stamp\<rparr>
             (\<lambda>q. q\<lparr>p_Role := role, p_DisplayName := (if name = [] then p_DisplayName q else name),
                    p_DisabledAt := stamp\<rparr>)
             (r_principals r)\<rparr>)"

definition unchanged :: "PrincipalUpdate \<Rightarrow> Principal option \<Rightarrow> bool" where
  "unchanged u current \<longleftrightarrow>
     (case current of None \<Rightarrow> False
      | Some p \<Rightarrow> put_role u current = p_Role p \<and> put_name u current = p_DisplayName p \<and>
          put_disabled u current = Disabled p)"

definition PutPrincipal :: "access_env \<Rightarrow> Viewer \<Rightarrow> PrincipalUpdate \<Rightarrow> registry
    \<Rightarrow> (Principal \<times> PrincipalChange option) answer" where
  "PutPrincipal e actor u r =
     (if \<not> IsAdmin actor then Inl ErrNotAdmin
      else if u_Email u = [] then Inl ErrInvalid
      else attempt e QBegin (attempt e QAdmins (attempt e QPrincipal
        (let others = CountActiveAdminsExcept (u_Email u) r;
             current = find_principal (u_Email u) (r_principals r);
             wasActiveAdmin = (case current of Some p \<Rightarrow> ActiveAdmin p | None \<Rightarrow> False)
         in if \<not> Valid (put_role u current) then Inl ErrInvalid
            else if wasActiveAdmin \<and> (put_role u current \<noteq> RoleAdmin \<or> put_disabled u current) \<and> others = 0
            then Inl ErrLastAdmin
            else if unchanged u current then Inr ((the current, None), r)
            else attempt e QPutPrincipal
              (case RecordPrincipalChange e (put_change e actor u current) (put_row e actor u r) of
                 Inl bad \<Rightarrow> Inl bad
               | Inr (_, r') \<Rightarrow> attempt e QCommit
                   (Inr ((the (find_principal (u_Email u) (r_principals r')), Some (put_change e actor u current)), r')))))))"

section \<open>The edit through the JSON API\<close>

record updateRequest =
  ur_Role :: "Authz.Role option"
  ur_Disabled :: "bool option"
  ur_DisplayName :: "string option"

text \<open>The three fields of a patch; then the row they apply to, \<open>found\<close> and \<open>current\<close> one option.\<close>

definition patched :: "updateRequest \<Rightarrow> time \<Rightarrow> Principal \<Rightarrow> Principal" where
  "patched req t next0 =
     (let next1 = (case ur_Role req of None \<Rightarrow> next0 | Some x \<Rightarrow> next0\<lparr>p_Role := x\<rparr>);
          next2 = (case ur_DisplayName req of None \<Rightarrow> next1 | Some x \<Rightarrow> next1\<lparr>p_DisplayName := TrimSpace x\<rparr>)
      in case ur_Disabled req of
           None \<Rightarrow> next2
         | Some True \<Rightarrow> (if Disabled next2 then next2 else next2\<lparr>p_DisabledAt := Some t\<rparr>)
         | Some False \<Rightarrow> next2\<lparr>p_DisabledAt := None\<rparr>)"

definition applyUpdate :: "string \<Rightarrow> Principal option \<Rightarrow> updateRequest \<Rightarrow> string \<Rightarrow> time \<Rightarrow> access_error + Principal" where
  "applyUpdate target current req actor t =
     (case current of
        Some p \<Rightarrow> Inr (patched req t p)
      | None \<Rightarrow> (if ur_Role req = None then Inl ErrRoleRequired
          else Inr (patched req t \<lparr>p_Email = target, p_Role = [], p_DisplayName = [], p_AddedBy = actor,
                      p_AddedAt = t, p_DisabledAt = None\<rparr>)))"

definition samePrincipal :: "Principal \<Rightarrow> Principal \<Rightarrow> bool" where
  "samePrincipal a b \<longleftrightarrow>
     p_Role a = p_Role b \<and> p_DisplayName a = p_DisplayName b \<and> Disabled a = Disabled b"

definition authorizeAdmin :: "access_env \<Rightarrow> string \<Rightarrow> registry \<Rightarrow> access_error + Principal" where
  "authorizeAdmin e email r =
     (case principalLookup e email r of
        Inl bad \<Rightarrow> Inl bad
      | Inr None \<Rightarrow> Inl ErrNotAdmin
      | Inr (Some actor) \<Rightarrow> (if ActiveAdmin actor then Inr actor else Inl ErrNotAdmin))"

definition update_change :: "string \<Rightarrow> string \<Rightarrow> Principal option \<Rightarrow> Principal \<Rightarrow> time \<Rightarrow> PrincipalChange" where
  "update_change actor target current new t =
     \<lparr>c_Actor = actor, c_Target = target,
      c_FromRole = (case current of Some p \<Rightarrow> p_Role p | None \<Rightarrow> []), c_ToRole = p_Role new,
      c_FromDisabled = (case current of Some p \<Rightarrow> Disabled p | None \<Rightarrow> False),
      c_ToDisabled = Disabled new, c_Created = (current = None), c_At = t\<rparr>"

text \<open>The function \<open>handleUpdatePrincipal\<close> hands to \<open>InTx\<close>, and the transaction around it.\<close>

definition update_body :: "access_env \<Rightarrow> string \<Rightarrow> string \<Rightarrow> updateRequest \<Rightarrow> registry
    \<Rightarrow> (Principal \<times> PrincipalChange option) answer" where
  "update_body e caller target req r =
     (case authorizeAdmin e caller r of
        Inl bad \<Rightarrow> Inl bad
      | Inr actor \<Rightarrow> (case principalLookup e target r of
          Inl bad \<Rightarrow> Inl bad
        | Inr current \<Rightarrow> (case applyUpdate target current req (p_Email actor) (ae_clock e) of
            Inl bad \<Rightarrow> Inl bad
          | Inr new \<Rightarrow>
              (let removes = (case current of Some p \<Rightarrow> ActiveAdmin p \<and> \<not> ActiveAdmin new | None \<Rightarrow> False);
                   same = (case current of Some p \<Rightarrow> samePrincipal p new | None \<Rightarrow> False);
                   change = update_change (p_Email actor) target current new (ae_clock e)
               in if removes \<and> \<not> ae_ok e QAdmins then Inl (ErrStatement QAdmins)
                  else if removes \<and> CountActiveAdminsExcept target r = 0 then Inl ErrLastAdmin
                  else if same then Inr ((the current, None), r)
                  else (case SavePrincipal e new r of
                      Inl bad \<Rightarrow> Inl bad
                    | Inr (_, r1) \<Rightarrow> (case RecordPrincipalChange e change r1 of
                        Inl bad \<Rightarrow> Inl bad
                      | Inr (_, r2) \<Rightarrow> Inr ((new, Some change), r2)))))))"

definition InTx :: "access_env \<Rightarrow> (registry \<Rightarrow> 'a answer) \<Rightarrow> registry \<Rightarrow> 'a answer" where
  "InTx e f r =
     attempt e QBegin
       (case f r of Inl bad \<Rightarrow> Inl bad | Inr (x, r') \<Rightarrow> attempt e QCommit (Inr (x, r')))"

datatype identity = NoIdentity | AuthenticateFailed | Identified string

record admin_reply =
  ar_Status :: int
  ar_Code :: string
  ar_Saved :: "(Principal \<times> PrincipalChange option) option"

definition refusal :: "int \<Rightarrow> string \<Rightarrow> admin_reply" where
  "refusal status code = \<lparr>ar_Status = status, ar_Code = code, ar_Saved = None\<rparr>"

definition writeAuthzFailure :: "access_error \<Rightarrow> admin_reply" where
  "writeAuthzFailure bad =
     (if bad = ErrNotAdmin then refusal 404 ''not_found'' else refusal 500 ''internal'')"

text \<open>
  The handler: \<open>who\<close> is what the authenticator made of the request, \<open>path\<close> its \<open>email\<close> value and
  \<open>body\<close> the decoded patch. The first check reads the tables as they were (\<open>r0\<close>, under \<open>e0\<close>); the
  transaction finds them as \<open>r\<close>.
\<close>

definition handleUpdatePrincipal :: "access_env \<Rightarrow> access_env \<Rightarrow> identity \<Rightarrow> string \<Rightarrow> updateRequest option
    \<Rightarrow> registry \<Rightarrow> registry \<Rightarrow> admin_reply \<times> registry" where
  "handleUpdatePrincipal e0 e who path body r0 r =
     (case who of
        NoIdentity \<Rightarrow> (refusal 401 ''unauthenticated'', r)
      | AuthenticateFailed \<Rightarrow> (refusal 500 ''internal'', r)
      | Identified raw \<Rightarrow>
          (let caller = Normalize raw; target = Normalize path in
           if caller = [] then (refusal 401 ''unauthenticated'', r)
           else case authorizeAdmin e0 caller r0 of
             Inl bad \<Rightarrow> (writeAuthzFailure bad, r)
           | Inr _ \<Rightarrow>
               if target = [] then (refusal 400 ''invalid_request'', r)
               else case body of
                 None \<Rightarrow> (refusal 400 ''invalid_request'', r)
               | Some req \<Rightarrow>
                   if ur_Role req = None \<and> ur_Disabled req = None \<and> ur_DisplayName req = None
                   then (refusal 400 ''invalid_request'', r)
                   else if (case ur_Role req of Some x \<Rightarrow> \<not> Valid x | None \<Rightarrow> False)
                   then (refusal 400 ''invalid_request'', r)
                   else case InTx e (update_body e caller target req) r of
                     Inr (saved, r') \<Rightarrow> (\<lparr>ar_Status = 200, ar_Code = [], ar_Saved = Some saved\<rparr>, r')
                   | Inl bad \<Rightarrow>
                       (if bad = ErrNotAdmin then writeAuthzFailure bad
                        else if bad = ErrLastAdmin then refusal 409 ''last_admin''
                        else if bad = ErrRoleRequired then refusal 400 ''invalid_request''
                        else refusal 500 ''internal'', r)))"

section \<open>Joining without an administrator\<close>

text \<open>\<open>INSERT ... ON CONFLICT (email) DO NOTHING\<close> with the trail row of a creation.\<close>

definition insert_principal :: "access_env \<Rightarrow> string \<Rightarrow> Authz.Role \<Rightarrow> string \<Rightarrow> registry \<Rightarrow> bool \<times> registry" where
  "insert_principal e email role by r =
     (if find_principal email (r_principals r) = None
      then (True, r\<lparr>r_principals := r_principals r @
        [\<lparr>p_Email = email, p_Role = role, p_DisplayName = [], p_AddedBy = by, p_AddedAt = ae_now e,
          p_DisabledAt = None\<rparr>]\<rparr>)
      else (False, r))"

definition own_change :: "access_env \<Rightarrow> string \<Rightarrow> Authz.Role \<Rightarrow> registry \<Rightarrow> registry" where
  "own_change e email role r =
     r\<lparr>r_changes := r_changes r @ [\<lparr>cr_Actor = email, cr_Target = email, cr_FromRole = [], cr_ToRole = role,
        cr_FromDisabled = False, cr_ToDisabled = False, cr_At = ae_now e\<rparr>]\<rparr>"

definition EnrolSelf :: "access_env \<Rightarrow> string \<Rightarrow> registry \<Rightarrow> (Principal \<times> bool) answer" where
  "EnrolSelf e raw r =
     (let email = TrimSpace (ToLower raw) in
      if email = [] then Inl ErrInvalid
      else attempt e QBegin (attempt e QPutPrincipal
        (case insert_principal e email RoleMember ''self'' r of (created, r1) \<Rightarrow>
           if created \<and> \<not> ae_ok e QChange then Inl (ErrStatement QChange)
           else let r2 = (if created then own_change e email RoleMember r1 else r1)
                in case principalLookup e email r2 of
                     Inl bad \<Rightarrow> Inl bad
                   | Inr None \<Rightarrow> Inl (ErrStatement QPrincipal)
                   | Inr (Some p) \<Rightarrow> attempt e QCommit (Inr ((p, created), r2)))))"

record BootstrapOutcome =
  bo_Email :: string
  bo_Created :: bool
  bo_Role :: Authz.Role
  bo_Disabled :: bool

definition bootstrapAdmin :: "access_env \<Rightarrow> string \<Rightarrow> registry \<Rightarrow> BootstrapOutcome answer" where
  "bootstrapAdmin e email r =
     attempt e QBegin (attempt e QPutPrincipal
       (case insert_principal e email RoleAdmin ''bootstrap'' r of (created, r1) \<Rightarrow>
          if created
          then attempt e QChange (attempt e QCommit
            (Inr (\<lparr>bo_Email = email, bo_Created = True, bo_Role = [], bo_Disabled = False\<rparr>,
                  own_change e email RoleAdmin r1)))
          else case principalLookup e email r1 of
                 Inl bad \<Rightarrow> Inl bad
               | Inr None \<Rightarrow> Inl (ErrStatement QPrincipal)
               | Inr (Some p) \<Rightarrow> attempt e QCommit
                   (Inr (\<lparr>bo_Email = email, bo_Created = False, bo_Role = p_Role p, bo_Disabled = Disabled p\<rparr>, r1))))"

text \<open>
  The loop of \<open>BootstrapAdmins\<close>: it stops at the first address it cannot use or write, with what it
  did before. Each address has a transaction, hence an environment, of its own.
\<close>

definition admin_address :: "string \<Rightarrow> bool" where
  "admin_address email \<longleftrightarrow>
     (case LastIndex email ''@'' of None \<Rightarrow> False | Some i \<Rightarrow> 0 < i \<and> Suc i \<noteq> length email)"

fun BootstrapAdmins :: "(access_env \<times> string) list \<Rightarrow> registry
    \<Rightarrow> BootstrapOutcome list \<times> access_error option \<times> registry" where
  "BootstrapAdmins [] r = ([], None, r)"
| "BootstrapAdmins ((e, raw) # rest) r =
     (let email = ToLower (TrimSpace raw) in
      if email = [] then BootstrapAdmins rest r
      else if \<not> admin_address email then ([], Some ErrInvalid, r)
      else case bootstrapAdmin e email r of
             Inl bad \<Rightarrow> ([], Some bad, r)
           | Inr (o1, r1) \<Rightarrow> (case BootstrapAdmins rest r1 of (os, bad, r2) \<Rightarrow> (o1 # os, bad, r2)))"

end
