(* ===== verification/RosterProps.thy ===== *)
theory RosterProps
  imports Roster
begin

text \<open>
  The roster behind its two editors: what each successful operation does to who may do what, the
  trail row it leaves, and the lockout guard.
\<close>

section \<open>Standing\<close>

text \<open>What the roster decides of an address: nothing, or a role and whether it is switched off.\<close>

type_synonym standing = "string \<Rightarrow> (Authz.Role \<times> bool) option"

definition standing :: "registry \<Rightarrow> standing" where
  "standing r email = map_option (\<lambda>p. (p_Role p, Disabled p)) (find_principal email (r_principals r))"

definition apply_change :: "change_row \<Rightarrow> standing \<Rightarrow> standing" where
  "apply_change c m = m(cr_Target c \<mapsto> (cr_ToRole c, cr_ToDisabled c))"

text \<open>A trail row that says truly what it changed; a creation has no role to come from.\<close>

definition honest :: "change_row \<Rightarrow> standing \<Rightarrow> bool" where
  "honest c m \<longleftrightarrow> (cr_FromRole c, cr_FromDisabled c) = (case m (cr_Target c) of None \<Rightarrow> ([], False) | Some x \<Rightarrow> x)"

fun explains :: "change_row list \<Rightarrow> standing \<Rightarrow> standing \<Rightarrow> bool" where
  "explains [] m m' = (m = m')"
| "explains (c # cs) m m' = (honest c m \<and> explains cs (apply_change c m) m')"

lemma explains_append: "explains (cs @ ds) m m'' \<longleftrightarrow> (\<exists>m'. explains cs m m' \<and> explains ds m' m'')"
  by (induction cs arbitrary: m) auto

definition active_admin :: "registry \<Rightarrow> bool" where
  "active_admin r \<longleftrightarrow> (\<exists>p\<in>set (r_principals r). ActiveAdmin p)"

definition one_row_each :: "registry \<Rightarrow> bool" where
  "one_row_each r \<longleftrightarrow> distinct (map p_Email (r_principals r))"

text \<open>What an editor may do to the tables: nothing, or one change with its row.\<close>

definition one_change :: "registry \<Rightarrow> registry \<Rightarrow> bool" where
  "one_change r r' \<longleftrightarrow> (\<exists>c. r_changes r' = r_changes r @ [c] \<and> honest c (standing r) \<and>
     standing r' = apply_change c (standing r))"

definition roster_edit :: "registry \<Rightarrow> registry \<Rightarrow> bool" where
  "roster_edit r r' \<longleftrightarrow> r' = r \<or>
     (one_change r r' \<and> r_devices r' = r_devices r \<and> r_tokens r' = r_tokens r \<and>
      r_shares r' = r_shares r \<and> r_log r' = r_log r \<and> r_next r' = r_next r \<and> r_work r' = r_work r \<and>
      (one_row_each r \<longrightarrow> one_row_each r' \<and> (active_admin r \<longrightarrow> active_admin r')))"

section \<open>The statements\<close>

lemma find_write:
  assumes "\<And>p. p_Email (upd p) = p_Email p"
  shows "find_principal email (write_principal new upd ps) =
    (if email = p_Email new then Some (case find_principal email ps of None \<Rightarrow> new | Some p \<Rightarrow> upd p)
     else find_principal email ps)"
proof -
  have "find_principal email (map (\<lambda>p. if p_Email p = p_Email new then upd p else p) xs) =
      map_option (\<lambda>p. if p_Email p = p_Email new then upd p else p) (find_principal email xs)" for xs
    using assms by (induction xs) (auto simp: find_principal_def)
  moreover have "find_principal email (xs @ [new]) =
      (case find_principal email xs of None \<Rightarrow> (if p_Email new = email then Some new else None) | Some p \<Rightarrow> Some p)" for xs
    by (induction xs) (auto simp: find_principal_def)
  moreover have "find_principal email xs = Some p \<Longrightarrow> p_Email p = email" for xs p
    by (auto simp: find_principal_def find_Some_iff)
  ultimately show ?thesis
    by (auto simp: write_principal_def split: option.splits)
qed

lemma find_principal_None: "find_principal email ps = None \<longleftrightarrow> email \<notin> p_Email ` set ps"
  by (auto simp: find_principal_def find_None_iff)

lemma find_principal_Some: "find_principal email ps = Some p \<Longrightarrow> p \<in> set ps \<and> p_Email p = email"
  by (auto simp: find_principal_def find_Some_iff)

lemma find_principal_unique:
  "distinct (map p_Email ps) \<Longrightarrow> p \<in> set ps \<Longrightarrow> find_principal (p_Email p) ps = Some p"
  by (induction ps) (auto simp: find_principal_def)

lemma write_distinct:
  assumes "\<And>p. p_Email (upd p) = p_Email p" "distinct (map p_Email ps)"
  shows "distinct (map p_Email (write_principal new upd ps))"
proof -
  have "map p_Email (map (\<lambda>p. if p_Email p = p_Email new then upd p else p) ps) = map p_Email ps"
    using assms(1) by auto
  then show ?thesis using assms(2) by (auto simp: write_principal_def find_principal_None simp del: map_map)
qed

text \<open>An active administrator among the others stays one whatever is written.\<close>

lemma write_keeps_other:
  "p \<in> set ps \<Longrightarrow> p_Email p \<noteq> p_Email new \<Longrightarrow> p \<in> set (write_principal new upd ps)"
  by (auto simp: write_principal_def image_iff)

lemma count_others: "0 < CountActiveAdminsExcept email r \<longleftrightarrow>
    (\<exists>p\<in>set (r_principals r). ActiveAdmin p \<and> p_Email p \<noteq> email)"
  by (auto simp: CountActiveAdminsExcept_def filter_empty_conv)

text \<open>
  The guard, once for both editors: a write that leaves the target an active administrator, or
  that another survives, leaves one.
\<close>

lemma write_active_admin:
  assumes "one_row_each r" "active_admin r" and upd: "\<And>p. p_Email (upd p) = p_Email p"
    and guard: "\<And>p. find_principal (p_Email new) (r_principals r) = Some p \<Longrightarrow> ActiveAdmin p \<Longrightarrow>
      ActiveAdmin (upd p) \<or> 0 < CountActiveAdminsExcept (p_Email new) r"
  shows "\<exists>p\<in>set (write_principal new upd (r_principals r)). ActiveAdmin p"
proof -
  obtain p where p: "p \<in> set (r_principals r)" "ActiveAdmin p" using assms(2) by (auto simp: active_admin_def)
  show ?thesis
  proof (cases "p_Email p = p_Email new")
    case False
    then show ?thesis using p write_keeps_other by metis
  next
    case True
    then have found: "find_principal (p_Email new) (r_principals r) = Some p"
      using assms(1) p(1) find_principal_unique by (metis one_row_each_def)
    show ?thesis
    proof (cases "ActiveAdmin (upd p)")
      case True
      have "find_principal (p_Email new) (write_principal new upd (r_principals r)) = Some (upd p)"
        using found find_write[OF upd, of "p_Email new" new] by simp
      then show ?thesis using True find_principal_Some by metis
    next
      case False
      then obtain q where "q \<in> set (r_principals r)" "ActiveAdmin q" "p_Email q \<noteq> p_Email new"
        using guard[OF found p(2)] count_others by blast
      then show ?thesis using write_keeps_other by metis
    qed
  qed
qed

lemma RecordPrincipalChange_Inr:
  "RecordPrincipalChange e x r = Inr (u, r') \<Longrightarrow>
     \<exists>c. r' = r\<lparr>r_changes := r_changes r @ [c]\<rparr> \<and> cr_Target c = c_Target x \<and>
       cr_FromRole c = (if c_Created x then [] else c_FromRole x) \<and> cr_ToRole c = c_ToRole x \<and>
       cr_FromDisabled c = c_FromDisabled x \<and> cr_ToDisabled c = c_ToDisabled x"
  by (auto simp: RecordPrincipalChange_def split: if_splits)

text \<open>One write with its row is an edit.\<close>

lemma roster_edit_write:
  assumes r': "r' = r\<lparr>r_principals := write_principal new upd (r_principals r), r_changes := r_changes r @ [c]\<rparr>"
    and upd: "\<And>p. p_Email (upd p) = p_Email p" and target: "cr_Target c = p_Email new"
    and from_: "(cr_FromRole c, cr_FromDisabled c) =
      (case find_principal (p_Email new) (r_principals r) of None \<Rightarrow> ([], False) | Some p \<Rightarrow> (p_Role p, Disabled p))"
    and to: "(cr_ToRole c, cr_ToDisabled c) =
      (case find_principal (p_Email new) (r_principals r) of None \<Rightarrow> (p_Role new, Disabled new)
       | Some p \<Rightarrow> (p_Role (upd p), Disabled (upd p)))"
    and guard: "\<And>p. find_principal (p_Email new) (r_principals r) = Some p \<Longrightarrow> ActiveAdmin p \<Longrightarrow>
      ActiveAdmin (upd p) \<or> 0 < CountActiveAdminsExcept (p_Email new) r"
  shows "roster_edit r r'"
proof -
  let ?f = "find_principal (p_Email new) (r_principals r)"
  have "honest c (standing r)"
    using from_ by (cases ?f) (simp_all add: honest_def standing_def target)
  moreover have "standing r' = apply_change c (standing r)"
    using to find_write[OF upd, of _ new "r_principals r"]
    by (intro ext, cases ?f) (auto simp: r' standing_def apply_change_def target)
  ultimately have "one_change r r'" by (auto simp: one_change_def r')
  then show ?thesis
    using write_distinct[OF upd, where ps = "r_principals r" and new = new] write_active_admin[OF _ _ upd guard]
    by (auto simp: roster_edit_def r' one_row_each_def active_admin_def)
qed

section \<open>The editors\<close>

lemma ActiveAdmin_simp: "ActiveAdmin p \<longleftrightarrow> p_Role p = RoleAdmin \<and> p_DisabledAt p = None"
  by (simp add: ActiveAdmin_def Disabled_def)

lemma stamp_disabled: "(put_disabled_at e d current = None) = (\<not> d)"
  by (auto simp: put_disabled_at_def Disabled_def split: option.splits)

lemma PutPrincipal_edit:
  assumes "PutPrincipal e actor u r = Inr (x, r')"
  shows "IsAdmin actor \<and> roster_edit r r'"
proof -
  define current where "current = find_principal (u_Email u) (r_principals r)"
  note put = assms[unfolded PutPrincipal_def Let_def current_def[symmetric]]
  show ?thesis
  proof (cases "unchanged u current")
    case True
    then have "r' = r" using put by (auto split: if_splits)
    then show ?thesis using put by (auto simp: roster_edit_def split: if_splits)
  next
    case False
    then obtain y r1 where rec: "RecordPrincipalChange e (put_change e actor u current) (put_row e actor u r) = Inr (y, r1)"
      and r1: "r' = r1" and adm: "IsAdmin actor"
      and ok: "\<not> ((case current of Some p \<Rightarrow> ActiveAdmin p | None \<Rightarrow> False) \<and>
        (put_role u current \<noteq> RoleAdmin \<or> put_disabled u current) \<and> CountActiveAdminsExcept (u_Email u) r = 0)"
      using put by (auto split: if_splits sum.splits)
    define role name stamp where "role = put_role u current" and "name = put_name u current"
      and "stamp = put_disabled_at e (put_disabled u current) current"
    define new :: Principal where "new = \<lparr>p_Email = u_Email u, p_Role = role, p_DisplayName = name, p_AddedBy = Email actor,
      p_AddedAt = ae_now e, p_DisabledAt = stamp\<rparr>"
    define upd :: "Principal \<Rightarrow> Principal" where "upd = (\<lambda>q. q\<lparr>p_Role := role, p_DisplayName := (if name = [] then p_DisplayName q else name),
      p_DisabledAt := stamp\<rparr>)"
    obtain c where r': "r' = r\<lparr>r_principals := write_principal new upd (r_principals r), r_changes := r_changes r @ [c]\<rparr>"
      and c: "cr_Target c = u_Email u" "cr_ToRole c = role" "cr_ToDisabled c = put_disabled u current"
        "(cr_FromRole c, cr_FromDisabled c) = (case current of None \<Rightarrow> ([], False) | Some p \<Rightarrow> (p_Role p, Disabled p))"
    proof -
      have row: "put_row e actor u r = r\<lparr>r_principals := write_principal new upd (r_principals r)\<rparr>"
        unfolding put_row_def Let_def current_def[symmetric] new_def upd_def role_def name_def stamp_def by (rule refl)
      show thesis
        using RecordPrincipalChange_Inr[OF rec] that r1
        by (cases current) (auto simp: row put_change_def role_def)
    qed
    have off: "Disabled new = put_disabled u current" "\<And>p. Disabled (upd p) = put_disabled u current"
      "\<And>p. p_Role (upd p) = role" "p_Role new = role" "p_Email new = u_Email u"
      by (simp_all add: new_def upd_def Disabled_def stamp_def stamp_disabled)
    have "roster_edit r r'"
    proof (rule roster_edit_write[OF r'])
      show "p_Email (upd p) = p_Email p" for p by (simp add: upd_def)
      show "ActiveAdmin (upd p) \<or> 0 < CountActiveAdminsExcept (p_Email new) r"
        if "find_principal (p_Email new) (r_principals r) = Some p" "ActiveAdmin p" for p
        using ok that by (auto simp: off ActiveAdmin_def current_def[symmetric] role_def)
    qed (use c in \<open>simp_all add: off current_def[symmetric] split: option.splits\<close>)
    then show ?thesis using adm by simp
  qed
qed

text \<open>The fold of a patch keeps the address, and what it makes of the switch.\<close>

lemma patched_email [simp]: "p_Email (patched req t p) = p_Email p"
proof -
  have "p_Email (case ur_Role req of None \<Rightarrow> p | Some x \<Rightarrow> p\<lparr>p_Role := x\<rparr>) = p_Email p"
    by (cases "ur_Role req") simp_all
  then show ?thesis
    unfolding patched_def Let_def
    by (cases "ur_DisplayName req"; cases "ur_Disabled req") (simp_all split: bool.split)
qed

lemma applyUpdate_Inr:
  assumes "applyUpdate target current req actor t = Inr new" "\<forall>p. current = Some p \<longrightarrow> p_Email p = target"
  shows "p_Email new = target"
  using assms by (auto simp: applyUpdate_def split: option.splits if_splits)

lemma authorizeAdmin_Inr:
  "authorizeAdmin e caller r = Inr actor \<Longrightarrow>
     find_principal caller (r_principals r) = Some actor \<and> ActiveAdmin actor"
  by (auto simp: authorizeAdmin_def principalLookup_def split: sum.splits option.splits if_splits)

lemma update_body_edit:
  assumes "update_body e caller target req r = Inr (x, r')"
  shows "(\<exists>actor. find_principal caller (r_principals r) = Some actor \<and> ActiveAdmin actor) \<and> roster_edit r r'"
proof -
  obtain actor where actor: "authorizeAdmin e caller r = Inr actor"
    using assms by (auto simp: update_body_def split: sum.splits)
  note adm = authorizeAdmin_Inr[OF actor]
  define current where "current = find_principal target (r_principals r)"
  have look: "principalLookup e target r = Inr current"
    using assms actor by (auto simp: update_body_def current_def principalLookup_def split: sum.splits if_splits)
  obtain new where new: "applyUpdate target current req (p_Email actor) (ae_clock e) = Inr new"
    using assms actor look by (auto simp: update_body_def split: sum.splits)
  have email: "p_Email new = target"
    using applyUpdate_Inr[OF new] find_principal_Some by (auto simp: current_def)
  note body = assms[unfolded update_body_def actor look sum.case new Let_def]
  show ?thesis
  proof (cases "case current of Some p \<Rightarrow> samePrincipal p new | None \<Rightarrow> False")
    case True
    then have "r' = r" using body by (auto split: if_splits)
    then show ?thesis using adm by (simp add: roster_edit_def)
  next
    case False
    then obtain y z r1 where save: "SavePrincipal e new r = Inr (y, r1)"
      and rec: "RecordPrincipalChange e (update_change (p_Email actor) target current new (ae_clock e)) r1 = Inr (z, r')"
      and ok: "\<not> ((case current of Some p \<Rightarrow> ActiveAdmin p \<and> \<not> ActiveAdmin new | None \<Rightarrow> False) \<and>
        CountActiveAdminsExcept target r = 0)"
      using body by (auto split: if_splits sum.splits)
    define upd :: "Principal \<Rightarrow> Principal" where
      "upd = (\<lambda>q. q\<lparr>p_Role := p_Role new, p_DisplayName := p_DisplayName new, p_DisabledAt := p_DisabledAt new\<rparr>)"
    obtain new' where r1: "r1 = r\<lparr>r_principals := write_principal new' upd (r_principals r)\<rparr>"
      and new': "p_Email new' = target" "p_Role new' = p_Role new" "Disabled new' = Disabled new"
      using save email by (auto simp: SavePrincipal_def upd_def Disabled_def split: if_splits)
    obtain c where r': "r' = r\<lparr>r_principals := write_principal new' upd (r_principals r), r_changes := r_changes r @ [c]\<rparr>"
      and c: "cr_Target c = target" "cr_ToRole c = p_Role new" "cr_ToDisabled c = Disabled new"
        "(cr_FromRole c, cr_FromDisabled c) = (case current of None \<Rightarrow> ([], False) | Some p \<Rightarrow> (p_Role p, Disabled p))"
      using RecordPrincipalChange_Inr[OF rec] by (cases current) (auto simp: r1 update_change_def)
    have off: "Disabled (upd p) = Disabled new" "p_Role (upd p) = p_Role new" for p
      by (simp_all add: upd_def Disabled_def)
    have "roster_edit r r'"
    proof (rule roster_edit_write[OF r'])
      show "p_Email (upd p) = p_Email p" for p by (simp add: upd_def)
      show "ActiveAdmin (upd p) \<or> 0 < CountActiveAdminsExcept (p_Email new') r"
        if "find_principal (p_Email new') (r_principals r) = Some p" "ActiveAdmin p" for p
        using ok that by (auto simp: off ActiveAdmin_def new' current_def[symmetric])
    qed (use c in \<open>simp_all add: off new' current_def[symmetric] split: option.splits\<close>)
    then show ?thesis using adm by simp
  qed
qed

lemma unchanged_edit [simp]: "roster_edit r r"
  by (simp add: roster_edit_def)

lemma InTx_Inr: "InTx e f r = Inr (x, r') \<Longrightarrow> f r = Inr (x, r')"
  by (auto simp: InTx_def split: sum.splits)

text \<open>
  The handler answers 200 exactly when its transaction commits, and leaves the tables alone
  otherwise.
\<close>

lemma handleUpdatePrincipal_edit:
  assumes "handleUpdatePrincipal e0 e who path body r0 r = (reply, r')"
  shows "roster_edit r r' \<and> (ar_Status reply \<noteq> 200 \<longrightarrow> r' = r) \<and>
    (ar_Status reply = 200 \<longrightarrow> (\<exists>raw p. who = Identified raw \<and>
       find_principal (Normalize raw) (r_principals r) = Some p \<and> ActiveAdmin p))"
  using assms
  by (auto simp: handleUpdatePrincipal_def Let_def refusal_def writeAuthzFailure_def unchanged_edit
      dest!: InTx_Inr update_body_edit split: identity.splits if_splits sum.splits option.splits)

text \<open>An insertion that finds no row, with the trail row of a creation.\<close>

lemma insert_edit:
  assumes "insert_principal e email role by r = (created, r1)"
  shows "if created then find_principal email (r_principals r) = None \<and> roster_edit r (own_change e email role r1) else r1 = r"
proof (cases created)
  case True
  define new where "new = \<lparr>p_Email = email, p_Role = role, p_DisplayName = [], p_AddedBy = by, p_AddedAt = ae_now e,
    p_DisabledAt = None\<rparr>"
  have none: "find_principal email (r_principals r) = None" and
    r1: "r1 = r\<lparr>r_principals := write_principal new (\<lambda>p. p) (r_principals r)\<rparr>"
    using assms True by (auto simp: insert_principal_def new_def write_principal_def split: if_splits)
  obtain c where c: "own_change e email role r1 =
      r\<lparr>r_principals := write_principal new (\<lambda>p. p) (r_principals r), r_changes := r_changes r @ [c]\<rparr>"
    "cr_Target c = email" "cr_FromRole c = []" "\<not> cr_FromDisabled c" "cr_ToRole c = role" "\<not> cr_ToDisabled c"
    by (simp add: own_change_def r1)
  have "roster_edit r (own_change e email role r1)"
    by (rule roster_edit_write[OF c(1)]) (use c none in \<open>simp_all add: new_def Disabled_def\<close>)
  then show ?thesis using none True by simp
qed (use assms in \<open>auto simp: insert_principal_def split: if_splits\<close>)

lemma EnrolSelf_edit:
  assumes "EnrolSelf e raw r = Inr (x, r')"
  shows "roster_edit r r'"
proof -
  obtain created r1 where ins: "insert_principal e (TrimSpace (ToLower raw)) RoleMember ''self'' r = (created, r1)"
    by fastforce
  show ?thesis using insert_edit[OF ins] assms
    by (cases created) (auto simp: EnrolSelf_def Let_def ins split: if_splits sum.splits option.splits)
qed

lemma bootstrapAdmin_edit:
  assumes "bootstrapAdmin e email r = Inr (x, r')"
  shows "roster_edit r r'"
proof -
  obtain created r1 where ins: "insert_principal e email RoleAdmin ''bootstrap'' r = (created, r1)"
    by fastforce
  show ?thesis using insert_edit[OF ins] assms
    by (cases created) (auto simp: bootstrapAdmin_def ins split: sum.splits option.splits)
qed

end
