(* ===== verification/SpoolGuard.thy ===== *)
theory SpoolGuard
  imports GoLib Complex_Main
begin

text \<open>
  The disk guard of the spool (\<open>internal/spool/spool.go\<close>, type \<open>Guard\<close>): refuse a write
  when free space is below a share of the filesystem, floored and capped in bytes. Ratios are
  exact rationals, so the product with the filesystem's size is the float64 product without
  its rounding; sizes are naturals.
\<close>

record Guard =
  minFreeBytes :: nat
  minFreeRatio :: rat
  maxRatioBytes :: nat

definition MinFreeBytes :: nat where "MinFreeBytes = 512 * 2 ^ 20"
definition MinFreeRatio :: rat where "MinFreeRatio = 1 / 100"
definition MaxRatioBytes :: nat where "MaxRatioBytes = 4 * 2 ^ 30"
definition LegacyMinFreeRatio :: rat where "LegacyMinFreeRatio = 5 / 100"

definition guard_withDefaults :: "Guard \<Rightarrow> Guard" where
  "guard_withDefaults g = \<lparr>
     minFreeBytes = (if minFreeBytes g = 0 then MinFreeBytes else minFreeBytes g),
     minFreeRatio = (if minFreeRatio g \<le> 0 \<or> minFreeRatio g = LegacyMinFreeRatio
                     then MinFreeRatio else minFreeRatio g),
     maxRatioBytes = (if maxRatioBytes g = 0 then MaxRatioBytes else maxRatioBytes g)\<rparr>"

definition DefaultGuard :: Guard where
  "DefaultGuard = guard_withDefaults \<lparr>minFreeBytes = 0, minFreeRatio = 0, maxRatioBytes = 0\<rparr>"

definition Threshold :: "Guard \<Rightarrow> nat \<Rightarrow> nat" where
  "Threshold g0 tot =
     (let g = guard_withDefaults g0;
          t = nat \<lfloor>minFreeRatio g * of_nat tot\<rfloor>;
          t1 = (if t > maxRatioBytes g then maxRatioBytes g else t)
      in if t1 < minFreeBytes g then minFreeBytes g else t1)"

definition Allowed :: "Guard \<Rightarrow> nat \<Rightarrow> nat \<Rightarrow> bool \<times> nat" where
  "Allowed g free tot = (let threshold = Threshold g tot in (threshold \<le> free, threshold))"

definition WriteAllowed :: "nat \<Rightarrow> nat \<Rightarrow> bool \<times> nat" where
  "WriteAllowed free tot = Allowed DefaultGuard free tot"

lemma guard_withDefaults_idem: "guard_withDefaults (guard_withDefaults g) = guard_withDefaults g"
  by (simp add: guard_withDefaults_def MinFreeBytes_def MinFreeRatio_def MaxRatioBytes_def
      LegacyMinFreeRatio_def)

lemma Threshold_withDefaults: "Threshold (guard_withDefaults g) tot = Threshold g tot"
  by (simp add: Threshold_def guard_withDefaults_idem)

lemma Threshold_clamp:
  "Threshold g tot =
     max (minFreeBytes (guard_withDefaults g))
         (min (maxRatioBytes (guard_withDefaults g))
              (nat \<lfloor>minFreeRatio (guard_withDefaults g) * of_nat tot\<rfloor>))"
  by (auto simp: Threshold_def Let_def)

lemma ratio_pos: "0 < minFreeRatio (guard_withDefaults g)"
  by (auto simp: guard_withDefaults_def MinFreeRatio_def)

lemma Threshold_mono: "a \<le> b \<Longrightarrow> Threshold g a \<le> Threshold g b"
proof -
  assume "a \<le> b"
  then have "minFreeRatio (guard_withDefaults g) * of_nat a
      \<le> minFreeRatio (guard_withDefaults g) * of_nat b"
    using ratio_pos [of g] by (intro mult_left_mono) auto
  then have "nat \<lfloor>minFreeRatio (guard_withDefaults g) * of_nat a\<rfloor>
      \<le> nat \<lfloor>minFreeRatio (guard_withDefaults g) * of_nat b\<rfloor>"
    by (intro nat_mono floor_mono)
  then show ?thesis by (auto simp: Threshold_clamp)
qed

end
