(* ===== verification/SpoolNames.thy ===== *)
theory SpoolNames
  imports GoLib
begin

text \<open>
  The file names of the spool (\<open>internal/spool/spool.go\<close>): the name an item is published
  under, the temp names it is written through, the reason tag a quarantined item carries, and
  the base name a redrive restores. A name's stem (before its first dot) carries the item's id
  after the first dash, which no operation on names changes.
\<close>

definition itemName :: "time \<Rightarrow> string \<Rightarrow> string" where
  "itemName now ident = fmt0 13 (UnixMilli now) @ ''-'' @ ident @ ''.json''"

definition addTempName :: "string \<Rightarrow> string" where
  "addTempName name = ''.'' @ name @ ''.tmp''"

definition tempName :: "string \<Rightarrow> string \<Rightarrow> string" where
  "tempName pid name = ''.'' @ name @ ''.'' @ pid @ ''.tmp''"

definition baseName :: "string \<Rightarrow> string" where
  "baseName name = takeWhile (\<lambda>c. c \<noteq> CHR ''.'') (TrimSuffix name ''.json'') @ ''.json''"

definition taggedName :: "string \<Rightarrow> string \<Rightarrow> string" where
  "taggedName path tag =
     (let name = baseName path
      in if tag \<noteq> [] then TrimSuffix name ''.json'' @ ''.'' @ tag @ ''.json'' else name)"

definition tag_char :: "char \<Rightarrow> bool" where
  "tag_char r \<longleftrightarrow> (let n = (of_char r :: nat) in 97 \<le> n \<and> n \<le> 122 \<or> 48 \<le> n \<and> n \<le> 57)"

fun reasonLoop :: "string \<Rightarrow> string \<Rightarrow> bool \<Rightarrow> string" where
  "reasonLoop [] b lastUnderscore = b"
| "reasonLoop (r # rs) b lastUnderscore =
     (let (b', lu') =
        (if tag_char r then (b @ [r], False)
         else if \<not> lastUnderscore \<and> 0 < length b then (b @ ''_'', True)
         else (b, lastUnderscore))
      in if 48 \<le> length b' then b' else reasonLoop rs b' lu')"

definition reasonTag :: "string \<Rightarrow> string" where
  "reasonTag reason =
     (let out = rev (dropWhile (\<lambda>c. c = CHR ''_'') (rev (reasonLoop (ToLower (TrimSpace reason)) [] False)))
      in if out = [] then ''unspecified'' else out)"

text \<open>What the listing of \<open>pending/\<close> returns: published items, not temp files.\<close>

definition published :: "string \<Rightarrow> bool" where
  "published n \<longleftrightarrow> \<not> HasPrefix n ''.'' \<and> HasSuffix n ''.json''"

text \<open>The item id a name carries.\<close>

definition stem :: "string \<Rightarrow> string" where
  "stem n = takeWhile (\<lambda>c. c \<noteq> CHR ''.'') n"

definition name_id :: "string \<Rightarrow> string" where
  "name_id n = tl (dropWhile (\<lambda>c. c \<noteq> CHR ''-'') (stem n))"

text \<open>The name \<open>Lease\<close> gives a file it cannot decode.\<close>

definition corrupt_named :: "string \<Rightarrow> bool" where
  "corrupt_named n \<longleftrightarrow> n = taggedName n ''corrupt''"

section \<open>Base names and tags\<close>

lemma stem_TrimSuffix: "stem (TrimSuffix n ''.json'') = stem n"
proof (cases "HasSuffix n ''.json''")
  case True
  then obtain s where "n = s @ ''.json''" by (auto simp: HasSuffix_iff)
  then show ?thesis by (simp add: stem_def takeWhile_append)
next
  case False
  then show ?thesis by (simp add: TrimSuffix_def)
qed

lemma baseName_stem: "baseName n = stem n @ ''.json''"
  using stem_TrimSuffix [of n] by (simp add: baseName_def stem_def)

lemma no_dot_stem: "CHR ''.'' \<notin> set (stem n)"
  by (auto simp: stem_def dest: set_takeWhileD)

lemma stem_app: "CHR ''.'' \<notin> set s \<Longrightarrow> stem (s @ CHR ''.'' # r) = s"
  by (simp add: stem_def takeWhile_append takeWhile_tail)

lemma taggedName_eq:
  "taggedName n tag = stem n @ (if tag = [] then ''.json'' else CHR ''.'' # tag @ ''.json'')"
proof -
  have "TrimSuffix (stem n @ ''.json'') ''.json'' = stem n" by (rule TrimSuffix_append)
  then show ?thesis by (simp add: taggedName_def baseName_stem)
qed

lemma stem_taggedName [simp]: "stem (taggedName n tag) = stem n"
  using stem_app [OF no_dot_stem] by (auto simp: taggedName_eq)

lemma name_id_taggedName [simp]: "name_id (taggedName n tag) = name_id n"
  by (simp add: name_id_def)

lemma stem_baseName [simp]: "stem (baseName n) = stem n"
  using stem_taggedName [of n "[]"] by (simp add: taggedName_eq baseName_stem)

lemma name_id_baseName [simp]: "name_id (baseName n) = name_id n"
  by (simp add: name_id_def)

lemma published_stem: "published n \<Longrightarrow> stem n \<noteq> []"
  by (cases n) (auto simp: published_def stem_def HasPrefix_def HasSuffix_def)

lemma published_app: "s \<noteq> [] \<Longrightarrow> CHR ''.'' \<notin> set s \<Longrightarrow> published (s @ t @ ''.json'')"
  using HasSuffix_append [of "s @ t" "''.json''"]
  by (cases s) (auto simp: published_def HasPrefix_def)

lemma published_taggedName [simp]: "published n \<Longrightarrow> published (taggedName n tag)"
  using published_app [OF published_stem no_dot_stem, of n "[]"]
    published_app [OF published_stem no_dot_stem, of n "CHR ''.'' # tag"]
  by (simp add: taggedName_eq)

lemma published_baseName [simp]: "published n \<Longrightarrow> published (baseName n)"
  using published_taggedName [of n "[]"] by (simp add: taggedName_eq baseName_stem)

lemma corrupt_named_tagged: "corrupt_named (taggedName n ''corrupt'')"
  by (simp add: corrupt_named_def taggedName_eq [of "taggedName n ''corrupt''"])
    (simp add: taggedName_eq)

lemma not_corrupt_tagged:
  assumes "tag \<noteq> ''corrupt''"
  shows "\<not> corrupt_named (taggedName n tag)"
proof
  assume "corrupt_named (taggedName n tag)"
  then have "taggedName n tag = stem n @ CHR ''.'' # ''corrupt'' @ ''.json''"
    using taggedName_eq [of "taggedName n tag" "''corrupt''"] by (simp add: corrupt_named_def)
  with assms show False by (auto simp: taggedName_eq split: if_splits)
qed

lemma not_corrupt_base: "\<not> corrupt_named (baseName n)"
  using not_corrupt_tagged [of "[]" n] by (simp add: taggedName_eq baseName_stem)

lemma not_published_temp [simp]: "\<not> published (addTempName n)" "\<not> published (tempName pid n)"
  by (simp_all add: published_def addTempName_def tempName_def HasPrefix_def)

text \<open>The name a moved item gets is undone by the base name a redrive takes.\<close>

lemma baseName_taggedName: "baseName (taggedName n tag) = baseName n"
  by (simp add: baseName_stem)

section \<open>The published name of an item\<close>

definition id_ok :: "string \<Rightarrow> bool" where
  "id_ok ident \<longleftrightarrow> CHR ''.'' \<notin> set ident"

lemma digit_char: "a < 10 \<Longrightarrow> digit a \<noteq> CHR ''.'' \<and> digit a \<noteq> CHR ''-''"
proof -
  assume "a < 10"
  then have "(of_char (digit a) :: nat) \<noteq> of_char (CHR ''.'')" "(of_char (digit a) :: nat) \<noteq> of_char (CHR ''-'')"
    by (simp_all add: of_char_digit)
  then show ?thesis by auto
qed

lemma digs_chars: "c \<in> set (digs w n) \<Longrightarrow> c \<noteq> CHR ''.'' \<and> c \<noteq> CHR ''-''"
  by (induction w arbitrary: n) (auto simp: digit_char)

definition ms_ok :: "time \<Rightarrow> bool" where
  "ms_ok t \<longleftrightarrow> 0 \<le> UnixMilli t \<and> UnixMilli t < 10 ^ 13"

lemma itemName_digs: "ms_ok t \<Longrightarrow> itemName t i = digs 13 (nat (UnixMilli t)) @ CHR ''-'' # i @ ''.json''"
  by (simp add: itemName_def ms_ok_def fmt0_digs)

lemma stem_itemName:
  assumes "ms_ok t" "id_ok i"
  shows "stem (itemName t i) = digs 13 (nat (UnixMilli t)) @ CHR ''-'' # i"
proof -
  have "CHR ''.'' \<notin> set (digs 13 (nat (UnixMilli t)) @ CHR ''-'' # i)"
    using assms digs_chars by (auto simp: id_ok_def)
  then have "stem ((digs 13 (nat (UnixMilli t)) @ CHR ''-'' # i) @ CHR ''.'' # ''json'') =
      digs 13 (nat (UnixMilli t)) @ CHR ''-'' # i"
    by (rule stem_app)
  then show ?thesis using assms(1) by (simp only: itemName_digs append_assoc append_Cons)
qed

lemma name_id_itemName: "ms_ok t \<Longrightarrow> id_ok i \<Longrightarrow> name_id (itemName t i) = i"
proof -
  assume "ms_ok t" "id_ok i"
  moreover have "dropWhile (\<lambda>c. c \<noteq> CHR ''-'') (digs 13 n @ CHR ''-'' # i) = CHR ''-'' # i" for n
    using digs_chars by (subst dropWhile_append2) auto
  ultimately show ?thesis by (simp add: name_id_def stem_itemName)
qed

lemma baseName_itemName:
  assumes "ms_ok t" "id_ok i"
  shows "baseName (itemName t i) = itemName t i"
proof -
  have "baseName (itemName t i) = (digs 13 (nat (UnixMilli t)) @ CHR ''-'' # i) @ ''.json''"
    using assms by (simp only: baseName_stem stem_itemName)
  then show ?thesis using assms(1) by (simp add: itemName_digs)
qed

lemma published_itemName:
  assumes "ms_ok t" "id_ok i"
  shows "published (itemName t i)"
proof -
  have "stem (itemName t i) \<noteq> []" using assms by (simp add: stem_itemName)
  then have "published (stem (itemName t i) @ [] @ ''.json'')"
    by (intro published_app no_dot_stem)
  then show ?thesis using baseName_itemName [OF assms] by (simp add: baseName_stem)
qed

lemma not_corrupt_itemName: "ms_ok t \<Longrightarrow> id_ok i \<Longrightarrow> \<not> corrupt_named (itemName t i)"
  using not_corrupt_base [of "itemName t i"] by (simp add: baseName_itemName)

lemma itemName_less:
  "ms_ok t \<Longrightarrow> ms_ok u \<Longrightarrow> UnixMilli t < UnixMilli u \<Longrightarrow> itemName t i < itemName u j"
  unfolding itemName_def ms_ok_def by (rule fmt0_less) auto

section \<open>Reason tags\<close>

lemma reasonLoop_chars:
  "\<forall>c\<in>set b. tag_char c \<or> c = CHR ''_'' \<Longrightarrow>
   c \<in> set (reasonLoop rs b lu) \<Longrightarrow> tag_char c \<or> c = CHR ''_''"
  by (induction rs b lu rule: reasonLoop.induct) (auto simp: Let_def split: if_splits)

lemma reasonLoop_length: "length b \<le> 48 \<Longrightarrow> length b < 48 \<or> rs = [] \<Longrightarrow> length (reasonLoop rs b lu) \<le> 48"
proof (induction rs b lu rule: reasonLoop.induct)
  case (1 b lu)
  then show ?case by simp
next
  case (2 r rs b lu)
  then show ?case by (auto simp: Let_def split: if_splits)
qed

lemma set_dropWhile_rev: "set (rev (dropWhile P (rev xs))) \<subseteq> set xs"
  by (auto dest: set_dropWhileD)

lemma length_dropWhile_rev: "length (rev (dropWhile P (rev xs))) \<le> length xs"
  by (simp add: length_dropWhile_le [of P "rev xs", simplified])

end
