(* ===== verification/Spool.thy ===== *)
theory Spool
  imports SpoolGuard SpoolNames
begin

text \<open>
  The durable outbox (\<open>internal/spool/spool.go\<close>): its on-disk state (the three directories
  and the state file), the bookkeeping of one process, and every operation. A file holds an
  item or bytes that do not decode (\<open>Torn\<close>); \<open>json.Marshal\<close> of an item is represented by
  the length of its output (the field \<open>marshal\<close> of the environment, None when it fails), and
  decoding a published item gives the item back. Every system call asks the environment
  whether it fails (\<open>fault\<close>), and a failed write leaves behind whatever \<open>residue\<close> says. One
  operation sees one clock reading.
\<close>

section \<open>Data\<close>

record item =
  item_id :: string
  kind :: string
  session_id :: string
  seq :: int
  event_time :: time
  attempts :: int
  undecided :: int
  payload :: string

datatype content = Doc item | Torn

record spool_file =
  f_content :: content
  f_size :: nat
  f_mtime :: time

datatype sub = SubPending | SubQuarantine | SubParked

record Stats =
  st_pending :: nat
  st_quarantine :: nat
  st_parked :: nat
  st_bytes :: int
  st_oldest_age :: duration
  st_dropped :: "string \<rightharpoonup> int"

record State =
  last_success :: time
  last_error :: string
  last_error_at :: time
  dropped_total :: "string \<rightharpoonup> int"
  pending_bytes :: int
  pending_measured :: bool

definition zero_State :: State where
  "zero_State = \<lparr>last_success = 0, last_error = [], last_error_at = 0, dropped_total = Map.empty,
     pending_bytes = 0, pending_measured = False\<rparr>"

definition Delivered :: "State \<Rightarrow> bool" where
  "Delivered s \<longleftrightarrow> \<not> IsZero (last_success s)"

definition FailingSince :: "State \<Rightarrow> (string \<times> time) option" where
  "FailingSince s =
     (if last_error s = [] \<or> \<not> last_success s < last_error_at s then None
      else Some (last_error s, last_error_at s))"

datatype state_file = NoState | BadState | GoodState State

record Options =
  optDir :: string
  maxBytes :: int
  optMinFreeRatio :: rat
  maxAttempts :: int
  maxUndecided :: int

record Spool =
  opts :: Options
  guard :: Guard
  dropped :: "string \<rightharpoonup> int"
  lastSuccessWritten :: time
  pending_dir :: "spool_file dir"
  quarantine_dir :: "spool_file dir"
  parked_dir :: "spool_file dir"
  stateFile :: state_file

record Leased =
  l_item :: item
  l_path :: "sub \<times> string"

datatype fsop =
    OpMkdir sub
  | OpReadDir sub
  | OpRead sub string
  | OpWrite sub string
  | OpRename sub string sub string
  | OpRemove sub string
  | OpStat sub string
  | OpReadState
  | OpWriteState
  | OpRenameState

record env =
  now :: time
  disk_free :: "(nat \<times> nat) option"
  pid :: string
  newID :: string
  marshal :: "item \<Rightarrow> nat option"
  fault :: "fsop \<Rightarrow> bool"
  residue :: "sub \<Rightarrow> string \<Rightarrow> spool_file option"

datatype spool_error =
    ErrDirRequired
  | ErrMkdir sub
  | ErrMarshal
  | ErrDiskFull nat nat
  | ErrExceedsCap int int
  | ErrReadDir sub
  | ErrWrite
  | ErrPublish
  | ErrRemove
  | ErrMove sub string
  | ErrReadState
  | ErrStateUnreadable

definition defaultMaxBytes :: int where "defaultMaxBytes = 2 * 2 ^ 30"
definition defaultMaxAttempts :: int where "defaultMaxAttempts = 8"
definition defaultMaxUndecided :: int where "defaultMaxUndecided = 8"
definition successWriteInterval :: duration where "successWriteInterval = second"
definition maxErrorBytes :: nat where "maxErrorBytes = 512"
definition tmpSweepAge :: duration where "tmpSweepAge = 10 * minute"

section \<open>The file system\<close>

fun dir_of :: "sub \<Rightarrow> Spool \<Rightarrow> spool_file dir" where
  "dir_of SubPending s = pending_dir s"
| "dir_of SubQuarantine s = quarantine_dir s"
| "dir_of SubParked s = parked_dir s"

fun set_dir :: "sub \<Rightarrow> spool_file dir \<Rightarrow> Spool \<Rightarrow> Spool" where
  "set_dir SubPending d s = s\<lparr>pending_dir := d\<rparr>"
| "set_dir SubQuarantine d s = s\<lparr>quarantine_dir := d\<rparr>"
| "set_dir SubParked d s = s\<lparr>parked_dir := d\<rparr>"

definition file_at :: "Spool \<Rightarrow> sub \<Rightarrow> string \<Rightarrow> spool_file option" where
  "file_at s sub n = map_of (dir_of sub s) n"

definition put_file :: "sub \<Rightarrow> string \<Rightarrow> spool_file \<Rightarrow> Spool \<Rightarrow> Spool" where
  "put_file sub n f s = set_dir sub (dir_put n f (dir_of sub s)) s"

definition del_file :: "sub \<Rightarrow> string \<Rightarrow> Spool \<Rightarrow> Spool" where
  "del_file sub n s = set_dir sub (dir_del n (dir_of sub s)) s"

definition fs_write :: "env \<Rightarrow> sub \<Rightarrow> string \<Rightarrow> spool_file \<Rightarrow> Spool \<Rightarrow> bool \<times> Spool" where
  "fs_write e sub n f s =
     (if fault e (OpWrite sub n)
      then (False, case residue e sub n of None \<Rightarrow> s | Some g \<Rightarrow> put_file sub n g s)
      else (True, put_file sub n f s))"

datatype syscall_result = Done | NotExist | Failed

definition fs_rename :: "env \<Rightarrow> sub \<Rightarrow> string \<Rightarrow> sub \<Rightarrow> string \<Rightarrow> Spool \<Rightarrow> syscall_result \<times> Spool" where
  "fs_rename e sub n sub' n' s =
     (if fault e (OpRename sub n sub' n') then (Failed, s)
      else case file_at s sub n of
        None \<Rightarrow> (NotExist, s)
      | Some f \<Rightarrow> (Done, put_file sub' n' f (del_file sub n s)))"

definition fs_remove :: "env \<Rightarrow> sub \<Rightarrow> string \<Rightarrow> Spool \<Rightarrow> syscall_result \<times> Spool" where
  "fs_remove e sub n s =
     (if fault e (OpRemove sub n) then (Failed, s)
      else case file_at s sub n of
        None \<Rightarrow> (NotExist, s)
      | Some f \<Rightarrow> (Done, del_file sub n s))"

definition fs_readdir :: "env \<Rightarrow> sub \<Rightarrow> Spool \<Rightarrow> string list option" where
  "fs_readdir e sub s = (if fault e (OpReadDir sub) then None else Some (dir_names (dir_of sub s)))"

definition fs_stat :: "env \<Rightarrow> sub \<Rightarrow> string \<Rightarrow> Spool \<Rightarrow> spool_file option" where
  "fs_stat e sub n s = (if fault e (OpStat sub n) then None else file_at s sub n)"

datatype read_result = ReadFailed | ReadCorrupt | ReadItem item

text \<open>\<open>os.ReadFile\<close> followed by \<open>json.Unmarshal\<close> into an item.\<close>

definition read_item :: "env \<Rightarrow> sub \<Rightarrow> string \<Rightarrow> Spool \<Rightarrow> read_result" where
  "read_item e sub n s =
     (if fault e (OpRead sub n) then ReadFailed
      else case file_at s sub n of
        None \<Rightarrow> ReadFailed
      | Some f \<Rightarrow> (case f_content f of Doc it \<Rightarrow> ReadItem it | Torn \<Rightarrow> ReadCorrupt))"

definition doc_file :: "env \<Rightarrow> item \<Rightarrow> nat \<Rightarrow> spool_file" where
  "doc_file e it len = \<lparr>f_content = Doc it, f_size = len, f_mtime = now e\<rparr>"

definition fileSize :: "env \<Rightarrow> sub \<Rightarrow> string \<Rightarrow> Spool \<Rightarrow> int" where
  "fileSize e sub n s = (case fs_stat e sub n s of None \<Rightarrow> 0 | Some f \<Rightarrow> int (f_size f))"

section \<open>The state file\<close>

definition readState :: "env \<Rightarrow> Spool \<Rightarrow> spool_error + State" where
  "readState e s =
     (case stateFile s of
        NoState \<Rightarrow> if fault e OpReadState then Inl ErrReadState else Inr zero_State
      | BadState \<Rightarrow> if fault e OpReadState then Inl ErrReadState else Inl ErrStateUnreadable
      | GoodState st \<Rightarrow> if fault e OpReadState then Inl ErrReadState else Inr st)"

definition mutateState :: "env \<Rightarrow> (State \<Rightarrow> State) \<Rightarrow> Spool \<Rightarrow> Spool" where
  "mutateState e f s =
     (let st = (case readState e s of Inl err \<Rightarrow> zero_State | Inr st \<Rightarrow> st)
      in if fault e OpWriteState then s
         else if fault e OpRenameState then s
         else s\<lparr>stateFile := GoodState (f st)\<rparr>)"

definition RecordDeliveryFailure :: "env \<Rightarrow> string option \<Rightarrow> Spool \<Rightarrow> Spool" where
  "RecordDeliveryFailure e err s =
     (case err of
        None \<Rightarrow> s
      | Some msg0 \<Rightarrow>
          (let msg = (if length msg0 > maxErrorBytes then take maxErrorBytes msg0 @ ''...'' else msg0)
           in mutateState e (\<lambda>st. st\<lparr>last_error := msg, last_error_at := now e\<rparr>) s))"

definition recordSuccess :: "env \<Rightarrow> Spool \<Rightarrow> Spool" where
  "recordSuccess e s =
     (if \<not> IsZero (lastSuccessWritten s) \<and> Sub (now e) (lastSuccessWritten s) < successWriteInterval then s
      else mutateState e
             (\<lambda>st. if last_success st < now e then st\<lparr>last_success := now e\<rparr> else st)
             (s\<lparr>lastSuccessWritten := now e\<rparr>))"

definition Record :: "env \<Rightarrow> string \<Rightarrow> int \<Rightarrow> Spool \<Rightarrow> Spool" where
  "Record e reason n s =
     (if n \<le> 0 then s
      else mutateState e
             (\<lambda>st. st\<lparr>dropped_total := (dropped_total st)(reason \<mapsto> mget (dropped_total st) reason + n)\<rparr>)
             (s\<lparr>dropped := (dropped s)(reason \<mapsto> mget (dropped s) reason + n)\<rparr>))"

definition drop_event :: "env \<Rightarrow> string \<Rightarrow> Spool \<Rightarrow> Spool" where
  "drop_event e reason s = Record e reason 1 s"

definition adjustPendingBytes :: "env \<Rightarrow> int \<Rightarrow> Spool \<Rightarrow> Spool" where
  "adjustPendingBytes e delta s =
     (if delta = 0 then s
      else mutateState e
             (\<lambda>st. let b = pending_bytes st + delta
                   in st\<lparr>pending_bytes := (if b < 0 then 0 else b)\<rparr>) s)"

definition snapshotDropped :: "env \<Rightarrow> Spool \<Rightarrow> string \<rightharpoonup> int" where
  "snapshotDropped e s =
     (case readState e s of
        Inl err \<Rightarrow> dropped s
      | Inr st \<Rightarrow> (\<lambda>k. case dropped_total st k of
            None \<Rightarrow> dropped s k
          | Some v \<Rightarrow> if v > mget (dropped s) k then Some v else dropped s k))"

section \<open>Listing and sweeping\<close>

definition pendingNames :: "env \<Rightarrow> Spool \<Rightarrow> spool_error + string list" where
  "pendingNames e s =
     (case fs_readdir e SubPending s of
        None \<Rightarrow> Inl (ErrReadDir SubPending)
      | Some ents \<Rightarrow> Inr (sort (filter published ents)))"

fun sweepLoop :: "env \<Rightarrow> string list \<Rightarrow> Spool \<Rightarrow> Spool" where
  "sweepLoop e [] s = s"
| "sweepLoop e (n # ns) s =
     (if \<not> HasSuffix n ''.tmp'' then sweepLoop e ns s
      else case fs_stat e SubPending n s of
        None \<Rightarrow> sweepLoop e ns s
      | Some f \<Rightarrow>
          if \<not> f_mtime f < now e - tmpSweepAge then sweepLoop e ns s
          else (case fs_remove e SubPending n s of
              (Done, s1) \<Rightarrow> sweepLoop e ns (drop_event e ''tmp_swept'' s1)
            | (r, s1) \<Rightarrow> sweepLoop e ns s1))"

definition sweepTemp :: "env \<Rightarrow> Spool \<Rightarrow> Spool" where
  "sweepTemp e s = (case fs_readdir e SubPending s of None \<Rightarrow> s | Some ents \<Rightarrow> sweepLoop e ents s)"

definition countItems :: "env \<Rightarrow> sub \<Rightarrow> Spool \<Rightarrow> nat" where
  "countItems e sub s =
     (case fs_readdir e sub s of
        None \<Rightarrow> 0
      | Some ents \<Rightarrow> length (filter (\<lambda>n. HasSuffix n ''.json'') ents))"

section \<open>Opening\<close>

definition withDefaults :: "Options \<Rightarrow> Options" where
  "withDefaults o0 = o0\<lparr>
     maxBytes := (if maxBytes o0 \<le> 0 then defaultMaxBytes else maxBytes o0),
     maxAttempts := (if maxAttempts o0 \<le> 0 then defaultMaxAttempts else maxAttempts o0),
     maxUndecided := (if maxUndecided o0 \<le> 0 then defaultMaxUndecided else maxUndecided o0)\<rparr>"

text \<open>\<open>s\<close> carries what the directory holds; the process's own bookkeeping starts empty.\<close>

definition Open :: "env \<Rightarrow> Options \<Rightarrow> Spool \<Rightarrow> spool_error + Spool" where
  "Open e o0 s =
     (if optDir o0 = [] then Inl ErrDirRequired
      else if fault e (OpMkdir SubPending) then Inl (ErrMkdir SubPending)
      else if fault e (OpMkdir SubQuarantine) then Inl (ErrMkdir SubQuarantine)
      else if fault e (OpMkdir SubParked) then Inl (ErrMkdir SubParked)
      else Inr (sweepTemp e (s\<lparr>opts := withDefaults o0,
             guard := guard_withDefaults \<lparr>minFreeBytes = 0, minFreeRatio = optMinFreeRatio o0, maxRatioBytes = 0\<rparr>,
             dropped := Map.empty, lastSuccessWritten := 0\<rparr>)))"

section \<open>Adding\<close>

definition guardDisk :: "env \<Rightarrow> Spool \<Rightarrow> spool_error option" where
  "guardDisk e s =
     (case disk_free e of
        None \<Rightarrow> None
      | Some (free, tot) \<Rightarrow>
          if tot = 0 then None
          else (case Allowed (guard s) free tot of
              (True, threshold) \<Rightarrow> None
            | (False, threshold) \<Rightarrow> Some (ErrDiskFull free threshold)))"

text \<open>The sizes \<open>enforceCap\<close> measures; a file that cannot be measured is left out.\<close>

definition measure_sizes :: "env \<Rightarrow> Spool \<Rightarrow> string list \<Rightarrow> (string \<times> int) list" where
  "measure_sizes e s names =
     concat (map (\<lambda>n. case fs_stat e SubPending n s of None \<Rightarrow> [] | Some f \<Rightarrow> [(n, int (f_size f))]) names)"

fun evictLoop :: "env \<Rightarrow> int \<Rightarrow> int \<Rightarrow> (string \<rightharpoonup> int) \<Rightarrow> string list \<Rightarrow> int \<Rightarrow> Spool \<Rightarrow> int \<times> Spool" where
  "evictLoop e cap incoming sizes [] tot s = (tot, s)"
| "evictLoop e cap incoming sizes (n # ns) tot s =
     (if tot + incoming > cap then
        (case fs_remove e SubPending n s of
           (Done, s1) \<Rightarrow>
             evictLoop e cap incoming sizes ns (tot - mget sizes n) (drop_event e ''queue_overflow'' s1)
         | (r, s1) \<Rightarrow> evictLoop e cap incoming sizes ns tot s1)
      else (tot, s))"

definition trustsEstimate :: "env \<Rightarrow> int \<Rightarrow> Spool \<Rightarrow> bool" where
  "trustsEstimate e incoming s =
     (case readState e s of
        Inl err \<Rightarrow> False
      | Inr st \<Rightarrow> pending_measured st \<and> 0 \<le> pending_bytes st \<and>
          10 * (pending_bytes st + incoming) < 9 * maxBytes (opts s))"

definition enforceCap :: "env \<Rightarrow> int \<Rightarrow> Spool \<Rightarrow> spool_error option \<times> Spool" where
  "enforceCap e incoming s =
     (if trustsEstimate e incoming s then (None, s)
      else case pendingNames e s of
        Inl err \<Rightarrow> (Some err, s)
      | Inr names \<Rightarrow>
          (let sizes = measure_sizes e s names;
               (tot, s1) = evictLoop e (maxBytes (opts s)) incoming (map_of sizes) names
                             (sum_list (map snd sizes)) s;
               s2 = mutateState e (\<lambda>x. x\<lparr>pending_bytes := tot, pending_measured := True\<rparr>) s1
           in if tot + incoming > maxBytes (opts s)
              then (Some (ErrExceedsCap incoming (maxBytes (opts s))), drop_event e ''queue_overflow'' s2)
              else (None, s2)))"

definition prepareItem :: "env \<Rightarrow> item \<Rightarrow> item" where
  "prepareItem e it =
     (let it1 = (if item_id it = [] then it\<lparr>item_id := newID e\<rparr> else it)
      in if IsZero (event_time it1) then it1\<lparr>event_time := now e\<rparr> else it1)"

definition publish :: "env \<Rightarrow> item \<Rightarrow> nat \<Rightarrow> Spool \<Rightarrow> spool_error option \<times> Spool" where
  "publish e it len s =
     (let name = itemName (now e) (item_id it); tmp = addTempName name
      in case fs_write e SubPending tmp (doc_file e it len) s of
           (False, s1) \<Rightarrow> (Some ErrWrite, s1)
         | (True, s1) \<Rightarrow>
             (case fs_rename e SubPending tmp SubPending name s1 of
                (Done, s2) \<Rightarrow> (None, adjustPendingBytes e (int len) s2)
              | (r, s2) \<Rightarrow> (Some ErrPublish, snd (fs_remove e SubPending tmp s2))))"

definition Add :: "env \<Rightarrow> item \<Rightarrow> Spool \<Rightarrow> spool_error option \<times> Spool" where
  "Add e it0 s =
     (let it = prepareItem e it0
      in case marshal e it of
           None \<Rightarrow> (Some ErrMarshal, s)
         | Some len \<Rightarrow>
             (case guardDisk e s of
                Some err \<Rightarrow> (Some err, drop_event e ''disk_full'' s)
              | None \<Rightarrow>
                  (case enforceCap e (int len) s of
                     (Some err, s1) \<Rightarrow> (Some err, s1)
                   | (None, s1) \<Rightarrow> publish e it len s1)))"

section \<open>Moving items out of pending\<close>

definition moveOut :: "env \<Rightarrow> sub \<times> string \<Rightarrow> sub \<Rightarrow> string \<Rightarrow> Spool \<Rightarrow> spool_error option \<times> Spool" where
  "moveOut e path dst tag s =
     (let size = fileSize e (fst path) (snd path) s
      in case fs_rename e (fst path) (snd path) dst (taggedName (snd path) tag) s of
           (Done, s1) \<Rightarrow> (None, adjustPendingBytes e (- size) s1)
         | (NotExist, s1) \<Rightarrow> (None, s1)
         | (Failed, s1) \<Rightarrow> (Some (ErrMove dst tag), s1))"

definition quarantine :: "env \<Rightarrow> sub \<times> string \<Rightarrow> string \<Rightarrow> Spool \<Rightarrow> spool_error option \<times> Spool" where
  "quarantine e path reason s = moveOut e path SubQuarantine reason s"

definition rewrite :: "env \<Rightarrow> Leased \<Rightarrow> Spool \<Rightarrow> spool_error option \<times> Spool" where
  "rewrite e l s =
     (case marshal e (l_item l) of
        None \<Rightarrow> (Some ErrMarshal, s)
      | Some len \<Rightarrow>
          (let sub = fst (l_path l); tmp = tempName (pid e) (snd (l_path l))
           in case fs_write e sub tmp (doc_file e (l_item l) len) s of
                (False, s1) \<Rightarrow> (Some ErrWrite, s1)
              | (True, s1) \<Rightarrow>
                  (case fs_rename e sub tmp sub (snd (l_path l)) s1 of
                     (Done, s2) \<Rightarrow> (None, s2)
                   | (r, s2) \<Rightarrow> (Some ErrPublish, s2))))"

definition Fail :: "env \<Rightarrow> Leased \<Rightarrow> Spool \<Rightarrow> spool_error option \<times> Spool" where
  "Fail e l0 s =
     (let l = l0\<lparr>l_item := (l_item l0)\<lparr>attempts := attempts (l_item l0) + 1\<rparr>\<rparr>
      in if attempts (l_item l) \<ge> maxAttempts (opts s)
         then moveOut e (l_path l) SubQuarantine ''max_attempts'' (drop_event e ''max_attempts'' s)
         else rewrite e l s)"

text \<open>The flag says the item was parked.\<close>

definition Undecided :: "env \<Rightarrow> Leased \<Rightarrow> Spool \<Rightarrow> (bool \<times> spool_error option) \<times> Spool" where
  "Undecided e l0 s =
     (let l = l0\<lparr>l_item := (l_item l0)\<lparr>undecided := undecided (l_item l0) + 1\<rparr>\<rparr>
      in if undecided (l_item l) \<ge> maxUndecided (opts s)
         then (case moveOut e (l_path l) SubParked [] (drop_event e ''parked'' s) of
                 (err, s1) \<Rightarrow> ((True, err), s1))
         else (case rewrite e l s of (err, s1) \<Rightarrow> ((False, err), s1)))"

definition Quarantine :: "env \<Rightarrow> Leased \<Rightarrow> string \<Rightarrow> Spool \<Rightarrow> spool_error option \<times> Spool" where
  "Quarantine e l reason s =
     (let tag = reasonTag reason
      in moveOut e (l_path l) SubQuarantine (''rejected-'' @ tag) (drop_event e (''rejected:'' @ tag) s))"

definition Ack :: "env \<Rightarrow> Leased \<Rightarrow> Spool \<Rightarrow> spool_error option \<times> Spool" where
  "Ack e l s0 =
     (let s = recordSuccess e s0;
          sub = fst (l_path l); n = snd (l_path l);
          size = fileSize e sub n s
      in case fs_remove e sub n s of
           (Failed, s1) \<Rightarrow> (Some ErrRemove, s1)
         | (r, s1) \<Rightarrow> (None, if sub = SubPending then adjustPendingBytes e (- size) s1 else s1))"

section \<open>Leasing and listing items\<close>

definition firstN :: "int \<Rightarrow> 'a list \<Rightarrow> 'a list" where
  "firstN n names = (if 0 < n \<and> n < int (length names) then take (nat n) names else names)"

fun leaseLoop :: "env \<Rightarrow> string list \<Rightarrow> Spool \<Rightarrow> Leased list \<times> Spool" where
  "leaseLoop e [] s = ([], s)"
| "leaseLoop e (n # ns) s =
     (case read_item e SubPending n s of
        ReadFailed \<Rightarrow> leaseLoop e ns s
      | ReadCorrupt \<Rightarrow>
          (case quarantine e (SubPending, n) ''corrupt'' s of
             (err, s1) \<Rightarrow> leaseLoop e ns (drop_event e ''corrupt'' s1))
      | ReadItem it \<Rightarrow>
          (case leaseLoop e ns s of
             (ls, s1) \<Rightarrow> (\<lparr>l_item = it, l_path = (SubPending, n)\<rparr> # ls, s1)))"

definition Lease :: "env \<Rightarrow> int \<Rightarrow> Spool \<Rightarrow> (spool_error + Leased list) \<times> Spool" where
  "Lease e n s0 =
     (let s = sweepTemp e s0
      in case pendingNames e s of
           Inl err \<Rightarrow> (Inl err, s)
         | Inr names \<Rightarrow> (case leaseLoop e (firstN n names) s of (ls, s1) \<Rightarrow> (Inr ls, s1)))"

definition Quarantined :: "env \<Rightarrow> int \<Rightarrow> Spool \<Rightarrow> spool_error + Leased list" where
  "Quarantined e n s =
     (case fs_readdir e SubQuarantine s of
        None \<Rightarrow> Inl (ErrReadDir SubQuarantine)
      | Some ents \<Rightarrow>
          Inr (concat (map (\<lambda>name. case read_item e SubQuarantine name s of
                  ReadItem it \<Rightarrow> [\<lparr>l_item = it, l_path = (SubQuarantine, name)\<rparr>]
                | r \<Rightarrow> [])
              (firstN n (sort (filter (\<lambda>x. HasSuffix x ''.json'') ents))))))"

section \<open>Redriving\<close>

fun redriveLoop :: "env \<Rightarrow> sub \<Rightarrow> string list \<Rightarrow> Spool \<Rightarrow> nat \<times> Spool" where
  "redriveLoop e sub [] s = (0, s)"
| "redriveLoop e sub (n # ns) s =
     (if \<not> HasSuffix n ''.json'' then redriveLoop e sub ns s
      else case read_item e sub n s of
        ReadFailed \<Rightarrow> redriveLoop e sub ns s
      | ReadCorrupt \<Rightarrow> redriveLoop e sub ns s
      | ReadItem it0 \<Rightarrow>
          (let it = it0\<lparr>attempts := 0, undecided := 0\<rparr>
           in case marshal e it of
                None \<Rightarrow> redriveLoop e sub ns s
              | Some len \<Rightarrow>
                  (let dst = baseName n; tmp = tempName (pid e) dst
                   in case fs_write e SubPending tmp (doc_file e it len) s of
                        (False, s1) \<Rightarrow> redriveLoop e sub ns s1
                      | (True, s1) \<Rightarrow>
                          (case fs_rename e SubPending tmp SubPending dst s1 of
                             (Done, s2) \<Rightarrow>
                               (case redriveLoop e sub ns
                                       (adjustPendingBytes e (int len) (snd (fs_remove e sub n s2))) of
                                  (k, s3) \<Rightarrow> (Suc k, s3))
                           | (r, s2) \<Rightarrow>
                               redriveLoop e sub ns (snd (fs_remove e SubPending tmp s2))))))"

definition redriveFrom :: "env \<Rightarrow> sub \<Rightarrow> Spool \<Rightarrow> (spool_error + nat) \<times> Spool" where
  "redriveFrom e sub s =
     (case fs_readdir e sub s of
        None \<Rightarrow> (Inl (ErrReadDir sub), s)
      | Some ents \<Rightarrow> (case redriveLoop e sub ents s of (n, s1) \<Rightarrow> (Inr n, s1)))"

definition Redrive :: "env \<Rightarrow> Spool \<Rightarrow> (spool_error + nat) \<times> Spool" where
  "Redrive e s = redriveFrom e SubQuarantine s"

definition RedriveParked :: "env \<Rightarrow> Spool \<Rightarrow> (spool_error + nat) \<times> Spool" where
  "RedriveParked e s = redriveFrom e SubParked s"

section \<open>Reporting\<close>

fun statLoop :: "env \<Rightarrow> Spool \<Rightarrow> string list \<Rightarrow> int \<Rightarrow> time \<Rightarrow> int \<times> time" where
  "statLoop e s [] bytes oldest = (bytes, oldest)"
| "statLoop e s (n # ns) bytes oldest =
     (case fs_stat e SubPending n s of
        None \<Rightarrow> statLoop e s ns bytes oldest
      | Some f \<Rightarrow> statLoop e s ns (bytes + int (f_size f))
          (if IsZero oldest \<or> f_mtime f < oldest then f_mtime f else oldest))"

text \<open>The report is returned with an error too, holding what was gathered before it.\<close>

definition spool_Stats :: "env \<Rightarrow> Spool \<Rightarrow> (Stats \<times> spool_error option) \<times> Spool" where
  "spool_Stats e s =
     (let st0 = \<lparr>st_pending = 0, st_quarantine = 0, st_parked = 0, st_bytes = 0, st_oldest_age = 0,
                 st_dropped = snapshotDropped e s\<rparr>
      in case pendingNames e s of
           Inl err \<Rightarrow> ((st0, Some err), s)
         | Inr names \<Rightarrow>
             (case statLoop e s names 0 0 of
                (bytes, oldest) \<Rightarrow>
                  (let age = (if IsZero oldest then 0 else Sub (now e) oldest)
                   in ((st0\<lparr>st_pending := length names, st_bytes := bytes,
                            st_oldest_age := (if 0 < age then age else 0),
                            st_quarantine := countItems e SubQuarantine s,
                            st_parked := countItems e SubParked s\<rparr>, None),
                       mutateState e (\<lambda>x. x\<lparr>pending_bytes := bytes, pending_measured := True\<rparr>) s))))"

end
