(* ===== verification/Ingest.thy ===== *)
theory Ingest
  imports Store Spool
begin

text \<open>
  The upload endpoint (\<open>server/ingest/ingest.go\<close>, \<open>scrub.go\<close>): the handler's limits, who is
  calling, reading a batch, judging each item, the second scrub pass, and the per-item answer.
  Log lines are left out. The store and the device verifier are arguments, as the handler's ports
  are; a request and a reply are what package \<open>net/http\<close> hands over.
\<close>

section \<open>Data\<close>

record Record =
  rd_Event :: Event
  rd_Email :: string
  rd_DeviceID :: string
  rd_Repo :: string
  rd_Body :: string

record Rejection =
  rx_ID :: string
  rx_Reason :: string

record Result =
  rs_Inserted :: "string list"
  rs_Duplicate :: "string list"
  rs_Rejected :: "Rejection list"

definition zero_Result :: Result where
  "zero_Result = \<lparr>rs_Inserted = [], rs_Duplicate = [], rs_Rejected = []\<rparr>"

text \<open>\<open>ingest.Identity\<close>, the caller.\<close>

record Caller =
  ca_Email :: string
  ca_DeviceID :: string

datatype verify_error = Unauthenticated | VerifyFailed

record WireReject =
  wj_ID :: string
  wj_Reason :: string

text \<open>\<open>ingest.Response\<close>, which the client reads as its \<open>wireResponse\<close>.\<close>

record Wire =
  wr_Accepted :: "string list"
  wr_Rejected :: "WireReject list"
  wr_RetryAfterMS :: int

record Request =
  rq_Authorization :: string
  rq_UserAgent :: string
  rq_Body :: string

record Reply =
  rp_Status :: int
  rp_RetryAfter :: string
  rp_Body :: string

text \<open>
  What \<open>encoding/json\<close> does for the two sides. A stream decoder stops where the value ends: it
  yields the value and the bytes taken, asks for more input, or finds the input malformed.
\<close>

datatype 'a doc_read = Decoded 'a nat | NeedMore | Malformed nat

record wire_codec =
  enc_items :: "item list \<Rightarrow> string option"
  dec_items :: "string \<Rightarrow> item list doc_read"
  enc_wire :: "Wire \<Rightarrow> string option"
  enc_error :: "string \<Rightarrow> string \<Rightarrow> string option"
  dec_wire :: "string \<Rightarrow> Wire option"

definition ReasonNoID :: string where "ReasonNoID = ''missing id''"
definition ReasonNoSessionID :: string where "ReasonNoSessionID = ''missing session_id''"
definition ReasonBadPayload :: string where "ReasonBadPayload = ''payload is not valid json''"
definition ReasonInvalid :: string where "ReasonInvalid = ''event failed validation''"
definition ReasonBatchTooBig :: string where "ReasonBatchTooBig = ''batch exceeds the server''@ [CHR 0x27] @ ''s size limit''"

section \<open>The handler\<close>

text \<open>An \<open>int64\<close> product.\<close>

definition wrap64 :: "int \<Rightarrow> int" where
  "wrap64 x = (x + 2 ^ 63) mod 2 ^ 64 - 2 ^ 63"

definition defaultMaxBatchBytes :: int where "defaultMaxBatchBytes = 4 * 2 ^ 20"
definition hardBodyMultiple :: int where "hardBodyMultiple = 8"
definition defaultMaxHealthBytes :: int where "defaultMaxHealthBytes = 256 * 2 ^ 10"

definition ReplaceChar :: "char \<Rightarrow> string \<Rightarrow> string \<Rightarrow> string" where
  "ReplaceChar ch by s = concat (map (\<lambda>x. if x = ch then by else [x]) s)"

text \<open>\<open>path.Base\<close>.\<close>

definition path_Base :: "string \<Rightarrow> string" where
  "path_Base p =
     (if p = [] then ''.''
      else let q = rev (dropWhile (\<lambda>ch. ch = CHR ''/'') (rev p));
               r = rev (takeWhile (\<lambda>ch. ch \<noteq> CHR ''/'') (rev q))
           in if r = [] then ''/'' else r)"

definition RepoFromCwd :: "string \<Rightarrow> string" where
  "RepoFromCwd cwd0 =
     (let cwd = TrimSpace cwd0
      in if cwd = [] then []
         else let base = path_Base (ReplaceChar (CHR 0x5C) ''/'' cwd)
              in if base = ''.'' \<or> base = ''/'' then [] else TrimSuffix base ''.git'')"

record IngestOptions =
  io_Store :: bool
  io_Devices :: bool
  io_MaxBatchBytes :: int
  io_HardBodyLimit :: int
  io_MaxHealthBytes :: int
  io_Repo :: "(string \<Rightarrow> string) option"
  io_RetryAfter :: duration

record Handler =
  h_maxBatchBytes :: int
  h_hardBodyLimit :: int
  h_maxHealthBytes :: int
  h_repo :: "string \<Rightarrow> string"
  h_retryAfter :: duration

datatype new_error = NoStore | NoDevices | LimitsTooClose

definition ingest_New :: "IngestOptions \<Rightarrow> new_error + Handler" where
  "ingest_New o0 =
     (if \<not> io_Store o0 then Inl NoStore
      else if \<not> io_Devices o0 then Inl NoDevices
      else
        let cap = (if io_MaxBatchBytes o0 \<le> 0 then defaultMaxBatchBytes else io_MaxBatchBytes o0);
            hard = (if io_HardBodyLimit o0 \<le> 0 then wrap64 (cap * hardBodyMultiple) else io_HardBodyLimit o0)
        in if hard \<le> cap then Inl LimitsTooClose
           else Inr \<lparr>h_maxBatchBytes = cap, h_hardBodyLimit = hard,
             h_maxHealthBytes = (if io_MaxHealthBytes o0 \<le> 0 then defaultMaxHealthBytes else io_MaxHealthBytes o0),
             h_repo = (case io_Repo o0 of None \<Rightarrow> RepoFromCwd | Some f \<Rightarrow> f),
             h_retryAfter = io_RetryAfter o0\<rparr>)"

text \<open>The ports and libraries a request runs against; \<open>'s\<close> is the store's state.\<close>

record 's ingest_env =
  ie_verify :: "string \<Rightarrow> verify_error + Caller"
  ie_upsert :: "string \<Rightarrow> Record list \<Rightarrow> 's \<Rightarrow> Result option \<times> 's"
  ie_codec :: codec
  ie_wire :: wire_codec
  ie_scrub :: "string \<Rightarrow> string \<times> tally_map"

section \<open>Replies\<close>

text \<open>\<open>d.Round(time.Second).Seconds()\<close> as an integer.\<close>

definition round_seconds :: "duration \<Rightarrow> int" where
  "round_seconds d =
     (let r = d mod second
      in if r + r < second then (d - r) div second
         else if d + second - r \<le> max_duration then (d + second - r) div second
         else max_duration div second)"

definition writeJSON :: "int \<Rightarrow> string \<Rightarrow> string option \<Rightarrow> Reply" where
  "writeJSON status retry body =
     (case body of
        Some b \<Rightarrow> \<lparr>rp_Status = status, rp_RetryAfter = retry, rp_Body = b\<rparr>
      | None \<Rightarrow> \<lparr>rp_Status = 500, rp_RetryAfter = retry,
          rp_Body = concat (map (\<lambda>x. if x = CHR 0x60 then [CHR 0x22] else [x])
            ''{`error`:{`code`:`internal`,`message`:`internal error`}}'')\<rparr>)"

definition writeError :: "wire_codec \<Rightarrow> int \<Rightarrow> string \<Rightarrow> string \<Rightarrow> Reply" where
  "writeError w status code text = writeJSON status [] (enc_error w code text)"

definition writeUnavailable :: "wire_codec \<Rightarrow> Handler \<Rightarrow> Reply" where
  "writeUnavailable w h =
     writeJSON 503 (if h_retryAfter h > 0 then FormatInt (round_seconds (h_retryAfter h)) else [])
       (enc_wire w \<lparr>wr_Accepted = [], wr_Rejected = [], wr_RetryAfterMS = Milliseconds (h_retryAfter h)\<rparr>)"

section \<open>The caller\<close>

definition bearerToken :: "Request \<Rightarrow> string" where
  "bearerToken r =
     (let hd = rq_Authorization r; scheme = ''bearer ''
      in if length hd < length scheme \<or> ToLower (take (length scheme) hd) \<noteq> scheme then []
         else TrimSpace (drop (length scheme) hd))"

definition normalizeEmail :: "string \<Rightarrow> string" where
  "normalizeEmail s = ToLower (TrimSpace s)"

definition identify :: "'s ingest_env \<Rightarrow> Handler \<Rightarrow> Request \<Rightarrow> Reply + Caller" where
  "identify e h r =
     (let token = bearerToken r
      in if token = [] then Inl (writeError (ie_wire e) 401 ''unauthenticated'' ''device token required'')
         else case ie_verify e token of
                Inl Unauthenticated \<Rightarrow> Inl (writeError (ie_wire e) 401 ''unauthenticated'' ''device token rejected'')
              | Inl VerifyFailed \<Rightarrow> Inl (writeUnavailable (ie_wire e) h)
              | Inr ca0 \<Rightarrow>
                  let ca = ca0\<lparr>ca_Email := normalizeEmail (ca_Email ca0)\<rparr>
                  in if ca_Email ca = [] then Inl (writeError (ie_wire e) 401 ''unauthenticated'' ''device token rejected'')
                     else Inr ca)"

definition in_class :: "char set \<Rightarrow> nat \<Rightarrow> string \<Rightarrow> bool" where
  "in_class cs n s \<longleftrightarrow> s \<noteq> [] \<and> length s \<le> n \<and> set s \<subseteq> cs"

definition alnum :: "char set" where
  "alnum = set ''0123456789ABCDEFGHIJKLMNOPQRSTUVWXYZabcdefghijklmnopqrstuvwxyz''"

text \<open>\<open>AgentBuildShape\<close> and \<open>IDShape\<close> as what they match.\<close>

definition agentBuildShape :: "string \<Rightarrow> bool" where
  "agentBuildShape v = in_class (alnum \<union> set ''._-'') 40 v"

definition idShape :: "string \<Rightarrow> bool" where
  "idShape v = in_class (alnum \<union> set ''._:-'') 64 v"

definition AgentBuild :: "string \<Rightarrow> string" where
  "AgentBuild ua =
     (if \<not> HasPrefix ua ''loop-sessions/'' then []
      else let v = fst (Cut (drop (length ''loop-sessions/'') ua) '' '')
           in if agentBuildShape v then v else [])"

definition LogID :: "string \<Rightarrow> string" where
  "LogID i = (if i = [] \<or> idShape i then i else ''other'')"

section \<open>Reading a batch\<close>

datatype body_error = TooLarge | BadBody

text \<open>
  \<open>http.MaxBytesReader\<close> gives the first \<open>hardBodyLimit\<close> bytes and then fails; the items come with
  the bytes read and whether those are over the advertised cap.
\<close>

definition decodeBatch :: "wire_codec \<Rightarrow> Handler \<Rightarrow> string \<Rightarrow> body_error + item list \<times> nat \<times> bool" where
  "decodeBatch w h body =
     (case dec_items w (take (nat (h_hardBodyLimit h)) body) of
        Decoded its n \<Rightarrow> Inr (its, n, int n > h_maxBatchBytes h)
      | NeedMore \<Rightarrow> Inl (if int (length body) > h_hardBodyLimit h then TooLarge else BadBody)
      | Malformed n \<Rightarrow> Inl BadBody)"

definition writeBodyFailure :: "wire_codec \<Rightarrow> body_error \<Rightarrow> Reply" where
  "writeBodyFailure w err =
     (case err of
        TooLarge \<Rightarrow> writeError w 413 ''body_too_large'' ''request body exceeds the hard limit''
      | BadBody \<Rightarrow> writeError w 400 ''invalid_request'' ''malformed request body'')"

section \<open>The second scrub pass\<close>

definition ServerCaughtPrefix :: string where "ServerCaughtPrefix = ''server:''"

text \<open>U+FFFD in UTF-8.\<close>

definition replacement_rune :: string where
  "replacement_rune = [CHR 0xEF, CHR 0xBF, CHR 0xBD]"

definition scrub_string :: "(string \<Rightarrow> string \<times> tally_map) \<Rightarrow> string \<Rightarrow> tally_map \<times> bool \<Rightarrow> string \<times> tally_map \<times> bool" where
  "scrub_string scr t st =
     (case scr t of (clean, hits) \<Rightarrow>
        let counts = bump_all (\<lambda>k. k) hits (fst st)
        in if CHR 0x00 \<in> set clean then (ReplaceChar (CHR 0x00) replacement_rune clean, counts, True)
           else (clean, counts, snd st))"

function (sequential) scrubValue :: "(string \<Rightarrow> string \<times> tally_map) \<Rightarrow> json \<Rightarrow> tally_map \<times> bool \<Rightarrow> json \<times> tally_map \<times> bool"
  and scrubArray :: "(string \<Rightarrow> string \<times> tally_map) \<Rightarrow> json list \<Rightarrow> tally_map \<times> bool \<Rightarrow> json list \<times> tally_map \<times> bool"
  and scrubFields :: "(string \<Rightarrow> string \<times> tally_map) \<Rightarrow> (string \<times> json) list \<Rightarrow> tally_map \<times> bool \<Rightarrow> (string \<times> json) list \<times> tally_map \<times> bool" where
  "scrubValue scr (JString t) st = (case scrub_string scr t st of (clean, st1) \<Rightarrow> (JString clean, st1))"
| "scrubValue scr (JArray vs) st = (case scrubArray scr vs st of (vs1, st1) \<Rightarrow> (JArray vs1, st1))"
| "scrubValue scr (JObject fs) st = (case scrubFields scr fs st of (fs1, st1) \<Rightarrow> (JObject fs1, st1))"
| "scrubValue scr JNull st = (JNull, st)"
| "scrubValue scr (JBool b) st = (JBool b, st)"
| "scrubValue scr (JNumber n) st = (JNumber n, st)"
| "scrubArray scr [] st = ([], st)"
| "scrubArray scr (v # vs) st =
     (case scrubValue scr v st of (v1, st1) \<Rightarrow> case scrubArray scr vs st1 of (vs1, st2) \<Rightarrow> (v1 # vs1, st2))"
| "scrubFields scr [] st = ([], st)"
| "scrubFields scr ((k, v) # fs) st =
     (case scrubValue scr v st of (v1, st1) \<Rightarrow> case scrubFields scr fs st1 of (fs1, st2) \<Rightarrow> ((k, v1) # fs1, st2))"
  by pat_completeness auto

termination
  by (relation "measure (\<lambda>x. case x of Inl (_, v, _) \<Rightarrow> size v | Inr (Inl (_, vs, _)) \<Rightarrow> size_list size vs
    | Inr (Inr (_, fs, _)) \<Rightarrow> size_list (size_prod (\<lambda>_. 0) size) fs)") auto

definition mergeCounts :: "tally_map \<Rightarrow> tally_map \<Rightarrow> string \<Rightarrow> tally_map" where
  "mergeCounts into add pre = bump_all (\<lambda>k. pre @ k) add into"

datatype rescan_error = ReRead | ReEncode | ReReadScrubbed

definition rescan :: "codec \<Rightarrow> (string \<Rightarrow> string \<times> tally_map) \<Rightarrow> Event \<Rightarrow> string \<Rightarrow> rescan_error + Event \<times> string" where
  "rescan c scr ev body =
     (case dec_number c body of
        None \<Rightarrow> Inl ReRead
      | Some doc0 \<Rightarrow>
          case scrubValue scr doc0 ([], False) of (doc, counts, rewritten) \<Rightarrow>
            if counts = [] \<and> \<not> rewritten then Inr (ev, body)
            else case enc_any c doc of
                   None \<Rightarrow> Inl ReEncode
                 | Some clean \<Rightarrow>
                     (case dec_event c clean of
                        None \<Rightarrow> Inl ReReadScrubbed
                      | Some scrubbed \<Rightarrow>
                          Inr (scrubbed\<lparr>ev_Redactions := mergeCounts (ev_Redactions scrubbed) counts ServerCaughtPrefix\<rparr>, clean)))"

section \<open>Judging the items\<close>

record verdict =
  v_itemID :: string
  v_eventID :: string
  v_reason :: string
  v_eventType :: event_type

definition no_type :: event_type where "no_type = OtherType []"

text \<open>The event, the body and the reason of a permanent refusal.\<close>

definition decodeItem :: "codec \<Rightarrow> item \<Rightarrow> Event \<times> string \<times> string" where
  "decodeItem c it =
     (let body = TrimSpace (payload it)
      in if body = [] \<or> body = ''null'' then (zero_Event, [], ReasonBadPayload)
         else case dec_event c body of
                None \<Rightarrow> (zero_Event, [], ReasonBadPayload)
              | Some ev \<Rightarrow>
                  if Validate ev \<noteq> [] then (zero_Event\<lparr>ev_Type := ev_Type ev\<rparr>, [], ReasonInvalid)
                  else (ev, body, []))"

definition prepare_item :: "'s ingest_env \<Rightarrow> Handler \<Rightarrow> Caller \<Rightarrow> bool \<Rightarrow> item \<Rightarrow> verdict \<times> Record option" where
  "prepare_item e h ca overCap it =
     (if overCap then (\<lparr>v_itemID = item_id it, v_eventID = [], v_reason = ReasonBatchTooBig, v_eventType = no_type\<rparr>, None)
      else if item_id it = [] then (\<lparr>v_itemID = [], v_eventID = [], v_reason = ReasonNoID, v_eventType = no_type\<rparr>, None)
      else if session_id it = []
      then (\<lparr>v_itemID = item_id it, v_eventID = [], v_reason = ReasonNoSessionID, v_eventType = no_type\<rparr>, None)
      else case decodeItem (ie_codec e) it of (ev, body, reason) \<Rightarrow>
        if reason \<noteq> [] then (\<lparr>v_itemID = item_id it, v_eventID = [], v_reason = reason, v_eventType = ev_Type ev\<rparr>, None)
        else case rescan (ie_codec e) (ie_scrub e) ev body of
               Inl err \<Rightarrow> (\<lparr>v_itemID = item_id it, v_eventID = [], v_reason = [], v_eventType = ev_Type ev\<rparr>, None)
             | Inr (ev1, body1) \<Rightarrow>
                 (\<lparr>v_itemID = item_id it, v_eventID = ev_ID ev1, v_reason = [], v_eventType = ev_Type ev1\<rparr>,
                  Some \<lparr>rd_Event = ev1, rd_Email = ca_Email ca, rd_DeviceID = ca_DeviceID ca,
                    rd_Repo = h_repo h (ev_Cwd ev1), rd_Body = body1\<rparr>))"

definition prepare :: "'s ingest_env \<Rightarrow> Handler \<Rightarrow> Caller \<Rightarrow> item list \<Rightarrow> bool \<Rightarrow> verdict list \<times> Record list" where
  "prepare e h ca its overCap =
     (map (\<lambda>it. fst (prepare_item e h ca overCap it)) its,
      List.map_filter (\<lambda>it. snd (prepare_item e h ca overCap it)) its)"

section \<open>The answer\<close>

record batchOutcome =
  bo_accepted :: int
  bo_duplicate :: int
  bo_rejected :: int
  bo_undecided :: int

definition zero_outcome :: batchOutcome where
  "zero_outcome = \<lparr>bo_accepted = 0, bo_duplicate = 0, bo_rejected = 0, bo_undecided = 0\<rparr>"

definition stored_ids :: "Result \<Rightarrow> string set" where
  "stored_ids res = set (rs_Inserted res) \<union> set (rs_Duplicate res)"

text \<open>A map of reasons: of several for one id the last is kept.\<close>

definition refused_reason :: "Result \<Rightarrow> string \<Rightarrow> string option" where
  "refused_reason res i = map_of (rev (map (\<lambda>x. (rx_ID x, rx_Reason x)) (rs_Rejected res))) i"

fun respondLoop :: "Result \<Rightarrow> verdict list \<Rightarrow> string list \<Rightarrow> Wire \<times> batchOutcome \<Rightarrow> Wire \<times> batchOutcome" where
  "respondLoop res [] claimed st = st"
| "respondLoop res (v # vs) claimed (w, bo) =
     (if v_reason v \<noteq> []
      then respondLoop res vs claimed
        (w\<lparr>wr_Rejected := wr_Rejected w @ [\<lparr>wj_ID = v_itemID v, wj_Reason = v_reason v\<rparr>]\<rparr>, bo\<lparr>bo_rejected := bo_rejected bo + 1\<rparr>)
      else if v_eventID v \<in> stored_ids res
      then let w1 = w\<lparr>wr_Accepted := wr_Accepted w @ [v_itemID v]\<rparr>
           in if v_eventID v \<in> set (rs_Inserted res) \<and> v_eventID v \<notin> set claimed
              then respondLoop res vs (v_eventID v # claimed) (w1, bo\<lparr>bo_accepted := bo_accepted bo + 1\<rparr>)
              else respondLoop res vs claimed (w1, bo\<lparr>bo_duplicate := bo_duplicate bo + 1\<rparr>)
      else case refused_reason res (v_eventID v) of
             Some reason \<Rightarrow> respondLoop res vs claimed
               (w\<lparr>wr_Rejected := wr_Rejected w @ [\<lparr>wj_ID = v_itemID v, wj_Reason = reason\<rparr>]\<rparr>, bo\<lparr>bo_rejected := bo_rejected bo + 1\<rparr>)
           | None \<Rightarrow> respondLoop res vs claimed (w, bo\<lparr>bo_undecided := bo_undecided bo + 1\<rparr>))"

definition respond :: "verdict list \<Rightarrow> Result \<Rightarrow> Wire \<times> batchOutcome" where
  "respond vs res = respondLoop res vs [] (\<lparr>wr_Accepted = [], wr_Rejected = [], wr_RetryAfterMS = 0\<rparr>, zero_outcome)"

section \<open>The endpoint\<close>

text \<open>\<open>version\<close> is the client build the request context carries.\<close>

definition handleEvents :: "'s ingest_env \<Rightarrow> Handler \<Rightarrow> string \<Rightarrow> Request \<Rightarrow> 's \<Rightarrow> Reply \<times> 's" where
  "handleEvents e h version r d =
     (case identify e h r of
        Inl rp \<Rightarrow> (rp, d)
      | Inr ca \<Rightarrow>
          (case decodeBatch (ie_wire e) h (rq_Body r) of
             Inl err \<Rightarrow> (writeBodyFailure (ie_wire e) err, d)
           | Inr (its, n, overCap) \<Rightarrow>
               (case prepare e h ca its overCap of (vs, records) \<Rightarrow>
                  (case (if records = [] then (Some zero_Result, d) else ie_upsert e version records d) of
                     (None, d1) \<Rightarrow> (writeUnavailable (ie_wire e) h, d1)
                   | (Some res, d1) \<Rightarrow> (writeJSON 200 [] (enc_wire (ie_wire e) (fst (respond vs res))), d1)))))"

section \<open>What a log line may carry\<close>

definition healthReportType :: string where "healthReportType = ''health_report''"

text \<open>The constructors other than \<open>OtherType\<close> are the event types of \<open>knownEventTypes\<close>.\<close>

definition logEventType :: "event_type \<Rightarrow> event_type" where
  "logEventType t =
     (case t of
        OtherType s \<Rightarrow> if s = [] \<or> s = healthReportType then t else OtherType ''other''
      | _ \<Rightarrow> t)"

end
