(* ===== verification/Devices.thy ===== *)
theory Devices
  imports Access Ingest
begin

text \<open>
  Enrolled machines and their credentials (\<open>server/store/store.go\<close>, with the verifier of
  \<open>server/app/app.go\<close> and the token's form and digest of \<open>server/auth/device.go\<close>): enrolment with
  the claim to an existing row, retiring the machines of one host name, authentication by token
  hash, and revocation. The SHA-256 digest is the standard library's and a parameter.
\<close>

section \<open>Enrolment\<close>

definition is_hex :: "char \<Rightarrow> bool" where
  "is_hex c \<longleftrightarrow> (let n = of_char c :: nat in
     (48 \<le> n \<and> n \<le> 57) \<or> (97 \<le> n \<and> n \<le> 102) \<or> (65 \<le> n \<and> n \<le> 70))"

definition isUUID :: "string \<Rightarrow> bool" where
  "isUUID s \<longleftrightarrow> length s = 36 \<and>
     list_all (\<lambda>(i, c). if i \<in> {8, 13, 18, 23} then c = CHR ''-'' else is_hex c) (enumerate 0 s)"

definition retire :: "time \<Rightarrow> (Device \<Rightarrow> bool) \<Rightarrow> Device list \<Rightarrow> Device list" where
  "retire t P ds = map (\<lambda>d. if P d \<and> v_RevokedAt d = None then d\<lparr>v_RevokedAt := Some t\<rparr> else d) ds"

definition retire_tokens :: "time \<Rightarrow> string set \<Rightarrow> token_row list \<Rightarrow> token_row list" where
  "retire_tokens t ids ts =
     map (\<lambda>k. if tk_Device k \<in> ids \<and> tk_Revoked k = None then k\<lparr>tk_Revoked := Some t\<rparr> else k) ts"

text \<open>One statement: the machines it retires are those live when it starts.\<close>

definition supersedeHost :: "access_env \<Rightarrow> string \<Rightarrow> string \<Rightarrow> registry \<Rightarrow> unit answer" where
  "supersedeHost e email host r =
     (let hit = (\<lambda>d. v_Email d = email \<and> v_Hostname d = host);
          ids = set (map v_ID (filter (\<lambda>d. hit d \<and> v_RevokedAt d = None) (r_devices r)))
      in attempt e QSupersede
        (Inr ((), r\<lparr>r_devices := retire (ae_now e) hit (r_devices r),
                    r_tokens := retire_tokens (ae_now e) ids (r_tokens r)\<rparr>)))"

text \<open>The row a claim names, when it is live and the same person's.\<close>

definition live_claim :: "string \<Rightarrow> string \<Rightarrow> Device \<Rightarrow> bool" where
  "live_claim i email d \<longleftrightarrow> v_ID d = i \<and> v_Email d = email \<and> v_RevokedAt d = None"

definition claimed_device :: "access_env \<Rightarrow> Device \<Rightarrow> registry \<Rightarrow> access_error + string option" where
  "claimed_device e d r =
     (if \<not> isUUID (v_ID d) then Inr None
      else if \<not> ae_ok e QClaim then Inl (ErrStatement QClaim)
      else case ae_uuid e (v_ID d) of
             None \<Rightarrow> Inl (ErrStatement QClaim)
           | Some i \<Rightarrow> Inr (map_option v_ID (find (live_claim i (v_Email d)) (r_devices r))))"

text \<open>
  \<open>INSERT INTO devices ... SELECT ... FROM principals ... ON CONFLICT (id) DO UPDATE ... WHERE\<close>:
  no row comes back when the principal is absent or off, or when the conflicting row is another
  person's or revoked.
\<close>

definition host_update :: "Device \<Rightarrow> Device \<Rightarrow> Device" where
  "host_update d old = old\<lparr>v_Hostname := (if v_Hostname d = [] then v_Hostname old else v_Hostname d),
     v_OS := (if v_OS d = [] then v_OS old else v_OS d),
     v_Arch := (if v_Arch d = [] then v_Arch old else v_Arch d),
     v_AgentVersion := (if v_AgentVersion d = [] then v_AgentVersion old else v_AgentVersion d)\<rparr>"

definition insert_device :: "access_env \<Rightarrow> string \<Rightarrow> Device \<Rightarrow> registry \<Rightarrow> (time \<times> Device list) option" where
  "insert_device e i d r =
     (if \<not> list_ex (\<lambda>p. p_Email p = v_Email d \<and> p_DisabledAt p = None) (r_principals r) then None
      else case find (\<lambda>x. v_ID x = i) (r_devices r) of
             None \<Rightarrow> Some (ae_now e, r_devices r @ [d\<lparr>v_ID := i, v_EnrolledAt := ae_now e, v_RevokedAt := None\<rparr>])
           | Some old \<Rightarrow>
               (if v_Email old = v_Email d \<and> v_RevokedAt old = None
                then Some (v_EnrolledAt old, map (\<lambda>x. if v_ID x = i then host_update d x else x) (r_devices r))
                else None))"

text \<open>The primary key of \<open>device_tokens\<close>, and its unique index on the hashes of live tokens.\<close>

definition token_fits :: "string \<Rightarrow> string \<Rightarrow> token_row list \<Rightarrow> bool" where
  "token_fits i hash ts \<longleftrightarrow> list_all (\<lambda>k. tk_ID k \<noteq> i \<and> \<not> (tk_Hash k = hash \<and> tk_Revoked k = None)) ts"

text \<open>The id of the row to write: the one claimed, or a new one in place of the host's others.\<close>

definition place_device :: "access_env \<Rightarrow> Device \<Rightarrow> string option \<Rightarrow> registry \<Rightarrow> string answer" where
  "place_device e d claim r =
     (case claim of
        Some i \<Rightarrow> Inr (i, r)
      | None \<Rightarrow>
          (if v_Hostname d = [] then Inr (ae_id e, r)
           else case supersedeHost e (v_Email d) (v_Hostname d) r of
                  Inl bad \<Rightarrow> Inl bad
                | Inr (_, r1) \<Rightarrow> Inr (ae_id e, r1)))"

definition EnrollDevice :: "access_env \<Rightarrow> Device \<Rightarrow> string \<Rightarrow> time \<Rightarrow> registry \<Rightarrow> Device answer" where
  "EnrollDevice e d hash expiresAt r =
     (if v_Email d = [] \<or> hash = [] then Inl ErrInvalid
      else attempt e QBegin
        (case claimed_device e d r of
           Inl bad \<Rightarrow> Inl bad
         | Inr claim \<Rightarrow>
             (case place_device e d claim r of
                Inl bad \<Rightarrow> Inl bad
              | Inr (i, r1) \<Rightarrow> attempt e QDevice
                  (case insert_device e i d r1 of
                     None \<Rightarrow> Inl ErrNotFound
                   | Some (enrolled, ds) \<Rightarrow>
                       (if \<not> ae_ok e QToken \<or> \<not> token_fits (ae_token_id e) hash (r_tokens r1)
                        then Inl (ErrStatement QToken)
                        else attempt e QCommit
                          (Inr (d\<lparr>v_ID := i, v_EnrolledAt := enrolled\<rparr>,
                                r1\<lparr>r_devices := ds, r_tokens := r_tokens r1 @
                                  [\<lparr>tk_ID = ae_token_id e, tk_Device = i, tk_Hash = hash,
                                    tk_Expires = nullTime expiresAt, tk_Revoked = None,
                                    tk_LastUsed = None\<rparr>]\<rparr>)))))))"

section \<open>Authentication\<close>

record DeviceIdentity =
  di_DeviceID :: string
  di_Email :: string
  di_Role :: Authz.Role

definition usable :: "access_env \<Rightarrow> string \<Rightarrow> token_row \<Rightarrow> bool" where
  "usable e hash k \<longleftrightarrow> tk_Hash k = hash \<and> tk_Revoked k = None \<and> unexpired (ae_now e) (tk_Expires k)"

definition live_device :: "string \<Rightarrow> Device \<Rightarrow> bool" where
  "live_device i d \<longleftrightarrow> v_ID d = i \<and> v_RevokedAt d = None"

definition live_principal :: "string \<Rightarrow> Principal \<Rightarrow> bool" where
  "live_principal email p \<longleftrightarrow> p_Email p = email \<and> p_DisabledAt p = None"

text \<open>The joins of the query, from the tokens it marks as used to the identity behind the first.\<close>

definition identity_of :: "token_row \<Rightarrow> registry \<Rightarrow> DeviceIdentity option" where
  "identity_of k r =
     (case find (live_device (tk_Device k)) (r_devices r) of
        None \<Rightarrow> None
      | Some d \<Rightarrow> (case find (live_principal (v_Email d)) (r_principals r) of
          None \<Rightarrow> None
        | Some p \<Rightarrow> Some \<lparr>di_DeviceID = v_ID d, di_Email = v_Email d, di_Role = p_Role p\<rparr>))"

text \<open>
  The one statement commits by itself: a usable token is marked used even when the joins then
  find nothing.
\<close>

definition AuthenticateDevice :: "access_env \<Rightarrow> string \<Rightarrow> registry \<Rightarrow> (access_error + DeviceIdentity) \<times> registry" where
  "AuthenticateDevice e hash r =
     (if \<not> ae_ok e QUsed then (Inl (ErrStatement QUsed), r)
      else ((case List.map_filter (\<lambda>k. if usable e hash k then identity_of k r else None) (r_tokens r) of
               [] \<Rightarrow> Inl ErrNotFound
             | found # _ \<Rightarrow> Inr found),
            r\<lparr>r_tokens := map (\<lambda>k. if usable e hash k then k\<lparr>tk_LastUsed := Some (ae_now e)\<rparr> else k) (r_tokens r)\<rparr>))"

section \<open>Revocation\<close>

definition RevokeDevice :: "access_env \<Rightarrow> Viewer \<Rightarrow> string \<Rightarrow> registry \<Rightarrow> unit answer" where
  "RevokeDevice e v deviceID r =
     attempt e QBegin
       (case ae_uuid e deviceID of
          None \<Rightarrow> Inl (ErrStatement QRevoke)
        | Some i \<Rightarrow>
            (let mine = (\<lambda>d. v_ID d = i \<and> (v_Email d = Email v \<or> IsAdmin v)) in
             attempt e QRevoke
               (if \<not> list_ex (\<lambda>d. mine d \<and> v_RevokedAt d = None) (r_devices r) then Inl ErrNotFound
                else attempt e QRevokeTokens (attempt e QCommit
                  (Inr ((), r\<lparr>r_devices := retire (ae_now e) mine (r_devices r),
                              r_tokens := retire_tokens (ae_now e) {i} (r_tokens r)\<rparr>))))))"

section \<open>The upload endpoint's verifier\<close>

text \<open>\<open>auth.TokenPrefix\<close>, and \<open>storeDevices.Verify\<close> over a digest.\<close>

definition TokenPrefix :: string where "TokenPrefix = ''lsd_''"

definition storeDevices_Verify :: "access_env \<Rightarrow> (string \<Rightarrow> string) \<Rightarrow> string \<Rightarrow> registry
    \<Rightarrow> (verify_error + Caller) \<times> registry" where
  "storeDevices_Verify e digest presented0 r =
     (let presented = TrimSpace presented0 in
      if presented = [] \<or> \<not> Sublist.prefix TokenPrefix presented then (Inl Unauthenticated, r)
      else case AuthenticateDevice e (digest presented) r of
             (Inl bad, r') \<Rightarrow> (Inl (if bad = ErrNotFound then Unauthenticated else VerifyFailed), r')
           | (Inr who, r') \<Rightarrow> (Inr \<lparr>ca_Email = di_Email who, ca_DeviceID = di_DeviceID who\<rparr>, r'))"

end
