(* ===== verification/DeviceProps.thy ===== *)
theory DeviceProps
  imports Devices
begin

text \<open>
  Devices and tokens under the operations of the store: the keys of the tables, what an operation
  may do to the machines, and who a token speaks for.
\<close>

section \<open>Keys\<close>

definition live_hashes :: "token_row list \<Rightarrow> string list" where
  "live_hashes ts = map tk_Hash (filter (\<lambda>k. tk_Revoked k = None) ts)"

definition device_keys :: "registry \<Rightarrow> bool" where
  "device_keys r \<longleftrightarrow> distinct (map v_ID (r_devices r)) \<and> distinct (live_hashes (r_tokens r)) \<and>
     (\<forall>k\<in>set (r_tokens r). tk_Device k \<in> v_ID ` set (r_devices r))"

text \<open>A machine whose every row is revoked; having a row, its id is never drawn again for another.\<close>

definition retired :: "string \<Rightarrow> registry \<Rightarrow> bool" where
  "retired i r \<longleftrightarrow> i \<in> v_ID ` set (r_devices r) \<and> (\<forall>d\<in>set (r_devices r). v_ID d = i \<longrightarrow> v_RevokedAt d \<noteq> None)"

text \<open>What every operation keeps: the keys, and the retirement of what is retired.\<close>

definition devices_kept :: "registry \<Rightarrow> registry \<Rightarrow> bool" where
  "devices_kept r r' \<longleftrightarrow> (device_keys r \<longrightarrow> device_keys r') \<and> (\<forall>i. retired i r \<longrightarrow> retired i r')"

lemma devices_kept_refl [simp]: "devices_kept r r"
  by (simp add: devices_kept_def)

lemma devices_kept_trans: "devices_kept r r' \<Longrightarrow> devices_kept r' r'' \<Longrightarrow> devices_kept r r''"
  by (auto simp: devices_kept_def)

lemma devices_kept_same: "r_devices r' = r_devices r \<Longrightarrow> r_tokens r' = r_tokens r \<Longrightarrow> devices_kept r r'"
  by (simp add: devices_kept_def device_keys_def retired_def)

lemma find_hit: "find P xs = Some x \<Longrightarrow> x \<in> set xs \<and> P x"
  by (auto simp: find_Some_iff)

section \<open>Retiring\<close>

lemma retire_ids [simp]: "map v_ID (retire t P ds) = map v_ID ds"
  by (induction ds) (auto simp: retire_def)

lemma retire_id_set [simp]: "v_ID ` set (retire t P ds) = v_ID ` set ds"
  by (metis retire_ids list.set_map)

lemma retire_revoked: "d \<in> set (retire t P ds) \<Longrightarrow>
    \<exists>d0\<in>set ds. v_ID d = v_ID d0 \<and> v_Email d = v_Email d0 \<and>
      (v_RevokedAt d = None \<longrightarrow> d = d0 \<and> \<not> P d0) \<and> (v_RevokedAt d0 \<noteq> None \<longrightarrow> d = d0)"
  by (auto simp: retire_def)

lemma retire_tokens_live: "k \<in> set (retire_tokens t ids ts) \<Longrightarrow>
    \<exists>k0\<in>set ts. tk_Device k = tk_Device k0 \<and> tk_Hash k = tk_Hash k0 \<and>
      (tk_Revoked k = None \<longrightarrow> k = k0 \<and> tk_Device k \<notin> ids)"
  by (auto simp: retire_tokens_def)

lemma retire_tokens_keeps: "k \<in> set ts \<Longrightarrow> tk_Device k \<notin> ids \<Longrightarrow> k \<in> set (retire_tokens t ids ts)"
  by (auto simp: retire_tokens_def image_iff intro!: bexI[of _ k])

lemma live_retire_tokens: "live_hashes (retire_tokens t ids ts) =
    map tk_Hash (filter (\<lambda>k. tk_Revoked k = None \<and> tk_Device k \<notin> ids) ts)"
  by (induction ts) (auto simp: live_hashes_def retire_tokens_def)

lemma distinct_live_retire:
  assumes "distinct (live_hashes ts)" shows "distinct (live_hashes (retire_tokens t ids ts))"
proof -
  have "filter (\<lambda>k. tk_Revoked k = None \<and> tk_Device k \<notin> ids) ts =
      filter (\<lambda>k. tk_Device k \<notin> ids) (filter (\<lambda>k. tk_Revoked k = None) ts)"
    by (simp add: conj_commute)
  moreover have "distinct (map tk_Hash (filter (\<lambda>k. tk_Revoked k = None) ts))"
    using assms by (simp add: live_hashes_def)
  ultimately show ?thesis by (simp only: live_retire_tokens distinct_map_filter)
qed

lemma kept_retire: "devices_kept r (r\<lparr>r_devices := retire t P (r_devices r), r_tokens := retire_tokens t' ids (r_tokens r)\<rparr>)"
  by (auto simp: devices_kept_def device_keys_def retired_def distinct_live_retire
      dest!: retire_tokens_live retire_revoked)

lemma supersedeHost_kept: "supersedeHost e email host r = Inr (u, r') \<Longrightarrow> devices_kept r r'"
  by (auto simp: supersedeHost_def Let_def kept_retire)

section \<open>Enrolment\<close>

lemma host_update_id [simp]: "v_ID (host_update d x) = v_ID x" "v_Email (host_update d x) = v_Email x"
    "v_RevokedAt (host_update d x) = v_RevokedAt x" "v_EnrolledAt (host_update d x) = v_EnrolledAt x"
  by (simp_all add: host_update_def)

text \<open>The row an insertion leaves: a new one, or an update of the same person's live one.\<close>

lemma insert_device_Some:
  assumes "insert_device e i d r = Some (t, ds)"
  shows "\<exists>p\<in>set (r_principals r). p_Email p = v_Email d \<and> p_DisabledAt p = None"
    and "(\<exists>x. i \<notin> v_ID ` set (r_devices r) \<and> ds = r_devices r @ [x] \<and> v_ID x = i \<and> v_Email x = v_Email d \<and>
           v_RevokedAt x = None) \<or>
         (\<exists>x\<in>set (r_devices r). v_ID x = i \<and> v_Email x = v_Email d \<and> v_RevokedAt x = None \<and>
           ds = map (\<lambda>x. if v_ID x = i then host_update d x else x) (r_devices r))"
  using assms by (auto simp: insert_device_def list_ex_iff find_None_iff find_Some_iff image_iff
      split: if_splits option.splits)

lemma insert_device_kept:
  assumes "insert_device e i d r = Some (t, ds)"
  shows "(distinct (map v_ID (r_devices r)) \<longrightarrow> distinct (map v_ID ds)) \<and>
    v_ID ` set ds = insert i (v_ID ` set (r_devices r)) \<and>
    (\<forall>j. retired j r \<longrightarrow> retired j (r\<lparr>r_devices := ds\<rparr>)) \<and>
    (\<exists>x\<in>set ds. v_ID x = i \<and> v_Email x = v_Email d \<and> v_RevokedAt x = None)"
  using insert_device_Some(2)[OF assms]
proof (elim disjE exE bexE conjE)
  fix x assume "i \<notin> v_ID ` set (r_devices r)" "ds = r_devices r @ [x]" "v_ID x = i" "v_Email x = v_Email d"
    "v_RevokedAt x = None"
  then show ?thesis by (auto simp: retired_def)
next
  fix x assume x: "x \<in> set (r_devices r)" "v_ID x = i" "v_Email x = v_Email d" "v_RevokedAt x = None"
    and ds: "ds = map (\<lambda>x. if v_ID x = i then host_update d x else x) (r_devices r)"
  have ids: "map v_ID ds = map v_ID (r_devices r)" by (auto simp: ds)
  then have "v_ID ` set ds = v_ID ` set (r_devices r)" by (metis list.set_map)
  moreover have "host_update d x \<in> set ds" using x by (force simp: ds)
  ultimately show ?thesis using x ids by (auto simp: retired_def ds simp del: map_map split: if_splits intro!: bexI[of _ "host_update d x"])
qed

text \<open>The three parts of an enrolment that succeeded.\<close>

lemma EnrollDevice_Inr:
  assumes "EnrollDevice e d hash until r = Inr (dev, r')"
  shows "\<exists>r1 i ds. (r1 = r \<or> v_Hostname d \<noteq> [] \<and> supersedeHost e (v_Email d) (v_Hostname d) r = Inr ((), r1)) \<and>
    (i = ae_id e \<or> (r1 = r \<and> (\<exists>x\<in>set (r_devices r). live_claim i (v_Email d) x))) \<and>
    insert_device e i d r1 = Some (v_EnrolledAt dev, ds) \<and> v_ID dev = i \<and> v_Email dev = v_Email d \<and>
    token_fits (ae_token_id e) hash (r_tokens r1) \<and>
    r' = r1\<lparr>r_devices := ds, r_tokens := r_tokens r1 @
      [\<lparr>tk_ID = ae_token_id e, tk_Device = i, tk_Hash = hash, tk_Expires = nullTime until, tk_Revoked = None,
        tk_LastUsed = None\<rparr>]\<rparr>"
proof -
  obtain claim where claim: "claimed_device e d r = Inr claim"
    using assms by (auto simp: EnrollDevice_def split: if_splits sum.splits)
  obtain i r1 where pick: "place_device e d claim r = Inr (i, r1)"
    using assms claim by (auto simp: EnrollDevice_def split: if_splits sum.splits)
  have "(r1 = r \<or> v_Hostname d \<noteq> [] \<and> supersedeHost e (v_Email d) (v_Hostname d) r = Inr ((), r1)) \<and>
      (i = ae_id e \<or> (r1 = r \<and> (\<exists>x\<in>set (r_devices r). live_claim i (v_Email d) x)))"
    using pick claim
    by (auto simp: place_device_def claimed_device_def live_claim_def dest!: find_hit split: option.splits if_splits sum.splits)
  moreover obtain t ds where "insert_device e i d r1 = Some (t, ds)" "token_fits (ae_token_id e) hash (r_tokens r1)"
    "dev = d\<lparr>v_ID := i, v_EnrolledAt := t\<rparr>" "r' = r1\<lparr>r_devices := ds, r_tokens := r_tokens r1 @
      [\<lparr>tk_ID = ae_token_id e, tk_Device = i, tk_Hash = hash, tk_Expires = nullTime until, tk_Revoked = None,
        tk_LastUsed = None\<rparr>]\<rparr>"
    using assms claim pick by (auto simp: EnrollDevice_def split: if_splits option.splits)
  ultimately show ?thesis by auto
qed

lemma EnrollDevice_kept:
  assumes "EnrollDevice e d hash until r = Inr (dev, r')"
  shows "devices_kept r r'"
proof -
  obtain r1 i ds where r1: "r1 = r \<or> supersedeHost e (v_Email d) (v_Hostname d) r = Inr ((), r1)"
    and ins: "insert_device e i d r1 = Some (v_EnrolledAt dev, ds)"
    and fits: "token_fits (ae_token_id e) hash (r_tokens r1)"
    and r': "r' = r1\<lparr>r_devices := ds, r_tokens := r_tokens r1 @
      [\<lparr>tk_ID = ae_token_id e, tk_Device = i, tk_Hash = hash, tk_Expires = nullTime until, tk_Revoked = None,
        tk_LastUsed = None\<rparr>]\<rparr>"
    using EnrollDevice_Inr[OF assms] by blast
  have "devices_kept r r1" using r1 supersedeHost_kept by auto
  moreover have "devices_kept r1 r'"
    using insert_device_kept[OF ins] fits
    by (auto simp: devices_kept_def device_keys_def r' live_hashes_def token_fits_def list_all_iff retired_def)
  ultimately show ?thesis by (rule devices_kept_trans)
qed

section \<open>Authentication and revocation\<close>

lemma AuthenticateDevice_kept: "devices_kept r (snd (AuthenticateDevice e hash r))"
proof -
  have "live_hashes (map (\<lambda>k. if usable e hash k then k\<lparr>tk_LastUsed := x\<rparr> else k) ts) = live_hashes ts" for ts x
    by (induction ts) (auto simp: live_hashes_def)
  then show ?thesis by (auto simp: AuthenticateDevice_def devices_kept_def device_keys_def retired_def)
qed

lemma RevokeDevice_kept: "RevokeDevice e v i r = Inr (u, r') \<Longrightarrow> devices_kept r r'"
  by (auto simp: RevokeDevice_def Let_def kept_retire split: option.splits if_splits)

lemma identity_of_Some:
  "identity_of k r = Some who \<Longrightarrow> \<exists>d\<in>set (r_devices r). v_ID d = tk_Device k \<and> v_RevokedAt d = None \<and>
     di_DeviceID who = v_ID d \<and> di_Email who = v_Email d \<and>
     (\<exists>p\<in>set (r_principals r). p_Email p = v_Email d \<and> p_DisabledAt p = None \<and> di_Role who = p_Role p)"
  by (force simp: identity_of_def live_device_def live_principal_def dest: find_hit split: option.splits)

lemma in_map_filter: "x \<in> set (List.map_filter f xs) \<longleftrightarrow> (\<exists>y\<in>set xs. f y = Some x)"
  by (induction xs) (auto simp: List.map_filter_simps split: option.splits)

lemma AuthenticateDevice_Inr:
  "fst (AuthenticateDevice e hash r) = Inr who \<Longrightarrow>
     ae_ok e QUsed \<and> (\<exists>k\<in>set (r_tokens r). usable e hash k \<and> identity_of k r = Some who)"
  using in_map_filter[of who "\<lambda>k. if usable e hash k then identity_of k r else None" "r_tokens r"]
  by (auto simp: AuthenticateDevice_def split: if_splits list.splits)

lemma retired_not_identity: "retired i r \<Longrightarrow> identity_of k r = Some who \<Longrightarrow> di_DeviceID who \<noteq> i"
  using identity_of_Some[of k r who] by (auto simp: retired_def)

lemma RevokeDevice_retires:
  assumes "RevokeDevice e v deviceID r = Inr (u, r')" "distinct (map v_ID (r_devices r))"
  shows "\<exists>i. ae_uuid e deviceID = Some i \<and> retired i r' \<and>
    (\<exists>d\<in>set (r_devices r). v_ID d = i \<and> (v_Email d = Email v \<or> IsAdmin v)) \<and>
    (\<forall>k\<in>set (r_tokens r'). tk_Device k = i \<longrightarrow> tk_Revoked k \<noteq> None)"
proof -
  obtain i d where i: "ae_uuid e deviceID = Some i" and d: "d \<in> set (r_devices r)" "v_ID d = i"
      "v_Email d = Email v \<or> IsAdmin v" "v_RevokedAt d = None"
    and r': "r' = r\<lparr>r_devices := retire (ae_now e) (\<lambda>d. v_ID d = i \<and> (v_Email d = Email v \<or> IsAdmin v)) (r_devices r),
      r_tokens := retire_tokens (ae_now e) {i} (r_tokens r)\<rparr>"
    using assms(1) by (auto simp: RevokeDevice_def Let_def list_ex_iff split: option.splits if_splits)
  have only: "x = d" if "x \<in> set (r_devices r)" "v_ID x = i" for x
    using assms(2) that d(1,2) by (metis distinct_map inj_onD)
  have "v_RevokedAt x \<noteq> None" if x: "x \<in> set (r_devices r')" "v_ID x = i" for x
  proof
    assume live: "v_RevokedAt x = None"
    obtain x0 where "x0 \<in> set (r_devices r)" "x = x0" "\<not> (v_ID x0 = i \<and> (v_Email x0 = Email v \<or> IsAdmin v))"
      using x(1) live by (auto simp: r' dest!: retire_revoked)
    then show False using only[of x0] x(2) d(3) by blast
  qed
  moreover have "i \<in> v_ID ` set (r_devices r')" using d(1,2) by (auto simp: r')
  ultimately have "retired i r'" unfolding retired_def by blast
  moreover have "\<forall>k\<in>set (r_tokens r'). tk_Device k = i \<longrightarrow> tk_Revoked k \<noteq> None"
    by (auto simp: r' dest!: retire_tokens_live)
  ultimately show ?thesis using i d by blast
qed

text \<open>Under the keys, a row that fits is the row the query finds.\<close>

lemma find_unique:
  assumes "x \<in> set xs" "P x" "\<And>y. y \<in> set xs \<Longrightarrow> P y \<Longrightarrow> y = x"
  shows "find P xs = Some x"
proof (cases "find P xs")
  case None
  then show ?thesis using assms(1,2) by (simp add: find_None_iff)
next
  case (Some y)
  then show ?thesis using assms(3) find_hit by metis
qed

lemma distinct_map_eq: "distinct (map f xs) \<Longrightarrow> x \<in> set xs \<Longrightarrow> y \<in> set xs \<Longrightarrow> f x = f y \<Longrightarrow> x = y"
  by (metis distinct_map inj_onD)

lemma identity_found:
  assumes "distinct (map v_ID (r_devices r))" "distinct (map p_Email (r_principals r))"
    and "d \<in> set (r_devices r)" "v_ID d = tk_Device k" "v_RevokedAt d = None"
    and "p \<in> set (r_principals r)" "p_Email p = v_Email d" "p_DisabledAt p = None"
  shows "identity_of k r = Some \<lparr>di_DeviceID = v_ID d, di_Email = v_Email d, di_Role = p_Role p\<rparr>"
proof -
  have "find (live_device (tk_Device k)) (r_devices r) = Some d"
  proof (rule find_unique[OF assms(3)])
    show "live_device (tk_Device k) d" using assms(4,5) by (simp add: live_device_def)
    show "y = d" if "y \<in> set (r_devices r)" "live_device (tk_Device k) y" for y
      using distinct_map_eq[OF assms(1) that(1) assms(3)] that(2) assms(4) by (simp add: live_device_def)
  qed
  moreover have "find (live_principal (v_Email d)) (r_principals r) = Some p"
  proof (rule find_unique[OF assms(6)])
    show "live_principal (v_Email d) p" using assms(7,8) by (simp add: live_principal_def)
    show "y = p" if "y \<in> set (r_principals r)" "live_principal (v_Email d) y" for y
      using distinct_map_eq[OF assms(2) that(1) assms(6)] that(2) assms(7) by (simp add: live_principal_def)
  qed
  ultimately show ?thesis by (simp add: identity_of_def)
qed

lemma live_token_unique:
  assumes "distinct (live_hashes ts)" "j \<in> set ts" "k \<in> set ts" "tk_Revoked j = None" "tk_Revoked k = None"
    "tk_Hash j = tk_Hash k"
  shows "j = k"
  using assms distinct_map_eq[OF assms(1)[unfolded live_hashes_def], of j k] by simp

lemma AuthenticateDevice_found:
  assumes "distinct (live_hashes (r_tokens r))" "ae_ok e QUsed" "k \<in> set (r_tokens r)" "usable e hash k"
    and "identity_of k r = Some who"
  shows "fst (AuthenticateDevice e hash r) = Inr who"
proof -
  let ?xs = "List.map_filter (\<lambda>k. if usable e hash k then identity_of k r else None) (r_tokens r)"
  have "j = k" if "j \<in> set (r_tokens r)" "usable e hash j" for j
    using live_token_unique[OF assms(1) that(1) assms(3)] that(2) assms(4) by (simp add: usable_def)
  then have all: "y = who" if "y \<in> set ?xs" for y
    using that assms(5) by (auto simp: in_map_filter split: if_splits)
  have "who \<in> set ?xs" using assms(3-5) by (auto simp: in_map_filter)
  then obtain y ys where "?xs = y # ys" by (cases ?xs) auto
  then show ?thesis using all[of y] assms(2) by (simp add: AuthenticateDevice_def)
qed

end
