(* ===== verification/Shares.thy ===== *)
theory Shares
  imports Access
begin

text \<open>
  Reading somebody's session through the store (\<open>server/store/store.go\<close>): the predicate every read
  of a session carries, the audit row of a read, the audited reads of a session and of its events
  in both orders, the grants on a session, and the log itself. The JSON columns of a session and
  the body of an event are read as they are stored.
\<close>

section \<open>Who may read\<close>

definition live_share :: "time \<Rightarrow> string \<Rightarrow> Share \<Rightarrow> bool" where
  "live_share t viewer sh \<longleftrightarrow>
     sh_RevokedAt sh = None \<and> unexpired t (sh_ExpiresAt sh) \<and> (sh_Grantee sh = [] \<or> sh_Grantee sh = viewer)"

text \<open>\<open>canRead\<close>, the predicate as it stands in a WHERE clause.\<close>

definition canRead :: "time \<Rightarrow> Viewer \<Rightarrow> Share list \<Rightarrow> session_row \<Rightarrow> bool" where
  "canRead t v shares s \<longleftrightarrow>
     IsAdmin v \<or> sr_email s = Email v \<or>
     list_ex (\<lambda>sh. sh_SessionID sh = sr_id s \<and> live_share t (Email v) sh) shares"

definition AccessViaOwn :: string where "AccessViaOwn = ''own''"
definition AccessViaAdmin :: string where "AccessViaAdmin = ''admin''"
definition AccessViaShare :: string where "AccessViaShare = ''share''"

definition viaFor :: "Viewer \<Rightarrow> string \<Rightarrow> string" where
  "viaFor v whose =
     (if whose = Email v then AccessViaOwn else if IsAdmin v then AccessViaAdmin else AccessViaShare)"

section \<open>The audit\<close>

text \<open>What a reader passes to \<open>recordAccess\<close>; the row's id and time are the table's defaults.\<close>

record access =
  x_Viewer :: string
  x_SessionID :: string
  x_Owner :: string
  x_Via :: string

fun log_rows :: "time \<Rightarrow> int \<Rightarrow> access list \<Rightarrow> Access list" where
  "log_rows t n [] = []"
| "log_rows t n (x # xs) =
     \<lparr>a_ID = n, a_Viewer = x_Viewer x, a_SessionID = x_SessionID x, a_Owner = x_Owner x, a_Via = x_Via x,
      a_At = t\<rparr> # log_rows t (n + 1) xs"

definition recordAccess :: "access_env \<Rightarrow> access list \<Rightarrow> registry \<Rightarrow> unit answer" where
  "recordAccess e xs r =
     (let kept = filter (\<lambda>x. \<not> (x_Via x = AccessViaOwn \<or> x_SessionID x = [])) xs in
      if kept = [] then Inr ((), r)
      else attempt e QAudit
        (Inr ((), r\<lparr>r_log := r_log r @ log_rows (ae_now e) (r_next r) kept,
                    r_next := r_next r + int (length kept)\<rparr>)))"

definition RecordAccess :: "access_env \<Rightarrow> access \<Rightarrow> registry \<Rightarrow> unit answer" where
  "RecordAccess e x r = (if x_Via x = AccessViaOwn then Inr ((), r) else recordAccess e [x] r)"

record AccessLogFilter =
  af_SessionID :: string
  af_Viewer :: string
  af_Owner :: string
  af_Via :: string
  af_Since :: time
  af_Until :: time
  af_Before :: int
  af_Limit :: int

definition log_matches :: "AccessLogFilter \<Rightarrow> Access \<Rightarrow> bool" where
  "log_matches f a \<longleftrightarrow>
     (af_SessionID f = [] \<or> a_SessionID a = af_SessionID f) \<and>
     (af_Viewer f = [] \<or> a_Viewer a = af_Viewer f) \<and>
     (af_Owner f = [] \<or> a_Owner a = af_Owner f) \<and>
     (case nullTime (af_Since f) of None \<Rightarrow> True | Some t \<Rightarrow> t \<le> a_At a) \<and>
     (case nullTime (af_Until f) of None \<Rightarrow> True | Some t \<Rightarrow> a_At a < t) \<and>
     (af_Via f = [] \<or> a_Via a = af_Via f) \<and>
     (af_Before f = 0 \<or> a_ID a < af_Before f)"

definition AccessEvents :: "access_env \<Rightarrow> AccessLogFilter \<Rightarrow> registry \<Rightarrow> access_error + Access list" where
  "AccessEvents e f r =
     (if \<not> ae_ok e QList then Inl (ErrStatement QList)
      else Inr (take (nat (clampLimit (af_Limit f)))
        (sort_by (\<lambda>a b. a_At b < a_At a \<or> a_At a = a_At b \<and> a_ID b < a_ID a)
          (filter (log_matches f) (r_log r)))))"

definition ListAccessLog :: "access_env \<Rightarrow> Viewer \<Rightarrow> AccessLogFilter \<Rightarrow> registry \<Rightarrow> access_error + Access list" where
  "ListAccessLog e v f r = (if \<not> IsAdmin v then Inl ErrNotAdmin else AccessEvents e f r)"

section \<open>Audited reads\<close>

definition authorizeSession :: "access_env \<Rightarrow> Viewer \<Rightarrow> string \<Rightarrow> registry \<Rightarrow> access_error + session_row" where
  "authorizeSession e v i r =
     (if \<not> ae_ok e QSession then Inl (ErrStatement QSession)
      else case find (\<lambda>s. sr_id s = i \<and> canRead (ae_now e) v (r_shares r) s) (t_sessions (r_work r)) of
             None \<Rightarrow> Inl ErrNotFound
           | Some s \<Rightarrow> Inr s)"

definition read_of :: "Viewer \<Rightarrow> session_row \<Rightarrow> access" where
  "read_of v s = \<lparr>x_Viewer = Email v, x_SessionID = sr_id s, x_Owner = sr_email s, x_Via = viaFor v (sr_email s)\<rparr>"

text \<open>
  The steps the audited readers share: begin, authorise, record the access, and read on with the
  session in hand; then commit.
\<close>

definition audited :: "access_env \<Rightarrow> Viewer \<Rightarrow> string \<Rightarrow> (session_row \<Rightarrow> registry \<Rightarrow> access_error + 'a) \<Rightarrow> registry \<Rightarrow> 'a answer" where
  "audited e v i rest r =
     (case authorizeSession e v i r of
        Inl bad \<Rightarrow> Inl bad
      | Inr s \<Rightarrow> (case recordAccess e [read_of v s] r of
          Inl bad \<Rightarrow> Inl bad
        | Inr (_, r') \<Rightarrow> (case rest s r' of
            Inl bad \<Rightarrow> Inl bad
          | Inr x \<Rightarrow> attempt e QCommit (Inr (x, r')))))"

definition GetSession :: "access_env \<Rightarrow> Viewer \<Rightarrow> string \<Rightarrow> registry \<Rightarrow> session_row answer" where
  "GetSession e v i r = attempt e QBegin (audited e v i (\<lambda>s _. Inr s) r)"

record EventRange =
  rg_AfterSeq :: "int option"
  rg_Limit :: int
  rg_IncludeSuperseded :: bool

record EventPage =
  pg_Events :: "event_row list"
  pg_HasMore :: bool
  pg_NextAfter :: "int option"

definition shown :: "bool \<Rightarrow> registry \<Rightarrow> event_row \<Rightarrow> bool" where
  "shown everything r x \<longleftrightarrow> everything \<or> er_id x \<notin> set (r_superseded r)"

text \<open>
  \<open>ORDER BY seq\<close> leaves rows of one number in an order of the server's choosing; here it is the
  order they were inserted in.
\<close>

definition readEvents :: "string \<Rightarrow> int option \<Rightarrow> nat \<Rightarrow> bool \<Rightarrow> registry \<Rightarrow> event_row list" where
  "readEvents i after n everything r =
     take n (sort_by (\<lambda>x y. er_seq x < er_seq y)
       (filter (\<lambda>x. er_session x = i \<and> (case after of None \<Rightarrow> True | Some a \<Rightarrow> a < er_seq x) \<and> shown everything r x)
         (t_events (r_work r))))"

definition GetEvents :: "access_env \<Rightarrow> Viewer \<Rightarrow> string \<Rightarrow> EventRange \<Rightarrow> registry \<Rightarrow> EventPage answer" where
  "GetEvents e v i g r =
     (let limit = nat (clampLimit (rg_Limit g)) in
      attempt e QBegin (audited e v i (\<lambda>s r'.
        if \<not> ae_ok e QEvents then Inl (ErrStatement QEvents)
        else let stored = readEvents i (rg_AfterSeq g) (limit + 1) (rg_IncludeSuperseded g) r'
             in Inr (if length stored > limit
                     then \<lparr>pg_Events = take limit stored, pg_HasMore = True,
                           pg_NextAfter = Some (er_seq (take limit stored ! (limit - 1)))\<rparr>
                     else \<lparr>pg_Events = stored, pg_HasMore = False, pg_NextAfter = None\<rparr>)) r))"

record TimelineCursor =
  tc_At :: time
  tc_Agent :: string
  tc_Seq :: int

record TimelineRange =
  tr_After :: "TimelineCursor option"
  tr_AgentID :: string
  tr_Limit :: int
  tr_IncludeSuperseded :: bool

text \<open>The row comparison \<open>(occurred_at, coalesce(agent_id, ''), seq)\<close> under the collation.\<close>

definition time_key :: "access_env \<Rightarrow> event_row \<Rightarrow> time \<times> string \<times> int" where
  "time_key e x = (er_occurred x, ae_collate e (er_agent x), er_seq x)"

definition cursor_key :: "access_env \<Rightarrow> TimelineCursor \<Rightarrow> time \<times> string \<times> int" where
  "cursor_key e c = (tc_At c, ae_collate e (tc_Agent c), tc_Seq c)"

fun key_less :: "time \<times> string \<times> int \<Rightarrow> time \<times> string \<times> int \<Rightarrow> bool" where
  "key_less (t, a, n) (t', a', n') \<longleftrightarrow> t < t' \<or> t = t' \<and> (a < a' \<or> a = a' \<and> n < n')"

definition readTimeline :: "access_env \<Rightarrow> string \<Rightarrow> TimelineRange \<Rightarrow> nat \<Rightarrow> registry \<Rightarrow> event_row list" where
  "readTimeline e i g n r =
     take n (sort_by (\<lambda>x y. key_less (time_key e x) (time_key e y))
       (filter (\<lambda>x. er_session x = i \<and> (tr_AgentID g = [] \<or> er_agent x = tr_AgentID g) \<and>
                    (case tr_After g of None \<Rightarrow> True | Some c \<Rightarrow> key_less (cursor_key e c) (time_key e x)) \<and>
                    shown (tr_IncludeSuperseded g) r x)
         (t_events (r_work r))))"

definition GetTimeline :: "access_env \<Rightarrow> Viewer \<Rightarrow> string \<Rightarrow> TimelineRange \<Rightarrow> registry \<Rightarrow> EventPage answer" where
  "GetTimeline e v i g r =
     (let limit = nat (clampLimit (tr_Limit g)) in
      attempt e QBegin (audited e v i (\<lambda>s r'.
        if \<not> ae_ok e QEvents then Inl (ErrStatement QEvents)
        else let stored = readTimeline e i g (limit + 1) r'
             in Inr (if length stored > limit
                     then \<lparr>pg_Events = take limit stored, pg_HasMore = True, pg_NextAfter = None\<rparr>
                     else \<lparr>pg_Events = stored, pg_HasMore = False, pg_NextAfter = None\<rparr>)) r))"

section \<open>Grants\<close>

record ShareRequest =
  sq_SessionID :: string
  sq_Grantee :: string
  sq_ExpiresAt :: time

text \<open>The primary key and the unique token of \<open>shares\<close>.\<close>

definition share_fits :: "string \<Rightarrow> string \<Rightarrow> Share list \<Rightarrow> bool" where
  "share_fits i token shares \<longleftrightarrow> list_all (\<lambda>sh. sh_ID sh \<noteq> i \<and> sh_Token sh \<noteq> token) shares"

definition CreateShare :: "access_env \<Rightarrow> Viewer \<Rightarrow> ShareRequest \<Rightarrow> registry \<Rightarrow> Share answer" where
  "CreateShare e v q r =
     attempt e QBegin (attempt e QShareSession
       (case find (\<lambda>s. sr_id s = sq_SessionID q \<and> (sr_email s = Email v \<or> IsAdmin v)) (t_sessions (r_work r)) of
          None \<Rightarrow> Inl ErrNotFound
        | Some s \<Rightarrow>
            (let sh = \<lparr>sh_ID = ae_id e, sh_SessionID = sq_SessionID q, sh_CreatedBy = Email v,
                       sh_Grantee = sq_Grantee q, sh_Token = ae_secret e, sh_CreatedAt = ae_now e,
                       sh_ExpiresAt = nullTime (sq_ExpiresAt q), sh_RevokedAt = None\<rparr>
             in if \<not> ae_ok e QShare \<or> \<not> share_fits (ae_id e) (ae_secret e) (r_shares r)
                then Inl (ErrStatement QShare)
                else case recordAccess e
                       [\<lparr>x_Viewer = Email v, x_SessionID = sq_SessionID q, x_Owner = sr_email s,
                         x_Via = viaFor v (sr_email s)\<rparr>] (r\<lparr>r_shares := r_shares r @ [sh]\<rparr>) of
                       Inl bad \<Rightarrow> Inl bad
                     | Inr (_, r') \<Rightarrow> attempt e QCommit (Inr (sh, r')))))"

definition ResolveShare :: "access_env \<Rightarrow> Viewer \<Rightarrow> string \<Rightarrow> registry \<Rightarrow> (session_row \<times> Share) answer" where
  "ResolveShare e v token r =
     (if token = [] then Inl ErrNotFound
      else attempt e QBegin (attempt e QResolve
        (case find (\<lambda>sh. sh_Token sh = token \<and> live_share (ae_now e) (Email v) sh) (r_shares r) of
           None \<Rightarrow> Inl ErrNotFound
         | Some sh \<Rightarrow> audited e v (sh_SessionID sh)
             (\<lambda>s _. Inr (s, sh\<lparr>sh_Token := [], sh_RevokedAt := None\<rparr>)) r)))"

text \<open>The sessions a share's revocation joins, and whether this viewer may revoke it.\<close>

definition may_revoke :: "Viewer \<Rightarrow> session_row list \<Rightarrow> Share \<Rightarrow> bool" where
  "may_revoke v ss sh \<longleftrightarrow>
     list_ex (\<lambda>s. sr_id s = sh_SessionID sh \<and>
       (sh_CreatedBy sh = Email v \<or> sr_email s = Email v \<or> IsAdmin v)) ss"

definition RevokeShare :: "access_env \<Rightarrow> Viewer \<Rightarrow> string \<Rightarrow> registry \<Rightarrow> unit answer" where
  "RevokeShare e v shareID r =
     (case ae_uuid e shareID of
        None \<Rightarrow> Inl (ErrStatement QRevoke)
      | Some i \<Rightarrow>
          (let hit = (\<lambda>sh. sh_ID sh = i \<and> sh_RevokedAt sh = None \<and> may_revoke v (t_sessions (r_work r)) sh) in
           attempt e QRevoke
             (if \<not> list_ex hit (r_shares r) then Inl ErrNotFound
              else Inr ((), r\<lparr>r_shares :=
                map (\<lambda>sh. if hit sh then sh\<lparr>sh_RevokedAt := Some (ae_now e)\<rparr> else sh) (r_shares r)\<rparr>))))"

definition ListShares :: "access_env \<Rightarrow> Viewer \<Rightarrow> string \<Rightarrow> registry \<Rightarrow> access_error + Share list" where
  "ListShares e v i r =
     (if \<not> ae_ok e QList then Inl (ErrStatement QList)
      else if \<not> list_ex (\<lambda>s. sr_id s = i \<and> (sr_email s = Email v \<or> IsAdmin v)) (t_sessions (r_work r)) then Inr []
      else Inr (sort_by (\<lambda>a b. sh_CreatedAt b < sh_CreatedAt a)
        (filter (\<lambda>sh. sh_SessionID sh = i) (r_shares r))))"

end
