(* ===== verification/Paging.thy ===== *)
theory Paging
  imports Prelude
begin

text \<open>
  Keyset paging, once for every listing that uses it: rows are read in the order of a key, a page
  is the first rows past a position, and the position handed on is the key of the page's last row.
  The \<open>keyset\<close> interface asks for a strict total order on keys; where no two rows share a key,
  following the positions reads every row once and in order.
\<close>

section \<open>Sorting by a total order\<close>

locale keyset =
  fixes lt :: "'k \<Rightarrow> 'k \<Rightarrow> bool" and key :: "'a \<Rightarrow> 'k"
  assumes lt_irrefl: "\<not> lt k k"
    and lt_trans: "lt k k' \<Longrightarrow> lt k' k'' \<Longrightarrow> lt k k''"
    and lt_total: "k \<noteq> k' \<Longrightarrow> lt k k' \<or> lt k' k"
begin

abbreviation before :: "'a \<Rightarrow> 'a \<Rightarrow> bool" where "before x y \<equiv> lt (key x) (key y)"

abbreviation ordered :: "'a list \<Rightarrow> bool" where "ordered \<equiv> sorted_wrt (\<lambda>x y. \<not> before y x)"

lemma weak_trans: "\<not> lt k' k \<Longrightarrow> \<not> lt k'' k' \<Longrightarrow> \<not> lt k'' k"
  by (metis lt_total lt_trans)

lemma asym: "lt k k' \<Longrightarrow> \<not> lt k' k"
  using lt_irrefl lt_trans by blast

lemma ordered_sort: "ordered (sort_by before xs)"
  by (rule sorted_sort_by) (auto dest: asym weak_trans)

lemma ins_front: "\<forall>y\<in>set ys. \<not> before y x \<Longrightarrow> ins_by before x ys = x # ys"
  by (cases ys) auto

lemma filter_ins:
  "ordered ys \<Longrightarrow> filter P (ins_by before x ys) = (if P x then ins_by before x (filter P ys) else filter P ys)"
proof (induction ys)
  case (Cons y ys)
  have "\<forall>z\<in>set (filter P ys). \<not> before z x" if "\<not> before y x"
    using that Cons.prems weak_trans by auto
  then show ?case using Cons by (auto simp: ins_front)
qed simp

lemma filter_sort: "filter P (sort_by before xs) = sort_by before (filter P xs)"
  by (induction xs) (auto simp: filter_ins ordered_sort)

lemma strict_sort:
  assumes "distinct (map key xs)" shows "sorted_wrt before (sort_by before xs)"
proof -
  let ?ys = "sort_by before xs"
  have d: "distinct (map key ?ys)" using assms by (simp add: distinct_map_sort_by)
  have "before (?ys ! i) (?ys ! j)" if "i < j" "j < length ?ys" for i j
  proof -
    have "key (?ys ! i) \<noteq> key (?ys ! j)"
      using d that nth_eq_iff_index_eq[OF d, of i j] by simp
    moreover have "\<not> before (?ys ! j) (?ys ! i)"
      using ordered_sort[of xs] that by (simp add: sorted_wrt_iff_nth_less)
    ultimately show ?thesis using lt_total by blast
  qed
  then show ?thesis by (simp add: sorted_wrt_iff_nth_less)
qed

section \<open>Following the positions\<close>

text \<open>The rows past a position, in order, and the rest after a page of them.\<close>

definition past :: "'k option \<Rightarrow> 'a list \<Rightarrow> 'a list" where
  "past pos xs = sort_by before (filter (\<lambda>x. case pos of None \<Rightarrow> True | Some k \<Rightarrow> lt k (key x)) xs)"

lemma past_filter: "past pos xs = filter (\<lambda>x. case pos of None \<Rightarrow> True | Some k \<Rightarrow> lt k (key x)) (past None xs)"
  by (simp add: past_def filter_sort)

lemma past_further:
  assumes "case pos of None \<Rightarrow> True | Some p \<Rightarrow> lt p k"
  shows "past (Some k) xs = filter (\<lambda>x. lt k (key x)) (past pos xs)"
  using assms
  by (cases pos) (auto simp: past_def filter_sort filter_filter intro!: arg_cong[of _ _ "sort_by before"] filter_cong
      intro: lt_trans)

lemma strict_past: "distinct (map key xs) \<Longrightarrow> sorted_wrt before (past pos xs)"
  unfolding past_def by (rule strict_sort) (simp add: distinct_map inj_on_def)

lemma after_nth:
  assumes "sorted_wrt before ys" "i < length ys"
  shows "filter (\<lambda>x. before (ys ! i) x) ys = drop (Suc i) ys"
proof -
  have ys: "ys = take (Suc i) ys @ drop (Suc i) ys" by simp
  have "\<not> before (ys ! i) x" if "x \<in> set (take (Suc i) ys)" for x
  proof -
    have "x \<in> set (take i ys) \<or> x = ys ! i" using that assms(2) by (auto simp: take_Suc_conv_app_nth)
    then have "x = ys ! i \<or> (\<exists>j. j < i \<and> x = ys ! j)" using assms(2) by (auto simp: in_set_conv_nth)
    then obtain j where j: "j \<le> i" "x = ys ! j" using less_imp_le by blast
    show ?thesis
      using j assms asym[of "key (ys ! j)"] lt_irrefl by (cases "j = i") (auto simp: sorted_wrt_iff_nth_less)
  qed
  moreover have "before (ys ! i) x" if "x \<in> set (drop (Suc i) ys)" for x
    using that assms by (auto simp: in_set_conv_nth sorted_wrt_iff_nth_less)
  ultimately show ?thesis
    by (subst (2) ys) (simp add: filter_empty_conv filter_id_conv del: append_take_drop_id)
qed

text \<open>The next page starts where the last one stopped.\<close>

lemma past_next:
  assumes "distinct (map key xs)" "i < length (past pos xs)"
  shows "past (Some (key (past pos xs ! i))) xs = drop (Suc i) (past pos xs)"
proof -
  let ?ys = "past pos xs" and ?k = "key (past pos xs ! i)"
  have "past pos xs ! i \<in> set (past pos xs)" using assms(2) by simp
  then have k: "case pos of None \<Rightarrow> True | Some k \<Rightarrow> lt k ?k" by (auto simp: past_def split: option.splits)
  have "past (Some ?k) xs = filter (\<lambda>x. lt ?k (key x)) ?ys"
    using k by (rule past_further)
  also have "\<dots> = drop (Suc i) ?ys"
    using assms strict_past after_nth by blast
  finally show ?thesis .
qed

text \<open>
  The reader: a page of \<open>n\<close> rows, then, when more rows remain, on from its last key.
\<close>

fun follow :: "nat \<Rightarrow> nat \<Rightarrow> 'k option \<Rightarrow> 'a list \<Rightarrow> 'a list" where
  "follow 0 n pos xs = []"
| "follow (Suc fuel) n pos xs =
     (let rows = past pos xs in
      if length rows > n then take n rows @ follow fuel n (Some (key (take n rows ! (n - 1)))) xs else rows)"

lemma follow_all:
  assumes "distinct (map key xs)" "0 < n"
  shows "length (past pos xs) < fuel \<Longrightarrow> follow fuel n pos xs = past pos xs"
proof (induction fuel arbitrary: pos)
  case (Suc fuel)
  obtain m where m: "n = Suc m" using assms(2) by (cases n) auto
  show ?case
  proof (cases "length (past pos xs) > n")
    case True
    have step: "past (Some (key (past pos xs ! m))) xs = drop n (past pos xs)"
      using assms(1) True m by (subst past_next) auto
    have "follow fuel n (Some (key (past pos xs ! m))) xs = drop n (past pos xs)"
      using Suc.prems True m by (subst Suc.IH) (auto simp: step)
    then show ?thesis using True m by (simp add: Let_def)
  qed (simp add: Let_def)
qed simp

text \<open>What follows a position lies past it, keys shared or not.\<close>

lemma past_later: "x \<in> set (past (Some k) xs) \<Longrightarrow> lt k (key x)"
  by (simp add: past_def)

lemma follow_later: "0 < n \<Longrightarrow> y \<in> set (follow fuel n (Some k) xs) \<Longrightarrow> lt k (key y)"
proof (induction fuel arbitrary: k)
  case (Suc fuel)
  let ?rows = "past (Some k) xs"
  show ?case
  proof (cases "length ?rows > n \<and> y \<notin> set (take n ?rows)")
    case True
    let ?x = "take n ?rows ! (n - 1)"
    have "y \<in> set (follow fuel n (Some (key ?x)) xs)" using Suc.prems True by (simp add: Let_def)
    then have "lt (key ?x) (key y)" using Suc.IH Suc.prems(1) by blast
    moreover have "?x \<in> set ?rows" using Suc.prems(1) True by (auto intro!: nth_mem)
    ultimately show ?thesis using past_later lt_trans by blast
  next
    case False
    then have "y \<in> set ?rows" using Suc.prems by (auto simp: Let_def dest: in_set_takeD split: if_splits)
    then show ?thesis by (rule past_later)
  qed
qed simp

end

end
