(* ===== verification/Listing.thy ===== *)
theory Listing
  imports Shares Paging
begin

text \<open>
  The list of sessions (\<open>server/store/store.go\<close>: \<open>ListSessions\<close> with its filters and cursor), and
  the readers that follow its cursor, the event pages' \<open>NextAfter\<close> and the timeline's last row. The
  text of a cursor, base64 over JSON, is a pair of functions; what is used of them is that decoding
  an encoded position gives it back.
\<close>

section \<open>The list\<close>

record SessionFilter =
  sf_Query :: string
  sf_Email :: string
  sf_Source :: string
  sf_Repo :: string
  sf_Types :: "string list"
  sf_From :: time
  sf_To :: time
  sf_Limit :: int
  sf_Cursor :: string

record SessionPage =
  sp_Sessions :: "session_row list"
  sp_NextCursor :: string

record cursor_codec =
  cc_encode :: "time \<times> string \<Rightarrow> string"
  cc_decode :: "string \<Rightarrow> (time \<times> string) option"

text \<open>\<open>decodeCursor\<close>: no cursor is no position, and a position must name a session and a time.\<close>

definition decodeCursor :: "cursor_codec \<Rightarrow> string \<Rightarrow> access_error + (time \<times> string) option" where
  "decodeCursor c s =
     (if s = [] then Inr None
      else case cc_decode c s of
             None \<Rightarrow> Inl ErrInvalidCursor
           | Some (t, i) \<Rightarrow> (if i = [] \<or> IsZero t then Inl ErrInvalidCursor else Inr (Some (t, i))))"

definition SessionTypes :: "string list" where
  "SessionTypes = [''user'', ''internal'', ''automation'', ''empty'']"

definition validSessionTypes :: "string list \<Rightarrow> string list option" where
  "validSessionTypes xs = (if xs = [] then None else Some (filter (\<lambda>want. want \<in> set xs) SessionTypes))"

definition sessionTypeDefault :: "session_row \<Rightarrow> bool" where
  "sessionTypeDefault s \<longleftrightarrow>
     \<not> (sr_type s \<in> {''empty'', ''internal''} \<and> sr_head_state s \<noteq> ''capture_loss'')"

definition sessionTypePredicate :: "string list option \<Rightarrow> session_row \<Rightarrow> bool" where
  "sessionTypePredicate types s \<longleftrightarrow>
     (case types of None \<Rightarrow> sessionTypeDefault s | Some ts \<Rightarrow> sr_type s \<in> set ts)"

text \<open>A column that is NULL matches no search.\<close>

definition text_matches :: "access_env \<Rightarrow> string \<Rightarrow> session_row \<Rightarrow> bool" where
  "text_matches e q s \<longleftrightarrow>
     (case sr_first_prompt s of None \<Rightarrow> False | Some x \<Rightarrow> ae_ilike e x q) \<or>
     (sr_repo s \<noteq> [] \<and> ae_ilike e (sr_repo s) q) \<or> (sr_cwd s \<noteq> [] \<and> ae_ilike e (sr_cwd s) q) \<or>
     (sr_branch s \<noteq> [] \<and> ae_ilike e (sr_branch s) q)"

definition filter_matches :: "access_env \<Rightarrow> SessionFilter \<Rightarrow> session_row \<Rightarrow> bool" where
  "filter_matches e f s \<longleftrightarrow>
     (sf_Email f = [] \<or> sr_email s = sf_Email f) \<and> (sf_Source f = [] \<or> sr_source s = sf_Source f) \<and>
     (sf_Repo f = [] \<or> sr_repo s = sf_Repo f) \<and>
     (case nullTime (sf_From f) of None \<Rightarrow> True | Some t \<Rightarrow> t \<le> sr_started s) \<and>
     (case nullTime (sf_To f) of None \<Rightarrow> True | Some t \<Rightarrow> sr_started s < t) \<and>
     (sf_Query f = [] \<or> text_matches e (sf_Query f) s) \<and>
     sessionTypePredicate (validSessionTypes (sf_Types f)) s"

text \<open>\<open>ORDER BY started_at DESC, session_id DESC\<close>, and the same row comparison for the cursor.\<close>

definition list_key :: "access_env \<Rightarrow> session_row \<Rightarrow> time \<times> string" where
  "list_key e s = (sr_started s, ae_collate e (sr_id s))"

fun newer :: "time \<times> string \<Rightarrow> time \<times> string \<Rightarrow> bool" where
  "newer (t, i) (t', i') \<longleftrightarrow> t' < t \<or> t = t' \<and> i' < i"

definition visible :: "access_env \<Rightarrow> Viewer \<Rightarrow> SessionFilter \<Rightarrow> registry \<Rightarrow> session_row list" where
  "visible e v f r =
     filter (\<lambda>s. canRead (ae_now e) v (r_shares r) s \<and> filter_matches e f s) (t_sessions (r_work r))"

definition listed :: "access_env \<Rightarrow> Viewer \<Rightarrow> SessionFilter \<Rightarrow> (time \<times> string) option \<Rightarrow> registry \<Rightarrow> session_row list" where
  "listed e v f pos r =
     sort_by (\<lambda>x y. newer (list_key e x) (list_key e y))
       (filter (\<lambda>s. case pos of None \<Rightarrow> True | Some (t, i) \<Rightarrow> newer (t, ae_collate e i) (list_key e s))
         (visible e v f r))"

definition ListSessions :: "access_env \<Rightarrow> cursor_codec \<Rightarrow> Viewer \<Rightarrow> SessionFilter \<Rightarrow> registry \<Rightarrow> access_error + SessionPage" where
  "ListSessions e c v f r =
     (let limit = nat (clampLimit (sf_Limit f)) in
      case decodeCursor c (sf_Cursor f) of
        Inl bad \<Rightarrow> Inl bad
      | Inr pos \<Rightarrow>
          (if \<not> ae_ok e QList then Inl (ErrStatement QList)
           else let rows = take (limit + 1) (listed e v f pos r)
                in if length rows > limit
                   then let last_row = rows ! (limit - 1)
                        in Inr \<lparr>sp_Sessions = take limit rows,
                                sp_NextCursor = cc_encode c (sr_started last_row, sr_id last_row)\<rparr>
                   else Inr \<lparr>sp_Sessions = rows, sp_NextCursor = []\<rparr>))"

section \<open>Readers that follow a position\<close>

text \<open>Page after page while a cursor comes back.\<close>

fun list_pages :: "nat \<Rightarrow> access_env \<Rightarrow> cursor_codec \<Rightarrow> Viewer \<Rightarrow> SessionFilter \<Rightarrow> registry \<Rightarrow> access_error + session_row list" where
  "list_pages 0 e c v f r = Inr []"
| "list_pages (Suc fuel) e c v f r =
     (case ListSessions e c v f r of
        Inl bad \<Rightarrow> Inl bad
      | Inr page \<Rightarrow>
          (if sp_NextCursor page = [] then Inr (sp_Sessions page)
           else case list_pages fuel e c v (f\<lparr>sf_Cursor := sp_NextCursor page\<rparr>) r of
                  Inl bad \<Rightarrow> Inl bad
                | Inr rest \<Rightarrow> Inr (sp_Sessions page @ rest)))"

fun event_pages :: "nat \<Rightarrow> access_env \<Rightarrow> Viewer \<Rightarrow> string \<Rightarrow> EventRange \<Rightarrow> registry \<Rightarrow> event_row list answer" where
  "event_pages 0 e v i g r = Inr ([], r)"
| "event_pages (Suc fuel) e v i g r =
     (case GetEvents e v i g r of
        Inl bad \<Rightarrow> Inl bad
      | Inr (page, r') \<Rightarrow>
          (case pg_NextAfter page of
             None \<Rightarrow> Inr (pg_Events page, r')
           | Some a \<Rightarrow> (case event_pages fuel e v i (g\<lparr>rg_AfterSeq := Some a\<rparr>) r' of
               Inl bad \<Rightarrow> Inl bad
             | Inr (rest, r'') \<Rightarrow> Inr (pg_Events page @ rest, r''))))"

section \<open>The orders are keyset orders\<close>

interpretation by_seq: keyset "(<) :: int \<Rightarrow> int \<Rightarrow> bool" er_seq
  by unfold_locales auto

interpretation by_time: keyset key_less "time_key e" for e
proof unfold_locales
  fix k k' k'' :: "time \<times> string \<times> int"
  obtain t a n where k: "k = (t, a, n)" by (cases k)
  obtain t' a' n' where k': "k' = (t', a', n')" by (cases k')
  obtain t'' a'' n'' where k'': "k'' = (t'', a'', n'')" by (cases k'')
  show "\<not> key_less k k" by (simp add: k)
  show "key_less k k' \<Longrightarrow> key_less k' k'' \<Longrightarrow> key_less k k''" by (auto simp: k k' k'')
  show "k \<noteq> k' \<Longrightarrow> key_less k k' \<or> key_less k' k" by (auto simp: k k')
qed

interpretation by_age: keyset newer "list_key e" for e
proof unfold_locales
  fix k k' k'' :: "time \<times> string"
  obtain t a where k: "k = (t, a)" by (cases k)
  obtain t' a' where k': "k' = (t', a')" by (cases k')
  obtain t'' a'' where k'': "k'' = (t'', a'')" by (cases k'')
  show "\<not> newer k k" by (simp add: k)
  show "newer k k' \<Longrightarrow> newer k' k'' \<Longrightarrow> newer k k''" by (auto simp: k k' k'')
  show "k \<noteq> k' \<Longrightarrow> newer k k' \<or> newer k' k" by (auto simp: k k')
qed

end
