(* ===== verification/SharesProps.thy ===== *)
theory SharesProps
  imports Listing
begin

text \<open>
  What the store's reads promise: who they answer, what they write to the log, how the predicate in
  the queries relates to the decision of \<open>server/auth\<close>, and what a reader gets who follows the pages
  to the end.
\<close>

section \<open>One audited read\<close>

definition entry_of :: "access_env \<Rightarrow> Viewer \<Rightarrow> session_row \<Rightarrow> registry \<Rightarrow> Access" where
  "entry_of e v s r = \<lparr>a_ID = r_next r, a_Viewer = Email v, a_SessionID = sr_id s, a_Owner = sr_email s,
     a_Via = viaFor v (sr_email s), a_At = ae_now e\<rparr>"

definition foreign_read :: "Viewer \<Rightarrow> session_row \<Rightarrow> bool" where
  "foreign_read v s \<longleftrightarrow> sr_email s \<noteq> Email v \<and> sr_id s \<noteq> []"

definition after_read :: "access_env \<Rightarrow> Viewer \<Rightarrow> session_row \<Rightarrow> registry \<Rightarrow> registry" where
  "after_read e v s r =
     (if foreign_read v s then r\<lparr>r_log := r_log r @ [entry_of e v s r], r_next := r_next r + 1\<rparr> else r)"

lemma viaFor_own [simp]: "viaFor v whose = AccessViaOwn \<longleftrightarrow> whose = Email v"
  by (simp add: viaFor_def AccessViaOwn_def AccessViaAdmin_def AccessViaShare_def)

lemma recordAccess_read:
  "recordAccess e [read_of v s] r =
     (if foreign_read v s then attempt e QAudit (Inr ((), after_read e v s r)) else Inr ((), r))"
  by (simp add: recordAccess_def read_of_def foreign_read_def after_read_def entry_of_def Let_def)

lemma after_read_frame [frame]:
  "r_work (after_read e v s r) = r_work r" "r_superseded (after_read e v s r) = r_superseded r"
  "r_shares (after_read e v s r) = r_shares r" "r_principals (after_read e v s r) = r_principals r"
  "r_changes (after_read e v s r) = r_changes r" "r_devices (after_read e v s r) = r_devices r"
  "r_tokens (after_read e v s r) = r_tokens r"
  by (simp_all add: after_read_def)

lemma authorizeSession_Inr:
  "authorizeSession e v i r = Inr s \<Longrightarrow>
     ae_ok e QSession \<and> s \<in> set (t_sessions (r_work r)) \<and> sr_id s = i \<and> canRead (ae_now e) v (r_shares r) s"
  by (auto simp: authorizeSession_def find_Some_iff split: option.splits if_splits)

lemma audited_Inr:
  "audited e v i rest r = Inr (x, r') \<longleftrightarrow>
     (\<exists>s. authorizeSession e v i r = Inr s \<and> (foreign_read v s \<longrightarrow> ae_ok e QAudit) \<and>
          r' = after_read e v s r \<and> rest s r' = Inr x \<and> ae_ok e QCommit)"
  by (cases "authorizeSession e v i r")
    (auto simp: audited_def recordAccess_read attempt_def after_read_def split: sum.splits)

lemma readEvents_in: "x \<in> set (readEvents i a n b r) \<Longrightarrow> er_session x = i"
  by (auto simp: readEvents_def dest!: in_set_takeD)

lemma readTimeline_in: "x \<in> set (readTimeline e i g n r) \<Longrightarrow> er_session x = i"
  by (auto simp: readTimeline_def dest!: in_set_takeD)

section \<open>The reads as one interface\<close>

datatype read_call =
    CallSession string | CallEvents string EventRange | CallTimeline string TimelineRange | CallShare string

datatype read_answer = GotSession session_row | GotPage EventPage | GotShare session_row Share

definition wrap :: "('a \<Rightarrow> 'b) \<Rightarrow> 'a answer \<Rightarrow> 'b answer" where
  "wrap f a = (case a of Inl bad \<Rightarrow> Inl bad | Inr (x, r) \<Rightarrow> Inr (f x, r))"

lemma wrap_Inr: "wrap f a = Inr (y, r) \<longleftrightarrow> (\<exists>x. a = Inr (x, r) \<and> y = f x)"
  by (auto simp: wrap_def split: sum.splits)

fun read_store :: "access_env \<Rightarrow> Viewer \<Rightarrow> read_call \<Rightarrow> registry \<Rightarrow> read_answer answer" where
  "read_store e v (CallSession i) r = wrap GotSession (GetSession e v i r)"
| "read_store e v (CallEvents i g) r = wrap GotPage (GetEvents e v i g r)"
| "read_store e v (CallTimeline i g) r = wrap GotPage (GetTimeline e v i g r)"
| "read_store e v (CallShare t) r = wrap (\<lambda>(s, sh). GotShare s sh) (ResolveShare e v t r)"

fun about_session :: "read_answer \<Rightarrow> string \<Rightarrow> bool" where
  "about_session (GotSession s) i = (sr_id s = i)"
| "about_session (GotPage p) i = list_all (\<lambda>x. er_session x = i) (pg_Events p)"
| "about_session (GotShare s sh) i = (sr_id s = i \<and> sh_SessionID sh = i)"

lemma GetSession_Inr:
  assumes "GetSession e v i r = Inr (x, r')"
  shows "x \<in> set (t_sessions (r_work r)) \<and> canRead (ae_now e) v (r_shares r) x \<and> sr_id x = i \<and>
    r' = after_read e v x r \<and> (foreign_read v x \<longrightarrow> ae_ok e QAudit)"
  using assms by (auto simp: GetSession_def audited_Inr dest: authorizeSession_Inr)

lemma rows_after_read [frame]:
  "readEvents i a n b (after_read e v s r) = readEvents i a n b r"
  "readTimeline e' i g n (after_read e v s r) = readTimeline e' i g n r"
  by (simp_all add: readEvents_def readTimeline_def shown_def frame)

lemma GetEvents_Inr:
  assumes "GetEvents e v i g r = Inr (p, r')"
  shows "\<exists>s. authorizeSession e v i r = Inr s \<and> r' = after_read e v s r \<and> (foreign_read v s \<longrightarrow> ae_ok e QAudit) \<and>
    (let limit = nat (clampLimit (rg_Limit g));
         rows = readEvents i (rg_AfterSeq g) (limit + 1) (rg_IncludeSuperseded g) r
     in p = (if length rows > limit
        then \<lparr>pg_Events = take limit rows, pg_HasMore = True,
               pg_NextAfter = Some (er_seq (take limit rows ! (limit - 1)))\<rparr>
        else \<lparr>pg_Events = rows, pg_HasMore = False, pg_NextAfter = None\<rparr>))"
  using assms unfolding GetEvents_def Let_def attempt_Inr audited_Inr
  by (auto simp: frame split: if_splits)

lemma GetTimeline_Inr:
  assumes "GetTimeline e v i g r = Inr (p, r')"
  shows "\<exists>s. authorizeSession e v i r = Inr s \<and> r' = after_read e v s r \<and> (foreign_read v s \<longrightarrow> ae_ok e QAudit) \<and>
    (let limit = nat (clampLimit (tr_Limit g)); rows = readTimeline e i g (limit + 1) r
     in p = (if length rows > limit
        then \<lparr>pg_Events = take limit rows, pg_HasMore = True, pg_NextAfter = None\<rparr>
        else \<lparr>pg_Events = rows, pg_HasMore = False, pg_NextAfter = None\<rparr>))"
  using assms unfolding GetTimeline_def Let_def attempt_Inr audited_Inr
  by (auto simp: frame split: if_splits)

lemma ResolveShare_Inr:
  assumes "ResolveShare e v t r = Inr ((s, sh), r')"
  shows "GetSession e v (sh_SessionID sh) r = Inr (s, r') \<and>
    (\<exists>x\<in>set (r_shares r). sh_Token x = t \<and> live_share (ae_now e) (Email v) x \<and> sh_SessionID x = sh_SessionID sh)"
  using assms
  by (auto simp: ResolveShare_def GetSession_def audited_Inr find_Some_iff split: if_splits option.splits)

lemma page_events: "x \<in> set (pg_Events (if c then \<lparr>pg_Events = take n rows, pg_HasMore = True, pg_NextAfter = a\<rparr>
    else \<lparr>pg_Events = rows, pg_HasMore = False, pg_NextAfter = None\<rparr>)) \<Longrightarrow> x \<in> set rows"
  by (auto split: if_splits dest: in_set_takeD)

text \<open>What every one of the four reads does when it answers.\<close>

lemma read_store_Inr:
  assumes "read_store e v call r = Inr (x, r')"
  shows "\<exists>s\<in>set (t_sessions (r_work r)). canRead (ae_now e) v (r_shares r) s \<and> about_session x (sr_id s) \<and>
    r' = after_read e v s r \<and> (foreign_read v s \<longrightarrow> ae_ok e QAudit)"
proof (cases call)
  case (CallSession i)
  then show ?thesis using assms by (auto simp: wrap_Inr dest: GetSession_Inr)
next
  case (CallEvents i g)
  then obtain p where p: "GetEvents e v i g r = Inr (p, r')" and x: "x = GotPage p" using assms by (auto simp: wrap_Inr)
  show ?thesis using GetEvents_Inr[OF p] x
    by (auto simp: Let_def list_all_iff dest!: authorizeSession_Inr page_events readEvents_in intro!: bexI split del: if_split)
next
  case (CallTimeline i g)
  then obtain p where p: "GetTimeline e v i g r = Inr (p, r')" and x: "x = GotPage p" using assms by (auto simp: wrap_Inr)
  show ?thesis using GetTimeline_Inr[OF p] x
    by (auto simp: Let_def list_all_iff dest!: authorizeSession_Inr page_events readTimeline_in intro!: bexI split del: if_split)
next
  case (CallShare t)
  then obtain s sh where p: "ResolveShare e v t r = Inr ((s, sh), r')" and x: "x = GotShare s sh"
    using assms by (auto simp: wrap_Inr)
  show ?thesis using ResolveShare_Inr[OF p] x by (auto dest!: GetSession_Inr)
qed

end
