(* ===== verification/ReadClaims.thy ===== *)
theory ReadClaims
  imports SharesProps
begin

text \<open>
  The properties of the store's reads: every read of somebody else's session leaves its row in the
  log or does not happen, the predicate of the queries agrees with the decision of \<open>server/auth\<close>,
  and following the pages shows everything once, where the key of the order tells rows apart.
\<close>

section \<open>A sample\<close>

definition sample_session :: "string \<Rightarrow> string \<Rightarrow> session_row" where
  "sample_session i email =
     \<lparr>sr_id = i, sr_email = email, sr_device = [], sr_source = ''claude_code'', sr_parent = [], sr_cwd = [],
      sr_repo = [], sr_branch = [], sr_started = 7, sr_ended_at = None, sr_ended = False, sr_user_turns = 1,
      sr_tool_calls = 0, sr_subagents = 0, sr_errors = 0, sr_first_prompt = None, sr_harness_versions = None,
      sr_input = 0, sr_output = 0, sr_read = 0, sr_write = 0, sr_cost = 0, sr_redactions = None,
      sr_type = ''user'', sr_mirror = [], sr_lineage = [], sr_parent_record = [], sr_human_turns = 1,
      sr_content = 1, sr_agent_versions = None, sr_entrypoint = [], sr_launcher = None, sr_transcript = None,
      sr_harness_title = [], sr_title_source = ''none'', sr_empty_kind = [], sr_head_state = ''unknown'',
      sr_dirty = False, sr_updated = 7\<rparr>"

definition sample_event :: "string \<Rightarrow> int \<Rightarrow> event_row" where
  "sample_event i n =
     \<lparr>er_id = i, er_session = ''s1'', er_email = ''bea@x'', er_seq = n, er_type = UserPrompt,
      er_origin = ''hook'', er_occurred = 8, er_agent = [], er_workflow = [], er_model = [], er_tool = [],
      er_body = [], er_version = 1, er_prompt = [], er_record = [], er_parent = [], er_request = [],
      er_message = [], er_tooluse = []\<rparr>"

definition sample_reads :: "event_row list \<Rightarrow> registry" where
  "sample_reads evs =
     \<lparr>r_principals = [], r_changes = [], r_devices = [], r_tokens = [], r_shares = [], r_log = [], r_next = 1,
      r_work = \<lparr>t_sessions = [sample_session ''s1'' ''bea@x''], t_events = evs, t_messages = [], t_ledger = []\<rparr>,
      r_superseded = []\<rparr>"

definition sample_access :: access_env where
  "sample_access =
     \<lparr>ae_ok = (\<lambda>_. True), ae_now = 100, ae_clock = 100, ae_uuid = Some,
      ae_id = ''i1'', ae_token_id = ''i2'', ae_secret = ''z1'', ae_collate = (\<lambda>s. s), ae_ilike = (\<lambda>_ _. False)\<rparr>"

definition ada :: Viewer where "ada = \<lparr>Email = ''ada@x'', vRole = RoleAdmin\<rparr>"
definition bea :: Viewer where "bea = \<lparr>Email = ''bea@x'', vRole = RoleMember\<rparr>"

lemmas sample_defs = sample_session_def sample_event_def sample_reads_def sample_access_def ada_def bea_def

section \<open>No read without its row\<close>


lemma sample_read:
  "read_store sample_access ada (CallSession ''s1'') (sample_reads []) =
     Inr (GotSession (sample_session ''s1'' ''bea@x''),
       after_read sample_access ada (sample_session ''s1'' ''bea@x'') (sample_reads []))"
  by (simp add: wrap_def GetSession_def audited_def authorizeSession_def canRead_def IsAdmin_def attempt_def
      recordAccess_read after_read_def sample_defs)


section \<open>The queries and the decision\<close>

definition null_time :: "time option \<Rightarrow> time" where
  "null_time t = (case t of None \<Rightarrow> 0 | Some x \<Rightarrow> x)"

definition grant_of :: "Share \<Rightarrow> Grant" where
  "grant_of sh = \<lparr>g_ID = sh_ID sh, Grantee = sh_Grantee sh, ExpiresAt = null_time (sh_ExpiresAt sh),
     RevokedAt = null_time (sh_RevokedAt sh)\<rparr>"

fun via_name :: "Via \<Rightarrow> string" where
  "via_name ViaOwn = AccessViaOwn" | "via_name ViaAdmin = AccessViaAdmin"
| "via_name ViaShare = AccessViaShare" | "via_name ViaNone = []"

text \<open>Rows as the server writes them: addresses normalised, no zero time, no revocation to come.\<close>

definition tidy_share :: "time \<Rightarrow> Share \<Rightarrow> bool" where
  "tidy_share t sh \<longleftrightarrow> Normalize (sh_Grantee sh) = sh_Grantee sh \<and>
     (\<forall>x. sh_ExpiresAt sh = Some x \<longrightarrow> x \<noteq> 0) \<and> (\<forall>x. sh_RevokedAt sh = Some x \<longrightarrow> x \<noteq> 0 \<and> x \<le> t)"

lemma Active_grant: "tidy_share t sh \<Longrightarrow>
    Active (grant_of sh) t \<longleftrightarrow> sh_RevokedAt sh = None \<and> unexpired t (sh_ExpiresAt sh)"
  by (cases "sh_RevokedAt sh"; cases "sh_ExpiresAt sh")
    (auto simp: tidy_share_def Active_def grant_of_def null_time_def IsZero_def unexpired_def)

lemma SameEmail_tidy: "Normalize a = a \<Longrightarrow> Normalize b = b \<Longrightarrow> a \<noteq> [] \<Longrightarrow> SameEmail a b \<longleftrightarrow> a = b"
  by (auto simp: SameEmail_def Let_def)

lemma live_grant:
  assumes "tidy_share t sh" "Normalize (Email v) = Email v" "Email v \<noteq> []"
  shows "live_share t (Email v) sh \<longleftrightarrow>
    Active (grant_of sh) t \<and> (Grantee (grant_of sh) = [] \<or> SameEmail (Email v) (Grantee (grant_of sh)))"
  using assms Active_grant[OF assms(1)]
  by (auto simp: live_share_def grant_of_def SameEmail_tidy tidy_share_def)

text \<open>
  The predicate in the store's queries and the decision of the permission package are one rule:
  over normalised addresses, a row is selected exactly when the decision on the session's grants
  allows the read, the justification logged is the one the decision names, and a row is written
  exactly when the decision asks for an audit.
\<close>
theorem canRead_agrees:
  assumes "Normalize (Email v) = Email v" "Email v \<noteq> []" "Normalize (sr_email s) = sr_email s"
    and "list_all (tidy_share t) shares"
  shows "let d = CanRead v (sr_email s) (map grant_of (filter (\<lambda>sh. sh_SessionID sh = sr_id s) shares)) t
    in (canRead t v shares s \<longleftrightarrow> is_allowed d) \<and>
       (canRead t v shares s \<longrightarrow> viaFor v (sr_email s) = via_name (via d) \<and>
          (Audit d \<longleftrightarrow> sr_email s \<noteq> Email v))"
proof -
  let ?gs = "map grant_of (filter (\<lambda>sh. sh_SessionID sh = sr_id s) shares)"
  have own: "SameEmail (Email v) (sr_email s) \<longleftrightarrow> sr_email s = Email v"
    using assms by (auto simp: SameEmail_tidy)
  have g: "is_allowed (grantLoop v t ?gs) \<longleftrightarrow>
      list_ex (\<lambda>sh. sh_SessionID sh = sr_id s \<and> live_share t (Email v) sh) shares"
    using assms live_grant by (fastforce simp: grantLoop_allowed list_ex_iff list_all_iff)
  have v: "via (grantLoop v t gs) = (if is_allowed (grantLoop v t gs) then ViaShare else ViaNone)" for gs
    by (induction gs) (auto simp: no_Decision_def)
  show ?thesis
    using assms(1,2) g v[of ?gs] grantLoop_audit[of v t ?gs]
    by (auto simp: Let_def CanRead_def own canRead_def IsAdmin_def viaFor_def no_Decision_def)
qed

theorem canRead_agrees_witness:
  "canRead 100 bea [] (sample_session ''s1'' ''bea@x'') \<longleftrightarrow> is_allowed (CanRead bea ''bea@x'' [] 100)"
  using canRead_agrees[of bea "sample_session ''s1'' ''bea@x''" 100 "[]"]
  by (simp add: Let_def sample_defs Normalize_def ToLower_def TrimSpace_def lower_char_def is_space_def)

section \<open>Paging through the list\<close>

definition list_pos :: "access_env \<Rightarrow> (time \<times> string) option \<Rightarrow> (time \<times> string) option" where
  "list_pos e pos = map_option (\<lambda>(t, i). (t, ae_collate e i)) pos"

lemma listed_past: "listed e v f pos r = by_age.past e (list_pos e pos) (visible e v f r)"
  unfolding listed_def by_age.past_def list_pos_def
  by (rule arg_cong[of _ _ "sort_by _"], rule filter_cong) (auto split: option.splits)

definition faithful_cursor :: "cursor_codec \<Rightarrow> bool" where
  "faithful_cursor c \<longleftrightarrow> (\<forall>t i. cc_encode c (t, i) \<noteq> [] \<and> cc_decode c (cc_encode c (t, i)) = Some (t, i))"

lemma visible_cursor [simp]: "visible e v (f\<lparr>sf_Cursor := x\<rparr>) r = visible e v f r"
  by (simp add: visible_def filter_matches_def)

lemma ListSessions_page:
  assumes "ae_ok e QList" "decodeCursor c (sf_Cursor f) = Inr pos"
  shows "ListSessions e c v f r =
    (let n = nat (clampLimit (sf_Limit f)); rows = listed e v f pos r; s = rows ! (n - 1)
     in Inr (if length rows > n then \<lparr>sp_Sessions = take n rows, sp_NextCursor = cc_encode c (sr_started s, sr_id s)\<rparr>
             else \<lparr>sp_Sessions = rows, sp_NextCursor = []\<rparr>))"
  using assms clampLimit_bounds[of "sf_Limit f"]
  by (simp add: ListSessions_def Let_def)

lemma decode_row:
  assumes "faithful_cursor c" "s \<in> set (listed e v f pos r)"
    and "\<forall>s\<in>set (t_sessions (r_work r)). sr_id s \<noteq> [] \<and> \<not> IsZero (sr_started s)"
  shows "decodeCursor c (cc_encode c (sr_started s, sr_id s)) = Inr (Some (sr_started s, sr_id s))"
  using assms by (simp add: decodeCursor_def faithful_cursor_def listed_def visible_def)

lemma list_pages_follow:
  assumes "ae_ok e QList" "faithful_cursor c"
    and "\<forall>s\<in>set (t_sessions (r_work r)). sr_id s \<noteq> [] \<and> \<not> IsZero (sr_started s)"
  shows "decodeCursor c (sf_Cursor f) = Inr pos \<Longrightarrow>
    list_pages fuel e c v f r =
      Inr (by_age.follow e fuel (nat (clampLimit (sf_Limit f))) (list_pos e pos) (visible e v f r))"
proof (induction fuel arbitrary: f pos)
  case (Suc fuel)
  define n rows where "n = nat (clampLimit (sf_Limit f))" and "rows = listed e v f pos r"
  have n: "0 < n" using clampLimit_bounds[of "sf_Limit f"] by (simp add: n_def)
  have page: "ListSessions e c v f r = Inr (if length rows > n
      then \<lparr>sp_Sessions = take n rows, sp_NextCursor = cc_encode c (sr_started (rows ! (n - 1)), sr_id (rows ! (n - 1)))\<rparr>
      else \<lparr>sp_Sessions = rows, sp_NextCursor = []\<rparr>)"
    unfolding n_def rows_def using ListSessions_page[OF assms(1) Suc.prems] by (simp add: Let_def)
  show ?case
  proof (cases "length rows > n")
    case False
    then show ?thesis using page by (simp add: Let_def listed_past[symmetric] rows_def[symmetric] n_def[symmetric])
  next
    case True
    define s where "s = rows ! (n - 1)"
    define f' where "f' = f\<lparr>sf_Cursor := cc_encode c (sr_started s, sr_id s)\<rparr>"
    have "s \<in> set rows" using n True by (simp add: s_def)
    then have "decodeCursor c (sf_Cursor f') = Inr (Some (sr_started s, sr_id s))"
      using decode_row[OF assms(2) _ assms(3)] by (simp add: f'_def rows_def)
    from Suc.IH[OF this] have rest: "list_pages fuel e c v f' r =
        Inr (by_age.follow e fuel n (Some (list_key e s)) (visible e v f r))"
      by (simp add: f'_def n_def list_pos_def list_key_def[of e s])
    have "cc_encode c (sr_started s, sr_id s) \<noteq> []" using assms(2) by (simp add: faithful_cursor_def)
    then have "list_pages (Suc fuel) e c v f r =
        Inr (take n rows @ by_age.follow e fuel n (Some (list_key e s)) (visible e v f r))"
      using True page rest by (simp add: s_def[symmetric, simplified] f'_def)
    also have "\<dots> = Inr (by_age.follow e (Suc fuel) n (list_pos e pos) (visible e v f r))"
      using True n by (simp add: Let_def listed_past[symmetric] rows_def[symmetric] s_def)
    finally show ?thesis by (simp add: n_def)
  qed
qed simp

text \<open>
  C23. Paging through the list of sessions from its start shows exactly the sessions the viewer may
  read that match the filter, each once and newest first, whatever the page size, where the cursor
  comes back as it was sent: the cut between two pages neither hides a session nor repeats one.
\<close>
theorem ListSessions_pages:
  assumes "ae_ok e QList" "faithful_cursor c" "sf_Cursor f = []"
    and "distinct (map sr_id (t_sessions (r_work r)))" "inj (ae_collate e)"
    and "\<forall>s\<in>set (t_sessions (r_work r)). sr_id s \<noteq> [] \<and> \<not> IsZero (sr_started s)"
    and "length (t_sessions (r_work r)) < fuel"
  shows "\<exists>rows. list_pages fuel e c v f r = Inr rows \<and> distinct rows \<and>
    set rows = {s \<in> set (t_sessions (r_work r)). canRead (ae_now e) v (r_shares r) s \<and> filter_matches e f s} \<and>
    sorted_wrt (\<lambda>x y. newer (list_key e x) (list_key e y)) rows"
proof -
  let ?xs = "visible e v f r" and ?n = "nat (clampLimit (sf_Limit f))"
  have "distinct (map (ae_collate e) (map sr_id (t_sessions (r_work r))))"
    using assms(4,5) by (subst distinct_map) (auto intro: inj_on_subset)
  then have "distinct (map (list_key e) (t_sessions (r_work r)))"
    by (auto simp: distinct_map list_key_def inj_on_def)
  then have d: "distinct (map (list_key e) ?xs)"
    by (simp add: visible_def distinct_map_filter)
  have "length (by_age.past e None ?xs) < fuel"
    using assms(7) by (simp add: by_age.past_def visible_def) (meson le_less_trans length_filter_le)
  then have "by_age.follow e fuel ?n None ?xs = by_age.past e None ?xs"
    using clampLimit_bounds[of "sf_Limit f"] by (intro by_age.follow_all[OF d]) auto
  then have "list_pages fuel e c v f r = Inr (by_age.past e None ?xs)"
    using list_pages_follow[OF assms(1,2,6), of f None] assms(3) by (simp add: decodeCursor_def list_pos_def)
  moreover have "distinct (by_age.past e None ?xs)"
    using d by (auto simp: by_age.past_def distinct_map)
  moreover have "set (by_age.past e None ?xs) =
      {s \<in> set (t_sessions (r_work r)). canRead (ae_now e) v (r_shares r) s \<and> filter_matches e f s}"
    by (auto simp: by_age.past_def visible_def)
  ultimately show ?thesis using by_age.strict_past[OF d, of None] by blast
qed

definition sample_cursor :: cursor_codec where
  "sample_cursor =
     \<lparr>cc_encode = (\<lambda>(t, i). (if t < 0 then CHR ''-'' else CHR ''+'') # replicate (nat \<bar>t\<bar>) CHR ''x'' @ CHR ''/'' # i),
      cc_decode = (\<lambda>s. let k = length (takeWhile (\<lambda>c. c = CHR ''x'') (tl s))
        in Some (if hd s = CHR ''-'' then - int k else int k, drop (Suc k) (tl s)))\<rparr>"

lemma sample_cursor_faithful: "faithful_cursor sample_cursor"
proof -
  have "takeWhile (\<lambda>c. c = CHR ''x'') (replicate n CHR ''x'' @ CHR ''/'' # i) = replicate n CHR ''x''" for n i
    by (induction n) auto
  then show ?thesis by (simp add: faithful_cursor_def sample_cursor_def Let_def)
qed

definition sample_filter :: SessionFilter where
  "sample_filter = \<lparr>sf_Query = [], sf_Email = [], sf_Source = [], sf_Repo = [], sf_Types = [], sf_From = 0,
     sf_To = 0, sf_Limit = 1, sf_Cursor = []\<rparr>"

theorem ListSessions_pages_witness:
  "\<exists>rows. list_pages 2 sample_access sample_cursor bea sample_filter (sample_reads []) = Inr rows \<and>
     set rows = {sample_session ''s1'' ''bea@x''}"
proof -
  have "{s \<in> set (t_sessions (r_work (sample_reads []))).
      canRead (ae_now sample_access) bea (r_shares (sample_reads [])) s \<and> filter_matches sample_access sample_filter s} =
    {sample_session ''s1'' ''bea@x''}"
    by (auto simp: canRead_def filter_matches_def sample_filter_def sample_defs nullTime_def IsZero_def
        sessionTypePredicate_def validSessionTypes_def sessionTypeDefault_def)
  then show ?thesis
    using ListSessions_pages[of sample_access sample_cursor sample_filter "sample_reads []" 2 bea] sample_cursor_faithful
    by (auto simp: sample_filter_def sample_defs IsZero_def)
qed

section \<open>Paging through the events\<close>

definition session_events :: "string \<Rightarrow> bool \<Rightarrow> registry \<Rightarrow> event_row list" where
  "session_events i everything r = filter (\<lambda>x. er_session x = i \<and> shown everything r x) (t_events (r_work r))"

lemma readEvents_past: "readEvents i a n b r = take n (by_seq.past a (session_events i b r))"
  unfolding readEvents_def by_seq.past_def session_events_def filter_filter
  by (rule arg_cong[of _ _ "take n"], rule arg_cong[of _ _ "sort_by _"], rule filter_cong) auto

lemma session_events_after [frame]: "session_events i b (after_read e v s r) = session_events i b r"
  by (simp add: session_events_def shown_def frame)

lemma authorizeSession_after [frame]: "authorizeSession e v i (after_read e' v' s r) = authorizeSession e v i r"
  by (simp add: authorizeSession_def frame)

lemma GetEvents_page:
  assumes "\<forall>q. ae_ok e q" "authorizeSession e v i r = Inr s"
  shows "GetEvents e v i g r =
    (let n = nat (clampLimit (rg_Limit g)); rows = by_seq.past (rg_AfterSeq g) (session_events i (rg_IncludeSuperseded g) r)
     in Inr (if length rows > n
       then \<lparr>pg_Events = take n rows, pg_HasMore = True, pg_NextAfter = Some (er_seq (rows ! (n - 1)))\<rparr>
       else \<lparr>pg_Events = rows, pg_HasMore = False, pg_NextAfter = None\<rparr>, after_read e v s r))"
proof -
  have "0 < nat (clampLimit (rg_Limit g))" using clampLimit_bounds[of "rg_Limit g"] by simp
  then show ?thesis using assms
    by (simp add: GetEvents_def audited_def attempt_def recordAccess_read Let_def frame readEvents_past)
      (simp add: after_read_def)
qed

lemma event_pages_follow:
  assumes "\<forall>q. ae_ok e q"
  shows "authorizeSession e v i r = Inr s \<Longrightarrow>
    \<exists>r'. event_pages fuel e v i g r =
      Inr (by_seq.follow fuel (nat (clampLimit (rg_Limit g))) (rg_AfterSeq g)
        (session_events i (rg_IncludeSuperseded g) r), r')"
proof (induction fuel arbitrary: g r)
  case (Suc fuel)
  define n rows where "n = nat (clampLimit (rg_Limit g))"
    and "rows = by_seq.past (rg_AfterSeq g) (session_events i (rg_IncludeSuperseded g) r)"
  have n: "0 < n" using clampLimit_bounds[of "rg_Limit g"] by (simp add: n_def)
  have page: "GetEvents e v i g r = Inr (if length rows > n
      then \<lparr>pg_Events = take n rows, pg_HasMore = True, pg_NextAfter = Some (er_seq (rows ! (n - 1)))\<rparr>
      else \<lparr>pg_Events = rows, pg_HasMore = False, pg_NextAfter = None\<rparr>, after_read e v s r)"
    unfolding n_def rows_def using GetEvents_page[OF assms Suc.prems] by (simp add: Let_def)
  show ?case
  proof (cases "length rows > n")
    case False
    then show ?thesis using page by (simp add: Let_def rows_def[symmetric] n_def[symmetric])
  next
    case True
    have "authorizeSession e v i (after_read e v s r) = Inr s" using Suc.prems by (simp add: frame)
    from Suc.IH[OF this, of "g\<lparr>rg_AfterSeq := Some (er_seq (rows ! (n - 1)))\<rparr>"] show ?thesis
      using True n page by (auto simp: Let_def rows_def[symmetric] n_def[symmetric] frame)
  qed
qed simp

text \<open>
  Following \<open>NextAfter\<close> through a session's events returns all of them, each once and in
  sequence order, whatever the page size, as long as no two events of the session carry one number.
\<close>
theorem GetEvents_pages:
  assumes "\<forall>q. ae_ok e q" "authorizeSession e v i r = Inr s" "rg_AfterSeq g = None"
    and "distinct (map er_seq (session_events i (rg_IncludeSuperseded g) r))"
    and "length (t_events (r_work r)) < fuel"
  shows "\<exists>rows r'. event_pages fuel e v i g r = Inr (rows, r') \<and>
    mset rows = mset (session_events i (rg_IncludeSuperseded g) r) \<and> sorted_wrt (\<lambda>x y. er_seq x < er_seq y) rows"
proof -
  let ?xs = "session_events i (rg_IncludeSuperseded g) r" and ?n = "nat (clampLimit (rg_Limit g))"
  have "length (by_seq.past None ?xs) < fuel"
    using assms(5) by (simp add: by_seq.past_def session_events_def) (meson le_less_trans length_filter_le)
  then have "by_seq.follow fuel ?n None ?xs = by_seq.past None ?xs"
    using clampLimit_bounds[of "rg_Limit g"] by (intro by_seq.follow_all[OF assms(4)]) auto
  then show ?thesis
    using event_pages_follow[OF assms(1,2), of fuel g] by_seq.strict_past[OF assms(4), of None] assms(3)
    by (auto simp: by_seq.past_def)
qed

definition sample_range :: EventRange where
  "sample_range = \<lparr>rg_AfterSeq = None, rg_Limit = 1, rg_IncludeSuperseded = False\<rparr>"

lemma sample_authorized:
  "authorizeSession sample_access bea ''s1'' (sample_reads evs) = Inr (sample_session ''s1'' ''bea@x'')"
  by (simp add: authorizeSession_def canRead_def sample_defs)

lemma sample_events: "session_events ''s1'' b (sample_reads (map (\<lambda>(i, n). sample_event i n) xs)) =
    map (\<lambda>(i, n). sample_event i n) xs"
  by (auto simp: session_events_def shown_def sample_defs filter_id_conv)

theorem GetEvents_pages_witness:
  "\<exists>rows r'. event_pages 3 sample_access bea ''s1'' sample_range (sample_reads [sample_event ''e1'' 1, sample_event ''e2'' 2]) =
     Inr (rows, r') \<and> mset rows = {#sample_event ''e1'' 1, sample_event ''e2'' 2#}"
  using GetEvents_pages[of sample_access bea "''s1''" "sample_reads [sample_event ''e1'' 1, sample_event ''e2'' 2]"
      "sample_session ''s1'' ''bea@x''" sample_range 3] sample_authorized[of "[sample_event ''e1'' 1, sample_event ''e2'' 2]"]
    sample_events[of False "[(''e1'', 1), (''e2'', 2)]"]
  by (auto simp: sample_range_def) (auto simp: sample_defs)

text \<open>
  C25. Sequence numbers restart in every subagent's stream, and the table does not keep them apart:
  when the last event of a page and the first one left over carry the same number, no page that
  follows \<open>NextAfter\<close> returns the latter, however many pages are read.
\<close>
theorem GetEvents_border_lost:
  assumes "event_pages fuel e v i g r = Inr (got, r')" "\<forall>q. ae_ok e q" "authorizeSession e v i r = Inr s"
    and "rows = readEvents i (rg_AfterSeq g) (length (t_events (r_work r))) (rg_IncludeSuperseded g) r"
    and "n = nat (clampLimit (rg_Limit g))" "n < length rows"
    and "er_seq (rows ! (n - 1)) = er_seq (rows ! n)" "distinct (t_events (r_work r))"
  shows "rows ! n \<in> set (t_events (r_work r)) \<and> er_session (rows ! n) = i \<and> rows ! n \<notin> set got"
proof -
  let ?xs = "session_events i (rg_IncludeSuperseded g) r" and ?past = "by_seq.past (rg_AfterSeq g)"
  have "length (?past ?xs) \<le> length (t_events (r_work r))"
    by (auto simp: by_seq.past_def session_events_def intro: le_trans[OF length_filter_le])
  then have rows: "rows = ?past ?xs" by (simp add: assms(4) readEvents_past)
  have n: "0 < n" using clampLimit_bounds[of "rg_Limit g"] assms(5) by simp
  have x: "rows ! n \<in> set ?xs" using nth_mem[OF assms(6)] by (simp add: rows by_seq.past_def)
  have d: "distinct rows" using assms(8) by (simp add: rows by_seq.past_def session_events_def)
  have got: "got = by_seq.follow fuel n (rg_AfterSeq g) ?xs"
    using event_pages_follow[OF assms(2,3), of fuel g] assms(1,5) by auto
  have "rows ! n \<notin> set (take n rows)"
    using d assms(6) by (auto simp: in_set_conv_nth nth_eq_iff_index_eq)
  then have "rows ! n \<notin> set got"
    using assms(6,7) n by (cases fuel) (auto simp: got Let_def rows[symmetric] dest!: by_seq.follow_later[OF n])
  then show ?thesis using x by (simp add: session_events_def)
qed

theorem GetEvents_border_lost_witness:
  "\<exists>got r'. event_pages 9 sample_access bea ''s1'' sample_range (sample_reads [sample_event ''e1'' 4, sample_event ''e2'' 4]) =
     Inr (got, r') \<and> sample_event ''e2'' 4 \<notin> set got"
proof -
  let ?r = "sample_reads [sample_event ''e1'' 4, sample_event ''e2'' 4]"
  have ok: "\<forall>q. ae_ok sample_access q" by (simp add: sample_defs)
  obtain got r' where got: "event_pages 9 sample_access bea ''s1'' sample_range ?r = Inr (got, r')"
    using event_pages_follow[OF ok sample_authorized, of 9 sample_range "[sample_event ''e1'' 4, sample_event ''e2'' 4]"] by auto
  have rows: "readEvents ''s1'' None (length (t_events (r_work ?r))) False ?r = [sample_event ''e1'' 4, sample_event ''e2'' 4]"
    using sample_events[of False "[(''e1'', 4), (''e2'', 4)]"]
    by (simp add: readEvents_past by_seq.past_def sample_defs)
  show ?thesis
    using GetEvents_border_lost[OF got ok sample_authorized refl refl] got rows
    by (simp add: sample_range_def clampLimit_def defaultLimit_def maxLimit_def) (simp add: sample_defs)
qed

end
