(* ===== verification/AccessClaims.thy ===== *)
theory AccessClaims
  imports RosterProps DeviceProps ReadClaims
begin

text \<open>
  The access tables under any sequence of operations: the step relation of everything the server
  does to them, what each step keeps, and the properties that follow for every reachable state.
\<close>

section \<open>Steps\<close>

text \<open>
  Every operation that commits is a step; one that fails leaves the tables as they are. The last
  rule is any other transaction: the ingest of a batch and the derivation runner write the tables
  of captured work only.
\<close>

inductive access_step :: "registry \<Rightarrow> registry \<Rightarrow> bool" where
  put: "PutPrincipal e v u r = Inr (x, r') \<Longrightarrow> access_step r r'"
| update: "handleUpdatePrincipal e0 e who path body r0 r = (reply, r') \<Longrightarrow> access_step r r'"
| enrol_self: "EnrolSelf e raw r = Inr (y, r') \<Longrightarrow> access_step r r'"
| bootstrap: "bootstrapAdmin e email r = Inr (o1, r') \<Longrightarrow> access_step r r'"
| enroll: "EnrollDevice e d hash until r = Inr (dev, r') \<Longrightarrow> access_step r r'"
| authenticate: "AuthenticateDevice e hash r = (who', r') \<Longrightarrow> access_step r r'"
| revoke: "RevokeDevice e v i r = Inr (u', r') \<Longrightarrow> access_step r r'"
| read: "read_store e v call r = Inr (a, r') \<Longrightarrow> access_step r r'"
| log: "RecordAccess e acc r = Inr (u', r') \<Longrightarrow> access_step r r'"
| share: "CreateShare e v q r = Inr (sh, r') \<Longrightarrow> access_step r r'"
| unshare: "RevokeShare e v i r = Inr (u', r') \<Longrightarrow> access_step r r'"
| other: "access_step r (r\<lparr>r_work := d', r_superseded := ids\<rparr>)"

text \<open>What a step may do to the roster and its trail.\<close>

definition roster_kept :: "registry \<Rightarrow> registry \<Rightarrow> bool" where
  "roster_kept r r' \<longleftrightarrow>
     (r_principals r' = r_principals r \<and> r_changes r' = r_changes r) \<or>
     (one_change r r' \<and> (one_row_each r \<longrightarrow> one_row_each r' \<and> (active_admin r \<longrightarrow> active_admin r')))"

text \<open>The keys of the grants and of the log.\<close>

definition share_keys :: "registry \<Rightarrow> bool" where
  "share_keys r \<longleftrightarrow> distinct (map sh_ID (r_shares r)) \<and> distinct (map sh_Token (r_shares r)) \<and>
     distinct (map a_ID (r_log r)) \<and> (\<forall>a\<in>set (r_log r). a_ID a < r_next r)"

definition registry_ok :: "registry \<Rightarrow> bool" where
  "registry_ok r \<longleftrightarrow> one_row_each r \<and> device_keys r \<and> share_keys r"

section \<open>Each operation\<close>

definition kept :: "registry \<Rightarrow> registry \<Rightarrow> bool" where
  "kept r r' \<longleftrightarrow> roster_kept r r' \<and> devices_kept r r' \<and> (share_keys r \<longrightarrow> share_keys r')"

lemma kept_roster: "roster_edit r r' \<Longrightarrow> kept r r'"
  by (auto simp: kept_def roster_edit_def roster_kept_def share_keys_def intro: devices_kept_same)

lemma kept_devices:
  "devices_kept r r' \<Longrightarrow> r_principals r' = r_principals r \<Longrightarrow> r_changes r' = r_changes r \<Longrightarrow>
     r_shares r' = r_shares r \<Longrightarrow> r_log r' = r_log r \<Longrightarrow> r_next r' = r_next r \<Longrightarrow> kept r r'"
  by (simp add: kept_def roster_kept_def share_keys_def)

lemma kept_shares:
  "r_principals r' = r_principals r \<Longrightarrow> r_changes r' = r_changes r \<Longrightarrow> r_devices r' = r_devices r \<Longrightarrow>
     r_tokens r' = r_tokens r \<Longrightarrow> (share_keys r \<longrightarrow> share_keys r') \<Longrightarrow> kept r r'"
  by (simp add: kept_def roster_kept_def devices_kept_same)

lemma EnrollDevice_frame:
  assumes "EnrollDevice e d hash until r = Inr (dev, r')"
  shows "r_principals r' = r_principals r" "r_changes r' = r_changes r" "r_shares r' = r_shares r"
    "r_log r' = r_log r" "r_next r' = r_next r" "r_work r' = r_work r"
  using EnrollDevice_Inr[OF assms] by (auto simp: supersedeHost_def Let_def)

lemma log_rows_ids:
  "distinct (map a_ID (log_rows t n xs)) \<and> (\<forall>a\<in>set (log_rows t n xs). n \<le> a_ID a \<and> a_ID a < n + int (length xs))"
proof (induction xs arbitrary: n)
  case (Cons x xs)
  then show ?case using Cons[of "n + 1"] by fastforce
qed simp

lemma recordAccess_shape:
  "recordAccess e xs r = Inr (u, r') \<Longrightarrow>
     \<exists>kept. r' = r\<lparr>r_log := r_log r @ log_rows (ae_now e) (r_next r) kept, r_next := r_next r + int (length kept)\<rparr>"
  by (auto simp: recordAccess_def Let_def split: if_splits intro: exI[of _ "[]"])

lemma share_keys_log:
  assumes "share_keys r"
  shows "share_keys (r\<lparr>r_log := r_log r @ log_rows t (r_next r) xs, r_next := r_next r + int (length xs)\<rparr>)"
  using assms log_rows_ids[of t "r_next r" xs] by (fastforce simp: share_keys_def)

lemma share_keys_recordAccess: "recordAccess e xs r = Inr (u, r') \<Longrightarrow> share_keys r \<Longrightarrow> share_keys r'"
  using recordAccess_shape share_keys_log by blast

lemma share_keys_after: "share_keys r \<Longrightarrow> share_keys (after_read e v s r)"
  using share_keys_log[of r "[read_of v s]" "ae_now e"]
  by (auto simp: after_read_def entry_of_def read_of_def)

lemma CreateShare_Inr:
  assumes "CreateShare e v q r = Inr (sh, r')"
  shows "\<exists>u. recordAccess e [\<lparr>x_Viewer = Email v, x_SessionID = sq_SessionID q,
      x_Owner = sr_email (the (find (\<lambda>s. sr_id s = sq_SessionID q \<and> (sr_email s = Email v \<or> IsAdmin v)) (t_sessions (r_work r)))),
      x_Via = viaFor v (sr_email (the (find (\<lambda>s. sr_id s = sq_SessionID q \<and> (sr_email s = Email v \<or> IsAdmin v)) (t_sessions (r_work r)))))\<rparr>]
      (r\<lparr>r_shares := r_shares r @ [sh]\<rparr>) = Inr (u, r') \<and>
    (\<exists>s\<in>set (t_sessions (r_work r)). sr_id s = sq_SessionID q \<and> (sr_email s = Email v \<or> IsAdmin v)) \<and>
    sh_SessionID sh = sq_SessionID q \<and> sh_Grantee sh = sq_Grantee q \<and> sh_ExpiresAt sh = nullTime (sq_ExpiresAt q) \<and>
    sh_RevokedAt sh = None \<and> sh_CreatedBy sh = Email v \<and> share_fits (sh_ID sh) (sh_Token sh) (r_shares r)"
  using assms by (auto simp: CreateShare_def Let_def dest: find_hit split: option.splits if_splits sum.splits)

lemma CreateShare_frame:
  assumes "CreateShare e v q r = Inr (sh, r')"
  shows "r_shares r' = r_shares r @ [sh]" "r_principals r' = r_principals r" "r_changes r' = r_changes r"
    "r_devices r' = r_devices r" "r_tokens r' = r_tokens r" "r_work r' = r_work r" "share_keys r \<longrightarrow> share_keys r'"
proof -
  obtain xs u where rec: "recordAccess e xs (r\<lparr>r_shares := r_shares r @ [sh]\<rparr>) = Inr (u, r')"
    and fits: "share_fits (sh_ID sh) (sh_Token sh) (r_shares r)"
    using CreateShare_Inr[OF assms] by blast
  show "r_shares r' = r_shares r @ [sh]" "r_principals r' = r_principals r" "r_changes r' = r_changes r"
    "r_devices r' = r_devices r" "r_tokens r' = r_tokens r" "r_work r' = r_work r"
    using recordAccess_shape[OF rec] by auto
  have "share_keys r \<longrightarrow> share_keys (r\<lparr>r_shares := r_shares r @ [sh]\<rparr>)"
    using fits by (auto simp: share_keys_def share_fits_def list_all_iff)
  then show "share_keys r \<longrightarrow> share_keys r'" using share_keys_recordAccess[OF rec] by blast
qed

lemma RevokeShare_Inr:
  assumes "RevokeShare e v shareID r = Inr (u, r')"
  shows "\<exists>i. ae_uuid e shareID = Some i \<and>
    (\<exists>sh\<in>set (r_shares r). sh_ID sh = i \<and> sh_RevokedAt sh = None \<and> may_revoke v (t_sessions (r_work r)) sh) \<and>
    r' = r\<lparr>r_shares := map (\<lambda>sh. if sh_ID sh = i \<and> sh_RevokedAt sh = None \<and> may_revoke v (t_sessions (r_work r)) sh
      then sh\<lparr>sh_RevokedAt := Some (ae_now e)\<rparr> else sh) (r_shares r)\<rparr>"
  using assms by (auto simp: RevokeShare_def Let_def list_ex_iff split: option.splits if_splits)

lemma RevokeShare_kept:
  assumes "RevokeShare e v shareID r = Inr (u, r')"
  shows "kept r r'"
proof -
  have ids: "map sh_ID (map (\<lambda>sh. if P sh then sh\<lparr>sh_RevokedAt := t\<rparr> else sh) xs) = map sh_ID xs"
    "map sh_Token (map (\<lambda>sh. if P sh then sh\<lparr>sh_RevokedAt := t\<rparr> else sh) xs) = map sh_Token xs" for P t xs
    by auto
  show ?thesis
    using RevokeShare_Inr[OF assms] by (auto simp: share_keys_def ids simp del: map_map intro!: kept_shares)
qed

text \<open>Every step keeps the roster's rules, what is retired, and the keys.\<close>

lemma access_step_kept: "access_step r r' \<Longrightarrow> kept r r'"
proof (induction rule: access_step.induct)
  case (authenticate e hash r who' r')
  then show ?case using AuthenticateDevice_kept[of r e hash]
    by (intro kept_devices) (auto simp: AuthenticateDevice_def split: if_splits)
next
  case (revoke e v i r u' r')
  then show ?case using RevokeDevice_kept
    by (intro kept_devices) (auto simp: RevokeDevice_def Let_def split: option.splits if_splits)
next
  case (read e v call r a r')
  then show ?case using read_store_Inr[OF read] share_keys_after by (auto intro!: kept_shares simp: frame)
next
  case (log e acc r u' r')
  then have rec: "r' = r \<or> recordAccess e [acc] r = Inr (u', r')"
    by (auto simp: RecordAccess_def split: if_splits)
  have shape: "r' = r \<or> (\<exists>xs n. r' = r\<lparr>r_log := xs, r_next := n\<rparr>)"
    using rec recordAccess_shape by blast
  have "share_keys r \<longrightarrow> share_keys r'" using rec share_keys_recordAccess by blast
  then show ?case using shape by (intro kept_shares) auto
next
  case (share e v q r sh r')
  then show ?case using CreateShare_frame[OF share] by (intro kept_shares) auto
qed (auto intro: kept_roster kept_devices kept_shares RevokeShare_kept simp: EnrollDevice_frame share_keys_def
  dest: PutPrincipal_edit handleUpdatePrincipal_edit EnrolSelf_edit bootstrapAdmin_edit EnrollDevice_kept)

section \<open>Sequences\<close>

text \<open>What a step keeps, a sequence keeps; the interface is a step relation under the rules above.\<close>

locale ruled =
  fixes step :: "registry \<Rightarrow> registry \<Rightarrow> bool"
  assumes step_kept: "step r r' \<Longrightarrow> kept r r'"
begin

lemma steps_ok: "step\<^sup>*\<^sup>* r r' \<Longrightarrow> registry_ok r \<Longrightarrow> registry_ok r'"
proof (induction rule: rtranclp_induct)
  case (step r' r'')
  then show ?case using step_kept[OF step(2)]
    by (auto simp: registry_ok_def kept_def roster_kept_def devices_kept_def one_row_each_def)
qed

lemma steps_retired: "step\<^sup>*\<^sup>* r r' \<Longrightarrow> retired i r \<Longrightarrow> retired i r'"
proof (induction rule: rtranclp_induct)
  case (step r' r'')
  then show ?case using step_kept[OF step(2)] by (auto simp: kept_def devices_kept_def)
qed

lemma steps_admin:
  "step\<^sup>*\<^sup>* r r' \<Longrightarrow> one_row_each r \<and> active_admin r \<Longrightarrow> one_row_each r' \<and> active_admin r'"
proof (induction rule: rtranclp_induct)
  case (step r' r'')
  then show ?case using step_kept[OF step(2)]
    by (auto simp: kept_def roster_kept_def one_row_each_def active_admin_def)
qed

lemma steps_explained:
  "step\<^sup>*\<^sup>* r r' \<Longrightarrow> \<exists>cs. r_changes r' = r_changes r @ cs \<and> explains cs (standing r) (standing r')"
proof (induction rule: rtranclp_induct)
  case base
  show ?case by (intro exI[of _ "[]"]) simp
next
  case (step r' r'')
  then obtain cs where cs: "r_changes r' = r_changes r @ cs" "explains cs (standing r) (standing r')" by blast
  have "roster_kept r' r''" using step_kept[OF step(2)] by (simp add: kept_def)
  then have "(r_changes r'' = r_changes r' \<and> standing r'' = standing r') \<or>
      (\<exists>c. r_changes r'' = r_changes r' @ [c] \<and> explains [c] (standing r') (standing r''))"
    by (auto simp: roster_kept_def one_change_def standing_def fun_eq_iff)
  then show ?case
  proof (elim disjE exE conjE)
    fix c assume "r_changes r'' = r_changes r' @ [c]" "explains [c] (standing r') (standing r'')"
    then show ?thesis using cs by (intro exI[of _ "cs @ [c]"]) (simp add: explains_append, blast)
  qed (use cs in auto)
qed

end

interpretation access: ruled access_step
  by unfold_locales (rule access_step_kept)

end
