(* ===== verification/StoreInv.thy ===== *)
theory StoreInv
  imports Rollup
begin

text \<open>
  What each step of the ingest transaction does to the tables: which rows it adds, what of a row
  can change, and the consistency of the store, stated with the owner of a session and the value
  of a rollup column. The columns are handled once, in the locale \<open>rollup_column\<close>, and
  interpreted for each of them.
\<close>

section \<open>Sessions by id\<close>

definition owner_of :: "db \<Rightarrow> string \<Rightarrow> string option" where
  "owner_of d sid = map_option sr_email (find_session d sid)"

definition colval :: "(session_row \<Rightarrow> 'a::zero) \<Rightarrow> db \<Rightarrow> string \<Rightarrow> 'a" where
  "colval G d sid = (case find_session d sid of None \<Rightarrow> 0 | Some s \<Rightarrow> G s)"

lemma find_map_id:
  "(\<And>s. sr_id (g s) = sr_id s) \<Longrightarrow>
   find (\<lambda>s. sr_id s = k) (map g xs) = map_option g (find (\<lambda>s. sr_id s = k) xs)"
  by (induction xs) auto

lemma find_append: "find P (xs @ ys) = (case find P xs of None \<Rightarrow> find P ys | Some x \<Rightarrow> Some x)"
  by (induction xs) auto

lemma find_update_sessions:
  "(\<And>s. sr_id (f s) = sr_id s) \<Longrightarrow>
   find_session (update_sessions sid f d) k = map_option (\<lambda>s. if sr_id s = sid then f s else s) (find_session d k)"
  by (simp add: find_session_def update_sessions_def find_map_id)

lemma find_session_id: "find_session d k = Some s \<Longrightarrow> sr_id s = k \<and> s \<in> set (t_sessions d)"
  by (auto simp: find_session_def find_Some_iff)

lemma update_sessions_ids [simp]:
  "(\<And>s. sr_id (f s) = sr_id s) \<Longrightarrow> map sr_id (t_sessions (update_sessions sid f d)) = map sr_id (t_sessions d)"
  by (simp add: update_sessions_def)

lemma update_sessions_tables [simp]:
  "t_events (update_sessions sid f d) = t_events d" "t_messages (update_sessions sid f d) = t_messages d"
  "t_ledger (update_sessions sid f d) = t_ledger d" "event_ids (update_sessions sid f d) = event_ids d"
  by (simp_all add: update_sessions_def event_ids_def)

lemma find_none_ids: "find_session d k = None \<longleftrightarrow> k \<notin> set (map sr_id (t_sessions d))"
  by (auto simp: find_session_def find_None_iff)

section \<open>Screening and admission\<close>

definition valid_item :: "codec \<Rightarrow> Ingest \<Rightarrow> bool" where
  "valid_item c it \<longleftrightarrow> validateIngest c it = []"

definition kept_ok :: "codec \<Rightarrow> Ingest list \<Rightarrow> bool" where
  "kept_ok c its \<longleftrightarrow> distinct (map item_id_of its) \<and> (\<forall>it\<in>set its. valid_item c it)"

lemma kept_ok_snoc:
  "kept_ok c its \<Longrightarrow> validateIngest c it = [] \<Longrightarrow> item_id_of it \<notin> item_id_of ` set its \<Longrightarrow> kept_ok c (its @ [it])"
  by (auto simp: kept_ok_def valid_item_def)

lemma screen_kept: "kept_ok c (sc_kept st) \<Longrightarrow> kept_ok c (sc_kept (screen c its st))"
proof (induction c its st rule: screen.induct)
  case (1 c st)
  then show ?case by simp
next
  case (2 c it its st)
  then show ?case by (simp add: Let_def kept_ok_snoc)
qed

lemma screen_from: "set (sc_kept (screen c its st)) \<subseteq> set (sc_kept st) \<union> set its"
proof (induction c its st rule: screen.induct)
  case (1 c st)
  then show ?case by simp
next
  case (2 c it its st)
  then show ?case by (simp add: Let_def) blast
qed

lemma screen_grows:
  "set (sc_kept st) \<subseteq> set (sc_kept (screen c its st)) \<and> set (sc_refused st) \<subseteq> set (sc_refused (screen c its st))"
proof (induction c its st rule: screen.induct)
  case (1 c st)
  then show ?case by simp
next
  case (2 c it its st)
  then show ?case by (auto simp: Let_def)
qed

lemma screen_all:
  "it \<in> set its \<Longrightarrow> item_id_of it \<in> item_id_of ` set (sc_kept (screen c its st)) \<union> rf_ID ` set (sc_refused (screen c its st))"
proof (induction c its st rule: screen.induct)
  case (1 c st)
  then show ?case by simp
next
  case (2 c x its st)
  show ?case
  proof (cases "it = x")
    case False
    with 2 show ?thesis by (auto simp: Let_def)
  next
    case True
    consider "validateIngest c x \<noteq> []" | "validateIngest c x = []" "item_id_of x \<in> item_id_of ` set (sc_kept st)"
      | "validateIngest c x = []" "item_id_of x \<notin> item_id_of ` set (sc_kept st)" by blast
    then show ?thesis
    proof cases
      case 1
      then show ?thesis using True screen_grows [of "st\<lparr>sc_refused := sc_refused st @ [\<lparr>rf_ID = item_id_of x, rf_Reason = validateIngest c x\<rparr>]\<rparr>" c its]
        by (auto simp: Let_def) (metis Refusal.select_convs(1) image_eqI)
    next
      case 2
      then show ?thesis using True screen_grows [of "st\<lparr>sc_dups := sc_dups st @ [item_id_of x]\<rparr>" c its]
        by (auto simp: Let_def)
    next
      case 3
      then show ?thesis using True screen_grows [of "st\<lparr>sc_kept := sc_kept st @ [x]\<rparr>" c its]
        by (auto simp: Let_def)
    qed
  qed
qed

lemma screen_dups:
  "set (sc_dups (screen c its st)) \<subseteq> set (sc_dups st) \<union> item_id_of ` set (sc_kept (screen c its st))"
proof (induction c its st rule: screen.induct)
  case (1 c st)
  then show ?case by simp
next
  case (2 c it its st)
  show ?case
  proof (cases "validateIngest c it = [] \<and> item_id_of it \<in> item_id_of ` set (sc_kept st)")
    case True
    with 2(2) screen_grows [of "st\<lparr>sc_dups := sc_dups st @ [item_id_of it]\<rparr>" c its]
    show ?thesis by (auto simp: Let_def)
  next
    case False
    with 2(1,3) show ?thesis by (auto simp: Let_def)
  qed
qed

text \<open>The claim of a session keeps every owner and adds the claimant as the owner of a new one.\<close>

lemma find_session_append:
  "find_session (d\<lparr>t_sessions := t_sessions d @ [r]\<rparr>) k =
     (case find_session d k of None \<Rightarrow> if sr_id r = k then Some r else None | Some s \<Rightarrow> Some s)"
  by (simp add: find_session_def find_append split: option.split)

lemma claimed_row_fields [simp]: "sr_id (claimed_row e sid em dev src t) = sid" "sr_email (claimed_row e sid em dev src t) = em"
  by (simp_all add: claimed_row_def)

lemma claim_stmt_find:
  assumes "claim_stmt e sid em dev src t d = (own, d1)"
  shows "find_session d1 k =
    (if k = sid then Some (case find_session d sid of Some s \<Rightarrow> s\<lparr>sr_started := min (sr_started s) t\<rparr>
                                        | None \<Rightarrow> claimed_row e sid em dev src t)
     else find_session d k)"
    and "owner_of d1 sid = Some own"
proof -
  show fs: "find_session d1 k =
    (if k = sid then Some (case find_session d sid of Some s \<Rightarrow> s\<lparr>sr_started := min (sr_started s) t\<rparr>
                                        | None \<Rightarrow> claimed_row e sid em dev src t)
     else find_session d k)" for k
  proof (cases "find_session d sid")
    case None
    then show ?thesis using assms by (auto simp: claim_stmt_def find_session_append split: option.splits)
  next
    case (Some s)
    then have "sr_id s = sid" using find_session_id by blast
    with Some show ?thesis using assms
      by (auto simp: claim_stmt_def find_update_sessions map_option_case dest: find_session_id split: option.splits)
  qed
  show "owner_of d1 sid = Some own"
    using assms fs by (auto simp: owner_of_def claim_stmt_def split: option.splits)
qed

text \<open>The database after claims: the same rows, starts moved back, new sessions as claimed.\<close>

definition grown_entry :: "string \<Rightarrow> session_row option \<Rightarrow> session_row option \<Rightarrow> bool" where
  "grown_entry k a b \<longleftrightarrow>
     (case a of Some s \<Rightarrow> (\<exists>t. b = Some (s\<lparr>sr_started := t\<rparr>))
      | None \<Rightarrow> b = None \<or> (\<exists>e em dev src t. b = Some (claimed_row e k em dev src t)))"

definition grown :: "db \<Rightarrow> db \<Rightarrow> bool" where
  "grown d d' \<longleftrightarrow> t_events d' = t_events d \<and> t_messages d' = t_messages d \<and> t_ledger d' = t_ledger d \<and>
     (distinct (map sr_id (t_sessions d)) \<longrightarrow> distinct (map sr_id (t_sessions d'))) \<and>
     (\<forall>k. grown_entry k (find_session d k) (find_session d' k))"

lemma same_start: "\<exists>t. s = s\<lparr>sr_started := t\<rparr>" for s :: session_row
  by (rule exI [of _ "sr_started s"]) simp

lemma grown_refl: "grown d d"
  by (simp add: grown_def grown_entry_def same_start split: option.split)

lemma claimed_row_start: "(claimed_row e k em dev src t)\<lparr>sr_started := u\<rparr> = claimed_row e k em dev src u"
  by (simp add: claimed_row_def)

lemma grown_entry_simps [simp]:
  "grown_entry k (Some s) b \<longleftrightarrow> (\<exists>t. b = Some (s\<lparr>sr_started := t\<rparr>))"
  "grown_entry k None b \<longleftrightarrow> b = None \<or> (\<exists>e em dev src t. b = Some (claimed_row e k em dev src t))"
  by (simp_all add: grown_entry_def)

lemma grown_entry_trans:
  assumes "grown_entry k a b" "grown_entry k b c"
  shows "grown_entry k a c"
proof (cases a)
  case (Some s)
  then obtain t where b: "b = Some (s\<lparr>sr_started := t\<rparr>)" using assms(1) by auto
  then obtain u where "c = Some (s\<lparr>sr_started := t, sr_started := u\<rparr>)" using assms(2) by auto
  then have "c = Some (s\<lparr>sr_started := u\<rparr>)" by simp
  then show ?thesis unfolding Some grown_entry_simps by (rule exI)
next
  case None
  show ?thesis
  proof (cases b)
    case None
    with assms(2) \<open>a = None\<close> show ?thesis by simp
  next
    case (Some x)
    then obtain e em dev src t where x: "x = claimed_row e k em dev src t" using assms(1) None by auto
    obtain u where "c = Some (x\<lparr>sr_started := u\<rparr>)" using assms(2) Some by auto
    then have "c = Some (claimed_row e k em dev src u)" by (simp add: x claimed_row_start)
    with None show ?thesis unfolding None grown_entry_simps by blast
  qed
qed

lemma grown_trans: "grown d d1 \<Longrightarrow> grown d1 d2 \<Longrightarrow> grown d d2"
  unfolding grown_def using grown_entry_trans by (metis (no_types, lifting))

lemma grown_owner: "grown d d' \<Longrightarrow> owner_of d k = Some own \<Longrightarrow> owner_of d' k = Some own"
  unfolding grown_def owner_of_def by (erule conjE)+ (drule spec [of _ k], auto)

lemma claim_stmt_grown:
  assumes "claim_stmt e sid em dev src t d = (own, d1)"
  shows "grown d d1"
proof -
  have "t_events d1 = t_events d" "t_messages d1 = t_messages d" "t_ledger d1 = t_ledger d"
    "distinct (map sr_id (t_sessions d)) \<Longrightarrow> distinct (map sr_id (t_sessions d1))"
    using assms find_none_ids [of d sid] by (auto simp: claim_stmt_def split: option.splits)
  moreover have "grown_entry k (find_session d k) (find_session d1 k)" for k
    using same_start by (simp add: claim_stmt_find(1) [OF assms] grown_entry_def split: option.split) blast
  ultimately show ?thesis by (simp add: grown_def)
qed

definition own_item :: "db \<Rightarrow> Ingest \<Rightarrow> bool" where
  "own_item d it \<longleftrightarrow> owner_of d (session_of it) = Some (in_Email it)"

definition owners_ok :: "admission \<Rightarrow> db \<Rightarrow> bool" where
  "owners_ok st d \<longleftrightarrow> (\<forall>(sid, own)\<in>set (ad_owners st). owner_of d sid = Some own)"

lemma admit_as_fields [simp]: "ad_owners (admit_as own it st) = ad_owners st"
  by (simp add: admit_as_def)

lemma admit_spec:
  "admit e its st d = Inr (st', d') \<Longrightarrow> owners_ok st d \<Longrightarrow>
   grown d d' \<and> ad_admitted st' = ad_admitted st @ filter (own_item d') its \<and>
   map rf_ID (ad_refused st') = map rf_ID (ad_refused st) @ map item_id_of (filter (\<lambda>it. \<not> own_item d' it) its) \<and>
   (\<forall>it\<in>set its. owner_of d' (session_of it) \<noteq> None)"
proof (induction e its st d rule: admit.induct)
  case (1 e st d)
  then show ?case by (simp add: grown_refl)
next
  case (2 e it its st d)
  show ?case
  proof (cases "map_of (ad_owners st) (session_of it)")
    case (Some own)
    have own: "owner_of d (session_of it) = Some own"
      using map_of_SomeD [OF Some] "2.prems"(2) by (auto simp: owners_ok_def)
    have ok: "owners_ok (admit_as own it st) d" using "2.prems"(2) by (simp add: owners_ok_def)
    have run: "admit e its (admit_as own it st) d = Inr (st', d')" using "2.prems"(1) Some by simp
    note ih = "2.IH"(2) [OF Some run ok]
    have "owner_of d' (session_of it) = Some own" using grown_owner [OF conjunct1 [OF ih] own] .
    with ih show ?thesis by (auto simp: own_item_def admit_as_def)
  next
    case None
    obtain own d1 where c: "claimSession e it d = Inr (own, d1)"
      and run: "admit e its (admit_as own it (st\<lparr>ad_owners := (session_of it, own) # ad_owners st\<rparr>)) d1 = Inr (st', d')"
      using "2.prems"(1) None by (auto simp: bindS_Inr)
    have cs: "claim_stmt e (session_of it) (in_Email it) (in_DeviceID it) (ev_Source (in_Event it)) (ev_OccurredAt (in_Event it)) d = (own, d1)"
      using c by (simp add: claimSession_def)
    have g: "grown d d1" and own: "owner_of d1 (session_of it) = Some own"
      using claim_stmt_grown [OF cs] claim_stmt_find(2) [OF cs] by auto
    have ok: "owners_ok (admit_as own it (st\<lparr>ad_owners := (session_of it, own) # ad_owners st\<rparr>)) d1"
      using "2.prems"(2) own grown_owner [OF g] by (auto simp: owners_ok_def)
    note ih = "2.IH"(1) [OF None run ok]
    have "owner_of d' (session_of it) = Some own" using grown_owner [OF conjunct1 [OF ih] own] .
    with ih grown_trans [OF g conjunct1 [OF ih]] show ?thesis by (auto simp: own_item_def admit_as_def)
  qed
qed

end
