(* ===== verification/StoreRows.thy ===== *)
theory StoreRows
  imports StoreInv
begin

text \<open>
  The rows of \<open>events\<close> and \<open>usage_ledger\<close> across the inserts: a row's id, session, owner and
  type never change, the fresh rows are exactly the admitted items under ids not yet stored, and
  every credited call is a new ledger row naming a stored event.
\<close>

section \<open>The columns of an event that never change\<close>

definition imm :: "event_row \<Rightarrow> string \<times> string \<times> string \<times> event_type" where
  "imm x = (er_id x, er_session x, er_email x, er_type x)"

lemma imm_updates [simp]: "imm (conflict_update r x) = imm x" "imm (upgrade_row r x) = imm x"
  by (simp_all add: imm_def conflict_update_def upgrade_row_def merge_keys_def)

lemma imm_id: "map imm xs = map imm ys \<Longrightarrow> map er_id xs = map er_id ys"
  by (drule arg_cong [of _ _ "map fst"]) (simp add: comp_def imm_def)

lemma upgrade_stmt_imm: "map imm (t_events (upgrade_stmt us d)) = map imm (t_events d)"
  by (simp add: upgrade_stmt_def split: option.split)

lemma upgrade_stmt_frame [simp]:
  "t_sessions (upgrade_stmt us d) = t_sessions d" "t_messages (upgrade_stmt us d) = t_messages d"
  "t_ledger (upgrade_stmt us d) = t_ledger d"
  by (simp_all add: upgrade_stmt_def)

lemma insert_row_spec:
  assumes "insert_row r t = (out, t')"
  shows "map imm t' = map imm t @ (if er_id r \<in> er_id ` set t then [] else [imm r])"
    and "map fst (filter snd out) = (if er_id r \<in> er_id ` set t then [] else [er_id r])"
    and "er_id ` set t' = insert (er_id r) (er_id ` set t)"
proof -
  have f: "find (\<lambda>x. er_id x = er_id r) t = None \<longleftrightarrow> er_id r \<notin> er_id ` set t"
    by (metis (mono_tags, lifting) find_None_iff image_iff)
  have u: "map imm (map (\<lambda>x. if er_id x = er_id r then conflict_update r x else x) t) = map imm t" by simp
  show imm: "map imm t' = map imm t @ (if er_id r \<in> er_id ` set t then [] else [imm r])"
    using assms f u by (auto simp: insert_row_def split: option.splits if_splits)
  show "map fst (filter snd out) = (if er_id r \<in> er_id ` set t then [] else [er_id r])"
    using assms f by (auto simp: insert_row_def split: option.splits if_splits)
  have "er_id ` set t' = fst ` set (map imm t')" by (auto simp: imm_def image_image)
  also have "\<dots> = insert (er_id r) (er_id ` set t)"
    unfolding imm by (auto simp: imm_def image_image image_Un)
  finally show "er_id ` set t' = insert (er_id r) (er_id ` set t)" .
qed

lemma insert_rows_spec:
  "insert_rows rs t = (out, t') \<Longrightarrow> distinct (map er_id rs) \<Longrightarrow>
   map imm t' = map imm t @ map imm (filter (\<lambda>r. er_id r \<notin> er_id ` set t) rs) \<and>
   map fst (filter snd out) = map er_id (filter (\<lambda>r. er_id r \<notin> er_id ` set t) rs)"
proof (induction rs t arbitrary: out t' rule: insert_rows.induct)
  case (1 t)
  then show ?case by simp
next
  case (2 r rs t)
  obtain out1 t1 where one: "insert_row r t = (out1, t1)" by (meson surj_pair)
  obtain out2 where two: "insert_rows rs t1 = (out2, t')" and out: "out = out1 @ out2"
    using "2.prems"(1) one by (auto split: prod.splits)
  note S = insert_row_spec [OF one]
  have d: "distinct (map er_id rs)" "er_id r \<notin> er_id ` set rs" using "2.prems"(2) by auto
  have same: "filter (\<lambda>x. er_id x \<notin> er_id ` set t1) rs = filter (\<lambda>x. er_id x \<notin> er_id ` set t) rs"
    unfolding S(3) using d(2) by (intro filter_cong refl) (metis image_eqI insert_iff)
  note I = "2.IH" [OF one [symmetric] two d(1), unfolded same]
  show ?case using I S(1,2) out by auto
qed

section \<open>Matching by record identity\<close>

definition held_by :: "codec \<Rightarrow> db \<Rightarrow> Ingest list \<Rightarrow> held_map \<Rightarrow> bool" where
  "held_by c d its held \<longleftrightarrow> (\<forall>(i, ids)\<in>set held. \<exists>it\<in>set its. i = item_id_of it \<and>
     ids = map er_id (matched_rows c d it) \<and> matched_rows c d it \<noteq> [])"

lemma matched_rows_in: "set (matched_rows c d it) \<subseteq> set (t_events d)"
  by (auto simp: matched_rows_def match_stmt_def split: option.splits)

lemma held_of_matched: "held_by c d its (held_of (matched_items c d its))"
  by (auto simp: held_by_def held_of_def matched_items_def)

lemma upgradeByIdentity_spec:
  assumes "upgradeByIdentity e its d = Inr ((held, up), d1)"
  shows "map imm (t_events d1) = map imm (t_events d)" "t_sessions d1 = t_sessions d"
    "t_messages d1 = t_messages d" "t_ledger d1 = t_ledger d" "held_by (tx_codec e) d its held"
  using assms held_of_matched [of "tx_codec e" d its]
  by (auto simp: upgradeByIdentity_def Let_def bindS_Inr held_by_def upgrade_stmt_imm
      split: if_splits sum.splits list.splits)

lemma held_ids:
  assumes "held_by c d its held" "map_of (rev held) i = Some ids"
  shows "ids \<noteq> []" "set ids \<subseteq> set (event_ids d)"
proof -
  have "(i, ids) \<in> set held" using map_of_SomeD [OF assms(2)] by simp
  with assms(1) obtain it where "ids = map er_id (matched_rows c d it)" "matched_rows c d it \<noteq> []"
    by (auto simp: held_by_def)
  with matched_rows_in [of c d it] show "ids \<noteq> []" "set ids \<subseteq> set (event_ids d)"
    by (auto simp: event_ids_def)
qed

section \<open>Inserting\<close>

definition item_imm :: "Ingest \<Rightarrow> string \<times> string \<times> string \<times> event_type" where
  "item_imm it = (item_id_of it, session_of it, in_Email it, ev_Type (in_Event it))"

lemma row_of_fields [simp]: "er_id (row_of c it i b) = i" "er_session (row_of c it i b) = session_of it"
  "er_email (row_of c it i b) = in_Email it" "er_type (row_of c it i b) = ev_Type (in_Event it)"
  by (simp_all add: row_of_def Let_def)

lemma event_rows_spec:
  "event_rows e its = Inr rs \<Longrightarrow> map imm rs = map item_imm its"
  by (induction its arbitrary: rs) (auto simp: imm_def item_imm_def split: option.splits sum.splits)

lemma event_rows_filter:
  assumes "event_rows e its = Inr rs"
  shows "map imm (filter (\<lambda>r. P (er_id r)) rs) = map item_imm (filter (\<lambda>it. P (item_id_of it)) its)"
proof -
  have "map imm (filter (\<lambda>r. P (er_id r)) rs) = filter (\<lambda>x. P (fst x)) (map imm rs)"
    by (simp add: filter_map comp_def imm_def)
  also have "\<dots> = map item_imm (filter (\<lambda>it. P (item_id_of it)) its)"
    unfolding event_rows_spec [OF assms] by (simp add: filter_map comp_def item_imm_def)
  finally show ?thesis .
qed

lemma imm_item_ids: "map imm rs = map item_imm its \<Longrightarrow> map er_id rs = map item_id_of its"
  by (drule arg_cong [of _ _ "map fst"]) (simp add: comp_def imm_def item_imm_def)

text \<open>What an insert makes fresh.\<close>

definition fresh_items :: "db \<Rightarrow> held_map \<Rightarrow> Ingest list \<Rightarrow> Ingest list" where
  "fresh_items d held its =
     filter (\<lambda>it. item_id_of it \<notin> set (event_ids d) \<and> \<not> is_alias held (item_id_of it)) its"

lemma insertEvents_spec:
  assumes run: "insertEvents e its d = Inr ((inserted, held, up), d2)"
  shows "held_by (tx_codec e) d its held" "t_sessions d2 = t_sessions d" "t_messages d2 = t_messages d"
    "t_ledger d2 = t_ledger d" "inserted = map item_id_of (fresh_items d held its)"
    "map imm (t_events d2) = map imm (t_events d) @ map item_imm (fresh_items d held its)"
proof -
  obtain d1 where up: "upgradeByIdentity e its d = Inr ((held, up), d1) \<or>
      (\<exists>up0. upgradeByIdentity e its d = Inr ((held, up0), d1))" and
    rest: "(case event_rows e (filter (\<lambda>it. \<not> is_alias held (item_id_of it)) its) of
         Inl st \<Rightarrow> False
       | Inr [] \<Rightarrow> inserted = [] \<and> d2 = d1
       | Inr rs \<Rightarrow> \<exists>out. insert_stmt e rs d1 = Inr (out, d2) \<and> inserted = map fst (filter snd out))"
    using run unfolding insertEvents_def by (fastforce simp: bindS_Inr split: sum.splits list.splits)
  then obtain up0 where u: "upgradeByIdentity e its d = Inr ((held, up0), d1)" by blast
  note U = upgradeByIdentity_spec [OF u]
  show "held_by (tx_codec e) d its held" by (rule U(5))
  let ?its = "filter (\<lambda>it. \<not> is_alias held (item_id_of it)) its"
  obtain rs where rs: "event_rows e ?its = Inr rs" using rest by (auto split: sum.splits)
  have ids1: "er_id ` set (t_events d1) = set (event_ids d)"
    using imm_id [OF U(1)] by (metis event_ids_def set_map)
  have fresh: "map imm (filter (\<lambda>r. er_id r \<notin> er_id ` set (t_events d1)) rs) = map item_imm (fresh_items d held its)"
    using event_rows_filter [OF rs, of "\<lambda>i. i \<notin> set (event_ids d)"]
    by (simp add: ids1 fresh_items_def filter_filter conj_commute)
  have all: "inserted = map item_id_of (fresh_items d held its) \<and> t_sessions d2 = t_sessions d1 \<and>
    t_messages d2 = t_messages d1 \<and> t_ledger d2 = t_ledger d1 \<and>
    map imm (t_events d2) = map imm (t_events d1) @ map item_imm (fresh_items d held its)"
  proof (cases rs)
    case Nil
    with rest rs fresh show ?thesis by auto
  next
    case (Cons r rs')
    then obtain out where ins: "insert_stmt e rs d1 = Inr (out, d2)" and i: "inserted = map fst (filter snd out)"
      using rest rs by auto
    have drs: "distinct (map er_id rs)" using ins by (auto simp: insert_stmt_def split: if_splits)
    obtain t where t: "insert_rows rs (t_events d1) = (out, t)" "d2 = d1\<lparr>t_events := t\<rparr>"
      using ins by (auto simp: insert_stmt_def split: if_splits prod.splits)
    note I = insert_rows_spec [OF t(1) drs]
    show ?thesis using I i t(2) fresh imm_item_ids [OF fresh] by simp
  qed
  with U show "t_sessions d2 = t_sessions d" "t_messages d2 = t_messages d" "t_ledger d2 = t_ledger d"
    "inserted = map item_id_of (fresh_items d held its)"
    "map imm (t_events d2) = map imm (t_events d) @ map item_imm (fresh_items d held its)" by auto
qed

lemma fresh_by_id: "filter (\<lambda>it. item_id_of it \<in> item_id_of ` set (fresh_items d held its)) its = fresh_items d held its"
  unfolding fresh_items_def by (intro filter_cong refl) auto

lemma event_ids_after:
  "map imm (t_events d2) = map imm (t_events d) @ map item_imm new \<Longrightarrow>
   set (event_ids d2) = set (event_ids d) \<union> item_id_of ` set new"
proof -
  assume a: "map imm (t_events d2) = map imm (t_events d) @ map item_imm new"
  have "set (event_ids d2) = fst ` set (map imm (t_events d2))" by (simp add: event_ids_def image_image imm_def)
  also have "\<dots> = set (event_ids d) \<union> item_id_of ` set new"
    unfolding a by (simp add: event_ids_def image_Un image_image imm_def item_imm_def)
  finally show ?thesis .
qed

section \<open>The batch as the database holds it\<close>

lemma as_stored_fields [simp]: "item_id_of (as_stored i it) = i" "session_of (as_stored i it) = session_of it"
  "in_Email (as_stored i it) = in_Email it" "ev_Usage (in_Event (as_stored i it)) = ev_Usage (in_Event it)"
  by (simp_all add: as_stored_def)

lemma place_spec:
  "item_id_of ` set (place it xs) = insert (item_id_of it) (item_id_of ` set xs)"
  "set (place it xs) \<subseteq> insert it (set xs)"
  "distinct (map item_id_of xs) \<Longrightarrow> distinct (map item_id_of (place it xs))"
proof -
  show ids: "item_id_of ` set (place it xs) = insert (item_id_of it) (item_id_of ` set xs)" for it xs
    by (induction it xs rule: place.induct) auto
  show "set (place it xs) \<subseteq> insert it (set xs)"
    by (induction it xs rule: place.induct) auto
  show "distinct (map item_id_of xs) \<Longrightarrow> distinct (map item_id_of (place it xs))"
  proof (induction it xs rule: place.induct)
    case (1 it)
    then show ?case by simp
  next
    case (2 it x xs)
    show ?case
    proof (cases "item_id_of x = item_id_of it")
      case True
      with 2 show ?thesis by auto
    next
      case False
      have "item_id_of x \<notin> set (map item_id_of (place it xs))" unfolding set_map ids using "2.prems" False by simp
      moreover have "distinct (map item_id_of (place it xs))" using "2.IH" [OF False] "2.prems" by simp
      ultimately show ?thesis using False by (simp only: place.simps if_False list.map distinct.simps simp_thms)
    qed
  qed
qed

lemma fold_place_spec:
  "item_id_of ` set (fold place ys xs) = item_id_of ` set xs \<union> item_id_of ` set ys \<and>
   set (fold place ys xs) \<subseteq> set xs \<union> set ys \<and>
   (distinct (map item_id_of xs) \<longrightarrow> distinct (map item_id_of (fold place ys xs)))"
proof (induction ys arbitrary: xs)
  case Nil
  then show ?case by simp
next
  case (Cons y ys)
  from Cons.IH [of "place y xs"] place_spec [where it = y and xs = xs] show ?case by auto
qed

lemma copies_from:
  assumes "x \<in> set (copies held it)"
  shows "x = it \<and> map_of (rev held) (item_id_of it) = None \<or>
    (\<exists>ids i. map_of (rev held) (item_id_of it) = Some ids \<and> i \<in> set ids \<and> x = as_stored i it)"
  using assms by (auto simp: copies_def split: option.splits)

lemma collapse_as_fold:
  assumes "distinct (map item_id_of its)"
  shows "distinct (map item_id_of (collapseByStoredID its held))"
    and "set (collapseByStoredID its held) \<subseteq> (\<Union>it\<in>set its. set (copies held it))"
    and "item_id_of ` set (collapseByStoredID its held) = (\<Union>it\<in>set its. item_id_of ` set (copies held it))"
  using fold_place_spec [of "concat (map (copies held) its)" "[]"] assms
  by (auto simp: collapseByStoredID_def copies_def)

lemma collapse_spec:
  assumes dist: "distinct (map item_id_of its)" and held: "held_by c d its held"
    and stored: "stored = collapseByStoredID its held"
  shows "distinct (map item_id_of stored)"
    and "\<forall>x\<in>set stored. \<exists>it\<in>set its. session_of x = session_of it \<and> in_Email x = in_Email it"
    and "\<forall>x\<in>set stored. item_id_of x \<in> set (event_ids d) \<or> x \<in> set (fresh_items d held its)"
    and "set (fresh_items d held its) \<subseteq> set stored"
proof -
  note C = collapse_as_fold [OF dist, of held, folded stored]
  show "distinct (map item_id_of stored)" by (rule C(1))
  have from_its: "\<exists>it\<in>set its. session_of x = session_of it \<and> in_Email x = in_Email it \<and>
      (item_id_of x \<in> set (event_ids d) \<or> x = it \<and> map_of (rev held) (item_id_of it) = None)"
    if x: "x \<in> set stored" for x
  proof -
    obtain it where it: "it \<in> set its" "x \<in> set (copies held it)" using C(2) x by blast
    from copies_from [OF it(2)] show ?thesis
    proof
      assume "x = it \<and> map_of (rev held) (item_id_of it) = None"
      with it(1) show ?thesis by auto
    next
      assume "\<exists>ids i. map_of (rev held) (item_id_of it) = Some ids \<and> i \<in> set ids \<and> x = as_stored i it"
      then obtain ids i where x: "map_of (rev held) (item_id_of it) = Some ids" "i \<in> set ids" "x = as_stored i it" by blast
      then have "i \<in> set (event_ids d)" using held_ids(2) [OF held x(1)] by blast
      then show ?thesis using it(1) x(3) by (intro bexI [of _ it]) simp_all
    qed
  qed
  then show "\<forall>x\<in>set stored. \<exists>it\<in>set its. session_of x = session_of it \<and> in_Email x = in_Email it" by blast
  show old: "\<forall>x\<in>set stored. item_id_of x \<in> set (event_ids d) \<or> x \<in> set (fresh_items d held its)"
  proof
    fix x assume "x \<in> set stored"
    from from_its [OF this] show "item_id_of x \<in> set (event_ids d) \<or> x \<in> set (fresh_items d held its)"
      by (auto simp: fresh_items_def is_alias_def)
  qed
  show "set (fresh_items d held its) \<subseteq> set stored"
  proof
    fix it assume f: "it \<in> set (fresh_items d held its)"
    then have it: "it \<in> set its" "item_id_of it \<notin> set (event_ids d)" "\<not> is_alias held (item_id_of it)"
      by (auto simp: fresh_items_def)
    have "map_of (rev held) (item_id_of it) = None"
      using it(2,3) held_ids(2) [OF held] by (auto simp: is_alias_def split: option.splits)
    then have "item_id_of it \<in> item_id_of ` set stored" unfolding C(3) using it(1) by (force simp: copies_def)
    then obtain x where x: "x \<in> set stored" "item_id_of x = item_id_of it" by auto
    then have "x \<in> set its" using old it(2) by (auto simp: fresh_items_def)
    then have "x = it" using dist it(1) x(2) by (metis distinct_map inj_onD)
    with x show "it \<in> set stored" by simp
  qed
qed

section \<open>The ledger\<close>

lemma ledger_rows_from:
  "r \<in> set (ledger_rows e its seen) \<Longrightarrow> \<exists>it\<in>set its. \<exists>u. ev_Usage (in_Event it) = Some u \<and> r = ledger_row_of e it u"
  by (induction e its seen rule: ledger_rows.induct) (auto simp: Let_def split: option.splits if_splits)

lemma ledger_row_fields [simp]: "lr_event (ledger_row_of e it u) = item_id_of it" "lr_session (ledger_row_of e it u) = session_of it"
  "lr_email (ledger_row_of e it u) = in_Email it" "lr_input (ledger_row_of e it u) = InputTokens u"
  "lr_output (ledger_row_of e it u) = OutputTokens u" "lr_read (ledger_row_of e it u) = CacheReadTokens u"
  by (simp_all add: ledger_row_of_def Let_def)

lemma ledger_rows_distinct:
  "distinct (map item_id_of its) \<Longrightarrow> distinct (map lr_event (ledger_rows e its seen))"
proof (induction e its seen rule: ledger_rows.induct)
  case (1 e seen)
  then show ?case by simp
next
  case (2 e it its seen)
  have new: "item_id_of it \<notin> item_id_of ` set its" using "2.prems" by simp
  have "lr_event r \<noteq> item_id_of it" if r: "r \<in> set (ledger_rows e its s)" for r s
  proof -
    obtain x u where x: "x \<in> set its" "r = ledger_row_of e x u" using ledger_rows_from [OF r] by blast
    then have "lr_event r \<in> item_id_of ` set its" by simp
    with new show ?thesis by metis
  qed
  then have "item_id_of it \<notin> lr_event ` set (ledger_rows e its s)" for s by force
  with 2 show ?case by (auto simp: Let_def split: option.splits)
qed

lemma credit_rows_spec:
  "set (credit_rows rs t) \<subseteq> set rs"
  "distinct (map f rs) \<Longrightarrow> distinct (map f (credit_rows rs t))"
  "distinct (map ledger_key t) \<Longrightarrow> distinct (map ledger_key (t @ credit_rows rs t))"
proof -
  show sub: "set (credit_rows rs t) \<subseteq> set rs" for rs t
    by (induction rs t rule: credit_rows.induct) auto
  show "distinct (map f rs) \<Longrightarrow> distinct (map f (credit_rows rs t))"
  proof (induction rs t rule: credit_rows.induct)
    case (1 t)
    then show ?case by simp
  next
    case (2 r rs t)
    with sub [of rs "t @ [r]"] show ?case by auto
  qed
  show "distinct (map ledger_key t) \<Longrightarrow> distinct (map ledger_key (t @ credit_rows rs t))"
  proof (induction rs t rule: credit_rows.induct)
    case (1 t)
    then show ?case by simp
  next
    case (2 r rs t)
    then show ?case by auto
  qed
qed

text \<open>A credited call: a new ledger row of a stored item, carrying the item's own usage.\<close>

definition credited_from :: "Ingest list \<Rightarrow> ledger_row \<Rightarrow> Usage \<Rightarrow> bool" where
  "credited_from its r u \<longleftrightarrow> (\<exists>it\<in>set its. lr_event r = item_id_of it \<and> lr_session r = session_of it \<and>
     lr_email r = in_Email it \<and> InputTokens u = lr_input r \<and> OutputTokens u = lr_output r \<and> CacheReadTokens u = lr_read r)"

lemma usage_of_distinct:
  "distinct (map item_id_of its) \<Longrightarrow> it \<in> set its \<Longrightarrow> usage_of its (item_id_of it) = ev_Usage (in_Event it)"
  by (induction its) (auto simp: usage_of_def)

lemma creditUsage_spec:
  assumes run: "creditUsage e its d = Inr (counted, d1)" and dist: "distinct (map item_id_of its)"
  obtains new where "d1 = d\<lparr>t_ledger := t_ledger d @ new\<rparr>" "distinct (map lr_event new)"
    "map fst counted = map lr_event new" "map (snd \<circ> snd) counted = map lr_cost new"
    "list_all2 (\<lambda>(i, u, c) r. credited_from its r u) counted new"
    "distinct (map ledger_key (t_ledger d)) \<Longrightarrow> distinct (map ledger_key (t_ledger d @ new))"
proof (cases "ledger_rows e its [] = []")
  case True
  with run have "counted = []" "d1 = d" by (simp_all add: creditUsage_def)
  with that [of "[]"] show thesis by simp
next
  case False
  let ?round = "\<lambda>r. r\<lparr>lr_cost := round6 (lr_cost r)\<rparr>"
  let ?rs = "map ?round (ledger_rows e its [])"
  define new where "new = credit_rows ?rs (t_ledger d)"
  let ?u = "\<lambda>r. case usage_of its (lr_event r) of None \<Rightarrow> zero_Usage | Some u \<Rightarrow> u"
  have c: "counted = map (\<lambda>r. (lr_event r, ?u r, lr_cost r)) new" and d1: "d1 = d\<lparr>t_ledger := t_ledger d @ new\<rparr>"
    using run False by (auto simp: creditUsage_def Let_def credit_stmt_def bindS_Inr new_def)
  have dr: "distinct (map lr_event ?rs)" using ledger_rows_distinct [OF dist] by (simp add: comp_def)
  have "credited_from its r (?u r)" if "r \<in> set new" for r
  proof -
    have "r \<in> set ?rs" using that credit_rows_spec(1) unfolding new_def by blast
    then obtain r0 where "r0 \<in> set (ledger_rows e its [])" "r = ?round r0" by auto
    moreover then obtain it u where "it \<in> set its" "ev_Usage (in_Event it) = Some u" "r0 = ledger_row_of e it u"
      using ledger_rows_from by blast
    ultimately show ?thesis using usage_of_distinct [OF dist] by (auto simp: credited_from_def)
  qed
  then have "list_all2 (\<lambda>(i, u, c) r. credited_from its r u) counted new"
    unfolding c by (simp add: list_all2_conv_all_nth)
  then show thesis
    using that [of new] d1 c credit_rows_spec(2) [OF dr, of "t_ledger d"] credit_rows_spec(3) [of "t_ledger d" ?rs]
    by (simp add: comp_def new_def)
qed

end
