(* ===== verification/StoreSums.thy ===== *)
theory StoreSums
  imports StoreRows
begin

text \<open>
  The arithmetic of a batch: what its increments add to a session's columns. A rollup column, the
  field of an increment behind it, what one fresh event adds and what one credited call adds are
  the interface \<open>rollup_column\<close>; its lemmas follow an increment from the loop that builds it to
  the row it lands in, and it is interpreted for every counter and token column.
\<close>

section \<open>Sums over increments and items\<close>

definition dsum :: "(SessionDelta \<Rightarrow> 'a::comm_monoid_add) \<Rightarrow> string \<Rightarrow> SessionDelta list \<Rightarrow> 'a" where
  "dsum F sid ds = sum_list (map F (filter (\<lambda>d. d_SessionID d = sid) ds))"

definition isum :: "(Ingest \<Rightarrow> 'a::comm_monoid_add) \<Rightarrow> string \<Rightarrow> Ingest list \<Rightarrow> 'a" where
  "isum g sid its = sum_list (map g (filter (\<lambda>it. session_of it = sid) its))"

definition credit_of :: "(Usage \<times> rat \<Rightarrow> 'a::zero) \<Rightarrow> credits \<Rightarrow> string \<Rightarrow> 'a" where
  "credit_of paid counted i = (case map_of counted i of None \<Rightarrow> 0 | Some uc \<Rightarrow> paid uc)"

lemma dsum_simps [simp]: "dsum F sid [] = 0"
  "dsum F sid (d # ds) = (if d_SessionID d = sid then F d + dsum F sid ds else dsum F sid ds)"
  by (simp_all add: dsum_def)

lemma isum_simps [simp]: "isum g sid [] = 0"
  "isum g sid (it # its) = (if session_of it = sid then g it + isum g sid its else isum g sid its)"
  by (simp_all add: isum_def)

lemma isum_append: "isum g sid (xs @ ys) = isum g sid xs + isum g sid ys"
  by (simp add: isum_def)

lemma isum_add: "isum (\<lambda>it. g it + h it) sid its = isum g sid its + isum h sid its"
  by (induction its) (auto simp: ac_simps)

lemma isum_split: "isum g sid its = isum g sid (filter P its) + isum g sid (filter (\<lambda>x. \<not> P x) its)"
  by (induction its) (auto simp: ac_simps)

lemma isum_set:
  assumes "distinct xs" "distinct ys" "set xs = set ys"
  shows "isum g sid xs = isum g sid ys"
proof -
  have "mset (filter (\<lambda>it. session_of it = sid) xs) = mset (filter (\<lambda>it. session_of it = sid) ys)"
    using assms by (simp add: set_eq_iff_mset_eq_distinct)
  then have "mset (map g (filter (\<lambda>it. session_of it = sid) xs)) = mset (map g (filter (\<lambda>it. session_of it = sid) ys))"
    by simp
  then show ?thesis unfolding isum_def by (metis sum_mset_sum_list)
qed

lemma dsum_mset: "mset xs = mset ys \<Longrightarrow> dsum F sid xs = dsum F sid ys"
proof -
  assume "mset xs = mset ys"
  then have "mset (map F (filter (\<lambda>d. d_SessionID d = sid) xs)) = mset (map F (filter (\<lambda>d. d_SessionID d = sid) ys))"
    by simp
  then show ?thesis unfolding dsum_def by (metis sum_mset_sum_list)
qed

lemma upd_delta_dsum:
  assumes "\<And>d. F (f d) = F d + k" "\<And>d. d_SessionID (f d) = d_SessionID d" "F fresh = 0"
  shows "dsum F sid (upd_delta f fresh ds) = dsum F sid ds + (if d_SessionID fresh = sid then k else 0)"
  by (induction ds) (auto simp: assms ac_simps)

lemma upd_delta_ids:
  assumes "\<And>d. d_SessionID (f d) = d_SessionID d"
  shows "d_SessionID ` set (upd_delta f fresh ds) = insert (d_SessionID fresh) (d_SessionID ` set ds)"
    and "distinct (map d_SessionID ds) \<Longrightarrow> distinct (map d_SessionID (upd_delta f fresh ds))"
proof -
  show ids: "d_SessionID ` set (upd_delta f fresh ds) = insert (d_SessionID fresh) (d_SessionID ` set ds)" for ds
    using assms by (induction ds) auto
  show "distinct (map d_SessionID ds) \<Longrightarrow> distinct (map d_SessionID (upd_delta f fresh ds))"
  proof (induction ds)
    case Nil
    then show ?case by simp
  next
    case (Cons d ds)
    show ?case
    proof (cases "d_SessionID d = d_SessionID fresh")
      case True
      with Cons assms show ?thesis by simp
    next
      case False
      have "d_SessionID d \<notin> set (map d_SessionID (upd_delta f fresh ds))"
        unfolding set_map ids using Cons.prems False by simp
      with Cons False show ?thesis by simp
    qed
  qed
qed

lemma delta_context_fields [simp]: "d_SessionID (delta_context it d) = d_SessionID d"
  "d_UserTurns (delta_context it d) = d_UserTurns d" "d_ToolCalls (delta_context it d) = d_ToolCalls d"
  "d_Subagents (delta_context it d) = d_Subagents d" "d_Errors (delta_context it d) = d_Errors d"
  "d_TokensInput (delta_context it d) = d_TokensInput d" "d_TokensOutput (delta_context it d) = d_TokensOutput d"
  "d_TokensCacheRead (delta_context it d) = d_TokensCacheRead d" "d_CostUSD (delta_context it d) = d_CostUSD d"
  by (simp_all add: delta_context_def Let_def)

lemma delta_prompt_fields [simp]: "d_SessionID (delta_prompt c it d) = d_SessionID d"
  "d_UserTurns (delta_prompt c it d) = d_UserTurns d + 1" "d_ToolCalls (delta_prompt c it d) = d_ToolCalls d"
  "d_Subagents (delta_prompt c it d) = d_Subagents d" "d_Errors (delta_prompt c it d) = d_Errors d"
  "d_TokensInput (delta_prompt c it d) = d_TokensInput d" "d_TokensOutput (delta_prompt c it d) = d_TokensOutput d"
  "d_TokensCacheRead (delta_prompt c it d) = d_TokensCacheRead d" "d_CostUSD (delta_prompt c it d) = d_CostUSD d"
  by (simp_all add: delta_prompt_def Let_def)

definition one_if :: "event_type \<Rightarrow> Ingest \<Rightarrow> int" where
  "one_if t it = (if ev_Type (in_Event it) = t then 1 else 0)"

lemma delta_count_fields [simp]: "d_SessionID (delta_count c it d) = d_SessionID d"
  "d_UserTurns (delta_count c it d) = d_UserTurns d + one_if UserPrompt it"
  "d_ToolCalls (delta_count c it d) = d_ToolCalls d + one_if ToolCall it"
  "d_Subagents (delta_count c it d) = d_Subagents d + one_if SubagentStart it"
  "d_Errors (delta_count c it d) = d_Errors d + one_if ToolFailed it"
  "d_TokensInput (delta_count c it d) = d_TokensInput d" "d_TokensOutput (delta_count c it d) = d_TokensOutput d"
  "d_TokensCacheRead (delta_count c it d) = d_TokensCacheRead d" "d_CostUSD (delta_count c it d) = d_CostUSD d"
  by (auto simp: delta_count_def one_if_def Let_def split: event_type.split)

lemma delta_item_id [simp]: "d_SessionID (delta_item c counted it d) = d_SessionID d"
  by (simp add: delta_item_def delta_credit_def Let_def split: option.split prod.split)

lemma delta_credit_id [simp]: "d_SessionID (delta_credit uc d) = d_SessionID d"
  by (simp add: delta_credit_def split: prod.split)

lemma new_delta_id [simp]: "d_SessionID (new_delta it) = session_of it" "d_SessionID (late_delta it) = session_of it"
  by (simp_all add: new_delta_def late_delta_def)

section \<open>The interface of a rollup column\<close>

locale rollup_column =
  fixes G :: "session_row \<Rightarrow> 'a::comm_monoid_add" and F :: "SessionDelta \<Rightarrow> 'a"
    and own :: "Ingest \<Rightarrow> 'a" and paid :: "Usage \<times> rat \<Rightarrow> 'a"
  assumes count: "F (delta_count c it (delta_context it d)) = F d + own it"
    and credit: "F (delta_credit uc d) = F d + paid uc"
    and redact: "F (d\<lparr>d_Redactions := rd\<rparr>) = F d"
    and fresh: "F (new_delta it) = 0"
    and late: "F (late_delta it) = 0"
    and auto_mark: "F (d\<lparr>d_Automation := b\<rparr>) = F d"
    and merge: "G (merge_session e r (excluded e dl) s) = G s + F dl"
    and claimed: "G (claimed_row e sid em dev src t) = 0"
    and started: "G (s\<lparr>sr_started := t\<rparr>) = G s"
    and titled: "G (refresh_title e dl h a s) = G s"
    and marked: "G (mark_row e typ s) = G s"
    and dirtied: "G (s\<lparr>sr_dirty := b, sr_updated := t\<rparr>) = G s"
begin

lemma item_sum: "F (delta_item c counted it d) = F d + (own it + credit_of paid counted (item_id_of it))"
  by (simp add: delta_item_def Let_def redact credit count credit_of_def ac_simps split: option.split)

lemma foldDeltas_sum: "dsum F sid (foldDeltas c its counted) = isum (\<lambda>it. own it + credit_of paid counted (item_id_of it)) sid its"
proof -
  have "dsum F sid (fold (\<lambda>it ds. upd_delta (delta_item c counted it) (new_delta it) ds) its ds0)
      = dsum F sid ds0 + isum (\<lambda>it. own it + credit_of paid counted (item_id_of it)) sid its" for ds0
  proof (induction its arbitrary: ds0)
    case Nil
    then show ?case by simp
  next
    case (Cons it its)
    show ?case
      using upd_delta_dsum [where F = F and f = "delta_item c counted it" and fresh = "new_delta it" and sid = sid and ds = ds0,
          OF item_sum delta_item_id fresh]
      by (simp add: Cons.IH ac_simps)
  qed
  from this [of "[]"] show ?thesis by (simp add: foldDeltas_def)
qed

lemma credit_late_sum:
  "dsum F sid (credit_late counted inserted stored ds) =
   dsum F sid ds + isum (\<lambda>it. credit_of paid counted (item_id_of it)) sid (filter (\<lambda>it. item_id_of it \<notin> set inserted) stored)"
proof (induction stored arbitrary: ds)
  case Nil
  then show ?case by (simp add: credit_late_def)
next
  case (Cons it its)
  have one: "credit_late counted inserted (it # its) ds =
      credit_late counted inserted its (if item_id_of it \<in> set inserted then ds
         else case map_of counted (item_id_of it) of None \<Rightarrow> ds | Some uc \<Rightarrow> upd_delta (delta_credit uc) (late_delta it) ds)"
    by (simp add: credit_late_def)
  show ?case
    unfolding one Cons.IH
    using upd_delta_dsum [where F = F and fresh = "late_delta it" and sid = sid and ds = ds, OF credit delta_credit_id late]
    by (auto simp: credit_of_def ac_simps split: option.split)
qed

lemma automation_sum: "dsum F sid (map (\<lambda>d. d\<lparr>d_Automation := Q d\<rparr>) ds) = dsum F sid ds"
  by (induction ds) (auto simp: auto_mark)

lemma deltas_of_sum:
  "dsum F sid (deltas_of e auto inserted counted fresh stored) =
   isum (\<lambda>it. own it + credit_of paid counted (item_id_of it)) sid fresh +
   isum (\<lambda>it. credit_of paid counted (item_id_of it)) sid (filter (\<lambda>it. item_id_of it \<notin> set inserted) stored)"
  by (simp add: deltas_of_def credit_late_sum automation_sum foldDeltas_sum)

lemma grown_colval: "grown d d' \<Longrightarrow> colval G d' k = colval G d k"
proof -
  assume "grown d d'"
  then have "grown_entry k (find_session d k) (find_session d' k)" by (simp add: grown_def)
  then show ?thesis by (cases "find_session d k") (auto simp: colval_def started claimed)
qed

lemma update_colval:
  assumes "\<And>s. sr_id (f s) = sr_id s" "\<And>s. G (f s) = G s"
  shows "colval G (update_sessions sid f d) k = colval G d k"
  by (auto simp: colval_def find_update_sessions assms split: option.split)

end

section \<open>The columns\<close>

lemma merge_session_cols [simp]:
  "sr_user_turns (merge_session e r x s) = sr_user_turns s + sr_user_turns x"
  "sr_tool_calls (merge_session e r x s) = sr_tool_calls s + sr_tool_calls x"
  "sr_subagents (merge_session e r x s) = sr_subagents s + sr_subagents x"
  "sr_errors (merge_session e r x s) = sr_errors s + sr_errors x"
  "sr_input (merge_session e r x s) = sr_input s + sr_input x"
  "sr_output (merge_session e r x s) = sr_output s + sr_output x"
  "sr_read (merge_session e r x s) = sr_read s + sr_read x"
  "sr_cost (merge_session e r x s) = sr_cost s + sr_cost x"
  "sr_id (merge_session e r x s) = sr_id s" "sr_email (merge_session e r x s) = sr_email s"
  by (simp_all add: merge_session_def)

lemma excluded_cols [simp]:
  "sr_user_turns (excluded e d) = d_UserTurns d" "sr_tool_calls (excluded e d) = d_ToolCalls d"
  "sr_subagents (excluded e d) = d_Subagents d" "sr_errors (excluded e d) = d_Errors d"
  "sr_input (excluded e d) = d_TokensInput d" "sr_output (excluded e d) = d_TokensOutput d"
  "sr_read (excluded e d) = d_TokensCacheRead d" "sr_cost (excluded e d) = d_CostUSD d" "sr_id (excluded e d) = d_SessionID d"
  by (simp_all add: excluded_def Let_def)

lemma refresh_title_cols [simp]:
  "sr_user_turns (refresh_title e dl h a s) = sr_user_turns s" "sr_tool_calls (refresh_title e dl h a s) = sr_tool_calls s"
  "sr_subagents (refresh_title e dl h a s) = sr_subagents s" "sr_errors (refresh_title e dl h a s) = sr_errors s"
  "sr_input (refresh_title e dl h a s) = sr_input s" "sr_output (refresh_title e dl h a s) = sr_output s"
  "sr_read (refresh_title e dl h a s) = sr_read s" "sr_cost (refresh_title e dl h a s) = sr_cost s"
  "sr_id (refresh_title e dl h a s) = sr_id s" "sr_email (refresh_title e dl h a s) = sr_email s"
  by (simp_all add: refresh_title_def Let_def)

lemma mark_row_cols [simp]:
  "sr_user_turns (mark_row e t s) = sr_user_turns s" "sr_tool_calls (mark_row e t s) = sr_tool_calls s"
  "sr_subagents (mark_row e t s) = sr_subagents s" "sr_errors (mark_row e t s) = sr_errors s"
  "sr_input (mark_row e t s) = sr_input s" "sr_output (mark_row e t s) = sr_output s"
  "sr_read (mark_row e t s) = sr_read s" "sr_cost (mark_row e t s) = sr_cost s"
  "sr_id (mark_row e t s) = sr_id s" "sr_email (mark_row e t s) = sr_email s"
  by (simp_all add: mark_row_def Let_def)

lemmas column_defs = new_delta_def late_delta_def claimed_row_def delta_credit_def

interpretation turns_col: rollup_column sr_user_turns d_UserTurns "one_if UserPrompt" "\<lambda>_. 0"
  by unfold_locales (simp_all add: column_defs split: prod.split)

interpretation calls_col: rollup_column sr_tool_calls d_ToolCalls "one_if ToolCall" "\<lambda>_. 0"
  by unfold_locales (simp_all add: column_defs split: prod.split)

interpretation agents_col: rollup_column sr_subagents d_Subagents "one_if SubagentStart" "\<lambda>_. 0"
  by unfold_locales (simp_all add: column_defs split: prod.split)

interpretation errors_col: rollup_column sr_errors d_Errors "one_if ToolFailed" "\<lambda>_. 0"
  by unfold_locales (simp_all add: column_defs split: prod.split)

interpretation input_col: rollup_column sr_input d_TokensInput "\<lambda>_. 0" "\<lambda>uc. InputTokens (fst uc)"
  by unfold_locales (simp_all add: column_defs split: prod.split)

interpretation output_col: rollup_column sr_output d_TokensOutput "\<lambda>_. 0" "\<lambda>uc. OutputTokens (fst uc)"
  by unfold_locales (simp_all add: column_defs split: prod.split)

interpretation read_col: rollup_column sr_read d_TokensCacheRead "\<lambda>_. 0" "\<lambda>uc. CacheReadTokens (fst uc)"
  by unfold_locales (simp_all add: column_defs split: prod.split)

interpretation cost_col: rollup_column sr_cost d_CostUSD "\<lambda>_. 0" snd
  by unfold_locales (simp_all add: column_defs split: prod.split)

end
