(* ===== verification/StoreTx.thy ===== *)
theory StoreTx
  imports StoreSums
begin

text \<open>
  The second half of the transaction: the statements that follow the inserts keep events, ledger,
  owners and session ids, keep every message on a stored event, and move a rollup column by
  exactly what the increments of the batch say.
\<close>

section \<open>What the later statements keep\<close>

definition sess_same :: "db \<Rightarrow> db \<Rightarrow> bool" where
  "sess_same d d' \<longleftrightarrow> map sr_id (t_sessions d') = map sr_id (t_sessions d) \<and> t_events d' = t_events d \<and>
     t_ledger d' = t_ledger d \<and> (\<forall>k. owner_of d' k = owner_of d k)"

lemma sess_same_refl [simp]: "sess_same d d"
  by (simp add: sess_same_def)

lemma sess_same_trans: "sess_same d d1 \<Longrightarrow> sess_same d1 d2 \<Longrightarrow> sess_same d d2"
  by (simp add: sess_same_def)

lemma sess_same_known: "sess_same d d' \<Longrightarrow> find_session d' k = None \<longleftrightarrow> find_session d k = None"
  unfolding sess_same_def by (metis find_none_ids)

definition messages_ok :: "db \<Rightarrow> bool" where
  "messages_ok d \<longleftrightarrow> distinct (map mr_event (t_messages d)) \<and> mr_event ` set (t_messages d) \<subseteq> set (event_ids d)"

text \<open>A step that keeps both, as one relation.\<close>

definition quiet :: "db \<Rightarrow> db \<Rightarrow> bool" where
  "quiet d d' \<longleftrightarrow> sess_same d d' \<and> (messages_ok d \<longrightarrow> messages_ok d')"

lemma quiet_refl [simp]: "quiet d d"
  by (simp add: quiet_def)

lemma quiet_trans: "quiet d d1 \<Longrightarrow> quiet d1 d2 \<Longrightarrow> quiet d d2"
  unfolding quiet_def using sess_same_trans by blast

lemma map_sessions_quiet:
  assumes "\<And>s. sr_id (f s) = sr_id s" "\<And>s. sr_email (f s) = sr_email s"
  shows "quiet d (d\<lparr>t_sessions := map f (t_sessions d)\<rparr>)"
  by (auto simp: quiet_def sess_same_def messages_ok_def event_ids_def owner_of_def find_session_def
      find_map_id assms option.map_comp comp_def)

lemma update_quiet:
  assumes "\<And>s. sr_id (f s) = sr_id s" "\<And>s. sr_email (f s) = sr_email s"
  shows "quiet d (update_sessions sid f d)"
  unfolding update_sessions_def using assms by (intro map_sessions_quiet) auto

section \<open>Messages\<close>

lemma put_message_spec:
  "mr_event ` set (put_message m t) = insert (mr_event m) (mr_event ` set t)"
  "distinct (map mr_event t) \<Longrightarrow> distinct (map mr_event (put_message m t))"
  by (auto simp: put_message_def)

lemma refresh_message_spec:
  "mr_event ` set (refresh_message m t) = insert (mr_event m) (mr_event ` set t)"
  "distinct (map mr_event t) \<Longrightarrow> distinct (map mr_event (refresh_message m t))"
proof -
  let ?f = "\<lambda>x. if mr_event x = mr_event m then x\<lparr>mr_text := mr_text m, mr_kind := mr_kind m, mr_agent := mr_agent m\<rparr> else x"
  have same: "map mr_event (map ?f t) = map mr_event t" by simp
  then have "mr_event ` set (map ?f t) = mr_event ` set t" by (metis set_map)
  then show "mr_event ` set (refresh_message m t) = insert (mr_event m) (mr_event ` set t)"
    by (auto simp: refresh_message_def)
  assume "distinct (map mr_event t)"
  then have "distinct (map mr_event (map ?f t))" unfolding same .
  then show "distinct (map mr_event (refresh_message m t))"
    using \<open>distinct (map mr_event t)\<close> unfolding refresh_message_def
    by (cases "mr_event m \<in> mr_event ` set t") simp_all
qed

lemma fold_messages:
  assumes "\<And>m t. mr_event ` set (put m t) = insert (mr_event m) (mr_event ` set t)"
    and "\<And>m t. distinct (map mr_event t) \<Longrightarrow> distinct (map mr_event (put m t))"
  shows "mr_event ` set (fold put ms t) = mr_event ` set ms \<union> mr_event ` set t \<and>
    (distinct (map mr_event t) \<longrightarrow> distinct (map mr_event (fold put ms t)))"
  by (induction ms arbitrary: t) (auto simp: assms)

lemma quiet_messages:
  assumes "mr_event ` set t = mr_event ` set ms \<union> mr_event ` set (t_messages d)"
    and "distinct (map mr_event (t_messages d)) \<longrightarrow> distinct (map mr_event t)"
    and "mr_event ` set ms \<subseteq> set (event_ids d)"
  shows "quiet d (d\<lparr>t_messages := t\<rparr>)"
  using assms by (auto simp: quiet_def sess_same_def messages_ok_def event_ids_def owner_of_def find_session_def)

lemma at_stored_position_event: "x \<in> set (at_stored_position d m) \<Longrightarrow> mr_event x \<in> set (event_ids d)"
  by (auto simp: at_stored_position_def event_ids_def) (metis image_eqI)

lemma writeMessages_quiet: "writeMessages e its refresh d = Inr ((), d') \<Longrightarrow> quiet d d'"
proof -
  let ?ms = "List.map_filter (message_of (tx_codec e)) its"
  let ?ms1 = "concat (map (at_stored_position d) ?ms)"
  assume run: "writeMessages e its refresh d = Inr ((), d')"
  consider "d' = d"
    | "mr_event ` set ?ms \<subseteq> set (event_ids d)" "d' = d\<lparr>t_messages := fold put_message ?ms (t_messages d)\<rparr>"
    | "d' = d\<lparr>t_messages := fold refresh_message ?ms1 (t_messages d)\<rparr>"
    using run by (auto simp: writeMessages_def Let_def messages_stmt_def refresh_stmt_def split: if_splits)
  then show "quiet d d'"
  proof cases
    case 1
    then show ?thesis by simp
  next
    case 2
    with fold_messages [of put_message ?ms "t_messages d", OF put_message_spec] show ?thesis
      by (intro quiet_messages [where ms = ?ms, THEN back_subst [of "quiet d"]]) auto
  next
    case 3
    have "mr_event ` set ?ms1 \<subseteq> set (event_ids d)" using at_stored_position_event by fastforce
    with 3 fold_messages [of refresh_message ?ms1 "t_messages d", OF refresh_message_spec] show ?thesis
      by (intro quiet_messages [where ms = ?ms1, THEN back_subst [of "quiet d"]]) auto
  qed
qed

definition batch_deltas :: "tx_env \<Rightarrow> Ingest list \<Rightarrow> string list \<Rightarrow> Ingest list \<Rightarrow> credits \<Rightarrow> SessionDelta list" where
  "batch_deltas e admitted inserted stored counted =
     deltas_of e (automationSessions (tx_codec e) admitted) inserted counted
       (filter (\<lambda>it. item_id_of it \<in> set inserted) admitted) stored"

section \<open>Relations the statements keep\<close>

text \<open>
  A relation between databases that is reflexive and transitive and that the statements other
  than a fold keep; what holds of each statement then holds of the sequences of them.
\<close>

locale tx_relation =
  fixes R :: "db \<Rightarrow> db \<Rightarrow> bool"
  assumes R_refl: "R d d"
    and R_trans: "R d d1 \<Longrightarrow> R d1 d2 \<Longrightarrow> R d d2"
    and R_title: "R d (update_sessions sid (refresh_title e dl h a) d)"
    and R_mark: "R d (update_sessions sid (mark_row e ty) d)"
    and R_dirty: "R d (d\<lparr>t_sessions := map (\<lambda>s. if sr_id s \<in> S then s\<lparr>sr_dirty := True, sr_updated := t\<rparr> else s) (t_sessions d)\<rparr>)"
    and R_messages: "writeMessages e its refresh d = Inr ((), d') \<Longrightarrow> R d d'"
begin

lemma keeps_title: "refreshFirstPrompt e dl d = Inr ((), d') \<Longrightarrow> R d d'"
  by (auto simp: refreshFirstPrompt_def Let_def intro: R_title)

lemma keeps_mark:
  assumes "markAutomation e sid d = Inr ((), d')"
  shows "R d d'"
proof -
  obtain promoted d1 where m: "markSessionType e sid ''automation'' d = Inr (promoted, d1)"
    and r: "(if promoted then refreshFirstPrompt e (empty_delta sid) d1 else Inr ((), d1)) = Inr ((), d')"
    using assms by (auto simp: markAutomation_def bindS_Inr)
  have "R d d1" using m by (auto simp: markSessionType_def intro: R_mark)
  moreover have "R d1 d'" using r keeps_title R_refl by (auto split: if_splits)
  ultimately show ?thesis by (rule R_trans)
qed

lemma keeps_dirty: "mark_dirty e sids d = Inr ((), d') \<Longrightarrow> R d d'"
  by (auto simp: mark_dirty_def intro!: R_dirty R_refl split: if_splits)

lemma keeps_derive:
  assumes "derive_rows e fresh d = Inr ((), d')"
  shows "R d d'"
  using assms R_refl by (auto simp: derive_rows_def bindS_Inr split: if_splits dest: R_messages)

lemma keeps_each:
  assumes "\<And>x d d'. f x d = Inr ((), d') \<Longrightarrow> R d d'"
  shows "each f xs d = Inr ((), d') \<Longrightarrow> R d d'"
proof (induction xs arbitrary: d)
  case Nil
  then show ?case by (simp add: R_refl)
next
  case (Cons x xs)
  then show ?case using assms R_trans by (fastforce simp: bindS_Inr)
qed

lemma keeps_rollup:
  assumes "rollup e admitted inserted up stored counted d = Inr (sids, d')"
  obtains d4 where "R d d4"
    "each (fold_in e) (sort_key d_SessionID (batch_deltas e admitted inserted stored counted)) d4 = Inr ((), d')"
proof -
  let ?moved = "filter (\<lambda>it. item_id_of it \<in> set up) stored"
  let ?sids = "map d_SessionID (batch_deltas e admitted inserted stored counted)"
  obtain d1 d2 d3 d4 where
    a: "derive_rows e (filter (\<lambda>it. item_id_of it \<in> set inserted) admitted) d = Inr ((), d1)"
    and b: "(if ?moved = [] then Inr ((), d1) else writeMessages e ?moved True d1) = Inr ((), d2)"
    and c: "each (markAutomation e) (filter (\<lambda>s. s \<notin> set ?sids) (sort (automationSessions (tx_codec e) admitted))) d2 = Inr ((), d3)"
    and m: "mark_dirty e (filter (\<lambda>s. s \<notin> set ?sids) (sort (remdups (map session_of ?moved)))) d3 = Inr ((), d4)"
    and f: "each (fold_in e) (sort_key d_SessionID (batch_deltas e admitted inserted stored counted)) d4 = Inr ((), d')"
    using assms unfolding rollup_def Let_def bindS_Inr batch_deltas_def by (elim exE conjE) auto
  have "R d d1" by (rule keeps_derive [OF a])
  moreover have "R d1 d2" using b R_messages R_refl by (auto split: if_splits)
  moreover have "R d2 d3" by (rule keeps_each [OF keeps_mark c])
  moreover have "R d3 d4" by (rule keeps_dirty [OF m])
  ultimately have "R d d4" by (meson R_trans)
  then show thesis using that f by blast
qed

end

interpretation quiet_rel: tx_relation quiet
proof
  show "quiet d d" for d by simp
  show "quiet d d1 \<Longrightarrow> quiet d1 d2 \<Longrightarrow> quiet d d2" for d d1 d2 by (rule quiet_trans)
  show "quiet d (update_sessions sid (refresh_title e dl h a) d)" for d sid e dl h a by (rule update_quiet) simp_all
  show "quiet d (update_sessions sid (mark_row e ty) d)" for d sid e ty by (rule update_quiet) simp_all
  show "quiet d (d\<lparr>t_sessions := map (\<lambda>s. if sr_id s \<in> S then s\<lparr>sr_dirty := True, sr_updated := t\<rparr> else s) (t_sessions d)\<rparr>)" for d S t
    by (rule map_sessions_quiet) simp_all
  show "writeMessages e its refresh d = Inr ((), d') \<Longrightarrow> quiet d d'" for e its refresh d d' by (rule writeMessages_quiet)
qed

section \<open>Folding increments in\<close>

lemma applyDelta_quiet:
  "applyDelta e dl d = Inr ((), d') \<Longrightarrow> find_session d (d_SessionID dl) \<noteq> None \<Longrightarrow> quiet d d'"
  by (auto simp: applyDelta_def Let_def intro!: update_quiet)

lemma fold_in_quiet:
  assumes "fold_in e dl d = Inr ((), d')" "find_session d (d_SessionID dl) \<noteq> None"
  shows "quiet d d'"
proof -
  obtain d1 where a: "applyDelta e dl d = Inr ((), d1)"
    and r: "(if d_SawUserPrompt dl \<or> d_Automation dl then refreshFirstPrompt e dl d1 else Inr ((), d1)) = Inr ((), d')"
    using assms(1) by (auto simp: fold_in_def bindS_Inr)
  have "quiet d1 d'" using r quiet_rel.keeps_title by (auto split: if_splits)
  with applyDelta_quiet [OF a assms(2)] show ?thesis by (rule quiet_trans)
qed

lemma folds_known:
  assumes "fold_in e x d = Inr ((), d1)" "\<forall>dl\<in>set (x # ds). find_session d (d_SessionID dl) \<noteq> None"
  shows "\<forall>dl\<in>set ds. find_session d1 (d_SessionID dl) \<noteq> None" "quiet d d1"
proof -
  show q: "quiet d d1" using fold_in_quiet [OF assms(1)] assms(2) by simp
  then show "\<forall>dl\<in>set ds. find_session d1 (d_SessionID dl) \<noteq> None"
    using assms(2) sess_same_known unfolding quiet_def by (metis list.set_intros(2))
qed

lemma folds_quiet:
  "each (fold_in e) ds d = Inr ((), d') \<Longrightarrow> \<forall>dl\<in>set ds. find_session d (d_SessionID dl) \<noteq> None \<Longrightarrow> quiet d d'"
proof (induction ds arbitrary: d)
  case Nil
  then show ?case by simp
next
  case (Cons x ds)
  obtain d1 where one: "fold_in e x d = Inr ((), d1)" and rest: "each (fold_in e) ds d1 = Inr ((), d')"
    using Cons.prems(1) by (auto simp: bindS_Inr)
  note K = folds_known [OF one Cons.prems(2)]
  show ?case using quiet_trans [OF K(2) Cons.IH [OF rest K(1)]] .
qed

context rollup_column
begin

lemma map_colval:
  assumes "\<And>s. sr_id (f s) = sr_id s" "\<And>s. G (f s) = G s"
  shows "colval G (d\<lparr>t_sessions := map f (t_sessions d)\<rparr>) k = colval G d k"
  by (auto simp: colval_def find_session_def find_map_id assms split: option.split)

lemma messages_colval: "writeMessages e its refresh d = Inr ((), d') \<Longrightarrow> colval G d' k = colval G d k"
  by (auto simp: writeMessages_def Let_def messages_stmt_def refresh_stmt_def colval_def find_session_def split: if_splits)

lemma applyDelta_colval:
  assumes "applyDelta e dl d = Inr ((), d1)" "find_session d (d_SessionID dl) \<noteq> None"
  shows "colval G d1 k = colval G d k + (if d_SessionID dl = k then F dl else 0)"
proof -
  have d1: "d1 = update_sessions (d_SessionID dl) (merge_session e (d_EndReason dl) (excluded e dl)) d"
    using assms by (auto simp: applyDelta_def Let_def)
  show ?thesis
  proof (cases "find_session d k")
    case None
    with assms(2) show ?thesis by (auto simp: d1 colval_def find_update_sessions)
  next
    case (Some s)
    then have "sr_id s = k" using find_session_id by blast
    with Some show ?thesis by (auto simp: d1 colval_def find_update_sessions merge)
  qed
qed

lemma fold_in_colval:
  assumes "fold_in e dl d = Inr ((), d')" "find_session d (d_SessionID dl) \<noteq> None"
  shows "colval G d' k = colval G d k + (if d_SessionID dl = k then F dl else 0)"
proof -
  obtain d1 where a: "applyDelta e dl d = Inr ((), d1)"
    and r: "(if d_SawUserPrompt dl \<or> d_Automation dl then refreshFirstPrompt e dl d1 else Inr ((), d1)) = Inr ((), d')"
    using assms(1) by (auto simp: fold_in_def bindS_Inr)
  have "colval G d' k = colval G d1 k"
    using r by (auto simp: refreshFirstPrompt_def Let_def titled intro!: update_colval split: if_splits)
  with applyDelta_colval [OF a assms(2)] show ?thesis by simp
qed

lemma folds_colval:
  "each (fold_in e) ds d = Inr ((), d') \<Longrightarrow> \<forall>dl\<in>set ds. find_session d (d_SessionID dl) \<noteq> None \<Longrightarrow>
   colval G d' k = colval G d k + dsum F k ds"
proof (induction ds arbitrary: d)
  case Nil
  then show ?case by simp
next
  case (Cons x ds)
  obtain d1 where one: "fold_in e x d = Inr ((), d1)" and rest: "each (fold_in e) ds d1 = Inr ((), d')"
    using Cons.prems(1) by (auto simp: bindS_Inr)
  note K = folds_known [OF one Cons.prems(2)]
  show ?case using Cons.IH [OF rest K(1)] fold_in_colval [OF one] Cons.prems(2) by (simp add: ac_simps)
qed

end

text \<open>A column's interface gives a relation the statements keep: quiet, and the column unmoved.\<close>

sublocale rollup_column \<subseteq> kept: tx_relation "\<lambda>d d'. quiet d d' \<and> (\<forall>k. colval G d' k = colval G d k)"
proof
  show "quiet d d \<and> (\<forall>k. colval G d k = colval G d k)" for d by simp
  show "quiet d d1 \<and> (\<forall>k. colval G d1 k = colval G d k) \<Longrightarrow> quiet d1 d2 \<and> (\<forall>k. colval G d2 k = colval G d1 k) \<Longrightarrow>
      quiet d d2 \<and> (\<forall>k. colval G d2 k = colval G d k)" for d d1 d2
    using quiet_trans by auto
  show "quiet d (update_sessions sid (refresh_title e dl h a) d) \<and>
      (\<forall>k. colval G (update_sessions sid (refresh_title e dl h a) d) k = colval G d k)" for d sid e dl h a
    using quiet_rel.R_title by (auto intro: update_colval simp: titled)
  show "quiet d (update_sessions sid (mark_row e ty) d) \<and>
      (\<forall>k. colval G (update_sessions sid (mark_row e ty) d) k = colval G d k)" for d sid e ty
    using quiet_rel.R_mark by (auto intro: update_colval simp: marked)
  show "quiet d (d\<lparr>t_sessions := map (\<lambda>s. if sr_id s \<in> S then s\<lparr>sr_dirty := True, sr_updated := t\<rparr> else s) (t_sessions d)\<rparr>) \<and>
      (\<forall>k. colval G (d\<lparr>t_sessions := map (\<lambda>s. if sr_id s \<in> S then s\<lparr>sr_dirty := True, sr_updated := t\<rparr> else s) (t_sessions d)\<rparr>) k = colval G d k)"
    for d S t
    using quiet_rel.R_dirty by (auto intro!: map_colval simp: dirtied)
  show "writeMessages e its refresh d = Inr ((), d') \<Longrightarrow> quiet d d' \<and> (\<forall>k. colval G d' k = colval G d k)" for e its refresh d d'
    using quiet_rel.R_messages messages_colval by blast
qed

end
