(* ===== verification/StoreProps.thy ===== *)
theory StoreProps
  imports StoreTx
begin

text \<open>
  What a stored batch is worth: the consistency of the store (\<open>store_ok\<close>) and that every batch
  keeps it, with the properties that rest on it: a rollup counts each stored event once and each
  model call once, every row belongs to the owner of its session, and an acknowledged event is
  stored.
\<close>

section \<open>Consistency\<close>

definition count_rows :: "db \<Rightarrow> string \<Rightarrow> event_type \<Rightarrow> int" where
  "count_rows d sid t = int (length (filter (\<lambda>x. er_session x = sid \<and> er_type x = t) (t_events d)))"

definition ledger_sum :: "(ledger_row \<Rightarrow> 'a::comm_monoid_add) \<Rightarrow> db \<Rightarrow> string \<Rightarrow> 'a" where
  "ledger_sum f d sid = sum_list (map f (filter (\<lambda>r. lr_session r = sid) (t_ledger d)))"

definition rows_ok :: "db \<Rightarrow> bool" where
  "rows_ok d \<longleftrightarrow> distinct (event_ids d) \<and> distinct (map sr_id (t_sessions d)) \<and> distinct (map ledger_key (t_ledger d)) \<and>
     messages_ok d \<and> (\<forall>x\<in>set (t_events d). owner_of d (er_session x) = Some (er_email x)) \<and>
     (\<forall>r\<in>set (t_ledger d). owner_of d (lr_session r) = Some (lr_email r) \<and> lr_event r \<in> set (event_ids d))"

definition counts_ok :: "db \<Rightarrow> bool" where
  "counts_ok d \<longleftrightarrow> (\<forall>sid. colval sr_user_turns d sid = count_rows d sid UserPrompt \<and>
     colval sr_tool_calls d sid = count_rows d sid ToolCall \<and>
     colval sr_subagents d sid = count_rows d sid SubagentStart \<and>
     colval sr_errors d sid = count_rows d sid ToolFailed)"

definition tokens_ok :: "db \<Rightarrow> bool" where
  "tokens_ok d \<longleftrightarrow> (\<forall>sid. colval sr_input d sid = ledger_sum lr_input d sid \<and>
     colval sr_output d sid = ledger_sum lr_output d sid \<and>
     colval sr_read d sid = ledger_sum lr_read d sid \<and>
     colval sr_cost d sid = ledger_sum lr_cost d sid)"

definition store_ok :: "db \<Rightarrow> bool" where
  "store_ok d \<longleftrightarrow> rows_ok d \<and> counts_ok d \<and> tokens_ok d"

section \<open>Sums of one batch\<close>

lemma isum_single:
  "distinct (map item_id_of its) \<Longrightarrow> it \<in> set its \<Longrightarrow>
   isum (\<lambda>x. if item_id_of x = item_id_of it then v else 0) k its = (if session_of it = k then v else 0)"
proof (induction its)
  case Nil
  then show ?case by simp
next
  case (Cons y ys)
  show ?case
  proof (cases "y = it")
    case True
    have "item_id_of x \<noteq> item_id_of it" if "x \<in> set ys" for x
      using Cons.prems(1) True that by (metis (no_types) distinct.simps(2) image_eqI list.simps(9) set_map)
    then have "isum (\<lambda>x. if item_id_of x = item_id_of it then v else 0) k ys = 0" by (induction ys) auto
    with True show ?thesis by simp
  next
    case False
    with Cons.prems have "it \<in> set ys" "item_id_of y \<noteq> item_id_of it" by auto
    with Cons show ?thesis by simp
  qed
qed

lemma credit_of_Cons:
  fixes paid :: "Usage \<times> rat \<Rightarrow> 'a::comm_monoid_add"
  assumes "i \<notin> fst ` set cs"
  shows "credit_of paid ((i, uc) # cs) j = (if j = i then paid uc else 0) + credit_of paid cs j"
proof -
  have "map_of cs i = None" using assms by (simp add: map_of_eq_None_iff)
  then show ?thesis by (simp add: credit_of_def)
qed

lemma credited_sum:
  fixes paid :: "Usage \<times> rat \<Rightarrow> 'a::comm_monoid_add"
  assumes "distinct (map item_id_of stored)" and val: "\<And>r u. credited_from stored r u \<Longrightarrow> paid (u, lr_cost r) = val r"
  shows "list_all2 (\<lambda>(i, u, c) r. credited_from stored r u) counted new \<Longrightarrow>
    map fst counted = map lr_event new \<Longrightarrow> map (snd \<circ> snd) counted = map lr_cost new \<Longrightarrow> distinct (map lr_event new) \<Longrightarrow>
    isum (\<lambda>it. credit_of paid counted (item_id_of it)) k stored = sum_list (map val (filter (\<lambda>r. lr_session r = k) new))"
proof (induction counted new rule: list_all2_induct)
  case Nil
  have "isum (\<lambda>it. 0 :: 'a) k stored = 0" by (induction stored) auto
  then show ?case by (simp add: credit_of_def)
next
  case (Cons x cs r rs)
  obtain i u c where x: "x = (i, u, c)" by (metis prod_cases3)
  have cr: "credited_from stored r u" using Cons.hyps(1) by (simp add: x)
  have m: "i = lr_event r" "map fst cs = map lr_event rs" "c = lr_cost r" "map (snd \<circ> snd) cs = map lr_cost rs"
    "lr_event r \<notin> set (map lr_event rs)" "distinct (map lr_event rs)"
    using Cons.prems by (simp_all add: x comp_def)
  have "i \<notin> set (map fst cs)" unfolding m(1,2) by (rule m(5))
  then have i: "i = lr_event r" "c = lr_cost r" "credited_from stored r u" "i \<notin> fst ` set cs"
    using m(1,3) cr by simp_all
  obtain it where it: "it \<in> set stored" "lr_event r = item_id_of it" "lr_session r = session_of it"
    using i(3) by (auto simp: credited_from_def)
  have one: "credit_of paid (x # cs) j = (if j = item_id_of it then val r else 0) + credit_of paid cs j" for j
    unfolding x using credit_of_Cons [OF i(4), of paid "(u, c)" j] val [OF i(3)] i(1,2) it(2) by simp
  have "isum (\<lambda>it. credit_of paid (x # cs) (item_id_of it)) k stored =
      isum (\<lambda>y. if item_id_of y = item_id_of it then val r else 0) k stored + isum (\<lambda>it. credit_of paid cs (item_id_of it)) k stored"
    unfolding one by (rule isum_add)
  also have "\<dots> = (if session_of it = k then val r else 0) + sum_list (map val (filter (\<lambda>r. lr_session r = k) rs))"
    using isum_single [OF assms(1) it(1), of "val r" k] Cons.IH [OF m(2,4,6)] by simp
  finally show ?case using it(3) by simp
qed

section \<open>The stages of a transaction\<close>

lemma upsert_tx_stages:
  assumes "upsert_tx e sc d = Inr (res, d')"
  obtains ad d1 where
      "admit e (sort_by (\<lambda>a b. session_of a < session_of b) (sc_kept sc))
         \<lparr>ad_owners = [], ad_admitted = [], ad_refused = sc_refused sc\<rparr> d = Inr (ad, d1)"
      "ad_admitted ad = []" "d' = d1"
      "res = \<lparr>Inserted = [], Duplicate = sc_dups sc, Refused = ad_refused ad, Sessions = []\<rparr>"
  | ad d1 inserted held up d2 counted d3 sessions where
      "admit e (sort_by (\<lambda>a b. session_of a < session_of b) (sc_kept sc))
         \<lparr>ad_owners = [], ad_admitted = [], ad_refused = sc_refused sc\<rparr> d = Inr (ad, d1)"
      "insertEvents e (ad_admitted ad) d1 = Inr ((inserted, held, up), d2)"
      "creditUsage e (collapseByStoredID (ad_admitted ad) held) d2 = Inr (counted, d3)"
      "rollup e (ad_admitted ad) inserted up (collapseByStoredID (ad_admitted ad) held) counted d3 = Inr (sessions, d')"
      "res = \<lparr>Inserted = filter (\<lambda>i. i \<in> set inserted) (map item_id_of (ad_admitted ad)),
              Duplicate = sc_dups sc @ filter (\<lambda>i. i \<notin> set inserted) (map item_id_of (ad_admitted ad)),
              Refused = ad_refused ad, Sessions = sessions\<rparr>"
proof -
  obtain ad d1 where adm: "admit e (sort_by (\<lambda>a b. session_of a < session_of b) (sc_kept sc))
         \<lparr>ad_owners = [], ad_admitted = [], ad_refused = sc_refused sc\<rparr> d = Inr (ad, d1)"
    using assms by (auto simp: upsert_tx_def bindS_Inr)
  show thesis
  proof (cases "ad_admitted ad = []")
    case True
    with assms adm that(1) show thesis by (auto simp: upsert_tx_def bindS_Inr)
  next
    case False
    with assms adm that(2) show thesis by (auto simp: upsert_tx_def bindS_Inr Let_def)
  qed
qed

lemma foldDeltas_ids: "d_SessionID ` set (foldDeltas c its counted) \<subseteq> session_of ` set its"
proof -
  have "d_SessionID ` set (fold (\<lambda>it ds. upd_delta (delta_item c counted it) (new_delta it) ds) its ds0)
      \<subseteq> d_SessionID ` set ds0 \<union> session_of ` set its" for ds0
  proof (induction its arbitrary: ds0)
    case Nil
    then show ?case by simp
  next
    case (Cons it its)
    from Cons.IH [of "upd_delta (delta_item c counted it) (new_delta it) ds0"]
      upd_delta_ids(1) [of "delta_item c counted it" "new_delta it" ds0]
    show ?case by auto
  qed
  from this [of "[]"] show ?thesis by (simp add: foldDeltas_def)
qed

lemma credit_late_ids:
  "d_SessionID ` set (credit_late counted inserted stored ds) \<subseteq> d_SessionID ` set ds \<union> session_of ` set stored"
proof (induction stored arbitrary: ds)
  case Nil
  then show ?case by (simp add: credit_late_def)
next
  case (Cons it its)
  define ds' where "ds' = (if item_id_of it \<in> set inserted then ds
         else case map_of counted (item_id_of it) of None \<Rightarrow> ds | Some uc \<Rightarrow> upd_delta (delta_credit uc) (late_delta it) ds)"
  have run: "credit_late counted inserted (it # its) ds = credit_late counted inserted its ds'"
    by (simp add: credit_late_def ds'_def)
  have ids: "d_SessionID ` set ds' \<subseteq> insert (session_of it) (d_SessionID ` set ds)"
    unfolding ds'_def using upd_delta_ids(1) [of _ "late_delta it" ds] by (auto split: option.split)
  show ?case unfolding run using Cons.IH [of ds'] ids by (simp only: list.set image_insert) blast
qed

lemma batch_deltas_ids:
  "d_SessionID ` set (batch_deltas e admitted inserted stored counted) \<subseteq> session_of ` set admitted \<union> session_of ` set stored"
proof -
  let ?fresh = "filter (\<lambda>it. item_id_of it \<in> set inserted) admitted"
  let ?mark = "\<lambda>d. d\<lparr>d_Automation := d_SessionID d \<in> set (automationSessions (tx_codec e) admitted)\<rparr>"
  let ?ds = "foldDeltas (tx_codec e) ?fresh counted"
  have "d_SessionID ` set (batch_deltas e admitted inserted stored counted) \<subseteq>
      d_SessionID ` set (map ?mark ?ds) \<union> session_of ` set stored"
    unfolding batch_deltas_def deltas_of_def by (rule credit_late_ids)
  moreover have "d_SessionID ` set (map ?mark ?ds) = d_SessionID ` set ?ds"
    unfolding set_map image_image by simp
  moreover have "d_SessionID ` set ?ds \<subseteq> session_of ` set ?fresh" by (rule foldDeltas_ids)
  moreover have "session_of ` set ?fresh \<subseteq> session_of ` set admitted" by (rule image_mono) auto
  ultimately show ?thesis by (metis (no_types, lifting) order_trans sup_mono order_refl)
qed

text \<open>The stages after admission, with the facts of each.\<close>

definition committed :: "tx_env \<Rightarrow> Ingest list \<Rightarrow> string list \<Rightarrow> Ingest list \<Rightarrow> credits \<Rightarrow> ledger_row list \<Rightarrow> db \<Rightarrow> db \<Rightarrow> db \<Rightarrow> bool" where
  "committed e admitted inserted stored counted new d1 d3 d' \<longleftrightarrow>
     (let fresh = filter (\<lambda>it. item_id_of it \<in> set inserted) admitted
      in distinct (map item_id_of admitted) \<and> (\<forall>it\<in>set admitted. own_item d1 it) \<and>
         inserted = map item_id_of fresh \<and> (\<forall>it\<in>set fresh. item_id_of it \<notin> set (event_ids d1)) \<and>
         distinct (map item_id_of stored) \<and> session_of ` set stored \<subseteq> session_of ` set admitted \<and>
         (\<forall>x\<in>set stored. item_id_of x \<in> set (event_ids d1) \<or> x \<in> set fresh) \<and> set fresh \<subseteq> set stored \<and>
         map fst counted = map lr_event new \<and> map (snd \<circ> snd) counted = map lr_cost new \<and>
         list_all2 (\<lambda>(i, u, c) r. credited_from stored r u) counted new \<and> distinct (map lr_event new) \<and>
         (\<forall>x\<in>set stored. own_item d1 x) \<and>
         t_sessions d3 = t_sessions d1 \<and> t_messages d3 = t_messages d1 \<and> t_ledger d3 = t_ledger d1 @ new \<and>
         (distinct (map ledger_key (t_ledger d1)) \<longrightarrow> distinct (map ledger_key (t_ledger d3))) \<and>
         map imm (t_events d3) = map imm (t_events d1) @ map item_imm fresh)"

lemma committed_stages:
  assumes adm: "admit e (sort_by lt kept) \<lparr>ad_owners = [], ad_admitted = [], ad_refused = rf\<rparr> d = Inr (ad, d1)"
    and kept: "distinct (map item_id_of kept)"
    and ins: "insertEvents e (ad_admitted ad) d1 = Inr ((inserted, held, up), d2)"
    and cred: "creditUsage e (collapseByStoredID (ad_admitted ad) held) d2 = Inr (counted, d3)"
  obtains new where "committed e (ad_admitted ad) inserted (collapseByStoredID (ad_admitted ad) held) counted new d1 d3 d'"
proof -
  have A: "ad_admitted ad = filter (own_item d1) (sort_by lt kept)"
    using admit_spec [OF adm] by (simp add: owners_ok_def)
  have dist: "distinct (map item_id_of (ad_admitted ad))"
    unfolding A using kept by (simp add: distinct_map_filter distinct_map_sort_by)
  note I = insertEvents_spec [OF ins]
  note C = collapse_spec [OF dist I(1) refl]
  have fresh: "filter (\<lambda>it. item_id_of it \<in> set inserted) (ad_admitted ad) = fresh_items d1 held (ad_admitted ad)"
    using fresh_by_id [of d1 held "ad_admitted ad"] by (simp add: I(5))
  obtain new where new: "d3 = d2\<lparr>t_ledger := t_ledger d2 @ new\<rparr>" "distinct (map lr_event new)"
    "map fst counted = map lr_event new" "map (snd \<circ> snd) counted = map lr_cost new"
    "list_all2 (\<lambda>(i, u, c) r. credited_from (collapseByStoredID (ad_admitted ad) held) r u) counted new"
    "distinct (map ledger_key (t_ledger d2)) \<Longrightarrow> distinct (map ledger_key (t_ledger d2 @ new))"
    using creditUsage_spec [OF cred C(1)] by metis
  have own: "\<forall>it\<in>set (ad_admitted ad). own_item d1 it" by (simp add: A)
  have own_stored: "\<forall>x\<in>set (collapseByStoredID (ad_admitted ad) held). own_item d1 x"
    using C(2) own unfolding own_item_def by metis
  have sess: "session_of ` set (collapseByStoredID (ad_admitted ad) held) \<subseteq> session_of ` set (ad_admitted ad)"
    using C(2) by fastforce
  have nid: "\<forall>it\<in>set (fresh_items d1 held (ad_admitted ad)). item_id_of it \<notin> set (event_ids d1)"
    by (simp add: fresh_items_def)
  let ?stored = "collapseByStoredID (ad_admitted ad) held"
  have ids: "inserted = map item_id_of (fresh_items d1 held (ad_admitted ad))" by (rule I(5))
  have d3: "t_sessions d3 = t_sessions d1" "t_messages d3 = t_messages d1" "t_ledger d3 = t_ledger d1 @ new"
    "map imm (t_events d3) = map imm (t_events d1) @ map item_imm (fresh_items d1 held (ad_admitted ad))"
    using I(2-4,6) new(1) by simp_all
  have keys: "distinct (map ledger_key (t_ledger d1)) \<Longrightarrow> distinct (map ledger_key (t_ledger d3))"
    using new(6) by (simp only: I(4) d3(3))
  have "committed e (ad_admitted ad) inserted ?stored counted new d1 d3 d'"
    unfolding committed_def Let_def fresh
    by (intro conjI impI ids dist own own_stored nid C(1,3,4) sess new(2-5) d3 keys)
  then show thesis by (rule that)
qed

section \<open>A stored batch\<close>

text \<open>Every transaction that returns: it claimed sessions and stored nothing, or it committed a batch.\<close>

lemma screened: "kept_ok (tx_codec e) (sc_kept (screen (tx_codec e) items \<lparr>sc_kept = [], sc_dups = [], sc_refused = []\<rparr>))"
  by (rule screen_kept) (simp add: kept_ok_def)

lemma UpsertEvents_stages:
  assumes "UpsertEvents e items d = ((err, res), d')"
  obtains
    (same) "d' = d" "Inserted res = []"
  | (claimed) "grown d d'" "Inserted res = []"
  | (batch) d1 d3 admitted inserted stored counted new up sessions where
      "grown d d1" "committed e admitted inserted stored counted new d1 d3 d'"
      "rollup e admitted inserted up stored counted d3 = Inr (sessions, d')" "set admitted \<subseteq> set items"
      "Inserted res = filter (\<lambda>i. i \<in> set inserted) (map item_id_of admitted)"
proof -
  define sc where "sc = screen (tx_codec e) items \<lparr>sc_kept = [], sc_dups = [], sc_refused = []\<rparr>"
  consider "d' = d" "Inserted res = []" | "upsert_tx e sc d = Inr (res, d')"
    using assms by (auto simp: UpsertEvents_def Let_def sc_def zero_UpsertResult_def split: if_splits sum.splits)
  then show thesis
  proof cases
    case 1
    then show thesis by (rule same)
  next
    case 2
    have kept: "distinct (map item_id_of (sc_kept sc))" using screened [of e items] by (simp add: sc_def kept_ok_def)
    from 2 show thesis
    proof (cases rule: upsert_tx_stages)
      case (1 ad d1)
      have "grown d d1" using admit_spec [OF 1(1)] by (simp add: owners_ok_def)
      with 1 claimed show thesis by simp
    next
      case (2 ad d1 inserted held up d2 counted d3 sessions)
      have g: "grown d d1" and "set (ad_admitted ad) \<subseteq> set (sc_kept sc)"
        using admit_spec [OF 2(1)] by (simp_all add: owners_ok_def)
      then have sub: "set (ad_admitted ad) \<subseteq> set items"
        using screen_from [of "tx_codec e" items "\<lparr>sc_kept = [], sc_dups = [], sc_refused = []\<rparr>"] by (simp add: sc_def)
      obtain new where "committed e (ad_admitted ad) inserted (collapseByStoredID (ad_admitted ad) held) counted new d1 d3 d'"
        using committed_stages [OF 2(1) kept 2(2,3)] by blast
      with batch [OF g _ 2(4) sub] 2(5) show thesis by simp
    qed
  qed
qed

lemma committed_fresh:
  assumes "committed e admitted inserted stored counted new d1 d3 d'"
  shows "set (filter (\<lambda>it. item_id_of it \<in> set inserted) stored) = set (filter (\<lambda>it. item_id_of it \<in> set inserted) admitted)"
proof -
  let ?fresh = "filter (\<lambda>it. item_id_of it \<in> set inserted) admitted"
  have i: "inserted = map item_id_of ?fresh" and new: "\<forall>it\<in>set ?fresh. item_id_of it \<notin> set (event_ids d1)"
    and old: "\<forall>x\<in>set stored. item_id_of x \<in> set (event_ids d1) \<or> x \<in> set ?fresh" and sub: "set ?fresh \<subseteq> set stored"
    using assms unfolding committed_def Let_def by simp_all
  have "item_id_of x \<notin> set (event_ids d1)" if x: "item_id_of x \<in> set inserted" for x
  proof -
    from x have "item_id_of x \<in> item_id_of ` set ?fresh" using i by (metis set_map)
    then obtain it where "it \<in> set ?fresh" "item_id_of x = item_id_of it" by (rule imageE) blast
    with new show ?thesis by simp
  qed
  with old sub show ?thesis by auto
qed

lemma committed_known:
  assumes "committed e admitted inserted stored counted new d1 d3 d'"
    and "dl \<in> set (batch_deltas e admitted inserted stored counted)" "sess_same d3 d4"
  shows "find_session d4 (d_SessionID dl) \<noteq> None"
proof -
  have "d_SessionID dl \<in> session_of ` set admitted \<union> session_of ` set stored"
    using batch_deltas_ids assms(2) by (meson image_eqI subsetD)
  then obtain it where "it \<in> set admitted \<union> set stored" "session_of it = d_SessionID dl"
    unfolding image_Un [symmetric] by (metis imageE)
  moreover have "\<forall>it\<in>set admitted \<union> set stored. own_item d1 it" using assms(1) unfolding committed_def Let_def by blast
  ultimately obtain it where "own_item d1 it" "session_of it = d_SessionID dl" by blast
  then have "find_session d1 (d_SessionID dl) \<noteq> None" by (auto simp: own_item_def owner_of_def)
  then have "find_session d3 (d_SessionID dl) \<noteq> None"
    using assms(1) by (simp add: committed_def Let_def find_session_def)
  then show ?thesis using sess_same_known [OF assms(3)] by simp
qed

lemma committed_quiet:
  assumes c: "committed e admitted inserted stored counted new d1 d3 d'"
    and r: "rollup e admitted inserted up stored counted d3 = Inr (sessions, d')"
  shows "quiet d3 d'"
proof -
  obtain d4 where q: "quiet d3 d4"
    and f: "each (fold_in e) (sort_key d_SessionID (batch_deltas e admitted inserted stored counted)) d4 = Inr ((), d')"
    by (rule quiet_rel.keeps_rollup [OF r])
  have "quiet d4 d'" using folds_quiet [OF f] committed_known [OF c] q by (simp add: quiet_def)
  with q show ?thesis by (rule quiet_trans)
qed

context rollup_column
begin

lemma batch_colval:
  assumes c: "committed e admitted inserted stored counted new d1 d3 d'"
    and r: "rollup e admitted inserted up stored counted d3 = Inr (sessions, d')"
    and val: "\<And>r u. credited_from stored r u \<Longrightarrow> paid (u, lr_cost r) = val r"
  shows "colval G d' k = colval G d1 k + isum own k (filter (\<lambda>it. item_id_of it \<in> set inserted) admitted) +
    sum_list (map val (filter (\<lambda>r. lr_session r = k) new))"
proof -
  let ?fresh = "filter (\<lambda>it. item_id_of it \<in> set inserted) admitted"
  let ?credit = "\<lambda>it. credit_of paid counted (item_id_of it)"
  let ?ds = "batch_deltas e admitted inserted stored counted"
  obtain d4 where q: "quiet d3 d4" "colval G d4 k = colval G d3 k"
    and f: "each (fold_in e) (sort_key d_SessionID ?ds) d4 = Inr ((), d')"
    using kept.keeps_rollup [OF r] by metis
  have "colval G d' k = colval G d4 k + dsum F k (sort_key d_SessionID ?ds)"
    using folds_colval [OF f] committed_known [OF c] q(1) by (simp add: quiet_def)
  also have "colval G d4 k = colval G d1 k"
    unfolding q(2) using c by (simp add: committed_def Let_def colval_def find_session_def)
  also have "dsum F k (sort_key d_SessionID ?ds) = dsum F k ?ds" by (rule dsum_mset) simp
  also have "dsum F k ?ds = isum own k ?fresh +
      (isum ?credit k ?fresh + isum ?credit k (filter (\<lambda>it. item_id_of it \<notin> set inserted) stored))"
    unfolding batch_deltas_def deltas_of_sum isum_add by (simp add: ac_simps)
  also have "isum ?credit k ?fresh = isum ?credit k (filter (\<lambda>it. item_id_of it \<in> set inserted) stored)"
  proof (rule isum_set)
    have "distinct (map item_id_of admitted)" "distinct (map item_id_of stored)"
      using c unfolding committed_def Let_def by blast+
    then show "distinct ?fresh" "distinct (filter (\<lambda>it. item_id_of it \<in> set inserted) stored)"
      by (simp_all add: distinct_map)
    show "set ?fresh = set (filter (\<lambda>it. item_id_of it \<in> set inserted) stored)"
      using committed_fresh [OF c] by simp
  qed
  also have "isum ?credit k (filter (\<lambda>it. item_id_of it \<in> set inserted) stored) +
      isum ?credit k (filter (\<lambda>it. item_id_of it \<notin> set inserted) stored) = isum ?credit k stored"
    by (rule isum_split [symmetric])
  also have "isum ?credit k stored = sum_list (map val (filter (\<lambda>r. lr_session r = k) new))"
    using c val unfolding committed_def Let_def by (intro credited_sum) auto
  finally show ?thesis by (simp add: ac_simps)
qed

end

section \<open>The rows of a batch\<close>

lemma count_rows_imm:
  "count_rows d sid t = int (length (filter (\<lambda>(i, s, m, ty). s = sid \<and> ty = t) (map imm (t_events d))))"
  by (simp add: count_rows_def filter_map comp_def imm_def)

lemma count_rows_append:
  assumes "map imm (t_events d') = map imm (t_events d) @ map item_imm its"
  shows "count_rows d' sid t = count_rows d sid t + isum (one_if t) sid its"
proof -
  have "isum (one_if t) sid its = int (length (filter (\<lambda>(i, s, m, ty). s = sid \<and> ty = t) (map item_imm its)))"
    by (induction its) (simp_all add: one_if_def item_imm_def)
  then show ?thesis by (simp add: count_rows_imm assms)
qed

lemma ledger_sum_append:
  "t_ledger d' = t_ledger d @ new \<Longrightarrow>
   ledger_sum f d' sid = ledger_sum f d sid + sum_list (map f (filter (\<lambda>r. lr_session r = sid) new))"
  by (simp add: ledger_sum_def)

lemma batch_tables:
  assumes c: "committed e admitted inserted stored counted new d1 d3 d'"
    and r: "rollup e admitted inserted up stored counted d3 = Inr (sessions, d')"
  defines "fresh \<equiv> filter (\<lambda>it. item_id_of it \<in> set inserted) admitted"
  shows "map imm (t_events d') = map imm (t_events d1) @ map item_imm fresh"
    "t_ledger d' = t_ledger d1 @ new" "map sr_id (t_sessions d') = map sr_id (t_sessions d1)"
    "owner_of d' k = owner_of d1 k" "set (event_ids d') = set (event_ids d1) \<union> item_id_of ` set fresh"
    "messages_ok d1 \<Longrightarrow> messages_ok d'"
proof -
  have q: "quiet d3 d'" by (rule committed_quiet [OF c r])
  have t: "t_events d' = t_events d3" "t_ledger d' = t_ledger d3" "map sr_id (t_sessions d') = map sr_id (t_sessions d3)"
    "owner_of d' k = owner_of d3 k"
    using q by (simp_all add: quiet_def sess_same_def)
  have c3: "t_sessions d3 = t_sessions d1" "t_messages d3 = t_messages d1" "t_ledger d3 = t_ledger d1 @ new"
    "map imm (t_events d3) = map imm (t_events d1) @ map item_imm fresh"
    using c by (simp_all add: committed_def Let_def fresh_def)
  show e: "map imm (t_events d') = map imm (t_events d1) @ map item_imm fresh" using t c3 by simp
  show ids: "set (event_ids d') = set (event_ids d1) \<union> item_id_of ` set fresh" by (rule event_ids_after [OF e])
  show "t_ledger d' = t_ledger d1 @ new" "map sr_id (t_sessions d') = map sr_id (t_sessions d1)"
    "owner_of d' k = owner_of d1 k"
    using t c3 by (simp_all add: owner_of_def find_session_def)
  assume "messages_ok d1"
  then have "messages_ok d3"
    using c3(2) event_ids_after [OF c3(4)] by (auto simp: messages_ok_def)
  with q show "messages_ok d'" by (simp add: quiet_def)
qed

lemma owner_imm: "(\<forall>x\<in>set (t_events d). owner_of d0 (er_session x) = Some (er_email x)) \<longleftrightarrow>
   (\<forall>(i, s, m, t)\<in>set (map imm (t_events d)). owner_of d0 s = Some m)"
  by (simp add: imm_def)

lemma list_all2_rows:
  assumes "list_all2 (\<lambda>(i, u, c) r. P r u) xs ys" "y \<in> set ys"
  shows "\<exists>u. P y u"
proof -
  obtain k where k: "k < length ys" "y = ys ! k" using assms(2) by (auto simp: in_set_conv_nth)
  with list_all2_nthD2 [OF assms(1) k(1)] show ?thesis by (cases "xs ! k") auto
qed

lemma batch_rows_ok:
  assumes c: "committed e admitted inserted stored counted new d1 d3 d'"
    and r: "rollup e admitted inserted up stored counted d3 = Inr (sessions, d')" and ok: "rows_ok d1"
  shows "rows_ok d'"
proof -
  note B = batch_tables [OF c r]
  let ?fresh = "filter (\<lambda>it. item_id_of it \<in> set inserted) admitted"
  have C: "distinct (map item_id_of admitted)" "\<forall>it\<in>set admitted. own_item d1 it"
    "\<forall>it\<in>set ?fresh. item_id_of it \<notin> set (event_ids d1)" "\<forall>x\<in>set stored. own_item d1 x"
    "\<forall>x\<in>set stored. item_id_of x \<in> set (event_ids d1) \<or> x \<in> set ?fresh"
    "list_all2 (\<lambda>(i, u, c) r. credited_from stored r u) counted new"
    "distinct (map ledger_key (t_ledger d1)) \<longrightarrow> distinct (map ledger_key (t_ledger d3))"
    "t_ledger d3 = t_ledger d1 @ new"
    using c unfolding committed_def Let_def by blast+
  have "map er_id (t_events d') = map er_id (t_events d1) @ map item_id_of ?fresh"
    using arg_cong [OF B(1), of "map fst"] by (simp add: comp_def imm_def item_imm_def)
  moreover have "distinct (map item_id_of ?fresh)" using C(1) by (simp add: distinct_map_filter)
  ultimately have ids: "distinct (event_ids d')"
    using ok C(3) by (auto simp: rows_ok_def event_ids_def) (metis image_eqI)
  have own: "\<forall>x\<in>set (t_events d'). owner_of d' (er_session x) = Some (er_email x)"
    using ok C(2) unfolding rows_ok_def owner_imm B(1,4) by (auto simp: item_imm_def own_item_def)
  have new: "owner_of d' (lr_session x) = Some (lr_email x) \<and> lr_event x \<in> set (event_ids d')" if x: "x \<in> set new" for x
  proof -
    obtain u where "credited_from stored x u"
      using list_all2_rows [OF C(6) x] by blast
    then obtain it where it: "it \<in> set stored" "lr_event x = item_id_of it" "lr_session x = session_of it" "lr_email x = in_Email it"
      by (auto simp: credited_from_def)
    then show ?thesis using C(4,5) by (auto simp: B(4,5) own_item_def)
  qed
  show ?thesis unfolding rows_ok_def
  proof (intro conjI ids own)
    show "distinct (map sr_id (t_sessions d'))" "messages_ok d'" "distinct (map ledger_key (t_ledger d'))"
      using ok B(2,3,6) C(7,8) by (simp_all add: rows_ok_def)
    show "\<forall>x\<in>set (t_ledger d'). owner_of d' (lr_session x) = Some (lr_email x) \<and> lr_event x \<in> set (event_ids d')"
      using ok new unfolding B(2) by (auto simp: rows_ok_def B(4,5))
  qed
qed

lemma grown_rows_ok: "grown d d1 \<Longrightarrow> rows_ok d \<Longrightarrow> rows_ok d1"
  unfolding rows_ok_def messages_ok_def event_ids_def using grown_owner [of d d1] by (auto simp: grown_def)

lemma grown_counts: "grown d d1 \<Longrightarrow> count_rows d1 k t = count_rows d k t" "grown d d1 \<Longrightarrow> ledger_sum f d1 k = ledger_sum f d k"
  by (simp_all add: grown_def count_rows_def ledger_sum_def)

section \<open>The store stays consistent\<close>

lemmas count_cols = turns_col.batch_colval calls_col.batch_colval agents_col.batch_colval errors_col.batch_colval
lemmas grown_cols = turns_col.grown_colval calls_col.grown_colval agents_col.grown_colval errors_col.grown_colval
  input_col.grown_colval output_col.grown_colval read_col.grown_colval cost_col.grown_colval

lemma zero_sum [simp]: "sum_list (map (\<lambda>r. 0 :: 'a::comm_monoid_add) xs) = 0"
  by (induction xs) simp_all

lemma isum_zero [simp]: "isum (\<lambda>_. 0) k its = 0"
  by (simp add: isum_def)

lemma grown_store_ok: "grown d d1 \<Longrightarrow> store_ok d \<Longrightarrow> store_ok d1"
  unfolding store_ok_def counts_ok_def tokens_ok_def
  by (simp add: grown_rows_ok grown_cols grown_counts)

lemma batch_store_ok:
  assumes c: "committed e admitted inserted stored counted new d1 d3 d'"
    and r: "rollup e admitted inserted up stored counted d3 = Inr (sessions, d')" and ok: "store_ok d1"
  shows "store_ok d'"
proof -
  note B = batch_tables [OF c r]
  have counts: "counts_ok d'"
    using ok count_cols [OF c r, of "\<lambda>_. 0"]
    by (simp add: store_ok_def counts_ok_def count_rows_append [OF B(1)])
  have val: "credited_from stored r u \<Longrightarrow> InputTokens u = lr_input r \<and> OutputTokens u = lr_output r \<and> CacheReadTokens u = lr_read r" for r u
    by (auto simp: credited_from_def)
  have "tokens_ok d'"
    using ok input_col.batch_colval [OF c r, of lr_input] output_col.batch_colval [OF c r, of lr_output]
      read_col.batch_colval [OF c r, of lr_read] cost_col.batch_colval [OF c r, of lr_cost] val
    by (simp add: store_ok_def tokens_ok_def ledger_sum_append [OF B(2)])
  with counts show ?thesis using batch_rows_ok [OF c r] ok by (simp add: store_ok_def)
qed

section \<open>A sample store\<close>

definition sample_item :: "string \<Rightarrow> event_type \<Rightarrow> string \<Rightarrow> Ingest" where
  "sample_item i ty email = \<lparr>in_Event = zero_Event\<lparr>ev_ID := i, ev_Source := SourceClaudeCode, ev_Origin := ''transcript'',
     ev_Type := ty, ev_SessionID := ''s1'', ev_OccurredAt := 7, ev_Model := ''opus'', ev_Text := ''hello'', ev_CaptureVersion := 1,
     ev_Usage := (if ty = AssistantTurn then Some (zero_Usage\<lparr>InputTokens := 10, OutputTokens := 3, u_MessageID := ''m1''\<rparr>) else None)\<rparr>,
     in_Email = email, in_DeviceID = ''dev'', in_Repo = [], in_Body = ''{}'', in_AgentVersion = ''1.0''\<rparr>"

definition sample_tx :: tx_env where
  "sample_tx = \<lparr>stmt_ok = (\<lambda>_. True), index_ready = False, tx_now = 9, price = (\<lambda>m u t. 1 / 2), tx_codec = sample_codec\<rparr>"

definition empty_db :: db where
  "empty_db = \<lparr>t_sessions = [], t_events = [], t_messages = [], t_ledger = []\<rparr>"

text \<open>Two events of one session, one of them twice, and an event another principal sends under it.\<close>

definition sample_batch :: "Ingest list" where
  "sample_batch = [sample_item ''e1'' UserPrompt ''ana'', sample_item ''e2'' AssistantTurn ''ana'',
     sample_item ''e1'' UserPrompt ''ana'', sample_item ''e3'' ToolCall ''bob'']"

lemma empty_db_ok: "store_ok empty_db"
  by (simp add: store_ok_def rows_ok_def counts_ok_def tokens_ok_def empty_db_def colval_def find_session_def count_rows_def
      ledger_sum_def messages_ok_def event_ids_def)

definition sample_stored :: db where
  "sample_stored = snd (UpsertEvents sample_tx sample_batch empty_db)"

lemma sample_eval:
  "(let r = UpsertEvents sample_tx sample_batch empty_db
    in (fst r, colval sr_user_turns (snd r) ''s1'', colval sr_cost (snd r) ''s1'', event_ids (snd r))) =
   ((None, \<lparr>Inserted = [''e1'', ''e2''], Duplicate = [''e1''],
      Refused = [\<lparr>rf_ID = ''e3'', rf_Reason = ''session belongs to another principal''\<rparr>], Sessions = [''s1'']\<rparr>),
    1, 1 / 2, [''e1'', ''e2''])"
  by code_simp

lemma sample_run: "UpsertEvents sample_tx sample_batch empty_db =
    ((None, \<lparr>Inserted = [''e1'', ''e2''], Duplicate = [''e1''],
      Refused = [\<lparr>rf_ID = ''e3'', rf_Reason = ''session belongs to another principal''\<rparr>], Sessions = [''s1'']\<rparr>), sample_stored)"
  using sample_eval by (simp add: sample_stored_def prod_eq_iff Let_def)

lemma sample_columns: "colval sr_user_turns sample_stored ''s1'' = 1" "colval sr_cost sample_stored ''s1'' = 1 / 2"
  "event_ids sample_stored = [''e1'', ''e2'']"
  using sample_eval by (simp_all add: sample_stored_def Let_def)

text \<open>
  C11. Storing keeps the store consistent: whatever the batch, ids, sessions and ledger keys stay
  unique, every event and ledger row belongs to its session's owner, and each session's turn,
  tool-call, subagent and error counters are the numbers of its stored events and its tokens and
  cost the sums of its ledger rows, so no event is counted twice and no model call priced twice.
\<close>
theorem UpsertEvents_store_ok:
  "store_ok d \<Longrightarrow> store_ok (snd (UpsertEvents e items d))"
proof -
  assume ok: "store_ok d"
  obtain err res d' where run: "UpsertEvents e items d = ((err, res), d')" by (metis prod_cases3 surj_pair)
  from run have "store_ok d'"
    by (cases rule: UpsertEvents_stages) (use ok grown_store_ok batch_store_ok in blast)+
  with run show ?thesis by simp
qed

theorem UpsertEvents_store_ok_witness: "store_ok sample_stored \<and> colval sr_user_turns sample_stored ''s1'' = 1"
  using UpsertEvents_store_ok [OF empty_db_ok, of sample_tx sample_batch] by (simp add: sample_stored_def [symmetric] sample_columns)

end
