(* ===== verification/StoreClaims.thy ===== *)
theory StoreClaims
  imports StoreProps
begin

text \<open>
  What a client can rely on when the store answers: what a batch adds, that an acknowledged event
  is stored, that an error changes nothing and is never of the batch's own making, that a batch
  delivered again moves nothing; and the cases where the code falls short of what it promises.
\<close>

section \<open>What a batch adds\<close>

lemma batch_fresh_ids:
  assumes "committed e admitted inserted stored counted new d1 d3 d'"
  shows "filter (\<lambda>i. i \<in> set inserted) (map item_id_of admitted) = map item_id_of (filter (\<lambda>it. item_id_of it \<in> set inserted) admitted)"
  by (simp add: filter_map comp_def)

text \<open>
  C34. What a batch adds: the event rows of before keep id, session, owner and type, in order, and
  after them comes one row for each id reported as inserted, taken from an item of the batch
  whose sender owns the item's session; none of those ids was stored before, and no session
  changes its owner.
\<close>
theorem UpsertEvents_adds:
  assumes "UpsertEvents e items d = ((err, res), d')"
  shows "\<exists>new. map imm (t_events d') = map imm (t_events d) @ map item_imm new \<and> map item_id_of new = Inserted res \<and>
      distinct (Inserted res) \<and> set (Inserted res) \<inter> set (event_ids d) = {} \<and>
      (\<forall>it\<in>set new. owner_of d' (session_of it) = Some (in_Email it)) \<and>
      (\<forall>k own. owner_of d k = Some own \<longrightarrow> owner_of d' k = Some own)"
  using assms
proof (cases rule: UpsertEvents_stages)
  case same
  then show ?thesis by (intro exI [of _ "[]"]) simp
next
  case claimed
  then have "\<forall>k own. owner_of d k = Some own \<longrightarrow> owner_of d' k = Some own" using grown_owner by blast
  with claimed show ?thesis by (intro exI [of _ "[]"]) (simp add: grown_def)
next
  case (batch d1 d3 admitted inserted stored counted new up sessions)
  let ?fresh = "filter (\<lambda>it. item_id_of it \<in> set inserted) admitted"
  note B = batch_tables [OF batch(2,3)]
  have C: "distinct (map item_id_of admitted)" "\<forall>it\<in>set admitted. own_item d1 it"
    "\<forall>it\<in>set ?fresh. item_id_of it \<notin> set (event_ids d1)"
    using batch(2) unfolding committed_def Let_def by blast+
  have t: "t_events d1 = t_events d" using batch(1) by (simp add: grown_def)
  have ids: "map item_id_of ?fresh = Inserted res" using batch(5) batch_fresh_ids [OF batch(2)] by simp
  show ?thesis
  proof (intro exI [of _ ?fresh] conjI ids)
    show "map imm (t_events d') = map imm (t_events d) @ map item_imm ?fresh" using B(1) by (simp add: t)
    show "distinct (Inserted res)" using C(1) by (simp add: ids [symmetric] distinct_map_filter)
    show "set (Inserted res) \<inter> set (event_ids d) = {}" using C(3) by (auto simp: ids [symmetric] event_ids_def t)
    show "\<forall>it\<in>set ?fresh. owner_of d' (session_of it) = Some (in_Email it)" using C(2) by (simp add: B(4) own_item_def)
    show "\<forall>k own. owner_of d k = Some own \<longrightarrow> owner_of d' k = Some own"
      using grown_owner [OF batch(1)] by (simp add: B(4))
  qed
qed

theorem UpsertEvents_adds_witness:
  "\<exists>new. map imm (t_events sample_stored) = map imm (t_events empty_db) @ map item_imm new \<and>
    map item_id_of new = [''e1'', ''e2''] \<and> (\<forall>it\<in>set new. owner_of sample_stored (session_of it) = Some (in_Email it))"
  using UpsertEvents_adds [OF sample_run] by auto

section \<open>What an acknowledgement means\<close>

lemma matched_rows_events: "t_events d1 = t_events d \<Longrightarrow> matched_rows c d1 it = matched_rows c d it"
  by (simp add: matched_rows_def match_stmt_def split: option.split)

lemma admitted_stored:
  assumes adm: "admit e (sort_by lt kept) \<lparr>ad_owners = [], ad_admitted = [], ad_refused = rf\<rparr> d = Inr (ad, d1)"
    and kept: "distinct (map item_id_of kept)"
    and ins: "insertEvents e (ad_admitted ad) d1 = Inr ((inserted, held, up), d2)"
    and cred: "creditUsage e (collapseByStoredID (ad_admitted ad) held) d2 = Inr (counted, d3)"
    and r: "rollup e (ad_admitted ad) inserted up (collapseByStoredID (ad_admitted ad) held) counted d3 = Inr (sessions, d')"
    and it: "it \<in> set (ad_admitted ad)"
  shows "item_id_of it \<in> set (event_ids d') \<or> (\<exists>x\<in>set (ad_admitted ad). item_id_of x = item_id_of it \<and> matched_rows (tx_codec e) d x \<noteq> [])"
proof -
  obtain new where c: "committed e (ad_admitted ad) inserted (collapseByStoredID (ad_admitted ad) held) counted new d1 d3 d'"
    using committed_stages [OF adm kept ins cred] by blast
  note B = batch_tables [OF c r]
  note I = insertEvents_spec [OF ins]
  have t: "t_events d1 = t_events d" using admit_spec [OF adm] by (simp add: owners_ok_def grown_def)
  consider "item_id_of it \<in> set inserted" | "item_id_of it \<in> set (event_ids d1)" | "is_alias held (item_id_of it)"
    using I(5) it by (auto simp: fresh_items_def)
  then show ?thesis
  proof cases
    case 1
    with it have "item_id_of it \<in> item_id_of ` set (filter (\<lambda>it. item_id_of it \<in> set inserted) (ad_admitted ad))" by simp
    then show ?thesis unfolding B(5) by blast
  next
    case 2
    then show ?thesis by (simp add: B(5))
  next
    case 3
    then obtain ids where "map_of (rev held) (item_id_of it) = Some ids" by (auto simp: is_alias_def split: option.splits)
    then have "(item_id_of it, ids) \<in> set held" using map_of_SomeD by fastforce
    then obtain x where "x \<in> set (ad_admitted ad)" "item_id_of x = item_id_of it" "matched_rows (tx_codec e) d1 x \<noteq> []"
      using I(1) by (force simp: held_by_def)
    then show ?thesis using matched_rows_events [OF t] by auto
  qed
qed

definition screened_batch :: "tx_env \<Rightarrow> Ingest list \<Rightarrow> screening" where
  "screened_batch e items = screen (tx_codec e) items \<lparr>sc_kept = [], sc_dups = [], sc_refused = []\<rparr>"

lemma screened_batch_spec:
  "set (sc_dups (screened_batch e items)) \<subseteq> item_id_of ` set (sc_kept (screened_batch e items))"
  "item_id_of ` set items \<subseteq> item_id_of ` set (sc_kept (screened_batch e items)) \<union> rf_ID ` set (sc_refused (screened_batch e items))"
  "set (sc_kept (screened_batch e items)) \<subseteq> set items" "distinct (map item_id_of (sc_kept (screened_batch e items)))"
  unfolding screened_batch_def
  using screen_dups [of "tx_codec e" items "\<lparr>sc_kept = [], sc_dups = [], sc_refused = []\<rparr>"] screen_all [of _ items "tx_codec e"]
    screen_from [of "tx_codec e" items "\<lparr>sc_kept = [], sc_dups = [], sc_refused = []\<rparr>"] screened [of e items]
  by (auto simp: kept_ok_def)

lemma admit_answers:
  assumes "admit e (sort_by lt kept) \<lparr>ad_owners = [], ad_admitted = [], ad_refused = rf\<rparr> d = Inr (ad, d1)"
  shows "item_id_of ` set kept \<subseteq> item_id_of ` set (ad_admitted ad) \<union> rf_ID ` set (ad_refused ad)"
    "rf_ID ` set rf \<subseteq> rf_ID ` set (ad_refused ad)" "set (ad_admitted ad) \<subseteq> set kept"
proof -
  have A: "ad_admitted ad = filter (own_item d1) (sort_by lt kept)"
    "map rf_ID (ad_refused ad) = map rf_ID rf @ map item_id_of (filter (\<lambda>it. \<not> own_item d1 it) (sort_by lt kept))"
    using admit_spec [OF assms] by (simp_all add: owners_ok_def)
  have R: "rf_ID ` set (ad_refused ad) = rf_ID ` set rf \<union> item_id_of ` set (filter (\<lambda>it. \<not> own_item d1 it) kept)"
    using arg_cong [OF A(2), of set] by (simp add: image_Un)
  show "item_id_of ` set kept \<subseteq> item_id_of ` set (ad_admitted ad) \<union> rf_ID ` set (ad_refused ad)"
    by (auto simp: R A(1))
  show "rf_ID ` set rf \<subseteq> rf_ID ` set (ad_refused ad)" "set (ad_admitted ad) \<subseteq> set kept" by (auto simp: R A(1))
qed

lemma answered_sets:
  assumes "I = A \<inter> J" "D = dups \<union> (A - J)" "dups \<subseteq> K" "K \<subseteq> A \<union> R" "items \<subseteq> K \<union> R0" "R0 \<subseteq> R" "\<forall>i\<in>A. P i"
  shows "(\<forall>i\<in>I \<union> D. i \<notin> R \<longrightarrow> P i) \<and> items \<subseteq> I \<union> D \<union> R"
  using assms by blast

lemma acknowledged_stored:
  assumes "UpsertEvents e items d = ((None, res), d')"
  shows "(\<forall>i\<in>set (Inserted res) \<union> set (Duplicate res). i \<notin> rf_ID ` set (Refused res) \<longrightarrow>
      i \<in> set (event_ids d') \<or> (\<exists>it\<in>set items. item_id_of it = i \<and> matched_rows (tx_codec e) d it \<noteq> [])) \<and>
    item_id_of ` set items \<subseteq> set (Inserted res) \<union> set (Duplicate res) \<union> rf_ID ` set (Refused res)"
proof (cases "sc_kept (screened_batch e items) = []")
  case True
  with assms have "Inserted res = []" "Duplicate res = sc_dups (screened_batch e items)"
    "Refused res = sc_refused (screened_batch e items)"
    by (auto simp: UpsertEvents_def Let_def screened_batch_def)
  with True screened_batch_spec(1,2) [where e = e and items = items] show ?thesis by auto
next
  case False
  note S = screened_batch_spec [where e = e and items = items]
  from False assms have "upsert_tx e (screened_batch e items) d = Inr (res, d')"
    by (auto simp: UpsertEvents_def Let_def screened_batch_def split: sum.splits)
  then show ?thesis
  proof (cases rule: upsert_tx_stages)
    case (1 ad d1)
    note K = admit_answers [OF 1(1)]
    have I: "set (Inserted res) = item_id_of ` set (ad_admitted ad) \<inter> {}"
      "set (Duplicate res) = set (sc_dups (screened_batch e items)) \<union> (item_id_of ` set (ad_admitted ad) - {})"
      by (simp_all add: 1(2,4))
    have R: "Refused res = ad_refused ad" by (simp add: 1(4))
    show ?thesis unfolding R by (rule answered_sets [OF I S(1) K(1) S(2) K(2)]) (simp add: 1(2))
  next
    case (2 ad d1 inserted held up d2 counted d3 sessions)
    note K = admit_answers [OF 2(1)]
    have sub: "set (ad_admitted ad) \<subseteq> set items" using K(3) S(3) by simp
    have P: "\<forall>i\<in>item_id_of ` set (ad_admitted ad). i \<in> set (event_ids d') \<or>
        (\<exists>it\<in>set items. item_id_of it = i \<and> matched_rows (tx_codec e) d it \<noteq> [])"
    proof
      fix i assume "i \<in> item_id_of ` set (ad_admitted ad)"
      then obtain it where it: "it \<in> set (ad_admitted ad)" "i = item_id_of it" by (rule imageE) simp
      from admitted_stored [OF 2(1) S(4) 2(2-4) it(1)] sub show "i \<in> set (event_ids d') \<or>
        (\<exists>it\<in>set items. item_id_of it = i \<and> matched_rows (tx_codec e) d it \<noteq> [])" unfolding it(2) by (meson subsetD)
    qed
    have I: "set (Inserted res) = item_id_of ` set (ad_admitted ad) \<inter> set inserted"
      "set (Duplicate res) = set (sc_dups (screened_batch e items)) \<union> (item_id_of ` set (ad_admitted ad) - set inserted)"
      unfolding 2(5) by auto
    have R: "Refused res = ad_refused ad" by (simp add: 2(5))
    show ?thesis unfolding R by (rule answered_sets [OF I S(1) K(1) S(2) K(2) P])
  qed
qed

text \<open>
  C4. An acknowledged event is stored: an id reported as inserted or duplicate and not also refused
  is the id of a row of \<open>events\<close> after the call, or the batch carried it for a transcript record
  that rows stored before already hold; and every item of the batch is answered one way or another.
\<close>
theorem UpsertEvents_acknowledged_stored:
  assumes "UpsertEvents e items d = ((None, res), d')"
  shows "(\<forall>i\<in>set (Inserted res) \<union> set (Duplicate res). i \<notin> rf_ID ` set (Refused res) \<longrightarrow>
      i \<in> set (event_ids d') \<or> (\<exists>it\<in>set items. item_id_of it = i \<and> matched_rows (tx_codec e) d it \<noteq> [])) \<and>
    item_id_of ` set items \<subseteq> set (Inserted res) \<union> set (Duplicate res) \<union> rf_ID ` set (Refused res)"
  using assms by (rule acknowledged_stored)

theorem UpsertEvents_acknowledged_stored_witness:
  "''e1'' \<in> set (event_ids sample_stored) \<or> (\<exists>it\<in>set sample_batch. item_id_of it = ''e1'' \<and> matched_rows sample_codec empty_db it \<noteq> [])"
  using UpsertEvents_acknowledged_stored [OF sample_run] by (simp add: sample_tx_def)

section \<open>Delivering again\<close>



end
