(* ===== verification/IngestAdapter.thy ===== *)
theory IngestAdapter
  imports Ingest StoreClaims
begin

text \<open>
  The upload endpoint on the database (\<open>server/app/ingest_adapter.go\<close>): the records as the store
  takes them, the store's answer in the endpoint's words, and the client build a request carries.
  What went wrong in a statement of the transaction stays on this side of the port.
\<close>

section \<open>The write path\<close>

definition to_ingest :: "string \<Rightarrow> Record \<Rightarrow> Ingest" where
  "to_ingest version r =
     \<lparr>in_Event = rd_Event r, in_Email = rd_Email r, in_DeviceID = rd_DeviceID r, in_Repo = rd_Repo r, in_Body = rd_Body r,
      in_AgentVersion = version\<rparr>"

definition ingestVerdict :: "UpsertResult \<Rightarrow> stmt option \<Rightarrow> Result option" where
  "ingestVerdict res err =
     (case err of
        Some st \<Rightarrow> None
      | None \<Rightarrow> Some \<lparr>rs_Inserted = Inserted res, rs_Duplicate = Duplicate res,
          rs_Rejected = map (\<lambda>r. \<lparr>rx_ID = rf_ID r, rx_Reason = rf_Reason r\<rparr>) (Refused res)\<rparr>)"

definition ingest_store :: "tx_env \<Rightarrow> string \<Rightarrow> Record list \<Rightarrow> db \<Rightarrow> Result option \<times> db" where
  "ingest_store e version records d =
     (case UpsertEvents e (map (to_ingest version) records) d of
        ((err, res), d1) \<Rightarrow> (ingestVerdict res err, d1))"

section \<open>The client build on the request\<close>

definition WithAgentVersion :: "string \<Rightarrow> string \<Rightarrow> string" where
  "WithAgentVersion ctx version0 = (let version = TrimSpace version0 in if version = [] then ctx else version)"

definition withRequestAgentVersion :: "(string \<Rightarrow> Request \<Rightarrow> 's \<Rightarrow> Reply \<times> 's) \<Rightarrow> string \<Rightarrow> Request \<Rightarrow> 's \<Rightarrow> Reply \<times> 's" where
  "withRequestAgentVersion next ctx r d =
     (let v = AgentBuild (rq_UserAgent r)
      in next (if v \<noteq> [] then WithAgentVersion ctx v else ctx) r d)"

section \<open>The device verifier\<close>

text \<open>Why a presented credential did not verify; \<open>OtherFailure\<close> is whatever is not on the list.\<close>

datatype credential_failure =
    TokenMalformed | TokenUnknown | TokenRevoked | TokenExpired | DeviceRevoked | PrincipalDisabled | NotFound
  | OtherFailure

definition credentialFailures :: "credential_failure list" where
  "credentialFailures = [TokenMalformed, TokenUnknown, TokenRevoked, TokenExpired, DeviceRevoked, PrincipalDisabled, NotFound]"

definition ingest_Verify :: "(string \<Rightarrow> credential_failure + Caller) \<Rightarrow> string \<Rightarrow> verify_error + Caller" where
  "ingest_Verify verify presented =
     (case verify presented of
        Inl bad \<Rightarrow> Inl (if bad \<in> set credentialFailures then Unauthenticated else VerifyFailed)
      | Inr ca \<Rightarrow> Inr \<lparr>ca_Email = ca_Email ca, ca_DeviceID = ca_DeviceID ca\<rparr>)"

end
