(* ===== verification/RegistryClaims.thy ===== *)
theory RegistryClaims
  imports AccessClaims IngestAdapter
begin

text \<open>
  The properties of accounts, machines and grants: the rules every reachable state keeps, who a
  credential speaks for, what an enrolment touches, and what a grant opens and for how long.
\<close>

section \<open>A sample\<close>

definition ada_row :: Principal where
  "ada_row = \<lparr>p_Email = ''ada@x'', p_Role = RoleAdmin, p_DisplayName = [], p_AddedBy = ''bootstrap'', p_AddedAt = 1,
     p_DisabledAt = None\<rparr>"

definition bea_row :: Principal where
  "bea_row = \<lparr>p_Email = ''bea@x'', p_Role = RoleMember, p_DisplayName = ''Bea'', p_AddedBy = ''self'', p_AddedAt = 2,
     p_DisabledAt = None\<rparr>"

definition laptop :: Device where
  "laptop = \<lparr>v_ID = ''d1'', v_Email = ''bea@x'', v_Hostname = ''mac'', v_OS = [], v_Arch = [], v_AgentVersion = [],
     v_EnrolledAt = 3, v_RevokedAt = None\<rparr>"

definition laptop_token :: token_row where
  "laptop_token = \<lparr>tk_ID = ''t1'', tk_Device = ''d1'', tk_Hash = ''h1'', tk_Expires = None, tk_Revoked = None,
     tk_LastUsed = None\<rparr>"

definition desktop :: Device where "desktop = laptop\<lparr>v_ID := ''d2'', v_Hostname := ''air''\<rparr>"
definition desktop_token :: token_row where
  "desktop_token = laptop_token\<lparr>tk_ID := ''t2'', tk_Device := ''d2'', tk_Hash := ''h2''\<rparr>"

definition link :: Share where
  "link = \<lparr>sh_ID = ''g1'', sh_SessionID = ''s1'', sh_CreatedBy = ''bea@x'', sh_Grantee = ''cy@x'', sh_Token = ''z0'',
     sh_CreatedAt = 9, sh_ExpiresAt = None, sh_RevokedAt = None\<rparr>"

definition office :: registry where
  "office = (sample_reads [])\<lparr>r_principals := [ada_row, bea_row], r_devices := [laptop, desktop],
     r_tokens := [laptop_token, desktop_token], r_shares := [link]\<rparr>"

definition newcomer :: Device where "newcomer = laptop\<lparr>v_ID := []\<rparr>"

definition promote :: PrincipalUpdate where
  "promote = \<lparr>u_Email = ''bea@x'', u_Role = Some RoleAdmin, u_DisplayName = None, u_Disabled = None\<rparr>"

lemmas office_defs = office_def ada_row_def bea_row_def laptop_def laptop_token_def desktop_def desktop_token_def
  link_def newcomer_def promote_def sample_reads_def sample_access_def ada_def bea_def

lemma office_ok: "registry_ok office"
  by (simp add: registry_ok_def one_row_each_def device_keys_def share_keys_def live_hashes_def office_defs)

lemma office_revoke: "\<exists>r1. RevokeDevice sample_access bea ''d1'' office = Inr ((), r1) \<and>
    r_principals r1 = [ada_row, bea_row] \<and> r_devices r1 = [laptop\<lparr>v_RevokedAt := Some 100\<rparr>, desktop] \<and>
    r_tokens r1 = [laptop_token\<lparr>tk_Revoked := Some 100\<rparr>, desktop_token]"
  by (simp add: RevokeDevice_def attempt_def retire_def retire_tokens_def office_defs)

lemma office_put: "\<exists>x r1. PutPrincipal sample_access ada promote office = Inr (x, r1)"
  by (simp add: PutPrincipal_def attempt_def IsAdmin_def put_role_def Valid_def unchanged_def find_principal_def
      RecordPrincipalChange_def put_change_def put_row_def office_defs RoleAdmin_def RoleMember_def ActiveAdmin_simp Let_def)

lemma office_enroll: "\<exists>dev r1. EnrollDevice sample_access newcomer ''h3'' 0 office = Inr (dev, r1) \<and> v_ID dev = ''i1''"
  by (simp add: EnrollDevice_def attempt_def claimed_device_def isUUID_def place_device_def supersedeHost_def
      insert_device_def retire_def retire_tokens_def token_fits_def office_defs Let_def)

section \<open>Reachable states\<close>



text \<open>
  C10. The system never loses its last administrator: whatever sequence of edits through the page
  and the API, self-enrolments, restarts and other operations, a roster with an active
  administrator has one afterwards.
\<close>
theorem active_admin_remains:
  assumes "access_step\<^sup>*\<^sup>* r r'" "distinct (map p_Email (r_principals r))"
    and "\<exists>p\<in>set (r_principals r). p_Role p = RoleAdmin \<and> p_DisabledAt p = None"
  shows "\<exists>p\<in>set (r_principals r'). p_Role p = RoleAdmin \<and> p_DisabledAt p = None"
  using access.steps_admin[OF assms(1)] assms(2,3)
  by (auto simp: one_row_each_def active_admin_def ActiveAdmin_simp)

theorem active_admin_remains_witness:
  "\<exists>r'. access_step office r' \<and> (\<exists>p\<in>set (r_principals r'). p_Role p = RoleAdmin \<and> p_DisabledAt p = None)"
proof -
  obtain x r' where put: "PutPrincipal sample_access ada promote office = Inr (x, r')" using office_put by blast
  show ?thesis
    using active_admin_remains[OF r_into_rtranclp, OF access_step.put[OF put]] access_step.put[OF put]
    by (auto simp: office_defs)
qed

text \<open>
  C20. The trail of changes explains the roster: after any sequence of operations, replaying the
  rows added to the trail from the earlier roster gives the role and the switch of every address,
  and each row names truly what it changed, a creation by having no role to come from. Nobody's
  standing moves without a row.
\<close>
theorem trail_explains_roster:
  assumes "access_step\<^sup>*\<^sup>* r r'"
  shows "\<exists>cs. r_changes r' = r_changes r @ cs \<and> explains cs (standing r) (standing r')"
  using assms by (rule access.steps_explained)

theorem trail_explains_roster_witness:
  "\<exists>x r'. PutPrincipal sample_access ada promote office = Inr (x, r') \<and>
     (\<exists>cs. r_changes r' = r_changes office @ cs \<and> explains cs (standing office) (standing r'))"
proof -
  obtain x r' where put: "PutPrincipal sample_access ada promote office = Inr (x, r')" using office_put by blast
  show ?thesis
    using trail_explains_roster[of office r', OF r_into_rtranclp[where r = access_step, OF access_step.put[OF put]]] put
    by (intro exI[of _ x] exI[of _ r'] conjI)
qed

text \<open>
  C9. A revoked laptop stays revoked: once its owner or an administrator has revoked a device, no
  sequence of operations, enrolments that claim its id included, makes any credential upload in
  its name again.
\<close>
theorem revoked_device_stays_out:
  assumes "RevokeDevice e v deviceID r = Inr (u, r1)" "registry_ok r" "access_step\<^sup>*\<^sup>* r1 r2"
    and "storeDevices_Verify e' digest presented r2 = (Inr ca, r3)"
  shows "ae_uuid e deviceID \<noteq> Some (ca_DeviceID ca)"
proof -
  obtain i where i: "ae_uuid e deviceID = Some i" "retired i r1"
    using RevokeDevice_retires[OF assms(1)] assms(2) by (auto simp: registry_ok_def device_keys_def)
  then have gone: "retired i r2" using access.steps_retired[OF assms(3)] by blast
  obtain who where "fst (AuthenticateDevice e' (digest (TrimSpace presented)) r2) = Inr who" "ca_DeviceID ca = di_DeviceID who"
    using assms(4) by (auto simp: storeDevices_Verify_def Let_def split: if_splits prod.splits sum.splits)
  then show ?thesis using AuthenticateDevice_Inr retired_not_identity[OF gone] i(1) by fastforce
qed

theorem revoked_device_stays_out_witness:
  "\<exists>r1 ca r3. RevokeDevice sample_access bea ''d1'' office = Inr ((), r1) \<and>
     storeDevices_Verify sample_access (\<lambda>_. ''h2'') ''lsd_k'' r1 = (Inr ca, r3) \<and> ca_DeviceID ca \<noteq> ''d1''"
proof -
  obtain r1 where r1: "RevokeDevice sample_access bea ''d1'' office = Inr ((), r1)"
    "r_principals r1 = [ada_row, bea_row]" "r_devices r1 = [laptop\<lparr>v_RevokedAt := Some 100\<rparr>, desktop]"
    "r_tokens r1 = [laptop_token\<lparr>tk_Revoked := Some 100\<rparr>, desktop_token]"
    using office_revoke by blast
  have "fst (AuthenticateDevice sample_access ''h2'' r1) = Inr \<lparr>di_DeviceID = ''d2'', di_Email = ''bea@x'', di_Role = RoleMember\<rparr>"
    by (simp add: AuthenticateDevice_def List.map_filter_simps usable_def unexpired_def identity_of_def
        live_device_def live_principal_def r1(2-4) office_defs)
  then obtain ca r3 where "storeDevices_Verify sample_access (\<lambda>_. ''h2'') ''lsd_k'' r1 = (Inr ca, r3)"
    by (cases "AuthenticateDevice sample_access ''h2'' r1")
      (simp add: storeDevices_Verify_def TokenPrefix_def TrimSpace_def is_space_def)
  then show ?thesis
    using revoked_device_stays_out[OF r1(1) office_ok rtranclp.rtrancl_refl] r1(1)
    by (fastforce simp: sample_access_def)
qed

section \<open>Credentials\<close>

text \<open>
  C21. Who a token speaks for: where the keys hold, a credential resolves to an identity exactly
  when it is the live, unexpired token of a device that is not revoked, of a principal who is not
  switched off, and the identity is that device, its owner and the owner's role. Otherwise it is
  not found, and a failing database is never read as a bad credential.
\<close>
theorem AuthenticateDevice_iff:
  assumes "registry_ok r" "ae_ok e QUsed"
  shows "(fst (AuthenticateDevice e hash r) = Inr who \<longleftrightarrow>
    (\<exists>k\<in>set (r_tokens r). \<exists>d\<in>set (r_devices r). \<exists>p\<in>set (r_principals r).
       tk_Hash k = hash \<and> tk_Revoked k = None \<and> (\<forall>t. tk_Expires k = Some t \<longrightarrow> ae_now e < t) \<and>
       v_ID d = tk_Device k \<and> v_RevokedAt d = None \<and> p_Email p = v_Email d \<and> p_DisabledAt p = None \<and>
       who = \<lparr>di_DeviceID = v_ID d, di_Email = v_Email d, di_Role = p_Role p\<rparr>)) \<and>
    (fst (AuthenticateDevice e hash r) = Inl bad \<longrightarrow> bad = ErrNotFound)"
    (is "(?L \<longleftrightarrow> ?R) \<and> _")
proof (intro conjI iffI)
  have expiry: "unexpired (ae_now e) x \<longleftrightarrow> (\<forall>t. x = Some t \<longrightarrow> ae_now e < t)" for x
    by (cases x) (auto simp: unexpired_def)
  show ?R if ?L
  proof -
    obtain k where k: "k \<in> set (r_tokens r)" "usable e hash k" "identity_of k r = Some who"
      using AuthenticateDevice_Inr \<open>?L\<close> by blast
    obtain d p where "d \<in> set (r_devices r)" "v_ID d = tk_Device k" "v_RevokedAt d = None" "di_DeviceID who = v_ID d"
      "di_Email who = v_Email d" "p \<in> set (r_principals r)" "p_Email p = v_Email d" "p_DisabledAt p = None"
      "di_Role who = p_Role p"
      using identity_of_Some[OF k(3)] by blast
    moreover have "tk_Hash k = hash" "tk_Revoked k = None" "\<forall>t. tk_Expires k = Some t \<longrightarrow> ae_now e < t"
      using k(2) by (auto simp: usable_def expiry)
    moreover have "who = \<lparr>di_DeviceID = di_DeviceID who, di_Email = di_Email who, di_Role = di_Role who\<rparr>" by simp
    ultimately show ?R using k(1) by metis
  qed
  show ?L if ?R
  proof -
    obtain k d p where k: "k \<in> set (r_tokens r)" "usable e hash k" and d: "d \<in> set (r_devices r)" "v_ID d = tk_Device k"
        "v_RevokedAt d = None" and p: "p \<in> set (r_principals r)" "p_Email p = v_Email d" "p_DisabledAt p = None"
      and who: "who = \<lparr>di_DeviceID = v_ID d, di_Email = v_Email d, di_Role = p_Role p\<rparr>"
      using \<open>?R\<close> by (auto simp: usable_def expiry)
    have keys: "distinct (map v_ID (r_devices r))" "distinct (map p_Email (r_principals r))" "distinct (live_hashes (r_tokens r))"
      using assms(1) by (auto simp: registry_ok_def one_row_each_def device_keys_def)
    have "identity_of k r = Some who" unfolding who by (rule identity_found[OF keys(1,2) d p])
    then show ?L using AuthenticateDevice_found[OF keys(3) assms(2) k] by blast
  qed
qed (use assms(2) in \<open>auto simp: AuthenticateDevice_def split: list.splits\<close>)

theorem AuthenticateDevice_iff_witness:
  "fst (AuthenticateDevice sample_access ''h1'' office) = Inr \<lparr>di_DeviceID = ''d1'', di_Email = ''bea@x'', di_Role = RoleMember\<rparr>"
  using AuthenticateDevice_iff[OF office_ok, of sample_access "''h1''"
      "\<lparr>di_DeviceID = ''d1'', di_Email = ''bea@x'', di_Role = RoleMember\<rparr>"]
  by (simp add: office_defs)

text \<open>
  Enrolling works: the token an enrolment was given authenticates as the enrolled device, in
  its owner's name and role, until it expires; and only an active principal could enrol it.
\<close>
theorem enrolled_token_authenticates:
  assumes "EnrollDevice e d hash until r = Inr (dev, r')" "registry_ok r"
    and "ae_ok e' QUsed" "IsZero until \<or> ae_now e' < until"
  shows "\<exists>p\<in>set (r_principals r). p_Email p = v_Email d \<and> p_DisabledAt p = None \<and>
    fst (AuthenticateDevice e' hash r') = Inr \<lparr>di_DeviceID = v_ID dev, di_Email = v_Email d, di_Role = p_Role p\<rparr>"
proof -
  obtain r1 i ds where ins: "insert_device e i d r1 = Some (v_EnrolledAt dev, ds)" and dev: "v_ID dev = i"
    and r1: "r_principals r1 = r_principals r"
    and r': "r' = r1\<lparr>r_devices := ds, r_tokens := r_tokens r1 @
      [\<lparr>tk_ID = ae_token_id e, tk_Device = i, tk_Hash = hash, tk_Expires = nullTime until, tk_Revoked = None,
        tk_LastUsed = None\<rparr>]\<rparr>"
    using EnrollDevice_Inr[OF assms(1)] EnrollDevice_frame(1)[OF assms(1)] by fastforce
  obtain p where p: "p \<in> set (r_principals r)" "p_Email p = v_Email d" "p_DisabledAt p = None"
    using insert_device_Some(1)[OF ins] r1 by auto
  obtain x where x: "x \<in> set ds" "v_ID x = i" "v_Email x = v_Email d" "v_RevokedAt x = None"
    using insert_device_kept[OF ins] by blast
  have ok: "registry_ok r'"
    using access.steps_ok[OF r_into_rtranclp, OF access_step.enroll, OF assms(1,2)] .
  have "fst (AuthenticateDevice e' hash r') = Inr \<lparr>di_DeviceID = v_ID x, di_Email = v_Email x, di_Role = p_Role p\<rparr>"
  proof (rule AuthenticateDevice_found)
    let ?k = "\<lparr>tk_ID = ae_token_id e, tk_Device = i, tk_Hash = hash, tk_Expires = nullTime until, tk_Revoked = None,
        tk_LastUsed = None\<rparr>"
    show "?k \<in> set (r_tokens r')" by (simp add: r')
    show "usable e' hash ?k" using assms(4) by (auto simp: usable_def unexpired_def nullTime_def)
    show "identity_of ?k r' = Some \<lparr>di_DeviceID = v_ID x, di_Email = v_Email x, di_Role = p_Role p\<rparr>"
      using ok p x by (intro identity_found) (auto simp: registry_ok_def one_row_each_def device_keys_def r' r1)
  qed (use ok assms(3) in \<open>auto simp: registry_ok_def device_keys_def\<close>)
  then show ?thesis using p x dev by metis
qed

theorem enrolled_token_authenticates_witness:
  "\<exists>dev r' role. EnrollDevice sample_access newcomer ''h3'' 0 office = Inr (dev, r') \<and>
     fst (AuthenticateDevice sample_access ''h3'' r') =
       Inr \<lparr>di_DeviceID = ''i1'', di_Email = ''bea@x'', di_Role = role\<rparr>"
proof -
  obtain dev r' where r': "EnrollDevice sample_access newcomer ''h3'' 0 office = Inr (dev, r')" "v_ID dev = ''i1''"
    using office_enroll by blast
  show ?thesis using enrolled_token_authenticates[OF r'(1) office_ok, of sample_access] r'
    by (auto simp: sample_access_def IsZero_def newcomer_def laptop_def)
qed

text \<open>
  C22. An enrolment is confined to its own person: every device of anybody else and every token of
  such a device is as it was, whatever id the enrolling machine claims; the device it is given is
  its person's, and is the claimed one only when that was live and already theirs.
\<close>
theorem EnrollDevice_confined:
  assumes "EnrollDevice e d hash until r = Inr (dev, r')" "registry_ok r"
  shows "filter (\<lambda>x. v_Email x \<noteq> v_Email d) (r_devices r') = filter (\<lambda>x. v_Email x \<noteq> v_Email d) (r_devices r) \<and>
    (\<forall>k\<in>set (r_tokens r). (\<exists>x\<in>set (r_devices r). v_ID x = tk_Device k \<and> v_Email x \<noteq> v_Email d) \<longrightarrow>
       k \<in> set (r_tokens r')) \<and>
    (\<exists>x\<in>set (r_devices r'). v_ID x = v_ID dev \<and> v_Email x = v_Email d \<and> v_RevokedAt x = None) \<and>
    (v_ID dev = ae_id e \<or> (\<exists>x\<in>set (r_devices r). v_ID x = v_ID dev \<and> v_Email x = v_Email d \<and> v_RevokedAt x = None))"
proof -
  let ?other = "\<lambda>x. v_Email x \<noteq> v_Email d"
  obtain r1 i ds where r1: "r1 = r \<or> supersedeHost e (v_Email d) (v_Hostname d) r = Inr ((), r1)"
    and place: "i = ae_id e \<or> (\<exists>x\<in>set (r_devices r). live_claim i (v_Email d) x)"
    and ins: "insert_device e i d r1 = Some (v_EnrolledAt dev, ds)" and dev: "v_ID dev = i"
    and r'_eq: "r' = r1\<lparr>r_devices := ds, r_tokens := r_tokens r1 @
      [\<lparr>tk_ID = ae_token_id e, tk_Device = i, tk_Hash = hash, tk_Expires = nullTime until, tk_Revoked = None,
        tk_LastUsed = None\<rparr>]\<rparr>"
    using EnrollDevice_Inr[OF assms(1)] by blast
  have r': "r_devices r' = ds" "set (r_tokens r1) \<subseteq> set (r_tokens r')" by (auto simp: r'_eq)
  have keys: "distinct (map v_ID (r_devices r))" using assms(2) by (simp add: registry_ok_def device_keys_def)
  have same: "filter ?other (retire t (\<lambda>x. v_Email x = v_Email d \<and> v_Hostname x = h) xs) = filter ?other xs" for t h xs
    by (induction xs) (auto simp: retire_def)
  have ids: "map v_ID (r_devices r1) = map v_ID (r_devices r)" and others: "filter ?other (r_devices r1) = filter ?other (r_devices r)"
    using r1 same by (auto simp: supersedeHost_def Let_def)
  have "filter ?other ds = filter ?other (r_devices r1)"
    using insert_device_Some(2)[OF ins]
  proof (elim disjE exE bexE conjE)
    fix x assume x: "x \<in> set (r_devices r1)" "v_ID x = i" "v_Email x = v_Email d"
      and ds: "ds = map (\<lambda>x. if v_ID x = i then host_update d x else x) (r_devices r1)"
    have only: "v_Email y = v_Email d" if "y \<in> set (r_devices r1)" "v_ID y = i" for y
      using distinct_map_eq[of v_ID "r_devices r1" y x] keys x that by (simp add: ids)
    have "filter ?other (map (\<lambda>x. if v_ID x = i then host_update d x else x) ys) = filter ?other ys"
      if "set ys \<subseteq> set (r_devices r1)" for ys
      using that by (induction ys) (auto simp: only)
    then show ?thesis by (simp add: ds)
  qed auto
  moreover have "k \<in> set (r_tokens r1)"
    if k: "k \<in> set (r_tokens r)" and x: "x \<in> set (r_devices r)" "v_ID x = tk_Device k" "v_Email x \<noteq> v_Email d" for k x
  proof -
    have "tk_Device k \<noteq> v_ID y" if "y \<in> set (r_devices r)" "v_Email y = v_Email d" for y
      using distinct_map_eq[OF keys that(1) x(1)] x(2,3) that(2) by auto
    then have "tk_Device k \<notin> set (map v_ID (filter (\<lambda>d'. (v_Email d' = v_Email d \<and> v_Hostname d' = v_Hostname d) \<and>
        v_RevokedAt d' = None) (r_devices r)))"
      by auto
    then show ?thesis using r1 k retire_tokens_keeps by (auto simp: supersedeHost_def Let_def)
  qed
  ultimately show ?thesis
    using others r' insert_device_kept[OF ins] place by (auto simp: dev live_claim_def)
qed

theorem EnrollDevice_confined_witness:
  "\<exists>dev r'. EnrollDevice sample_access newcomer ''h3'' 0 office = Inr (dev, r') \<and>
     filter (\<lambda>x. v_Email x \<noteq> v_Email newcomer) (r_devices r') = filter (\<lambda>x. v_Email x \<noteq> v_Email newcomer) (r_devices office)"
  using office_enroll EnrollDevice_confined[OF _ office_ok] by blast

section \<open>Grants\<close>

text \<open>
  A grant opens exactly one session, to its grantee and no one else, until it expires: after
  the owner or an administrator has shared a session, a viewer may read a row exactly when they
  could before or the row is that session and the grant names them. A grant without a grantee
  names everyone, link or no link.
\<close>
theorem CreateShare_opens:
  assumes "CreateShare e v q r = Inr (sh, r')"
  shows "(\<exists>s\<in>set (t_sessions (r_work r)). sr_id s = sq_SessionID q \<and> (sr_email s = Email v \<or> IsAdmin v)) \<and>
    (canRead t w (r_shares r') s \<longleftrightarrow> canRead t w (r_shares r) s \<or>
       (sr_id s = sq_SessionID q \<and> unexpired t (nullTime (sq_ExpiresAt q)) \<and>
        (sq_Grantee q = [] \<or> sq_Grantee q = Email w)))"
proof -
  note sh = CreateShare_Inr[OF assms]
  have row: "sh_SessionID sh = sq_SessionID q" "sh_Grantee sh = sq_Grantee q" "sh_ExpiresAt sh = nullTime (sq_ExpiresAt q)"
      "sh_RevokedAt sh = None"
    using sh by auto
  have "\<exists>s\<in>set (t_sessions (r_work r)). sr_id s = sq_SessionID q \<and> (sr_email s = Email v \<or> IsAdmin v)"
    using sh by blast
  then show ?thesis
    by (auto simp: canRead_def live_share_def CreateShare_frame(1)[OF assms] row)
qed

theorem CreateShare_opens_witness:
  "\<exists>sh r'. CreateShare sample_access bea \<lparr>sq_SessionID = ''s1'', sq_Grantee = ''dee@x'', sq_ExpiresAt = 0\<rparr> office = Inr (sh, r') \<and>
     canRead 100 \<lparr>Email = ''dee@x'', vRole = RoleMember\<rparr> (r_shares r') (sample_session ''s1'' ''bea@x'')"
proof -
  obtain sh r' where r': "CreateShare sample_access bea \<lparr>sq_SessionID = ''s1'', sq_Grantee = ''dee@x'', sq_ExpiresAt = 0\<rparr>
      office = Inr (sh, r')"
    by (simp add: CreateShare_def attempt_def share_fits_def recordAccess_def viaFor_def AccessViaOwn_def office_defs
        sample_session_def Let_def)
  show ?thesis
    using CreateShare_opens[OF r', of 100 "\<lparr>Email = ''dee@x'', vRole = RoleMember\<rparr>" "sample_session ''s1'' ''bea@x''"] r'
    by (auto simp: sample_session_def unexpired_def nullTime_def IsZero_def)
qed

text \<open>
  Revoking a grant withdraws exactly it: afterwards every viewer may read what they could have
  read had it never been made, and its link resolves for nobody.
\<close>
theorem RevokeShare_closes:
  assumes "RevokeShare e v shareID r = Inr (u, r')" "registry_ok r"
  shows "\<exists>sh\<in>set (r_shares r). ae_uuid e shareID = Some (sh_ID sh) \<and> may_revoke v (t_sessions (r_work r)) sh \<and>
    (\<forall>t w s. canRead t w (r_shares r') s \<longleftrightarrow> canRead t w (remove1 sh (r_shares r)) s) \<and>
    (\<forall>e' w x. ResolveShare e' w (sh_Token sh) r' \<noteq> Inr x)"
proof -
  obtain sh where sh: "sh \<in> set (r_shares r)" "ae_uuid e shareID = Some (sh_ID sh)"
      "sh_RevokedAt sh = None" "may_revoke v (t_sessions (r_work r)) sh"
    and r': "r' = r\<lparr>r_shares := map (\<lambda>x. if sh_ID x = sh_ID sh \<and> sh_RevokedAt x = None \<and>
      may_revoke v (t_sessions (r_work r)) x then x\<lparr>sh_RevokedAt := Some (ae_now e)\<rparr> else x) (r_shares r)\<rparr>"
    using RevokeShare_Inr[OF assms(1)] by auto
  have keys: "distinct (map sh_ID (r_shares r))" "distinct (map sh_Token (r_shares r))"
    using assms(2) by (auto simp: registry_ok_def share_keys_def)
  have one: "x = sh" if "x \<in> set (r_shares r)" "sh_ID x = sh_ID sh \<or> sh_Token x = sh_Token sh" for x
    using that distinct_map_eq[OF keys(1) that(1) sh(1)] distinct_map_eq[OF keys(2) that(1) sh(1)] by blast
  have rows: "x \<in> set (r_shares r') \<longleftrightarrow> x = sh\<lparr>sh_RevokedAt := Some (ae_now e)\<rparr> \<or> (x \<in> set (r_shares r) \<and> x \<noteq> sh)" for x
  proof -
    have "(if sh_ID y = sh_ID sh \<and> sh_RevokedAt y = None \<and> may_revoke v (t_sessions (r_work r)) y
        then y\<lparr>sh_RevokedAt := Some (ae_now e)\<rparr> else y) = (if y = sh then sh\<lparr>sh_RevokedAt := Some (ae_now e)\<rparr> else y)"
      if "y \<in> set (r_shares r)" for y
      using sh(3,4) one[OF that] by auto
    then have "r_shares r' = map (\<lambda>y. if y = sh then sh\<lparr>sh_RevokedAt := Some (ae_now e)\<rparr> else y) (r_shares r)"
      unfolding r' by simp
    then show ?thesis using sh(1) by auto
  qed
  have gone: "set (remove1 sh (r_shares r)) = set (r_shares r) - {sh}"
    using keys(1) by (simp add: distinct_map set_remove1_eq)
  have "list_ex Q (r_shares r') \<longleftrightarrow> list_ex Q (remove1 sh (r_shares r))" if "\<not> Q (sh\<lparr>sh_RevokedAt := Some (ae_now e)\<rparr>)" for Q
    using that unfolding list_ex_iff Bex_def rows gone by blast
  then have "canRead t w (r_shares r') s \<longleftrightarrow> canRead t w (remove1 sh (r_shares r)) s" for t w s
    by (simp add: canRead_def live_share_def)
  moreover have "ResolveShare e' w (sh_Token sh) r' \<noteq> Inr x" for e' w x
  proof -
    have "find (\<lambda>y. sh_Token y = sh_Token sh \<and> live_share (ae_now e') (Email w) y) (r_shares r') = None"
      using one by (auto simp: find_None_iff rows live_share_def)
    then show ?thesis by (auto simp: ResolveShare_def attempt_def)
  qed
  ultimately show ?thesis using sh by blast
qed

theorem RevokeShare_closes_witness:
  "\<exists>r'. RevokeShare sample_access ada ''g1'' office = Inr ((), r') \<and>
     (\<forall>e' w x. ResolveShare e' w ''z0'' r' \<noteq> Inr x)"
proof -
  obtain r' where r': "RevokeShare sample_access ada ''g1'' office = Inr ((), r')"
    by (simp add: RevokeShare_def attempt_def may_revoke_def IsAdmin_def office_defs sample_session_def)
  show ?thesis using RevokeShare_closes[OF r' office_ok] r' by (auto simp: office_defs)
qed

section \<open>Two edges\<close>

text \<open>
  An edit from the page that only clears a display name leaves the row as it was and still writes a
  trail row, one that changes nothing: \<open>COALESCE\<close> keeps the old name.
\<close>

lemma PutPrincipal_cannot_clear_name:
  "\<exists>p c r'. PutPrincipal sample_access ada
      \<lparr>u_Email = ''bea@x'', u_Role = None, u_DisplayName = Some [], u_Disabled = None\<rparr> office = Inr ((p, Some c), r') \<and>
    r_principals r' = r_principals office \<and> p_DisplayName p = ''Bea'' \<and> r_changes r' \<noteq> r_changes office \<and>
    c_FromRole c = c_ToRole c \<and> c_FromDisabled c = c_ToDisabled c"
  by (simp add: PutPrincipal_def attempt_def IsAdmin_def put_role_def put_disabled_def put_name_def Valid_def unchanged_def
      find_principal_def RecordPrincipalChange_def put_change_def put_row_def put_disabled_at_def write_principal_def
      Disabled_def office_defs RoleAdmin_def RoleMember_def ActiveAdmin_simp Let_def)

text \<open>The list of a session's grants holds the withdrawn and the lapsed ones too.\<close>

lemma ListShares_lists_revoked:
  assumes "ae_ok e QList" "sr_email s = Email v" "s \<in> set (t_sessions (r_work r))" "sh \<in> set (r_shares r)"
    "sh_SessionID sh = sr_id s"
  shows "\<exists>out. ListShares e v (sr_id s) r = Inr out \<and> sh \<in> set out"
  using assms by (auto simp: ListShares_def list_ex_iff)

end
