(* ===== verification/Resume.thy ===== *)
theory Resume
  imports ReadClaims
begin

text \<open>
  The resume bundle (\<open>server/api/resume.go\<close>): the harness's own records taken from a page of a
  session's stored events within a byte budget, and the request that serves one page of them and
  says where the next one starts. Reading the \<open>raw\<close> field of a body and compacting it are
  \<open>encoding/json\<close>'s and enter as two functions; the wording of the manifest is left out.
\<close>

section \<open>The scan\<close>

record json_raw =
  jr_raw :: "string \<Rightarrow> string option"
  jr_compact :: "string \<Rightarrow> string option"

definition originalRecord :: "json_raw \<Rightarrow> string \<Rightarrow> string" where
  "originalRecord j body =
     (if body = [] then []
      else case jr_raw j body of
             None \<Rightarrow> []
           | Some field \<Rightarrow>
               (let raw = TrimSpace field in
                if raw = [] \<or> raw = ''null'' then []
                else case jr_compact j raw of None \<Rightarrow> [] | Some buf \<Rightarrow> buf))"

record transcriptScan =
  ts_lines :: "string list"
  ts_bytes :: int
  ts_consumed :: nat
  ts_noRecord :: nat
  ts_subagent :: nat
  ts_lastSeq :: "int option"
  ts_truncatedBy :: string

definition no_scan :: transcriptScan where
  "no_scan = \<lparr>ts_lines = [], ts_bytes = 0, ts_consumed = 0, ts_noRecord = 0, ts_subagent = 0,
     ts_lastSeq = None, ts_truncatedBy = []\<rparr>"

definition consume :: "int \<Rightarrow> transcriptScan \<Rightarrow> transcriptScan" where
  "consume n s = s\<lparr>ts_lastSeq := Some n, ts_consumed := ts_consumed s + 1\<rparr>"

fun scanLoop :: "json_raw \<Rightarrow> int \<Rightarrow> event_row list \<Rightarrow> transcriptScan \<Rightarrow> transcriptScan" where
  "scanLoop j maxBytes [] s = s"
| "scanLoop j maxBytes (e # es) s =
     (if er_agent e \<noteq> [] then scanLoop j maxBytes es (consume (er_seq e) (s\<lparr>ts_subagent := ts_subagent s + 1\<rparr>))
      else let raw = originalRecord j (er_body e) in
        if raw = [] then scanLoop j maxBytes es (consume (er_seq e) (s\<lparr>ts_noRecord := ts_noRecord s + 1\<rparr>))
        else if ts_lines s \<noteq> [] \<and> ts_bytes s + int (length raw) > maxBytes then s\<lparr>ts_truncatedBy := ''bytes''\<rparr>
        else scanLoop j maxBytes es
          (consume (er_seq e) (s\<lparr>ts_lines := ts_lines s @ [raw], ts_bytes := ts_bytes s + int (length raw)\<rparr>)))"

definition scanTranscript :: "json_raw \<Rightarrow> event_row list \<Rightarrow> int \<Rightarrow> transcriptScan" where
  "scanTranscript j events maxBytes = scanLoop j maxBytes events no_scan"

section \<open>One page of a bundle\<close>

record ResumeTranscript =
  rt_Lines :: "string list"
  rt_Events :: nat
  rt_OmittedNoOriginalRecord :: nat
  rt_OmittedSubagent :: nat
  rt_Complete :: bool
  rt_TruncatedBy :: string
  rt_NextAfter :: "int option"
  rt_Fork :: string

text \<open>What the handler makes of a scan of the page: where the next page starts, if there is one.\<close>

definition transcript_of :: "transcriptScan \<Rightarrow> EventPage \<Rightarrow> string \<Rightarrow> ResumeTranscript" where
  "transcript_of scan page fork =
     (let more = (ts_truncatedBy scan \<noteq> [] \<or> pg_HasMore page);
          after = (if ts_truncatedBy scan = [] \<and> pg_NextAfter page \<noteq> None then pg_NextAfter page else ts_lastSeq scan);
          t = \<lparr>rt_Lines = ts_lines scan, rt_Events = ts_consumed scan, rt_OmittedNoOriginalRecord = ts_noRecord scan,
               rt_OmittedSubagent = ts_subagent scan, rt_Complete = \<not> more, rt_TruncatedBy = ts_truncatedBy scan,
               rt_NextAfter = None, rt_Fork = fork\<rparr>
      in if \<not> more then t
         else if after \<noteq> None then t\<lparr>rt_NextAfter := after\<rparr>
         else t\<lparr>rt_Complete := True, rt_TruncatedBy := []\<rparr>)"

text \<open>
  The handler behind its viewer and its cursor: the two audited reads, then the page. \<open>maxN\<close> and
  \<open>maxB\<close> are its bounds, \<open>fork0\<close> the cursor's fork and \<open>fresh\<close> the id drawn when it has none.
\<close>

definition handleResume :: "json_raw \<Rightarrow> access_env \<Rightarrow> Viewer \<Rightarrow> string \<Rightarrow> int \<Rightarrow> int \<Rightarrow> int option \<Rightarrow> string \<Rightarrow> string
    \<Rightarrow> registry \<Rightarrow> (session_row \<times> ResumeTranscript) answer" where
  "handleResume j e v path maxN maxB after fork0 fresh r =
     (let i = TrimSpace path in
      if i = [] then Inl ErrNotFound
      else case GetSession e v i r of
             Inl bad \<Rightarrow> Inl bad
           | Inr (sess, r1) \<Rightarrow>
               (case GetEvents e v i \<lparr>rg_AfterSeq = after, rg_Limit = maxN, rg_IncludeSuperseded = True\<rparr> r1 of
                  Inl bad \<Rightarrow> Inl bad
                | Inr (page, r2) \<Rightarrow>
                    Inr ((sess, transcript_of (scanTranscript j (pg_Events page) maxB) page
                            (if fork0 = [] then fresh else fork0)), r2)))"

text \<open>The caller who appends page after page until one is complete, as the manifest asks.\<close>

fun resume_pages :: "nat \<Rightarrow> json_raw \<Rightarrow> access_env \<Rightarrow> Viewer \<Rightarrow> string \<Rightarrow> int \<Rightarrow> int \<Rightarrow> int option \<Rightarrow> string \<Rightarrow> string
    \<Rightarrow> registry \<Rightarrow> (string list \<times> nat) answer" where
  "resume_pages 0 j e v path maxN maxB after fork0 fresh r = Inr (([], 0), r)"
| "resume_pages (Suc fuel) j e v path maxN maxB after fork0 fresh r =
     (case handleResume j e v path maxN maxB after fork0 fresh r of
        Inl bad \<Rightarrow> Inl bad
      | Inr ((_, t), r') \<Rightarrow>
          (if rt_Complete t then Inr ((rt_Lines t, rt_Events t), r')
           else case resume_pages fuel j e v path maxN maxB (rt_NextAfter t) (rt_Fork t) fresh r' of
                  Inl bad \<Rightarrow> Inl bad
                | Inr ((ls, n), r'') \<Rightarrow> Inr ((rt_Lines t @ ls, rt_Events t + n), r'')))"

section \<open>What a scan takes\<close>

definition replayable :: "json_raw \<Rightarrow> event_row \<Rightarrow> bool" where
  "replayable j x \<longleftrightarrow> er_agent x = [] \<and> originalRecord j (er_body x) \<noteq> []"

definition lines_of :: "json_raw \<Rightarrow> event_row list \<Rightarrow> string list" where
  "lines_of j xs = map (\<lambda>x. originalRecord j (er_body x)) (filter (replayable j) xs)"

text \<open>It takes a prefix of the page: all of it, or up to a record that does not fit any more.\<close>

definition scanned :: "json_raw \<Rightarrow> event_row list \<Rightarrow> nat \<Rightarrow> transcriptScan \<Rightarrow> transcriptScan \<Rightarrow> bool" where
  "scanned j es k s s' \<longleftrightarrow>
     k \<le> length es \<and> ts_lines s' = ts_lines s @ lines_of j (take k es) \<and> ts_consumed s' = ts_consumed s + k \<and>
     ts_lastSeq s' = (if k = 0 then ts_lastSeq s else Some (er_seq (es ! (k - 1)))) \<and>
     (ts_truncatedBy s' = [] \<longleftrightarrow> k = length es)"

lemma scanned_Cons:
  assumes "scanned j es k (consume (er_seq e) s1) s'" "ts_lines s1 = ts_lines s @ lines_of j [e]"
    and "ts_consumed s1 = ts_consumed s"
  shows "scanned j (e # es) (Suc k) s s'"
  using assms by (auto simp: scanned_def consume_def lines_of_def nth_Cons')

lemma scanLoop_prefix:
  "ts_truncatedBy s = [] \<Longrightarrow> \<exists>k. scanned j es k s (scanLoop j mx es s) \<and> (ts_lines s = [] \<and> es \<noteq> [] \<longrightarrow> 0 < k)"
proof (induction es arbitrary: s)
  case (Cons e es)
  let ?raw = "originalRecord j (er_body e)"
  show ?case
  proof (cases "replayable j e \<and> ts_lines s \<noteq> [] \<and> ts_bytes s + int (length ?raw) > mx")
    case True
    then show ?thesis by (intro exI[of _ 0]) (auto simp: replayable_def lines_of_def Let_def scanned_def)
  next
    case False
    define s1 where "s1 = (if er_agent e \<noteq> [] then s\<lparr>ts_subagent := ts_subagent s + 1\<rparr>
      else if ?raw = [] then s\<lparr>ts_noRecord := ts_noRecord s + 1\<rparr>
      else s\<lparr>ts_lines := ts_lines s @ [?raw], ts_bytes := ts_bytes s + int (length ?raw)\<rparr>)"
    have step: "scanLoop j mx (e # es) s = scanLoop j mx es (consume (er_seq e) s1)"
      using False by (auto simp: s1_def replayable_def Let_def)
    have s1: "ts_truncatedBy (consume (er_seq e) s1) = []" "ts_lines s1 = ts_lines s @ lines_of j [e]"
        "ts_consumed s1 = ts_consumed s"
      using Cons.prems by (auto simp: s1_def lines_of_def replayable_def consume_def)
    obtain k where "scanned j es k (consume (er_seq e) s1) (scanLoop j mx es (consume (er_seq e) s1))"
      using Cons.IH[OF s1(1)] by blast
    then have "scanned j (e # es) (Suc k) s (scanLoop j mx (e # es) s)"
      unfolding step using s1(2,3) by (rule scanned_Cons)
    then show ?thesis by blast
  qed
qed (simp add: scanned_def lines_of_def)

lemma scanTranscript_prefix:
  obtains k where "scanned j es k no_scan (scanTranscript j es mx)" "es \<noteq> [] \<Longrightarrow> 0 < k"
  using scanLoop_prefix[of no_scan j es mx] by (auto simp: scanTranscript_def no_scan_def)

lemma replayable_fun: "replayable j = (\<lambda>x. er_agent x = [] \<and> originalRecord j (er_body x) \<noteq> [])"
  by (simp add: fun_eq_iff replayable_def)

section \<open>Following the bundle\<close>

lemma lines_of_append: "lines_of j (xs @ ys) = lines_of j xs @ lines_of j ys"
  by (simp add: lines_of_def)

text \<open>A page that is not complete took at least one event, and the next starts after the last it took.\<close>

lemma transcript_page:
  assumes "page = (if length rows > n
      then \<lparr>pg_Events = take n rows, pg_HasMore = True, pg_NextAfter = Some (er_seq (rows ! (n - 1)))\<rparr>
      else \<lparr>pg_Events = rows, pg_HasMore = False, pg_NextAfter = None\<rparr>)" and "0 < n"
    and t_def: "t = transcript_of (scanTranscript j (pg_Events page) mx) page fork"
  shows "\<exists>k\<le>length rows. rt_Lines t = lines_of j (take k rows) \<and> rt_Events t = k \<and> rt_Fork t = fork \<and>
    (if rt_Complete t then k = length rows else 0 < k \<and> rt_NextAfter t = Some (er_seq (rows ! (k - 1))))"
proof -
  obtain k where k: "scanned j (pg_Events page) k no_scan (scanTranscript j (pg_Events page) mx)"
    and pos: "pg_Events page \<noteq> [] \<Longrightarrow> 0 < k" using scanTranscript_prefix by blast
  note sc = k[unfolded scanned_def no_scan_def, simplified]
  show ?thesis
  proof (cases "length rows > n")
    case True
    then have page: "page = \<lparr>pg_Events = take n rows, pg_HasMore = True, pg_NextAfter = Some (er_seq (rows ! (n - 1)))\<rparr>"
      using assms(1) by simp
    have "pg_Events page \<noteq> []" using True assms(2) by (auto simp: page)
    then have "0 < k" using pos by blast
    moreover have "k \<le> n" using sc True by (simp add: page)
    ultimately show ?thesis using sc True assms(2)
      by (intro exI[of _ k]) (auto simp: t_def transcript_of_def Let_def page min_def)
  next
    case False
    then have page: "page = \<lparr>pg_Events = rows, pg_HasMore = False, pg_NextAfter = None\<rparr>" using assms(1) by simp
    show ?thesis using sc pos
      by (intro exI[of _ k]) (auto simp: t_def transcript_of_def Let_def page)
  qed
qed

lemma handleResume_page:
  assumes "\<forall>q. ae_ok e q" "authorizeSession e v (TrimSpace path) r = Inr s" "TrimSpace path \<noteq> []"
    and "fork = (if fork0 = [] then fresh else fork0)"
    and "rows = by_seq.past after (session_events (TrimSpace path) True r)"
  shows "\<exists>t r'. handleResume j e v path maxN maxB after fork0 fresh r = Inr ((s, t), r') \<and>
    authorizeSession e v (TrimSpace path) r' = Inr s \<and>
    session_events (TrimSpace path) True r' = session_events (TrimSpace path) True r \<and>
    (\<exists>k\<le>length rows. rt_Lines t = lines_of j (take k rows) \<and> rt_Events t = k \<and> rt_Fork t = fork \<and>
      (if rt_Complete t then k = length rows else 0 < k \<and> rt_NextAfter t = Some (er_seq (rows ! (k - 1)))))"
proof -
  define n where "n = nat (clampLimit maxN)"
  have n: "0 < n" using clampLimit_bounds[of maxN] by (simp add: n_def)
  define r1 where "r1 = after_read e v s r"
  have auth1: "authorizeSession e v (TrimSpace path) r1 = Inr s" using assms(2) by (simp add: r1_def frame)
  have first: "GetSession e v (TrimSpace path) r = Inr (s, r1)"
    using assms(1,2) by (simp add: GetSession_def audited_def attempt_def recordAccess_read r1_def) (simp add: after_read_def)
  have rows: "by_seq.past after (session_events (TrimSpace path) True r1) = rows"
    by (simp add: assms(5) r1_def frame)
  define page where "page = (if length rows > n
      then \<lparr>pg_Events = take n rows, pg_HasMore = True, pg_NextAfter = Some (er_seq (rows ! (n - 1)))\<rparr>
      else \<lparr>pg_Events = rows, pg_HasMore = False, pg_NextAfter = None\<rparr>)"
  have "GetEvents e v (TrimSpace path) \<lparr>rg_AfterSeq = after, rg_Limit = maxN, rg_IncludeSuperseded = True\<rparr> r1 =
      Inr (page, after_read e v s r1)"
    using GetEvents_page[OF assms(1) auth1, of "\<lparr>rg_AfterSeq = after, rg_Limit = maxN, rg_IncludeSuperseded = True\<rparr>"]
    by (simp add: Let_def n_def[symmetric] rows page_def)
  then have "handleResume j e v path maxN maxB after fork0 fresh r =
      Inr ((s, transcript_of (scanTranscript j (pg_Events page) maxB) page fork), after_read e v s r1)"
    using assms(3,4) first by (simp add: handleResume_def Let_def)
  moreover have "authorizeSession e v (TrimSpace path) (after_read e v s r1) = Inr s" using auth1 by (simp add: frame)
  moreover have "session_events (TrimSpace path) True (after_read e v s r1) = session_events (TrimSpace path) True r"
    by (simp add: r1_def frame)
  ultimately show ?thesis using transcript_page[OF page_def n refl] by blast
qed


definition plain_raw :: json_raw where "plain_raw = \<lparr>jr_raw = Some, jr_compact = Some\<rparr>"


end
