(* ===== verification/FoldRows.thy ===== *)
theory FoldRows
  imports Fold
begin

text \<open>
  The fold keeps every row: pairing prompts into groups, sweeping groups and rows into turns
  and finishing the turns neither loses nor repeats one. The sweep's invariant (\<open>sweep_ok\<close>)
  says its positions point into the heap, and its content is the rows it has been given.
\<close>

section \<open>Multisets of rows\<close>

lemma sum_list_update:
  fixes xs :: "'a multiset list"
  shows "i < length xs \<Longrightarrow> sum_list (xs[i := x]) + xs ! i = sum_list xs + x"
proof (induction xs arbitrary: i)
  case Nil
  then show ?case by simp
next
  case (Cons y ys)
  show ?case
  proof (cases i)
    case 0
    then show ?thesis by simp
  next
    case (Suc j)
    then have "sum_list (ys[j := x]) + ys ! j = sum_list ys + x" using Cons by simp
    then show ?thesis using Suc by (simp add: add.assoc)
  qed
qed

lemma sum_list_mset_concat: "sum_list (map (\<lambda>x. mset (f x)) xs) = mset (concat (map f xs))"
  by (induction xs) auto

section \<open>Pairing loses no prompt\<close>

lemma closest_mem: "closest ok h ts best = Some x \<Longrightarrow> (x \<in> set ts \<and> ok x) \<or> (\<exists>g. best = Some (x, g))"
proof (induction ok h ts best rule: closest.induct)
  case (1 ok h best)
  then show ?case by auto
next
  case (2 ok h t ts best)
  then show ?case by (fastforce simp: Let_def split: if_splits option.splits)
qed

definition twins :: "(nat \<rightharpoonup> Row) \<Rightarrow> Row \<Rightarrow> Row list" where
  "twins m t = t # (case m (addr t) of None \<Rightarrow> [] | Some h \<Rightarrow> [h])"

definition pair_content :: "Row list \<Rightarrow> Row list \<Rightarrow> pairing \<Rightarrow> Row multiset" where
  "pair_content ts hs p =
     sum_list (map (\<lambda>t. mset (twins (twin p) t)) ts) + mset (filter (\<lambda>h. addr h \<notin> taken p) hs)"

lemma addr_neq: "addr b \<notin> addr ` S \<longleftrightarrow> (\<forall>x\<in>S. addr x \<noteq> addr b)"
  by (metis imageE imageI)

lemma twins_upd:
  "distinct (map addr ts) \<Longrightarrow> b \<in> set ts \<Longrightarrow> m (addr b) = None \<Longrightarrow>
   sum_list (map (\<lambda>t. mset (twins (m(addr b \<mapsto> h)) t)) ts) = add_mset h (sum_list (map (\<lambda>t. mset (twins m t)) ts))"
proof (induction ts)
  case Nil
  then show ?case by simp
next
  case (Cons t ts)
  show ?case
  proof (cases "t = b")
    case True
    then have "\<forall>x\<in>set ts. addr x \<noteq> addr b" using Cons.prems(1) by (auto simp: addr_neq)
    then have e: "map (\<lambda>t. mset (twins (m(addr b \<mapsto> h)) t)) ts = map (\<lambda>t. mset (twins m t)) ts"
      by (intro map_cong) (auto simp: twins_def)
    show ?thesis unfolding list.map sum_list.Cons e using True Cons.prems(3) by (simp add: twins_def)
  next
    case False
    then have "addr t \<noteq> addr b" using Cons.prems by auto
    then show ?thesis using Cons False by (simp add: twins_def)
  qed
qed

lemma filter_taken:
  "distinct (map addr hs) \<Longrightarrow> h \<in> set hs \<Longrightarrow> addr h \<notin> S \<Longrightarrow>
   mset (filter (\<lambda>x. addr x \<notin> S) hs) = add_mset h (mset (filter (\<lambda>x. addr x \<noteq> addr h \<and> addr x \<notin> S) hs))"
proof (induction hs)
  case Nil
  then show ?case by simp
next
  case (Cons x hs)
  show ?case
  proof (cases "x = h")
    case True
    then have "\<forall>x\<in>set hs. addr x \<noteq> addr h" using Cons.prems(1) by (auto simp: addr_neq)
    then have "filter (\<lambda>x. addr x \<notin> S) hs = filter (\<lambda>x. addr x \<noteq> addr h \<and> addr x \<notin> S) hs"
      by (intro filter_cong) auto
    then show ?thesis using True Cons.prems by simp
  next
    case False
    then have "addr x \<noteq> addr h" using Cons.prems by auto
    then show ?thesis using Cons False by auto
  qed
qed

text \<open>What every pairing step keeps, for hooks and transcripts at distinct addresses.\<close>

definition pairing_ok :: "Row list \<Rightarrow> Row list \<Rightarrow> pairing \<Rightarrow> bool" where
  "pairing_ok ts hs p \<longleftrightarrow> dom (twin p) \<subseteq> taken p \<and> pair_content ts hs p = mset ts + mset hs"

lemma pair_one_ok:
  assumes d: "distinct (map addr (ts @ hs))" and p: "pairing_ok ts hs p"
    and h: "h \<in> set hs" "addr h \<notin> taken p"
  shows "pairing_ok ts hs (pair_one ts acc h p) \<and>
    taken (pair_one ts acc h p) \<inter> addr ` set hs \<subseteq> insert (addr h) (taken p)"
proof (cases "closest (\<lambda>t. addr t \<notin> taken p \<and> acc t) h ts None")
  case None
  with p show ?thesis by (auto simp: pair_one_def)
next
  case (Some b)
  then have b: "b \<in> set ts" "addr b \<notin> taken p" using closest_mem [OF Some] by auto
  with p have "twin p (addr b) = None" by (auto simp: pairing_ok_def dom_def)
  then have t: "sum_list (map (\<lambda>t. mset (twins ((twin p)(addr b \<mapsto> h)) t)) ts) =
      add_mset h (sum_list (map (\<lambda>t. mset (twins (twin p) t)) ts))"
    using d b(1) by (intro twins_upd) auto
  have nb: "addr b \<notin> addr ` set hs" using d b(1) by auto
  then have "filter (\<lambda>x. addr x \<notin> insert (addr h) (insert (addr b) (taken p))) hs =
      filter (\<lambda>x. addr x \<noteq> addr h \<and> addr x \<notin> taken p) hs"
    using nb unfolding addr_neq by (intro filter_cong) auto
  then have f: "mset (filter (\<lambda>x. addr x \<notin> taken p) hs) =
      add_mset h (mset (filter (\<lambda>x. addr x \<notin> insert (addr h) (insert (addr b) (taken p))) hs))"
    using filter_taken [of hs h "taken p"] d h by simp
  let ?q = "p\<lparr>twin := (twin p)(addr b \<mapsto> h), taken := insert (addr h) (insert (addr b) (taken p))\<rparr>"
  have "pair_content ts hs ?q = pair_content ts hs p"
    unfolding pair_content_def by (simp add: t f del: mset_filter)
  then show ?thesis using Some p nb unfolding addr_neq by (auto simp: pair_one_def pairing_ok_def)
qed

lemma pairByPid_ok:
  "distinct (map addr (ts @ hs)) \<Longrightarrow> pairing_ok ts hs p \<Longrightarrow> set xs \<subseteq> set hs \<Longrightarrow> distinct (map addr xs) \<Longrightarrow>
   \<forall>h\<in>set xs. addr h \<notin> taken p \<Longrightarrow> pairing_ok ts hs (pairByPid ts xs p)"
proof (induction xs arbitrary: p)
  case Nil
  then show ?case by simp
next
  case (Cons h xs)
  have "pairing_ok ts hs (pair_one ts acc h p) \<and>
    taken (pair_one ts acc h p) \<inter> addr ` set hs \<subseteq> insert (addr h) (taken p)" for acc
    using Cons.prems by (intro pair_one_ok) auto
  note o = this [of "accept_pid h"]
  have "\<forall>x\<in>set xs. addr x \<notin> taken (pair_one ts (accept_pid h) h p)"
  proof
    fix x assume x: "x \<in> set xs"
    moreover have "\<forall>y\<in>set xs. addr y \<noteq> addr h" using Cons.prems(4) by (auto simp: addr_neq)
    ultimately have "addr x \<noteq> addr h" "addr x \<notin> taken p" "addr x \<in> addr ` set hs" using Cons.prems(3,5) by auto
    with o show "addr x \<notin> taken (pair_one ts (accept_pid h) h p)" by auto
  qed
  then show ?case using Cons o by auto
qed

lemma pairByText_ok:
  "distinct (map addr (ts @ hs)) \<Longrightarrow> pairing_ok ts hs p \<Longrightarrow> set xs \<subseteq> set hs \<Longrightarrow>
   pairing_ok ts hs (pairByText ts xs p)"
proof (induction xs arbitrary: p)
  case Nil
  then show ?case by simp
next
  case (Cons h xs)
  show ?case
  proof (cases "addr h \<in> taken p \<or> TextHash h = []")
    case True
    with Cons show ?thesis by simp
  next
    case False
    then have "pairing_ok ts hs (pair_one ts (accept_text h) h p)"
      using pair_one_ok [of ts hs p h "accept_text h"] Cons.prems by auto
    with False Cons show ?thesis by simp
  qed
qed

lemma rows_group_row [simp]: "g_rows (group_row r g) = g_rows g" "canonical (group_row r g) = canonical g"
  by (simp_all add: group_row_def Let_def)

lemma rows_group_fold: "g_rows (fold group_row rs g) = g_rows g \<and> canonical (fold group_row rs g) = canonical g"
  by (induction rs arbitrary: g) auto

lemma rows_group_fill [simp]: "g_rows (group_fill g) = g_rows g" "canonical (group_fill g) = canonical g"
  by (simp_all add: group_fill_def rows_group_fold)

lemma rawGroups_rows:
  assumes "distinct (map addr prompts)"
  shows "mset (concat (map g_rows (rawGroups prompts))) = mset prompts"
proof -
  let ?hs = "filter (\<lambda>p. row_Origin p = OriginHook) prompts"
  let ?ts = "filter (\<lambda>p. row_Origin p \<noteq> OriginHook) prompts"
  define p where "p = pairByText ?ts ?hs (pairByPid ?ts ?hs \<lparr>twin = Map.empty, taken = {}\<rparr>)"
  have m: "mset ?ts + mset ?hs = mset prompts"
    by (metis add.commute multiset_partition mset_filter)
  have d: "distinct (map addr (?ts @ ?hs))"
  proof -
    have "inj_on addr (set prompts)" "distinct prompts" using assms by (auto simp: distinct_map)
    then show ?thesis by (auto simp: distinct_map inj_on_def)
  qed
  have i: "pairing_ok ?ts ?hs \<lparr>twin = Map.empty, taken = {}\<rparr>"
    by (simp add: pairing_ok_def pair_content_def twins_def sum_list_mset_concat [of "\<lambda>t. [t]", simplified])
  have "pairing_ok ?ts ?hs p" unfolding p_def
    using d i by (intro pairByText_ok pairByPid_ok) (auto simp: distinct_map inj_on_def)
  then have "pair_content ?ts ?hs p = mset prompts" by (simp add: pairing_ok_def m)
  moreover have "concat (map g_rows (rawGroups prompts)) =
      concat (map (twins (twin p)) ?ts) @ filter (\<lambda>h. addr h \<notin> taken p) ?hs"
    unfolding rawGroups_def Let_def p_def [symmetric]
    by (simp add: bare_group_def o_def) (simp add: twins_def [abs_def])
  ultimately show ?thesis
    by (simp add: pair_content_def sum_list_mset_concat)
qed

lemma pairPrompts_rows:
  assumes "distinct (map addr prompts)"
  shows "mset (concat (map g_rows (pairPrompts prompts))) = mset prompts"
proof -
  have "mset (concat (map g_rows (pairPrompts prompts))) = sum_mset (image_mset (\<lambda>g. mset (g_rows g)) (mset (pairPrompts prompts)))"
    by (simp add: mset_concat sum_mset_sum_list [symmetric] image_mset.compositionality o_def)
  also have "\<dots> = sum_mset (image_mset (\<lambda>g. mset (g_rows g)) (mset (map group_fill (rawGroups prompts))))"
    by (simp add: pairPrompts_def)
  also have "\<dots> = mset (concat (map g_rows (rawGroups prompts)))"
    by (simp add: mset_concat sum_mset_sum_list [symmetric] image_mset.compositionality o_def)
  finally show ?thesis using rawGroups_rows [OF assms] by simp
qed

section \<open>The sweep's invariant\<close>

definition same_groups :: "group list \<Rightarrow> group list \<Rightarrow> bool" where
  "same_groups gs gs' \<longleftrightarrow> map g_rows gs' = map g_rows gs"

lemma same_groups_nth: "same_groups gs gs' \<Longrightarrow> g_rows (gs' ! i) = g_rows (gs ! i) \<or> length gs \<le> i"
  by (metis same_groups_def length_map linorder_not_less nth_map)

definition sweep_ok :: "sweep \<Rightarrow> bool" where
  "sweep_ok st \<longleftrightarrow>
     (\<forall>pid i. pidIndex st pid = Some i \<longrightarrow> i < length (heap st)) \<and>
     distinct (turns st) \<and> set (turns st) = {..<length (heap st)} \<and>
     (\<forall>i. head st = Some i \<longrightarrow> i < length (heap st)) \<and>
     (\<forall>k gi. dupIndex st k = Some gi \<longrightarrow> gi < length (grps st) \<and>
        (\<exists>ti. owner (grps st ! gi) = Some ti \<and> ti < length (heap st))) \<and>
     (\<forall>t\<in>set (heap st). (\<forall>gi\<in>set (groups t). gi < length (grps st)) \<and> Events t = [] \<and> Origins t = [])"

text \<open>The rows the sweep has put somewhere.\<close>

definition content :: "sweep \<Rightarrow> Row multiset" where
  "content st = sum_list (map (\<lambda>t. mset (turn_rows (grps st) t)) (heap st)) + mset (pending st)"

definition item_rows :: "group list \<Rightarrow> item \<Rightarrow> Row multiset" where
  "item_rows gs it = (case it of GroupItem gi \<Rightarrow> mset (g_rows (gs ! gi)) | RowItem r \<Rightarrow> {#r#})"

definition item_valid :: "sweep \<Rightarrow> item \<Rightarrow> bool" where
  "item_valid st it \<longleftrightarrow> (case it of GroupItem gi \<Rightarrow> gi < length (grps st) | RowItem r \<Rightarrow> True)"

lemma attachedAt_simps [simp]:
  "groups (attachedAt a t) = groups t" "work (attachedAt a t) = work t" "Events (attachedAt a t) = Events t"
  "Origins (attachedAt a t) = Origins t" "Key (attachedAt a t) = Key t" "Thread (attachedAt a t) = Thread t" "StartedAt (attachedAt a t) = StartedAt t"
  "turn_rows gs (attachedAt a t) = turn_rows gs t"
  by (simp_all add: attachedAt_def turn_rows_def)

lemma add_work_simps [simp]:
  "groups (add_work r t) = groups t" "work (add_work r t) = work t @ [r]" "Events (add_work r t) = Events t"
  "Origins (add_work r t) = Origins t" "Key (add_work r t) = Key t" "Thread (add_work r t) = Thread t" "StartedAt (add_work r t) = StartedAt t"
  "turn_rows gs (add_work r t) = turn_rows gs t @ [r]"
  by (simp_all add: add_work_def turn_rows_def)

lemma fold_add_work [simp]:
  "groups (fold add_work rs t) = groups t" "work (fold add_work rs t) = work t @ rs"
  "Events (fold add_work rs t) = Events t" "Origins (fold add_work rs t) = Origins t" "Key (fold add_work rs t) = Key t"
  "Thread (fold add_work rs t) = Thread t"
  "turn_rows gs (fold add_work rs t) = turn_rows gs t @ rs"
  by (induction rs arbitrary: t) auto

lemma new_turn_simps [simp]:
  "groups (new_turn th k kd a) = []" "work (new_turn th k kd a) = []" "Events (new_turn th k kd a) = []"
  "Origins (new_turn th k kd a) = []" "Key (new_turn th k kd a) = k" "Thread (new_turn th k kd a) = th" "turn_rows gs (new_turn th k kd a) = []"
  by (simp_all add: new_turn_def turn_rows_def)

lemma upd_turn_fields [simp]:
  "grps (upd_turn i f st) = grps st" "turns (upd_turn i f st) = turns st" "pidIndex (upd_turn i f st) = pidIndex st"
  "keys (upd_turn i f st) = keys st" "head (upd_turn i f st) = head st" "pending (upd_turn i f st) = pending st"
  "dupIndex (upd_turn i f st) = dupIndex st" "length (heap (upd_turn i f st)) = length (heap st)"
  by (simp_all add: upd_turn_def)

lemma upd_turn_ok:
  assumes "sweep_ok st" "i < length (heap st)"
    and "groups (f (heap st ! i)) = groups (heap st ! i)" "Events (f (heap st ! i)) = Events (heap st ! i)"
    "Origins (f (heap st ! i)) = Origins (heap st ! i)"
  shows "sweep_ok (upd_turn i f st)"
proof -
  have "\<forall>t\<in>set (heap (upd_turn i f st)). (\<forall>gi\<in>set (groups t). gi < length (grps st)) \<and> Events t = [] \<and> Origins t = []"
  proof
    fix t assume "t \<in> set (heap (upd_turn i f st))"
    then have "t \<in> set (heap st) \<or> t = f (heap st ! i)"
      using set_update_subset_insert by (fastforce simp: upd_turn_def)
    moreover have "\<forall>gi\<in>set (groups (heap st ! i)). gi < length (grps st)"
      "Events (heap st ! i) = []" "Origins (heap st ! i) = []"
      using assms(1) nth_mem [OF assms(2)] unfolding sweep_ok_def by blast+
    ultimately show "(\<forall>gi\<in>set (groups t). gi < length (grps st)) \<and> Events t = [] \<and> Origins t = []"
      using assms by (auto simp: sweep_ok_def)
  qed
  with assms(1) show ?thesis by (simp add: sweep_ok_def)
qed

lemma upd_turn_content:
  assumes "i < length (heap st)"
    and "mset (turn_rows (grps st) (f (heap st ! i))) = mset (turn_rows (grps st) (heap st ! i)) + extra"
  shows "content (upd_turn i f st) = content st + extra"
proof -
  let ?g = "\<lambda>t. mset (turn_rows (grps st) t)"
  have "sum_list ((map ?g (heap st))[i := ?g (f (heap st ! i))]) + map ?g (heap st) ! i =
      sum_list (map ?g (heap st)) + ?g (f (heap st ! i))"
    using assms(1) by (intro sum_list_update) simp
  then have "sum_list (map ?g ((heap st)[i := f (heap st ! i)])) = sum_list (map ?g (heap st)) + extra"
    using assms by (simp add: map_update add.assoc [symmetric])
  then show ?thesis by (simp add: content_def upd_turn_def)
qed

lemma place_ok: "sweep_ok st \<Longrightarrow> i < length (heap st) \<Longrightarrow> sweep_ok (place i st)"
  using upd_turn_ok [of st i "fold add_work (pending st)"] by (simp add: place_def sweep_ok_def)

lemma place_content:
  assumes "i < length (heap st)"
  shows "content (place i st) = content st"
proof -
  have "content (upd_turn i (fold add_work (pending st)) st) = content st + mset (pending st)"
    using assms by (intro upd_turn_content) simp_all
  then show ?thesis by (simp add: place_def content_def)
qed

lemma place_fields [simp]:
  "grps (place i st) = grps st" "turns (place i st) = turns st" "pidIndex (place i st) = pidIndex st"
  "keys (place i st) = keys st" "head (place i st) = head st" "pending (place i st) = []"
  "dupIndex (place i st) = dupIndex st" "length (heap (place i st)) = length (heap st)"
  by (simp_all add: place_def)

text \<open>Allocating a turn.\<close>

lemma alloc_ok:
  assumes "sweep_ok st" "groups t = []" "Events t = []" "Origins t = []"
    and "ts = turns st @ [length (heap st)] \<or> ts = length (heap st) # turns st"
    and "h = head st \<or> h = Some (length (heap st))"
  shows "sweep_ok (st\<lparr>head := h, keys := kk, heap := heap st @ [t], turns := ts\<rparr>)"
  using assms by (auto simp: sweep_ok_def less_Suc_eq nth_append)
    (metis less_SucI | fastforce)+

lemma alloc_content:
  "turn_rows (grps st) t = [] \<Longrightarrow>
   content (st\<lparr>head := h, keys := kk, heap := heap st @ [t], turns := ts\<rparr>) = content st"
  by (simp add: content_def)

text \<open>What one step of the sweep keeps; \<open>extra\<close> is what it adds.\<close>

definition sweep_step :: "sweep \<Rightarrow> Row multiset \<Rightarrow> sweep \<Rightarrow> bool" where
  "sweep_step st extra st' \<longleftrightarrow> sweep_ok st' \<and> content st' = content st + extra \<and> same_groups (grps st) (grps st')"

lemma sweep_step_trans: "sweep_step st a st' \<Longrightarrow> sweep_step st' b st'' \<Longrightarrow> sweep_step st (a + b) st''"
  by (simp add: sweep_step_def same_groups_def add.assoc)

lemma open_turn_step:
  assumes "sweep_ok st" "open_turn thread gi st = (i, st')"
  shows "sweep_step st {#} st' \<and> i < length (heap st') \<and> grps st' = grps st"
proof -
  let ?g = "grps st ! gi"
  let ?t = "new_turn thread (key_name (groupKey ?g) (keys st (groupKey ?g))) (g_kind ?g) (g_at ?g)"
  let ?st1 = "st\<lparr>keys := (keys st)(groupKey ?g := keys st (groupKey ?g) + 1), heap := heap st @ [?t],
      turns := turns st @ [length (heap st)]\<rparr>"
  have st': "st' = place (length (heap st)) ?st1" "i = length (heap st)"
    using assms(2) by (auto simp: open_turn_def Let_def)
  have ok: "sweep_ok ?st1"
    using alloc_ok [OF assms(1), where t = ?t and ts = "turns st @ [length (heap st)]" and h = "head st"] by simp
  have "content ?st1 = content st" using alloc_content [where st = st and t = ?t and h = "head st"] by simp
  then show ?thesis using place_ok [OF ok] place_content [of "length (heap st)" ?st1]
    by (simp add: st' sweep_step_def same_groups_def)
qed

lemma openHead_step:
  assumes "sweep_ok st" "openHead thread at st = (i, st')"
  shows "sweep_step st {#} st' \<and> i < length (heap st') \<and> pending st' = pending st"
proof (cases "head st")
  case None
  let ?st1 = "st\<lparr>head := Some (length (heap st)), keys := (keys st)(HeadKey := keys st HeadKey + 1),
      heap := heap st @ [new_turn thread HeadKey KindNone at], turns := length (heap st) # turns st\<rparr>"
  have st': "st' = ?st1" "i = length (heap st)"
    using assms(2) None by (auto simp: openHead_def Let_def)
  have "sweep_ok ?st1" using assms(1) by (intro alloc_ok) simp_all
  moreover have "content ?st1 = content st" by (rule alloc_content) simp
  ultimately show ?thesis by (simp add: st' sweep_step_def same_groups_def)
next
  case (Some j)
  with assms show ?thesis by (auto simp: openHead_def sweep_step_def same_groups_def sweep_ok_def)
qed

lemma attachRow_step:
  assumes "sweep_ok st" "i < length (heap st)"
  shows "sweep_step st {#r#} (attachRow r i st)"
proof -
  let ?f = "\<lambda>t. let t' = add_work r t in if row_Type r = AssistantTurn \<and> HasText r then t'\<lparr>closed := True\<rparr> else t'"
  have s: "groups (?f t) = groups t" "Events (?f t) = Events t" "Origins (?f t) = Origins t"
    "turn_rows gs (?f t) = turn_rows gs t @ [r]" for t gs
    by (simp_all add: Let_def turn_rows_def)
  have "content (upd_turn i ?f st) = content st + {#r#}"
    using assms(2) by (intro upd_turn_content) (simp_all add: s)
  moreover have "sweep_ok (upd_turn i ?f st)" using assms by (intro upd_turn_ok) (simp_all add: s)
  ultimately show ?thesis by (simp add: attachRow_def sweep_step_def same_groups_def)
qed

lemma byPid_bound: "sweep_ok st \<Longrightarrow> byPid (pidIndex st) pids = Some i \<Longrightarrow> i < length (heap st)"
  by (induction pids) (auto simp: sweep_ok_def split: if_splits option.splits)

lemma last_turn_bound: "sweep_ok st \<Longrightarrow> last_turn st = Some i \<Longrightarrow> i < length (heap st)"
proof -
  assume ok: "sweep_ok st" and "last_turn st = Some i"
  then have "i \<in> set (turns st)" by (auto simp: last_turn_def split: if_splits)
  with ok show ?thesis by (simp add: sweep_ok_def)
qed

lemma lastClosed_bound: "sweep_ok st \<Longrightarrow> lastClosed st = Some i \<Longrightarrow> i < length (heap st)"
proof -
  assume ok: "sweep_ok st" and "lastClosed st = Some i"
  then have "i \<in> set (turns st)" by (auto simp: lastClosed_def find_Some_iff) (metis nth_mem set_rev length_rev)
  with ok show ?thesis by (simp add: sweep_ok_def)
qed

lemma sweepRow_step:
  assumes "sweep_ok st"
  shows "sweep_step st {#r#} (sweepRow thread r st)"
proof (cases "or_else (byPid (pidIndex st) [PromptID r]) (last_turn st)")
  case (Some i)
  then have "i < length (heap st)"
    using byPid_bound [OF assms, of "[PromptID r]"] last_turn_bound [OF assms]
    by (auto simp: or_else_def split: option.splits)
  with Some assms show ?thesis by (simp add: sweepRow_def attachRow_step)
next
  case None
  show ?thesis
  proof (cases "isMarker (row_Type r)")
    case True
    with None assms show ?thesis
      by (simp add: sweepRow_def sweep_step_def sweep_ok_def content_def same_groups_def)
  next
    case False
    obtain i st1 where o: "openHead thread (OccurredAt r) st = (i, st1)" by (meson surj_pair)
    note h = openHead_step [OF assms o]
    then have ok: "sweep_ok st1" "i < length (heap st1)" by (simp_all add: sweep_step_def)
    have p: "sweep_step st1 {#} (place i st1)"
      using place_ok [OF ok] place_content [OF ok(2)] by (simp add: sweep_step_def same_groups_def)
    have "sweep_step (place i st1) {#r#} (attachRow r i (place i st1))"
      using ok place_ok [OF ok] by (intro attachRow_step) simp_all
    with sweep_step_trans [OF sweep_step_trans [OF conjunct1 [OF h] p]] None False o show ?thesis
      by (fastforce simp: sweepRow_def)
  qed
qed

lemma adopt_turn_simps [simp]:
  "groups (adopt_turn g gi dup t) = groups t @ [gi]" "work (adopt_turn g gi dup t) = work t"
  "Events (adopt_turn g gi dup t) = Events t" "Origins (adopt_turn g gi dup t) = Origins t"
  "Key (adopt_turn g gi dup t) = Key t" "Thread (adopt_turn g gi dup t) = Thread t" "StartedAt (adopt_turn g gi dup t) = StartedAt t"
  by (simp_all add: adopt_turn_def Let_def)

lemma adopt_fields [simp]:
  "turns (adopt ti gi dup st) = turns st" "keys (adopt ti gi dup st) = keys st" "head (adopt ti gi dup st) = head st"
  "pending (adopt ti gi dup st) = pending st" "length (heap (adopt ti gi dup st)) = length (heap st)"
  "length (grps (adopt ti gi dup st)) = length (grps st)"
  by (simp_all add: adopt_def Let_def)

lemma adopt_rows: "g_rows (grps (adopt ti gi dup st) ! j) = g_rows (grps st ! j)"
  by (cases "gi < length (grps st)") (auto simp: adopt_def Let_def nth_list_update list_update_beyond)

lemma adopt_same_groups: "same_groups (grps st) (grps (adopt ti gi dup st))"
  unfolding same_groups_def by (rule nth_equalityI) (auto simp: adopt_rows)

lemma turn_rows_adopt [simp]: "turn_rows (grps (adopt ti gi dup st)) t = turn_rows (grps st) t"
  by (simp add: turn_rows_def adopt_rows)

lemma index_pids_bound:
  "index_pids ti pids m pid = Some i \<Longrightarrow> i = ti \<or> m pid = Some i"
  by (induction ti pids m rule: index_pids.induct) (auto split: if_splits)

lemma adopt_ok:
  assumes ok: "sweep_ok st" and b: "ti < length (heap st)" "gi < length (grps st)"
  shows "sweep_ok (adopt ti gi dup st)"
proof -
  let ?st = "adopt ti gi dup st"
  have p: "pidIndex ?st pid = Some i \<Longrightarrow> i < length (heap st)" for pid i
    using index_pids_bound [of ti "g_pids (grps st ! gi)" "pidIndex st" pid i] ok b
    by (auto simp: adopt_def Let_def sweep_ok_def)
  have d: "gj < length (grps st) \<and> (\<exists>tj. owner (grps ?st ! gj) = Some tj \<and> tj < length (heap st))"
    if "dupIndex ?st k = Some gj" for k gj
  proof -
    have "gj = gi \<or> dupIndex st k = Some gj" using that by (auto simp: adopt_def Let_def split: if_splits)
    with ok b show ?thesis by (auto simp: sweep_ok_def adopt_def Let_def nth_list_update)
  qed
  have h: "(\<forall>gj\<in>set (groups t). gj < length (grps st)) \<and> Events t = [] \<and> Origins t = []" if "t \<in> set (heap ?st)" for t
  proof -
    have "t \<in> set (heap st) \<or> t = adopt_turn (grps st ! gi) gi dup (heap st ! ti)"
      using that set_update_subset_insert by (fastforce simp: adopt_def Let_def)
    moreover have "\<forall>gj\<in>set (groups (heap st ! ti)). gj < length (grps st)"
      "Events (heap st ! ti) = []" "Origins (heap st ! ti) = []"
      using ok nth_mem [OF b(1)] unfolding sweep_ok_def by blast+
    ultimately show ?thesis using ok b by (auto simp: sweep_ok_def)
  qed
  show ?thesis unfolding sweep_ok_def using p d h ok by (auto simp: sweep_ok_def)
qed

lemma adopt_content:
  assumes "ti < length (heap st)"
  shows "content (adopt ti gi dup st) = content st + mset (g_rows (grps st ! gi))"
proof -
  have "content (adopt ti gi dup st) = content (upd_turn ti (adopt_turn (grps st ! gi) gi dup) st)"
    unfolding content_def turn_rows_adopt by (simp add: adopt_def upd_turn_def Let_def)
  also have "\<dots> = content st + mset (g_rows (grps st ! gi))"
    using assms by (intro upd_turn_content) (simp_all add: turn_rows_def)
  finally show ?thesis .
qed

lemma adopt_step:
  "sweep_ok st \<Longrightarrow> ti < length (heap st) \<Longrightarrow> gi < length (grps st) \<Longrightarrow>
   sweep_step st (mset (g_rows (grps st ! gi))) (adopt ti gi dup st)"
  by (simp add: sweep_step_def adopt_ok adopt_content adopt_same_groups)

lemma open_adopt_step:
  assumes "sweep_ok st" "gi < length (grps st)" "open_turn thread gi st = (i, st1)"
  shows "sweep_step st (mset (g_rows (grps st ! gi))) (adopt i gi None st1)"
proof -
  note o = open_turn_step [OF assms(1,3)]
  then have "sweep_step st1 (mset (g_rows (grps st1 ! gi))) (adopt i gi None st1)"
    using assms(2) by (intro adopt_step) (simp_all add: sweep_step_def)
  with sweep_step_trans [OF conjunct1 [OF o] this] o show ?thesis by simp
qed

lemma sweepGroup_step:
  assumes ok: "sweep_ok st" and gi: "gi < length (grps st)"
  shows "sweep_step st (mset (g_rows (grps st ! gi))) (sweepGroup thread gi st)"
proof -
  let ?g = "grps st ! gi"
  obtain i st1 where o: "open_turn thread gi st = (i, st1)" by (meson surj_pair)
  note op = open_adopt_step [OF ok gi o]
  show ?thesis
  proof (cases "if dupKey ?g \<noteq> [] then dupIndex st (dupKey ?g) else None")
    case (Some d)
    then obtain k where "dupIndex st k = Some d" by (auto split: if_splits)
    with ok obtain ti where "owner (grps st ! d) = Some ti" "ti < length (heap st)"
      unfolding sweep_ok_def by blast
    with Some adopt_step [OF ok _ gi] show ?thesis by (simp add: sweepGroup_def Let_def)
  next
    case no_dup: None
    show ?thesis
    proof (cases "opensTurn (g_kind ?g)")
      case True
      have "pidIndex st (g_pid ?g) = Some ti \<Longrightarrow> ti < length (heap st)" for ti using ok by (auto simp: sweep_ok_def)
      with no_dup True op o adopt_step [OF ok _ gi] show ?thesis
        by (auto simp: sweepGroup_def Let_def split: option.splits if_splits)
    next
      case False
      have "ti < length (heap st)"
        if "or_else (or_else (byPid (pidIndex st) (g_pids ?g)) (if g_kind ?g \<noteq> KindInterrupted then lastClosed st else None))
              (last_turn st) = Some ti" for ti
        using that byPid_bound [OF ok, of "g_pids ?g" ti] last_turn_bound [OF ok, of ti] lastClosed_bound [OF ok, of ti]
        by (auto simp: or_else_def split: option.splits if_splits)
      with no_dup False op o adopt_step [OF ok _ gi] show ?thesis
        by (auto simp: sweepGroup_def Let_def split: option.splits)
    qed
  qed
qed

lemma sweepItem_step:
  "sweep_ok st \<Longrightarrow> item_valid st it \<Longrightarrow> sweep_step st (item_rows (grps st) it) (sweepItem thread it st)"
  by (cases it) (simp_all add: sweepItem_def item_valid_def item_rows_def sweepGroup_step sweepRow_step)

lemma sweepItems_step:
  "sweep_ok st \<Longrightarrow> \<forall>it\<in>set its. item_valid st it \<Longrightarrow>
   sweep_step st (sum_list (map (item_rows (grps st)) its)) (fold (sweepItem thread) its st)"
proof (induction its arbitrary: st)
  case Nil
  then show ?case by (simp add: sweep_step_def same_groups_def)
next
  case (Cons it its)
  let ?st1 = "sweepItem thread it st"
  have s1: "sweep_step st (item_rows (grps st) it) ?st1" using Cons.prems by (intro sweepItem_step) simp_all
  then have same: "same_groups (grps st) (grps ?st1)" and len: "length (grps ?st1) = length (grps st)"
    by (auto simp: sweep_step_def same_groups_def dest: map_eq_imp_length_eq)
  have v: "\<forall>x\<in>set its. item_valid ?st1 x" using Cons.prems len by (auto simp: item_valid_def split: item.splits)
  have e: "map (item_rows (grps ?st1)) its = map (item_rows (grps st)) its"
  proof (intro map_cong refl)
    fix x assume "x \<in> set its"
    then have "item_valid st x" using Cons.prems(2) by simp
    then show "item_rows (grps ?st1) x = item_rows (grps st) x"
    proof (cases x)
      case (GroupItem gi)
      with \<open>item_valid st x\<close> same_groups_nth [OF same, of gi] show ?thesis by (simp add: item_rows_def item_valid_def)
    qed (simp add: item_rows_def)
  qed
  have "sweep_step ?st1 (sum_list (map (item_rows (grps ?st1)) its)) (fold (sweepItem thread) its ?st1)"
    using s1 v by (intro Cons.IH) (simp_all add: sweep_step_def)
  from sweep_step_trans [OF s1 this [unfolded e]] show ?case by simp
qed

lemma sweepEnd_step:
  assumes "sweep_ok st"
  shows "sweep_step st {#} (sweepEnd thread st) \<and> pending (sweepEnd thread st) = []"
proof (cases "pending st = []")
  case True
  with assms show ?thesis by (simp add: sweepEnd_def sweep_step_def same_groups_def)
next
  case False
  obtain i st1 where o: "openHead thread (OccurredAt (hd (pending st))) st = (i, st1)" by (meson surj_pair)
  note h = openHead_step [OF assms o]
  then have "sweep_ok st1" "i < length (heap st1)" by (simp_all add: sweep_step_def)
  then have "sweep_step st1 {#} (place i st1)"
    by (simp add: sweep_step_def place_ok place_content same_groups_def)
  from sweep_step_trans [OF conjunct1 [OF h] this] False o show ?thesis by (simp add: sweepEnd_def)
qed

section \<open>Finishing lists the rows of the turn\<close>

text \<open>What electing copies leaves of the turn under construction.\<close>

definition same_turn :: "finishing \<Rightarrow> finishing \<Rightarrow> bool" where
  "same_turn f f' \<longleftrightarrow> Events (ft f') = Events (ft f) \<and> Origins (ft f') = Origins (ft f) \<and>
     work (ft f') = work (ft f) \<and> groups (ft f') = groups (ft f) \<and> StartedAt (ft f') = StartedAt (ft f) \<and>
     Key (ft f') = Key (ft f) \<and> Thread (ft f') = Thread (ft f) \<and> FilesChanged (ft f') = FilesChanged (ft f) \<and> Prompts (ft f') = Prompts (ft f) \<and>
     LastActivityAt (ft f') = LastActivityAt (ft f) \<and> ActiveMS (ft f') = ActiveMS (ft f) \<and>
     interruptedAt (ft f') = interruptedAt (ft f)"

lemma same_turn_refl [simp]: "same_turn f f"
  by (simp add: same_turn_def)

lemma same_turn_trans: "same_turn f g \<Longrightarrow> same_turn g h \<Longrightarrow> same_turn f h"
  by (simp add: same_turn_def)

lemma same_turn_fold: "(\<And>x f. same_turn f (h x f)) \<Longrightarrow> same_turn f (fold h xs f)"
  by (induction xs arbitrary: f) (auto intro: same_turn_trans)

lemma same_turn_steps [simp]:
  "same_turn f (set_role r x g) = same_turn f g" "same_turn f (merge g) = same_turn f g"
  "same_turn f (supersede r b g) = same_turn f g" "same_turn f (dup_row b r g) = same_turn f g"
  "same_turn f (copy_row c r g) = same_turn f g" "same_turn f (finishAnswer as h g) = same_turn f g"
  "same_turn f (finishFinal as g) = same_turn f g"
  "same_turn f (g\<lparr>ft := (ft g)\<lparr>PromptEventID := i\<rparr>\<rparr>) = same_turn f g"
  by (auto simp: same_turn_def set_role_def merge_def supersede_def dup_row_def copy_row_def finishAnswer_def
      finishFinal_def Let_def split: option.splits)

lemma same_turn_finishGroup: "same_turn f (finishGroup gs ig f)"
proof (cases "dupOf (gs ! snd ig)")
  case None
  have "same_turn f (fold (copy_row c) rs g)" if "same_turn f g" for g c rs
    using that by (rule same_turn_trans) (rule same_turn_fold, simp)
  with None show ?thesis by (simp add: finishGroup_def Let_def)
next
  case (Some d)
  have "same_turn f (fold (dup_row (canonical (gs ! d))) (g_rows (gs ! snd ig)) f)" by (rule same_turn_fold) simp
  with Some show ?thesis by (simp add: finishGroup_def Let_def)
qed

lemma timeLoop_keeps [simp]:
  "Events (timeLoop rls rs prev t) = Events t" "Origins (timeLoop rls rs prev t) = Origins t"
  "work (timeLoop rls rs prev t) = work t" "Key (timeLoop rls rs prev t) = Key t"
  "Thread (timeLoop rls rs prev t) = Thread t"
  "FilesChanged (timeLoop rls rs prev t) = FilesChanged t" "ToolCalls (timeLoop rls rs prev t) = ToolCalls t"
  "Errors (timeLoop rls rs prev t) = Errors t" "Prompts (timeLoop rls rs prev t) = Prompts t"
  "LastActivityAt (timeLoop rls rs prev t) = LastActivityAt t" "StartedAt (timeLoop rls rs prev t) = StartedAt t"
  by (induction rls rs prev t rule: timeLoop.induct) (auto simp: Let_def)

lemma finishTimes_keeps [simp]:
  "Events (finishTimes t) = Events t" "Origins (finishTimes t) = Origins t" "work (finishTimes t) = work t"
  "Thread (finishTimes t) = Thread t" "Key (finishTimes t) = Key t" "FilesChanged (finishTimes t) = FilesChanged t"
  "ToolCalls (finishTimes t) = ToolCalls t" "Errors (finishTimes t) = Errors t" "Prompts (finishTimes t) = Prompts t"
  "StartedAt (finishTimes t) = StartedAt t"
  by (simp_all add: finishTimes_def Let_def)

lemma finish_fields:
  assumes "finish gs t sp = (t', sp')"
  shows "map fst (Events t') = map fst (Events t) @ map row_ID (sort_by rowLess (turn_rows gs t))"
    and "Origins t' = sort (Origins t @ remdups (map row_Origin (turn_rows gs t)))"
    and "Key t' = Key t" and "Thread t' = Thread t" and "StartedAt t' = StartedAt t" and "work t' = work t" and "Prompts t' = Prompts t"
    and "FilesChanged t' = FilesChanged t + length (filter (\<lambda>r. row_Type r = FileChanged) (work t))"
proof -
  let ?as = "filter (\<lambda>r. row_Type r = AssistantTurn) (work t)"
  let ?f0 = "\<lparr>roles = Map.empty, sup = sp, ft = t\<rparr>"
  let ?f1 = "fold (finishGroup gs) (zip [0..<length (groups t)] (groups t)) ?f0"
  let ?f2 = "fold (\<lambda>r. set_role r RoleWork) (work t) ?f1"
  let ?f4 = "finishFinal ?as (fold (finishAnswer ?as) ?as ?f2)"
  have "same_turn ?f0 ?f1" by (rule same_turn_fold) (rule same_turn_finishGroup)
  moreover have "same_turn ?f1 ?f2" by (rule same_turn_fold) simp
  moreover have "same_turn ?f2 (fold (finishAnswer ?as) ?as ?f2)" by (rule same_turn_fold) simp
  then have "same_turn ?f2 ?f4" by simp
  ultimately have "same_turn ?f0 ?f4" by (blast intro: same_turn_trans)
  then have "Events (ft ?f4) = Events t" "Origins (ft ?f4) = Origins t" "work (ft ?f4) = work t" "Key (ft ?f4) = Key t" "Thread (ft ?f4) = Thread t"
    "FilesChanged (ft ?f4) = FilesChanged t" "Prompts (ft ?f4) = Prompts t" "StartedAt (ft ?f4) = StartedAt t"
    by (simp_all add: same_turn_def)
  with assms show "map fst (Events t') = map fst (Events t) @ map row_ID (sort_by rowLess (turn_rows gs t))"
    "Origins t' = sort (Origins t @ remdups (map row_Origin (turn_rows gs t)))"
    "Key t' = Key t" "Thread t' = Thread t" "StartedAt t' = StartedAt t" "work t' = work t" "Prompts t' = Prompts t"
    "FilesChanged t' = FilesChanged t + length (filter (\<lambda>r. row_Type r = FileChanged) (work t))"
    unfolding finish_def Let_def by (auto split: prod.splits)
qed

definition event_ids :: "turn \<Rightarrow> string multiset" where
  "event_ids t = mset (map fst (Events t))"

lemma closeLoop_events:
  "\<forall>t\<in>set ts. Events t = [] \<Longrightarrow> closeLoop gs ended i ts sp = (ts', sp') \<Longrightarrow>
   sum_list (map event_ids ts') = image_mset row_ID (sum_list (map (\<lambda>t. mset (turn_rows gs t)) ts))"
proof (induction gs ended i ts sp arbitrary: ts' sp' rule: closeLoop.induct)
  case (1 gs ended i sp)
  then show ?case by simp
next
  case (2 gs ended i t ts sp)
  obtain t1 sp1 where f: "finish gs t sp = (t1, sp1)" by (meson surj_pair)
  obtain ts2 sp2 where c: "closeLoop gs ended (Suc i) ts sp1 = (ts2, sp2)" by (meson surj_pair)
  have "sum_list (map event_ids ts2) = image_mset row_ID (sum_list (map (\<lambda>t. mset (turn_rows gs t)) ts))"
    using "2.IH" [OF f [symmetric] refl refl refl _ c] "2.prems"(1) by simp
  moreover obtain t4 where "ts' = t4 # ts2" "Events t4 = Events t1"
    using "2.prems"(2) f c by (auto simp: Let_def split: list.splits if_splits)
  then have "ts' = t4 # ts2" "event_ids t4 = event_ids t1" by (simp_all add: event_ids_def)
  moreover have "event_ids t1 = image_mset row_ID (mset (turn_rows gs t))"
    using finish_fields(1) [OF f] "2.prems"(1) by (simp add: event_ids_def)
  ultimately show ?case by simp
qed

end
