(* ===== verification/FoldProps.thy ===== *)
theory FoldProps
  imports FoldRows
begin

text \<open>
  What folding a session keeps: every row lands in exactly one turn, the counts a turn shows
  are elected from its rows, and its times add up.
\<close>

section \<open>A thread\<close>

lemma heap_listed:
  assumes "sweep_ok st"
  shows "mset (map (\<lambda>i. heap st ! i) (turns st)) = mset (heap st)"
proof -
  have "mset (turns st) = mset [0..<length (heap st)]"
    using assms by (intro set_eq_iff_mset_eq_distinct [THEN iffD1]) (auto simp: sweep_ok_def atLeast0LessThan)
  then have "mset (map (\<lambda>i. heap st ! i) (turns st)) = mset (map (\<lambda>i. heap st ! i) [0..<length (heap st)])"
    by (simp only: mset_map)
  then show ?thesis by (simp only: map_nth)
qed

lemma init_sweep_ok: "sweep_ok (init_sweep gs)"
  by (simp add: sweep_ok_def init_sweep_def)

lemma init_sweep_fields [simp]: "grps (init_sweep gs) = gs" "content (init_sweep gs) = {#}"
  by (simp_all add: init_sweep_def content_def)

lemma sum_list_mset_map: "sum_list (map f xs) = sum_mset (image_mset f (mset xs))"
  by (metis mset_map sum_mset_sum_list)

lemma thread_items_rows:
  "sum_list (map (item_rows gs) (thread_items gs others)) = mset (concat (map g_rows gs)) + mset others"
proof -
  have "sum_list (map (item_rows gs) (thread_items gs others)) =
      sum_list (map (item_rows gs) (map GroupItem [0..<length gs] @ map RowItem others))"
    by (simp only: sum_list_mset_map thread_items_def mset_sort_by)
  also have "\<dots> = sum_list (map (\<lambda>gi. mset (g_rows (gs ! gi))) [0..<length gs]) + sum_list (map (\<lambda>r. {#r#}) others)"
    by (simp add: item_rows_def o_def)
  also have "map (\<lambda>gi. mset (g_rows (gs ! gi))) [0..<length gs] = map (\<lambda>g. mset (g_rows g)) gs"
    by (rule nth_equalityI) simp_all
  also have "sum_list (map (\<lambda>g. mset (g_rows g)) gs) = mset (concat (map g_rows gs))" by (rule sum_list_mset_concat)
  also have "sum_list (map (\<lambda>r. {#r#}) others) = mset others" by (induction others) simp_all
  finally show ?thesis .
qed

lemma thread_rows_split:
  "mset (thread_prompts rs) + mset (thread_others rs) = mset (filter (\<lambda>r. \<not> is_lifecycle (row_Type r)) rs)"
  by (induction rs) (auto simp: thread_prompts_def thread_others_def is_lifecycle_def simp del: mset_filter)

lemma sweepThread_rows:
  assumes "distinct (map addr rs)"
  shows "sweep_ok (sweepThread thread rs) \<and> pending (sweepThread thread rs) = [] \<and>
    content (sweepThread thread rs) = mset (filter (\<lambda>r. \<not> is_lifecycle (row_Type r)) rs)"
proof -
  define gs where "gs = pairPrompts (thread_prompts rs)"
  define its where "its = thread_items gs (thread_others rs)"
  have "distinct (map addr (thread_prompts rs))" using assms by (simp add: thread_prompts_def distinct_map_filter)
  then have g: "mset (concat (map g_rows gs)) = mset (thread_prompts rs)" unfolding gs_def by (rule pairPrompts_rows)
  have "set its = set (map GroupItem [0..<length gs] @ map RowItem (thread_others rs))"
    unfolding its_def thread_items_def by (metis mset_sort_by set_mset_mset)
  then have "\<forall>it\<in>set its. item_valid (init_sweep gs) it" by (auto simp: item_valid_def)
  from sweepItems_step [OF init_sweep_ok this, of thread]
  have s: "sweep_step (init_sweep gs) (mset (thread_prompts rs) + mset (thread_others rs))
      (fold (sweepItem thread) its (init_sweep gs))"
    by (simp add: its_def thread_items_rows g)
  then have "sweep_ok (fold (sweepItem thread) its (init_sweep gs))" by (simp add: sweep_step_def)
  note e = sweepEnd_step [OF this, of thread]
  have "sweepThread thread rs = sweepEnd thread (fold (sweepItem thread) its (init_sweep gs))"
    by (simp add: sweepThread_def gs_def its_def Let_def)
  with e sweep_step_trans [OF s conjunct1 [OF e]] show ?thesis
    by (simp add: sweep_step_def thread_rows_split)
qed

lemma foldThread_events:
  assumes "distinct (map addr rs)" "foldThread thread rs o0 sp = ((ts, ix), sp')"
  shows "sum_list (map event_ids ts) = image_mset row_ID (mset (filter (\<lambda>r. \<not> is_lifecycle (row_Type r)) rs))"
proof -
  define st where "st = sweepThread thread (sort_by rowLess rs)"
  define ts0 where "ts0 = map (\<lambda>i. heap st ! i) (turns st)"
  have "distinct (map addr (sort_by rowLess rs))" using assms(1) by (metis distinct_map mset_map mset_sort_by mset_eq_imp_distinct_iff)
  from sweepThread_rows [OF this] have ok: "sweep_ok st" "pending st = []"
    and c: "content st = mset (filter (\<lambda>r. \<not> is_lifecycle (row_Type r)) rs)"
    by (simp_all add: st_def)
  obtain ended where cl: "closeLoop (grps st) ended 0 ts0 sp = (ts, sp')"
    using assms(2) by (auto simp: foldThread_def Let_def st_def ts0_def split: prod.splits)
  have m: "mset ts0 = mset (heap st)" unfolding ts0_def using ok(1) by (rule heap_listed)
  then have "set ts0 = set (heap st)" by (metis set_mset_mset)
  then have "\<forall>t\<in>set ts0. Events t = []" using ok(1) by (simp add: sweep_ok_def)
  from closeLoop_events [OF this cl]
  have "sum_list (map event_ids ts) = image_mset row_ID (sum_list (map (\<lambda>t. mset (turn_rows (grps st) t)) ts0))" .
  also have "sum_list (map (\<lambda>t. mset (turn_rows (grps st) t)) ts0) = content st"
    by (simp add: sum_list_mset_map m content_def ok(2))
  finally show ?thesis by (simp add: c)
qed

section \<open>A session\<close>

lemma filter_parts:
  "distinct ks \<Longrightarrow> sum_list (map (\<lambda>k. mset (filter (\<lambda>r. f r = k) rs)) ks) = mset (filter (\<lambda>r. f r \<in> set ks) rs)"
proof (induction ks)
  case Nil
  then show ?case by simp
next
  case (Cons k ks)
  have "mset (filter (\<lambda>r. f r = k) rs) + mset (filter (\<lambda>r. f r \<in> set ks) rs) = mset (filter (\<lambda>r. f r \<in> set (k # ks)) rs)"
    using Cons.prems by (induction rs) (auto simp del: mset_filter)
  with Cons show ?case by simp
qed

text \<open>The empty thread name sorts first.\<close>

lemma threadLess_Nil [simp]: "threadLess f a [] \<longleftrightarrow> a = []" "threadLess f [] b"
  by (simp_all add: threadLess_def)

lemma sort_by_main_first:
  "[] \<in> set ks \<Longrightarrow> \<exists>ks'. sort_by (threadLess f) ks = [] # ks'"
proof (induction ks)
  case Nil
  then show ?case by simp
next
  case (Cons k ks)
  show ?case
  proof (cases "k = []")
    case True
    then show ?thesis by (cases "sort_by (threadLess f) ks") auto
  next
    case False
    with Cons obtain ks' where "sort_by (threadLess f) ks = [] # ks'" by auto
    with False show ?thesis by simp
  qed
qed

definition fold_ids :: "session_fold \<Rightarrow> string multiset" where
  "fold_ids sf = sum_list (map (\<lambda>ts. sum_list (map event_ids ts)) (folded sf))"

definition main_ok :: "session_fold \<Rightarrow> bool" where
  "main_ok sf \<longleftrightarrow> main_turns sf = [] \<and> main_index sf = Map.empty \<or> folded sf \<noteq> [] \<and> folded sf ! 0 = main_turns sf"

lemma event_ids_bump: "event_ids (bump_subagents t) = event_ids t"
  by (simp add: event_ids_def bump_subagents_def)

lemma map_bump: "(\<And>t. f (bump_subagents t) = f t) \<Longrightarrow> map f (ts[i := bump_subagents (ts ! i)]) = map f ts"
  by (cases "i < length ts") (simp_all add: map_update list_update_same_conv list_update_beyond)

lemma attachTarget_none: "attachTarget [] Map.empty pid at = None"
  by (simp add: attachTarget_def)

text \<open>
  One more thread appends its turns; attaching it to a main turn changes nothing that
  counting a subagent leaves alone.
\<close>

lemma foldNext_folded:
  assumes f: "\<And>t. f (bump_subagents t) = f t"
    and ok: "if th = [] then folded sf = [] else main_ok sf"
    and e: "foldThread th (byThread th) o0 (sf_sup sf) = ((trs, ix), sp)"
  shows "main_ok (foldNext byThread o0 th sf) \<and>
    map (map f) (folded (foldNext byThread o0 th sf)) = map (map f) (folded sf) @ [map f trs]"
proof -
  let ?sf1 = "sf\<lparr>folded := folded sf @ [trs], sf_sup := sp\<rparr>"
  show ?thesis
  proof (cases "th = []")
    case True
    with ok e show ?thesis by (simp add: foldNext_def main_ok_def)
  next
    case False
    with ok have m: "main_ok ?sf1" by (auto simp: main_ok_def nth_append)
    show ?thesis
    proof (cases "sort_by rowLess (byThread th) = [] \<or> (\<exists>r rs. sort_by rowLess (byThread th) = r # rs \<and>
        attachTarget (main_turns sf) (main_index sf) (PromptID r) (OccurredAt r) = None)")
      case True
      with False e m show ?thesis by (auto simp: foldNext_def)
    next
      case other: False
      then obtain r rs i where r: "sort_by rowLess (byThread th) = r # rs"
        and a: "attachTarget (main_turns sf) (main_index sf) (PromptID r) (OccurredAt r) = Some i"
        by (cases "sort_by rowLess (byThread th)") auto
      obtain tss where s: "folded sf = main_turns sf # tss"
        using ok False a by (cases "folded sf") (auto simp: main_ok_def attachTarget_none)
      let ?m = "(main_turns sf)[i := bump_subagents (main_turns sf ! i)]"
      have n: "foldNext byThread o0 th sf = ?sf1\<lparr>main_turns := ?m, folded := (folded ?sf1)[0 := ?m]\<rparr>"
        using False e r a by (simp add: foldNext_def Let_def)
      show ?thesis unfolding n by (simp add: s main_ok_def map_bump [of f] f)
    qed
  qed
qed

lemma foldNext_step:
  assumes d: "distinct (map addr (byThread th))"
    and ok: "if th = [] then folded sf = [] else main_ok sf"
  shows "main_ok (foldNext byThread o0 th sf) \<and>
    fold_ids (foldNext byThread o0 th sf) =
      fold_ids sf + image_mset row_ID (mset (filter (\<lambda>r. \<not> is_lifecycle (row_Type r)) (byThread th)))"
proof -
  obtain trs ix sp where f: "foldThread th (byThread th) o0 (sf_sup sf) = ((trs, ix), sp)" by (metis surj_pair)
  have i: "fold_ids sf' = sum_list (map sum_list (map (map event_ids) (folded sf')))" for sf'
    by (simp add: fold_ids_def comp_def)
  from foldNext_folded [where f = event_ids and th = th and byThread = byThread and sf = sf, OF event_ids_bump ok f]
    foldThread_events [OF d f]
  show ?thesis by (simp add: i del: map_map)
qed

lemma foldNext_steps:
  "\<forall>th\<in>set ths. th \<noteq> [] \<and> distinct (map addr (byThread th)) \<Longrightarrow> main_ok sf \<Longrightarrow>
   fold_ids (fold (foldNext byThread o0) ths sf) =
     fold_ids sf + sum_list (map (\<lambda>th. image_mset row_ID (mset (filter (\<lambda>r. \<not> is_lifecycle (row_Type r)) (byThread th)))) ths)"
proof (induction ths arbitrary: sf)
  case Nil
  then show ?case by simp
next
  case (Cons th ths)
  have "main_ok (foldNext byThread o0 th sf) \<and> fold_ids (foldNext byThread o0 th sf) =
      fold_ids sf + image_mset row_ID (mset (filter (\<lambda>r. \<not> is_lifecycle (row_Type r)) (byThread th)))"
    using Cons.prems by (intro foldNext_step) simp_all
  with Cons show ?case by (simp add: add.assoc)
qed

lemma fold_parts:
  assumes "distinct ths"
  shows "sum_list (map (\<lambda>th. image_mset row_ID (mset (filter P (filter (\<lambda>r. f r = th) rs)))) ths) =
    image_mset row_ID (mset (filter P (filter (\<lambda>r. f r \<in> set ths) rs)))"
proof -
  have "sum_list (map (\<lambda>th. image_mset row_ID (mset (filter P (filter (\<lambda>r. f r = th) rs)))) ths) =
      image_mset row_ID (sum_list (map (\<lambda>th. mset (filter (\<lambda>r. f r = th) (filter P rs))) ths))"
    by (induction ths) (simp_all add: conj_commute)
  also have "\<dots> = image_mset row_ID (mset (filter (\<lambda>r. f r \<in> set ths) (filter P rs)))"
    using filter_parts [OF assms, of f "filter P rs"] by simp
  finally show ?thesis by (simp add: conj_commute)
qed

definition session_rows :: "Row list \<Rightarrow> Row list" where
  "session_rows rows = map (\<lambda>(i, r). r\<lparr>addr := i\<rparr>) (enumerate 0 rows)"

lemma session_rows_addr: "map addr (session_rows rows) = [0..<length rows]"
  by (simp add: session_rows_def enumerate_eq_zip comp_def case_prod_beta map_fst_zip [unfolded comp_def])

lemma session_rows_ids:
  "map row_ID (filter (\<lambda>r. P (row_Type r)) (session_rows rows)) = map row_ID (filter (\<lambda>r. P (row_Type r)) rows)"
proof -
  have "map row_ID (filter (\<lambda>r. P (row_Type r)) (map (\<lambda>(i, r). r\<lparr>addr := i\<rparr>) (enumerate n rows))) =
      map row_ID (filter (\<lambda>r. P (row_Type r)) rows)" for n
    by (induction rows arbitrary: n) simp_all
  then show ?thesis by (simp add: session_rows_def)
qed

lemma truncated_ids:
  "mset (map fst (concat (map Events (map Turn.truncate (concat tss))))) = sum_list (map (\<lambda>ts. sum_list (map event_ids ts)) tss)"
proof -
  have "mset (map fst (concat (map Events (map Turn.truncate ts)))) = sum_list (map event_ids ts)" for ts
    by (induction ts) (simp_all add: event_ids_def Turn.truncate_def)
  then show ?thesis by (induction tss) simp_all
qed

lemma FoldTurns_ids:
  "mset (map fst (concat (map Events (res_Turns (FoldTurns rows o0))))) =
   mset (map row_ID (filter (\<lambda>r. \<not> is_lifecycle (row_Type r)) rows))"
proof -
  let ?rs = "session_rows rows"
  let ?th = "\<lambda>r. CanonicalThread (AgentID r)"
  let ?P = "\<lambda>r. \<not> is_lifecycle (row_Type r)"
  define bt where "bt = (\<lambda>k. filter (\<lambda>r. ?th r = k) ?rs)"
  define ths where "ths = sort_by (threadLess bt) (remdups (map ?th ?rs))"
  define sf0 where "sf0 = \<lparr>folded = [], main_turns = [], main_index = Map.empty, sf_sup = Map.empty\<rparr>"
  let ?sf = "fold (foldNext bt o0) ths sf0"
  have d: "distinct (map addr (bt k))" for k
    using session_rows_addr [of rows] by (simp add: bt_def distinct_map_filter)
  have dt: "distinct ths" and st: "set ths = ?th ` set ?rs" by (simp_all add: ths_def)
  have "fold_ids ?sf = sum_list (map (\<lambda>th. image_mset row_ID (mset (filter ?P (bt th)))) ths)"
  proof (cases "[] \<in> set ths")
    case True
    then obtain ths' where e: "ths = [] # ths'"
      using sort_by_main_first [of "remdups (map ?th ?rs)" bt] by (auto simp: ths_def)
    with dt have ne: "\<forall>th\<in>set ths'. th \<noteq> [] \<and> distinct (map addr (bt th))" using d by auto
    have "main_ok (foldNext bt o0 [] sf0) \<and> fold_ids (foldNext bt o0 [] sf0) =
        fold_ids sf0 + image_mset row_ID (mset (filter ?P (bt [])))"
      by (rule foldNext_step) (simp_all add: d sf0_def)
    with foldNext_steps [OF ne] show ?thesis by (simp add: e fold_ids_def sf0_def)
  next
    case False
    then have "\<forall>th\<in>set ths. th \<noteq> [] \<and> distinct (map addr (bt th))" using d by auto
    from foldNext_steps [OF this, of sf0] show ?thesis by (simp add: fold_ids_def main_ok_def sf0_def)
  qed
  also have "\<dots> = image_mset row_ID (mset (filter ?P (filter (\<lambda>r. ?th r \<in> set ths) ?rs)))"
    unfolding bt_def by (rule fold_parts [OF dt])
  also have "filter (\<lambda>r. ?th r \<in> set ths) ?rs = ?rs" by (simp add: st)
  finally have i: "fold_ids ?sf = mset (map row_ID (filter ?P ?rs))" by simp
  have "res_Turns (FoldTurns rows o0) = map Turn.truncate (concat (folded ?sf))"
    by (simp add: FoldTurns_def Let_def session_rows_def [symmetric] bt_def [symmetric] ths_def [symmetric] sf0_def)
  then have "mset (map fst (concat (map Events (res_Turns (FoldTurns rows o0))))) = fold_ids ?sf"
    by (simp only: truncated_ids fold_ids_def)
  with i show ?thesis by (simp add: session_rows_ids [where P = "\<lambda>t. \<not> is_lifecycle t"] del: mset_filter)
qed

end
