(* ===== verification/FoldKeys.thy ===== *)
theory FoldKeys
  imports FoldProps
begin

text \<open>
  A turn's key names it within its thread: the sweep's counter makes the second turn of one
  base \<open>base#2\<close>, so keys stay apart as long as no base holds a \<open>#\<close> itself.
\<close>

section \<open>Decimal numerals are one to one\<close>

lemma digit_inject: "n < 10 \<Longrightarrow> m < 10 \<Longrightarrow> digit n = digit m \<Longrightarrow> n = m"
  by (metis add_left_cancel of_char_digit)

lemma dec_small: "n < 10 \<Longrightarrow> dec n = [digit n]"
  by (subst dec.simps) simp

lemma dec_big: "\<not> n < 10 \<Longrightarrow> dec n = dec (n div 10) @ [digit (n mod 10)]"
  by (subst dec.simps) simp

lemma dec_inject: "dec n = dec m \<Longrightarrow> n = m"
proof (induction n arbitrary: m rule: less_induct)
  case (less n)
  show ?case
  proof (cases "n < 10")
    case True
    then have "m < 10" using less.prems dec_pos_length [of "m div 10"]
      by (cases "m < 10") (auto simp: dec_small dec_big append_eq_Cons_conv)
    with True less.prems show ?thesis by (auto simp: dec_small digit_inject)
  next
    case False
    have "\<not> m < 10"
    proof
      assume "m < 10"
      with False less.prems dec_pos_length [of "n div 10"] show False by (auto simp: dec_small dec_big append_eq_Cons_conv)
    qed
    with False less.prems have "dec (n div 10) = dec (m div 10)" "digit (n mod 10) = digit (m mod 10)"
      by (simp_all add: dec_big)
    with less.IH [of "n div 10" "m div 10"] False have "n div 10 = m div 10" "n mod 10 = m mod 10"
      by (simp_all add: digit_inject)
    then show ?thesis by (metis mod_mult_div_eq)
  qed
qed

lemma digit_not_hash: "n < 10 \<Longrightarrow> digit n \<noteq> CHR ''#''"
proof
  assume "n < 10" "digit n = CHR ''#''"
  then have "48 + n = (of_char (CHR ''#'') :: nat)" by (metis of_char_digit)
  then show False by simp
qed

lemma dec_no_hash: "CHR ''#'' \<notin> set (dec n)"
proof (induction n rule: dec.induct)
  case (1 n)
  have "CHR ''#'' \<noteq> digit (n mod 10)" using digit_not_hash [of "n mod 10"] by auto
  moreover have "CHR ''#'' \<noteq> digit n" if "n < 10" using digit_not_hash [OF that] by auto
  ultimately show ?case using 1 by (subst dec.simps) auto
qed

lemma FormatInt_no_hash: "CHR ''#'' \<notin> set (FormatInt i)"
  by (simp add: FormatInt_def dec_no_hash)

section \<open>The sweep keeps keys apart\<close>

lemma upto_hash: "CHR ''#'' \<notin> set b \<Longrightarrow> takeWhile (\<lambda>c. c \<noteq> CHR ''#'') (key_name b n) = b"
  by (auto simp: key_name_def takeWhile_append takeWhile_eq_all_conv)

lemma key_name_inject:
  assumes "CHR ''#'' \<notin> set b" "CHR ''#'' \<notin> set b'" "key_name b n = key_name b' n'"
  shows "b = b' \<and> n = n'"
proof -
  have b: "b = b'" using assms upto_hash by metis
  with assms(3) show ?thesis by (auto simp: key_name_def dest: dec_inject split: if_splits)
qed

text \<open>A base names a prompt or a second, never the head turn.\<close>

definition base_ok :: "string \<Rightarrow> bool" where
  "base_ok b \<longleftrightarrow> CHR ''#'' \<notin> set b \<and> b \<noteq> [] \<and> b ! 0 \<noteq> CHR ''h''"

lemma key_name_not_head: "base_ok b \<Longrightarrow> key_name b n \<noteq> HeadKey"
  by (auto simp: base_ok_def key_name_def HeadKey_def nth_append dest: arg_cong [where f = "\<lambda>s. s ! 0"])

lemma groupKey_base: "CHR ''#'' \<notin> set (g_pid g) \<Longrightarrow> CHR ''#'' \<notin> set (g_hash g) \<Longrightarrow> base_ok (groupKey g)"
  by (auto simp: base_ok_def groupKey_def FormatInt_no_hash)

definition keys_ok :: "string \<Rightarrow> sweep \<Rightarrow> bool" where
  "keys_ok thread st \<longleftrightarrow> distinct (map Key (heap st)) \<and>
     (\<forall>t\<in>set (heap st). Thread t = thread \<and>
        (Key t = HeadKey \<and> head st \<noteq> None \<or> (\<exists>b n. base_ok b \<and> n < keys st b \<and> Key t = key_name b n))) \<and>
     (\<forall>g\<in>set (grps st). base_ok (groupKey g))"

lemma keys_ok_alt:
  "keys_ok thread st \<longleftrightarrow> distinct (map Key (heap st)) \<and> set (map Thread (heap st)) \<subseteq> {thread} \<and>
     (\<forall>k\<in>set (map Key (heap st)).
        k = HeadKey \<and> head st \<noteq> None \<or> (\<exists>b n. base_ok b \<and> n < keys st b \<and> k = key_name b n)) \<and>
     (\<forall>b\<in>set (map groupKey (grps st)). base_ok b)"
  by (auto simp: keys_ok_def)

lemma keys_ok_cong:
  "map Key (heap st') = map Key (heap st) \<Longrightarrow> map Thread (heap st') = map Thread (heap st) \<Longrightarrow>
   head st' = head st \<Longrightarrow> keys st' = keys st \<Longrightarrow> map groupKey (grps st') = map groupKey (grps st) \<Longrightarrow>
   keys_ok thread st' = keys_ok thread st"
  by (simp only: keys_ok_alt)

lemma map_upd_turn:
  "(\<And>t. f (h t) = f t) \<Longrightarrow> map f (heap (upd_turn i h st)) = map f (heap st)"
  by (cases "i < length (heap st)") (simp_all add: upd_turn_def map_update list_update_same_conv list_update_beyond)

lemma keys_ok_upd: "(\<And>t. Key (h t) = Key t) \<Longrightarrow> (\<And>t. Thread (h t) = Thread t) \<Longrightarrow>
   keys_ok thread (upd_turn i h st) = keys_ok thread st"
  by (rule keys_ok_cong) (simp_all add: map_upd_turn)

lemma keys_ok_place [simp]: "keys_ok thread (place i st) = keys_ok thread st"
proof -
  have "keys_ok thread (place i st) = keys_ok thread (upd_turn i (fold add_work (pending st)) st)"
    by (rule keys_ok_cong) (simp_all add: place_def)
  then show ?thesis by (simp add: keys_ok_upd)
qed

lemma keys_ok_attachRow [simp]: "keys_ok thread (attachRow r i st) = keys_ok thread st"
  unfolding attachRow_def by (rule keys_ok_upd) (simp_all add: Let_def)

lemma groupKey_adopted [simp]: "groupKey (g\<lparr>owner := w, dupOf := d\<rparr>) = groupKey g"
  by (simp add: groupKey_def)

lemma keys_ok_adopt [simp]: "keys_ok thread (adopt ti gi dup st) = keys_ok thread st"
proof (rule keys_ok_cong)
  have "map f (heap (adopt ti gi dup st)) = map f (heap st)"
    if "\<And>t. f (adopt_turn (grps st ! gi) gi dup t) = f t" for f :: "turn \<Rightarrow> string"
    using map_upd_turn [where f = f and h = "adopt_turn (grps st ! gi) gi dup" and i = ti and st = st] that
    by (simp add: adopt_def upd_turn_def Let_def)
  then show "map Key (heap (adopt ti gi dup st)) = map Key (heap st)"
    "map Thread (heap (adopt ti gi dup st)) = map Thread (heap st)" by simp_all
  show "map groupKey (grps (adopt ti gi dup st)) = map groupKey (grps st)"
    by (cases "gi < length (grps st)")
      (simp_all add: adopt_def Let_def map_update list_update_same_conv list_update_beyond)
qed simp_all

lemma openHead_keys:
  assumes "keys_ok thread st" "openHead thread at st = (i, st')"
  shows "keys_ok thread st'"
proof (cases "head st")
  case (Some j)
  with assms show ?thesis by (simp add: openHead_def)
next
  case None
  have n: "HeadKey \<notin> set (map Key (heap st))"
  proof
    assume "HeadKey \<in> set (map Key (heap st))"
    with assms(1) None obtain b n where "base_ok b" "HeadKey = key_name b n" by (auto simp: keys_ok_def)
    with key_name_not_head [of b n] show False by simp
  qed
  let ?st1 = "st\<lparr>head := Some (length (heap st)), keys := (keys st)(HeadKey := keys st HeadKey + 1),
      heap := heap st @ [new_turn thread HeadKey KindNone at], turns := length (heap st) # turns st\<rparr>"
  have k: "n < keys ?st1 b" if "n < keys st b" for n b using that by auto
  have "keys_ok thread ?st1"
    unfolding keys_ok_def
  proof (intro conjI ballI)
    show "distinct (map Key (heap ?st1))" using assms(1) n by (simp add: keys_ok_def)
    fix u assume u: "u \<in> set (heap ?st1)"
    then show "Thread u = thread" using assms(1) by (auto simp: keys_ok_def)
    have "Key u = HeadKey \<or> (\<exists>b n. base_ok b \<and> n < keys st b \<and> Key u = key_name b n)"
      using u assms(1) by (auto simp: keys_ok_def)
    then show "Key u = HeadKey \<and> head ?st1 \<noteq> None \<or> (\<exists>b n. base_ok b \<and> n < keys ?st1 b \<and> Key u = key_name b n)"
      using k by fastforce
  qed (use assms(1) in \<open>simp add: keys_ok_def\<close>)
  with None assms(2) show ?thesis by (auto simp: openHead_def Let_def)
qed

lemma open_turn_keys:
  assumes ok: "keys_ok thread st" and gi: "gi < length (grps st)" and o: "open_turn thread gi st = (i, st')"
  shows "keys_ok thread st' \<and> grps st' = grps st"
proof -
  define b where "b = groupKey (grps st ! gi)"
  define t where "t = new_turn thread (key_name b (keys st b)) (g_kind (grps st ! gi)) (g_at (grps st ! gi))"
  let ?st1 = "st\<lparr>keys := (keys st)(b := keys st b + 1), heap := heap st @ [t], turns := turns st @ [length (heap st)]\<rparr>"
  have bo: "base_ok b" using ok gi by (simp add: keys_ok_def b_def)
  have fresh: "Key u \<noteq> key_name b (keys st b)" if "u \<in> set (heap st)" for u
  proof -
    from ok that consider "Key u = HeadKey" | b' n where "base_ok b'" "n < keys st b'" "Key u = key_name b' n"
      unfolding keys_ok_def by blast
    then show ?thesis
    proof cases
      case 1
      with key_name_not_head [OF bo] show ?thesis by metis
    next
      case 2
      with bo show ?thesis using key_name_inject [of b' b n "keys st b"] by (auto simp: base_ok_def)
    qed
  qed
  have "keys_ok thread ?st1"
    unfolding keys_ok_def
  proof (intro conjI ballI)
    show "distinct (map Key (heap ?st1))" using ok fresh by (auto simp: keys_ok_def t_def)
    fix u assume u: "u \<in> set (heap ?st1)"
    then show "Thread u = thread" using ok by (auto simp: keys_ok_def t_def)
    from u consider "u \<in> set (heap st)" | "u = t" by auto
    then show "Key u = HeadKey \<and> head ?st1 \<noteq> None \<or> (\<exists>b n. base_ok b \<and> n < keys ?st1 b \<and> Key u = key_name b n)"
    proof cases
      case 1
      then consider "Key u = HeadKey \<and> head st \<noteq> None" | b' n where "base_ok b'" "n < keys st b'" "Key u = key_name b' n"
        using ok unfolding keys_ok_def by blast
      then show ?thesis
      proof cases
        case (2 b' n)
        then have "n < keys ?st1 b'" by auto
        with 2 show ?thesis by blast
      qed simp
    next
      case 2
      then have "Key u = key_name b (keys st b)" "keys st b < keys ?st1 b" by (simp_all add: t_def)
      with bo show ?thesis by blast
    qed
  qed (use ok in \<open>simp add: keys_ok_def\<close>)
  moreover have "st' = place (length (heap st)) ?st1"
    using o by (auto simp: open_turn_def Let_def b_def t_def)
  ultimately show ?thesis by simp
qed

lemma sweepRow_keys: "keys_ok thread st \<Longrightarrow> keys_ok thread (sweepRow thread r st)"
proof (cases "or_else (byPid (pidIndex st) [PromptID r]) (last_turn st)")
  case None
  assume ok: "keys_ok thread st"
  obtain i st1 where o: "openHead thread (OccurredAt r) st = (i, st1)" by (meson surj_pair)
  have "keys_ok thread (st\<lparr>pending := pending st @ [r]\<rparr>) = keys_ok thread st" by (rule keys_ok_cong) simp_all
  with None ok o openHead_keys [OF ok o] show ?thesis by (simp add: sweepRow_def)
qed (simp add: sweepRow_def)

lemma sweepGroup_keys:
  assumes ok: "keys_ok thread st" and gi: "gi < length (grps st)"
  shows "keys_ok thread (sweepGroup thread gi st)"
proof -
  obtain i st1 where o: "open_turn thread gi st = (i, st1)" by (meson surj_pair)
  note op = open_turn_keys [OF ok gi o]
  show ?thesis using ok op o
    by (simp add: sweepGroup_def Let_def split: option.split)
qed

lemma sweepItems_keys:
  "keys_ok thread st \<Longrightarrow> sweep_ok st \<Longrightarrow> \<forall>it\<in>set its. item_valid st it \<Longrightarrow>
   keys_ok thread (fold (sweepItem thread) its st)"
proof (induction its arbitrary: st)
  case Nil
  then show ?case by simp
next
  case (Cons it its)
  let ?st1 = "sweepItem thread it st"
  have "sweep_step st (item_rows (grps st) it) ?st1" using Cons.prems by (intro sweepItem_step) simp_all
  then have ok1: "sweep_ok ?st1" and l: "length (grps ?st1) = length (grps st)"
    by (auto simp: sweep_step_def same_groups_def dest: map_eq_imp_length_eq)
  from l have "item_valid ?st1 = item_valid st" by (simp add: item_valid_def fun_eq_iff split: item.split)
  then have v: "\<forall>it\<in>set its. item_valid ?st1 it" using Cons.prems(3) by simp
  have "keys_ok thread ?st1" using Cons.prems
    by (cases it) (simp_all add: sweepItem_def sweepGroup_keys sweepRow_keys item_valid_def)
  from Cons.IH [OF this ok1 v] show ?case by simp
qed

lemma sweepEnd_keys: "keys_ok thread st \<Longrightarrow> keys_ok thread (sweepEnd thread st)"
proof -
  assume ok: "keys_ok thread st"
  obtain i st1 where o: "openHead thread (OccurredAt (hd (pending st))) st = (i, st1)" by (meson surj_pair)
  with ok openHead_keys [OF ok o] show ?thesis by (simp add: sweepEnd_def)
qed

section \<open>Keys of the folded turns\<close>

text \<open>A row whose prompt id and text hash hold no \<open>#\<close>.\<close>

definition plain_row :: "Row \<Rightarrow> bool" where
  "plain_row r \<longleftrightarrow> CHR ''#'' \<notin> set (PromptID r) \<and> CHR ''#'' \<notin> set (TextHash r)"

definition plain_group :: "group \<Rightarrow> bool" where
  "plain_group g \<longleftrightarrow> CHR ''#'' \<notin> set (g_pid g) \<and> CHR ''#'' \<notin> set (g_hash g)"

lemma plain_group_row: "plain_group g \<Longrightarrow> plain_row r \<Longrightarrow> plain_group (group_row r g)"
  by (simp add: plain_group_def plain_row_def group_row_def Let_def)

lemma plain_group_fold: "plain_group g \<Longrightarrow> \<forall>r\<in>set rs. plain_row r \<Longrightarrow> plain_group (fold group_row rs g)"
  by (induction rs arbitrary: g) (simp_all add: plain_group_row)

lemma pairPrompts_plain:
  assumes "distinct (map addr prompts)" "\<forall>r\<in>set prompts. plain_row r" "g \<in> set (pairPrompts prompts)"
  shows "base_ok (groupKey g)"
proof -
  obtain g0 where g0: "g0 \<in> set (rawGroups prompts)" "g = group_fill g0"
    using assms(3) by (auto simp: pairPrompts_def)
  have "set (concat (map g_rows (rawGroups prompts))) = set prompts"
    using rawGroups_rows [OF assms(1)] by (metis set_mset_mset)
  with g0(1) assms(2) have "\<forall>r\<in>set (g_rows g0). plain_row r" by auto
  moreover have "plain_group g0" using g0(1) by (auto simp: rawGroups_def plain_group_def bare_group_def Let_def)
  ultimately have "plain_group g" by (simp add: g0(2) group_fill_def plain_group_fold)
  then show ?thesis by (intro groupKey_base) (simp_all add: plain_group_def)
qed

lemma sweepThread_keys:
  assumes d: "distinct (map addr rs)" and p: "\<forall>r\<in>set rs. plain_row r"
  shows "keys_ok thread (sweepThread thread rs)"
proof -
  define gs where "gs = pairPrompts (thread_prompts rs)"
  let ?its = "thread_items gs (thread_others rs)"
  have "distinct (map addr (thread_prompts rs))" using d by (simp add: thread_prompts_def distinct_map_filter)
  then have "\<forall>g\<in>set gs. base_ok (groupKey g)" using p pairPrompts_plain
    by (auto simp: gs_def thread_prompts_def)
  then have "keys_ok thread (init_sweep gs)" by (simp add: keys_ok_def init_sweep_def)
  moreover have "\<forall>it\<in>set ?its. item_valid (init_sweep gs) it" by (auto simp: thread_items_def item_valid_def)
  ultimately have "keys_ok thread (fold (sweepItem thread) ?its (init_sweep gs))"
    by (intro sweepItems_keys init_sweep_ok)
  then show ?thesis by (simp add: sweepThread_def gs_def Let_def sweepEnd_keys)
qed

lemma closeLoop_names:
  "closeLoop gs ended i ts sp = (ts', sp') \<Longrightarrow> map (\<lambda>t. (Thread t, Key t)) ts' = map (\<lambda>t. (Thread t, Key t)) ts"
proof (induction gs ended i ts sp arbitrary: ts' sp' rule: closeLoop.induct)
  case (1 gs ended i sp)
  then show ?case by simp
next
  case (2 gs ended i t ts sp)
  obtain t1 sp1 where f: "finish gs t sp = (t1, sp1)" by (meson surj_pair)
  obtain ts2 sp2 where c: "closeLoop gs ended (Suc i) ts sp1 = (ts2, sp2)" by (meson surj_pair)
  obtain t4 where "ts' = t4 # ts2" "Thread t4 = Thread t1" "Key t4 = Key t1"
    using "2.prems" f c by (auto simp: Let_def split: list.splits if_splits)
  with "2.IH" [OF f [symmetric] refl refl refl c] finish_fields(3,4) [OF f] show ?case by simp
qed

lemma foldThread_keys:
  assumes d: "distinct (map addr rs)" and p: "\<forall>r\<in>set rs. plain_row r"
    and f: "foldThread thread rs o0 sp = ((ts, ix), sp')"
  shows "distinct (map Key ts) \<and> (\<forall>t\<in>set ts. Thread t = thread)"
proof -
  define st where "st = sweepThread thread (sort_by rowLess rs)"
  define ts0 where "ts0 = map (\<lambda>i. heap st ! i) (turns st)"
  have d': "distinct (map addr (sort_by rowLess rs))"
    using d by (metis distinct_map mset_map mset_sort_by mset_eq_imp_distinct_iff)
  then have k: "keys_ok thread st" unfolding st_def using p by (intro sweepThread_keys) simp_all
  have m: "mset ts0 = mset (heap st)"
    unfolding ts0_def st_def using sweepThread_rows [OF d'] by (intro heap_listed) simp
  have dk: "distinct (map Key ts0)"
    using k m unfolding keys_ok_def by (metis mset_map mset_eq_imp_distinct_iff)
  have th: "\<forall>t\<in>set ts0. Thread t = thread"
    using k m unfolding keys_ok_def by (metis set_mset_mset)
  obtain ended where cl: "closeLoop (grps st) ended 0 ts0 sp = (ts, sp')"
    using f by (auto simp: foldThread_def Let_def st_def ts0_def split: prod.splits)
  note n = closeLoop_names [OF cl]
  then have "map Key ts = map Key ts0" "map Thread ts = map Thread ts0"
    by (metis (no_types, lifting) map_eq_conv map_map comp_apply fst_conv snd_conv list.map_comp)+
  with dk th show ?thesis by (metis (no_types, lifting) in_set_conv_nth length_map nth_map)
qed

definition fold_names :: "session_fold \<Rightarrow> (string \<times> string) list list" where
  "fold_names sf = map (map (\<lambda>t. (Thread t, Key t))) (folded sf)"

lemma foldNext_names:
  assumes d: "distinct (map addr (bt th))" and p: "\<forall>r\<in>set (bt th). plain_row r"
    and ok: "if th = [] then folded sf = [] else main_ok sf"
  shows "main_ok (foldNext bt o0 th sf) \<and> (\<exists>ns. fold_names (foldNext bt o0 th sf) = fold_names sf @ [ns] \<and>
    distinct ns \<and> fst ` set ns \<subseteq> {th})"
proof -
  obtain trs ix sp where f: "foldThread th (bt th) o0 (sf_sup sf) = ((trs, ix), sp)" by (metis surj_pair)
  note k = foldThread_keys [OF d p f]
  have b: "(Thread (bump_subagents t), Key (bump_subagents t)) = (Thread t, Key t)" for t
    by (simp add: bump_subagents_def)
  have "distinct (map (\<lambda>t. (Thread t, Key t)) trs)"
    using k by (auto simp: distinct_map inj_on_def)
  moreover have "fst ` set (map (\<lambda>t. (Thread t, Key t)) trs) \<subseteq> {th}" using k by auto
  ultimately show ?thesis
    using foldNext_folded [where f = "\<lambda>t. (Thread t, Key t)" and th = th and byThread = bt and sf = sf, OF b ok f]
    by (auto simp: fold_names_def)
qed

lemma foldNext_names_steps:
  "\<forall>th\<in>set ths. th \<noteq> [] \<and> distinct (map addr (bt th)) \<and> (\<forall>r\<in>set (bt th). plain_row r) \<Longrightarrow> main_ok sf \<Longrightarrow>
   distinct ths \<Longrightarrow> distinct (concat (fold_names sf)) \<Longrightarrow> fst ` set (concat (fold_names sf)) \<inter> set ths = {} \<Longrightarrow>
   distinct (concat (fold_names (fold (foldNext bt o0) ths sf)))"
proof (induction ths arbitrary: sf)
  case Nil
  then show ?case by simp
next
  case (Cons th ths)
  let ?sf1 = "foldNext bt o0 th sf"
  obtain ns where m: "main_ok ?sf1" and n: "fold_names ?sf1 = fold_names sf @ [ns]" "distinct ns" "fst ` set ns \<subseteq> {th}"
    using foldNext_names [of bt th sf o0] Cons.prems by auto
  have "fst ` set (concat (fold_names sf)) \<inter> {th} = {}" using Cons.prems(5) by auto
  with n(3) have "set (concat (fold_names sf)) \<inter> set ns = {}" by blast
  then have d: "distinct (concat (fold_names ?sf1))" using n Cons.prems(4) by (simp add: disjoint_iff)
  have "fst ` set (concat (fold_names ?sf1)) \<inter> set ths = {}"
    using n(1,3) Cons.prems(3,5) by fastforce
  from Cons.IH [OF _ m _ d this] Cons.prems show ?case by simp
qed

lemma FoldTurns_names:
  assumes "\<forall>r\<in>set rows. plain_row r"
  shows "distinct (map (\<lambda>t. (Thread t, Key t)) (res_Turns (FoldTurns rows o0)))"
proof -
  let ?rs = "session_rows rows"
  let ?th = "\<lambda>r. CanonicalThread (AgentID r)"
  define bt where "bt = (\<lambda>k. filter (\<lambda>r. ?th r = k) ?rs)"
  define ths where "ths = sort_by (threadLess bt) (remdups (map ?th ?rs))"
  define sf0 where "sf0 = \<lparr>folded = [], main_turns = [], main_index = Map.empty, sf_sup = Map.empty\<rparr>"
  let ?sf = "fold (foldNext bt o0) ths sf0"
  have d: "distinct (map addr (bt k))" for k
    using session_rows_addr [of rows] by (simp add: bt_def distinct_map_filter)
  have "\<forall>r\<in>set ?rs. plain_row r"
  proof
    fix r assume "r \<in> set ?rs"
    then obtain i r0 where r: "(i, r0) \<in> set (zip [0..<length rows] rows)" "r = r0\<lparr>addr := i\<rparr>"
      by (auto simp: session_rows_def enumerate_eq_zip)
    then have "r0 \<in> set rows" by (meson set_zip_rightD)
    with r(2) assms show "plain_row r" by (simp add: plain_row_def)
  qed
  then have p: "\<forall>r\<in>set (bt k). plain_row r" for k by (simp add: bt_def)
  have dt: "distinct ths" by (simp add: ths_def)
  have n0: "fold_names sf0 = []" by (simp add: fold_names_def sf0_def)
  have "distinct (concat (fold_names ?sf))"
  proof (cases "[] \<in> set ths")
    case True
    then obtain ths' where e: "ths = [] # ths'"
      using sort_by_main_first [of "remdups (map ?th ?rs)" bt] by (auto simp: ths_def)
    obtain ns where n: "main_ok (foldNext bt o0 [] sf0)" "fold_names (foldNext bt o0 [] sf0) = [ns]"
        "distinct ns" "fst ` set ns \<subseteq> {[]}"
      using foldNext_names [of bt "[]" sf0 o0] d p n0 by (auto simp: sf0_def)
    have "distinct (concat (fold_names (fold (foldNext bt o0) ths' (foldNext bt o0 [] sf0))))"
      using n dt e d p by (intro foldNext_names_steps) auto
    then show ?thesis by (simp add: e)
  next
    case False
    with d p dt n0 show ?thesis by (intro foldNext_names_steps) (auto simp: main_ok_def sf0_def)
  qed
  moreover have "res_Turns (FoldTurns rows o0) = map Turn.truncate (concat (folded ?sf))"
    by (simp add: FoldTurns_def Let_def session_rows_def [symmetric] bt_def [symmetric] ths_def [symmetric] sf0_def)
  then have "map (\<lambda>t. (Thread t, Key t)) (res_Turns (FoldTurns rows o0)) = concat (fold_names ?sf)"
    by (simp add: fold_names_def map_concat Turn.truncate_def comp_def)
  ultimately show ?thesis by simp
qed

end
