(* ===== verification/FoldTools.thy ===== *)
theory FoldTools
  imports FoldRows
begin

text \<open>
  Electing one copy of each tool event: hooks and transcripts are paired one to one, so what
  is left unsuperseded is as many rows as the larger of the two captures has.
\<close>

abbreviation untaken :: "nat set \<Rightarrow> Row list \<Rightarrow> nat" where
  "untaken tk rs \<equiv> length (filter (\<lambda>r. addr r \<notin> tk) rs)"

abbreviation dropped :: "(nat \<rightharpoonup> Role) \<Rightarrow> Row list \<Rightarrow> nat" where
  "dropped rls rs \<equiv> length (filter (\<lambda>r. rls (addr r) = Some RoleSuperseded) rs)"

lemma filter_congr: "(\<And>x. x \<in> set xs \<Longrightarrow> P x = Q x) \<Longrightarrow> length (filter P xs) = length (filter Q xs)"
  by (metis (mono_tags, lifting) filter_cong)

lemma filter_insert_one:
  "distinct (map addr rs) \<Longrightarrow> r \<in> set rs \<Longrightarrow> addr r \<notin> tk \<Longrightarrow> a \<notin> addr ` set rs \<Longrightarrow>
   Suc (untaken (insert a (insert (addr r) tk)) rs) = untaken tk rs \<and>
   Suc (untaken (insert (addr r) (insert a tk)) rs) = untaken tk rs"
proof (induction rs)
  case Nil
  then show ?case by simp
next
  case (Cons x rs)
  show ?case
  proof (cases "x = r")
    case True
    then have "\<forall>y\<in>set rs. addr y \<noteq> addr r" using Cons.prems(1) by (auto simp: addr_neq)
    then have "untaken (insert a (insert (addr r) tk)) rs = untaken tk rs"
      "untaken (insert (addr r) (insert a tk)) rs = untaken tk rs"
      using Cons.prems(4) by (auto intro!: filter_congr)
    with True Cons.prems show ?thesis by auto
  next
    case False
    then have "addr x \<noteq> addr r" using Cons.prems(1,2) by (auto simp: addr_neq)
    with False Cons show ?thesis by auto
  qed
qed

text \<open>Pairing by id: as many hooks as transcripts are taken, and those transcripts are dropped.\<close>

definition elected_ok :: "Row list \<Rightarrow> Row list \<Rightarrow> nat set \<times> (nat \<rightharpoonup> Role) \<Rightarrow> bool" where
  "elected_ok hs ts tr \<longleftrightarrow>
     (case tr of (tk, rls) \<Rightarrow>
        (\<exists>k. untaken tk hs + k = length hs \<and> untaken tk ts + k = length ts) \<and>
        (\<forall>t\<in>set ts. rls (addr t) = Some RoleSuperseded \<longleftrightarrow> addr t \<in> tk) \<and>
        (\<forall>h\<in>set hs. rls (addr h) \<noteq> Some RoleSuperseded))"

lemma electById_ok:
  assumes d: "distinct (map addr (hs @ ts))"
  shows "elected_ok hs ts (tk, rls) \<Longrightarrow> set xs \<subseteq> set hs \<Longrightarrow> distinct (map addr xs) \<Longrightarrow> \<forall>x\<in>set xs. addr x \<notin> tk \<Longrightarrow>
    elected_ok hs ts (electById ts xs (tk, rls))"
proof (induction xs arbitrary: tk rls)
  case Nil
  then show ?case by simp
next
  case (Cons h xs)
  show ?case
  proof (cases "ToolUseID h = [] \<or> find (\<lambda>t. addr t \<notin> tk \<and> ToolUseID t = ToolUseID h) ts = None")
    case True
    then have "electById ts (h # xs) (tk, rls) = electById ts xs (tk, rls)" by auto
    moreover have "elected_ok hs ts (electById ts xs (tk, rls))"
      using Cons.prems by (intro Cons.IH) simp_all
    ultimately show ?thesis by simp
  next
    case False
    then obtain t where t: "find (\<lambda>t. addr t \<notin> tk \<and> ToolUseID t = ToolUseID h) ts = Some t" by auto
    then have tin: "t \<in> set ts" "addr t \<notin> tk" by (auto simp: find_Some_iff)
    have dis: "addr x \<noteq> addr y" if "x \<in> set hs" "y \<in> set ts" for x y using d that by (auto simp: addr_neq)
    have hin: "h \<in> set hs" "addr h \<notin> tk" using Cons.prems by simp_all
    let ?tk = "insert (addr h) (insert (addr t) tk)" and ?rls = "rls(addr t \<mapsto> RoleSuperseded)"
    have c: "Suc (untaken ?tk hs) = untaken tk hs" "Suc (untaken ?tk ts) = untaken tk ts"
      using filter_insert_one [of hs h tk "addr t"] filter_insert_one [of ts t tk "addr h"] d hin tin dis
      by fastforce+
    obtain k where k: "untaken tk hs + k = length hs" "untaken tk ts + k = length ts"
      using Cons.prems(1) by (auto simp: elected_ok_def)
    with c have "untaken ?tk hs + Suc k = length hs \<and> untaken ?tk ts + Suc k = length ts" by linarith
    moreover have "\<forall>u\<in>set ts. ?rls (addr u) = Some RoleSuperseded \<longleftrightarrow> addr u \<in> ?tk"
    proof
      fix u assume u: "u \<in> set ts"
      then have "addr u \<noteq> addr h" using dis [OF hin(1)] by metis
      with u Cons.prems(1) show "?rls (addr u) = Some RoleSuperseded \<longleftrightarrow> addr u \<in> ?tk" by (auto simp: elected_ok_def)
    qed
    moreover have "\<forall>g\<in>set hs. ?rls (addr g) \<noteq> Some RoleSuperseded"
      using Cons.prems(1) dis [OF _ tin(1)] by (auto simp: elected_ok_def)
    ultimately have e: "elected_ok hs ts (?tk, ?rls)" unfolding elected_ok_def by blast
    have f: "\<forall>x\<in>set xs. addr x \<notin> ?tk"
    proof
      fix x assume x: "x \<in> set xs"
      then have "addr x \<noteq> addr h" using Cons.prems(3) by (auto simp: addr_neq)
      moreover have "addr x \<noteq> addr t" using x Cons.prems(2) dis [OF _ tin(1)] by auto
      ultimately show "addr x \<notin> ?tk" using x Cons.prems(4) by simp
    qed
    have "elected_ok hs ts (electById ts xs (?tk, ?rls))"
      using Cons.prems by (intro Cons.IH e f) simp_all
    with False t show ?thesis by simp
  qed
qed

lemma electByOrder_other: "a \<notin> addr ` set ts \<Longrightarrow> electByOrder hs ts tk rls a = rls a"
proof (induction hs ts tk rls rule: electByOrder.induct)
  case (1 ts tk rls)
  then show ?case by simp
next
  case (2 h hs ts tk rls)
  show ?case
  proof (cases "addr h \<in> tk \<or> dropWhile (\<lambda>t. addr t \<in> tk) ts = []")
    case True
    with 2 show ?thesis by (cases "addr h \<in> tk") (simp_all del: dropWhile_eq_Nil_conv)
  next
    case False
    then obtain t ts' where t: "dropWhile (\<lambda>t. addr t \<in> tk) ts = t # ts'" by (cases "dropWhile (\<lambda>t. addr t \<in> tk) ts") auto
    then have "set (t # ts') \<subseteq> set ts" by (metis set_dropWhileD subsetI)
    with "2.prems" have a: "a \<notin> addr ` set ts'" "a \<noteq> addr t" by auto
    have "electByOrder hs ts' (insert (addr h) (insert (addr t) tk)) (rls(addr t \<mapsto> RoleSuperseded)) a =
        (rls(addr t \<mapsto> RoleSuperseded)) a"
      using "2.IH"(2) [OF _ t] False a(1) by blast
    with a(2) False t show ?thesis by (simp del: fun_upd_apply add: fun_upd_other)
  qed
qed

lemma electByOrder_dropped:
  "distinct (map addr (hs @ ts)) \<Longrightarrow> \<forall>t\<in>set ts. rls (addr t) = Some RoleSuperseded \<longleftrightarrow> addr t \<in> tk \<Longrightarrow>
   dropped (electByOrder hs ts tk rls) ts + untaken tk ts = length ts + min (untaken tk hs) (untaken tk ts)"
proof (induction hs ts tk rls rule: electByOrder.induct)
  case (1 ts tk rls)
  then have "dropped rls ts = length (filter (\<lambda>t. addr t \<in> tk) ts)" by (auto intro: filter_congr)
  then show ?case using sum_length_filter_compl [of "\<lambda>t. addr t \<in> tk" ts] by simp
next
  case (2 h hs ts tk rls)
  show ?case
  proof (cases "addr h \<in> tk")
    case True
    with 2 show ?thesis by simp
  next
    case h: False
    show ?thesis
    proof (cases "dropWhile (\<lambda>t. addr t \<in> tk) ts")
      case Nil
      then have all: "\<forall>t\<in>set ts. addr t \<in> tk" by (simp add: dropWhile_eq_Nil_conv)
      then have "filter (\<lambda>t. rls (addr t) = Some RoleSuperseded) ts = ts" "filter (\<lambda>t. addr t \<notin> tk) ts = []"
        using "2.prems"(2) by (auto simp: filter_id_conv filter_empty_conv)
      with h Nil show ?thesis by (simp del: dropWhile_eq_Nil_conv)
    next
      case (Cons t ts')
      define ws where "ws = takeWhile (\<lambda>t. addr t \<in> tk) ts"
      let ?tk = "insert (addr h) (insert (addr t) tk)" and ?rls = "rls(addr t \<mapsto> RoleSuperseded)"
      let ?m = "electByOrder hs ts' ?tk ?rls"
      have ts: "ts = ws @ t # ts'" using Cons by (metis takeWhile_dropWhile_id ws_def)
      have t: "addr t \<notin> tk" using Cons by (metis hd_dropWhile list.discI list.sel(1))
      have w: "\<forall>x\<in>set ws. addr x \<in> tk" unfolding ws_def by (meson set_takeWhileD)
      have d: "distinct (map addr (h # hs @ ws @ t # ts'))" using "2.prems"(1) ts by simp
      then have n: "\<forall>x\<in>set ts'. addr x \<noteq> addr h \<and> addr x \<noteq> addr t" "\<forall>x\<in>set hs. addr x \<noteq> addr h \<and> addr x \<noteq> addr t"
        by (auto simp: addr_neq)
      have "distinct (map addr (hs @ ts'))" using d by auto
      moreover have "\<forall>x\<in>set ts'. ?rls (addr x) = Some RoleSuperseded \<longleftrightarrow> addr x \<in> ?tk"
        using n(1) "2.prems"(2) by (simp add: ts)
      ultimately have IH: "dropped ?m ts' + untaken ?tk ts' = length ts' + min (untaken ?tk hs) (untaken ?tk ts')"
        using "2.IH"(2) [OF h Cons] by blast
      have u: "untaken ?tk ts' = untaken tk ts'" "untaken ?tk hs = untaken tk hs" using n by (auto intro!: filter_congr)
      have o: "?m (addr x) = ?rls (addr x)" if "x \<in> set ws \<or> x = t" for x
        using d that by (intro electByOrder_other) auto
      have "filter (\<lambda>r. ?m (addr r) = Some RoleSuperseded) ws = ws"
        using o w "2.prems"(2) by (simp add: filter_id_conv ts)
      moreover have "?m (addr t) = Some RoleSuperseded" using o by simp
      ultimately have dm: "dropped ?m ts = length ws + Suc (dropped ?m ts')" by (simp add: ts)
      have "untaken tk ws = 0" using w by (simp add: filter_empty_conv)
      with t have ut: "untaken tk ts = Suc (untaken tk ts')" by (simp add: ts)
      have "electByOrder (h # hs) ts tk rls = ?m" using h Cons by simp
      moreover have "untaken tk (h # hs) = Suc (untaken tk hs)" using h by simp
      moreover have "length ts = length ws + Suc (length ts')" by (simp add: ts)
      ultimately show ?thesis using IH dm ut unfolding u by (simp only: min_Suc_Suc)
    qed
  qed
qed

text \<open>Both passes: what stays is the larger capture.\<close>

lemma electTools_kept:
  assumes d: "distinct (map addr rs)" and f: "\<forall>r\<in>set rs. rls (addr r) \<noteq> Some RoleSuperseded"
    and e: "electTools rs ty rls = (rls', n)"
  shows "length (filter (\<lambda>r. rls' (addr r) \<noteq> Some RoleSuperseded) rs) =
    max (length (filter (\<lambda>r. row_Origin r = OriginHook) rs)) (length (filter (\<lambda>r. row_Origin r \<noteq> OriginHook) rs))"
proof -
  let ?hs = "filter (\<lambda>r. row_Origin r = OriginHook) rs" and ?ts = "filter (\<lambda>r. row_Origin r \<noteq> OriginHook) rs"
  obtain tk rls1 where i: "electById ?ts ?hs ({}, rls) = (tk, rls1)" by (meson surj_pair)
  have r: "rls' = electByOrder ?hs ?ts tk rls1" using e i by (simp add: electTools_def Let_def)
  have d': "distinct (map addr (?hs @ ?ts))" using d by (auto simp: distinct_map inj_on_def)
  have "elected_ok ?hs ?ts ({}, rls)" using f by (auto simp: elected_ok_def)
  with electById_ok [OF d' this, of ?hs] d i have "elected_ok ?hs ?ts (tk, rls1)" by (simp add: distinct_map_filter)
  then obtain k where k: "untaken tk ?hs + k = length ?hs" "untaken tk ?ts + k = length ?ts"
    and t: "\<forall>t\<in>set ?ts. rls1 (addr t) = Some RoleSuperseded \<longleftrightarrow> addr t \<in> tk"
    and h: "\<forall>h\<in>set ?hs. rls1 (addr h) \<noteq> Some RoleSuperseded"
    unfolding elected_ok_def by blast
  have "addr h \<notin> addr ` set ?ts" if "h \<in> set ?hs" for h using d' that by auto
  then have "\<forall>h\<in>set ?hs. rls' (addr h) \<noteq> Some RoleSuperseded" using h r electByOrder_other by simp
  then have "filter (\<lambda>r. rls' (addr r) \<noteq> Some RoleSuperseded) ?hs = ?hs" by (rule filter_True)
  then have kh: "length (filter (\<lambda>r. rls' (addr r) \<noteq> Some RoleSuperseded) ?hs) = length ?hs" by (rule arg_cong)
  have "dropped rls' ?ts + untaken tk ?ts = length ?ts + min (untaken tk ?hs) (untaken tk ?ts)"
    unfolding r by (rule electByOrder_dropped [OF d' t])
  moreover have "dropped rls' ?ts + length (filter (\<lambda>r. rls' (addr r) \<noteq> Some RoleSuperseded) ?ts) = length ?ts"
    using sum_length_filter_compl [of "\<lambda>r. rls' (addr r) = Some RoleSuperseded" ?ts] by simp
  ultimately have kt: "length (filter (\<lambda>r. rls' (addr r) \<noteq> Some RoleSuperseded) ?ts) = length ?ts - min (length ?hs) (length ?ts)"
    using k by linarith
  have "length (filter P rs) = length (filter P ?hs) + length (filter P ?ts)" for P
    by (induction rs) auto
  from this [of "\<lambda>r. rls' (addr r) \<noteq> Some RoleSuperseded"] show ?thesis unfolding kh kt by linarith
qed

end
