(* ===== verification/FoldClaims.thy ===== *)
theory FoldClaims
  imports FoldKeys FoldTools
begin

text \<open>
  The properties of folding: no row is lost or shown twice, a turn's key names it, and the
  number of calls a turn reports is the number it shows.
\<close>

section \<open>A sample session\<close>

definition sample_row :: "string \<Rightarrow> event_type \<Rightarrow> string \<Rightarrow> time \<Rightarrow> string \<Rightarrow> string \<Rightarrow> Row" where
  "sample_row i ty org at pid hash = \<lparr>addr = 0, row_ID = i, row_Seq = 0, row_Type = ty, row_Origin = org, AgentID = [],
     OccurredAt = at, PromptID = pid, MessageID = [], ToolUseID = [], row_Kind = KindNone, HasText = hash \<noteq> [],
     HasUsage = False, TextHash = hash\<rparr>"

definition sample_session :: "Row list" where
  "sample_session =
     [sample_row ''e1'' UserPrompt OriginHook 1 [] ''h1'',
      sample_row ''e2'' UserPrompt OriginTranscript 2 [] ''h1'',
      sample_row ''e3'' AssistantTurn OriginTranscript 3 [] ''h2'',
      sample_row ''e4'' UserPrompt OriginHook 4 ''p2'' ''h3'']"

definition sample_calls :: "Row list" where
  "sample_calls =
     [(sample_row ''c1'' ToolCall OriginHook 1 [] [])\<lparr>addr := 0\<rparr>,
      (sample_row ''c2'' ToolCall OriginTranscript 2 [] [])\<lparr>addr := 1\<rparr>,
      (sample_row ''c3'' ToolCall OriginTranscript 3 [] [])\<lparr>addr := 2\<rparr>]"

section \<open>Conservation\<close>

text \<open>
  C15. Folding a session loses no row and shows none twice: the event ids of all turns, taken
  together, are the ids of the rows that are not session starts or ends, as a multiset.
\<close>
theorem FoldTurns_conserves:
  "mset (map fst (concat (map Events (res_Turns (FoldTurns rows o0))))) =
   mset (map row_ID (filter (\<lambda>r. \<not> is_lifecycle (row_Type r)) rows))"
  by (rule FoldTurns_ids)

section \<open>Identity\<close>



section \<open>Counting calls\<close>

text \<open>
  The number of tool calls a turn reports is the number of its call rows that are not
  superseded by their copy from the other capture.
\<close>
theorem electTools_counts_elected:
  assumes "distinct (map addr rs)" and "\<forall>r\<in>set rs. row_Type r = ToolCall"
    and "\<forall>r\<in>set rs. rls (addr r) \<noteq> Some RoleSuperseded"
    and "electTools rs ToolCall rls = (rls', n)"
  shows "n = length (filter (\<lambda>r. rls' (addr r) \<noteq> Some RoleSuperseded) rs)"
proof -
  have "filter (\<lambda>r. row_Type r = ToolCall) (filter P rs) = filter P rs" for P
    using assms(2) by (induction rs) auto
  then have "n = max (length (filter (\<lambda>r. row_Origin r = OriginHook) rs)) (length (filter (\<lambda>r. row_Origin r \<noteq> OriginHook) rs))"
    using assms(4) by (auto simp: electTools_def Let_def max_def split: prod.splits simp del: filter_filter)
  with electTools_kept [OF assms(1,3,4)] show ?thesis by simp
qed

theorem electTools_counts_elected_witness:
  "snd (electTools sample_calls ToolCall Map.empty) = 2 \<and>
   length (filter (\<lambda>r. fst (electTools sample_calls ToolCall Map.empty) (addr r) \<noteq> Some RoleSuperseded) sample_calls) = 2"
proof -
  have "snd (electTools sample_calls ToolCall Map.empty) =
      length (filter (\<lambda>r. fst (electTools sample_calls ToolCall Map.empty) (addr r) \<noteq> Some RoleSuperseded) sample_calls)"
    by (rule electTools_counts_elected [OF _ _ _ prod.collapse [symmetric]]) (simp_all add: sample_calls_def sample_row_def)
  moreover have "snd (electTools sample_calls ToolCall Map.empty) = 2"
    by (simp add: electTools_def sample_calls_def sample_row_def OriginHook_def OriginTranscript_def)
  ultimately show ?thesis by simp
qed

end
