(* ===== verification/Derived.thy ===== *)
theory Derived
  imports Rollup FoldKeys FoldProps
begin

text \<open>
  The per-session derivation (\<open>server/store/turns.go\<close>): what one session's events come to. The fold
  itself is \<open>FoldTurns\<close>; here are the rows it reads, the rows written from its result, and the
  counters, the class and the title computed from those. Every function works inside a transaction
  of its caller, so an error leaves the caller to roll back.
\<close>

section \<open>Tables\<close>

record turnUsage =
  u_input :: int
  u_output :: int
  u_read :: int
  u_write :: int
  u_micros :: int

text \<open>
  A row of \<open>turns\<close> (migration 0018): the derived columns as the fold returns them, an empty id for
  NULL; the priced columns; and the columns the later statements fill in.
\<close>

record turn_row =
  tr_session :: string
  tr_turn :: Turn
  tr_usage :: turnUsage
  tr_inherited :: bool
  tr_model :: string
  tr_version :: int
  tr_at :: time

record turn_event_row =
  te_session :: string
  te_thread :: string
  te_index :: nat
  te_event :: string
  te_role :: Role

record health_row =
  h_email :: string
  h_device :: string
  h_hour :: time
  h_drops :: int

text \<open>
  The tables a derivation touches. \<open>w_sup\<close> is the column \<open>events.superseded_by\<close> by event id;
  \<open>w_health\<close> is the table \<open>health_hourly\<close>, when there is one.
\<close>

record work_db =
  w_db :: db
  w_turns :: "turn_row list"
  w_events :: "turn_event_row list"
  w_sup :: "string \<rightharpoonup> string"
  w_health :: "health_row list option"

section \<open>Statements\<close>

datatype derive_stmt =
    DBegin | DTimeout | DLock | DFacts | DLedger | DRows | DClear | DTurns | DTurnEvents | DUnmark | DMark
  | DModels | DInherit | DRollup | DContent | DHead | DHookHead | DLoss | DOpening | DFirst | DLineage
  | DClass | DTitle | DUnclassified | DKinds | DRowLock | DClean | DCommit

datatype derive_error = DNotFound | DBusy | DSql derive_stmt string

type_synonym 'a derived = "derive_error + 'a \<times> work_db"

text \<open>
  \<open>dv_fail\<close> gives the code of the statements the server fails; \<open>dv_now\<close> is the transaction's
  \<open>now()\<close>, \<open>dv_clock\<close> the runner's clock; \<open>dv_hash\<close> is the first eight hex digits of the SHA-256 of a
  text; \<open>dv_collate\<close> the sort key of the database's collation; \<open>dv_hour\<close> is \<open>date_trunc('hour')\<close>.
\<close>

record derive_env =
  dv_fail :: "derive_stmt \<Rightarrow> string option"
  dv_now :: time
  dv_clock :: time
  dv_hash :: "string \<Rightarrow> string"
  dv_collate :: "string \<Rightarrow> string"
  dv_hour :: "time \<Rightarrow> time"

definition bindD :: "'a derived \<Rightarrow> ('a \<Rightarrow> work_db \<Rightarrow> 'b derived) \<Rightarrow> 'b derived" where
  "bindD x f = (case x of Inl err \<Rightarrow> Inl err | Inr (a, w) \<Rightarrow> f a w)"

definition runs :: "derive_env \<Rightarrow> derive_stmt \<Rightarrow> 'a \<times> work_db \<Rightarrow> 'a derived" where
  "runs e st r = (case dv_fail e st of None \<Rightarrow> Inr r | Some code \<Rightarrow> Inl (DSql st code))"

lemma bindD_simps [simp]: "bindD (Inl err) f = Inl err" "bindD (Inr (a, w)) f = f a w"
  by (simp_all add: bindD_def)

lemma bindD_Inr: "bindD x f = Inr r \<longleftrightarrow> (\<exists>a w. x = Inr (a, w) \<and> f a w = Inr r)"
  by (auto simp: bindD_def split: sum.splits)

lemma runs_Inr [simp]: "runs e st r = Inr r' \<longleftrightarrow> dv_fail e st = None \<and> r' = r"
  by (auto simp: runs_def split: option.splits)

lemma runs_ok: "dv_fail e st = None \<Longrightarrow> runs e st r = Inr r"
  by (simp add: runs_def)

definition set_row :: "string \<Rightarrow> (session_row \<Rightarrow> session_row) \<Rightarrow> work_db \<Rightarrow> work_db" where
  "set_row sid f w = w\<lparr>w_db := update_sessions sid f (w_db w)\<rparr>"

text \<open>The facts a step reads are the session's row.\<close>

definition readSessionFacts :: "derive_env \<Rightarrow> string \<Rightarrow> work_db \<Rightarrow> session_row derived" where
  "readSessionFacts e sid w =
     (case dv_fail e DFacts of
        Some code \<Rightarrow> Inl (DSql DFacts code)
      | None \<Rightarrow> (case find_session (w_db w) sid of None \<Rightarrow> Inl DNotFound | Some s \<Rightarrow> Inr (s, w)))"

section \<open>What the fold reads\<close>

text \<open>A row of the usage ledger, the cost in millionths of a dollar.\<close>

definition ledgerRow :: "ledger_row \<Rightarrow> turnUsage" where
  "ledgerRow l = \<lparr>u_input = lr_input l, u_output = lr_output l, u_read = lr_read l, u_write = lr_5m l + lr_1h l,
     u_micros = \<lfloor>round6 (lr_cost l) * 1000000\<rfloor>\<rparr>"

definition credited :: "db \<Rightarrow> string \<Rightarrow> string \<Rightarrow> turnUsage option" where
  "credited d sid i =
     map_option ledgerRow (find (\<lambda>l. lr_session l = sid \<and> lr_event l = i) (rev (t_ledger d)))"

definition message_for :: "db \<Rightarrow> string \<Rightarrow> message_row option" where
  "message_for d i = find (\<lambda>m. mr_event m = i) (t_messages d)"

definition projection_row :: "derive_env \<Rightarrow> db \<Rightarrow> string \<Rightarrow> event_row \<Rightarrow> Row" where
  "projection_row e d sid x =
     (let m = message_for d (er_id x)
      in \<lparr>addr = 0, row_ID = er_id x, row_Seq = er_seq x, row_Type = er_type x, row_Origin = er_origin x,
          AgentID = er_agent x, OccurredAt = er_occurred x, PromptID = er_prompt x, MessageID = er_message x,
          ToolUseID = er_tooluse x,
          row_Kind = (case m of Some y \<Rightarrow> mr_kind y | None \<Rightarrow> KindNone),
          HasText = (m \<noteq> None),
          HasUsage = (credited d sid (er_id x) \<noteq> None \<or> er_message x \<noteq> []),
          TextHash = (case m of Some y \<Rightarrow> if mr_role y \<in> {''user'', ''assistant''} then dv_hash e (mr_text y) else []
                      | None \<Rightarrow> [])\<rparr>)"

definition row_before :: "derive_env \<Rightarrow> event_row \<Rightarrow> event_row \<Rightarrow> bool" where
  "row_before e a b \<longleftrightarrow>
     (if dv_collate e (er_agent a) \<noteq> dv_collate e (er_agent b) then dv_collate e (er_agent a) < dv_collate e (er_agent b)
      else if er_occurred a \<noteq> er_occurred b then er_occurred a < er_occurred b
      else er_seq a < er_seq b)"

definition projection :: "derive_env \<Rightarrow> db \<Rightarrow> string \<Rightarrow> Row list" where
  "projection e d sid =
     map (projection_row e d sid) (sort_by (row_before e) (filter (\<lambda>x. er_session x = sid) (t_events d)))"

definition readProjection :: "derive_env \<Rightarrow> string \<Rightarrow> work_db \<Rightarrow> (Row list \<times> (string \<Rightarrow> turnUsage option)) derived" where
  "readProjection e sid w =
     bindD (runs e DLedger (credited (w_db w) sid, w)) (\<lambda>ledger w1.
       runs e DRows ((projection e (w_db w1) sid, ledger), w1))"

section \<open>What it writes\<close>

definition no_usage :: turnUsage where
  "no_usage = \<lparr>u_input = 0, u_output = 0, u_read = 0, u_write = 0, u_micros = 0\<rparr>"

definition add_usage :: "turnUsage \<Rightarrow> turnUsage \<Rightarrow> turnUsage" where
  "add_usage a b = \<lparr>u_input = u_input a + u_input b, u_output = u_output a + u_output b, u_read = u_read a + u_read b,
     u_write = u_write a + u_write b, u_micros = u_micros a + u_micros b\<rparr>"

definition price_turn :: "(string \<Rightarrow> turnUsage option) \<Rightarrow> Turn \<Rightarrow> turnUsage" where
  "price_turn ledger t =
     fold (\<lambda>ev u. case ledger (fst ev) of None \<Rightarrow> u | Some x \<Rightarrow> add_usage u x) (Events t) no_usage"

definition priceTurns :: "Turn list \<Rightarrow> (string \<Rightarrow> turnUsage option) \<Rightarrow> turnUsage list" where
  "priceTurns ts ledger = map (price_turn ledger) ts"

definition new_turn_row :: "derive_env \<Rightarrow> string \<Rightarrow> int \<Rightarrow> Turn \<times> turnUsage \<Rightarrow> turn_row" where
  "new_turn_row e sid version tu =
     \<lparr>tr_session = sid, tr_turn = fst tu, tr_usage = snd tu, tr_inherited = False, tr_model = [],
      tr_version = version, tr_at = dv_now e\<rparr>"

definition turn_event_rows :: "string \<Rightarrow> Turn \<Rightarrow> turn_event_row list" where
  "turn_event_rows sid t =
     map (\<lambda>ev. \<lparr>te_session = sid, te_thread = Thread t, te_index = t_Index t, te_event = fst ev, te_role = snd ev\<rparr>) (Events t)"

definition turn_pos :: "turn_row \<Rightarrow> string \<times> string \<times> nat" where
  "turn_pos r = (tr_session r, Thread (tr_turn r), t_Index (tr_turn r))"

definition turn_name :: "turn_row \<Rightarrow> string \<times> string \<times> string" where
  "turn_name r = (tr_session r, Thread (tr_turn r), Key (tr_turn r))"

text \<open>The table's two keys, the check on the outcome, and the range of its \<open>NUMERIC(12,6)\<close> cost.\<close>

definition turns_fit :: "turn_row list \<Rightarrow> bool" where
  "turns_fit rows \<longleftrightarrow> distinct (map turn_pos rows) \<and> distinct (map turn_name rows) \<and>
     (\<forall>r\<in>set rows. t_Outcome (tr_turn r) \<noteq> OutcomeUnset \<and> \<bar>u_micros (tr_usage r)\<bar> < 10 ^ 12)"

definition te_key :: "turn_event_row \<Rightarrow> string \<times> string \<times> nat \<times> string" where
  "te_key r = (te_session r, te_thread r, te_index r, te_event r)"

definition put_turn_event :: "turn_event_row \<Rightarrow> turn_event_row list \<Rightarrow> turn_event_row list" where
  "put_turn_event r t = (if te_key r \<in> te_key ` set t then t else t @ [r])"

definition unique_violation :: string where "unique_violation = ''23505''"
definition check_violation :: string where "check_violation = ''23514''"
definition numeric_overflow :: string where "numeric_overflow = ''22003''"

definition turns_refusal :: "turn_row list \<Rightarrow> string" where
  "turns_refusal rows =
     (if list_ex (\<lambda>r. 10 ^ 12 \<le> \<bar>u_micros (tr_usage r)\<bar>) rows then numeric_overflow
      else if list_ex (\<lambda>r. t_Outcome (tr_turn r) = OutcomeUnset) rows then check_violation
      else unique_violation)"

definition insertTurns :: "derive_env \<Rightarrow> string \<Rightarrow> int \<Rightarrow> Turn list \<Rightarrow> turnUsage list \<Rightarrow> work_db \<Rightarrow> unit derived" where
  "insertTurns e sid version ts us w =
     (let rows = w_turns w @ map (new_turn_row e sid version) (zip ts us);
          evs = concat (map (turn_event_rows sid) ts)
      in if \<not> turns_fit rows then Inl (DSql DTurns (turns_refusal rows))
         else bindD (runs e DTurns ((), w\<lparr>w_turns := rows\<rparr>)) (\<lambda>_ w1.
           if evs = [] then Inr ((), w1)
           else runs e DTurnEvents ((), w1\<lparr>w_events := fold put_turn_event evs (w_events w1)\<rparr>)))"

definition hook_row :: "db \<Rightarrow> string \<Rightarrow> string \<Rightarrow> bool" where
  "hook_row d sid i \<longleftrightarrow> list_ex (\<lambda>x. er_id x = i \<and> er_session x = sid \<and> er_origin x = OriginHook) (t_events d)"

text \<open>The marks name rows the fold read, so the list of ids is empty when no stored event is marked.\<close>

definition markSuperseded :: "derive_env \<Rightarrow> string \<Rightarrow> (string \<rightharpoonup> string) \<Rightarrow> work_db \<Rightarrow> unit derived" where
  "markSuperseded e sid superseded w =
     bindD (runs e DUnmark ((), w\<lparr>w_sup := (\<lambda>i. if hook_row (w_db w) sid i \<and> superseded i = None then None else w_sup w i)\<rparr>))
       (\<lambda>_ w1.
         if list_all (\<lambda>x. superseded (er_id x) = None) (t_events (w_db w1)) then Inr ((), w1)
         else runs e DMark ((), w1\<lparr>w_sup := (\<lambda>i. if hook_row (w_db w1) sid i \<and> superseded i \<noteq> None then superseded i
                                            else w_sup w1 i)\<rparr>))"

section \<open>Folding a session\<close>

definition event_by_id :: "db \<Rightarrow> string \<Rightarrow> event_row option" where
  "event_by_id d i = find (\<lambda>x. er_id x = i) (t_events d)"

definition on_turns :: "string \<Rightarrow> (turn_row \<Rightarrow> turn_row) \<Rightarrow> work_db \<Rightarrow> work_db" where
  "on_turns sid f w = w\<lparr>w_turns := map (\<lambda>r. if tr_session r = sid then f r else r) (w_turns w)\<rparr>"

definition model_row :: "db \<Rightarrow> turn_row \<Rightarrow> turn_row" where
  "model_row d r =
     (case (if FinalEventID (tr_turn r) = [] then None else event_by_id d (FinalEventID (tr_turn r))) of
        None \<Rightarrow> r | Some x \<Rightarrow> r\<lparr>tr_model := er_model x\<rparr>)"

text \<open>A turn is inherited when the record of its prompt is also in the parent's session.\<close>

definition inherit_row :: "db \<Rightarrow> string \<Rightarrow> turn_row \<Rightarrow> turn_row" where
  "inherit_row d parent r =
     (case (if PromptEventID (tr_turn r) = [] then None else event_by_id d (PromptEventID (tr_turn r))) of
        None \<Rightarrow> r
      | Some c \<Rightarrow>
          if er_record c \<noteq> [] \<and> list_ex (\<lambda>p. er_session p = parent \<and> er_record p = er_record c) (t_events d)
          then r\<lparr>tr_inherited := True\<rparr> else r)"

definition clear_turns :: "string \<Rightarrow> work_db \<Rightarrow> work_db" where
  "clear_turns sid w = w\<lparr>w_turns := filter (\<lambda>r. tr_session r \<noteq> sid) (w_turns w),
                         w_events := filter (\<lambda>r. te_session r \<noteq> sid) (w_events w)\<rparr>"

definition foldSession :: "derive_env \<Rightarrow> int \<Rightarrow> string \<Rightarrow> work_db \<Rightarrow> int derived" where
  "foldSession e version sid w =
     bindD (readSessionFacts e sid w) (\<lambda>facts w1.
     bindD (readProjection e sid w1) (\<lambda>(rows, ledger) w2.
       (let res = FoldTurns rows \<lparr>optSessionEnded = sr_ended facts\<rparr>
        in bindD (runs e DClear ((), clear_turns sid w2)) (\<lambda>_ w3.
           bindD (if res_Turns res = [] then Inr ((), w3)
                  else insertTurns e sid version (res_Turns res) (priceTurns (res_Turns res) ledger) w3) (\<lambda>_ w4.
           bindD (markSuperseded e sid (Superseded res) w4) (\<lambda>_ w5.
           bindD (runs e DModels ((), on_turns sid (model_row (w_db w5)) w5)) (\<lambda>_ w6.
           bindD (if sr_parent facts \<noteq> [] \<and> sr_lineage facts \<noteq> []
                  then runs e DInherit ((), on_turns sid (inherit_row (w_db w6) (sr_parent facts)) w6)
                  else Inr ((), w6)) (\<lambda>_ w7.
           Inr (int (length (res_Turns res)), w7)))))))))"

section \<open>The counters\<close>

definition contentEventTypes :: "event_type list" where
  "contentEventTypes = [UserPrompt, ToolCall, ToolResult, ToolFailed, FileChanged, AssistantTurn, SubagentStart, SubagentEnd]"

record counters =
  n_prompts :: int
  n_human :: int
  n_tools :: int
  n_errors :: int
  n_subagents :: int
  n_content :: int

definition session_turns :: "work_db \<Rightarrow> string \<Rightarrow> turn_row list" where
  "session_turns w sid = filter (\<lambda>r. tr_session r = sid) (w_turns w)"

definition content_rows :: "work_db \<Rightarrow> string \<Rightarrow> turn_event_row list" where
  "content_rows w sid =
     filter (\<lambda>r. te_session r = sid \<and> te_role r \<noteq> RoleSuperseded \<and>
               (case event_by_id (w_db w) (te_event r) of None \<Rightarrow> False | Some x \<Rightarrow> er_type x \<in> set contentEventTypes))
       (w_events w)"

definition counters_of :: "work_db \<Rightarrow> string \<Rightarrow> counters" where
  "counters_of w sid =
     (let ts = map tr_turn (session_turns w sid)
      in \<lparr>n_prompts = int (sum_list (map Prompts ts)),
          n_human = int (length (filter (\<lambda>t. Thread t = [] \<and> IsHumanKind (t_Kind t)) ts)),
          n_tools = int (sum_list (map ToolCalls ts)), n_errors = int (sum_list (map Errors ts)),
          n_subagents = int (sum_list (map Subagents ts)), n_content = int (length (content_rows w sid))\<rparr>)"

definition row_counters :: "session_row \<Rightarrow> counters" where
  "row_counters s = \<lparr>n_prompts = sr_user_turns s, n_human = sr_human_turns s, n_tools = sr_tool_calls s,
     n_errors = sr_errors s, n_subagents = sr_subagents s, n_content = sr_content s\<rparr>"

definition count_row :: "derive_env \<Rightarrow> counters \<Rightarrow> session_row \<Rightarrow> session_row" where
  "count_row e x s =
     (if row_counters s = x then s
      else s\<lparr>sr_user_turns := n_prompts x, sr_human_turns := n_human x, sr_tool_calls := n_tools x,
             sr_errors := n_errors x, sr_subagents := n_subagents x, sr_content := n_content x,
             sr_updated := dv_now e\<rparr>)"

definition rollupFromTurns :: "derive_env \<Rightarrow> string \<Rightarrow> work_db \<Rightarrow> unit derived" where
  "rollupFromTurns e sid w = runs e DRollup ((), set_row sid (count_row e (counters_of w sid)) w)"

end
