(* ===== verification/Classify.thy ===== *)
theory Classify
  imports Derived
begin

text \<open>
  What a session is (\<open>server/store/turns.go\<close>, \<open>server/store/runner.go\<close>): the class, the head state and
  the lineage that need more than one row, the title recomputed from the messages, and the kinds
  of the messages stored without one.
\<close>

section \<open>The class of a session\<close>

definition emptyGrace :: duration where "emptyGrace = 24 * hour"

definition hasContent :: "db \<Rightarrow> string \<Rightarrow> bool" where
  "hasContent d sid \<longleftrightarrow> list_ex (\<lambda>x. er_session x = sid \<and> er_type x \<in> set contentEventTypes) (t_events d)"

record verdict =
  v_type :: string
  v_empty :: string
  v_head :: string
  v_content :: int
  v_parent :: string
  v_lineage :: string

definition stored_verdict :: "session_row \<Rightarrow> verdict" where
  "stored_verdict s = \<lparr>v_type = sr_type s, v_empty = sr_empty_kind s, v_head = sr_head_state s, v_content = sr_content s,
     v_parent = sr_parent s, v_lineage = sr_lineage s\<rparr>"

text \<open>The empty rule: promoted by content, demoted past the grace when nothing ever came.\<close>

definition past_grace :: "derive_env \<Rightarrow> session_row \<Rightarrow> bool" where
  "past_grace e f \<longleftrightarrow> sr_ended f \<or> emptyGrace \<le> Sub (dv_clock e) (sr_started f)"

definition empty_rule :: "derive_env \<Rightarrow> session_row \<Rightarrow> bool \<Rightarrow> verdict \<Rightarrow> verdict" where
  "empty_rule e f spoke v =
     (let v1 =
        (if spoke \<and> v_type v = ''empty'' then v\<lparr>v_type := ''user'', v_empty := []\<rparr>
         else if \<not> spoke \<and> (v_type v = ''user'' \<or> v_type v = ''empty'') \<and> past_grace e f
         then v\<lparr>v_type := ''empty'', v_content := 0,
                v_empty := (if v_empty v = [] then (if sr_ended f then ''aborted'' else ''tail_truncated'') else v_empty v)\<rparr>
         else v)
      in if v_type v1 \<noteq> ''empty'' then v1\<lparr>v_empty := []\<rparr> else v1)"

text \<open>The head: the lowest number of the transcript's main thread, else the type of the first row.\<close>

definition transcript_head :: "db \<Rightarrow> string \<Rightarrow> int option" where
  "transcript_head d sid =
     (case map er_seq (filter (\<lambda>x. er_session x = sid \<and> er_origin x = OriginTranscript \<and> er_agent x = []) (t_events d)) of
        [] \<Rightarrow> None | n # ns \<Rightarrow> Some (foldl min n ns))"

definition first_row :: "db \<Rightarrow> string \<Rightarrow> event_row option" where
  "first_row d sid =
     (case sort_by (\<lambda>a b. er_occurred a < er_occurred b \<or> er_occurred a = er_occurred b \<and> er_seq a < er_seq b)
        (filter (\<lambda>x. er_session x = sid \<and> er_agent x = []) (t_events d)) of
        [] \<Rightarrow> None | x # _ \<Rightarrow> Some x)"

definition head_rule :: "derive_env \<Rightarrow> string \<Rightarrow> verdict \<Rightarrow> work_db \<Rightarrow> verdict derived" where
  "head_rule e sid v w =
     bindD (runs e DHead (transcript_head (w_db w) sid, w)) (\<lambda>t w1.
       case t of
         Some n \<Rightarrow> Inr (v\<lparr>v_head := (if 0 < n then ''truncated_window'' else ''complete'')\<rparr>, w1)
       | None \<Rightarrow>
           bindD (runs e DHookHead (first_row (w_db w1) sid, w1)) (\<lambda>r w2.
             Inr (v\<lparr>v_head := (case r of None \<Rightarrow> ''complete''
                     | Some x \<Rightarrow> if er_type x = SessionStarted \<or> er_type x = UserPrompt then ''complete'' else ''start_lost'')\<rparr>, w2)))"

definition capture_lost :: "derive_env \<Rightarrow> session_row \<Rightarrow> health_row list \<Rightarrow> bool" where
  "capture_lost e f hs \<longleftrightarrow>
     list_ex (\<lambda>h. h_email h = sr_email f \<and> h_device h = sr_device f \<and> 0 < h_drops h \<and>
                  dv_hour e (sr_started f - 5 * minute) \<le> h_hour h \<and>
                  h_hour h \<le> (case sr_ended_at f of Some t \<Rightarrow> t | None \<Rightarrow> dv_now e) + 5 * minute) hs"

definition loss_rule :: "derive_env \<Rightarrow> session_row \<Rightarrow> bool \<Rightarrow> verdict \<Rightarrow> work_db \<Rightarrow> verdict derived" where
  "loss_rule e f healthHourly v w =
     (if \<not> healthHourly then Inr (v, w)
      else bindD (runs e DLoss (capture_lost e f (case w_health w of Some hs \<Rightarrow> hs | None \<Rightarrow> []), w)) (\<lambda>lost w1.
        Inr (if lost then v\<lparr>v_head := ''capture_loss''\<rparr> else v, w1)))"

text \<open>The opening prompt: the first of a person, else the first of the main thread.\<close>

definition human_prompt :: "db \<Rightarrow> string \<Rightarrow> string option" where
  "human_prompt d sid = map_option mr_text (first_user_row d sid IsHumanKind)"

definition any_prompt :: "db \<Rightarrow> string \<Rightarrow> string option" where
  "any_prompt d sid = map_option mr_text (first_user_row d sid (\<lambda>k. True))"

definition internal_rule :: "derive_env \<Rightarrow> string \<Rightarrow> verdict \<Rightarrow> work_db \<Rightarrow> verdict derived" where
  "internal_rule e sid v w =
     (if v_type v = ''automation'' \<or> v_type v = ''empty'' then Inr (v, w)
      else bindD (runs e DOpening (human_prompt (w_db w) sid, w)) (\<lambda>h w1.
           bindD (if h \<noteq> None then Inr (h, w1) else runs e DFirst (any_prompt (w_db w1) sid, w1)) (\<lambda>opening w2.
             (let internal = (case opening of None \<Rightarrow> False | Some t \<Rightarrow> IsInternalTemplate t \<noteq> None)
              in Inr (if internal \<and> v_type v = ''user'' then v\<lparr>v_type := ''internal''\<rparr>
                      else if \<not> internal \<and> v_type v = ''internal'' then v\<lparr>v_type := ''user''\<rparr>
                      else v, w2)))))"

text \<open>The earlier sessions of the same person that hold the record a compaction marker names.\<close>

definition lineageOwners :: "db \<Rightarrow> session_row \<Rightarrow> string list" where
  "lineageOwners d f =
     take 2 (remdups (map er_session (filter (\<lambda>x. er_record x = sr_parent_record f \<and>
       list_ex (\<lambda>p. sr_id p = er_session x \<and> sr_email p = sr_email f \<and> sr_id p \<noteq> sr_id f \<and> sr_started p \<le> sr_started f)
         (t_sessions d)) (t_events d))))"

definition lineage_rule :: "derive_env \<Rightarrow> session_row \<Rightarrow> verdict \<Rightarrow> work_db \<Rightarrow> verdict derived" where
  "lineage_rule e f v w =
     (if sr_parent f = [] \<and> sr_lineage f = [] \<and> sr_parent_record f \<noteq> []
      then bindD (runs e DLineage (lineageOwners (w_db w) f, w)) (\<lambda>owners w1.
        Inr (case owners of [p] \<Rightarrow> v\<lparr>v_parent := p, v_lineage := ''record_uuid''\<rparr> | _ \<Rightarrow> v, w1))
      else Inr (v, w))"

definition set_verdict :: "derive_env \<Rightarrow> verdict \<Rightarrow> session_row \<Rightarrow> session_row" where
  "set_verdict e v s = s\<lparr>sr_type := v_type v, sr_empty_kind := v_empty v, sr_head_state := v_head v,
     sr_content := v_content v, sr_parent := v_parent v, sr_lineage := v_lineage v, sr_updated := dv_now e\<rparr>"

definition classifySession :: "derive_env \<Rightarrow> bool \<Rightarrow> string \<Rightarrow> work_db \<Rightarrow> bool derived" where
  "classifySession e healthHourly sid w =
     bindD (readSessionFacts e sid w) (\<lambda>f w1.
     bindD (runs e DContent (hasContent (w_db w1) sid, w1)) (\<lambda>spoke w2.
       (let v0 = empty_rule e f spoke (stored_verdict f)
        in bindD (if spoke then head_rule e sid v0 w2 else Inr (v0, w2)) (\<lambda>v1 w3.
           bindD (loss_rule e f healthHourly v1 w3) (\<lambda>v2 w4.
           bindD (internal_rule e sid v2 w4) (\<lambda>v3 w5.
           bindD (lineage_rule e f v3 w5) (\<lambda>v w6.
             if v = stored_verdict f then Inr (False, w6)
             else runs e DClass (True, set_row sid (set_verdict e v) w6))))))))"

section \<open>The title\<close>

definition prompt_title :: "string \<Rightarrow> string \<times> string" where
  "prompt_title t =
     (let m = ClassifyUser t NoRaw False False
      in (Title m, if m_kind m = KindSlashCommand then ''command'' else ''human''))"

definition set_title :: "derive_env \<Rightarrow> string option \<Rightarrow> string \<Rightarrow> session_row \<Rightarrow> session_row" where
  "set_title e t src s = s\<lparr>sr_first_prompt := t, sr_title_source := src, sr_updated := dv_now e\<rparr>"

definition retitleSession :: "derive_env \<Rightarrow> string \<Rightarrow> work_db \<Rightarrow> bool derived" where
  "retitleSession e sid w =
     bindD (readSessionFacts e sid w) (\<lambda>f w1.
     bindD (runs e DOpening (human_prompt (w_db w1) sid, w1)) (\<lambda>opening w2.
     bindD (case opening of
              Some t \<Rightarrow> Inr ((Some (fst (prompt_title t)), snd (prompt_title t)), w2)
            | None \<Rightarrow>
                if sr_type f = ''automation'' \<or> sr_type f = ''internal''
                then bindD (runs e DFirst (any_prompt (w_db w2) sid, w2)) (\<lambda>a w3.
                  Inr (case a of Some t \<Rightarrow> (Some (fst (prompt_title t)), ''automation_template'')
                               | None \<Rightarrow> (None, ''none''), w3))
                else Inr ((None, ''none''), w2)) (\<lambda>(title, src) w4.
       if title = sr_first_prompt f \<and> src = sr_title_source f then Inr (False, w4)
       else runs e DTitle (True, set_row sid (set_title e title src) w4))))"

section \<open>Messages without a kind\<close>

definition needs_kind :: "db \<Rightarrow> string \<Rightarrow> message_row \<Rightarrow> bool" where
  "needs_kind d sid m \<longleftrightarrow> mr_session m = sid \<and>
     (case event_by_id d (mr_event m) of None \<Rightarrow> False
      | Some x \<Rightarrow> mr_kind m = KindNone \<or> mr_agent m \<noteq> er_agent x)"

definition text_kind :: "string \<Rightarrow> string \<Rightarrow> string \<Rightarrow> int \<Rightarrow> Kind" where
  "text_kind role t agent n =
     (if role = ''user'' then m_kind (ClassifyUser t NoRaw (agent \<noteq> []) (agent \<noteq> [] \<and> n \<le> 1))
      else if role = ''assistant'' then ClassifyAssistant t True
      else KindTool)"

definition rekind :: "db \<Rightarrow> string \<Rightarrow> message_row \<Rightarrow> message_row" where
  "rekind d sid m =
     (if needs_kind d sid m
      then (case event_by_id d (mr_event m) of None \<Rightarrow> m
            | Some x \<Rightarrow> m\<lparr>mr_kind := text_kind (mr_role m) (mr_text m) (er_agent x) (er_seq x), mr_agent := er_agent x\<rparr>)
      else m)"

definition classifyMessages :: "derive_env \<Rightarrow> string \<Rightarrow> work_db \<Rightarrow> int derived" where
  "classifyMessages e sid w =
     bindD (runs e DUnclassified (filter (needs_kind (w_db w) sid) (t_messages (w_db w)), w)) (\<lambda>ms w1.
       if ms = [] then Inr (0, w1)
       else runs e DKinds (int (length ms),
              w1\<lparr>w_db := (w_db w1)\<lparr>t_messages := map (rekind (w_db w1) sid) (t_messages (w_db w1))\<rparr>\<rparr>))"

end
