(* ===== verification/Dirty.thy ===== *)
theory Dirty
  imports Classify
begin

text \<open>
  The dirty pass (\<open>server/store/runner.go\<close>): the sessions ingest has touched, folded one transaction
  each, and the parking of the ones that fail.
\<close>

section \<open>Parking\<close>

definition dirtyParkBase :: duration where "dirtyParkBase = minute"
definition dirtyParkCap :: duration where "dirtyParkCap = hour"
definition dirtyParkedMax :: nat where "dirtyParkedMax = 10000"
definition deriveDirtyPerPass :: nat where "deriveDirtyPerPass = 200"

record parkedSession =
  pk_attempts :: nat
  pk_until :: time

text \<open>The map of parked sessions: its entries in some order, one for an id.\<close>

type_synonym parked = "(string \<times> parkedSession) list"

definition park_delete :: "string \<Rightarrow> parked \<Rightarrow> parked" where
  "park_delete sid ps = filter (\<lambda>p. fst p \<noteq> sid) ps"

definition park_put :: "string \<Rightarrow> parkedSession \<Rightarrow> parked \<Rightarrow> parked" where
  "park_put sid v ps = (sid, v) # park_delete sid ps"

definition soonest :: "parked \<Rightarrow> string \<times> time" where
  "soonest ps =
     fold (\<lambda>(i, p) (oldest, t).
       if oldest = [] \<or> pk_until p < t \<or> pk_until p = t \<and> i < oldest then (i, pk_until p) else (oldest, t)) ps ([], 0)"

text \<open>Room for one more: expired entries go first, then the one whose backoff ends soonest.\<close>

definition make_room :: "time \<Rightarrow> parked \<Rightarrow> parked" where
  "make_room now ps =
     (let live = filter (\<lambda>p. now < pk_until (snd p)) ps
      in if dirtyParkedMax \<le> length live then park_delete (fst (soonest live)) live else live)"

definition park_wait :: "nat \<Rightarrow> duration" where
  "park_wait attempts =
     (let wait = dirtyParkBase * 2 ^ min (attempts - 1) 10
      in if dirtyParkCap < wait \<or> wait \<le> 0 then dirtyParkCap else wait)"

definition parkSession :: "string \<Rightarrow> time \<Rightarrow> parked \<Rightarrow> nat \<times> parked" where
  "parkSession sid now ps =
     (let ps1 = (if map_of ps sid = None \<and> dirtyParkedMax \<le> length ps then make_room now ps else ps);
          n = (case map_of ps1 sid of None \<Rightarrow> 1 | Some p \<Rightarrow> pk_attempts p + 1)
      in (n, park_put sid \<lparr>pk_attempts = n, pk_until = now + park_wait n\<rparr> ps1))"

definition unparkSession :: "string \<Rightarrow> parked \<Rightarrow> parked" where
  "unparkSession sid ps = park_delete sid ps"

definition parkedSessions :: "time \<Rightarrow> parked \<Rightarrow> string list" where
  "parkedSessions now ps = sort (map fst (filter (\<lambda>p. now < pk_until (snd p)) ps))"

section \<open>One session\<close>

definition DerivedSchema :: int where "DerivedSchema = 4"

text \<open>
  What a pass meets: for each session the statements that fail, whether another fold holds its
  lock, and what other transactions commit before its facts are read, before its rows are read, and
  after that until its row is locked; whether the read of the dirty sessions fails, whether the
  context ends before a session or during it (\<open>dd_cut\<close>), and the drain of the skill
  queue that follows (\<open>server/store/skills.go\<close>).
\<close>

record dirty_env =
  dd_env :: "string \<Rightarrow> derive_env"
  dd_busy :: "string \<Rightarrow> bool"
  dd_early :: "string \<Rightarrow> work_db \<Rightarrow> work_db"
  dd_mid :: "string \<Rightarrow> work_db \<Rightarrow> work_db"
  dd_late :: "string \<Rightarrow> work_db \<Rightarrow> work_db"
  dd_query :: "derive_error option"
  dd_cancelled :: "string \<Rightarrow> bool"
  dd_cut :: "string \<Rightarrow> bool"
  dd_now :: time
  dd_drain :: "work_db \<Rightarrow> (int \<times> int \<times> derive_error option) \<times> work_db"

definition lock_row :: "derive_env \<Rightarrow> string \<Rightarrow> time \<Rightarrow> work_db \<Rightarrow> bool derived" where
  "lock_row e sid t w =
     (case find_session (w_db w) sid of
        None \<Rightarrow> Inl (DSql DRowLock ''no rows'')
      | Some s \<Rightarrow> runs e DRowLock (sr_updated s \<noteq> t, w))"

definition clear_dirty :: "derive_env \<Rightarrow> string \<Rightarrow> bool \<Rightarrow> work_db \<Rightarrow> unit derived" where
  "clear_dirty e sid touched w = runs e DClean ((), set_row sid (\<lambda>s. s\<lparr>sr_dirty := touched\<rparr>) w)"

text \<open>The transaction over a session: \<open>mid\<close> and \<open>late\<close> are the commits of others in between.\<close>

definition derive_tx ::
  "derive_env \<Rightarrow> bool \<Rightarrow> string \<Rightarrow> (work_db \<Rightarrow> work_db) \<Rightarrow> (work_db \<Rightarrow> work_db) \<Rightarrow> work_db \<Rightarrow> int derived" where
  "derive_tx e healthHourly sid mid late w =
     bindD (readSessionFacts e sid w) (\<lambda>facts w1.
     bindD (classifyMessages e sid (mid w1)) (\<lambda>_ w2.
     bindD (foldSession e DerivedSchema sid w2) (\<lambda>n w3.
     bindD (lock_row e sid (sr_updated facts) (late w3)) (\<lambda>touched w4.
     bindD (rollupFromTurns e sid w4) (\<lambda>_ w5.
     bindD (classifySession e healthHourly sid w5) (\<lambda>_ w6.
     bindD (retitleSession e sid w6) (\<lambda>_ w7.
     bindD (clear_dirty e sid touched w7) (\<lambda>_ w8.
     runs e DCommit (n, w8)))))))))"

definition opened_tx :: "derive_env \<Rightarrow> bool \<Rightarrow> work_db \<Rightarrow> unit derived" where
  "opened_tx e busy w =
     bindD (runs e DBegin ((), w)) (\<lambda>_ w1.
     bindD (runs e DTimeout ((), w1)) (\<lambda>_ w2.
     bindD (runs e DLock ((), w2)) (\<lambda>_ w3.
     if busy then Inl DBusy else Inr ((), w3))))"

text \<open>A failure rolls the transaction back; what the others committed stays.\<close>

definition deriveOne :: "dirty_env \<Rightarrow> bool \<Rightarrow> string \<Rightarrow> work_db \<Rightarrow> (derive_error + int) \<times> work_db" where
  "deriveOne de healthHourly sid w =
     (let e = dd_env de sid; w0 = dd_early de sid w
      in case bindD (opened_tx e (dd_busy de sid) w0)
                (\<lambda>_ w1. derive_tx e healthHourly sid (dd_mid de sid) (dd_late de sid) w1) of
           Inr (n, w') \<Rightarrow> (Inr n, w')
         | Inl err \<Rightarrow> (Inl err, dd_late de sid (dd_mid de sid w0)))"

section \<open>The pass\<close>

record DeriveDirtyResult =
  Folded :: nat
  Skipped :: nat
  Failed :: nat
  Parked :: nat
  Turns :: int
  Rederived :: int
  RederiveParked :: int

definition dirty_ids :: "nat \<Rightarrow> string list \<Rightarrow> db \<Rightarrow> string list" where
  "dirty_ids n parked d =
     take n (map sr_id (sort_by (\<lambda>a b. sr_updated a < sr_updated b)
       (filter (\<lambda>s. sr_dirty s \<and> sr_id s \<notin> set parked) (t_sessions d))))"

type_synonym pass_state = "DeriveDirtyResult \<times> parked \<times> work_db"

definition settle :: "string \<Rightarrow> time \<Rightarrow> derive_error + int \<Rightarrow> DeriveDirtyResult \<Rightarrow> parked \<Rightarrow> DeriveDirtyResult \<times> parked" where
  "settle sid now r res ps =
     (case r of
        Inl DBusy \<Rightarrow> (res\<lparr>Skipped := Skipped res + 1\<rparr>, ps)
      | Inl DNotFound \<Rightarrow> (res\<lparr>Skipped := Skipped res + 1\<rparr>, unparkSession sid ps)
      | Inl (DSql st code) \<Rightarrow> (res\<lparr>Failed := Failed res + 1\<rparr>, snd (parkSession sid now ps))
      | Inr n \<Rightarrow> (res\<lparr>Folded := Folded res + 1, Turns := Turns res + n\<rparr>, unparkSession sid ps))"

definition failure :: "derive_error + int \<Rightarrow> bool" where
  "failure r \<longleftrightarrow> (case r of Inl (DSql st code) \<Rightarrow> True | _ \<Rightarrow> False)"

text \<open>The loop; the flag says that the context ended it.\<close>

fun dirty_loop :: "dirty_env \<Rightarrow> bool \<Rightarrow> string list \<Rightarrow> pass_state \<Rightarrow> bool \<times> pass_state" where
  "dirty_loop de healthHourly [] st = (False, st)"
| "dirty_loop de healthHourly (sid # ids) (res, ps, w) =
     (if dd_cancelled de sid then (True, res, ps, w)
      else case deriveOne de healthHourly sid w of
             (r, w1) \<Rightarrow>
               if failure r \<and> dd_cut de sid then (True, res, ps, w1)
               else case settle sid (dd_now de) r res ps of
                 (res1, ps1) \<Rightarrow> dirty_loop de healthHourly ids (res1, ps1, w1))"

definition DeriveDirty :: "dirty_env \<Rightarrow> nat \<Rightarrow> parked \<Rightarrow> work_db \<Rightarrow> (bool \<times> derive_error option) \<times> pass_state" where
  "DeriveDirty de perPass ps w =
     (let parked = parkedSessions (dd_now de) ps;
          n = (if perPass = 0 then deriveDirtyPerPass else perPass);
          res = \<lparr>Folded = 0, Skipped = 0, Failed = 0, Parked = length parked, Turns = 0, Rederived = 0, RederiveParked = 0\<rparr>
      in if dd_query de \<noteq> None then ((False, dd_query de), res, ps, w)
         else case dirty_loop de (w_health w \<noteq> None) (dirty_ids n parked (w_db w)) (res, ps, w) of
           (True, st) \<Rightarrow> ((True, None), st)
         | (False, res1, ps1, w1) \<Rightarrow>
             (case dd_drain de w1 of
                ((drained, parkedAgain, err), w2) \<Rightarrow>
                  ((False, err), res1\<lparr>Rederived := drained, RederiveParked := parkedAgain\<rparr>, ps1, w2)))"

end
