(* ===== verification/FoldPos.thy ===== *)
theory FoldPos
  imports FoldKeys
begin

text \<open>
  The shape of a fold's result: thread by thread, the turns of a thread numbered from zero and each
  with an outcome. The table the turns are written to relies on both.
\<close>

section \<open>Thread by thread\<close>

lemma foldNext_blocks:
  assumes f: "\<And>t. f (bump_subagents t) = f t"
    and q: "\<And>th ts ix sp sp'. foldThread th (bt th) o0 sp = ((ts, ix), sp') \<Longrightarrow> Q th (map f ts)"
  shows "\<forall>th\<in>set ths. th \<noteq> [] \<Longrightarrow> main_ok sf \<Longrightarrow> list_all2 Q prev (map (map f) (folded sf)) \<Longrightarrow>
    list_all2 Q (prev @ ths) (map (map f) (folded (fold (foldNext bt o0) ths sf)))"
proof (induction ths arbitrary: sf prev)
  case Nil
  then show ?case by simp
next
  case (Cons th ths)
  obtain ts ix sp where e: "foldThread th (bt th) o0 (sf_sup sf) = ((ts, ix), sp)" by (metis surj_pair)
  have "main_ok (foldNext bt o0 th sf) \<and>
      map (map f) (folded (foldNext bt o0 th sf)) = map (map f) (folded sf) @ [map f ts]"
    using Cons.prems by (intro foldNext_folded [where f = f and byThread = bt and th = th and sf = sf, OF f _ e]) simp
  moreover have "list_all2 Q (prev @ [th]) (map (map f) (folded sf) @ [map f ts])"
    using Cons.prems(3) q [OF e] by (intro list_all2_appendI) simp_all
  ultimately show ?case using Cons.IH [of "foldNext bt o0 th sf" "prev @ [th]"] Cons.prems(1) by simp
qed

lemma FoldTurns_blocks:
  assumes f: "\<And>t. f (bump_subagents t) = f t"
    and q: "\<And>th rs ts ix sp sp'. foldThread th rs o0 sp = ((ts, ix), sp') \<Longrightarrow> distinct (map addr rs) \<Longrightarrow>
      set rs \<subseteq> set (session_rows rows) \<Longrightarrow> Q th (map f ts)"
  shows "\<exists>ths tss. distinct ths \<and> list_all2 Q ths (map (map f) tss) \<and>
    res_Turns (FoldTurns rows o0) = map Turn.truncate (concat tss)"
proof -
  let ?rs = "session_rows rows"
  let ?th = "\<lambda>r. CanonicalThread (AgentID r)"
  define bt where "bt = (\<lambda>k. filter (\<lambda>r. ?th r = k) ?rs)"
  define ths where "ths = sort_by (threadLess bt) (remdups (map ?th ?rs))"
  define sf0 where "sf0 = \<lparr>folded = [], main_turns = [], main_index = Map.empty, sf_sup = Map.empty\<rparr>"
  let ?sf = "fold (foldNext bt o0) ths sf0"
  have d: "distinct (map addr (bt k))" for k
    using session_rows_addr [of rows] by (simp add: bt_def distinct_map_filter)
  have q': "Q th (map f ts)" if "foldThread th (bt th) o0 sp = ((ts, ix), sp')" for th ts ix sp sp'
    using that d by (rule q) (auto simp: bt_def)
  have "list_all2 Q ths (map (map f) (folded ?sf))"
  proof (cases "[] \<in> set ths")
    case True
    then obtain ths' where e: "ths = [] # ths'"
      using sort_by_main_first [of "remdups (map ?th ?rs)" bt] by (auto simp: ths_def)
    have ne: "\<forall>th\<in>set ths'. th \<noteq> []" using e distinct_sort_by [of "threadLess bt" "remdups (map ?th ?rs)"]
      by (auto simp: ths_def)
    obtain ts ix sp where e0: "foldThread [] (bt []) o0 (sf_sup sf0) = ((ts, ix), sp)" by (metis surj_pair)
    have n: "main_ok (foldNext bt o0 [] sf0) \<and>
        map (map f) (folded (foldNext bt o0 [] sf0)) = map (map f) (folded sf0) @ [map f ts]"
      by (rule foldNext_folded [where f = f and byThread = bt and th = "[]" and sf = sf0, OF f _ e0]) (simp add: sf0_def)
    from foldNext_blocks [where prev = "[[]]" and Q = Q and f = f, OF f q' ne conjunct1 [OF n]] n q' [OF e0]
    show ?thesis by (simp add: e sf0_def)
  next
    case False
    then have "\<forall>th\<in>set ths. th \<noteq> []" by auto
    from foldNext_blocks [where prev = "[]" and Q = Q and f = f and sf = sf0, OF f q' this] show ?thesis
      by (simp add: sf0_def main_ok_def)
  qed
  moreover have "res_Turns (FoldTurns rows o0) = map Turn.truncate (concat (folded ?sf))"
    by (simp add: FoldTurns_def Let_def session_rows_def [symmetric] bt_def [symmetric] ths_def [symmetric] sf0_def)
  moreover have "distinct ths" by (simp add: ths_def)
  ultimately show ?thesis by blast
qed

section \<open>Positions and outcomes\<close>

lemma closeLoop_shape:
  "closeLoop gs ended i ts sp = (ts', sp') \<Longrightarrow>
   map t_Index ts' = [i..<i + length ts] \<and> map Thread ts' = map Thread ts \<and> (\<forall>t\<in>set ts'. t_Outcome t \<noteq> OutcomeUnset)"
proof (induction gs ended i ts sp arbitrary: ts' sp' rule: closeLoop.induct)
  case (1 gs ended i sp)
  then show ?case by simp
next
  case (2 gs ended i t ts sp)
  obtain t1 sp1 where f: "finish gs t sp = (t1, sp1)" by (meson surj_pair)
  obtain ts2 sp2 where c: "closeLoop gs ended (Suc i) ts sp1 = (ts2, sp2)" by (meson surj_pair)
  have o: "outcome u b c \<noteq> OutcomeUnset" for u b c by (simp add: outcome_def Let_def)
  obtain t4 where "ts' = t4 # ts2" "Thread t4 = Thread t1" "t_Index t4 = i" "t_Outcome t4 \<noteq> OutcomeUnset"
    using "2.prems" f c o by (auto simp: Let_def split: list.splits if_splits)
  with "2.IH" [OF f [symmetric] refl refl refl c] finish_fields(4) [OF f] show ?case
    by (simp add: upt_conv_Cons del: upt_Suc)
qed

lemma foldThread_shape:
  assumes "foldThread th rs o0 sp = ((ts, ix), sp')"
  shows "map t_Index ts = [0..<length ts] \<and> (\<forall>t\<in>set ts. t_Outcome t \<noteq> OutcomeUnset)"
proof -
  obtain gs ended ts0 where "closeLoop gs ended 0 ts0 sp = (ts, sp')"
    using assms by (auto simp: foldThread_def Let_def split: prod.splits)
  from closeLoop_shape [OF this] show ?thesis by (metis add_0 length_map length_upt minus_nat.diff_0)
qed

lemma blocks_distinct:
  assumes "distinct ths" "list_all2 (\<lambda>th ns. distinct ns \<and> fst ` set ns \<subseteq> {th}) ths nss"
  shows "distinct (concat nss)"
  using assms(2,1)
proof (induction rule: list_all2_induct)
  case Nil
  then show ?case by simp
next
  case (Cons th ths ns nss)
  have "fst ` set (concat nss) \<subseteq> set ths"
    using Cons.hyps(2) by (induction rule: list_all2_induct) auto
  then have "\<forall>x\<in>set (concat nss). fst x \<noteq> th" using Cons.prems by auto
  with Cons show ?case by auto
qed

text \<open>Within a session no two turns stand at one position of one thread.\<close>

lemma FoldTurns_positions:
  assumes p: "\<forall>r\<in>set rows. plain_row r"
  shows "distinct (map (\<lambda>t. (Thread t, t_Index t)) (res_Turns (FoldTurns rows o0)))"
proof -
  have pr: "\<forall>r\<in>set (session_rows rows). plain_row r"
    using p by (auto simp: session_rows_def enumerate_eq_zip plain_row_def dest!: set_zip_rightD)
  have "\<exists>(ths :: string list) (tss :: turn list list). distinct ths \<and> list_all2 (\<lambda>th ns. distinct ns \<and> fst ` set ns \<subseteq> {th}) ths (map (map (\<lambda>t. (Thread t, t_Index t))) tss) \<and>
    res_Turns (FoldTurns rows o0) = map Turn.truncate (concat tss)"
  proof (rule FoldTurns_blocks [where f = "\<lambda>t. (Thread t, t_Index t)"])
    fix th rs ts ix sp sp'
    assume e: "foldThread th rs o0 sp = ((ts, ix), sp')" and d: "distinct (map addr rs)" "set rs \<subseteq> set (session_rows rows)"
    have "\<forall>r\<in>set rs. plain_row r" using d(2) pr by blast
    from foldThread_keys [OF d(1) this e] have "\<forall>t\<in>set ts. Thread t = th" by blast
    moreover have "distinct (map t_Index ts)" using foldThread_shape [OF e] by simp
    ultimately show "distinct (map (\<lambda>t. (Thread t, t_Index t)) ts) \<and> fst ` set (map (\<lambda>t. (Thread t, t_Index t)) ts) \<subseteq> {th}"
      by (auto simp: distinct_map inj_on_def)
  qed (simp add: bump_subagents_def)
  then obtain ths :: "string list" and tss :: "turn list list" where "distinct ths" "res_Turns (FoldTurns rows o0) = map Turn.truncate (concat tss)"
    and "list_all2 (\<lambda>th ns. distinct ns \<and> fst ` set ns \<subseteq> {th}) ths (map (map (\<lambda>t. (Thread t, t_Index t))) tss)" by blast
  with blocks_distinct [of ths] show ?thesis
    by (simp add: comp_def Turn.truncate_def map_concat)
qed

text \<open>Every folded turn has an outcome.\<close>

lemma FoldTurns_outcomes:
  assumes "t \<in> set (res_Turns (FoldTurns rows o0))"
  shows "t_Outcome t \<noteq> OutcomeUnset"
proof -
  have "\<exists>(ths :: string list) (tss :: turn list list). distinct ths \<and> list_all2 (\<lambda>th os. OutcomeUnset \<notin> set os) ths (map (map t_Outcome) tss) \<and>
    res_Turns (FoldTurns rows o0) = map Turn.truncate (concat tss)"
    by (rule FoldTurns_blocks [where f = t_Outcome]) (auto simp: bump_subagents_def dest!: foldThread_shape dest: sym)
  then obtain ths :: "string list" and tss :: "turn list list" where e: "res_Turns (FoldTurns rows o0) = map Turn.truncate (concat tss)"
    and q: "list_all2 (\<lambda>th os. OutcomeUnset \<notin> set os) ths (map (map t_Outcome) tss)" by blast
  from q have "\<forall>os\<in>set (map (map t_Outcome) tss). OutcomeUnset \<notin> set os"
    by (metis in_set_conv_nth list_all2_conv_all_nth)
  then have "\<forall>u\<in>set (concat tss). t_Outcome u \<noteq> OutcomeUnset" by (force simp: image_iff)
  with assms e show ?thesis by (auto simp: Turn.truncate_def)
qed

end
