(* ===== verification/DerivedProps.thy ===== *)
theory DerivedProps
  imports Derived FoldPos
begin

text \<open>
  What a fold leaves in the tables: the state it is specified to leave, in one step, and what
  follows from it about other sessions, the ledger and the counters.
\<close>

section \<open>A fold in one step\<close>

definition folded_session :: "derive_env \<Rightarrow> string \<Rightarrow> session_row \<Rightarrow> db \<Rightarrow> Result" where
  "folded_session e sid s d = FoldTurns (projection e d sid) \<lparr>optSessionEnded = sr_ended s\<rparr>"

definition derived_row :: "derive_env \<Rightarrow> int \<Rightarrow> string \<Rightarrow> session_row \<Rightarrow> db \<Rightarrow> Turn \<Rightarrow> turn_row" where
  "derived_row e version sid s d t =
     (let r = model_row d (new_turn_row e sid version (t, price_turn (credited d sid) t))
      in if sr_parent s \<noteq> [] \<and> sr_lineage s \<noteq> [] then inherit_row d (sr_parent s) r else r)"

definition fold_spec :: "derive_env \<Rightarrow> int \<Rightarrow> string \<Rightarrow> session_row \<Rightarrow> work_db \<Rightarrow> work_db" where
  "fold_spec e version sid s w =
     (let res = folded_session e sid s (w_db w)
      in w\<lparr>w_turns := filter (\<lambda>r. tr_session r \<noteq> sid) (w_turns w) @ map (derived_row e version sid s (w_db w)) (res_Turns res),
           w_events := fold put_turn_event (concat (map (turn_event_rows sid) (res_Turns res)))
                         (filter (\<lambda>r. te_session r \<noteq> sid) (w_events w)),
           w_sup := (\<lambda>i. if hook_row (w_db w) sid i then Superseded res i else w_sup w i)\<rparr>)"

lemma session_kept [simp]: "tr_session (model_row d r) = tr_session r" "tr_session (inherit_row d p r) = tr_session r"
  "tr_turn (model_row d r) = tr_turn r" "tr_turn (inherit_row d p r) = tr_turn r"
  "tr_usage (model_row d r) = tr_usage r" "tr_usage (inherit_row d p r) = tr_usage r"
  by (simp_all add: model_row_def inherit_row_def split: option.split)

lemma new_turn_row_simps [simp]: "tr_session (new_turn_row e sid v tu) = sid" "tr_turn (new_turn_row e sid v tu) = fst tu"
  "tr_usage (new_turn_row e sid v tu) = snd tu"
  by (simp_all add: new_turn_row_def)

lemma derived_row_simps [simp]: "tr_session (derived_row e v sid s d t) = sid" "tr_turn (derived_row e v sid s d t) = t"
  "tr_usage (derived_row e v sid s d t) = price_turn (credited d sid) t"
  by (simp_all add: derived_row_def Let_def)

lemma zip_price: "zip ts (priceTurns ts ledger) = map (\<lambda>t. (t, price_turn ledger t)) ts"
  by (induction ts) (simp_all add: priceTurns_def)

lemma on_turns_split:
  assumes "\<forall>r\<in>set as. tr_session r \<noteq> sid" "\<forall>r\<in>set bs. tr_session r = sid" "w_turns w = as @ bs"
  shows "on_turns sid f w = w\<lparr>w_turns := as @ map f bs\<rparr>"
  using assms by (simp add: on_turns_def map_idI)

lemma no_marks: "list_all (\<lambda>x. mk (er_id x) = None) (t_events d) \<Longrightarrow> hook_row d sid i \<Longrightarrow> mk i = None"
  by (auto simp: hook_row_def list_all_iff list_ex_iff)

text \<open>When a fold goes through: no statement it needs fails, and its rows fit the table.\<close>

definition fold_ok :: "derive_env \<Rightarrow> int \<Rightarrow> string \<Rightarrow> session_row \<Rightarrow> work_db \<Rightarrow> bool" where
  "fold_ok e version sid s w \<longleftrightarrow>
     (let res = folded_session e sid s (w_db w); ts = res_Turns res
      in (\<forall>st\<in>{DFacts, DLedger, DRows, DClear, DUnmark, DModels}. dv_fail e st = None) \<and>
         (ts \<noteq> [] \<longrightarrow> dv_fail e DTurns = None \<and>
            turns_fit (filter (\<lambda>r. tr_session r \<noteq> sid) (w_turns w) @ map (derived_row e version sid s (w_db w)) ts)) \<and>
         (concat (map (turn_event_rows sid) ts) \<noteq> [] \<longrightarrow> dv_fail e DTurnEvents = None) \<and>
         (\<not> list_all (\<lambda>x. Superseded res (er_id x) = None) (t_events (w_db w)) \<longrightarrow> dv_fail e DMark = None) \<and>
         (sr_parent s \<noteq> [] \<and> sr_lineage s \<noteq> [] \<longrightarrow> dv_fail e DInherit = None))"

lemma turns_fit_cong:
  assumes "map tr_session as = map tr_session bs" "map tr_turn as = map tr_turn bs" "map tr_usage as = map tr_usage bs"
  shows "turns_fit as = turns_fit bs"
proof -
  have p: "map turn_pos xs = map (\<lambda>(a, t). (a, Thread t, t_Index t)) (zip (map tr_session xs) (map tr_turn xs))"
    "map turn_name xs = map (\<lambda>(a, t). (a, Thread t, Key t)) (zip (map tr_session xs) (map tr_turn xs))" for xs
    by (induction xs) (simp_all add: turn_pos_def turn_name_def)
  have o: "(\<forall>r\<in>set xs. t_Outcome (tr_turn r) \<noteq> OutcomeUnset \<and> \<bar>u_micros (tr_usage r)\<bar> < 10 ^ 12) \<longleftrightarrow>
      (\<forall>t\<in>set (map tr_turn xs). t_Outcome t \<noteq> OutcomeUnset) \<and> (\<forall>u\<in>set (map tr_usage xs). \<bar>u_micros u\<bar> < 10 ^ 12)" for xs
    by auto
  show ?thesis unfolding turns_fit_def p o assms ..
qed

lemma turns_fit_new:
  "turns_fit (as @ map (\<lambda>t. new_turn_row e sid v (t, price_turn (credited d sid) t)) ts) =
   turns_fit (as @ map (derived_row e v sid s d) ts)"
  by (rule turns_fit_cong) simp_all

definition inserted :: "derive_env \<Rightarrow> int \<Rightarrow> string \<Rightarrow> Turn list \<Rightarrow> (string \<Rightarrow> turnUsage option) \<Rightarrow> work_db \<Rightarrow> work_db" where
  "inserted e v sid ts ledger w = w\<lparr>w_turns := w_turns w @ map (\<lambda>t. new_turn_row e sid v (t, price_turn ledger t)) ts,
      w_events := fold put_turn_event (concat (map (turn_event_rows sid) ts)) (w_events w)\<rparr>"

lemma insertTurns_iff:
  "insertTurns e sid v ts (priceTurns ts ledger) w = Inr ((), w') \<longleftrightarrow>
   turns_fit (w_turns w @ map (\<lambda>t. new_turn_row e sid v (t, price_turn ledger t)) ts) \<and> dv_fail e DTurns = None \<and>
   (concat (map (turn_event_rows sid) ts) \<noteq> [] \<longrightarrow> dv_fail e DTurnEvents = None) \<and> w' = inserted e v sid ts ledger w"
proof (cases "concat (map (turn_event_rows sid) ts) = []")
  case True
  then have "fold put_turn_event (concat (map (turn_event_rows sid) ts)) t = t" for t by (simp only: fold_simps id_apply)
  with True show ?thesis
    by (auto simp: insertTurns_def Let_def bindD_Inr zip_price comp_def inserted_def simp del: concat_eq_Nil_conv split: if_splits)
next
  case False
  then show ?thesis
    by (auto simp: insertTurns_def Let_def bindD_Inr zip_price comp_def inserted_def simp del: concat_eq_Nil_conv split: if_splits)
qed

definition marked :: "string \<Rightarrow> (string \<rightharpoonup> string) \<Rightarrow> work_db \<Rightarrow> work_db" where
  "marked sid mk w = w\<lparr>w_sup := (\<lambda>i. if hook_row (w_db w) sid i then mk i else w_sup w i)\<rparr>"

lemma markSuperseded_iff:
  "markSuperseded e sid mk w = Inr ((), w') \<longleftrightarrow> dv_fail e DUnmark = None \<and>
   (\<not> list_all (\<lambda>x. mk (er_id x) = None) (t_events (w_db w)) \<longrightarrow> dv_fail e DMark = None) \<and> w' = marked sid mk w"
proof -
  let ?w1 = "w\<lparr>w_sup := (\<lambda>i. if hook_row (w_db w) sid i \<and> mk i = None then None else w_sup w i)\<rparr>"
  have u: "?w1\<lparr>w_sup := (\<lambda>i. if hook_row (w_db w) sid i \<and> mk i \<noteq> None then mk i else w_sup ?w1 i)\<rparr> = marked sid mk w"
    by (auto simp: fun_eq_iff marked_def)
  show ?thesis
  proof (cases "list_all (\<lambda>x. mk (er_id x) = None) (t_events (w_db w))")
    case True
    then have "?w1 = marked sid mk w" using no_marks [OF True] by (auto simp: fun_eq_iff marked_def)
    moreover have "w_db (marked sid mk w) = w_db w" by (simp add: marked_def)
    ultimately show ?thesis using True by (auto simp: markSuperseded_def bindD_Inr)
  next
    case False
    with u show ?thesis by (simp add: markSuperseded_def bindD_Inr)
  qed
qed

lemma foldSession_iff:
  assumes s: "find_session (w_db w) sid = Some s"
  shows "foldSession e v sid w = Inr (n, w') \<longleftrightarrow>
    fold_ok e v sid s w \<and> w' = fold_spec e v sid s w \<and> n = int (length (res_Turns (folded_session e sid s (w_db w))))"
proof -
  let ?res = "folded_session e sid s (w_db w)"
  let ?ts = "res_Turns ?res"
  let ?l = "credited (w_db w) sid"
  let ?as = "filter (\<lambda>r. tr_session r \<noteq> sid) (w_turns w)"
  let ?new = "map (\<lambda>t. new_turn_row e sid v (t, price_turn ?l t)) ?ts"
  define w4 where "w4 = inserted e v sid ?ts ?l (clear_turns sid w)"
  define w5 where "w5 = marked sid (Superseded ?res) w4"
  define inh where "inh = (sr_parent s \<noteq> [] \<and> sr_lineage s \<noteq> [])"
  define w6 where "w6 = on_turns sid (model_row (w_db w)) w5"
  define w7 where "w7 = (if inh then on_turns sid (inherit_row (w_db w) (sr_parent s)) w6 else w6)"
  have w4_alt: "w4 = w\<lparr>w_turns := ?as @ ?new,
      w_events := fold put_turn_event (concat (map (turn_event_rows sid) ?ts)) (filter (\<lambda>r. te_session r \<noteq> sid) (w_events w))\<rparr>"
    by (simp add: w4_def inserted_def clear_turns_def)
  have d: "w_db w4 = w_db w" "w_sup w4 = w_sup w" "w_db w5 = w_db w" "w_db w6 = w_db w"
    by (simp_all add: w4_alt w5_def w6_def marked_def on_turns_def)
  have w5_alt: "w5 = w4\<lparr>w_sup := (\<lambda>i. if hook_row (w_db w) sid i then Superseded ?res i else w_sup w i)\<rparr>"
    unfolding w5_def marked_def d ..
  have spec: "w7 = fold_spec e v sid s w"
  proof -
    have "w6 = w5\<lparr>w_turns := ?as @ map (model_row (w_db w)) ?new\<rparr>"
      unfolding w6_def by (rule on_turns_split) (auto simp: w5_alt w4_alt)
    moreover have "on_turns sid (inherit_row (w_db w) p) (w5\<lparr>w_turns := ?as @ map (model_row (w_db w)) ?new\<rparr>) =
        w5\<lparr>w_turns := ?as @ map (inherit_row (w_db w) p) (map (model_row (w_db w)) ?new)\<rparr>" for p
      by (subst on_turns_split [of ?as sid "map (model_row (w_db w)) ?new"]) auto
    ultimately show ?thesis
      by (auto simp: w7_def fold_spec_def Let_def w5_alt w4_alt derived_row_def inh_def comp_def)
  qed
  have step4: "(if ?ts = [] then Inr ((), clear_turns sid w) else insertTurns e sid v ?ts (priceTurns ?ts ?l) (clear_turns sid w)) = Inr ((), x) \<longleftrightarrow>
      (?ts \<noteq> [] \<longrightarrow> dv_fail e DTurns = None \<and> turns_fit (?as @ map (derived_row e v sid s (w_db w)) ?ts)) \<and>
      (concat (map (turn_event_rows sid) ?ts) \<noteq> [] \<longrightarrow> dv_fail e DTurnEvents = None) \<and> x = w4" for x
    using turns_fit_new [of ?as e sid v "w_db w" ?ts s]
    by (auto simp: insertTurns_iff w4_def inserted_def clear_turns_def)
  have step5: "markSuperseded e sid (Superseded ?res) w4 = Inr ((), x) \<longleftrightarrow> dv_fail e DUnmark = None \<and>
      (\<not> list_all (\<lambda>x. Superseded ?res (er_id x) = None) (t_events (w_db w)) \<longrightarrow> dv_fail e DMark = None) \<and> x = w5" for x
    unfolding markSuperseded_iff w5_def d ..
  have "foldSession e v sid w = Inr (n, w') \<longleftrightarrow>
      dv_fail e DFacts = None \<and> dv_fail e DLedger = None \<and> dv_fail e DRows = None \<and> dv_fail e DClear = None \<and>
      (\<exists>x4. (if ?ts = [] then Inr ((), clear_turns sid w) else insertTurns e sid v ?ts (priceTurns ?ts ?l) (clear_turns sid w)) = Inr ((), x4) \<and>
      (\<exists>x5. markSuperseded e sid (Superseded ?res) x4 = Inr ((), x5) \<and> dv_fail e DModels = None \<and>
      (\<exists>x7. (if inh then runs e DInherit ((), on_turns sid (inherit_row (w_db (on_turns sid (model_row (w_db x5)) x5)) (sr_parent s)) (on_turns sid (model_row (w_db x5)) x5))
        else Inr ((), on_turns sid (model_row (w_db x5)) x5)) = Inr ((), x7) \<and> n = int (length ?ts) \<and> w' = x7)))"
    using s by (cases "dv_fail e DFacts")
      (auto simp: foldSession_def readSessionFacts_def readProjection_def bindD_Inr Let_def folded_session_def [symmetric] inh_def cong: if_cong)
  also have "\<dots> \<longleftrightarrow> fold_ok e v sid s w \<and> w' = w7 \<and> n = int (length ?ts)"
    unfolding step4 by (cases inh; simp add: step5 d w6_def [symmetric] w7_def fold_ok_def Let_def inh_def [symmetric]; blast)
  finally show ?thesis by (simp add: spec)
qed

section \<open>Folding again\<close>

lemma fold_spec_tables [simp]: "w_db (fold_spec e v sid s w) = w_db w" "w_health (fold_spec e v sid s w) = w_health w"
  by (simp_all add: fold_spec_def Let_def)

lemma fold_spec_turns: "w_turns (fold_spec e v sid s w) =
    filter (\<lambda>r. tr_session r \<noteq> sid) (w_turns w) @ map (derived_row e v sid s (w_db w)) (res_Turns (folded_session e sid s (w_db w)))"
  by (simp add: fold_spec_def Let_def)

lemma put_turn_event_others:
  "\<forall>r\<in>set evs. te_session r = sid \<Longrightarrow>
   filter (\<lambda>r. te_session r \<noteq> sid) (fold put_turn_event evs t) = filter (\<lambda>r. te_session r \<noteq> sid) t"
  by (induction evs arbitrary: t) (simp_all add: put_turn_event_def)

lemma turn_event_rows_session: "r \<in> set (concat (map (turn_event_rows sid) ts)) \<Longrightarrow> te_session r = sid"
  by (auto simp: turn_event_rows_def)

lemma fold_spec_others:
  "filter (\<lambda>r. tr_session r \<noteq> sid) (w_turns (fold_spec e v sid s w)) = filter (\<lambda>r. tr_session r \<noteq> sid) (w_turns w)"
  "filter (\<lambda>r. te_session r \<noteq> sid) (w_events (fold_spec e v sid s w)) = filter (\<lambda>r. te_session r \<noteq> sid) (w_events w)"
  by (simp add: fold_spec_turns filter_empty_conv)
    (simp add: fold_spec_def Let_def put_turn_event_others turn_event_rows_session del: set_concat)

lemma fold_spec_idem: "fold_spec e v sid s (fold_spec e v sid s w) = fold_spec e v sid s w"
proof -
  have "fold_spec e v sid s w' = fold_spec e v sid s w"
    if "w_db w' = w_db w" "filter (\<lambda>r. tr_session r \<noteq> sid) (w_turns w') = filter (\<lambda>r. tr_session r \<noteq> sid) (w_turns w)"
      "filter (\<lambda>r. te_session r \<noteq> sid) (w_events w') = filter (\<lambda>r. te_session r \<noteq> sid) (w_events w)"
      "\<forall>i. \<not> hook_row (w_db w) sid i \<longrightarrow> w_sup w' i = w_sup w i" "w_health w' = w_health w" for w'
    using that by (cases w, cases w') (auto simp: fold_spec_def Let_def fun_eq_iff)
  then show ?thesis
    by this (simp_all add: fold_spec_others, simp add: fold_spec_def Let_def)
qed

lemma fold_ok_again: "fold_ok e v sid s w \<Longrightarrow> fold_ok e v sid s (fold_spec e v sid s w)"
  by (simp only: fold_ok_def fold_spec_tables fold_spec_others)

section \<open>What the rows hold\<close>

lemma session_turns_fold: "map tr_turn (session_turns (fold_spec e v sid s w) sid) = res_Turns (folded_session e sid s (w_db w))"
  by (simp add: session_turns_def fold_spec_turns filter_empty_conv comp_def filter_id_conv [THEN iffD2])

text \<open>No row shares its key with another, so none is dropped as a conflict.\<close>

lemma put_turn_events_all:
  "distinct (map te_key evs) \<Longrightarrow> te_key ` set evs \<inter> te_key ` set t = {} \<Longrightarrow> fold put_turn_event evs t = t @ evs"
  by (induction evs arbitrary: t) (auto simp: put_turn_event_def)

lemma turn_event_rows_ids: "map te_event (concat (map (turn_event_rows sid) ts)) = map fst (concat (map Events ts))"
  by (induction ts) (simp_all add: turn_event_rows_def comp_def)

lemma turn_event_keys:
  assumes "distinct (map fst (concat (map Events ts)))"
  shows "distinct (map te_key (concat (map (turn_event_rows sid) ts)))"
proof -
  have "distinct (map te_event (concat (map (turn_event_rows sid) ts)))" using assms by (simp only: turn_event_rows_ids)
  then show ?thesis by (simp add: distinct_map te_key_def inj_on_def)
qed

lemma turn_events_fold:
  assumes "distinct (map fst (concat (map Events (res_Turns (folded_session e sid s (w_db w))))))"
  shows "map te_event (filter (\<lambda>r. te_session r = sid) (w_events (fold_spec e v sid s w))) =
    map fst (concat (map Events (res_Turns (folded_session e sid s (w_db w)))))"
proof -
  let ?ts = "res_Turns (folded_session e sid s (w_db w))"
  let ?evs = "concat (map (turn_event_rows sid) ?ts)"
  let ?old = "filter (\<lambda>r. te_session r \<noteq> sid) (w_events w)"
  have "te_key ` set ?evs \<inter> te_key ` set ?old = {}"
    using turn_event_rows_session [of _ sid ?ts] by (auto simp: te_key_def simp del: set_concat)
  then have "w_events (fold_spec e v sid s w) = ?old @ ?evs"
    by (simp add: fold_spec_def Let_def put_turn_events_all turn_event_keys [OF assms] del: set_concat)
  moreover have "filter (\<lambda>r. te_session r = sid) ?evs = ?evs"
    using turn_event_rows_session [of _ sid ?ts] by (simp add: filter_id_conv del: set_concat)
  ultimately have "filter (\<lambda>r. te_session r = sid) (w_events (fold_spec e v sid s w)) = ?evs" by (simp add: filter_empty_conv)
  then show ?thesis by (simp only: turn_event_rows_ids)
qed

definition session_events :: "db \<Rightarrow> string \<Rightarrow> event_row list" where
  "session_events d sid = filter (\<lambda>x. er_session x = sid) (t_events d)"

definition shown_events :: "db \<Rightarrow> string \<Rightarrow> event_row list" where
  "shown_events d sid = filter (\<lambda>x. \<not> is_lifecycle (er_type x)) (session_events d sid)"

lemma mset_filter_sort_by: "mset (map f (filter P (sort_by lt xs))) = mset (map f (filter P xs))"
  by simp

lemma projection_ids:
  "mset (map row_ID (filter (\<lambda>r. \<not> is_lifecycle (row_Type r)) (projection e d sid))) = mset (map er_id (shown_events d sid))"
proof -
  have "map row_ID (filter (\<lambda>r. \<not> is_lifecycle (row_Type r)) (map (projection_row e d sid) xs)) =
      map er_id (filter (\<lambda>x. \<not> is_lifecycle (er_type x)) xs)" for xs
    by (induction xs) (simp_all add: projection_row_def Let_def)
  then show ?thesis by (simp add: projection_def shown_events_def session_events_def filter_filter_mset)
qed

lemma folded_session_ids:
  "mset (map fst (concat (map Events (res_Turns (folded_session e sid s d))))) = mset (map er_id (shown_events d sid))"
  unfolding folded_session_def FoldTurns_ids projection_ids ..

section \<open>What the turns are charged\<close>

text \<open>The five figures of a usage.\<close>

definition figures :: "(turnUsage \<Rightarrow> int) list" where
  "figures = [u_input, u_output, u_read, u_write, u_micros]"

lemma figures_hom: "g \<in> set figures \<Longrightarrow> g no_usage = 0 \<and> g (add_usage a b) = g a + g b"
  by (auto simp: figures_def no_usage_def add_usage_def)

definition charge :: "(turnUsage \<Rightarrow> int) \<Rightarrow> turnUsage option \<Rightarrow> int" where
  "charge g u = (case u of None \<Rightarrow> 0 | Some x \<Rightarrow> g x)"

lemma price_turn_sum:
  assumes "g \<in> set figures"
  shows "g (price_turn ledger t) = sum_list (map (\<lambda>i. charge g (ledger i)) (map fst (Events t)))"
proof -
  have "g (fold (\<lambda>ev u. case ledger (fst ev) of None \<Rightarrow> u | Some x \<Rightarrow> add_usage u x) evs u) =
      g u + sum_list (map (\<lambda>i. charge g (ledger i)) (map fst evs))" for evs u
    by (induction evs arbitrary: u) (auto simp: charge_def figures_hom [OF assms] split: option.split)
  from this [of "Events t" no_usage] show ?thesis by (simp add: price_turn_def figures_hom [OF assms])
qed

lemma sum_list_parts: "sum_list (map (\<lambda>t. sum_list (map c (map fst (h t)))) ts) = sum_list (map c (map fst (concat (map h ts))))"
  for c :: "'a \<Rightarrow> int"
  by (induction ts) simp_all

lemma charged_once:
  assumes "g \<in> set figures"
  shows "sum_list (map (\<lambda>r. g (tr_usage r)) (session_turns (fold_spec e v sid s w) sid)) =
    sum_list (map (\<lambda>x. charge g (credited (w_db w) sid (er_id x))) (shown_events (w_db w) sid))"
proof -
  let ?ts = "res_Turns (folded_session e sid s (w_db w))"
  let ?c = "\<lambda>i. charge g (credited (w_db w) sid i)"
  have "session_turns (fold_spec e v sid s w) sid = map (derived_row e v sid s (w_db w)) ?ts"
    by (simp add: session_turns_def fold_spec_turns filter_empty_conv filter_id_conv [THEN iffD2])
  then have "sum_list (map (\<lambda>r. g (tr_usage r)) (session_turns (fold_spec e v sid s w) sid)) =
      sum_list (map (\<lambda>t. sum_list (map ?c (map fst (Events t)))) ?ts)"
    by (simp add: comp_def price_turn_sum [OF assms])
  also have "\<dots> = sum_list (map ?c (map fst (concat (map Events ?ts))))"
    by (rule sum_list_parts)
  also have "\<dots> = sum_mset (image_mset ?c (mset (map fst (concat (map Events ?ts)))))"
    by (simp only: mset_map [symmetric] sum_mset_sum_list)
  also have "\<dots> = sum_mset (image_mset ?c (mset (map er_id (shown_events (w_db w) sid))))"
    by (simp only: folded_session_ids)
  also have "\<dots> = sum_list (map ?c (map er_id (shown_events (w_db w) sid)))"
    by (simp only: mset_map [symmetric] sum_mset_sum_list)
  finally show ?thesis by (simp add: comp_def)
qed

section \<open>The table takes the turns\<close>

lemma projection_plain:
  assumes "\<forall>x\<in>set (session_events d sid). CHR ''#'' \<notin> set (er_prompt x)" "\<forall>t. CHR ''#'' \<notin> set (dv_hash e t)"
  shows "\<forall>r\<in>set (projection e d sid). plain_row r"
  using assms by (auto simp: projection_def session_events_def plain_row_def projection_row_def Let_def split: option.split)

lemma turns_fit_append:
  "turns_fit (as @ bs) \<longleftrightarrow> turns_fit as \<and> turns_fit bs \<and> turn_pos ` set as \<inter> turn_pos ` set bs = {} \<and>
     turn_name ` set as \<inter> turn_name ` set bs = {}"
  by (auto simp: turns_fit_def)

lemma fold_rows_fit:
  assumes plain: "\<forall>x\<in>set (session_events (w_db w) sid). CHR ''#'' \<notin> set (er_prompt x)" "\<forall>t. CHR ''#'' \<notin> set (dv_hash e t)"
    and others: "turns_fit (filter (\<lambda>r. tr_session r \<noteq> sid) (w_turns w))"
    and cost: "\<forall>t\<in>set (res_Turns (folded_session e sid s (w_db w))). \<bar>u_micros (price_turn (credited (w_db w) sid) t)\<bar> < 10 ^ 12"
  shows "turns_fit (filter (\<lambda>r. tr_session r \<noteq> sid) (w_turns w) @
    map (derived_row e v sid s (w_db w)) (res_Turns (folded_session e sid s (w_db w))))"
proof -
  let ?ts = "res_Turns (folded_session e sid s (w_db w))"
  let ?new = "map (derived_row e v sid s (w_db w)) ?ts"
  have pr: "\<forall>r\<in>set (projection e (w_db w) sid). plain_row r" using plain by (rule projection_plain)
  have "distinct (map (Pair sid) (map (\<lambda>t. (Thread t, t_Index t)) ?ts))"
    using FoldTurns_positions [OF pr] by (simp only: distinct_map [of "Pair sid"] folded_session_def) (simp add: inj_on_def)
  moreover have "distinct (map (Pair sid) (map (\<lambda>t. (Thread t, Key t)) ?ts))"
    using FoldTurns_names [OF pr] by (simp only: distinct_map [of "Pair sid"] folded_session_def) (simp add: inj_on_def)
  ultimately have "turns_fit ?new"
    using cost FoldTurns_outcomes [where rows = "projection e (w_db w) sid"]
    by (auto simp: turns_fit_def comp_def turn_pos_def turn_name_def folded_session_def)
  with others show ?thesis by (auto simp: turns_fit_append turn_pos_def turn_name_def)
qed

lemma fold_goes_through:
  assumes "find_session (w_db w) sid = Some s" and "\<forall>st. dv_fail e st = None"
    and "\<forall>x\<in>set (session_events (w_db w) sid). CHR ''#'' \<notin> set (er_prompt x)" "\<forall>t. CHR ''#'' \<notin> set (dv_hash e t)"
    and "turns_fit (filter (\<lambda>r. tr_session r \<noteq> sid) (w_turns w))"
    and "\<forall>t\<in>set (res_Turns (folded_session e sid s (w_db w))). \<bar>u_micros (price_turn (credited (w_db w) sid) t)\<bar> < 10 ^ 12"
  shows "foldSession e v sid w = Inr (int (length (res_Turns (folded_session e sid s (w_db w)))), fold_spec e v sid s w)"
  using fold_rows_fit [OF assms(3-6)] assms(2) by (simp add: foldSession_iff [OF assms(1)] fold_ok_def Let_def)

section \<open>Marks\<close>

text \<open>A marked row is a hook row: the statement refuses any other origin.\<close>

definition hook_marks :: "work_db \<Rightarrow> bool" where
  "hook_marks w \<longleftrightarrow> (\<forall>i. w_sup w i \<noteq> None \<longrightarrow> list_ex (\<lambda>x. er_id x = i \<and> er_origin x = OriginHook) (t_events (w_db w)))"

lemma hook_marks_fold: "hook_marks w \<Longrightarrow> hook_marks (fold_spec e v sid s w)"
  by (fastforce simp: hook_marks_def fold_spec_def Let_def hook_row_def list_ex_iff)

section \<open>Counters\<close>

lemma row_counters_count [simp]: "row_counters (count_row e x s) = x"
  by (simp add: count_row_def row_counters_def)

lemma count_row_twice: "count_row e x (count_row e' x s) = count_row e' x s"
  by (simp add: count_row_def [of e])

lemma counters_of_set_row: "counters_of (set_row sid f w) sid' = counters_of w sid'"
  by (simp add: counters_of_def session_turns_def content_rows_def set_row_def event_by_id_def update_sessions_def Let_def)

end
