(* ===== verification/DirtyProps.thy ===== *)
theory DirtyProps
  imports Dirty DerivedProps StoreInv
begin

text \<open>
  The dirty pass keeps its promise: a session it leaves clean has the turns of the events stored
  when it was cleared, a failure changes nothing but the backoff, and the backoff is bounded.
\<close>

section \<open>Steps on the session's row\<close>

definition row_step :: "string \<Rightarrow> work_db \<Rightarrow> work_db \<Rightarrow> bool" where
  "row_step sid w w' \<longleftrightarrow>
     (\<exists>f. (\<forall>s. sr_id (f s) = sr_id s \<and> sr_ended (f s) = sr_ended s \<and> sr_dirty (f s) = sr_dirty s) \<and> w' = set_row sid f w)"

lemma set_row_tables [simp]: "t_events (w_db (set_row sid f w)) = t_events (w_db w)" "t_messages (w_db (set_row sid f w)) = t_messages (w_db w)"
  "t_ledger (w_db (set_row sid f w)) = t_ledger (w_db w)" "w_turns (set_row sid f w) = w_turns w" "w_events (set_row sid f w) = w_events w"
  "w_sup (set_row sid f w) = w_sup w" "w_health (set_row sid f w) = w_health w"
  by (simp_all add: set_row_def update_sessions_def)

lemma set_row_id: "set_row sid (\<lambda>s. s) w = w"
  by (simp add: set_row_def update_sessions_def)

lemma row_step_refl [simp]: "row_step sid w w"
  unfolding row_step_def by (intro exI [of _ "\<lambda>s. s"]) (simp add: set_row_id)

lemma set_row_twice: "(\<And>s. sr_id (f s) = sr_id s) \<Longrightarrow> set_row sid g (set_row sid f w) = set_row sid (g \<circ> f) w"
  by (simp add: set_row_def update_sessions_def comp_def cong: map_cong)

lemma row_step_trans: "row_step sid w w1 \<Longrightarrow> row_step sid w1 w2 \<Longrightarrow> row_step sid w w2"
  unfolding row_step_def
proof (elim exE conjE)
  fix f g
  assume "\<forall>s. sr_id (f s) = sr_id s \<and> sr_ended (f s) = sr_ended s \<and> sr_dirty (f s) = sr_dirty s" "w1 = set_row sid f w"
    "\<forall>s. sr_id (g s) = sr_id s \<and> sr_ended (g s) = sr_ended s \<and> sr_dirty (g s) = sr_dirty s" "w2 = set_row sid g w1"
  then show "\<exists>h. (\<forall>s. sr_id (h s) = sr_id s \<and> sr_ended (h s) = sr_ended s \<and> sr_dirty (h s) = sr_dirty s) \<and> w2 = set_row sid h w"
    by (intro exI [of _ "g \<circ> f"]) (simp add: set_row_twice)
qed

lemma find_set_row: "(\<And>s. sr_id (f s) = sr_id s) \<Longrightarrow> find_session (w_db (set_row sid f w)) sid = map_option f (find_session (w_db w) sid)"
  by (cases "find_session (w_db w) sid") (simp_all add: set_row_def find_update_sessions find_session_id)

lemma row_stepI: "(\<And>s. sr_id (f s) = sr_id s \<and> sr_ended (f s) = sr_ended s \<and> sr_dirty (f s) = sr_dirty s) \<Longrightarrow> row_step sid w (set_row sid f w)"
  unfolding row_step_def by blast

lemma rollup_step: "rollupFromTurns e sid w = Inr (u, w') \<Longrightarrow> row_step sid w w'"
  by (clarsimp simp: rollupFromTurns_def) (rule row_stepI, simp add: count_row_def)

lemma head_rule_state: "head_rule e sid v w = Inr (v', w') \<Longrightarrow> w' = w"
  by (auto simp: head_rule_def bindD_Inr split: option.splits)

lemma loss_rule_state: "loss_rule e f h v w = Inr (v', w') \<Longrightarrow> w' = w"
  by (auto simp: loss_rule_def bindD_Inr split: if_splits)

lemma internal_rule_state: "internal_rule e sid v w = Inr (v', w') \<Longrightarrow> w' = w"
  by (auto simp: internal_rule_def bindD_Inr Let_def split: if_splits)

lemma lineage_rule_state: "lineage_rule e f v w = Inr (v', w') \<Longrightarrow> w' = w"
  by (auto simp: lineage_rule_def bindD_Inr split: if_splits)

lemmas rule_states = head_rule_state loss_rule_state internal_rule_state lineage_rule_state

lemma classify_step: "classifySession e h sid w = Inr (b, w') \<Longrightarrow> row_step sid w w'"
  by (auto simp: classifySession_def bindD_Inr readSessionFacts_def Let_def set_verdict_def intro!: row_stepI
      dest!: rule_states split: if_splits option.splits)

lemma retitle_step: "retitleSession e sid w = Inr (b, w') \<Longrightarrow> row_step sid w w'"
  by (auto simp: retitleSession_def bindD_Inr readSessionFacts_def set_title_def intro!: row_stepI
      split: if_splits option.splits)

section \<open>A clean session is current\<close>

text \<open>What the fold of a session depends on.\<close>

definition same_inputs :: "string \<Rightarrow> db \<Rightarrow> db \<Rightarrow> bool" where
  "same_inputs sid d d' \<longleftrightarrow> find_session d' sid = find_session d sid \<and> session_events d' sid = session_events d sid \<and>
     (\<forall>x\<in>set (session_events d sid). message_for d' (er_id x) = message_for d (er_id x) \<and>
        credited d' sid (er_id x) = credited d sid (er_id x))"

text \<open>
  Another transaction heeds a derivation of the session when it leaves its turns alone, and moves
  the row's \<open>updated_at\<close> when it commits anything the fold reads.
\<close>

definition heeding :: "string \<Rightarrow> time \<Rightarrow> (work_db \<Rightarrow> work_db) \<Rightarrow> bool" where
  "heeding sid t f \<longleftrightarrow>
     (\<forall>w. session_turns (f w) sid = session_turns w sid \<and>
          ((\<exists>s. find_session (w_db (f w)) sid = Some s \<and> sr_updated s = t) \<longrightarrow> same_inputs sid (w_db w) (w_db (f w))))"

lemma projection_alt: "projection e d sid = map (projection_row e d sid) (sort_by (row_before e) (session_events d sid))"
  by (simp add: projection_def session_events_def)

lemma projection_cong:
  assumes "session_events d' sid = session_events d sid"
    and "\<forall>x\<in>set (session_events d sid). message_for d' (er_id x) = message_for d (er_id x) \<and>
      credited d' sid (er_id x) = credited d sid (er_id x)"
  shows "projection e d' sid = projection e d sid"
  unfolding projection_alt assms(1) using assms(2) by (intro map_cong) (simp_all add: projection_row_def Let_def)

lemma projection_set_row [simp]: "projection e (w_db (set_row k f w)) sid = projection e (w_db w) sid"
  by (rule projection_cong) (simp_all add: session_events_def message_for_def credited_def)

lemma row_step_projection: "row_step sid w w' \<Longrightarrow> projection e (w_db w') sid = projection e (w_db w) sid \<and> w_turns w' = w_turns w"
  by (auto simp: row_step_def)

lemma row_step_find:
  "row_step sid w w' \<Longrightarrow> \<exists>f. (\<forall>s. sr_ended (f s) = sr_ended s \<and> sr_dirty (f s) = sr_dirty s) \<and>
     find_session (w_db w') sid = map_option f (find_session (w_db w) sid)"
  unfolding row_step_def using find_set_row by blast

lemma classifyMessages_state:
  "classifyMessages e sid w = Inr (n, w') \<Longrightarrow> find_session (w_db w') sid = find_session (w_db w) sid \<and>
     session_events (w_db w') sid = session_events (w_db w) sid \<and> w_turns w' = w_turns w"
  by (auto simp: classifyMessages_def bindD_Inr find_session_def session_events_def split: if_splits)

lemma bindD_InrE: "bindD x f = Inr r \<Longrightarrow> (\<And>a w. x = Inr (a, w) \<Longrightarrow> f a w = Inr r \<Longrightarrow> P) \<Longrightarrow> P"
  by (auto simp: bindD_Inr)

lemma readSessionFacts_iff:
  "readSessionFacts e sid w = Inr (s, w') \<longleftrightarrow> dv_fail e DFacts = None \<and> find_session (w_db w) sid = Some s \<and> w' = w"
  by (auto simp: readSessionFacts_def split: option.splits)

lemma lock_row_iff:
  "lock_row e sid t w = Inr (b, w') \<longleftrightarrow>
   (\<exists>s. find_session (w_db w) sid = Some s \<and> b = (sr_updated s \<noteq> t)) \<and> dv_fail e DRowLock = None \<and> w' = w"
  by (auto simp: lock_row_def split: option.splits)

lemma derive_tx_Inr:
  assumes "derive_tx e h sid mid late w = Inr (n, w')"
  obtains s w2 w3 s4 w7 where "find_session (w_db w) sid = Some s"
    and "find_session (w_db w2) sid = find_session (w_db (mid w)) sid"
    and "foldSession e DerivedSchema sid w2 = Inr (n, w3)"
    and "find_session (w_db (late w3)) sid = Some s4" and "row_step sid (late w3) w7"
    and "w' = set_row sid (\<lambda>x. x\<lparr>sr_dirty := (sr_updated s4 \<noteq> sr_updated s)\<rparr>) w7"
proof -
  from assms show thesis unfolding derive_tx_def
  proof (elim bindD_InrE)
    fix s w1 k w2 m w3 b w4 u5 w5 b6 w6 b7 w7 u8 w8
    assume f: "readSessionFacts e sid w = Inr (s, w1)" and c: "classifyMessages e sid (mid w1) = Inr (k, w2)"
      and fo: "foldSession e DerivedSchema sid w2 = Inr (m, w3)"
      and l: "lock_row e sid (sr_updated s) (late w3) = Inr (b, w4)"
      and r: "rollupFromTurns e sid w4 = Inr (u5, w5)" "classifySession e h sid w5 = Inr (b6, w6)" "retitleSession e sid w6 = Inr (b7, w7)"
      and cl: "clear_dirty e sid b w7 = Inr (u8, w8)" and co: "runs e DCommit (m, w8) = Inr (n, w')"
    have w1: "w1 = w" and s: "find_session (w_db w) sid = Some s" using f by (simp_all add: readSessionFacts_iff)
    obtain s4 where s4: "find_session (w_db (late w3)) sid = Some s4" and b: "b = (sr_updated s4 \<noteq> sr_updated s)" and w4: "w4 = late w3"
      using l by (auto simp: lock_row_iff)
    have "w' = set_row sid (\<lambda>x. x\<lparr>sr_dirty := (sr_updated s4 \<noteq> sr_updated s)\<rparr>) w7" and m: "m = n"
      using cl co b by (simp_all add: clear_dirty_def)
    moreover have "row_step sid (late w3) w7"
      using r unfolding w4 by (meson rollup_step classify_step retitle_step row_step_trans)
    moreover have "find_session (w_db w2) sid = find_session (w_db (mid w)) sid"
      using classifyMessages_state [OF c] by (simp add: w1)
    ultimately show thesis using s s4 fo by (intro that) simp_all
  qed
qed

lemma clean_current_tx:
  assumes tx: "derive_tx e h sid mid late w = Inr (n, w')"
    and s0: "find_session (w_db w) sid = Some s0" and hd: "heeding sid (sr_updated s0) mid" "heeding sid (sr_updated s0) late"
    and s': "find_session (w_db w') sid = Some s'" "\<not> sr_dirty s'"
  shows "map tr_turn (session_turns w' sid) = res_Turns (folded_session e sid s' (w_db w')) \<and>
    n = int (length (session_turns w' sid))"
proof -
  obtain s1 w2 w3 s4 w7 where "find_session (w_db w) sid = Some s1"
    and f2: "find_session (w_db w2) sid = find_session (w_db (mid w)) sid"
    and fo: "foldSession e DerivedSchema sid w2 = Inr (n, w3)" and s4: "find_session (w_db (late w3)) sid = Some s4"
    and rs: "row_step sid (late w3) w7"
    and w'1: "w' = set_row sid (\<lambda>x. x\<lparr>sr_dirty := (sr_updated s4 \<noteq> sr_updated s1)\<rparr>) w7"
    by (rule derive_tx_Inr [OF tx])
  then have w': "w' = set_row sid (\<lambda>x. x\<lparr>sr_dirty := (sr_updated s4 \<noteq> sr_updated s0)\<rparr>) w7" using s0 by simp
  obtain f where f: "\<forall>s. sr_ended (f s) = sr_ended s" "find_session (w_db w7) sid = Some (f s4)"
    using row_step_find [OF rs] s4 by auto
  have e': "s' = (f s4)\<lparr>sr_dirty := (sr_updated s4 \<noteq> sr_updated s0)\<rparr>"
    using s'(1) f(2) unfolding w' by (subst (asm) find_set_row) simp_all
  with s'(2) have u: "sr_updated s4 = sr_updated s0" by simp
  then have same: "same_inputs sid (w_db w3) (w_db (late w3))" and lt: "session_turns (late w3) sid = session_turns w3 sid"
    using hd(2) s4 by (auto simp: heeding_def)
  then have s3: "find_session (w_db w3) sid = Some s4" using s4 by (simp add: same_inputs_def)
  from fo obtain s where s: "find_session (w_db w2) sid = Some s"
    by (auto simp: foldSession_def bindD_Inr readSessionFacts_def split: option.splits)
  have w3: "w3 = fold_spec e DerivedSchema sid s w2" and n: "n = int (length (res_Turns (folded_session e sid s (w_db w2))))"
    using fo by (simp_all add: foldSession_iff [OF s])
  have "s = s4" using s s3 by (simp add: w3)
  have p: "projection e (w_db w') sid = projection e (w_db w2) sid"
    using projection_cong [of "w_db (late w3)" sid "w_db w3" e] same row_step_projection [OF rs, of e]
    by (simp add: w' same_inputs_def w3)
  have t: "session_turns w' sid = session_turns w3 sid"
    using row_step_projection [OF rs, of e] lt by (simp add: session_turns_def w')
  have "folded_session e sid s' (w_db w') = folded_session e sid s (w_db w2)"
    unfolding folded_session_def p by (simp add: e' f(1) \<open>s = s4\<close>)
  moreover have "map tr_turn (session_turns w' sid) = res_Turns (folded_session e sid s (w_db w2))"
    unfolding t unfolding w3 by (rule session_turns_fold)
  ultimately show ?thesis using n by (metis length_map)
qed

lemma clean_current:
  assumes "deriveOne de h sid w = (Inr n, w')" and "find_session (w_db (dd_early de sid w)) sid = Some s0"
    and "heeding sid (sr_updated s0) (dd_mid de sid)" "heeding sid (sr_updated s0) (dd_late de sid)"
    and "find_session (w_db w') sid = Some s'" "\<not> sr_dirty s'"
  shows "map tr_turn (session_turns w' sid) = res_Turns (folded_session (dd_env de sid) sid s' (w_db w')) \<and>
    n = int (length (session_turns w' sid))"
proof -
  have "derive_tx (dd_env de sid) h sid (dd_mid de sid) (dd_late de sid) (dd_early de sid w) = Inr (n, w')"
    using assms(1) by (auto simp: deriveOne_def Let_def opened_tx_def bindD_def runs_def split: sum.splits prod.splits option.splits if_splits)
  from clean_current_tx [OF this assms(2-6)] show ?thesis .
qed

section \<open>The backoff\<close>

definition parked_ok :: "parked \<Rightarrow> bool" where
  "parked_ok ps \<longleftrightarrow> distinct (map fst ps) \<and> length ps \<le> dirtyParkedMax"

lemma park_wait_range: "minute \<le> park_wait n \<and> park_wait n \<le> hour"
proof -
  have "(1::int) \<le> 2 ^ min (n - 1) 10" by simp
  then show ?thesis by (simp add: park_wait_def dirtyParkBase_def dirtyParkCap_def go_time)
qed

text \<open>A minute for the first failure, twice as long for each further one, an hour at most.\<close>

lemma park_wait_doubles: "park_wait (Suc n) = min (minute * 2 ^ n) hour"
proof (cases "n \<le> 10")
  case True
  then show ?thesis by (simp add: park_wait_def dirtyParkBase_def dirtyParkCap_def go_time)
next
  case False
  then have "(2::int) ^ 10 \<le> 2 ^ n" by (intro power_increasing) simp_all
  with False show ?thesis by (simp add: park_wait_def dirtyParkBase_def dirtyParkCap_def go_time)
qed

lemma length_park_delete: "length (park_delete sid ps) \<le> length ps"
  by (simp add: park_delete_def)

lemma park_delete_shorter: "sid \<in> fst ` set ps \<Longrightarrow> length (park_delete sid ps) < length ps"
  unfolding park_delete_def by (auto intro!: length_filter_less)

lemma distinct_park_delete: "distinct (map fst ps) \<Longrightarrow> distinct (map fst (park_delete sid ps))"
  by (simp add: park_delete_def distinct_map_filter)

lemma fold_listed:
  assumes "\<And>p a. fst (f p a) = fst p \<or> fst (f p a) = fst a"
  shows "fst (fold f qs a) \<in> insert (fst a) (fst ` set qs)"
proof (induction qs arbitrary: a)
  case Nil
  then show ?case by simp
next
  case (Cons q qs)
  from Cons.IH [of "f q a"] assms [of q a] show ?case by auto
qed

lemma soonest_listed:
  assumes "ps \<noteq> []"
  shows "fst (soonest ps) \<in> fst ` set ps"
proof -
  let ?f = "\<lambda>(i, p) (oldest, t). if oldest = [] \<or> pk_until p < t \<or> pk_until p = t \<and> i < oldest then (i, pk_until p) else (oldest, t)"
  have k: "fst (fold ?f qs a) \<in> insert (fst a) (fst ` set qs)" for qs a
    by (rule fold_listed) (simp add: case_prod_beta)
  obtain i p qs where ps: "ps = (i, p) # qs" using assms by (cases ps) auto
  have "soonest ps = fold ?f qs (i, pk_until p)" by (simp add: soonest_def ps)
  with k [of qs "(i, pk_until p)"] show ?thesis by (simp add: ps)
qed

lemma make_room_ok:
  assumes "parked_ok ps"
  shows "distinct (map fst (make_room now ps)) \<and> length (make_room now ps) < dirtyParkedMax"
proof -
  let ?live = "filter (\<lambda>p. now < pk_until (snd p)) ps"
  have l: "length ?live \<le> dirtyParkedMax" and d: "distinct (map fst ?live)"
    using assms by (auto simp: parked_ok_def distinct_map_filter intro: order_trans [OF length_filter_le])
  show ?thesis
  proof (cases "dirtyParkedMax \<le> length ?live")
    case True
    then have "?live \<noteq> []" by (auto simp: dirtyParkedMax_def)
    from park_delete_shorter [OF soonest_listed [OF this]] l d True show ?thesis
      by (simp add: make_room_def Let_def distinct_park_delete)
  next
    case False
    with d show ?thesis by (simp add: make_room_def Let_def)
  qed
qed

lemma parkSession_ok:
  assumes "parked_ok ps"
  shows "parked_ok (snd (parkSession sid now ps))"
proof -
  define ps1 where "ps1 = (if map_of ps sid = None \<and> dirtyParkedMax \<le> length ps then make_room now ps else ps)"
  have d: "distinct (map fst ps1)" using assms make_room_ok [OF assms, of now] by (simp add: ps1_def parked_ok_def)
  have "length (park_delete sid ps1) < dirtyParkedMax"
  proof (cases "map_of ps sid = None")
    case True
    then show ?thesis using assms make_room_ok [OF assms, of now] length_park_delete [of sid ps1]
      by (auto simp: ps1_def parked_ok_def split: if_splits)
  next
    case False
    then have "sid \<in> fst ` set ps" by (simp add: map_of_eq_None_iff)
    from park_delete_shorter [OF this] assms have "length (park_delete sid ps) < dirtyParkedMax" by (simp add: parked_ok_def)
    moreover have "ps1 = ps" using False by (auto simp: ps1_def)
    ultimately show ?thesis by simp
  qed
  moreover have "sid \<notin> set (map fst (park_delete sid ps1))" by (auto simp: park_delete_def)
  ultimately show ?thesis using d
    by (simp add: parkSession_def Let_def ps1_def [symmetric] park_put_def parked_ok_def distinct_park_delete)
qed

lemma unparkSession_ok: "parked_ok ps \<Longrightarrow> parked_ok (unparkSession sid ps)"
  using length_park_delete [of sid ps] by (simp add: parked_ok_def unparkSession_def distinct_park_delete)

lemma settle_ok: "parked_ok ps \<Longrightarrow> settle sid now r res ps = (res', ps') \<Longrightarrow> parked_ok ps'"
  by (auto simp: settle_def unparkSession_ok parkSession_ok split: sum.splits derive_error.splits)

lemma dirty_loop_ok: "dirty_loop de h ids (res, ps, w) = (b, res', ps', w') \<Longrightarrow> parked_ok ps \<Longrightarrow> parked_ok ps'"
proof (induction de h ids "(res, ps, w)" arbitrary: res ps w rule: dirty_loop.induct)
  case (1 de h res ps w)
  then show ?case by simp
next
  case (2 de h sid ids res ps w)
  obtain r w1 where d: "deriveOne de h sid w = (r, w1)" by (meson surj_pair)
  obtain res1 ps1 where s: "settle sid (dd_now de) r res ps = (res1, ps1)" by (meson surj_pair)
  show ?case using "2.prems" "2.hyps" [OF _ d [symmetric] _ s [symmetric]] settle_ok [OF "2.prems"(2) s]
    by (auto simp: d s split: if_splits)
qed

lemma DeriveDirty_ok: "parked_ok ps \<Longrightarrow> DeriveDirty de n ps w = (r, res, ps', w') \<Longrightarrow> parked_ok ps'"
  by (auto simp: DeriveDirty_def Let_def split: prod.splits bool.splits if_splits dest: dirty_loop_ok)

section \<open>Who is folded\<close>

lemma parkedSessions_iff: "distinct (map fst ps) \<Longrightarrow>
    sid \<in> set (parkedSessions now ps) \<longleftrightarrow> (\<exists>p. map_of ps sid = Some p \<and> now < pk_until p)"
  by (force simp: parkedSessions_def image_iff)

lemma parkSession_waits:
  assumes "t < now + park_wait (fst (parkSession sid now ps))"
  shows "sid \<in> set (parkedSessions t (snd (parkSession sid now ps)))"
  using assms by (simp add: parkSession_def parkedSessions_def park_put_def Let_def set_insort_key)

lemma dirty_ids_spared: "sid \<in> set parked \<Longrightarrow> sid \<notin> set (dirty_ids n parked d)"
  by (auto simp: dirty_ids_def dest!: in_set_takeD)

text \<open>A session is reached when fewer than the pass takes come before it.\<close>

lemma take_reaches:
  fixes f :: "'a \<Rightarrow> int"
  assumes "sorted_wrt (\<lambda>a b. f a \<le> f b) xs" "x \<in> set xs" "length (filter (\<lambda>y. f y \<le> f x) xs) \<le> n"
  shows "x \<in> set (take n xs)"
proof (rule ccontr)
  assume n: "x \<notin> set (take n xs)"
  have x: "x \<in> set (drop n xs)" using n assms(2) by (metis Un_iff append_take_drop_id set_append)
  then have l: "n < length xs" by (metis drop_all empty_iff empty_set not_le)
  have "\<forall>y\<in>set (take n xs). f y \<le> f x"
    using assms(1) x sorted_wrt_append [of "\<lambda>a b. f a \<le> f b" "take n xs" "drop n xs"] by simp
  then have "filter (\<lambda>y. f y \<le> f x) (take n xs) = take n xs" by (simp add: filter_id_conv)
  moreover have "filter (\<lambda>y. f y \<le> f x) (drop n xs) \<noteq> []" using x by (auto simp: filter_empty_conv)
  moreover have "filter (\<lambda>y. f y \<le> f x) xs = filter (\<lambda>y. f y \<le> f x) (take n xs) @ filter (\<lambda>y. f y \<le> f x) (drop n xs)"
    by (metis append_take_drop_id filter_append)
  ultimately have "n < length (filter (\<lambda>y. f y \<le> f x) xs)" using l by simp
  with assms(3) show False by simp
qed

definition waiting :: "string list \<Rightarrow> db \<Rightarrow> session_row list" where
  "waiting parked d = filter (\<lambda>s. sr_dirty s \<and> sr_id s \<notin> set parked) (t_sessions d)"

lemma dirty_reached:
  assumes "s \<in> set (waiting parked d)" "length (filter (\<lambda>x. sr_updated x \<le> sr_updated s) (waiting parked d)) \<le> n"
  shows "sr_id s \<in> set (dirty_ids n parked d)"
proof -
  let ?xs = "sort_by (\<lambda>a b. sr_updated a < sr_updated b) (waiting parked d)"
  have "sorted_wrt (\<lambda>a b. sr_updated a \<le> sr_updated b) ?xs" by (rule sorted_sort_by) auto
  moreover have "length (filter (\<lambda>x. sr_updated x \<le> sr_updated s) ?xs) \<le> n"
    using assms(2) by (metis mset_filter mset_sort_by size_mset)
  ultimately have "s \<in> set (take n ?xs)" using assms(1) by (intro take_reaches) simp_all
  then show ?thesis by (auto simp: dirty_ids_def waiting_def take_map)
qed

end
