(* ===== verification/ClassifyProps.thy ===== *)
theory ClassifyProps
  imports DirtyProps
begin

text \<open>
  Classifying settles: a session with content that has been classified, and a session that has been
  titled, is left alone by the next pass; and no message stays without a kind.
\<close>

section \<open>The rules as functions\<close>

definition head_of :: "db \<Rightarrow> string \<Rightarrow> string" where
  "head_of d sid =
     (case transcript_head d sid of
        Some n \<Rightarrow> if 0 < n then ''truncated_window'' else ''complete''
      | None \<Rightarrow> (case first_row d sid of None \<Rightarrow> ''complete''
          | Some x \<Rightarrow> if er_type x = SessionStarted \<or> er_type x = UserPrompt then ''complete'' else ''start_lost''))"

lemma head_rule_iff:
  "head_rule e sid v w = Inr (v', w') \<longleftrightarrow> dv_fail e DHead = None \<and>
   (transcript_head (w_db w) sid = None \<longrightarrow> dv_fail e DHookHead = None) \<and>
   v' = v\<lparr>v_head := head_of (w_db w) sid\<rparr> \<and> w' = w"
  by (auto simp: head_rule_def bindD_Inr head_of_def split: option.splits)

definition lost_of :: "derive_env \<Rightarrow> session_row \<Rightarrow> bool \<Rightarrow> work_db \<Rightarrow> bool" where
  "lost_of e f h w \<longleftrightarrow> h \<and> capture_lost e f (case w_health w of Some hs \<Rightarrow> hs | None \<Rightarrow> [])"

lemma loss_rule_iff:
  "loss_rule e f h v w = Inr (v', w') \<longleftrightarrow> (h \<longrightarrow> dv_fail e DLoss = None) \<and>
   v' = (if lost_of e f h w then v\<lparr>v_head := ''capture_loss''\<rparr> else v) \<and> w' = w"
  by (auto simp: loss_rule_def bindD_Inr lost_of_def)

definition opening_internal :: "db \<Rightarrow> string \<Rightarrow> bool" where
  "opening_internal d sid \<longleftrightarrow>
     (case (case human_prompt d sid of Some t \<Rightarrow> Some t | None \<Rightarrow> any_prompt d sid) of
        None \<Rightarrow> False | Some t \<Rightarrow> IsInternalTemplate t \<noteq> None)"

definition typed :: "bool \<Rightarrow> string \<Rightarrow> string" where
  "typed internal t =
     (if internal \<and> t = ''user'' then ''internal'' else if \<not> internal \<and> t = ''internal'' then ''user'' else t)"

definition settled_type :: "string \<Rightarrow> bool" where
  "settled_type t \<longleftrightarrow> t = ''automation'' \<or> t = ''empty''"

lemma internal_rule_iff:
  "internal_rule e sid v w = Inr (v', w') \<longleftrightarrow>
   (\<not> settled_type (v_type v) \<longrightarrow> dv_fail e DOpening = None \<and> (human_prompt (w_db w) sid = None \<longrightarrow> dv_fail e DFirst = None)) \<and>
   v' = v\<lparr>v_type := typed (opening_internal (w_db w) sid) (v_type v)\<rparr> \<and> w' = w"
  by (cases "human_prompt (w_db w) sid")
    (auto simp: internal_rule_def bindD_Inr Let_def settled_type_def opening_internal_def typed_def)

definition asks_lineage :: "session_row \<Rightarrow> bool" where
  "asks_lineage f \<longleftrightarrow> sr_parent f = [] \<and> sr_lineage f = [] \<and> sr_parent_record f \<noteq> []"

definition with_lineage :: "db \<Rightarrow> session_row \<Rightarrow> verdict \<Rightarrow> verdict" where
  "with_lineage d f v =
     (if asks_lineage f
      then (case lineageOwners d f of [p] \<Rightarrow> v\<lparr>v_parent := p, v_lineage := ''record_uuid''\<rparr> | _ \<Rightarrow> v) else v)"

lemma lineage_rule_iff:
  "lineage_rule e f v w = Inr (v', w') \<longleftrightarrow> (asks_lineage f \<longrightarrow> dv_fail e DLineage = None) \<and>
   v' = with_lineage (w_db w) f v \<and> w' = w"
  by (auto simp: lineage_rule_def bindD_Inr with_lineage_def asks_lineage_def)

text \<open>The class of a session that has content.\<close>

definition class_of :: "derive_env \<Rightarrow> bool \<Rightarrow> string \<Rightarrow> session_row \<Rightarrow> work_db \<Rightarrow> verdict" where
  "class_of e h sid f w =
     (let v0 = empty_rule e f True (stored_verdict f);
          v1 = v0\<lparr>v_head := head_of (w_db w) sid\<rparr>;
          v2 = (if lost_of e f h w then v1\<lparr>v_head := ''capture_loss''\<rparr> else v1)
      in with_lineage (w_db w) f (v2\<lparr>v_type := typed (opening_internal (w_db w) sid) (v_type v2)\<rparr>))"

definition class_runs :: "derive_env \<Rightarrow> bool \<Rightarrow> string \<Rightarrow> session_row \<Rightarrow> work_db \<Rightarrow> bool" where
  "class_runs e h sid f w \<longleftrightarrow>
     (\<forall>st\<in>{DFacts, DContent, DHead}. dv_fail e st = None) \<and>
     (transcript_head (w_db w) sid = None \<longrightarrow> dv_fail e DHookHead = None) \<and> (h \<longrightarrow> dv_fail e DLoss = None) \<and>
     (\<not> settled_type (v_type (empty_rule e f True (stored_verdict f))) \<longrightarrow>
        dv_fail e DOpening = None \<and> (human_prompt (w_db w) sid = None \<longrightarrow> dv_fail e DFirst = None)) \<and>
     (asks_lineage f \<longrightarrow> dv_fail e DLineage = None)"

lemma classifySession_content:
  assumes "find_session (w_db w) sid = Some f" "hasContent (w_db w) sid"
  shows "classifySession e h sid w = Inr (b, w') \<longleftrightarrow> class_runs e h sid f w \<and>
    (if class_of e h sid f w = stored_verdict f then \<not> b \<and> w' = w
     else b \<and> dv_fail e DClass = None \<and> w' = set_row sid (set_verdict e (class_of e h sid f w)) w)"
  using assms
  by (auto simp: classifySession_def bindD_Inr readSessionFacts_iff Let_def class_runs_def class_of_def
      head_rule_iff loss_rule_iff internal_rule_iff lineage_rule_iff)

section \<open>Classifying twice\<close>

lemma verdict_set [simp]: "stored_verdict (set_verdict e v f) = v"
  by (simp add: stored_verdict_def set_verdict_def)

lemma set_verdict_keeps [simp]: "sr_id (set_verdict e v f) = sr_id f" "sr_ended (set_verdict e v f) = sr_ended f"
  "sr_started (set_verdict e v f) = sr_started f" "sr_email (set_verdict e v f) = sr_email f" "sr_device (set_verdict e v f) = sr_device f"
  "sr_ended_at (set_verdict e v f) = sr_ended_at f" "sr_parent_record (set_verdict e v f) = sr_parent_record f"
  "sr_parent (set_verdict e v f) = v_parent v" "sr_lineage (set_verdict e v f) = v_lineage v"
  by (simp_all add: set_verdict_def)

lemma list_ex_set_row:
  assumes "\<And>s. P (f s) = P s"
  shows "list_ex P (t_sessions (w_db (set_row sid f w))) = list_ex P (t_sessions (w_db w))"
  using assms by (auto simp: set_row_def update_sessions_def list_ex_iff)

lemma lineageOwners_set:
  "lineageOwners (w_db (set_row sid (set_verdict e v) w)) (set_verdict e u f) = lineageOwners (w_db w) f"
  by (simp add: lineageOwners_def list_ex_set_row)

lemma reads_set_row [simp]: "transcript_head (w_db (set_row k g w)) sid = transcript_head (w_db w) sid"
  "first_row (w_db (set_row k g w)) sid = first_row (w_db w) sid"
  "human_prompt (w_db (set_row k g w)) sid = human_prompt (w_db w) sid"
  "any_prompt (w_db (set_row k g w)) sid = any_prompt (w_db w) sid"
  "hasContent (w_db (set_row k g w)) sid = hasContent (w_db w) sid"
  by (simp_all add: transcript_head_def first_row_def human_prompt_def any_prompt_def first_user_row_def hasContent_def)

lemma rules_set_row [simp]: "head_of (w_db (set_row k g w)) sid = head_of (w_db w) sid"
  "opening_internal (w_db (set_row k g w)) sid = opening_internal (w_db w) sid"
  by (simp_all add: head_of_def opening_internal_def cong: option.case_cong)

lemma typed_twice [simp]: "typed i (typed i t) = typed i t"
  by (simp add: typed_def)

lemma typed_settled [simp]: "settled_type (typed i t) = settled_type t"
  by (auto simp: typed_def settled_type_def)

lemma empty_rule_content:
  "empty_rule e f True v = v\<lparr>v_type := (if v_type v = ''empty'' then ''user'' else v_type v), v_empty := []\<rparr>"
  by (simp add: empty_rule_def Let_def)

lemma verdict_id: "v_type u = a \<Longrightarrow> v_empty u = b \<Longrightarrow> v_head u = c \<Longrightarrow> u\<lparr>v_type := a, v_empty := b, v_head := c\<rparr> = u"
  by auto

lemma class_of_alt:
  "class_of e h sid f w = with_lineage (w_db w) f
     ((stored_verdict f)\<lparr>v_type := typed (opening_internal (w_db w) sid) (if sr_type f = ''empty'' then ''user'' else sr_type f),
        v_empty := [], v_head := (if lost_of e f h w then ''capture_loss'' else head_of (w_db w) sid)\<rparr>)"
  by (simp add: class_of_def Let_def empty_rule_content stored_verdict_def)

lemma with_lineage_keeps [simp]: "v_type (with_lineage d f v) = v_type v" "v_empty (with_lineage d f v) = v_empty v"
  "v_head (with_lineage d f v) = v_head v" "v_content (with_lineage d f v) = v_content v"
  by (simp_all add: with_lineage_def split: list.split)

lemma with_lineage_again:
  assumes "v = with_lineage (w_db w) f u" "v_parent u = sr_parent f" "v_lineage u = sr_lineage f"
  shows "with_lineage (w_db (set_row sid (set_verdict e v) w)) (set_verdict e v f) v = v"
proof (cases "asks_lineage f \<and> length (lineageOwners (w_db w) f) = 1")
  case True
  then obtain p where "asks_lineage f" "lineageOwners (w_db w) f = [p]" by (auto simp: length_Suc_conv)
  then have "v_lineage v = ''record_uuid''" by (simp add: assms(1) with_lineage_def)
  then show ?thesis by (simp add: with_lineage_def asks_lineage_def)
next
  case False
  then have "v = u" by (auto simp: assms(1) with_lineage_def split: list.split)
  then have "asks_lineage (set_verdict e v f) = asks_lineage f" using assms(2,3) by (simp add: asks_lineage_def)
  with False show ?thesis by (auto simp: with_lineage_def lineageOwners_set split: list.split)
qed

lemma class_of_settles:
  "class_of e h sid (set_verdict e (class_of e h sid f w) f) (set_row sid (set_verdict e (class_of e h sid f w)) w) =
   class_of e h sid f w"
proof -
  let ?c = "class_of e h sid f w"
  let ?f = "set_verdict e ?c f"
  let ?w = "set_row sid (set_verdict e ?c) w"
  let ?t = "typed (opening_internal (w_db w) sid) (if sr_type f = ''empty'' then ''user'' else sr_type f)"
  have t: "v_type ?c = ?t" "v_empty ?c = []" "v_head ?c = (if lost_of e f h w then ''capture_loss'' else head_of (w_db w) sid)"
    by (simp_all add: class_of_alt)
  have ty: "sr_type ?f = ?t" by (simp add: set_verdict_def t)
  have "?t \<noteq> ''empty''" by (simp add: typed_def)
  then have tt: "typed (opening_internal (w_db w) sid) (if sr_type ?f = ''empty'' then ''user'' else sr_type ?f) = v_type ?c"
    unfolding ty t by (simp del: if_split)
  have l: "(if lost_of e ?f h ?w then ''capture_loss'' else head_of (w_db w) sid) = v_head ?c"
    unfolding t by (simp add: lost_of_def capture_lost_def)
  have "class_of e h sid ?f ?w = with_lineage (w_db ?w) ?f (?c\<lparr>v_type := v_type ?c, v_empty := [], v_head := v_head ?c\<rparr>)"
    by (subst class_of_alt) (simp only: rules_set_row verdict_set tt l)
  also have "?c\<lparr>v_type := v_type ?c, v_empty := [], v_head := v_head ?c\<rparr> = ?c" by (rule verdict_id) (simp_all add: t)
  also have "with_lineage (w_db ?w) ?f ?c = ?c"
    by (rule with_lineage_again [OF class_of_alt]) (simp_all add: stored_verdict_def)
  finally show ?thesis .
qed

lemma asks_lineage_again: "asks_lineage (set_verdict e (class_of e h sid f w) f) \<Longrightarrow> asks_lineage f"
  by (auto simp: asks_lineage_def class_of_def with_lineage_def Let_def empty_rule_content stored_verdict_def split: if_splits list.splits)

lemma classify_twice:
  assumes f: "find_session (w_db w) sid = Some f" and c: "hasContent (w_db w) sid"
    and r: "classifySession e h sid w = Inr (b, w')"
  shows "classifySession e h sid w' = Inr (False, w')"
proof -
  note i = classifySession_content [OF f c, of e h b w', THEN iffD1, OF r]
  show ?thesis
  proof (cases "class_of e h sid f w = stored_verdict f")
    case True
    with i r show ?thesis by auto
  next
    case False
    let ?v = "class_of e h sid f w"
    from False i have w': "w' = set_row sid (set_verdict e ?v) w" by simp
    have f': "find_session (w_db w') sid = Some (set_verdict e ?v f)" by (simp add: w' find_set_row f)
    have c': "hasContent (w_db w') sid" using c by (simp add: w')
    have t: "settled_type (v_type (empty_rule e f True (stored_verdict f))) = settled_type (v_type (empty_rule e (set_verdict e ?v f) True ?v))"
      by (simp add: class_of_def with_lineage_def Let_def empty_rule_content stored_verdict_def typed_def settled_type_def split: list.split)
    have "class_runs e h sid (set_verdict e ?v f) w'"
      using i asks_lineage_again [of e h sid f w] by (simp add: class_runs_def w' t)
    then show ?thesis using class_of_settles [of e h sid f w]
      by (subst classifySession_content [OF f' c']) (simp add: w')
  qed
qed

section \<open>Titling twice\<close>

definition title_of :: "db \<Rightarrow> string \<Rightarrow> string \<Rightarrow> string option \<times> string" where
  "title_of d sid t =
     (case human_prompt d sid of
        Some p \<Rightarrow> (Some (fst (prompt_title p)), snd (prompt_title p))
      | None \<Rightarrow>
          if t = ''automation'' \<or> t = ''internal''
          then (case any_prompt d sid of Some p \<Rightarrow> (Some (fst (prompt_title p)), ''automation_template'') | None \<Rightarrow> (None, ''none''))
          else (None, ''none''))"

lemma retitleSession_iff:
  assumes "find_session (w_db w) sid = Some f"
  shows "retitleSession e sid w = Inr (b, w') \<longleftrightarrow> dv_fail e DFacts = None \<and> dv_fail e DOpening = None \<and>
    (human_prompt (w_db w) sid = None \<and> (sr_type f = ''automation'' \<or> sr_type f = ''internal'') \<longrightarrow> dv_fail e DFirst = None) \<and>
    (if title_of (w_db w) sid (sr_type f) = (sr_first_prompt f, sr_title_source f) then \<not> b \<and> w' = w
     else b \<and> dv_fail e DTitle = None \<and>
       w' = set_row sid (set_title e (fst (title_of (w_db w) sid (sr_type f))) (snd (title_of (w_db w) sid (sr_type f)))) w)"
  using assms
  by (cases "human_prompt (w_db w) sid"; cases "any_prompt (w_db w) sid")
    (auto simp: retitleSession_def bindD_Inr readSessionFacts_iff title_of_def)

lemma retitle_twice:
  assumes f: "find_session (w_db w) sid = Some f" and r: "retitleSession e sid w = Inr (b, w')"
  shows "retitleSession e sid w' = Inr (False, w')"
proof (cases "title_of (w_db w) sid (sr_type f) = (sr_first_prompt f, sr_title_source f)")
  case True
  with r show ?thesis by (simp add: retitleSession_iff [OF f])
next
  case False
  let ?g = "set_title e (fst (title_of (w_db w) sid (sr_type f))) (snd (title_of (w_db w) sid (sr_type f)))"
  have w': "w' = set_row sid ?g w" using False r by (simp add: retitleSession_iff [OF f])
  have f': "find_session (w_db w') sid = Some (?g f)" by (simp add: w' find_set_row f set_title_def)
  have "title_of (w_db w') sid t = title_of (w_db w) sid t" for t by (simp add: w' title_of_def cong: option.case_cong)
  moreover note iffD1 [OF retitleSession_iff [OF f] r]
  ultimately show ?thesis by (subst retitleSession_iff [OF f']) (simp add: w' set_title_def)
qed

section \<open>Kinds\<close>

lemma classifyCore_kind: "m_kind (classifyCore t p b r x y) \<noteq> KindNone"
  by (auto simp: classifyCore_def Let_def msg_def split: option.split dest!: slashCommand_kind)

lemma classifyReminders_kind: "m_kind (classifyReminders t p x y) \<noteq> KindNone"
  by (cases "stripReminders t") (simp add: classifyReminders_def msg_def classifyCore_kind)

lemma ClassifyUser_kind: "m_kind (ClassifyUser t raw x y) \<noteq> KindNone"
proof (cases "taskNotification (TrimSpace t)")
  case None
  then show ?thesis
    by (cases "teammateEnvelope (TrimSpace t)")
      (simp_all add: ClassifyUser_def Let_def msg_def classifyReminders_kind if_distrib [of m_kind] cong: if_cong)
next
  case (Some m)
  with taskNotification_kind [OF this] show ?thesis
    by (simp add: ClassifyUser_def Let_def msg_def if_distrib [of m_kind] cong: if_cong)
qed

lemma text_kind_named: "text_kind role t agent n \<noteq> KindNone"
  by (simp add: text_kind_def ClassifyUser_kind ClassifyAssistant_def)

lemma rekind_settles: "\<not> needs_kind (d\<lparr>t_messages := ms\<rparr>) sid (rekind d sid m)"
  by (auto simp: rekind_def needs_kind_def event_by_id_def text_kind_named split: option.split)

lemma classifyMessages_settles:
  assumes "classifyMessages e sid w = Inr (n, w')"
  shows "\<forall>m\<in>set (t_messages (w_db w')). \<not> needs_kind (w_db w') sid m"
proof -
  have n: "needs_kind (d\<lparr>t_messages := ms\<rparr>) sid m = needs_kind d sid m" for d ms m
    by (simp add: needs_kind_def event_by_id_def)
  show ?thesis using assms rekind_settles [of _ _ sid]
    by (auto simp: classifyMessages_def bindD_Inr filter_empty_conv n split: if_splits)
qed

end
