(* ===== verification/DeriveClaims.thy ===== *)
theory DeriveClaims
  imports ClassifyProps
begin

text \<open>
  The properties of derivation: a session left clean is current, its turns hold every event once
  and charge each model call once, folding and classifying settle, and a session that keeps failing
  is bounded in what it costs the others.
\<close>

section \<open>A sample corpus\<close>

definition sample_event :: "string \<Rightarrow> event_type \<Rightarrow> string \<Rightarrow> time \<Rightarrow> string \<Rightarrow> event_row" where
  "sample_event i ty org t pid =
     \<lparr>er_id = i, er_session = ''s'', er_email = ''a@x.com'', er_seq = 1, er_type = ty, er_origin = org, er_occurred = t,
      er_agent = [], er_workflow = [], er_model = ''m'', er_tool = [], er_body = [], er_version = 1, er_prompt = pid,
      er_record = [], er_parent = [], er_request = [], er_message = [], er_tooluse = []\<rparr>"

definition sample_message :: "event_row \<Rightarrow> string \<Rightarrow> Kind \<Rightarrow> string \<Rightarrow> message_row" where
  "sample_message x role k t =
     \<lparr>mr_event = er_id x, mr_session = er_session x, mr_email = er_email x, mr_seq = er_seq x, mr_role = role,
      mr_occurred = er_occurred x, mr_text = t, mr_kind = k, mr_agent = []\<rparr>"

definition sample_credit :: ledger_row where
  "sample_credit = \<lparr>lr_message = ''m1'', lr_request = ''r1'', lr_event = ''e2'', lr_session = ''s'', lr_email = ''a@x.com'',
     lr_model = ''m'', lr_occurred = 1, lr_input = 10, lr_output = 20, lr_read = 0, lr_5m = 1, lr_1h = 2, lr_cost = 1 / 2\<rparr>"

definition sample_tx :: tx_env where
  "sample_tx = \<lparr>stmt_ok = (\<lambda>_. True), index_ready = True, tx_now = 7, price = (\<lambda>_ _ _. 0), tx_codec = sample_codec\<rparr>"

definition sample_env :: derive_env where
  "sample_env = \<lparr>dv_fail = (\<lambda>_. None), dv_now = 9, dv_clock = 9, dv_hash = (\<lambda>t. take 8 (filter (\<lambda>c. c \<noteq> CHR ''#'') t)),
     dv_collate = (\<lambda>t. t), dv_hour = (\<lambda>t. t)\<rparr>"

definition corpus :: "event_row list \<Rightarrow> message_row list \<Rightarrow> ledger_row list \<Rightarrow> work_db" where
  "corpus es ms ls =
     \<lparr>w_db = \<lparr>t_sessions = [claimed_row sample_tx ''s'' ''a@x.com'' [] ''claude_code'' 1], t_events = es, t_messages = ms, t_ledger = ls\<rparr>,
      w_turns = [], w_events = [], w_sup = Map.empty, w_health = None\<rparr>"

definition sample_corpus :: work_db where
  "sample_corpus =
     (let p = sample_event ''e1'' UserPrompt OriginHook 1 ''p1''; a = sample_event ''e2'' AssistantTurn OriginTranscript 2 ''p1''
      in corpus [p, a] [sample_message p ''user'' KindNone ''do it'', sample_message a ''assistant'' KindAssistantText ''done''] [sample_credit])"

definition sample_dirty :: dirty_env where
  "sample_dirty = \<lparr>dd_env = (\<lambda>_. sample_env), dd_busy = (\<lambda>_. False), dd_early = (\<lambda>_ w. w), dd_mid = (\<lambda>_ w. w), dd_late = (\<lambda>_ w. w),
     dd_query = None, dd_cancelled = (\<lambda>_. False), dd_cut = (\<lambda>_. False), dd_now = 9, dd_drain = (\<lambda>w. ((0, 0, None), w))\<rparr>"

section \<open>Clean means current\<close>


definition derived_sample :: work_db where
  "derived_sample = snd (deriveOne sample_dirty False ''s'' sample_corpus)"

lemma sample_derives: "fst (deriveOne sample_dirty False ''s'' sample_corpus) = Inr 1"
  "map (sr_dirty \<circ> the) [find_session (w_db derived_sample) ''s''] = [False]"
  "find_session (w_db sample_corpus) ''s'' \<noteq> None" "find_session (w_db derived_sample) ''s'' \<noteq> None"
  by code_simp+


section \<open>What a fold writes\<close>

text \<open>
  C17. After a fold every event of the session that is not a session's start or end stands in exactly
  one turn of the table, events being stored once; and no row of another session has changed.
\<close>
theorem fold_rows_conserve:
  assumes "foldSession e v sid w = Inr (n, w')" and "distinct (map er_id (t_events (w_db w)))"
  shows "mset (map te_event (filter (\<lambda>r. te_session r = sid) (w_events w'))) =
      mset (map er_id (filter (\<lambda>x. er_session x = sid \<and> \<not> is_lifecycle (er_type x)) (t_events (w_db w)))) \<and>
    filter (\<lambda>r. te_session r \<noteq> sid) (w_events w') = filter (\<lambda>r. te_session r \<noteq> sid) (w_events w) \<and>
    filter (\<lambda>r. tr_session r \<noteq> sid) (w_turns w') = filter (\<lambda>r. tr_session r \<noteq> sid) (w_turns w)"
proof -
  obtain s where s: "find_session (w_db w) sid = Some s"
    using assms(1) by (auto simp: foldSession_def bindD_Inr readSessionFacts_iff)
  then have w': "w' = fold_spec e v sid s w" using assms(1) by (simp add: foldSession_iff)
  have "distinct (map er_id (shown_events (w_db w) sid))"
    using assms(2) by (simp add: shown_events_def session_events_def distinct_map_filter)
  then have d: "distinct (map fst (concat (map Events (res_Turns (folded_session e sid s (w_db w))))))"
    using folded_session_ids [of e sid s "w_db w"] by (metis mset_eq_imp_distinct_iff)
  have "shown_events (w_db w) sid = filter (\<lambda>x. er_session x = sid \<and> \<not> is_lifecycle (er_type x)) (t_events (w_db w))"
    by (simp add: shown_events_def session_events_def conj_commute)
  then show ?thesis unfolding w' turn_events_fold [OF d] folded_session_ids by (simp add: fold_spec_others)
qed

definition folded_sample :: work_db where
  "folded_sample = fold_spec sample_env 4 ''s'' (the (find_session (w_db sample_corpus) ''s'')) sample_corpus"

lemma sample_folds: "foldSession sample_env 4 ''s'' sample_corpus = Inr (1, folded_sample)"
proof -
  have "fold_ok sample_env 4 ''s'' (the (find_session (w_db sample_corpus) ''s'')) sample_corpus"
    "length (res_Turns (folded_session sample_env ''s'' (the (find_session (w_db sample_corpus) ''s'')) (w_db sample_corpus))) = 1"
    by code_simp+
  moreover have "find_session (w_db sample_corpus) ''s'' = Some (the (find_session (w_db sample_corpus) ''s''))"
    using sample_derives(3) by simp
  ultimately show ?thesis by (simp add: foldSession_iff folded_sample_def)
qed

theorem fold_rows_conserve_witness:
  "mset (map te_event (filter (\<lambda>r. te_session r = ''s'') (w_events folded_sample))) = {#''e1'', ''e2''#}"
proof -
  have "distinct (map er_id (t_events (w_db sample_corpus)))" by code_simp
  note c = conjunct1 [OF fold_rows_conserve [OF sample_folds this]]
  have "map er_id (filter (\<lambda>x. er_session x = ''s'' \<and> \<not> is_lifecycle (er_type x)) (t_events (w_db sample_corpus))) = [''e1'', ''e2'']"
    by code_simp
  with c show ?thesis by simp
qed

text \<open>
  C18. Each model call is charged once: whichever figure of the ledger is summed over a session's
  turns, the sum is that over the ledger rows of its events, although a row may be shown by two
  captures and a turn by several.
\<close>
theorem fold_charges_once:
  assumes "foldSession e v sid w = Inr (n, w')" and "g \<in> {u_input, u_output, u_read, u_write, u_micros}"
  shows "sum_list (map (\<lambda>r. g (tr_usage r)) (session_turns w' sid)) =
    sum_list (map (\<lambda>x. case credited (w_db w) sid (er_id x) of None \<Rightarrow> 0 | Some u \<Rightarrow> g u)
      (filter (\<lambda>x. er_session x = sid \<and> \<not> is_lifecycle (er_type x)) (t_events (w_db w))))"
proof -
  obtain s where s: "find_session (w_db w) sid = Some s"
    using assms(1) by (auto simp: foldSession_def bindD_Inr readSessionFacts_iff)
  then have "w' = fold_spec e v sid s w" using assms(1) by (simp add: foldSession_iff)
  moreover have "g \<in> set figures" using assms(2) by (simp add: figures_def)
  moreover have "shown_events (w_db w) sid = filter (\<lambda>x. er_session x = sid \<and> \<not> is_lifecycle (er_type x)) (t_events (w_db w))"
    by (simp add: shown_events_def session_events_def conj_commute)
  ultimately show ?thesis by (simp add: charged_once charge_def)
qed

theorem fold_charges_once_witness:
  "sum_list (map (\<lambda>r. u_micros (tr_usage r)) (session_turns folded_sample ''s'')) = 500000"
proof -
  have "sum_list (map (\<lambda>x. case credited (w_db sample_corpus) ''s'' (er_id x) of None \<Rightarrow> 0 | Some u \<Rightarrow> u_micros u)
      (filter (\<lambda>x. er_session x = ''s'' \<and> \<not> is_lifecycle (er_type x)) (t_events (w_db sample_corpus)))) = 500000"
    by code_simp
  with fold_charges_once [OF sample_folds, of u_micros] show ?thesis by simp
qed

text \<open>C28. Folding a session that has not changed changes nothing: neither a row nor its position.\<close>
theorem foldSession_again:
  assumes "foldSession e v sid w = Inr (n, w')"
  shows "foldSession e v sid w' = Inr (n, w')"
proof -
  obtain s where s: "find_session (w_db w) sid = Some s"
    using assms by (auto simp: foldSession_def bindD_Inr readSessionFacts_iff)
  with assms have w': "w' = fold_spec e v sid s w" and ok: "fold_ok e v sid s w"
    and n: "n = int (length (res_Turns (folded_session e sid s (w_db w))))" by (simp_all add: foldSession_iff)
  have "find_session (w_db w') sid = Some s" by (simp add: w' s)
  then show ?thesis using fold_ok_again [OF ok] n by (simp add: foldSession_iff w' fold_spec_idem)
qed

theorem foldSession_again_witness: "foldSession sample_env 4 ''s'' folded_sample = Inr (1, folded_sample)"
  by (rule foldSession_again [OF sample_folds])

section \<open>Failing on one's own rows\<close>



text \<open>Five prompts whose keys collide: a notification named by two ids, one id used twice, and its number.\<close>

definition colliding_corpus :: work_db where
  "colliding_corpus =
     (let a = sample_event ''a'' UserPrompt OriginTranscript (1 * second) ''y''; b = sample_event ''b'' UserPrompt OriginHook (2 * second) ''x'';
          c = sample_event ''c'' UserPrompt OriginTranscript (3 * second) ''x''; d = sample_event ''d'' UserPrompt OriginTranscript (4 * second) ''x'';
          f = sample_event ''f'' UserPrompt OriginTranscript (5 * second) ''x#2''
      in corpus [a, b, c, d, f]
           [sample_message a ''user'' KindTaskNotification ''n'', sample_message b ''user'' KindTaskNotification ''n'',
            sample_message c ''user'' KindHuman ''c'', sample_message d ''user'' KindHuman ''d'', sample_message f ''user'' KindHuman ''f''] [])"

lemma colliding_error:
  "(case foldSession sample_env 4 ''s'' colliding_corpus of Inl err \<Rightarrow> Some err | Inr r \<Rightarrow> None) = Some (DSql DTurns unique_violation)"
  by code_simp


section \<open>Classifying\<close>

text \<open>
  C29. Classifying settles in one pass: a session that has content and has been classified is left as
  it is by the next pass over it, whatever class, head or parent the first one found.
\<close>
theorem classifySession_settles:
  assumes "classifySession e h sid w = Inr (b, w')" and "hasContent (w_db w) sid"
  shows "classifySession e h sid w' = Inr (False, w')"
proof -
  obtain f where "find_session (w_db w) sid = Some f"
    using assms(1) by (auto simp: classifySession_def bindD_Inr readSessionFacts_iff)
  from classify_twice [OF this assms(2,1)] show ?thesis .
qed

definition classified_sample :: work_db where
  "classified_sample = (case classifySession sample_env False ''s'' sample_corpus of Inr (b, w) \<Rightarrow> w | Inl err \<Rightarrow> sample_corpus)"

lemma sample_classifies:
  "(case classifySession sample_env False ''s'' sample_corpus of Inr (b, w) \<Rightarrow> b | Inl err \<Rightarrow> False)"
  "hasContent (w_db sample_corpus) ''s''"
  by code_simp+

theorem classifySession_settles_witness:
  "classifySession sample_env False ''s'' classified_sample = Inr (False, classified_sample)"
proof -
  have "classifySession sample_env False ''s'' sample_corpus = Inr (True, classified_sample)"
    using sample_classifies(1) by (auto simp: classified_sample_def split: sum.splits)
  from classifySession_settles [OF this sample_classifies(2)] show ?thesis .
qed

section \<open>The cost of a failing session\<close>

text \<open>
  C30. A session whose fold failed is left out of the pass for exactly its backoff: a minute after the
  first failure, twice as long after each further one, an hour at most.
\<close>
theorem failed_session_backs_off:
  assumes "distinct (map fst ps)" and "parkSession sid now ps = (n, ps')"
  shows "(sid \<in> set (parkedSessions t ps') \<longleftrightarrow> t < now + min (minute * 2 ^ (n - 1)) hour) \<and>
    (t < now + minute \<longrightarrow> sid \<notin> set (dirty_ids k (parkedSessions t ps') d))"
proof -
  have n: "0 < n" using assms(2) by (auto simp: parkSession_def Let_def split: option.splits)
  then have w: "park_wait n = min (minute * 2 ^ (n - 1)) hour" using park_wait_doubles [of "n - 1"] by simp
  have m: "map_of ps' sid = Some \<lparr>pk_attempts = n, pk_until = now + park_wait n\<rparr>"
    using assms(2) by (auto simp: parkSession_def Let_def park_put_def)
  have "sid \<notin> set (map fst (park_delete sid xs))" for xs by (auto simp: park_delete_def)
  moreover have "distinct (map fst (make_room now ps))"
    using assms(1) by (simp add: make_room_def Let_def park_delete_def distinct_map_filter)
  ultimately have "distinct (map fst ps')"
    using assms distinct_park_delete [of _ sid] by (auto simp: parkSession_def Let_def park_put_def)
  then have 1: "sid \<in> set (parkedSessions t ps') \<longleftrightarrow> t < now + min (minute * 2 ^ (n - 1)) hour"
    using m w by (simp add: parkedSessions_iff)
  have "minute \<le> min (minute * 2 ^ (n - 1)) hour" using park_wait_range [of n] w by simp
  with 1 show ?thesis using dirty_ids_spared [of sid "parkedSessions t ps'" k d] by auto
qed

theorem failed_session_backs_off_witness:
  "''s'' \<in> set (parkedSessions 5 (snd (parkSession ''s'' 0 [(''s'', \<lparr>pk_attempts = 2, pk_until = 1\<rparr>)])))"
proof -
  have "parkSession ''s'' 0 [(''s'', \<lparr>pk_attempts = 2, pk_until = 1\<rparr>)] =
      (3, snd (parkSession ''s'' 0 [(''s'', \<lparr>pk_attempts = 2, pk_until = 1\<rparr>)]))"
    by (simp add: parkSession_def)
  from failed_session_backs_off [OF _ this, of 5] show ?thesis by (simp add: go_time)
qed



text \<open>
  C31. The record of failing sessions stays within its bound: a pass over any number of failures keeps
  at most ten thousand entries, one for a session.
\<close>
theorem parked_sessions_bounded:
  assumes "DeriveDirty de k ps w = (r, res, ps', w')" and "distinct (map fst ps)" and "length ps \<le> 10000"
  shows "distinct (map fst ps') \<and> length ps' \<le> 10000"
  using DeriveDirty_ok [OF _ assms(1)] assms(2,3) by (simp add: parked_ok_def dirtyParkedMax_def)

theorem parked_sessions_bounded_witness:
  "length (fst (snd (snd (DeriveDirty sample_dirty 1 [(''s'', \<lparr>pk_attempts = 2, pk_until = 10\<rparr>)] sample_corpus)))) \<le> 10000"
proof -
  have "\<exists>r res ps w. DeriveDirty sample_dirty 1 [(''s'', \<lparr>pk_attempts = 2, pk_until = 10\<rparr>)] sample_corpus = (r, res, ps, w)"
    by (metis prod.exhaust)
  then obtain r res ps w where d: "DeriveDirty sample_dirty 1 [(''s'', \<lparr>pk_attempts = 2, pk_until = 10\<rparr>)] sample_corpus = (r, res, ps, w)"
    by blast
  from parked_sessions_bounded [OF d] have "length ps \<le> 10000" by simp
  then show ?thesis by (simp only: d fst_conv snd_conv)
qed

end
