(* ===== verification/Daemon.thy ===== *)
theory Daemon
  imports GoLib
begin

text \<open>
  The session daemon (\<open>internal/daemon/daemon.go\<close>, \<open>lock_unix.go\<close>): the state directory, the
  daemon's life from \<open>New\<close> to \<open>Finalize\<close>, and the operations other processes run on the same
  directory: \<open>Reconcile\<close>, \<open>StopStale\<close>, \<open>Sweep\<close>, the end marker. A file of the directory holds a
  state (\<open>StateDoc\<close>) or bytes that do not decode to one. Every system call asks the
  environment whether it fails, and a failed write leaves behind what \<open>d_residue\<close> says. Which
  pids are alive, which locks are held and whether a signal can be sent are the environment's.
\<close>

section \<open>Data\<close>

record DState =
  SessionID :: string
  OwnerPID :: int
  DaemonPID :: int
  Build :: string
  ds_StartedAt :: time
  Heartbeat :: time
  Cwd :: string
  TranscriptPath :: string
  Finalized :: bool
  EndedAt :: time
  EndReason :: string
  Recovered :: int

datatype dcontent = StateDoc DState | OtherBytes

record dfile =
  df_content :: dcontent
  df_mtime :: time

type_synonym ddir = "dfile dir"

datatype dop =
    DMkdir
  | DReadDir
  | DRead string
  | DMarshal
  | DCreate string
  | DWrite string
  | DClose string
  | DRename string string
  | DRemove string
  | DStat string
  | DOpenLock string
  | DFlock string

record denv =
  d_now :: time
  d_alive :: "int \<Rightarrow> bool"
  d_pid :: int
  d_ppid :: int
  d_missing :: bool
  d_fault :: "dop \<Rightarrow> bool"
  d_residue :: "string \<Rightarrow> dfile option"
  d_rand :: nat
  d_held :: "string \<Rightarrow> bool"
  d_kill :: "int \<Rightarrow> bool"
  d_grace :: nat

datatype daemon_error = ErrNoDir | ErrNoSession | ErrDMkdir | ErrDReadDir | ErrLocked | ErrLockDir | ErrOpenLock | ErrFlock

record DOptions =
  do_Dir :: string
  do_SessionID :: string
  do_OwnerPID :: int
  do_Build :: string
  do_Cwd :: string
  do_TranscriptPath :: string
  FlushInterval :: duration
  ReportInterval :: duration
  PollInterval :: duration
  StaleAfter :: duration
  ShutdownGrace :: duration

definition defaultFlushInterval :: duration where "defaultFlushInterval = 5 * second"
definition defaultPollInterval :: duration where "defaultPollInterval = 2 * second"
definition defaultStaleAfter :: duration where "defaultStaleAfter = 2 * minute"
definition defaultShutdownGrace :: duration where "defaultShutdownGrace = 30 * second"
definition defaultReportInterval :: duration where "defaultReportInterval = 5 * minute"
definition maxShutdownFlushCycle :: nat where "maxShutdownFlushCycle = 1000"

record Daemon =
  dm_opts :: DOptions
  dm_path :: string
  dm_state :: DState

section \<open>Names\<close>

definition safe_char :: "char \<Rightarrow> bool" where
  "safe_char c \<longleftrightarrow>
     (let n = (of_char c :: nat)
      in 97 \<le> n \<and> n \<le> 122 \<or> 65 \<le> n \<and> n \<le> 90 \<or> 48 \<le> n \<and> n \<le> 57 \<or> c = CHR ''-'' \<or> c = CHR ''_'')"

definition sanitize :: "string \<Rightarrow> string" where
  "sanitize s =
     (let out = map (\<lambda>c. if safe_char c then c else CHR ''_'') (filter rune_start s)
      in if out = [] then ''unknown''
         else if 128 < length out then take 128 out
         else out)"

definition statePath :: "string \<Rightarrow> string" where
  "statePath sessionID = sanitize sessionID @ ''.json''"

definition endedSuffix :: string where "endedSuffix = ''.ended''"

definition endedPath :: "string \<Rightarrow> string" where
  "endedPath sessionID = statePath sessionID @ endedSuffix"

definition SessionLockPath :: "string \<Rightarrow> string" where
  "SessionLockPath sessionID = statePath sessionID @ ''.lock''"

section \<open>Reading and writing states\<close>

definition d_put :: "denv \<Rightarrow> string \<Rightarrow> dcontent \<Rightarrow> ddir \<Rightarrow> ddir" where
  "d_put e k c d = dir_put k \<lparr>df_content = c, df_mtime = d_now e\<rparr> d"

text \<open>What a write that failed halfway leaves under its name.\<close>

definition d_torn :: "denv \<Rightarrow> string \<Rightarrow> ddir \<Rightarrow> ddir" where
  "d_torn e k d = (case d_residue e k of None \<Rightarrow> d | Some f \<Rightarrow> dir_put k f d)"

definition d_rename :: "string \<Rightarrow> string \<Rightarrow> ddir \<Rightarrow> ddir" where
  "d_rename a b d = (case map_of d a of None \<Rightarrow> d | Some f \<Rightarrow> dir_put b f (dir_del a d))"

definition d_remove :: "denv \<Rightarrow> string \<Rightarrow> ddir \<Rightarrow> ddir" where
  "d_remove e k d = (if d_fault e (DRemove k) then d else dir_del k d)"

definition load :: "denv \<Rightarrow> string \<Rightarrow> ddir \<Rightarrow> DState option" where
  "load e p d =
     (if d_fault e (DRead p) then None
      else case map_of d p of
        None \<Rightarrow> None
      | Some f \<Rightarrow> (case df_content f of StateDoc st \<Rightarrow> Some st | OtherBytes \<Rightarrow> None))"

definition LoadState :: "denv \<Rightarrow> string \<Rightarrow> ddir \<Rightarrow> DState option" where
  "LoadState e sessionID d = load e (statePath sessionID) d"

text \<open>A write to a temporary name and a rename onto the path.\<close>

definition write_via :: "denv \<Rightarrow> string \<Rightarrow> string \<Rightarrow> DState \<Rightarrow> ddir \<Rightarrow> bool \<times> ddir" where
  "write_via e tmp p st d =
     (if d_fault e DMarshal then (False, d)
      else if d_fault e (DWrite tmp) then (False, d_torn e tmp d)
      else let d1 = d_put e tmp (StateDoc st) d
           in if d_fault e (DRename tmp p) then (False, d1) else (True, d_rename tmp p d1))"

definition save :: "denv \<Rightarrow> Daemon \<Rightarrow> ddir \<Rightarrow> bool \<times> ddir" where
  "save e dm d = write_via e (dm_path dm @ ''.'' @ FormatInt (d_pid e) @ ''.tmp'') (dm_path dm) (dm_state dm) d"

text \<open>The temporary name \<open>os.CreateTemp\<close> picks: a random number in decimal after the pattern.\<close>

definition stale_tmp :: "denv \<Rightarrow> string \<Rightarrow> string" where
  "stale_tmp e p = p @ ''.stale-'' @ dec (d_rand e)"

definition writeState :: "denv \<Rightarrow> string \<Rightarrow> DState \<Rightarrow> ddir \<Rightarrow> bool \<times> ddir" where
  "writeState e p st d =
     (let name = stale_tmp e p
      in if d_fault e DMarshal then (False, d)
         else if d_fault e (DCreate name) then (False, d)
         else if d_fault e (DWrite name) then (False, d_remove e name (d_put e name OtherBytes d))
         else let d1 = d_put e name (StateDoc st) d
              in if d_fault e (DClose name) then (False, d_remove e name d1)
                 else if d_fault e (DRename name p) then (False, d_remove e name d1)
                 else (True, d_rename name p d1))"

section \<open>Locks\<close>

text \<open>The kernel's table of held locks, by path; a lock dies with its holder.\<close>

type_synonym locks = "string set"

definition TryLock :: "denv \<Rightarrow> string \<Rightarrow> locks \<Rightarrow> (daemon_error + unit) \<times> locks" where
  "TryLock e p l =
     (if d_fault e DMkdir then (Inl ErrLockDir, l)
      else if d_fault e (DOpenLock p) then (Inl ErrOpenLock, l)
      else if p \<in> l then (Inl ErrLocked, l)
      else if d_fault e (DFlock p) then (Inl ErrFlock, l)
      else (Inr (), insert p l))"

definition Close :: "string \<Rightarrow> locks \<Rightarrow> locks" where
  "Close p l = l - {p}"

definition ClaimSession :: "denv \<Rightarrow> string \<Rightarrow> locks \<Rightarrow> (daemon_error + unit) \<times> locks" where
  "ClaimSession e sessionID l =
     (if d_fault e DMkdir then (Inl ErrDMkdir, l) else TryLock e (SessionLockPath sessionID) l)"

definition lockHeld :: "denv \<Rightarrow> string \<Rightarrow> locks \<Rightarrow> bool \<times> locks" where
  "lockHeld e sessionID l =
     (case TryLock e (SessionLockPath sessionID) l of
        (Inl ErrLocked, l') \<Rightarrow> (True, l')
      | (Inl _, l') \<Rightarrow> (False, l')
      | (Inr _, l') \<Rightarrow> (False, Close (SessionLockPath sessionID) l'))"

section \<open>A daemon\<close>

definition d_withDefaults :: "denv \<Rightarrow> DOptions \<Rightarrow> DOptions" where
  "d_withDefaults e opt =
     opt\<lparr>do_OwnerPID := (if do_OwnerPID opt = 0 then d_ppid e else do_OwnerPID opt),
         FlushInterval := (if FlushInterval opt \<le> 0 then defaultFlushInterval else FlushInterval opt),
         ReportInterval := (if ReportInterval opt \<le> 0 then defaultReportInterval else ReportInterval opt),
         PollInterval := (if PollInterval opt \<le> 0 then defaultPollInterval else PollInterval opt),
         StaleAfter := (if StaleAfter opt \<le> 0 then defaultStaleAfter else StaleAfter opt),
         ShutdownGrace := (if ShutdownGrace opt \<le> 0 then defaultShutdownGrace else ShutdownGrace opt)\<rparr>"

text \<open>\<open>New\<close> returns the daemon even when its first save fails; the flag is the save's outcome.\<close>

definition daemon_New :: "denv \<Rightarrow> DOptions \<Rightarrow> ddir \<Rightarrow> (daemon_error + Daemon \<times> bool) \<times> ddir" where
  "daemon_New e opt d =
     (if do_Dir opt = [] then (Inl ErrNoDir, d)
      else if do_SessionID opt = [] then (Inl ErrNoSession, d)
      else let o1 = d_withDefaults e opt
           in if d_fault e DMkdir then (Inl ErrDMkdir, d)
              else let dm = \<lparr>dm_opts = o1, dm_path = statePath (do_SessionID o1),
                             dm_state = \<lparr>SessionID = do_SessionID o1, OwnerPID = do_OwnerPID o1,
                               DaemonPID = d_pid e, Build = do_Build o1, ds_StartedAt = d_now e,
                               Heartbeat = d_now e, Cwd = do_Cwd o1, TranscriptPath = do_TranscriptPath o1,
                               Finalized = False, EndedAt = 0, EndReason = [], Recovered = 0\<rparr>\<rparr>;
                       (ok, d') = save e dm d
                   in (Inr (dm, ok), d'))"

definition AlreadyRunning :: "denv \<Rightarrow> string \<Rightarrow> duration \<Rightarrow> ddir \<Rightarrow> bool" where
  "AlreadyRunning e sessionID staleAfter0 d =
     (let staleAfter = (if staleAfter0 \<le> 0 then defaultStaleAfter else staleAfter0)
      in case load e (statePath sessionID) d of
           None \<Rightarrow> False
         | Some st \<Rightarrow>
             if Finalized st then False
             else if DaemonPID st \<le> 0 \<or> \<not> d_alive e (DaemonPID st) then False
             else Sub (d_now e) (Heartbeat st) \<le> staleAfter)"

definition Finalize :: "denv \<Rightarrow> string \<Rightarrow> Daemon \<Rightarrow> ddir \<Rightarrow> bool \<times> Daemon \<times> ddir" where
  "Finalize e reason dm d =
     (let dm' = dm\<lparr>dm_state := (dm_state dm)\<lparr>Finalized := True, EndedAt := d_now e, EndReason := reason\<rparr>\<rparr>;
          (ok, d') = save e dm' d
      in (ok, dm', d'))"

definition beat :: "denv \<Rightarrow> Daemon \<Rightarrow> ddir \<Rightarrow> Daemon \<times> ddir" where
  "beat e dm d =
     (let dm' = dm\<lparr>dm_state := (dm_state dm)\<lparr>Heartbeat := d_now e\<rparr>\<rparr>
      in case load e (dm_path dm) d of
           Some st \<Rightarrow>
             if Finalized st \<and> DaemonPID st = DaemonPID (dm_state dm') then (dm', d) else (dm', snd (save e dm' d))
         | None \<Rightarrow> (dm', snd (save e dm' d)))"

definition sessionEnded :: "denv \<Rightarrow> Daemon \<Rightarrow> ddir \<Rightarrow> bool" where
  "sessionEnded e dm d \<longleftrightarrow>
     \<not> d_fault e (DStat (endedPath (do_SessionID (dm_opts dm)))) \<and>
     map_of d (endedPath (do_SessionID (dm_opts dm))) \<noteq> None"

definition MarkEnded :: "denv \<Rightarrow> string \<Rightarrow> ddir \<Rightarrow> bool \<times> ddir" where
  "MarkEnded e sessionID d =
     (if d_fault e DMkdir then (False, d)
      else if d_fault e (DWrite (endedPath sessionID)) then (False, d_torn e (endedPath sessionID) d)
      else (True, d_put e (endedPath sessionID) OtherBytes d))"

definition ClearEnded :: "denv \<Rightarrow> string \<Rightarrow> ddir \<Rightarrow> ddir" where
  "ClearEnded e sessionID d = d_remove e (endedPath sessionID) d"

section \<open>The flusher and the run loop\<close>

text \<open>
  A \<open>Flusher\<close> is a cycle over its own state: what it sent and whether it erred. The deadline of
  the shutdown context is the number of cycles it lets start (\<open>d_grace\<close>).
\<close>

type_synonym 's flusher = "'s \<Rightarrow> (int \<times> bool) \<times> 's"

fun drainLoop :: "nat \<Rightarrow> 's flusher \<Rightarrow> nat \<Rightarrow> 's \<Rightarrow> nat \<times> 's" where
  "drainLoop 0 flush grace s = (0, s)"
| "drainLoop (Suc n) flush grace s =
     (if grace = 0 then (0, s)
      else case flush s of ((sent, err), s1) \<Rightarrow>
        if sent = 0 then (1, s1)
        else (case drainLoop n flush (grace - 1) s1 of (k, s2) \<Rightarrow> (Suc k, s2)))"

definition drainBacklog :: "'s flusher option \<Rightarrow> nat \<Rightarrow> 's \<Rightarrow> 's" where
  "drainBacklog fl grace s =
     (case fl of None \<Rightarrow> s | Some flush \<Rightarrow> snd (drainLoop maxShutdownFlushCycle flush grace s))"

definition flushOnce :: "'s flusher option \<Rightarrow> 's \<Rightarrow> int \<times> 's" where
  "flushOnce fl s = (case fl of None \<Rightarrow> (0, s) | Some flush \<Rightarrow> (case flush s of ((sent, err), s1) \<Rightarrow> (sent, s1)))"

text \<open>
  What the select receives: the cancellation, a flush tick (with whether the context was
  cancelled during the flush), a poll tick; and between two of them, what other processes did
  to the directory.
\<close>

datatype tick = Cancel | FlushTick bool | PollTick | Others "ddir \<Rightarrow> ddir"

datatype run_result = Running | RunCancelled | RunFinalized bool

record 's running =
  r_daemon :: Daemon
  r_dir :: ddir
  r_flusher :: 's

text \<open>The recovery pass sees the state, may queue events with the flusher's store, and counts them.\<close>

definition recover_session ::
  "(DState \<Rightarrow> 's \<Rightarrow> int \<times> 's) option \<Rightarrow> 's running \<Rightarrow> 's running" where
  "recover_session recover r =
     (case recover of
        None \<Rightarrow> r
      | Some f \<Rightarrow>
          (let dm = r_daemon r; (n, s1) = f (dm_state dm) (r_flusher r)
           in r\<lparr>r_daemon := dm\<lparr>dm_state := (dm_state dm)\<lparr>Recovered := n\<rparr>\<rparr>, r_flusher := s1\<rparr>))"

definition finish_session ::
  "'s flusher option \<Rightarrow> (DState \<Rightarrow> 's \<Rightarrow> int \<times> 's) option \<Rightarrow> denv \<Rightarrow> string \<Rightarrow> 's running \<Rightarrow> run_result \<times> 's running" where
  "finish_session fl recover e reason r =
     (let r1 = recover_session recover r;
          s1 = drainBacklog fl (d_grace e) (r_flusher r1);
          (ok, dm2, d2) = Finalize e reason (r_daemon r1) (r_dir r1)
      in (RunFinalized ok, \<lparr>r_daemon = dm2, r_dir = d2, r_flusher = s1\<rparr>))"

definition runTick ::
  "'s flusher option \<Rightarrow> (DState \<Rightarrow> 's \<Rightarrow> int \<times> 's) option \<Rightarrow> denv \<Rightarrow> tick \<Rightarrow> 's running \<Rightarrow> run_result \<times> 's running" where
  "runTick fl recover e t r =
     (case t of
        Cancel \<Rightarrow> (RunCancelled, r\<lparr>r_flusher := drainBacklog fl (d_grace e) (r_flusher r)\<rparr>)
      | FlushTick cancelled \<Rightarrow>
          (let r1 = r\<lparr>r_flusher := snd (flushOnce fl (r_flusher r))\<rparr>
           in if cancelled then (Running, r1)
              else (case beat e (r_daemon r1) (r_dir r1) of
                      (dm, d) \<Rightarrow> (Running, r1\<lparr>r_daemon := dm, r_dir := d\<rparr>)))
      | PollTick \<Rightarrow>
          if sessionEnded e (r_daemon r) (r_dir r) then finish_session fl recover e ''session_ended'' r
          else if \<not> d_alive e (OwnerPID (dm_state (r_daemon r))) then finish_session fl recover e ''owner_exited'' r
          else (case beat e (r_daemon r) (r_dir r) of (dm, d) \<Rightarrow> (Running, r\<lparr>r_daemon := dm, r_dir := d\<rparr>))
      | Others f \<Rightarrow> (Running, r\<lparr>r_dir := f (r_dir r)\<rparr>))"

fun daemon_Run ::
  "'s flusher option \<Rightarrow> (DState \<Rightarrow> 's \<Rightarrow> int \<times> 's) option \<Rightarrow> (denv \<times> tick) list \<Rightarrow> 's running \<Rightarrow> run_result \<times> 's running" where
  "daemon_Run fl recover [] r = (Running, r)"
| "daemon_Run fl recover ((e, t) # ts) r =
     (case runTick fl recover e t r of
        (Running, r') \<Rightarrow> daemon_Run fl recover ts r'
      | (res, r') \<Rightarrow> (res, r'))"

section \<open>Operations of other processes\<close>

record Abandoned =
  ab_State :: DState
  ab_Reason :: string

definition daemonStillLive :: "DState \<Rightarrow> (int \<Rightarrow> bool) \<Rightarrow> time \<Rightarrow> duration \<Rightarrow> bool" where
  "daemonStillLive st alive at staleAfter =
     (if DaemonPID st \<le> 0 \<or> \<not> alive (DaemonPID st) then False
      else Sub at (Heartbeat st) \<le> staleAfter)"

definition reconcileOne ::
  "denv \<Rightarrow> duration \<Rightarrow> (DState \<Rightarrow> int) option \<Rightarrow> string \<Rightarrow> ddir \<Rightarrow> Abandoned option \<times> ddir" where
  "reconcileOne e staleAfter recover p d =
     (if \<not> HasSuffix p ''.json'' then (None, d)
      else case load e p d of
        None \<Rightarrow> (None, d)
      | Some st \<Rightarrow>
          if Finalized st then (None, d)
          else if daemonStillLive st (d_alive e) (d_now e) staleAfter then (None, d)
          else if d_alive e (OwnerPID st) then (Some \<lparr>ab_State = st, ab_Reason = ''daemon_died_owner_alive''\<rparr>, d)
          else let st1 = (case recover of None \<Rightarrow> st | Some f \<Rightarrow> st\<lparr>Recovered := f st\<rparr>);
                   st2 = st1\<lparr>Finalized := True, EndedAt := d_now e, EndReason := ''daemon_died''\<rparr>
               in (Some \<lparr>ab_State = st2, ab_Reason = ''daemon_died''\<rparr>, snd (write_via e (p @ ''.tmp'') p st2 d)))"

fun reconcileLoop ::
  "denv \<Rightarrow> duration \<Rightarrow> (DState \<Rightarrow> int) option \<Rightarrow> string list \<Rightarrow> ddir \<Rightarrow> Abandoned list \<times> ddir" where
  "reconcileLoop e staleAfter recover [] d = ([], d)"
| "reconcileLoop e staleAfter recover (p # ps) d =
     (case reconcileOne e staleAfter recover p d of (a, d1) \<Rightarrow>
        case reconcileLoop e staleAfter recover ps d1 of (as, d2) \<Rightarrow>
          ((case a of None \<Rightarrow> as | Some x \<Rightarrow> x # as), d2))"

definition ReconcileWith ::
  "denv \<Rightarrow> duration \<Rightarrow> (DState \<Rightarrow> int) option \<Rightarrow> ddir \<Rightarrow> (daemon_error + Abandoned list) \<times> ddir" where
  "ReconcileWith e staleAfter0 recover d =
     (let staleAfter = (if staleAfter0 \<le> 0 then defaultStaleAfter else staleAfter0)
      in if d_missing e then (Inr [], d)
         else if d_fault e DReadDir then (Inl ErrDReadDir, d)
         else case reconcileLoop e staleAfter recover (dir_names d) d of (as, d') \<Rightarrow> (Inr as, d'))"

definition Reconcile :: "denv \<Rightarrow> duration \<Rightarrow> ddir \<Rightarrow> (daemon_error + Abandoned list) \<times> ddir" where
  "Reconcile e staleAfter d = ReconcileWith e staleAfter None d"

text \<open>\<open>Sweep\<close>: finalized states by age, with their markers; then orphan markers by age.\<close>

definition sweepState :: "denv \<Rightarrow> duration \<Rightarrow> string \<Rightarrow> nat \<times> ddir \<Rightarrow> nat \<times> ddir" where
  "sweepState e keep p nd =
     (case nd of (n, d) \<Rightarrow>
        if \<not> HasSuffix p ''.json'' then (n, d)
        else case load e p d of
          None \<Rightarrow> (n, d)
        | Some st \<Rightarrow>
            if \<not> Finalized st then (n, d)
            else if \<not> IsZero (EndedAt st) \<and> keep < Sub (d_now e) (EndedAt st) then
              let n' = (if d_fault e (DRemove p) then n else n + 1)
              in (n', d_remove e (p @ endedSuffix) (d_remove e p d))
            else (n, d))"

definition sweepMarker :: "denv \<Rightarrow> duration \<Rightarrow> string \<Rightarrow> ddir \<Rightarrow> ddir" where
  "sweepMarker e keep p d =
     (if \<not> HasSuffix p endedSuffix then d
      else case map_of d p of
        None \<Rightarrow> d
      | Some f \<Rightarrow> if \<not> d_fault e (DStat p) \<and> keep < Sub (d_now e) (df_mtime f) then d_remove e p d else d)"

definition Sweep :: "denv \<Rightarrow> duration \<Rightarrow> ddir \<Rightarrow> (daemon_error + nat) \<times> ddir" where
  "Sweep e keep d =
     (if d_missing e then (Inr 0, d)
      else if d_fault e DReadDir then (Inl ErrDReadDir, d)
      else case fold (sweepState e keep) (dir_names d) (0, d) of (n, d1) \<Rightarrow>
        (Inr n, fold (sweepMarker e keep) (dir_names d) d1))"

record Stale =
  sl_SessionID :: string
  sl_DaemonPID :: int
  sl_Build :: string
  Killed :: bool

text \<open>The verdict on one state: left alone, or finalized with a reason, after a signal or not.\<close>

datatype stale_verdict = LeaveAlone | Stop string bool

definition staleVerdict :: "denv \<Rightarrow> string \<Rightarrow> int \<Rightarrow> string \<Rightarrow> DState \<Rightarrow> stale_verdict" where
  "staleVerdict e build self selfSession st =
     (if Finalized st \<or> DaemonPID st \<le> 0 \<or> DaemonPID st = self then LeaveAlone
      else if selfSession \<noteq> [] \<and> SessionID st = selfSession then LeaveAlone
      else let current = (Build st = build);
               live = (d_held e (SessionID st) \<or> daemonStillLive st (d_alive e) (d_now e) defaultStaleAfter)
           in if live \<and> current then LeaveAlone
              else if live then (if d_kill e (DaemonPID st) then Stop ''daemon_stale'' True else LeaveAlone)
              else if \<not> d_alive e (OwnerPID st) then LeaveAlone
              else if current then Stop ''daemon_died'' False
              else Stop ''daemon_stale'' False)"

definition stopOne :: "denv \<Rightarrow> string \<Rightarrow> int \<Rightarrow> string \<Rightarrow> string \<Rightarrow> ddir \<Rightarrow> Stale option \<times> ddir" where
  "stopOne e build self selfSession p d =
     (if \<not> HasSuffix p ''.json'' then (None, d)
      else case load e p d of
        None \<Rightarrow> (None, d)
      | Some st \<Rightarrow>
          (case staleVerdict e build self selfSession st of
             LeaveAlone \<Rightarrow> (None, d)
           | Stop reason live \<Rightarrow>
               (case writeState e p (st\<lparr>Finalized := True, EndedAt := d_now e, EndReason := reason\<rparr>) d of
                  (ok, d1) \<Rightarrow>
                    (if ok then Some \<lparr>sl_SessionID = SessionID st, sl_DaemonPID = DaemonPID st,
                                      sl_Build = Build st, Killed = live\<rparr> else None, d1))))"

fun stopLoop :: "denv \<Rightarrow> string \<Rightarrow> int \<Rightarrow> string \<Rightarrow> string list \<Rightarrow> ddir \<Rightarrow> Stale list \<times> ddir" where
  "stopLoop e build self selfSession [] d = ([], d)"
| "stopLoop e build self selfSession (p # ps) d =
     (case stopOne e build self selfSession p d of (a, d1) \<Rightarrow>
        case stopLoop e build self selfSession ps d1 of (as, d2) \<Rightarrow>
          ((case a of None \<Rightarrow> as | Some x \<Rightarrow> x # as), d2))"

definition StopStale :: "denv \<Rightarrow> string \<Rightarrow> int \<Rightarrow> string \<Rightarrow> ddir \<Rightarrow> (daemon_error + Stale list) \<times> ddir" where
  "StopStale e build self selfSession d =
     (if d_missing e then (Inr [], d)
      else if d_fault e DReadDir then (Inl ErrDReadDir, d)
      else case stopLoop e build self selfSession (dir_names d) d of (as, d') \<Rightarrow> (Inr as, d'))"

end
