(* ===== verification/DaemonInv.thy ===== *)
theory DaemonInv
  imports Daemon
begin

text \<open>
  What each operation does to the states of the directory. A pass over the directory works
  file by file, so its effect on the sessions is pointwise: the locale states that once, and
  reconciling, stopping and sweeping are its instances.
\<close>

section \<open>Passes over a directory\<close>

locale pointwise =
  fixes view :: "'d \<Rightarrow> 'k \<Rightarrow> 'v option"
    and step :: "'k \<Rightarrow> 'd \<Rightarrow> 'd"
    and effect :: "'k \<Rightarrow> 'v \<Rightarrow> 'v option"
  assumes own: "view (step k d) k = Option.bind (view d k) (effect k)"
    and other: "k' \<noteq> k \<Longrightarrow> view (step k d) k' = view d k'"
begin

lemma pass_outside: "k \<notin> set ks \<Longrightarrow> view (fold step ks d) k = view d k"
  by (induction ks arbitrary: d) (auto simp: other)

lemma pass: "distinct ks \<Longrightarrow> view (fold step ks d) k = (if k \<in> set ks then Option.bind (view d k) (effect k) else view d k)"
proof (induction ks arbitrary: d)
  case Nil
  then show ?case by simp
next
  case (Cons a ks)
  then show ?case by (cases "a = k") (auto simp: own other pass_outside)
qed

end

section \<open>Sessions of a directory\<close>

definition state_at :: "ddir \<Rightarrow> string \<Rightarrow> DState option" where
  "state_at d p =
     (case map_of d p of
        Some f \<Rightarrow> (case df_content f of StateDoc st \<Rightarrow> Some st | OtherBytes \<Rightarrow> None)
      | None \<Rightarrow> None)"

definition json_name :: "string \<Rightarrow> bool" where
  "json_name p \<longleftrightarrow> HasSuffix p ''.json''"

definition sessions :: "ddir \<Rightarrow> string \<Rightarrow> DState option" where
  "sessions d p = (if json_name p then state_at d p else None)"

lemma load_state_at: "load e p d = (if d_fault e (DRead p) then None else state_at d p)"
  by (simp add: load_def state_at_def)

lemma sessions_name: "p \<notin> set (dir_names d) \<Longrightarrow> sessions d p = None"
  by (auto simp: sessions_def state_at_def set_dir_names dom_def)

text \<open>Temporary names, markers and locks are not state files.\<close>

lemma json_not_ext:
  "length x = 4 \<Longrightarrow> x \<noteq> ''json'' \<Longrightarrow> \<not> json_name (p @ x)"
  by (auto simp: json_name_def HasSuffix_def drop_Cons' append_eq_Cons_conv split: if_splits)

lemma json_last: "json_name p \<Longrightarrow> last p = CHR ''n''"
  by (auto simp: json_name_def HasSuffix_iff)

lemma digit_not_n: "n < 10 \<Longrightarrow> digit n \<noteq> CHR ''n''"
proof
  assume "n < 10" "digit n = CHR ''n''"
  then have "48 + n = (of_char (CHR ''n'') :: nat)" by (metis of_char_digit)
  with \<open>n < 10\<close> show False by simp
qed

lemma last_dec: "last (dec n) \<noteq> CHR ''n''"
proof (cases "n < 10")
  case True
  then show ?thesis by (subst dec.simps) (simp add: digit_not_n)
next
  case False
  then show ?thesis by (subst dec.simps) (simp add: digit_not_n)
qed

lemma dec_nonempty: "dec n \<noteq> []"
  using dec_pos_length [of n] by auto

lemma not_json [simp]:
  "\<not> json_name (p @ ''.tmp'')" "\<not> json_name (p @ ''.'' @ q @ ''.tmp'')" "\<not> json_name (p @ CHR ''.'' # q @ ''.tmp'')"
  "\<not> json_name (p @ ''.stale-'' @ dec n)"
  "\<not> json_name (p @ endedSuffix)" "\<not> json_name (endedPath i)" "\<not> json_name (SessionLockPath i)"
  by (auto dest!: json_last simp: endedSuffix_def endedPath_def SessionLockPath_def last_append last_dec dec_nonempty)

lemma json_statePath [simp]: "json_name (statePath i)"
  by (simp add: json_name_def statePath_def)

text \<open>Basic writes.\<close>

lemma state_at_put [simp]:
  "state_at (d_put e k c d) p = (if p = k then (case c of StateDoc st \<Rightarrow> Some st | OtherBytes \<Rightarrow> None) else state_at d p)"
  by (simp add: state_at_def d_put_def map_of_dir_put)

lemma state_at_torn [simp]: "p \<noteq> k \<Longrightarrow> state_at (d_torn e k d) p = state_at d p"
  by (simp add: state_at_def d_torn_def map_of_dir_put split: option.split)

lemma state_at_remove: "state_at (d_remove e k d) p = (if p = k \<and> \<not> d_fault e (DRemove k) then None else state_at d p)"
  by (simp add: state_at_def d_remove_def map_of_dir_del)

lemma state_at_rename:
  "map_of d a \<noteq> None \<Longrightarrow> a \<noteq> b \<Longrightarrow>
   state_at (d_rename a b d) p = (if p = b then state_at d a else if p = a then None else state_at d p)"
  by (auto simp: state_at_def d_rename_def map_of_dir_put map_of_dir_del split: option.splits)

lemma map_of_put_self [simp]: "map_of (d_put e k c d) k \<noteq> None"
  by (simp add: d_put_def map_of_dir_put)

text \<open>Whether a write lands is the environment's; what it lands on is one state.\<close>

definition via_ok :: "denv \<Rightarrow> string \<Rightarrow> string \<Rightarrow> bool" where
  "via_ok e tmp p \<longleftrightarrow> \<not> d_fault e DMarshal \<and> \<not> d_fault e (DWrite tmp) \<and> \<not> d_fault e (DRename tmp p)"

lemma write_via_fst: "fst (write_via e tmp p st d) = via_ok e tmp p"
  by (simp add: write_via_def via_ok_def Let_def)

lemma write_via_sessions:
  assumes "\<not> json_name tmp" "json_name p"
  shows "sessions (snd (write_via e tmp p st d)) = (if via_ok e tmp p then (sessions d)(p \<mapsto> st) else sessions d)"
proof
  fix q
  have "tmp \<noteq> p" using assms by metis
  with assms show "sessions (snd (write_via e tmp p st d)) q =
      (if via_ok e tmp p then (sessions d)(p \<mapsto> st) else sessions d) q"
    by (auto simp: write_via_def via_ok_def sessions_def Let_def state_at_rename)
qed

definition state_ok :: "denv \<Rightarrow> string \<Rightarrow> bool" where
  "state_ok e p \<longleftrightarrow> \<not> d_fault e DMarshal \<and> \<not> d_fault e (DCreate (stale_tmp e p)) \<and> \<not> d_fault e (DWrite (stale_tmp e p)) \<and>
     \<not> d_fault e (DClose (stale_tmp e p)) \<and> \<not> d_fault e (DRename (stale_tmp e p) p)"

lemma stale_tmp_not_json [simp]: "\<not> json_name (stale_tmp e p)"
  using not_json(4) [of p "d_rand e"] by (simp only: stale_tmp_def not_False_eq_True)

lemma writeState_fst: "fst (writeState e p st d) = state_ok e p"
  by (simp add: writeState_def state_ok_def Let_def)

lemma writeState_sessions:
  assumes "json_name p"
  shows "sessions (snd (writeState e p st d)) = (if state_ok e p then (sessions d)(p \<mapsto> st) else sessions d)"
proof
  fix q
  have "stale_tmp e p \<noteq> p" using assms stale_tmp_not_json by metis
  with assms show "sessions (snd (writeState e p st d)) q = (if state_ok e p then (sessions d)(p \<mapsto> st) else sessions d) q"
    unfolding writeState_def Let_def
    by (auto simp: state_ok_def sessions_def state_at_rename state_at_remove)
qed

section \<open>Effects on one session\<close>

definition recEffect ::
  "denv \<Rightarrow> duration \<Rightarrow> (DState \<Rightarrow> int) option \<Rightarrow> string \<Rightarrow> DState \<Rightarrow> DState option" where
  "recEffect e staleAfter recover p st =
     Some (if d_fault e (DRead p) \<or> Finalized st \<or> daemonStillLive st (d_alive e) (d_now e) staleAfter \<or>
              d_alive e (OwnerPID st) \<or> \<not> via_ok e (p @ ''.tmp'') p then st
           else (case recover of None \<Rightarrow> st | Some f \<Rightarrow> st\<lparr>Recovered := f st\<rparr>)
                  \<lparr>Finalized := True, EndedAt := d_now e, EndReason := ''daemon_died''\<rparr>)"

definition stopEffect :: "denv \<Rightarrow> string \<Rightarrow> int \<Rightarrow> string \<Rightarrow> string \<Rightarrow> DState \<Rightarrow> DState option" where
  "stopEffect e build self selfSession p st =
     Some (case staleVerdict e build self selfSession st of
             LeaveAlone \<Rightarrow> st
           | Stop reason live \<Rightarrow>
               if d_fault e (DRead p) \<or> \<not> state_ok e p then st
               else st\<lparr>Finalized := True, EndedAt := d_now e, EndReason := reason\<rparr>)"

definition sweepEffect :: "denv \<Rightarrow> duration \<Rightarrow> string \<Rightarrow> DState \<Rightarrow> DState option" where
  "sweepEffect e keep p st =
     (if \<not> d_fault e (DRead p) \<and> Finalized st \<and> \<not> IsZero (EndedAt st) \<and> keep < Sub (d_now e) (EndedAt st) \<and>
         \<not> d_fault e (DRemove p) then None else Some st)"

abbreviation reconcileStep :: "denv \<Rightarrow> duration \<Rightarrow> (DState \<Rightarrow> int) option \<Rightarrow> string \<Rightarrow> ddir \<Rightarrow> ddir" where
  "reconcileStep e staleAfter recover p d \<equiv> snd (reconcileOne e staleAfter recover p d)"

abbreviation stopStep :: "denv \<Rightarrow> string \<Rightarrow> int \<Rightarrow> string \<Rightarrow> string \<Rightarrow> ddir \<Rightarrow> ddir" where
  "stopStep e build self selfSession p d \<equiv> snd (stopOne e build self selfSession p d)"

abbreviation sweepStep :: "denv \<Rightarrow> duration \<Rightarrow> string \<Rightarrow> ddir \<Rightarrow> ddir" where
  "sweepStep e keep p d \<equiv> snd (sweepState e keep p (0, d))"

lemma sessions_load: "json_name p \<Longrightarrow> load e p d = (if d_fault e (DRead p) then None else sessions d p)"
  by (simp add: load_state_at sessions_def)

lemma reconcile_skip: "sessions d p = None \<or> d_fault e (DRead p) \<Longrightarrow> reconcileOne e sa rc p d = (None, d)"
  by (auto simp: reconcileOne_def json_name_def [symmetric] sessions_load)

lemma reconcile_sessions:
  "sessions (reconcileStep e sa rc p d) =
     (case sessions d p of None \<Rightarrow> sessions d | Some st \<Rightarrow> (sessions d)(p := recEffect e sa rc p st))"
proof (cases "sessions d p")
  case None
  then show ?thesis by (simp add: reconcile_skip)
next
  case (Some st)
  then have j: "json_name p" by (simp add: sessions_def split: if_splits)
  with Some show ?thesis
    by (auto simp: reconcileOne_def json_name_def [symmetric] sessions_load recEffect_def Let_def
        write_via_sessions split: option.splits)
qed

lemma stop_sessions:
  "sessions (stopStep e b self ss p d) =
     (case sessions d p of None \<Rightarrow> sessions d | Some st \<Rightarrow> (sessions d)(p := stopEffect e b self ss p st))"
proof (cases "sessions d p")
  case None
  then show ?thesis by (auto simp: stopOne_def json_name_def [symmetric] sessions_load)
next
  case (Some st)
  then have j: "json_name p" by (simp add: sessions_def split: if_splits)
  with Some show ?thesis
    by (auto simp: stopOne_def json_name_def [symmetric] sessions_load stopEffect_def case_prod_beta
        writeState_sessions split: option.splits stale_verdict.splits)
qed

lemma sessions_remove: "sessions (d_remove e k d) p = (if p = k \<and> \<not> d_fault e (DRemove k) then None else sessions d p)"
  by (simp add: sessions_def state_at_remove)

lemma sweep_sessions:
  "sessions (sweepStep e keep p d) =
     (case sessions d p of None \<Rightarrow> sessions d | Some st \<Rightarrow> (sessions d)(p := sweepEffect e keep p st))"
proof (cases "sessions d p")
  case None
  then show ?thesis by (auto simp: sweepState_def json_name_def [symmetric] sessions_load)
next
  case (Some st)
  then have j: "json_name p" by (simp add: sessions_def split: if_splits)
  have n: "sessions d q = None" if "\<not> json_name q" for q using that by (simp add: sessions_def)
  from j Some show ?thesis
    by (auto simp: sweepState_def json_name_def [symmetric] sessions_load sweepEffect_def Let_def
        sessions_remove fun_eq_iff n)
qed

interpretation rec_pass: pointwise sessions "reconcileStep e sa rc" "recEffect e sa rc" for e sa rc
  by unfold_locales (auto simp: reconcile_sessions split: option.split)

interpretation stop_pass: pointwise sessions "stopStep e b self ss" "stopEffect e b self ss" for e b self ss
  by unfold_locales (auto simp: stop_sessions split: option.split)

interpretation sweep_pass: pointwise sessions "sweepStep e keep" "sweepEffect e keep" for e keep
  by unfold_locales (auto simp: sweep_sessions split: option.split)

section \<open>The loops are passes\<close>

lemma reconcileLoop_dir: "snd (reconcileLoop e sa rc ps d) = fold (reconcileStep e sa rc) ps d"
  by (induction e sa rc ps d rule: reconcileLoop.induct) (auto split: prod.split)

lemma stopLoop_dir: "snd (stopLoop e b self ss ps d) = fold (stopStep e b self ss) ps d"
  by (induction e b self ss ps d rule: stopLoop.induct) (auto split: prod.split)

lemma sweepState_dir: "snd (sweepState e keep p (n, d)) = sweepStep e keep p d"
  by (simp add: sweepState_def Let_def split: option.split)

lemma sweepLoop_dir: "snd (fold (sweepState e keep) ps nd) = fold (sweepStep e keep) ps (snd nd)"
proof (induction ps arbitrary: nd)
  case Nil
  then show ?case by simp
next
  case (Cons p ps)
  have "snd (sweepState e keep p nd) = sweepStep e keep p (snd nd)"
    using sweepState_dir [of e keep p "fst nd" "snd nd"] by (simp only: prod.collapse)
  then show ?case using Cons.IH [of "sweepState e keep p nd"] by (simp only: fold_simps)
qed

lemma pass_all:
  assumes "dir_ok d"
  shows "sessions (fold (reconcileStep e sa rc) (dir_names d) d) p = Option.bind (sessions d p) (recEffect e sa rc p)"
    and "sessions (fold (stopStep e b self ss) (dir_names d) d) p = Option.bind (sessions d p) (stopEffect e b self ss p)"
    and "sessions (fold (sweepStep e keep) (dir_names d) d) p = Option.bind (sessions d p) (sweepEffect e keep p)"
  using dir_ok_distinct [OF assms] sessions_name [of p d]
  by (auto simp: rec_pass.pass stop_pass.pass sweep_pass.pass)

lemma ReconcileWith_sessions:
  assumes "dir_ok d"
  shows "sessions (snd (ReconcileWith e sa0 rc d)) p =
    (if d_missing e \<or> d_fault e DReadDir then sessions d p
     else Option.bind (sessions d p) (recEffect e (if sa0 \<le> 0 then defaultStaleAfter else sa0) rc p))"
proof -
  have "snd (ReconcileWith e sa0 rc d) = (if d_missing e \<or> d_fault e DReadDir then d
      else snd (reconcileLoop e (if sa0 \<le> 0 then defaultStaleAfter else sa0) rc (dir_names d) d))"
    by (auto simp: ReconcileWith_def Let_def split: prod.splits)
  then show ?thesis by (simp add: reconcileLoop_dir pass_all [OF assms])
qed

lemma StopStale_sessions:
  assumes "dir_ok d"
  shows "sessions (snd (StopStale e b self ss d)) p =
    (if d_missing e \<or> d_fault e DReadDir then sessions d p else Option.bind (sessions d p) (stopEffect e b self ss p))"
proof -
  have "snd (StopStale e b self ss d) =
      (if d_missing e \<or> d_fault e DReadDir then d else snd (stopLoop e b self ss (dir_names d) d))"
    by (auto simp: StopStale_def split: prod.splits)
  then show ?thesis by (simp add: stopLoop_dir pass_all [OF assms])
qed

lemma sweepMarker_sessions: "sessions (sweepMarker e keep p d) = sessions d"
proof (cases "HasSuffix p endedSuffix")
  case True
  then obtain q where "p = q @ endedSuffix" by (auto simp: HasSuffix_iff)
  then have "\<not> json_name p" by simp
  then show ?thesis by (auto simp: sweepMarker_def sessions_def state_at_remove fun_eq_iff split: option.split)
qed (simp add: sweepMarker_def)

lemma sweepMarkers_sessions: "sessions (fold (sweepMarker e keep) ps d) = sessions d"
  by (induction ps arbitrary: d) (simp_all add: sweepMarker_sessions)

lemma Sweep_sessions:
  assumes "dir_ok d"
  shows "sessions (snd (Sweep e keep d)) p =
    (if d_missing e \<or> d_fault e DReadDir then sessions d p else Option.bind (sessions d p) (sweepEffect e keep p))"
proof -
  have "snd (Sweep e keep d) = (if d_missing e \<or> d_fault e DReadDir then d
      else fold (sweepMarker e keep) (dir_names d) (snd (fold (sweepState e keep) (dir_names d) (0, d))))"
    by (auto simp: Sweep_def split: prod.splits)
  then show ?thesis by (simp add: sweepLoop_dir sweepMarkers_sessions pass_all [OF assms])
qed

section \<open>What the passes report\<close>

lemma map_filter_congr: "(\<And>x. x \<in> set xs \<Longrightarrow> f x = g x) \<Longrightarrow> List.map_filter f xs = List.map_filter g xs"
  by (induction xs) (auto simp: map_filter_simps split: option.split)

lemma reports_by_session:
  assumes "sessions d' q = sessions d q"
  shows "fst (reconcileOne e sa rc q d') = fst (reconcileOne e sa rc q d)"
    and "fst (stopOne e b self ss q d') = fst (stopOne e b self ss q d)"
  using assms
  by (cases "json_name q"; auto simp: reconcileOne_def stopOne_def json_name_def [symmetric] sessions_load Let_def
      case_prod_beta writeState_fst split: option.split stale_verdict.split)+

lemma reconcileLoop_reports:
  "distinct ps \<Longrightarrow> fst (reconcileLoop e sa rc ps d) = List.map_filter (\<lambda>p. fst (reconcileOne e sa rc p d)) ps"
proof (induction ps arbitrary: d)
  case Nil
  then show ?case by (simp add: map_filter_simps)
next
  case (Cons p ps)
  have "List.map_filter (\<lambda>q. fst (reconcileOne e sa rc q (reconcileStep e sa rc p d))) ps =
      List.map_filter (\<lambda>q. fst (reconcileOne e sa rc q d)) ps"
    using Cons.prems by (intro map_filter_congr reports_by_session rec_pass.other) auto
  with Cons show ?case by (simp add: map_filter_simps split_beta split: option.split)
qed

lemma stopLoop_reports:
  "distinct ps \<Longrightarrow> fst (stopLoop e b self ss ps d) = List.map_filter (\<lambda>p. fst (stopOne e b self ss p d)) ps"
proof (induction ps arbitrary: d)
  case Nil
  then show ?case by (simp add: map_filter_simps)
next
  case (Cons p ps)
  have "List.map_filter (\<lambda>q. fst (stopOne e b self ss q (stopStep e b self ss p d))) ps =
      List.map_filter (\<lambda>q. fst (stopOne e b self ss q d)) ps"
    using Cons.prems by (intro map_filter_congr reports_by_session stop_pass.other) auto
  with Cons show ?case by (simp add: map_filter_simps split_beta split: option.split)
qed

end
