(* ===== verification/DaemonProps.thy ===== *)
theory DaemonProps
  imports DaemonInv
begin

text \<open>
  The daemon's properties: reconciling closes exactly the abandoned sessions and never a
  running one, stopping stale daemons spares what it must, a finalized session is not
  re-opened by a heartbeat, and the shutdown drain ends.
\<close>

section \<open>A sample directory\<close>

definition sample_state :: "int \<Rightarrow> int \<Rightarrow> bool \<Rightarrow> DState" where
  "sample_state owner daemon fin = \<lparr>SessionID = ''s1'', OwnerPID = owner, DaemonPID = daemon, Build = ''b1'',
     ds_StartedAt = 1, Heartbeat = 10, Cwd = [], TranscriptPath = [], Finalized = fin, EndedAt = 0, EndReason = [],
     Recovered = 0\<rparr>"

definition sample_denv :: denv where
  "sample_denv = \<lparr>d_now = 20, d_alive = (\<lambda>p. p = 7), d_pid = 9, d_ppid = 7, d_missing = False, d_fault = (\<lambda>x. False),
     d_residue = (\<lambda>n. None), d_rand = 5, d_held = (\<lambda>i. False), d_kill = (\<lambda>p. True), d_grace = 10\<rparr>"

definition sample_dir :: ddir where
  "sample_dir =
     [(''a.json'', \<lparr>df_content = StateDoc (sample_state 3 4 False), df_mtime = 10\<rparr>),
      (''b.json'', \<lparr>df_content = StateDoc (sample_state 7 4 False), df_mtime = 10\<rparr>),
      (''c.json'', \<lparr>df_content = StateDoc (sample_state 7 7 False), df_mtime = 10\<rparr>),
      (''d.json'', \<lparr>df_content = StateDoc (sample_state 3 9 True), df_mtime = 10\<rparr>)]"

lemma sample_dir_ok: "dir_ok sample_dir"
  by (simp add: sample_dir_def dir_names_def)

lemma sample_sessions:
  "sessions sample_dir ''a.json'' = Some (sample_state 3 4 False)"
  "sessions sample_dir ''b.json'' = Some (sample_state 7 4 False)"
  "sessions sample_dir ''c.json'' = Some (sample_state 7 7 False)"
  "sessions sample_dir ''d.json'' = Some (sample_state 3 9 True)"
  by (simp_all add: sessions_def state_at_def sample_dir_def json_name_def HasSuffix_def)

section \<open>Reconciling\<close>

text \<open>The contract of reconciling, on the map of sessions.\<close>

definition still_going :: "denv \<Rightarrow> duration \<Rightarrow> DState \<Rightarrow> bool" where
  "still_going e staleAfter st \<longleftrightarrow> daemonStillLive st (d_alive e) (d_now e) staleAfter \<or> d_alive e (OwnerPID st)"

definition closed_state :: "denv \<Rightarrow> (DState \<Rightarrow> int) option \<Rightarrow> DState \<Rightarrow> DState" where
  "closed_state e recover st =
     (case recover of None \<Rightarrow> st | Some f \<Rightarrow> st\<lparr>Recovered := f st\<rparr>)
       \<lparr>Finalized := True, EndedAt := d_now e, EndReason := ''daemon_died''\<rparr>"

definition closeAbandoned ::
  "denv \<Rightarrow> duration \<Rightarrow> (DState \<Rightarrow> int) option \<Rightarrow> (string \<rightharpoonup> DState) \<Rightarrow> (string \<rightharpoonup> DState)" where
  "closeAbandoned e staleAfter recover m p =
     map_option (\<lambda>st. if Finalized st \<or> still_going e staleAfter st then st else closed_state e recover st) (m p)"

text \<open>
  C12. Reconciling implements its contract: where no system call fails, the sessions after it
  are the sessions before it with exactly those closed that nobody finalized, whose daemon is
  not live and whose owner is gone, after the recovery pass has seen them.
\<close>
theorem ReconcileWith_refines:
  assumes "dir_ok d" "\<forall>x. \<not> d_fault e x" "\<not> d_missing e" "0 < staleAfter"
  shows "sessions (snd (ReconcileWith e staleAfter recover d)) = closeAbandoned e staleAfter recover (sessions d)"
proof
  fix p
  show "sessions (snd (ReconcileWith e staleAfter recover d)) p = closeAbandoned e staleAfter recover (sessions d) p"
    using assms by (cases "sessions d p")
      (auto simp: ReconcileWith_sessions recEffect_def closeAbandoned_def closed_state_def still_going_def via_ok_def)
qed

theorem ReconcileWith_refines_witness:
  "map_option Finalized (sessions (snd (ReconcileWith sample_denv minute None sample_dir)) ''a.json'') = Some True \<and>
   map_option Finalized (sessions (snd (ReconcileWith sample_denv minute None sample_dir)) ''b.json'') = Some False"
proof -
  have "sessions (snd (ReconcileWith sample_denv minute None sample_dir)) =
      closeAbandoned sample_denv minute None (sessions sample_dir)"
    by (rule ReconcileWith_refines) (simp_all add: sample_dir_ok sample_denv_def minute_def second_def)
  then show ?thesis
    by (simp add: closeAbandoned_def sample_sessions still_going_def daemonStillLive_def closed_state_def
        sample_state_def sample_denv_def)
qed

text \<open>
  A running session is never closed by reconciling: whatever system calls fail, a session
  whose owner is alive, or whose daemon is alive with a fresh heartbeat, is afterwards exactly
  what it was; and so is every finalized one.
\<close>
theorem ReconcileWith_spares_running:
  assumes "dir_ok d" "sessions d p = Some st"
    and "Finalized st \<or> d_alive e (OwnerPID st) \<or>
      0 < DaemonPID st \<and> d_alive e (DaemonPID st) \<and>
      Sub (d_now e) (Heartbeat st) \<le> (if staleAfter \<le> 0 then defaultStaleAfter else staleAfter)"
  shows "sessions (snd (ReconcileWith e staleAfter recover d)) p = Some st"
  using assms by (auto simp: ReconcileWith_sessions recEffect_def daemonStillLive_def)

theorem ReconcileWith_spares_running_witness:
  "sessions (snd (ReconcileWith sample_denv 0 None sample_dir)) ''b.json'' = Some (sample_state 7 4 False)"
  by (rule ReconcileWith_spares_running [OF sample_dir_ok sample_sessions(2)])
    (simp add: sample_state_def sample_denv_def)

text \<open>Who starts a daemon and who reconciles judge liveness alike.\<close>

lemma AlreadyRunning_iff:
  "AlreadyRunning e i sa d \<longleftrightarrow>
     (\<exists>st. load e (statePath i) d = Some st \<and> \<not> Finalized st \<and>
       daemonStillLive st (d_alive e) (d_now e) (if sa \<le> 0 then defaultStaleAfter else sa))"
  by (auto simp: AlreadyRunning_def daemonStillLive_def Let_def split: option.splits)

lemma AlreadyRunning_spared:
  assumes "dir_ok d" "AlreadyRunning e i sa d"
  shows "sessions (snd (ReconcileWith e sa recover d)) (statePath i) = sessions d (statePath i)"
  using assms
  by (auto simp: AlreadyRunning_iff sessions_load ReconcileWith_sessions recEffect_def split: if_splits)

section \<open>Stopping stale daemons\<close>

lemma staleVerdict_Stop:
  "staleVerdict e build self selfSession st = Stop reason live \<Longrightarrow>
   \<not> Finalized st \<and> 0 < DaemonPID st \<and> DaemonPID st \<noteq> self \<and> (selfSession = [] \<or> SessionID st \<noteq> selfSession) \<and>
   (if d_held e (SessionID st) \<or> daemonStillLive st (d_alive e) (d_now e) defaultStaleAfter
    then Build st \<noteq> build \<and> d_kill e (DaemonPID st) else d_alive e (OwnerPID st))"
  unfolding staleVerdict_def Let_def
  by (cases "d_held e (SessionID st) \<or> daemonStillLive st (d_alive e) (d_now e) defaultStaleAfter")
    (simp_all split: if_splits)

text \<open>
  What stopping stale daemons may change: a session it rewrites was open and not its own,
  is finalized now, and either its daemon was live, of another build, and took the signal, or
  its daemon is dead under a living owner. Nothing else changes, whatever fails.
\<close>
theorem StopStale_only_stale:
  assumes "dir_ok d" "sessions d p = Some st"
    and "sessions (snd (StopStale e build self selfSession d)) p \<noteq> Some st"
  shows "\<not> Finalized st \<and> 0 < DaemonPID st \<and> DaemonPID st \<noteq> self \<and> (selfSession = [] \<or> SessionID st \<noteq> selfSession) \<and>
    (if d_held e (SessionID st) \<or> daemonStillLive st (d_alive e) (d_now e) defaultStaleAfter
     then Build st \<noteq> build \<and> d_kill e (DaemonPID st) else d_alive e (OwnerPID st)) \<and>
    (\<exists>reason. sessions (snd (StopStale e build self selfSession d)) p =
       Some (st\<lparr>Finalized := True, EndedAt := d_now e, EndReason := reason\<rparr>))"
proof -
  have s: "sessions (snd (StopStale e build self selfSession d)) p = stopEffect e build self selfSession p st"
    using assms by (auto simp: StopStale_sessions split: if_splits)
  then obtain reason live where v: "staleVerdict e build self selfSession st = Stop reason live"
    using assms(3) by (cases "staleVerdict e build self selfSession st") (auto simp: stopEffect_def)
  then have "sessions (snd (StopStale e build self selfSession d)) p =
      Some (st\<lparr>Finalized := True, EndedAt := d_now e, EndReason := reason\<rparr>)"
    using s assms(3) by (auto simp: stopEffect_def split: if_splits)
  with staleVerdict_Stop [OF v] show ?thesis by blast
qed

theorem StopStale_only_stale_witness:
  "d_alive sample_denv (OwnerPID (sample_state 7 4 False)) \<and> \<not> Finalized (sample_state 7 4 False)"
proof -
  have v: "staleVerdict sample_denv ''b2'' 9 [] (sample_state 7 4 False) = Stop ''daemon_stale'' False"
    by (simp add: staleVerdict_def daemonStillLive_def sample_denv_def sample_state_def)
  have f: "\<not> d_missing sample_denv" "\<not> d_fault sample_denv x" for x by (simp_all add: sample_denv_def)
  have "sessions (snd (StopStale sample_denv ''b2'' 9 [] sample_dir)) ''b.json'' =
      Some ((sample_state 7 4 False)\<lparr>Finalized := True, EndedAt := d_now sample_denv, EndReason := ''daemon_stale''\<rparr>)"
    using StopStale_sessions [OF sample_dir_ok, of sample_denv "''b2''" 9 "[]" "''b.json''"]
    by (simp add: f sample_sessions stopEffect_def v state_ok_def)
  then have "sessions (snd (StopStale sample_denv ''b2'' 9 [] sample_dir)) ''b.json'' \<noteq> Some (sample_state 7 4 False)"
    by (simp add: sample_state_def)
  from StopStale_only_stale [OF sample_dir_ok sample_sessions(2) this] show ?thesis
    by (simp add: daemonStillLive_def sample_denv_def sample_state_def)
qed

section \<open>A finalized session stays finalized\<close>

text \<open>
  The steps of a directory with one running daemon: its own heartbeats (the state readable)
  and finalization, and the operations of other processes.
\<close>

inductive sys_step :: "Daemon \<times> ddir \<Rightarrow> Daemon \<times> ddir \<Rightarrow> bool" where
  Beat: "\<not> d_fault e (DRead (dm_path dm)) \<Longrightarrow> sys_step (dm, d) (beat e dm d)"
| Final: "sys_step (dm, d) (snd (Finalize e reason dm d))"
| Reconciled: "sys_step (dm, d) (dm, snd (ReconcileWith e staleAfter recover d))"
| Stopped: "sys_step (dm, d) (dm, snd (StopStale e build self selfSession d))"
| Marked: "sys_step (dm, d) (dm, snd (MarkEnded e i d))"
| Cleared: "sys_step (dm, d) (dm, ClearEnded e i d)"

inductive_cases sys_stepE: "sys_step (dm, d) y"

inductive_simps sys_step_iff: "sys_step (dm, d) y"

definition finalized_inv :: "Daemon \<times> ddir \<Rightarrow> bool" where
  "finalized_inv s \<longleftrightarrow> dir_ok (snd s) \<and> json_name (dm_path (fst s)) \<and>
     (\<exists>st. sessions (snd s) (dm_path (fst s)) = Some st \<and> Finalized st \<and> DaemonPID st = DaemonPID (dm_state (fst s)))"

lemma dir_ok_writes [intro, simp]:
  "dir_ok d \<Longrightarrow> dir_ok (d_put e k c d)" "dir_ok d \<Longrightarrow> dir_ok (d_torn e k d)"
  "dir_ok d \<Longrightarrow> dir_ok (d_rename a b d)" "dir_ok d \<Longrightarrow> dir_ok (d_remove e k d)"
  by (auto simp: d_put_def d_torn_def d_rename_def d_remove_def dir_ok_put dir_ok_del split: option.split)

lemma dir_ok_write_via [intro, simp]: "dir_ok d \<Longrightarrow> dir_ok (snd (write_via e tmp p st d))"
  by (simp add: write_via_def Let_def)

lemma dir_ok_writeState [intro, simp]: "dir_ok d \<Longrightarrow> dir_ok (snd (writeState e p st d))"
  by (simp add: writeState_def Let_def)

lemma dir_ok_fold: "(\<And>x d. dir_ok d \<Longrightarrow> dir_ok (f x d)) \<Longrightarrow> dir_ok d \<Longrightarrow> dir_ok (fold f xs d)"
  by (induction xs arbitrary: d) auto

lemma dir_ok_steps: "dir_ok d \<Longrightarrow> dir_ok (reconcileStep e sa rc p d)" "dir_ok d \<Longrightarrow> dir_ok (stopStep e b self ss p d)"
  by (auto simp: reconcileOne_def stopOne_def Let_def case_prod_beta split: option.split stale_verdict.split)

lemma dir_ok_passes:
  assumes "dir_ok d"
  shows "dir_ok (snd (ReconcileWith e sa rc d))" and "dir_ok (snd (StopStale e b self ss d))"
proof -
  have "dir_ok (snd (reconcileLoop e sa rc ps d))" for sa ps
    unfolding reconcileLoop_dir using assms by (intro dir_ok_fold dir_ok_steps)
  then show "dir_ok (snd (ReconcileWith e sa rc d))" using assms
    by (auto simp: ReconcileWith_def Let_def case_prod_beta)
  have "dir_ok (snd (stopLoop e b self ss ps d))" for ps
    unfolding stopLoop_dir using assms by (intro dir_ok_fold dir_ok_steps)
  then show "dir_ok (snd (StopStale e b self ss d))" using assms
    by (auto simp: StopStale_def case_prod_beta)
qed

lemma save_sessions:
  assumes "json_name (dm_path dm)"
  shows "sessions (snd (save e dm d)) (dm_path dm) = Some (dm_state dm) \<or>
    sessions (snd (save e dm d)) (dm_path dm) = sessions d (dm_path dm)"
  using assms by (simp add: save_def write_via_sessions)

lemma markers_sessions: "sessions (snd (MarkEnded e i d)) = sessions d" "sessions (ClearEnded e i d) = sessions d"
proof -
  have "\<not> json_name (endedPath i)" by simp
  then have n: "json_name x \<Longrightarrow> x \<noteq> endedPath i" for x by metis
  then show "sessions (snd (MarkEnded e i d)) = sessions d" "sessions (ClearEnded e i d) = sessions d"
    by (auto simp: MarkEnded_def ClearEnded_def sessions_def fun_eq_iff state_at_remove n)
qed

lemma sys_step_finalized: "sys_step s s' \<Longrightarrow> finalized_inv s \<Longrightarrow> finalized_inv s'"
proof (induction rule: sys_step.induct)
  case (Beat e dm d)
  then show ?case
    by (auto simp: finalized_inv_def beat_def sessions_load Let_def)
next
  case (Final dm d e reason)
  let ?dm = "dm\<lparr>dm_state := (dm_state dm)\<lparr>Finalized := True, EndedAt := d_now e, EndReason := reason\<rparr>\<rparr>"
  have "sessions (snd (save e ?dm d)) (dm_path dm) = Some (dm_state ?dm) \<or>
      sessions (snd (save e ?dm d)) (dm_path dm) = sessions d (dm_path dm)"
    using save_sessions [of ?dm e d] Final by (simp add: finalized_inv_def)
  moreover have "dir_ok (snd (save e ?dm d))" using Final by (simp add: finalized_inv_def save_def)
  ultimately show ?case using Final by (auto simp: finalized_inv_def Finalize_def Let_def case_prod_beta)
next
  case (Reconciled dm d e staleAfter recover)
  then show ?case by (auto simp: finalized_inv_def dir_ok_passes ReconcileWith_sessions recEffect_def)
next
  case (Stopped dm d e build self selfSession)
  then show ?case by (auto simp: finalized_inv_def dir_ok_passes StopStale_sessions stopEffect_def staleVerdict_def)
next
  case (Marked dm d e i)
  then show ?case by (auto simp: finalized_inv_def markers_sessions) (auto simp: MarkEnded_def)
next
  case (Cleared dm d e i)
  then show ?case by (auto simp: finalized_inv_def markers_sessions) (auto simp: ClearEnded_def)
qed

lemma sys_steps_finalized: "sys_step\<^sup>*\<^sup>* s s' \<Longrightarrow> finalized_inv s \<Longrightarrow> finalized_inv s'"
  by (induction rule: rtranclp_induct) (auto intro: sys_step_finalized)


definition sample_daemon :: Daemon where
  "sample_daemon = \<lparr>dm_opts = \<lparr>do_Dir = ''x'', do_SessionID = ''d'', do_OwnerPID = 3, do_Build = ''b1'', do_Cwd = [],
       do_TranscriptPath = [], FlushInterval = 1, ReportInterval = 1, PollInterval = 1, StaleAfter = 1, ShutdownGrace = 1\<rparr>,
     dm_path = ''d.json'', dm_state = sample_state 3 9 False\<rparr>"


section \<open>The shutdown drain\<close>

text \<open>The flusher's state after \<open>k\<close> cycles, and what cycle \<open>i\<close> reports as sent.\<close>

fun after_cycles :: "'s flusher \<Rightarrow> nat \<Rightarrow> 's \<Rightarrow> 's" where
  "after_cycles flush 0 s = s"
| "after_cycles flush (Suc k) s = after_cycles flush k (snd (flush s))"

definition sent_in :: "'s flusher \<Rightarrow> nat \<Rightarrow> 's \<Rightarrow> int" where
  "sent_in flush i s = fst (fst (flush (after_cycles flush i s)))"

lemma sent_in_Suc: "sent_in flush (Suc i) s = sent_in flush i (snd (flush s))"
  by (simp add: sent_in_def)

lemma drainLoop_cycles:
  "drainLoop n flush grace s = (k, s') \<Longrightarrow>
   k \<le> min n grace \<and> s' = after_cycles flush k s \<and> (\<forall>i. Suc i < k \<longrightarrow> sent_in flush i s \<noteq> 0) \<and>
   (k < min n grace \<longrightarrow> 0 < k \<and> sent_in flush (k - 1) s = 0)"
proof (induction n flush grace s arbitrary: k s' rule: drainLoop.induct)
  case (1 flush grace s)
  then show ?case by simp
next
  case (2 n flush grace s)
  show ?case
  proof (cases "grace = 0")
    case True
    with "2.prems" show ?thesis by simp
  next
    case g: False
    obtain sent err s1 where f: "flush s = ((sent, err), s1)" by (metis surj_pair)
    show ?thesis
    proof (cases "sent = 0")
      case True
      with g f "2.prems" show ?thesis by (auto simp: sent_in_def)
    next
      case False
      obtain k1 s2 where r: "drainLoop n flush (grace - 1) s1 = (k1, s2)" by (meson surj_pair)
      note ih = "2.IH" [OF g f [symmetric] refl False r]
      have k: "k = Suc k1" "s' = s2" using "2.prems" g f False r by auto
      have "sent_in flush i s \<noteq> 0" if "Suc i < k" for i
      proof (cases i)
        case 0
        then show ?thesis using f False by (simp add: sent_in_def)
      next
        case (Suc j)
        then show ?thesis using ih that k f by (simp add: sent_in_Suc)
      qed
      moreover have "0 < k \<and> sent_in flush (k - 1) s = 0" if "k < min (Suc n) grace"
        using ih that k f sent_in_Suc [of flush "k1 - 1" s] by (cases k1) auto
      ultimately show ?thesis using ih k f g by auto
    qed
  qed
qed

text \<open>
  C39. The shutdown drain ends, and for a reason: it runs some number of cycles, at most a
  thousand and at most what the grace period lets start; every cycle but the last made
  progress; and if it stopped short of both limits, the last one resolved nothing.
\<close>
theorem drainBacklog_ends:
  "\<exists>k \<le> min 1000 grace. drainBacklog (Some flush) grace s = after_cycles flush k s \<and>
     (\<forall>i. Suc i < k \<longrightarrow> sent_in flush i s \<noteq> 0) \<and>
     (k < min 1000 grace \<longrightarrow> 0 < k \<and> sent_in flush (k - 1) s = 0)"
proof -
  obtain k s' where r: "drainLoop maxShutdownFlushCycle flush grace s = (k, s')" by (meson surj_pair)
  with drainLoop_cycles [OF r] show ?thesis
    by (intro exI [of _ k]) (simp add: drainBacklog_def maxShutdownFlushCycle_def)
qed

definition countdown :: "nat flusher" where
  "countdown n = ((int n, False), n - 1)"

lemma countdown_cycles: "after_cycles countdown k n = n - k"
  by (induction k arbitrary: n) (simp_all add: countdown_def)

theorem drainBacklog_ends_witness: "drainBacklog (Some countdown) 5 2 = 0"
proof -
  obtain k where k: "k \<le> min 1000 5" "drainBacklog (Some countdown) 5 2 = after_cycles countdown k 2"
      "k < min 1000 5 \<longrightarrow> 0 < k \<and> sent_in countdown (k - 1) 2 = 0"
    using drainBacklog_ends [of 5 countdown 2] by blast
  then show ?thesis
    by (cases "k < 5") (auto simp: countdown_cycles sent_in_def countdown_def)
qed

end
