(* ===== verification/SpoolInv.thy ===== *)
theory SpoolInv
  imports Spool
begin

text \<open>
  The spool's invariant and what each operation keeps of it. Every published file that holds
  an item is named after that item's id, and the name reserved for undecodable files never
  holds one. Under it an item leaves the three directories through \<open>Ack\<close> and eviction only:
  whatever system calls fail, moving, rewriting and redriving keep the set of stored ids.
\<close>

section \<open>What is stored\<close>

definition stores :: "Spool \<Rightarrow> sub \<Rightarrow> string \<Rightarrow> item \<Rightarrow> bool" where
  "stores s sub n it \<longleftrightarrow> (\<exists>f. file_at s sub n = Some f \<and> f_content f = Doc it)"

definition held :: "Spool \<Rightarrow> string set" where
  "held s = {i. \<exists>sub n it. published n \<and> stores s sub n it \<and> item_id it = i}"

definition spool_ok :: "Spool \<Rightarrow> bool" where
  "spool_ok s \<longleftrightarrow>
     (\<forall>sub. dir_ok (dir_of sub s)) \<and>
     (\<forall>sub n it. published n \<and> stores s sub n it \<longrightarrow> name_id n = item_id it \<and> \<not> corrupt_named n)"

text \<open>The paths a delivery has leased still hold items, where they hold anything.\<close>

definition docs_at :: "(sub \<times> string) set \<Rightarrow> Spool \<Rightarrow> bool" where
  "docs_at P s \<longleftrightarrow>
     (\<forall>p\<in>P. published (snd p) \<longrightarrow> file_at s (fst p) (snd p) \<noteq> None \<longrightarrow> (\<exists>it. stores s (fst p) (snd p) it))"

definition leased_ok :: "Leased \<Rightarrow> bool" where
  "leased_ok l \<longleftrightarrow>
     published (snd (l_path l)) \<and> name_id (snd (l_path l)) = item_id (l_item l) \<and>
     \<not> corrupt_named (snd (l_path l))"

section \<open>Files after a change\<close>

lemma dir_of_set_dir [simp]: "dir_of sub (set_dir sub' d s) = (if sub = sub' then d else dir_of sub s)"
  by (cases sub; cases sub') simp_all

lemma file_at_put [simp]:
  "file_at (put_file sub n f s) sub' n' = (if sub' = sub \<and> n' = n then Some f else file_at s sub' n')"
  by (simp add: file_at_def put_file_def fs.get_put)

lemma file_at_del [simp]:
  "file_at (del_file sub n s) sub' n' = (if sub' = sub \<and> n' = n then None else file_at s sub' n')"
  by (simp add: file_at_def del_file_def fs.get_del)

lemma dir_ok_put_file: "(\<forall>sub. dir_ok (dir_of sub s)) \<Longrightarrow> dir_ok (dir_of sub (put_file sub' n f s))"
  by (simp add: put_file_def fs.ok_put)

lemma dir_ok_del_file: "(\<forall>sub. dir_ok (dir_of sub s)) \<Longrightarrow> dir_ok (dir_of sub (del_file sub' n s))"
  by (simp add: del_file_def fs.ok_del)

lemma opts_set_dir [frame, simp]: "opts (set_dir sub d s) = opts s"
  by (cases sub) simp_all

lemma guard_set_dir [frame, simp]: "guard (set_dir sub d s) = guard s"
  by (cases sub) simp_all

lemma stateFile_set_dir [frame, simp]: "stateFile (set_dir sub d s) = stateFile s"
  by (cases sub) simp_all

lemma opts_put_del [frame, simp]: "opts (put_file sub n f s) = opts s" "opts (del_file sub n s) = opts s"
  by (simp_all add: put_file_def del_file_def)

lemma stateFile_put_del [frame, simp]:
  "stateFile (put_file sub n f s) = stateFile s" "stateFile (del_file sub n s) = stateFile s"
  by (simp_all add: put_file_def del_file_def)

section \<open>Bookkeeping touches no file\<close>

lemma dir_of_mutateState [frame, simp]: "dir_of sub (mutateState e f s) = dir_of sub s"
  by (cases sub) (simp_all add: mutateState_def Let_def)

lemma opts_mutateState [frame, simp]: "opts (mutateState e f s) = opts s"
  by (simp add: mutateState_def Let_def)

lemma dir_of_proc [frame, simp]:
  "dir_of sub (s\<lparr>dropped := m\<rparr>) = dir_of sub s"
  "dir_of sub (s\<lparr>lastSuccessWritten := t\<rparr>) = dir_of sub s"
  by (cases sub; simp)+

lemma dir_of_Record [frame, simp]: "dir_of sub (Record e r n s) = dir_of sub s"
  by (simp add: Record_def)

lemma opts_Record [frame, simp]: "opts (Record e r n s) = opts s"
  by (simp add: Record_def)

lemma dir_of_drop_event [frame, simp]: "dir_of sub (drop_event e r s) = dir_of sub s"
  by (simp add: drop_event_def)

lemma opts_drop_event [frame, simp]: "opts (drop_event e r s) = opts s"
  by (simp add: drop_event_def)

lemma dir_of_adjust [frame, simp]: "dir_of sub (adjustPendingBytes e d s) = dir_of sub s"
  by (simp add: adjustPendingBytes_def)

lemma opts_adjust [frame, simp]: "opts (adjustPendingBytes e d s) = opts s"
  by (simp add: adjustPendingBytes_def)

lemma dir_of_recordSuccess [frame, simp]: "dir_of sub (recordSuccess e s) = dir_of sub s"
  by (simp add: recordSuccess_def)

lemma opts_recordSuccess [frame, simp]: "opts (recordSuccess e s) = opts s"
  by (simp add: recordSuccess_def)

lemma file_at_bookkeeping [frame, simp]:
  "file_at (mutateState e f s) sub n = file_at s sub n"
  "file_at (Record e r k s) sub n = file_at s sub n"
  "file_at (drop_event e r s) sub n = file_at s sub n"
  "file_at (adjustPendingBytes e d s) sub n = file_at s sub n"
  "file_at (recordSuccess e s) sub n = file_at s sub n"
  by (simp_all add: file_at_def)

lemma stores_drop_event [frame, simp]: "stores (drop_event e r s) sub n it = stores s sub n it"
  by (simp add: stores_def)

text \<open>Everything said of a spool's files is unchanged where the files are.\<close>

definition same_files :: "Spool \<Rightarrow> Spool \<Rightarrow> bool" where
  "same_files s t \<longleftrightarrow> (\<forall>sub. dir_of sub t = dir_of sub s)"

lemma same_files_bookkeeping [simp]:
  "same_files s (mutateState e f s)" "same_files s (Record e r k s)" "same_files s (drop_event e r s)"
  "same_files s (adjustPendingBytes e d s)" "same_files s (recordSuccess e s)"
  by (simp_all add: same_files_def)

lemma same_files_held: "same_files s t \<Longrightarrow> held t = held s"
  by (simp add: same_files_def held_def stores_def file_at_def)

lemma same_files_ok: "same_files s t \<Longrightarrow> spool_ok t = spool_ok s"
  by (simp add: same_files_def spool_ok_def stores_def file_at_def)

lemma same_files_docs: "same_files s t \<Longrightarrow> docs_at P t = docs_at P s"
  by (simp add: same_files_def docs_at_def stores_def file_at_def)

lemma bookkeeping [simp]:
  "held (mutateState e f s) = held s" "held (Record e r k s) = held s"
  "held (drop_event e r s) = held s" "held (adjustPendingBytes e d s) = held s"
  "held (recordSuccess e s) = held s"
  "spool_ok (mutateState e f s) = spool_ok s" "spool_ok (Record e r k s) = spool_ok s"
  "spool_ok (drop_event e r s) = spool_ok s" "spool_ok (adjustPendingBytes e d s) = spool_ok s"
  "spool_ok (recordSuccess e s) = spool_ok s"
  "docs_at P (mutateState e f s) = docs_at P s" "docs_at P (Record e r k s) = docs_at P s"
  "docs_at P (drop_event e r s) = docs_at P s" "docs_at P (adjustPendingBytes e d s) = docs_at P s"
  "docs_at P (recordSuccess e s) = docs_at P s"
  by (rule same_files_held same_files_ok same_files_docs; simp)+

section \<open>Writing, renaming and removing one file\<close>

lemma stores_put:
  "stores (put_file sub n f s) sub' n' it \<longleftrightarrow>
     (if sub' = sub \<and> n' = n then f_content f = Doc it else stores s sub' n' it)"
  by (auto simp: stores_def)

lemma stores_del:
  "stores (del_file sub n s) sub' n' it \<longleftrightarrow> \<not> (sub' = sub \<and> n' = n) \<and> stores s sub' n' it"
  by (auto simp: stores_def)

lemma heldI: "published n \<Longrightarrow> stores s sub n it \<Longrightarrow> item_id it = i \<Longrightarrow> i \<in> held s"
  by (auto simp: held_def)

lemma heldE:
  assumes "i \<in> held s"
  obtains sub n it where "published n" "stores s sub n it" "item_id it = i"
  using assms by (auto simp: held_def)

lemma spool_okI:
  assumes "\<And>sub. dir_ok (dir_of sub s)"
    and "\<And>sub n it. published n \<Longrightarrow> stores s sub n it \<Longrightarrow> name_id n = item_id it \<and> \<not> corrupt_named n"
  shows "spool_ok s"
  unfolding spool_ok_def using assms by blast

lemma spool_ok_dir: "spool_ok s \<Longrightarrow> dir_ok (dir_of sub s)"
  by (simp add: spool_ok_def)

lemma spool_ok_name: "spool_ok s \<Longrightarrow> published n \<Longrightarrow> stores s sub n it \<Longrightarrow> name_id n = item_id it"
  by (simp add: spool_ok_def)

lemma spool_ok_corrupt: "spool_ok s \<Longrightarrow> published n \<Longrightarrow> stores s sub n it \<Longrightarrow> \<not> corrupt_named n"
  by (simp add: spool_ok_def)

text \<open>A change that keeps the invariant, keeps the leased paths good and loses no id.\<close>

definition keeps :: "Spool \<Rightarrow> Spool \<Rightarrow> bool" where
  "keeps s t \<longleftrightarrow> spool_ok t \<and> held s \<subseteq> held t \<and> (\<forall>P. docs_at P s \<longrightarrow> docs_at P t)"

lemma keeps_refl: "spool_ok s \<Longrightarrow> keeps s s"
  by (simp add: keeps_def)

lemma keeps_trans [trans]: "keeps s t \<Longrightarrow> keeps t u \<Longrightarrow> keeps s u"
  by (auto simp: keeps_def)

lemma keeps_ok: "keeps s t \<Longrightarrow> spool_ok t"
  by (simp add: keeps_def)

lemma keeps_bookkeeping [simp]:
  "keeps s (mutateState e f t) = keeps s t" "keeps s (Record e r k t) = keeps s t"
  "keeps s (drop_event e r t) = keeps s t" "keeps s (adjustPendingBytes e d t) = keeps s t"
  "keeps s (recordSuccess e t) = keeps s t"
  by (simp_all add: keeps_def)

lemma keeps_bookkeeping_left [simp]:
  "keeps (drop_event e r s) t = keeps s t" "keeps (recordSuccess e s) t = keeps s t"
  by (simp_all add: keeps_def)

lemma keepsI:
  assumes "spool_ok t" and "\<And>i. i \<in> held s \<Longrightarrow> i \<in> held t" and "\<And>P. docs_at P s \<Longrightarrow> docs_at P t"
  shows "keeps s t"
  using assms by (auto simp: keeps_def)

lemma ok_del: "spool_ok s \<Longrightarrow> spool_ok (del_file sub n s)"
  by (rule spool_okI)
    (auto simp: stores_del dir_ok_del_file spool_ok_dir spool_ok_name spool_ok_corrupt)

lemma docs_del: "docs_at P s \<Longrightarrow> docs_at P (del_file sub n s)"
  by (auto simp: docs_at_def stores_del split: if_splits)

lemma docs_put:
  "docs_at P s \<Longrightarrow> (sub, n) \<notin> P \<or> \<not> published n \<or> f_content f \<noteq> Torn \<Longrightarrow> docs_at P (put_file sub n f s)"
  by (cases "f_content f") (fastforce simp: docs_at_def stores_put split: if_splits)+

lemma keeps_put_unpublished:
  assumes "spool_ok s" "\<not> published n"
  shows "keeps s (put_file sub n f s)"
proof (rule keepsI)
  show "spool_ok (put_file sub n f s)"
    using assms by (intro spool_okI)
      (auto simp: stores_put dir_ok_put_file spool_ok_dir spool_ok_name spool_ok_corrupt split: if_splits)
next
  fix i assume "i \<in> held s"
  then show "i \<in> held (put_file sub n f s)"
    by (rule heldE) (rule heldI, auto simp: stores_put assms(2))
qed (simp add: docs_put assms(2))

lemma keeps_del_unpublished:
  assumes "spool_ok s" "\<not> published n"
  shows "keeps s (del_file sub n s)"
proof (rule keepsI)
  fix i assume "i \<in> held s"
  then show "i \<in> held (del_file sub n s)"
    by (rule heldE) (rule heldI, auto simp: stores_del assms(2))
qed (simp_all add: ok_del docs_del assms(1))

lemma ok_put_item:
  assumes "spool_ok s" "f_content f = Doc it" "name_id n = item_id it" "\<not> corrupt_named n"
  shows "spool_ok (put_file sub n f s)"
  using assms by (intro spool_okI)
    (auto simp: stores_put dir_ok_put_file spool_ok_dir spool_ok_name spool_ok_corrupt split: if_splits)

lemma keeps_put_item:
  assumes ok: "spool_ok s" and f: "f_content f = Doc it" and n: "name_id n = item_id it" "\<not> corrupt_named n"
  shows "keeps s (put_file sub n f s)"
proof (rule keepsI)
  show "spool_ok (put_file sub n f s)" using ok f n by (rule ok_put_item)
next
  fix i assume "i \<in> held s"
  then obtain sub' n' it' where *: "published n'" "stores s sub' n' it'" "item_id it' = i"
    by (rule heldE)
  show "i \<in> held (put_file sub n f s)"
  proof (cases "sub' = sub \<and> n' = n")
    case True
    with * have "item_id it = i" using spool_ok_name [OF ok *(1,2)] n by simp
    with True * f show ?thesis by (intro heldI [of n _ sub it]) (auto simp: stores_put)
  next
    case False
    with * show ?thesis by (intro heldI [of n' _ sub' it']) (auto simp: stores_put)
  qed
qed (simp add: docs_put f)

lemma put_torn:
  assumes ok: "spool_ok s" and f: "f_content f = Torn" and n: "corrupt_named n"
  shows "spool_ok (put_file sub n f s)" and "held s \<subseteq> held (put_file sub n f s)"
proof -
  show "spool_ok (put_file sub n f s)"
    using ok f by (intro spool_okI)
      (auto simp: stores_put dir_ok_put_file spool_ok_dir spool_ok_name spool_ok_corrupt split: if_splits)
  show "held s \<subseteq> held (put_file sub n f s)"
  proof
    fix i assume "i \<in> held s"
    then obtain sub' n' it' where *: "published n'" "stores s sub' n' it'" "item_id it' = i"
      by (rule heldE)
    with spool_ok_corrupt [OF ok] n have "n' \<noteq> n" by blast
    with * show "i \<in> held (put_file sub n f s)" by (intro heldI [of n' _ sub' it']) (auto simp: stores_put)
  qed
qed

lemma held_del: "spool_ok s \<Longrightarrow> held s - {name_id n} \<subseteq> held (del_file sub n s)"
proof
  fix i assume ok: "spool_ok s" and "i \<in> held s - {name_id n}"
  then obtain sub' n' it' where *: "published n'" "stores s sub' n' it'" "item_id it' = i" "i \<noteq> name_id n"
    by (auto elim: heldE)
  with spool_ok_name [OF ok] have "n' \<noteq> n" by auto
  with * show "i \<in> held (del_file sub n s)" by (intro heldI [of n' _ sub' it']) (auto simp: stores_del)
qed

text \<open>Moving a file that holds an item to another name of the same item.\<close>

lemma keeps_move_item:
  assumes ok: "spool_ok s" and src: "file_at s sub n = Some f" "f_content f = Doc it"
    and n: "published n \<Longrightarrow> published n'" "name_id n' = item_id it" "\<not> corrupt_named n'"
  shows "keeps s (put_file sub' n' f (del_file sub n s))" (is "keeps s ?t")
proof (rule keepsI)
  have k: "keeps (del_file sub n s) ?t"
    using ok_del [OF ok] src(2) n(2,3) by (rule keeps_put_item)
  then show "spool_ok ?t" by (rule keeps_ok)
  fix i assume "i \<in> held s"
  then obtain sub1 n1 it1 where *: "published n1" "stores s sub1 n1 it1" "item_id it1 = i"
    by (rule heldE)
  show "i \<in> held ?t"
  proof (cases "sub1 = sub \<and> n1 = n")
    case True
    with * src have "it1 = it" by (auto simp: stores_def)
    with True * n src show ?thesis by (intro heldI [of n' _ sub' it]) (auto simp: stores_put)
  next
    case False
    with * have "i \<in> held (del_file sub n s)" by (intro heldI [of n1 _ sub1 it1]) (auto simp: stores_del)
    with k show ?thesis by (auto simp: keeps_def)
  qed
qed (simp add: docs_put docs_del src(2))

section \<open>System calls\<close>

lemma fs_write_keeps: "spool_ok s \<Longrightarrow> \<not> published n \<Longrightarrow> keeps s (snd (fs_write e sub n f s))"
  by (auto simp: fs_write_def keeps_put_unpublished keeps_refl split: option.splits)

lemma fs_write_at: "fst (fs_write e sub n f s) \<Longrightarrow> file_at (snd (fs_write e sub n f s)) sub n = Some f"
  by (auto simp: fs_write_def split: if_splits)

lemma fs_remove_unpublished_keeps: "spool_ok s \<Longrightarrow> \<not> published n \<Longrightarrow> keeps s (snd (fs_remove e sub n s))"
  by (auto simp: fs_remove_def keeps_del_unpublished keeps_refl split: option.splits)

lemma fs_rename_fail: "fst (fs_rename e sub n sub' n' s) \<noteq> Done \<Longrightarrow> snd (fs_rename e sub n sub' n' s) = s"
  by (auto simp: fs_rename_def split: option.splits if_splits)

text \<open>Writing an item through a temp file and publishing it by rename, whatever fails.\<close>

lemma write_rename_keeps:
  assumes ok: "spool_ok s" and tmp: "\<not> published tmp"
    and n: "name_id n = item_id it" "\<not> corrupt_named n"
    and w: "fs_write e sub tmp (doc_file e' it len) s = (True, s1)"
  shows "keeps s (snd (fs_rename e sub tmp sub n s1))"
proof -
  have k1: "keeps s s1" using fs_write_keeps [OF ok tmp] w by (metis snd_conv)
  have at: "file_at s1 sub tmp = Some (doc_file e' it len)" using fs_write_at w by (metis fst_conv snd_conv)
  have "keeps (del_file sub tmp s1) (put_file sub n (doc_file e' it len) (del_file sub tmp s1))"
    using keeps_ok [OF k1] n by (intro keeps_put_item ok_del) (auto simp: doc_file_def)
  with keeps_del_unpublished [OF keeps_ok [OF k1] tmp]
  have "keeps s1 (put_file sub n (doc_file e' it len) (del_file sub tmp s1))"
    by (rule keeps_trans)
  with k1 at show ?thesis by (auto simp: fs_rename_def intro: keeps_trans)
qed

section \<open>Every operation\<close>

lemma sweepLoop_keeps: "spool_ok s \<Longrightarrow> keeps s (sweepLoop e ns s)"
proof (induction e ns s rule: sweepLoop.induct)
  case (1 e s)
  then show ?case by (simp add: keeps_refl)
next
  case (2 e n ns s)
  have np: "HasSuffix n ''.tmp'' \<Longrightarrow> \<not> published n"
    by (auto simp: published_def HasSuffix_iff)
  show ?case
  proof (cases "HasSuffix n ''.tmp'' \<and> (\<exists>f. fs_stat e SubPending n s = Some f \<and> f_mtime f < now e - tmpSweepAge)")
    case False
    with 2 show ?thesis by (auto split: option.splits)
  next
    case True
    then obtain f where f: "fs_stat e SubPending n s = Some f" "f_mtime f < now e - tmpSweepAge" by blast
    obtain r s1 where rm: "fs_remove e SubPending n s = (r, s1)" by (meson surj_pair)
    have k: "keeps s s1"
      using fs_remove_unpublished_keeps [OF "2.prems" np, of e SubPending] True rm by (metis snd_conv)
    have "keeps s (sweepLoop e ns (drop_event e ''tmp_swept'' s1))" if "r = Done"
      using "2.IH"(4) [OF _ f(1) _ rm [symmetric]] True f that k keeps_ok [OF k]
      by (auto intro: keeps_trans)
    moreover have "keeps s (sweepLoop e ns s1)" if "r \<noteq> Done"
      using "2.IH"(5,6) [OF _ f(1) _ rm [symmetric]] True f that k keeps_ok [OF k]
      by (cases r) (auto intro: keeps_trans)
    ultimately show ?thesis using True f rm by (auto split: syscall_result.splits)
  qed
qed

lemma sweepTemp_keeps: "spool_ok s \<Longrightarrow> keeps s (sweepTemp e s)"
  by (simp add: sweepTemp_def sweepLoop_keeps keeps_refl split: option.splits)

text \<open>Moving an item out keeps it, under a tag that is not the undecodable files' own.\<close>

lemma moveOut_keeps:
  assumes ok: "spool_ok s" and p: "published n" "tag \<noteq> ''corrupt''"
    and src: "file_at s sub n \<noteq> None \<Longrightarrow> \<exists>it. stores s sub n it"
  shows "keeps s (snd (moveOut e (sub, n) dst tag s))"
proof (cases "file_at s sub n")
  case None
  then show ?thesis using ok
    by (auto simp: moveOut_def Let_def fs_rename_def keeps_refl split: option.splits syscall_result.splits)
next
  case (Some f)
  with src obtain it where it: "f_content f = Doc it" by (auto simp: stores_def)
  then have "name_id n = item_id it"
    using spool_ok_name [OF ok p(1)] Some by (auto simp: stores_def)
  then have "keeps s (put_file dst (taggedName n tag) f (del_file sub n s))"
    using keeps_move_item [OF ok Some it, of "taggedName n tag" dst] p not_corrupt_tagged by auto
  with Some ok show ?thesis
    by (auto simp: moveOut_def Let_def fs_rename_def keeps_refl)
qed

lemma docs_at_src: "docs_at P s \<Longrightarrow> (sub, n) \<in> P \<Longrightarrow> published n \<Longrightarrow> file_at s sub n \<noteq> None \<Longrightarrow>
    \<exists>it. stores s sub n it"
  by (force simp: docs_at_def)

lemma rewrite_keeps:
  assumes "spool_ok s" "leased_ok l"
  shows "keeps s (snd (rewrite e l s))"
proof (cases "marshal e (l_item l)")
  case None
  with assms show ?thesis by (simp add: rewrite_def keeps_refl)
next
  case (Some len)
  let ?sub = "fst (l_path l)" and ?tmp = "tempName (pid e) (snd (l_path l))"
  obtain ok s1 where w: "fs_write e ?sub ?tmp (doc_file e (l_item l) len) s = (ok, s1)" by (meson surj_pair)
  have k: "keeps s s1" using fs_write_keeps [OF assms(1), of ?tmp] w by (metis snd_conv not_published_temp(2))
  have "ok \<Longrightarrow> keeps s (snd (fs_rename e ?sub ?tmp ?sub (snd (l_path l)) s1))"
    using write_rename_keeps [OF assms(1), of ?tmp "snd (l_path l)" "l_item l"] assms(2) w
    by (auto simp: leased_ok_def)
  with k Some w show ?thesis
    by (cases ok) (auto simp: rewrite_def Let_def split: prod.splits syscall_result.splits)
qed

text \<open>What a verdict does to a leased item, other than acknowledging it.\<close>

definition lease_at :: "Spool \<Rightarrow> Leased \<Rightarrow> bool" where
  "lease_at s l \<longleftrightarrow> leased_ok l \<and>
     (file_at s (fst (l_path l)) (snd (l_path l)) \<noteq> None \<longrightarrow> (\<exists>it. stores s (fst (l_path l)) (snd (l_path l)) it))"

lemma lease_at_moveOut:
  "spool_ok s \<Longrightarrow> lease_at s l \<Longrightarrow> tag \<noteq> ''corrupt'' \<Longrightarrow> keeps s (snd (moveOut e (l_path l) dst tag s))"
  using moveOut_keeps [of s "snd (l_path l)" tag "fst (l_path l)" e dst]
  by (auto simp: lease_at_def leased_ok_def)

lemma lease_at_drop_event [simp]: "lease_at (drop_event e r s) l = lease_at s l"
  by (simp add: lease_at_def stores_def)

lemma leased_ok_item [simp]:
  "leased_ok (l\<lparr>l_item := (l_item l)\<lparr>attempts := a\<rparr>\<rparr>) = leased_ok l"
  "leased_ok (l\<lparr>l_item := (l_item l)\<lparr>undecided := u\<rparr>\<rparr>) = leased_ok l"
  by (simp_all add: leased_ok_def)

lemma Quarantine_keeps: "spool_ok s \<Longrightarrow> lease_at s l \<Longrightarrow> keeps s (snd (Quarantine e l r s))"
  using lease_at_moveOut [of "drop_event e (''rejected:'' @ reasonTag r) s" l "''rejected-'' @ reasonTag r" e]
  by (simp add: Quarantine_def Let_def)

lemma Fail_keeps: "spool_ok s \<Longrightarrow> lease_at s l \<Longrightarrow> keeps s (snd (Fail e l s))"
  using lease_at_moveOut [of "drop_event e ''max_attempts'' s" l "''max_attempts''" e SubQuarantine]
  by (simp add: Fail_def Let_def rewrite_keeps lease_at_def)

lemma Undecided_keeps: "spool_ok s \<Longrightarrow> lease_at s l \<Longrightarrow> keeps s (snd (Undecided e l s))"
  using lease_at_moveOut [of "drop_event e ''parked'' s" l "[]" e SubParked]
    rewrite_keeps [of s "l\<lparr>l_item := (l_item l)\<lparr>undecided := undecided (l_item l) + 1\<rparr>\<rparr>" e]
  by (auto simp: Undecided_def Let_def lease_at_def split: prod.splits)

lemma fs_remove_ok: "spool_ok s \<Longrightarrow> spool_ok (snd (fs_remove e sub n s))"
  by (auto simp: fs_remove_def ok_del split: option.splits)

lemma fs_remove_docs: "docs_at P s \<Longrightarrow> docs_at P (snd (fs_remove e sub n s))"
  by (auto simp: fs_remove_def docs_del split: option.splits)

lemma fs_remove_held: "spool_ok s \<Longrightarrow> held s - {name_id n} \<subseteq> held (snd (fs_remove e sub n s))"
  using held_del [of s n sub] by (auto simp: fs_remove_def split: option.splits)

lemma Ack_same:
  "same_files (snd (fs_remove e (fst (l_path l)) (snd (l_path l)) (recordSuccess e s))) (snd (Ack e l s))"
  by (auto simp: Ack_def Let_def same_files_def split: prod.splits syscall_result.splits)

lemma Ack_ok: "spool_ok s \<Longrightarrow> spool_ok (snd (Ack e l s))"
  using same_files_ok [OF Ack_same] by (simp add: fs_remove_ok)

lemma Ack_docs: "docs_at P s \<Longrightarrow> docs_at P (snd (Ack e l s))"
  using same_files_docs [OF Ack_same] by (simp add: fs_remove_docs)

lemma Ack_held: "spool_ok s \<Longrightarrow> leased_ok l \<Longrightarrow> held s - {item_id (l_item l)} \<subseteq> held (snd (Ack e l s))"
  using same_files_held [OF Ack_same, of e l s]
    fs_remove_held [of "recordSuccess e s" "snd (l_path l)" e "fst (l_path l)"]
  by (simp add: leased_ok_def)

section \<open>A delivery's operations as one store\<close>

text \<open>What \<open>applyVerdict\<close> may ask of the spool for a leased item.\<close>

datatype verdict_op = DoAck env Leased | DoQuarantine env Leased string | DoUndecided env Leased | DoFail env Leased

fun exec_op :: "verdict_op \<Rightarrow> Spool \<Rightarrow> Spool" where
  "exec_op (DoAck e l) s = snd (Ack e l s)"
| "exec_op (DoQuarantine e l r) s = snd (Quarantine e l r s)"
| "exec_op (DoUndecided e l) s = snd (Undecided e l s)"
| "exec_op (DoFail e l) s = snd (Fail e l s)"

fun op_lease :: "verdict_op \<Rightarrow> Leased" where
  "op_lease (DoAck e l) = l"
| "op_lease (DoQuarantine e l r) = l"
| "op_lease (DoUndecided e l) = l"
| "op_lease (DoFail e l) = l"

fun op_releases :: "verdict_op \<Rightarrow> string set" where
  "op_releases (DoAck e l) = {item_id (l_item l)}"
| "op_releases oo = {}"

definition op_legal :: "(sub \<times> string) set \<Rightarrow> verdict_op \<Rightarrow> bool" where
  "op_legal P oo \<longleftrightarrow> leased_ok (op_lease oo) \<and> l_path (op_lease oo) \<in> P"

lemma legal_lease_at: "docs_at P s \<Longrightarrow> leased_ok l \<Longrightarrow> l_path l \<in> P \<Longrightarrow> lease_at s l"
  using docs_at_src [of P s "fst (l_path l)" "snd (l_path l)"] by (auto simp: lease_at_def leased_ok_def)

lemma exec_op_keeps:
  "spool_ok s \<Longrightarrow> lease_at s (op_lease oo) \<Longrightarrow> op_releases oo = {} \<Longrightarrow> keeps s (exec_op oo s)"
  by (cases oo) (simp_all add: Quarantine_keeps Undecided_keeps Fail_keeps)

interpretation outbox: keeper exec_op "op_legal P" "\<lambda>s. spool_ok s \<and> docs_at P s" held op_releases
  for P
proof unfold_locales
  fix oo s
  assume legal: "op_legal P oo" and inv: "spool_ok s \<and> docs_at P s"
  then have at: "lease_at s (op_lease oo)" by (auto simp: op_legal_def intro: legal_lease_at)
  show "spool_ok (exec_op oo s) \<and> docs_at P (exec_op oo s)"
    using exec_op_keeps [of s oo] inv at by (cases oo) (auto simp: keeps_def Ack_ok Ack_docs)
  show "held s - op_releases oo \<subseteq> held (exec_op oo s)"
  proof (cases oo)
    case (DoAck e l)
    with Ack_held [of s l e] inv legal show ?thesis by (simp add: op_legal_def)
  qed (use exec_op_keeps [of s oo] inv at in \<open>auto simp: keeps_def\<close>)
qed

end
