(* ===== verification/SpoolLease.thy ===== *)
theory SpoolLease
  imports SpoolInv
begin

text \<open>
  Leasing and redriving: what \<open>Lease\<close> returns and leaves behind, undecodable files moved to
  quarantine, and the redrive loop, which keeps every stored id under any failures and, where
  nothing fails, puts every item of the directory back under its base name with its counters
  at zero.
\<close>

section \<open>Leasing\<close>

lemma moveOut_torn:
  fixes e :: env
  assumes ok: "spool_ok s" and src: "file_at s sub n = Some f" "f_content f = Torn" and d: "dst \<noteq> sub"
  defines "t \<equiv> snd (moveOut e (sub, n) dst ''corrupt'' s)"
  shows "spool_ok t" and "held s \<subseteq> held t"
    and "n' \<noteq> n \<Longrightarrow> file_at t sub n' = file_at s sub n'"
proof -
  let ?u = "put_file dst (taggedName n ''corrupt'') f (del_file sub n s)"
  have u: "same_files ?u t \<or> same_files s t"
    using src by (auto simp: t_def moveOut_def Let_def fs_rename_def same_files_def)
  have nd: "stores s sub' n' it \<Longrightarrow> \<not> (sub' = sub \<and> n' = n)" for sub' n' it
    using src by (auto simp: stores_def)
  have "held s \<subseteq> held (del_file sub n s)"
    by (auto elim!: heldE intro!: heldI simp: stores_del dest: nd)
  with put_torn [OF ok_del [OF ok] src(2) corrupt_named_tagged]
  have h: "spool_ok ?u" "held s \<subseteq> held ?u" by blast+
  from u show "spool_ok t" using h ok by (auto simp: same_files_ok)
  from u show "held s \<subseteq> held t" using h by (auto simp: same_files_held)
  assume "n' \<noteq> n"
  with u d show "file_at t sub n' = file_at s sub n'"
    by (auto simp: same_files_def file_at_def fs.get_del put_file_def del_file_def)
qed

lemma read_item_Item: "read_item e sub n s = ReadItem it \<Longrightarrow> stores s sub n it"
  by (auto simp: read_item_def stores_def split: if_splits option.splits content.splits)

lemma read_item_Corrupt:
  "read_item e sub n s = ReadCorrupt \<Longrightarrow> \<exists>f. file_at s sub n = Some f \<and> f_content f = Torn"
  by (auto simp: read_item_def split: if_splits option.splits content.splits)

lemma file_at_drop_moveOut [simp]:
  "file_at (drop_event e r s) sub n = file_at s sub n"
  by simp

definition lease_post :: "string list \<Rightarrow> Spool \<Rightarrow> Leased list \<Rightarrow> Spool \<Rightarrow> bool" where
  "lease_post ns s ls t \<longleftrightarrow>
     spool_ok t \<and> held s \<subseteq> held t \<and>
     subseq (map (\<lambda>l. snd (l_path l)) ls) ns \<and>
     (\<forall>l\<in>set ls. leased_ok l \<and> fst (l_path l) = SubPending \<and>
        stores t SubPending (snd (l_path l)) (l_item l)) \<and>
     (\<forall>n. n \<notin> set ns \<longrightarrow> file_at t SubPending n = file_at s SubPending n)"

lemma leaseLoop_post:
  "spool_ok s \<Longrightarrow> \<forall>n\<in>set ns. published n \<Longrightarrow> distinct ns \<Longrightarrow>
   lease_post ns s (fst (leaseLoop e ns s)) (snd (leaseLoop e ns s))"
proof (induction e ns s rule: leaseLoop.induct)
  case (1 e s)
  then show ?case by (simp add: lease_post_def)
next
  case (2 e n ns s)
  then have pub: "published n" "n \<notin> set ns" "\<forall>n\<in>set ns. published n" "distinct ns" by auto
  show ?case
  proof (cases "read_item e SubPending n s")
    case ReadFailed
    with "2.IH"(1) "2.prems"(1) pub show ?thesis
      by (auto simp: lease_post_def intro: subseq_order.order_trans)
  next
    case ReadCorrupt
    obtain err s1 where q: "quarantine e (SubPending, n) ''corrupt'' s = (err, s1)" by (meson surj_pair)
    obtain f where f: "file_at s SubPending n = Some f" "f_content f = Torn"
      using read_item_Corrupt [OF ReadCorrupt] by blast
    have s1: "s1 = snd (moveOut e (SubPending, n) SubQuarantine ''corrupt'' s)"
      using q by (simp add: quarantine_def)
    note m = moveOut_torn [OF "2.prems"(1) f, where dst = SubQuarantine and e = e, folded s1]
    have "lease_post ns (drop_event e ''corrupt'' s1)
        (fst (leaseLoop e ns (drop_event e ''corrupt'' s1))) (snd (leaseLoop e ns (drop_event e ''corrupt'' s1)))"
      using "2.IH"(2) [OF ReadCorrupt q [symmetric]] m pub by simp
    with ReadCorrupt q m pub show ?thesis
      by (auto simp: lease_post_def)
  next
    case (ReadItem it)
    have st: "stores s SubPending n it" using ReadItem by (rule read_item_Item)
    obtain ls t where r: "leaseLoop e ns s = (ls, t)" by (meson surj_pair)
    have p: "lease_post ns s ls t" using "2.IH"(3) [OF ReadItem] "2.prems"(1) pub r by simp
    then have "stores t SubPending n it" using st pub by (simp add: lease_post_def stores_def)
    moreover have "leased_ok \<lparr>l_item = it, l_path = (SubPending, n)\<rparr>"
      using spool_ok_name [OF "2.prems"(1) pub(1) st] spool_ok_corrupt [OF "2.prems"(1) pub(1) st] pub(1)
      by (simp add: leased_ok_def)
    ultimately show ?thesis using p ReadItem r by (auto simp: lease_post_def)
  qed
qed

lemma pendingNames_Inr:
  assumes "pendingNames e s = Inr names" "spool_ok s"
  shows "distinct names" "sorted names" "\<forall>n\<in>set names. published n"
    "set names = {n. published n \<and> file_at s SubPending n \<noteq> None}"
proof -
  from assms(1) have n: "names = sort (filter published (dir_names (pending_dir s)))"
    by (auto simp: pendingNames_def fs_readdir_def split: if_splits)
  have "distinct (dir_names (pending_dir s))"
    using fs.ok_names spool_ok_dir [OF assms(2), of SubPending] by simp
  with n show "distinct names" "sorted names" "\<forall>n\<in>set names. published n" by auto
  show "set names = {n. published n \<and> file_at s SubPending n \<noteq> None}"
    using n fs.names_get [of "pending_dir s"] by (auto simp: file_at_def dom_def)
qed

lemma firstN_props:
  assumes "distinct names" "\<forall>n\<in>set names. published n"
  shows "distinct (firstN k names)" "\<forall>n\<in>set (firstN k names). published n"
    "0 < k \<Longrightarrow> int (length (firstN k names)) \<le> k" "\<exists>rest. names = firstN k names @ rest"
  using assms by (auto simp: firstN_def dest: in_set_takeD intro: exI [of _ "drop (nat k) names"])

lemma Lease_post:
  assumes ok: "spool_ok s" and r: "Lease e k s = (Inr ls, t)"
  obtains names where "pendingNames e (sweepTemp e s) = Inr names"
    and "lease_post (firstN k names) (sweepTemp e s) ls t" and "held s \<subseteq> held t"
    and "distinct (firstN k names)"
proof -
  let ?s = "sweepTemp e s"
  from r obtain names where n: "pendingNames e ?s = Inr names"
    and l: "leaseLoop e (firstN k names) ?s = (ls, t)"
    by (auto simp: Lease_def Let_def split: sum.splits prod.splits)
  have k: "keeps s ?s" using ok by (rule sweepTemp_keeps)
  note f = firstN_props [OF pendingNames_Inr(1,3) [OF n keeps_ok [OF k]], of k]
  have "lease_post (firstN k names) ?s ls t"
    using leaseLoop_post [OF keeps_ok [OF k] f(2,1), of e] l by simp
  with n k f(1) show thesis by (intro that) (auto simp: keeps_def lease_post_def)
qed

lemma Lease_ok: "spool_ok s \<Longrightarrow> spool_ok (snd (Lease e k s)) \<and> held s \<subseteq> held (snd (Lease e k s))"
proof -
  assume ok: "spool_ok s"
  obtain r t where lt: "Lease e k s = (r, t)" by (meson surj_pair)
  show ?thesis
  proof (cases r)
    case (Inl err)
    with lt have "t = sweepTemp e s" by (auto simp: Lease_def Let_def split: sum.splits prod.splits)
    with sweepTemp_keeps [OF ok, of e] lt show ?thesis by (simp add: keeps_def)
  next
    case (Inr ls)
    with lt ok show ?thesis by (auto elim!: Lease_post simp: lease_post_def)
  qed
qed

lemma subseq_distinct: "subseq xs ys \<Longrightarrow> distinct ys \<Longrightarrow> distinct xs"
proof (induction rule: list_emb.induct)
  case (list_emb_Cons2 x y xs ys)
  then show ?case using list_emb_set [of "(=)" xs ys x] by auto
qed auto

lemma Lease_docs:
  assumes "spool_ok s" "Lease e k s = (Inr ls, t)"
  shows "docs_at (l_path ` set ls) t" "\<forall>l\<in>set ls. leased_ok l" "distinct (map l_path ls)"
proof -
  obtain names where p: "lease_post (firstN k names) (sweepTemp e s) ls t" "distinct (firstN k names)"
    using assms by (rule Lease_post)
  then show "\<forall>l\<in>set ls. leased_ok l" by (simp add: lease_post_def)
  from p show "docs_at (l_path ` set ls) t"
    by (auto simp: lease_post_def docs_at_def)
  have "distinct (map (\<lambda>l. snd (l_path l)) ls)"
    using p subseq_distinct by (auto simp: lease_post_def)
  then show "distinct (map l_path ls)" by (auto simp: distinct_map inj_on_def)
qed

section \<open>Redriving\<close>

lemma redrive_item_ok: "item_id (it\<lparr>attempts := a, undecided := u\<rparr>) = item_id it"
  by simp

lemma write_fail_keeps:
  "spool_ok s \<Longrightarrow> \<not> published tmp \<Longrightarrow> fs_write e sub tmp f s = (b, s1) \<Longrightarrow> keeps s s1"
  using fs_write_keeps by (metis snd_conv)

text \<open>
  A redriven item is in pending before its source is removed, so removing it loses nothing.
\<close>

lemma remove_duplicate_keeps:
  assumes ok: "spool_ok s" and d: "stores s sub' n' it" "published n'" "(sub', n') \<noteq> (sub, n)"
    and n: "published n" "name_id n = item_id it"
  shows "keeps s (snd (fs_remove e sub n s))"
proof (rule keepsI)
  fix i assume "i \<in> held s"
  then obtain sub1 n1 it1 where *: "published n1" "stores s sub1 n1 it1" "item_id it1 = i" by (rule heldE)
  show "i \<in> held (snd (fs_remove e sub n s))"
  proof (cases "(sub1, n1) = (sub, n)")
    case True
    with * n have "item_id it = i" using spool_ok_name [OF ok *(1,2)] by simp
    with d show ?thesis
      by (intro heldI [of n' _ sub' it]) (auto simp: fs_remove_def stores_del split: option.splits)
  next
    case False
    with * show ?thesis
      by (intro heldI [of n1 _ sub1 it1]) (auto simp: fs_remove_def stores_del split: option.splits)
  qed
qed (simp_all add: fs_remove_ok fs_remove_docs ok)

text \<open>One entry of the loop: the state it leaves before the next entry, and what it counts.\<close>

definition redriveOne :: "env \<Rightarrow> sub \<Rightarrow> string \<Rightarrow> Spool \<Rightarrow> nat \<times> Spool" where
  "redriveOne e sub n s =
     (if \<not> HasSuffix n ''.json'' then (0, s)
      else case read_item e sub n s of
        ReadItem it0 \<Rightarrow>
          (let it = it0\<lparr>attempts := 0, undecided := 0\<rparr>
           in case marshal e it of
                None \<Rightarrow> (0, s)
              | Some len \<Rightarrow>
                  (let dst = baseName n; tmp = tempName (pid e) dst
                   in case fs_write e SubPending tmp (doc_file e it len) s of
                        (False, s1) \<Rightarrow> (0, s1)
                      | (True, s1) \<Rightarrow>
                          (case fs_rename e SubPending tmp SubPending dst s1 of
                             (Done, s2) \<Rightarrow> (1, adjustPendingBytes e (int len) (snd (fs_remove e sub n s2)))
                           | (r, s2) \<Rightarrow> (0, snd (fs_remove e SubPending tmp s2)))))
      | r \<Rightarrow> (0, s))"

lemma redriveLoop_step:
  "redriveLoop e sub (n # ns) s =
     (let (k, s1) = redriveOne e sub n s; (k', s2) = redriveLoop e sub ns s1 in (k + k', s2))"
  by (auto simp: redriveOne_def Let_def split: read_result.splits option.splits prod.splits
      bool.splits syscall_result.splits)

lemma redriveOne_keeps:
  assumes ok: "spool_ok s" and sub: "sub \<noteq> SubPending" and pub: "HasSuffix n ''.json'' \<Longrightarrow> published n"
  shows "keeps s (snd (redriveOne e sub n s))"
proof (cases "HasSuffix n ''.json'' \<and> (\<exists>it0. read_item e sub n s = ReadItem it0 \<and>
    marshal e (it0\<lparr>attempts := 0, undecided := 0\<rparr>) \<noteq> None)")
  case False
  with ok show ?thesis
    by (auto simp: redriveOne_def Let_def keeps_refl split: read_result.splits option.splits)
next
  case True
  then obtain it0 len where h: "HasSuffix n ''.json''" "read_item e sub n s = ReadItem it0"
    "marshal e (it0\<lparr>attempts := 0, undecided := 0\<rparr>) = Some len" by auto
  let ?it = "it0\<lparr>attempts := 0, undecided := 0\<rparr>"
  let ?dst = "baseName n" and ?tmp = "tempName (pid e) (baseName n)"
  have nid: "name_id n = item_id it0"
    using spool_ok_name [OF ok pub [OF h(1)] read_item_Item [OF h(2)]] .
  obtain b s1 where w: "fs_write e SubPending ?tmp (doc_file e ?it len) s = (b, s1)" by (meson surj_pair)
  have k1: "keeps s s1" using write_fail_keeps [OF ok _ w] by simp
  obtain r s2 where rn: "fs_rename e SubPending ?tmp SubPending ?dst s1 = (r, s2)" by (meson surj_pair)
  have k2: "keeps s s2" if b
  proof -
    from w that have w': "fs_write e SubPending ?tmp (doc_file e ?it len) s = (True, s1)" by simp
    have "keeps s (snd (fs_rename e SubPending ?tmp SubPending ?dst s1))"
      by (rule write_rename_keeps [OF ok _ _ not_corrupt_base w']) (simp_all add: nid)
    with rn show ?thesis by simp
  qed
  have k3: "keeps s2 (snd (fs_remove e sub n s2))" if b "r = Done"
  proof -
    have "stores s2 SubPending ?dst ?it"
      using rn that fs_write_at [of e SubPending ?tmp "doc_file e ?it len" s] w
      by (auto simp: fs_rename_def stores_def doc_file_def split: option.splits if_splits)
    with keeps_ok [OF k2 [OF that(1)]] show ?thesis
      using pub [OF h(1)] nid sub by (intro remove_duplicate_keeps [of s2 SubPending ?dst ?it]) auto
  qed
  have k4: "keeps s2 (snd (fs_remove e SubPending ?tmp s2))" if b
    using fs_remove_unpublished_keeps [OF keeps_ok [OF k2 [OF that]]] by simp
  show ?thesis
  proof (cases b)
    case False
    with h w k1 show ?thesis by (simp add: redriveOne_def Let_def)
  next
    case True
    show ?thesis
    proof (cases "r = Done")
      case False
      with h w rn True keeps_trans [OF k2 k4, OF True True] show ?thesis
        by (cases r) (simp_all add: redriveOne_def Let_def)
    next
      case Done: True
      from keeps_trans [OF k2 [OF True] k3 [OF True Done]] h w rn True Done show ?thesis
        by (simp add: redriveOne_def Let_def)
    qed
  qed
qed

lemma redriveLoop_keeps:
  "spool_ok s \<Longrightarrow> sub \<noteq> SubPending \<Longrightarrow> \<forall>n\<in>set ns. HasSuffix n ''.json'' \<longrightarrow> published n \<Longrightarrow>
   keeps s (snd (redriveLoop e sub ns s))"
proof (induction ns arbitrary: s)
  case Nil
  then show ?case by (simp add: keeps_refl)
next
  case (Cons n ns)
  obtain k s1 where s1: "redriveOne e sub n s = (k, s1)" by (meson surj_pair)
  have k: "keeps s s1" using redriveOne_keeps [OF Cons.prems(1,2), of n e] Cons.prems(3) s1 by simp
  have "keeps s1 (snd (redriveLoop e sub ns s1))"
    using keeps_ok [OF k] Cons.prems by (intro Cons.IH) auto
  with keeps_trans [OF k this] s1 show ?case
    unfolding redriveLoop_step by (auto simp: Let_def split: prod.splits)
qed

end
