(* ===== verification/SpoolCap.thy ===== *)
theory SpoolCap
  imports SpoolLease
begin

text \<open>
  The cap on pending bytes: how many bytes the published files of pending take, what evicting
  the oldest of them leaves, and that a write \<open>Add\<close> accepts fits.
\<close>

section \<open>Bytes in pending\<close>

definition pendBytes :: "Spool \<Rightarrow> int" where
  "pendBytes s = sum_list (map (\<lambda>p. int (f_size (snd p))) (filter (\<lambda>p. published (fst p)) (pending_dir s)))"

definition bytes_at :: "Spool \<Rightarrow> string \<Rightarrow> int" where
  "bytes_at s n = (case file_at s SubPending n of None \<Rightarrow> 0 | Some f \<Rightarrow> int (f_size f))"

text \<open>Adding up a directory entry by entry.\<close>

definition dir_bytes :: "spool_file dir \<Rightarrow> int" where
  "dir_bytes d = sum_list (map (\<lambda>p. int (f_size (snd p))) (filter (\<lambda>p. published (fst p)) d))"

lemma dir_bytes_Cons: "dir_bytes ((n, f) # d) = (if published n then int (f_size f) else 0) + dir_bytes d"
  by (simp add: dir_bytes_def)

lemma dir_bytes_nonneg: "0 \<le> dir_bytes d"
  unfolding dir_bytes_def by (rule sum_list_nonneg) auto

lemma dir_bytes_del:
  "dir_ok d \<Longrightarrow> map_of d n = Some f \<Longrightarrow>
   dir_bytes (dir_del n d) = dir_bytes d - (if published n then int (f_size f) else 0)"
proof (induction d)
  case Nil
  then show ?case by simp
next
  case (Cons p d)
  obtain k g where p: "p = (k, g)" by force
  have step: "dir_del n (p # d) = (if k = n then dir_del n d else p # dir_del n d)"
    by (simp add: dir_del_def p)
  show ?case
  proof (cases "k = n")
    case True
    then have "n \<notin> set (dir_names d)" using Cons.prems p by auto
    then have "dir_del n d = d" by (auto simp: dir_del_def dir_names_def filter_id_conv)
    with True Cons.prems p step show ?thesis by (simp add: dir_bytes_Cons)
  next
    case False
    with Cons p step show ?thesis by (simp add: dir_bytes_Cons)
  qed
qed

lemma dir_bytes_put:
  "dir_bytes (dir_put n f d) \<le> dir_bytes d + (if published n then int (f_size f) else 0)"
  by (induction n f d rule: dir_put.induct) (auto simp: dir_bytes_Cons)

lemma pendBytes_eq: "pendBytes s = dir_bytes (dir_of SubPending s)"
  by (simp add: pendBytes_def dir_bytes_def)

lemma pendBytes_del:
  assumes "dir_ok (dir_of SubPending s)" "file_at s SubPending n \<noteq> None" "published n"
  shows "pendBytes (del_file SubPending n s) = pendBytes s - bytes_at s n"
  using assms dir_bytes_del [of "dir_of SubPending s" n]
  by (auto simp: pendBytes_eq del_file_def bytes_at_def file_at_def split: option.splits)

lemma pendBytes_put: "pendBytes (put_file SubPending n f s) \<le> pendBytes s + int (f_size f)"
  using dir_bytes_put [of n f "dir_of SubPending s"] by (auto simp: pendBytes_eq put_file_def split: if_splits)

lemma pendBytes_put_temp: "\<not> published n \<Longrightarrow> pendBytes (put_file SubPending n f s) \<le> pendBytes s"
  using dir_bytes_put [of n f "dir_of SubPending s"] by (auto simp: pendBytes_eq put_file_def split: if_splits)

lemma dir_bytes_del_le: "dir_bytes (dir_del n d) \<le> dir_bytes d"
  by (induction d) (auto simp: dir_del_def dir_bytes_def)

lemma pendBytes_del_le: "pendBytes (del_file SubPending n s) \<le> pendBytes s"
  by (simp add: pendBytes_eq del_file_def dir_bytes_del_le)

lemma pendBytes_same: "same_files s t \<Longrightarrow> pendBytes t = pendBytes s"
  by (simp add: pendBytes_eq same_files_def)

lemma pendBytes_bookkeeping [simp]:
  "pendBytes (mutateState e f s) = pendBytes s" "pendBytes (Record e r k s) = pendBytes s"
  "pendBytes (drop_event e r s) = pendBytes s" "pendBytes (adjustPendingBytes e d s) = pendBytes s"
  by (rule pendBytes_same; simp)+

lemma dir_bytes_names:
  "dir_ok d \<Longrightarrow> dir_bytes d =
     sum_list (map (\<lambda>n. case map_of d n of None \<Rightarrow> 0 | Some f \<Rightarrow> int (f_size f)) (filter published (dir_names d)))"
proof (induction d)
  case Nil
  then show ?case by (simp add: dir_bytes_def dir_names_def)
next
  case (Cons p d)
  obtain k g where p: "p = (k, g)" by force
  let ?g = "\<lambda>d n. case map_of d n of None \<Rightarrow> 0 | Some f \<Rightarrow> int (f_size f)"
  have "map (?g (p # d)) (filter published (dir_names d)) = map (?g d) (filter published (dir_names d))"
    using Cons.prems p by (intro map_cong) auto
  then have "sum_list (map (?g (p # d)) (filter published (dir_names d))) =
      sum_list (map (?g d) (filter published (dir_names d)))"
    by (rule arg_cong)
  moreover have "dir_names (p # d) = k # dir_names d" by (simp add: dir_names_def p)
  ultimately have "sum_list (map (?g (p # d)) (filter published (dir_names (p # d)))) =
      (if published k then int (f_size g) else 0) + sum_list (map (?g d) (filter published (dir_names d)))"
    by (simp add: p)
  with Cons p show ?case by (simp add: dir_bytes_Cons)
qed

section \<open>Measuring\<close>

lemma sum_list_insort: "sum_list (map (f :: string \<Rightarrow> int) (insort x xs)) = f x + sum_list (map f xs)"
  by (induction xs) auto

lemma sum_list_sort: "sum_list (map (f :: string \<Rightarrow> int) (sort xs)) = sum_list (map f xs)"
  by (induction xs) (simp_all add: sum_list_insort)

lemma sum_measure:
  assumes "\<forall>n. \<not> fault e (OpStat SubPending n)"
  shows "sum_list (map snd (measure_sizes e s names)) = sum_list (map (bytes_at s) names)"
proof -
  have "sum_list (map snd (case fs_stat e SubPending n s of None \<Rightarrow> [] | Some f \<Rightarrow> [(n, int (f_size f))])) = bytes_at s n" for n
    using assms by (simp add: fs_stat_def bytes_at_def split: option.splits)
  then show ?thesis by (induction names) (simp_all add: measure_sizes_def)
qed

lemma measure_total:
  assumes "\<forall>n. \<not> fault e (OpStat SubPending n)" "spool_ok s" "pendingNames e s = Inr names"
  shows "sum_list (map snd (measure_sizes e s names)) = pendBytes s"
proof -
  from assms(3) have "names = sort (filter published (dir_names (dir_of SubPending s)))"
    by (auto simp: pendingNames_def fs_readdir_def split: if_splits)
  with sum_measure [OF assms(1), of s names] dir_bytes_names [OF spool_ok_dir [OF assms(2)], of SubPending]
  show ?thesis by (simp add: sum_list_sort pendBytes_eq bytes_at_def [abs_def] file_at_def)
qed

lemma measure_size_of:
  assumes "\<forall>n. \<not> fault e (OpStat SubPending n)" "distinct names" "n \<in> set names" "file_at s SubPending n \<noteq> None"
  shows "mget (map_of (measure_sizes e s names)) n = bytes_at s n"
  using assms(2,3)
proof (induction names)
  case Nil
  then show ?case by simp
next
  case (Cons m names)
  have st: "fs_stat e SubPending m s = file_at s SubPending m" using assms(1) by (simp add: fs_stat_def)
  show ?case
  proof (cases "m = n")
    case True
    with st assms(4) show ?thesis by (auto simp: measure_sizes_def mget_def bytes_at_def)
  next
    case False
    with Cons have "mget (map_of (measure_sizes e s names)) n = bytes_at s n" by simp
    with False st show ?thesis by (auto simp: measure_sizes_def mget_def split: option.splits)
  qed
qed

section \<open>Evicting\<close>

text \<open>What was removed is what the running total lost, whatever removals fail.\<close>

lemma evictLoop_accounts:
  "spool_ok s \<Longrightarrow> distinct names \<Longrightarrow>
   \<forall>n\<in>set names. published n \<and> (file_at s SubPending n \<noteq> None \<longrightarrow> mget sizes n = bytes_at s n) \<Longrightarrow>
   evictLoop e cap inc sizes names tot s = (tot', t) \<Longrightarrow>
   spool_ok t \<and> opts t = opts s \<and> pendBytes t - tot' = pendBytes s - tot"
proof (induction names arbitrary: tot s)
  case Nil
  then show ?case by simp
next
  case (Cons n ns)
  show ?case
  proof (cases "tot + inc > cap")
    case False
    with Cons.prems show ?thesis by simp
  next
    case True
    obtain r s1 where rm: "fs_remove e SubPending n s = (r, s1)" by (meson surj_pair)
    have rest: "\<forall>m\<in>set ns. published m \<and> (file_at s1 SubPending m \<noteq> None \<longrightarrow> mget sizes m = bytes_at s1 m)"
      using Cons.prems(2,3) rm
      by (auto simp: fs_remove_def bytes_at_def split: if_splits option.splits)
    show ?thesis
    proof (cases "r = Done")
      case False
      then have "s1 = s" using rm by (auto simp: fs_remove_def split: if_splits option.splits)
      with False True rm Cons.IH [of s tot] Cons.prems show ?thesis by (cases r) auto
    next
      case r: True
      then have s1: "s1 = del_file SubPending n s" "file_at s SubPending n \<noteq> None"
        using rm by (auto simp: fs_remove_def split: if_splits option.splits)
      have "spool_ok (drop_event e ''queue_overflow'' s1)" using Cons.prems(1) s1 by (simp add: ok_del)
      moreover have "\<forall>m\<in>set ns. published m \<and> (file_at (drop_event e ''queue_overflow'' s1) SubPending m \<noteq> None \<longrightarrow>
          mget sizes m = bytes_at (drop_event e ''queue_overflow'' s1) m)"
        using rest by (simp add: bytes_at_def)
      ultimately have "spool_ok t \<and> opts t = opts s1 \<and> pendBytes t - tot' = pendBytes s1 - (tot - mget sizes n)"
        using Cons.IH [of "drop_event e ''queue_overflow'' s1" "tot - mget sizes n"] Cons.prems True rm r by simp
      moreover have "pendBytes s1 = pendBytes s - mget sizes n"
        using pendBytes_del [OF spool_ok_dir [OF Cons.prems(1)] s1(2)] Cons.prems(3) s1 by simp
      ultimately show ?thesis by (simp add: s1)
    qed
  qed
qed

lemma mget_dropped_Record: "mget (dropped (drop_event e r s)) k = mget (dropped s) k + (if k = r then 1 else 0)"
  by (simp add: drop_event_def Record_def mutateState_def Let_def)

lemma evictLoop_prefix:
  "\<forall>n. \<not> fault e (OpRemove SubPending n) \<Longrightarrow> distinct names \<Longrightarrow>
   \<forall>n\<in>set names. file_at s SubPending n \<noteq> None \<Longrightarrow>
   evictLoop e cap inc sizes names tot s = (tot', t) \<Longrightarrow>
   \<exists>k\<le>length names.
     tot' = tot - sum_list (map (mget sizes) (take k names)) \<and>
     (\<forall>n. file_at t SubPending n = (if n \<in> set (take k names) then None else file_at s SubPending n)) \<and>
     mget (dropped t) ''queue_overflow'' = mget (dropped s) ''queue_overflow'' + int k \<and>
     (k = length names \<or> tot' + inc \<le> cap) \<and>
     (\<forall>j<k. cap < tot - sum_list (map (mget sizes) (take j names)) + inc)"
proof (induction names arbitrary: tot s)
  case Nil
  then show ?case by simp
next
  case (Cons n ns)
  show ?case
  proof (cases "tot + inc > cap")
    case False
    with Cons.prems show ?thesis by (intro exI [of _ 0]) auto
  next
    case True
    let ?s1 = "drop_event e ''queue_overflow'' (del_file SubPending n s)"
    have rm: "fs_remove e SubPending n s = (Done, del_file SubPending n s)"
      using Cons.prems by (auto simp: fs_remove_def)
    have "\<forall>m\<in>set ns. file_at ?s1 SubPending m \<noteq> None" using Cons.prems by auto
    moreover have "evictLoop e cap inc sizes ns (tot - mget sizes n) ?s1 = (tot', t)"
      using Cons.prems(4) True rm by simp
    ultimately obtain k where k: "k \<le> length ns"
      "tot' = tot - mget sizes n - sum_list (map (mget sizes) (take k ns))"
      "\<forall>m. file_at t SubPending m = (if m \<in> set (take k ns) then None else file_at ?s1 SubPending m)"
      "mget (dropped t) ''queue_overflow'' = mget (dropped ?s1) ''queue_overflow'' + int k"
      "k = length ns \<or> tot' + inc \<le> cap"
      "\<forall>j<k. cap < tot - mget sizes n - sum_list (map (mget sizes) (take j ns)) + inc"
      using Cons.IH [of ?s1 "tot - mget sizes n"] Cons.prems by auto
    have "\<forall>j<Suc k. cap < tot - sum_list (map (mget sizes) (take j (n # ns))) + inc"
    proof (intro allI impI)
      fix j assume "j < Suc k"
      then show "cap < tot - sum_list (map (mget sizes) (take j (n # ns))) + inc"
        using k(6) True by (cases j) (auto simp: algebra_simps)
    qed
    moreover have "dropped (del_file SubPending n s) = dropped s"
      by (simp add: del_file_def)
    ultimately show ?thesis
      using k by (intro exI [of _ "Suc k"]) (auto simp: mget_dropped_Record)
  qed
qed

section \<open>A write that is accepted fits\<close>

text \<open>The cached estimate, where it is trusted at all, is no smaller than what is there.\<close>

definition est_honest :: "env \<Rightarrow> Spool \<Rightarrow> bool" where
  "est_honest e s \<longleftrightarrow>
     (case readState e s of Inl err \<Rightarrow> True
      | Inr st \<Rightarrow> pending_measured st \<and> 0 \<le> pending_bytes st \<longrightarrow> pendBytes s \<le> pending_bytes st)"

lemma enforceCap_fits:
  assumes ok: "spool_ok s" and st: "\<forall>n. \<not> fault e (OpStat SubPending n)"
    and h: "est_honest e s" and inc: "0 \<le> inc"
    and r: "enforceCap e inc s = (None, t)"
  shows "spool_ok t \<and> pendBytes t + inc \<le> maxBytes (opts s)"
proof (cases "trustsEstimate e inc s")
  case True
  with r have "t = s" by (simp add: enforceCap_def)
  moreover obtain x where "readState e s = Inr x" "pending_measured x" "0 \<le> pending_bytes x"
    "10 * (pending_bytes x + inc) < 9 * maxBytes (opts s)"
    using True by (auto simp: trustsEstimate_def split: sum.splits)
  moreover from this h have "pendBytes s \<le> pending_bytes x" by (simp add: est_honest_def)
  ultimately show ?thesis using ok inc by simp
next
  case False
  with r obtain names tot' s1 where n: "pendingNames e s = Inr names"
    and ev: "evictLoop e (maxBytes (opts s)) inc (map_of (measure_sizes e s names)) names
        (sum_list (map snd (measure_sizes e s names))) s = (tot', s1)"
    and t: "t = mutateState e (\<lambda>x. x\<lparr>pending_bytes := tot', pending_measured := True\<rparr>) s1"
    and fit: "\<not> maxBytes (opts s) < tot' + inc"
    by (auto simp: enforceCap_def Let_def split: sum.splits prod.splits if_splits)
  note p = pendingNames_Inr [OF n ok]
  have sz: "\<forall>n\<in>set names. published n \<and> (file_at s SubPending n \<noteq> None \<longrightarrow>
      mget (map_of (measure_sizes e s names)) n = bytes_at s n)"
    using p(3) measure_size_of [OF st p(1)] by blast
  have "spool_ok s1 \<and> pendBytes s1 - tot' = pendBytes s - pendBytes s"
    using evictLoop_accounts [OF ok p(1) sz ev] measure_total [OF st ok n] by simp
  with t fit show ?thesis by simp
qed

lemma publish_bytes:
  assumes "publish e it len s = (None, t)"
  shows "pendBytes t \<le> pendBytes s + int len"
proof -
  let ?name = "itemName (now e) (item_id it)" and ?tmp = "addTempName (itemName (now e) (item_id it))"
  let ?f = "doc_file e it len"
  from assms have t: "same_files (put_file SubPending ?name ?f (del_file SubPending ?tmp (put_file SubPending ?tmp ?f s))) t"
    by (auto simp: publish_def Let_def fs_write_def fs_rename_def split: if_splits)
  have "pendBytes (put_file SubPending ?name ?f (del_file SubPending ?tmp (put_file SubPending ?tmp ?f s)))
      \<le> pendBytes (del_file SubPending ?tmp (put_file SubPending ?tmp ?f s)) + int len"
    using pendBytes_put [of ?name ?f] by (simp add: doc_file_def)
  also have "\<dots> \<le> pendBytes s + int len"
    using pendBytes_del_le [of ?tmp] pendBytes_put_temp [of ?tmp ?f s] by (meson add_right_mono not_published_temp(1) order_trans)
  finally show ?thesis using pendBytes_same [OF t] by simp
qed

lemma Add_fits:
  assumes "spool_ok s" "\<forall>n. \<not> fault e (OpStat SubPending n)" "est_honest e s" "Add e it s = (None, t)"
  shows "pendBytes t \<le> maxBytes (opts s)"
proof -
  from assms(4) obtain len s1 where *: "enforceCap e (int len) s = (None, s1)"
    "publish e (prepareItem e it) len s1 = (None, t)"
    by (auto simp: Add_def Let_def split: option.splits prod.splits)
  then show ?thesis
    using enforceCap_fits [OF assms(1-3) _ *(1)] publish_bytes [OF *(2)] by simp
qed

end
