(* ===== verification/Drain.thy ===== *)
theory Drain
  imports SpoolCap
begin

text \<open>
  Delivery (\<open>internal/drain/drain.go\<close>): one cycle leases a batch from the spool, trims it to
  the byte cap, hands it to the transport and applies the server's per-item verdict; the run
  loop waits between cycles by the backoff curve, the server's pacing or the idle interval.
  The transport and the enricher are parameters, and so is what the context reports at each
  of its checks and what the random source returns. Multipliers are exact rationals. The
  observer callback \<open>OnCycle\<close> and the mutexes are not represented: a cycle is one step.
\<close>

section \<open>Data\<close>

record Reject =
  rej_id :: string
  rej_reason :: string

record Response =
  Accepted :: "string list"
  Rejected :: "Reject list"
  RetryAfter :: duration

record BackoffPolicy =
  Initial :: duration
  Max_wait :: duration
  Multiplier :: rat
  Jitter :: bool

record DrainOptions =
  BatchSize :: int
  MaxBytes :: int
  Interval :: duration
  Backoff :: BackoffPolicy

datatype drain_error =
    ErrContext
  | ErrLease spool_error
  | ErrSend string
  | ErrAck string spool_error
  | ErrQuarantine string spool_error
  | ErrUndecided string spool_error

record DrainStats =
  n_cycles :: int
  n_sent :: int
  n_accepted :: int
  n_rejected :: int
  n_undecided :: int
  n_parked :: int
  lastErr :: "drain_error option"
  lastSuccess :: time
  backoff :: duration

record Drain =
  stats :: DrainStats
  attempt :: nat
  retryAfter :: duration
  batchFull :: bool

definition zero_DrainStats :: DrainStats where
  "zero_DrainStats = \<lparr>n_cycles = 0, n_sent = 0, n_accepted = 0, n_rejected = 0, n_undecided = 0,
     n_parked = 0, lastErr = None, lastSuccess = 0, backoff = 0\<rparr>"

definition new_Drain :: Drain where
  "new_Drain = \<lparr>stats = zero_DrainStats, attempt = 0, retryAfter = 0, batchFull = False\<rparr>"

text \<open>What the outside does during one cycle.\<close>

record cycle_env =
  at_lease :: env
  at_verdict :: env
  ctx_err :: "nat \<Rightarrow> bool"
  send :: "Leased list \<Rightarrow> Response \<times> string option"
  enrich :: "Leased list \<Rightarrow> Leased list"
  rand_int :: "int \<Rightarrow> int"

definition defaultBatchSize :: int where "defaultBatchSize = 100"
definition defaultBatchBytes :: int where "defaultBatchBytes = 4 * 2 ^ 20"
definition defaultInterval :: duration where "defaultInterval = 5 * second"
definition defaultInitial :: duration where "defaultInitial = second"
definition defaultMax :: duration where "defaultMax = 5 * minute"
definition defaultMultiplier :: rat where "defaultMultiplier = 2"
definition envelopeBytes :: int where "envelopeBytes = 512"

text \<open>\<open>New\<close>: the defaults; a missing spool or transport cannot be expressed here.\<close>

definition New :: "DrainOptions \<Rightarrow> DrainOptions" where
  "New o0 = \<lparr>
     BatchSize = (if BatchSize o0 \<le> 0 then defaultBatchSize else BatchSize o0),
     MaxBytes = (if MaxBytes o0 \<le> 0 then defaultBatchBytes else MaxBytes o0),
     Interval = (if Interval o0 \<le> 0 then defaultInterval else Interval o0),
     Backoff = \<lparr>
       Initial = (if Initial (Backoff o0) \<le> 0 then defaultInitial else Initial (Backoff o0)),
       Max_wait = (if Max_wait (Backoff o0) \<le> 0 then defaultMax else Max_wait (Backoff o0)),
       Multiplier = (if Multiplier (Backoff o0) < 1 then defaultMultiplier else Multiplier (Backoff o0)),
       Jitter = Jitter (Backoff o0)\<rparr>\<rparr>"

section \<open>Bookkeeping\<close>

definition recordErr :: "drain_error \<Rightarrow> Drain \<Rightarrow> Drain" where
  "recordErr err d = d\<lparr>stats := (stats d)\<lparr>lastErr := Some err\<rparr>\<rparr>"

definition backoff_ceiling :: "BackoffPolicy \<Rightarrow> nat \<Rightarrow> rat" where
  "backoff_ceiling p n =
     (let ceiling = of_int (Initial p) * Multiplier p ^ n
      in if ceiling > of_int (Max_wait p) then of_int (Max_wait p) else ceiling)"

definition computeBackoff :: "(int \<Rightarrow> int) \<Rightarrow> BackoffPolicy \<Rightarrow> nat \<Rightarrow> duration" where
  "computeBackoff rand p n =
     (let ceiling = backoff_ceiling p n
      in if ceiling \<le> 0 then 0
         else if \<not> Jitter p then \<lfloor>ceiling\<rfloor>
         else rand \<lfloor>ceiling\<rfloor> + 1)"

definition recordTransportFailure :: "DrainOptions \<Rightarrow> (int \<Rightarrow> int) \<Rightarrow> drain_error \<Rightarrow> duration \<Rightarrow> Drain \<Rightarrow> Drain" where
  "recordTransportFailure o0 rand err ra d =
     d\<lparr>stats := (stats d)\<lparr>lastErr := Some err, backoff := computeBackoff rand (Backoff o0) (attempt d)\<rparr>,
       retryAfter := ra, attempt := Suc (attempt d)\<rparr>"

definition drain_recordSuccess :: "time \<Rightarrow> duration \<Rightarrow> bool \<Rightarrow> Drain \<Rightarrow> Drain" where
  "drain_recordSuccess t ra full d =
     d\<lparr>stats := (stats d)\<lparr>lastErr := None, lastSuccess := t, backoff := 0\<rparr>,
       retryAfter := ra, batchFull := full, attempt := 0\<rparr>"

section \<open>The byte cap\<close>

definition itemBytes :: "Leased \<Rightarrow> int" where
  "itemBytes l = int (length (payload (l_item l))) + envelopeBytes"

text \<open>\<open>first\<close> says the loop is at index 0.\<close>

fun limitLoop :: "int \<Rightarrow> bool \<Rightarrow> int \<Rightarrow> Leased list \<Rightarrow> Leased list" where
  "limitLoop cap first tot [] = []"
| "limitLoop cap first tot (l # ls) =
     (if \<not> first \<and> tot + itemBytes l > cap then []
      else l # limitLoop cap False (tot + itemBytes l) ls)"

definition limitBytes :: "DrainOptions \<Rightarrow> Leased list \<Rightarrow> Leased list" where
  "limitBytes o0 ls = limitLoop (MaxBytes o0) True 0 ls"

section \<open>The verdict\<close>

datatype verdict = VAccepted | VRejected string | VUndecided

text \<open>Membership decides, acceptance first; of several reasons for one id the last is kept.\<close>

definition verdict_of :: "Response \<Rightarrow> string \<Rightarrow> verdict" where
  "verdict_of resp i =
     (if i \<in> set (Accepted resp) then VAccepted
      else case map_of (rev (map (\<lambda>r. (rej_id r, rej_reason r)) (Rejected resp))) i of
             Some reason \<Rightarrow> VRejected reason
           | None \<Rightarrow> VUndecided)"

record tally =
  nAcc :: int
  nRej :: int
  nUnd :: int
  nPark :: int

fun applyLoop :: "env \<Rightarrow> Response \<Rightarrow> Leased list \<Rightarrow> tally \<times> Drain \<times> Spool \<Rightarrow> tally \<times> Drain \<times> Spool" where
  "applyLoop e resp [] st = st"
| "applyLoop e resp (l # ls) (c, d, s) =
     (let i = item_id (l_item l)
      in case verdict_of resp i of
           VAccepted \<Rightarrow>
             (case Ack e l s of
                (Some err, s1) \<Rightarrow> applyLoop e resp ls (c, recordErr (ErrAck i err) d, s1)
              | (None, s1) \<Rightarrow> applyLoop e resp ls (c\<lparr>nAcc := nAcc c + 1\<rparr>, d, s1))
         | VRejected reason \<Rightarrow>
             (case Quarantine e l reason s of
                (Some err, s1) \<Rightarrow> applyLoop e resp ls (c, recordErr (ErrQuarantine i err) d, s1)
              | (None, s1) \<Rightarrow> applyLoop e resp ls (c\<lparr>nRej := nRej c + 1\<rparr>, d, s1))
         | VUndecided \<Rightarrow>
             (case Undecided e l s of
                ((parked, Some err), s1) \<Rightarrow> applyLoop e resp ls (c, recordErr (ErrUndecided i err) d, s1)
              | ((parked, None), s1) \<Rightarrow>
                  applyLoop e resp ls
                    (c\<lparr>nUnd := nUnd c + 1, nPark := (if parked then nPark c + 1 else nPark c)\<rparr>, d, s1)))"

definition applyVerdict :: "env \<Rightarrow> Leased list \<Rightarrow> Response \<Rightarrow> Drain \<Rightarrow> Spool \<Rightarrow> Drain \<times> Spool" where
  "applyVerdict e batch resp d s =
     (case applyLoop e resp batch (\<lparr>nAcc = 0, nRej = 0, nUnd = 0, nPark = 0\<rparr>, d, s) of
        (c, d1, s1) \<Rightarrow>
          (d1\<lparr>stats := (stats d1)\<lparr>
             n_accepted := n_accepted (stats d1) + nAcc c,
             n_rejected := n_rejected (stats d1) + nRej c,
             n_undecided := n_undecided (stats d1) + nUnd c,
             n_parked := n_parked (stats d1) + nPark c\<rparr>\<rparr>, s1))"

section \<open>Cycles\<close>

definition RunOnce :: "DrainOptions \<Rightarrow> cycle_env \<Rightarrow> Drain \<Rightarrow> Spool \<Rightarrow> drain_error option \<times> Drain \<times> Spool" where
  "RunOnce o0 ce d s =
     (if ctx_err ce 0 then (Some ErrContext, d, s)
      else if ctx_err ce 1 then (Some ErrContext, d, s)
      else
        let d1 = d\<lparr>stats := (stats d)\<lparr>n_cycles := n_cycles (stats d) + 1\<rparr>, batchFull := False\<rparr>
        in case Lease (at_lease ce) (BatchSize o0) s of
             (Inl err, s1) \<Rightarrow> (Some (ErrLease err), recordErr (ErrLease err) d1, s1)
           | (Inr leased, s1) \<Rightarrow>
               if leased = [] then (None, d1, s1)
               else
                 let batch = limitBytes o0 (enrich ce leased)
                 in if ctx_err ce 2 then (Some ErrContext, d1, s1)
                    else
                      let d2 = d1\<lparr>stats := (stats d1)\<lparr>n_sent := n_sent (stats d1) + int (length batch)\<rparr>\<rparr>
                      in case send ce batch of
                           (resp, Some err) \<Rightarrow>
                             if ctx_err ce 3 then (Some ErrContext, d2, s1)
                             else (Some (ErrSend err),
                                   recordTransportFailure o0 (rand_int ce) (ErrSend err) (RetryAfter resp) d2, s1)
                         | (resp, None) \<Rightarrow>
                             (case applyVerdict (at_verdict ce) batch resp d2 s1 of
                                (d3, s2) \<Rightarrow>
                                  (if ctx_err ce 4 then Some ErrContext else None,
                                   drain_recordSuccess (now (at_verdict ce)) (RetryAfter resp)
                                     (int (length batch) = BatchSize o0) d3, s2)))"

definition nextWait :: "DrainOptions \<Rightarrow> bool \<Rightarrow> Drain \<Rightarrow> duration" where
  "nextWait o0 failed d =
     (let w = (if failed then backoff (stats d) else if batchFull d then 0 else Interval o0)
      in if retryAfter d > w then retryAfter d else w)"

text \<open>
  \<open>Run\<close> over the environments of its cycles, until one observes the context's end (checks 5
  and 6 are the loop's own, before and after the cycle; 7 is the sleep's) or they run out. It
  returns the pauses it made.
\<close>

fun Run :: "DrainOptions \<Rightarrow> cycle_env list \<Rightarrow> Drain \<Rightarrow> Spool \<Rightarrow> duration list \<times> Drain \<times> Spool" where
  "Run o0 [] d s = ([], d, s)"
| "Run o0 (ce # ces) d s =
     (if ctx_err ce 5 then ([], d, s)
      else case RunOnce o0 ce d s of
        (err, d1, s1) \<Rightarrow>
          if ctx_err ce 6 then ([], d1, s1)
          else let w = nextWait o0 (err \<noteq> None) d1
               in if 0 < w \<and> ctx_err ce 7 then ([w], d1, s1)
                  else (case Run o0 ces d1 s1 of
                          (ws, d2, s2) \<Rightarrow> (if 0 < w then w # ws else ws, d2, s2)))"

section \<open>The verdict as operations on the outbox\<close>

definition op_for :: "env \<Rightarrow> Response \<Rightarrow> Leased \<Rightarrow> verdict_op" where
  "op_for e resp l =
     (case verdict_of resp (item_id (l_item l)) of
        VAccepted \<Rightarrow> DoAck e l
      | VRejected reason \<Rightarrow> DoQuarantine e l reason
      | VUndecided \<Rightarrow> DoUndecided e l)"

lemma applyLoop_ops: "snd (snd (applyLoop e resp ls (c, d, s))) = fold exec_op (map (op_for e resp) ls) s"
proof (induction ls arbitrary: c d s)
  case Nil
  then show ?case by simp
next
  case (Cons l ls)
  then show ?case
    by (cases "verdict_of resp (item_id (l_item l))") (simp_all add: op_for_def split_beta split: option.split)
qed

lemma applyVerdict_ops: "snd (applyVerdict e batch resp d s) = fold exec_op (map (op_for e resp) batch) s"
  using applyLoop_ops [of e resp batch "\<lparr>nAcc = 0, nRej = 0, nUnd = 0, nPark = 0\<rparr>" d s]
  by (auto simp: applyVerdict_def split: prod.splits)

lemma op_for_lease [simp]: "op_lease (op_for e resp l) = l"
  by (simp add: op_for_def split: verdict.splits)

lemma op_for_releases: "op_releases (op_for e resp l) \<subseteq> set (Accepted resp)"
  by (auto simp: op_for_def verdict_of_def split: verdict.splits if_splits option.splits)

lemma applyVerdict_held:
  assumes "spool_ok s" "docs_at P s" "\<forall>l\<in>set batch. leased_ok l \<and> l_path l \<in> P"
  shows "spool_ok (snd (applyVerdict e batch resp d s))"
    and "held s - set (Accepted resp) \<subseteq> held (snd (applyVerdict e batch resp d s))"
proof -
  have legal: "list_all (op_legal P) (map (op_for e resp) batch)"
    using assms(3) by (auto simp: list_all_iff op_legal_def)
  from outbox.invar_run [OF this] assms(1,2)
  show "spool_ok (snd (applyVerdict e batch resp d s))" by (simp add: applyVerdict_ops)
  have "(\<Union>oo\<in>set (map (op_for e resp) batch). op_releases oo) \<subseteq> set (Accepted resp)"
    using op_for_releases by auto
  with outbox.held_run [OF legal, of s] assms(1,2)
  show "held s - set (Accepted resp) \<subseteq> held (snd (applyVerdict e batch resp d s))"
    by (simp add: applyVerdict_ops) blast
qed

section \<open>Cycles keep what was not accepted\<close>

text \<open>The documented contract of the enricher: it rewrites payloads in place.\<close>

definition enrich_ok :: "(Leased list \<Rightarrow> Leased list) \<Rightarrow> bool" where
  "enrich_ok f \<longleftrightarrow> (\<forall>ls. map l_path (f ls) = map l_path ls \<and>
     map (item_id \<circ> l_item) (f ls) = map (item_id \<circ> l_item) ls)"

lemma limitLoop_prefix: "\<exists>rest. ls = limitLoop cap fst0 tot ls @ rest"
  by (induction cap fst0 tot ls rule: limitLoop.induct) auto

lemma set_limitBytes: "set (limitBytes o0 ls) \<subseteq> set ls"
  using limitLoop_prefix [of ls "MaxBytes o0" True 0] unfolding limitBytes_def
  by (metis Un_upper1 set_append)

lemma enrich_leased:
  assumes "enrich_ok f" "\<forall>l\<in>set ls. leased_ok l" "l \<in> set (f ls)"
  shows "leased_ok l \<and> l_path l \<in> l_path ` set ls"
proof -
  obtain i where i: "i < length (f ls)" "l = f ls ! i" using assms(3) by (auto simp: in_set_conv_nth)
  have len: "length (f ls) = length ls" using assms(1) by (metis enrich_ok_def length_map)
  have "l_path l = l_path (ls ! i)" "item_id (l_item l) = item_id (l_item (ls ! i))"
    using assms(1) i len unfolding enrich_ok_def by (metis nth_map, metis comp_apply nth_map)
  with assms(2) i len show ?thesis by (auto simp: leased_ok_def)
qed

text \<open>A cycle leaves the spool alone, or as the lease left it, or as a verdict left that.\<close>

lemma RunOnce_cases:
  assumes "RunOnce o0 ce d s = (err, d', s')"
    and "s' = s \<Longrightarrow> thesis"
    and "s' = snd (Lease (at_lease ce) (BatchSize o0) s) \<Longrightarrow> thesis"
    and "\<And>leased s1 resp dd dd'. Lease (at_lease ce) (BatchSize o0) s = (Inr leased, s1) \<Longrightarrow>
      leased \<noteq> [] \<Longrightarrow> send ce (limitBytes o0 (enrich ce leased)) = (resp, None) \<Longrightarrow>
      applyVerdict (at_verdict ce) (limitBytes o0 (enrich ce leased)) resp dd s1 = (dd', s') \<Longrightarrow> thesis"
  shows thesis
proof -
  obtain lr s1 where l: "Lease (at_lease ce) (BatchSize o0) s = (lr, s1)" by (meson surj_pair)
  show thesis
  proof (cases lr)
    case (Inl err')
    with l assms(1,2,3) show ?thesis by (auto simp: RunOnce_def Let_def split: if_splits)
  next
    case (Inr leased)
    obtain resp se where sd: "send ce (limitBytes o0 (enrich ce leased)) = (resp, se)" by (meson surj_pair)
    show ?thesis
    proof (cases "s' = s \<or> s' = s1")
      case True
      with l assms(2,3) show ?thesis by auto
    next
      case False
      with assms(1) l Inr sd have "leased \<noteq> []" "se = None"
        by (auto simp: RunOnce_def Let_def split: if_splits option.splits)
      moreover obtain dd where "snd (applyVerdict (at_verdict ce) (limitBytes o0 (enrich ce leased)) resp dd s1) = s'"
        using assms(1) l Inr sd False calculation
        by (auto simp: RunOnce_def Let_def split: if_splits prod.splits) (metis snd_conv)+
      ultimately show ?thesis using assms(4) l Inr sd by (metis prod.collapse)
    qed
  qed
qed

lemma RunOnce_held:
  assumes ok: "spool_ok s" and enr: "enrich_ok (enrich ce)" and r: "RunOnce o0 ce d s = (err, d', s')"
  shows "spool_ok s' \<and> (i \<in> held s \<longrightarrow> i \<notin> held s' \<longrightarrow>
      (\<exists>batch resp. send ce batch = (resp, None) \<and> i \<in> set (Accepted resp)))"
  using r
proof (rule RunOnce_cases)
  assume "s' = s"
  with ok show ?thesis by simp
next
  assume "s' = snd (Lease (at_lease ce) (BatchSize o0) s)"
  with Lease_ok [OF ok, of "at_lease ce" "BatchSize o0"] show ?thesis by auto
next
  fix leased s1 resp dd dd'
  let ?batch = "limitBytes o0 (enrich ce leased)"
  assume l: "Lease (at_lease ce) (BatchSize o0) s = (Inr leased, s1)"
    and sd: "send ce ?batch = (resp, None)" and av: "applyVerdict (at_verdict ce) ?batch resp dd s1 = (dd', s')"
  have s1: "spool_ok s1" "held s \<subseteq> held s1" using Lease_ok [OF ok, of "at_lease ce" "BatchSize o0"] l by auto
  note docs = Lease_docs [OF ok l]
  have "\<forall>l\<in>set ?batch. leased_ok l \<and> l_path l \<in> l_path ` set leased"
    using enrich_leased [OF enr docs(2)] set_limitBytes by blast
  from applyVerdict_held [OF s1(1) docs(1) this, where e = "at_verdict ce" and resp = resp and d = dd] av s1(2) sd
  show ?thesis by auto
qed

lemma Run_held:
  "spool_ok s \<Longrightarrow> \<forall>ce\<in>set ces. enrich_ok (enrich ce) \<Longrightarrow> Run o0 ces d s = (ws, d', s') \<Longrightarrow>
   i \<in> held s \<Longrightarrow> i \<notin> held s' \<Longrightarrow>
   \<exists>ce\<in>set ces. \<exists>batch resp. send ce batch = (resp, None) \<and> i \<in> set (Accepted resp)"
proof (induction ces arbitrary: d s ws)
  case Nil
  then show ?case by simp
next
  case (Cons ce ces)
  obtain err d1 s1 where r: "RunOnce o0 ce d s = (err, d1, s1)" by (metis prod_cases3)
  note h = RunOnce_held [OF Cons.prems(1) _ r]
  show ?case
  proof (cases "i \<in> held s1")
    case False
    with h Cons.prems(2,4) show ?thesis by auto
  next
    case True
    from Cons.prems(3,4,5) r True obtain ws1 where "Run o0 ces d1 s1 = (ws1, d', s')"
      by (auto simp: Let_def split: if_splits prod.splits)
    with Cons.IH [of s1 d1 ws1] h True Cons.prems(2,5) show ?thesis by auto
  qed
qed

section \<open>Waiting\<close>

lemma backoff_ceiling_bounds:
  assumes "0 < Initial p" "0 < Max_wait p" "1 \<le> Multiplier p"
  shows "1 \<le> backoff_ceiling p n" "backoff_ceiling p n \<le> of_int (Max_wait p)"
proof -
  have "1 \<le> Multiplier p ^ n" using assms(3) by (rule one_le_power)
  moreover have "(1 :: rat) \<le> of_int (Initial p)" using assms(1) by linarith
  ultimately have "1 \<le> of_int (Initial p) * Multiplier p ^ n"
    using mult_mono [of 1 "of_int (Initial p)" 1 "Multiplier p ^ n"] by simp
  moreover have "(1 :: rat) \<le> of_int (Max_wait p)" using assms(2) by linarith
  ultimately show "1 \<le> backoff_ceiling p n" by (simp add: backoff_ceiling_def Let_def)
  show "backoff_ceiling p n \<le> of_int (Max_wait p)" by (simp add: backoff_ceiling_def Let_def)
qed

lemma New_policy: "0 < Initial (Backoff (New o0))" "0 < Max_wait (Backoff (New o0))"
  "1 \<le> Multiplier (Backoff (New o0))"
  by (auto simp: New_def defaultInitial_def defaultMax_def defaultMultiplier_def go_time)

lemma backoff_ceiling_mono:
  assumes "0 < Initial p" "1 \<le> Multiplier p" "m \<le> n"
  shows "backoff_ceiling p m \<le> backoff_ceiling p n"
proof -
  have "Multiplier p ^ m \<le> Multiplier p ^ n" using assms(2,3) by (simp add: power_increasing)
  then have "of_int (Initial p) * Multiplier p ^ m \<le> of_int (Initial p) * Multiplier p ^ n"
    using assms(1) by (intro mult_left_mono) auto
  then show ?thesis by (auto simp: backoff_ceiling_def Let_def)
qed

end
