(* ===== verification/SpoolProps.thy ===== *)
theory SpoolProps
  imports SpoolCap
begin

text \<open>
  The properties of the outbox: what a write publishes and what it may discard, what a lease
  returns, where a verdict puts an item, and that redriving brings items back. Where a
  property is about the outcome and not about surviving failures, no system call fails
  (\<open>reliable\<close>); the others hold under every failure.
\<close>

section \<open>Witness values\<close>

definition reliable :: "env \<Rightarrow> bool" where
  "reliable e \<longleftrightarrow> (\<forall>x. \<not> fault e x) \<and> (\<forall>it. marshal e it \<noteq> None)"

definition sample_env :: env where
  "sample_env = \<lparr>now = 62135596800005000000, disk_free = None, pid = ''7'', newID = ''new'',
     marshal = (\<lambda>it. Some (10 + length (payload it))), fault = (\<lambda>x. False), residue = (\<lambda>sub n. None)\<rparr>"

definition sample_item :: "string \<Rightarrow> item" where
  "sample_item i = \<lparr>item_id = i, kind = ''event'', session_id = ''s1'', seq = 1, event_time = 1,
     attempts = 0, undecided = 0, payload = ''{}''\<rparr>"

definition sample_opts :: Options where
  "sample_opts = \<lparr>optDir = ''/spool'', maxBytes = 30, optMinFreeRatio = 0, maxAttempts = 8, maxUndecided = 2\<rparr>"

definition empty_spool :: Spool where
  "empty_spool = \<lparr>opts = sample_opts, guard = DefaultGuard, dropped = Map.empty, lastSuccessWritten = 0,
     pending_dir = [], quarantine_dir = [], parked_dir = [], stateFile = NoState\<rparr>"

definition sample_file :: "string \<Rightarrow> nat \<Rightarrow> spool_file" where
  "sample_file i n = \<lparr>f_content = Doc (sample_item i), f_size = n, f_mtime = 5\<rparr>"

definition sample_spool :: Spool where
  "sample_spool = empty_spool\<lparr>
     pending_dir := [(''1-a.json'', sample_file ''a'' 12), (''2-b.json'', sample_file ''b'' 14)],
     parked_dir := [(''0-c.json'', sample_file ''c'' 11)]\<rparr>"

lemma sample_reliable [simp]: "reliable sample_env"
  by (simp add: reliable_def sample_env_def)

lemma spool_ok_by_files:
  assumes "\<And>sub. dir_ok (dir_of sub s)"
    and "\<And>sub. \<forall>(n, f)\<in>set (dir_of sub s). case f_content f of Torn \<Rightarrow> True
           | Doc it \<Rightarrow> name_id n = item_id it \<and> \<not> corrupt_named n"
  shows "spool_ok s"
proof (rule spool_okI [OF assms(1)])
  fix sub n it
  assume "stores s sub n it"
  then obtain f where f: "(n, f) \<in> set (dir_of sub s)" "f_content f = Doc it"
    by (auto simp: stores_def file_at_def dest: map_of_SomeD)
  with assms(2) [of sub] show "name_id n = item_id it \<and> \<not> corrupt_named n" by fastforce
qed

lemma dir_of_sample:
  "dir_of sub sample_spool = (case sub of
     SubPending \<Rightarrow> [(''1-a.json'', sample_file ''a'' 12), (''2-b.json'', sample_file ''b'' 14)]
   | SubQuarantine \<Rightarrow> [] | SubParked \<Rightarrow> [(''0-c.json'', sample_file ''c'' 11)])"
  by (cases sub) (simp_all add: sample_spool_def empty_spool_def)

lemma sample_names:
  "name_id ''1-a.json'' = ''a''" "name_id ''2-b.json'' = ''b''" "name_id ''0-c.json'' = ''c''"
  "\<not> corrupt_named ''1-a.json''" "\<not> corrupt_named ''2-b.json''" "\<not> corrupt_named ''0-c.json''"
  "published ''1-a.json''" "published ''2-b.json''" "published ''0-c.json''"
  "''1-a.json'' < ''2-b.json''"
  by code_simp+

lemma sample_ok [simp]: "spool_ok sample_spool"
proof (rule spool_ok_by_files)
  fix sub
  show "dir_ok (dir_of sub sample_spool)"
    using sample_names by (cases sub) (simp_all add: dir_of_sample dir_names_def)
  show "\<forall>(n, f)\<in>set (dir_of sub sample_spool). case f_content f of Torn \<Rightarrow> True
           | Doc it \<Rightarrow> name_id n = item_id it \<and> \<not> corrupt_named n"
    using sample_names by (cases sub) (simp_all add: dir_of_sample sample_file_def sample_item_def)
qed

section \<open>Adding\<close>

text \<open>The pending files a change lost.\<close>

definition lost :: "Spool \<Rightarrow> Spool \<Rightarrow> string set" where
  "lost s t = {n. published n \<and> file_at s SubPending n \<noteq> None \<and> file_at t SubPending n = None}"

lemma finite_lost [simp]: "finite (lost s t)"
proof (rule finite_subset)
  show "lost s t \<subseteq> dom (map_of (dir_of SubPending s))" by (auto simp: lost_def file_at_def)
qed (rule fs.finite_dom)

lemma lost_refl [simp]: "lost s s = {}"
  by (auto simp: lost_def)

lemma lost_same: "(\<And>n. published n \<Longrightarrow> file_at t SubPending n = file_at s SubPending n) \<Longrightarrow> lost s t = {}"
  by (auto simp: lost_def)

lemma dropped_files [frame, simp]:
  "dropped (put_file sub n f s) = dropped s" "dropped (del_file sub n s) = dropped s"
  by (cases sub; simp add: put_file_def del_file_def)+

lemma dropped_state [frame, simp]:
  "dropped (mutateState e f s) = dropped s" "dropped (adjustPendingBytes e d s) = dropped s"
  by (simp_all add: adjustPendingBytes_def mutateState_def Let_def)

lemma evictLoop_counts:
  "evictLoop e cap inc sizes names tot s = (tot', t) \<Longrightarrow>
   int (card (lost s t)) \<le> mget (dropped t) ''queue_overflow'' - mget (dropped s) ''queue_overflow'' \<and>
   (\<forall>sub n. sub \<noteq> SubPending \<longrightarrow> file_at t sub n = file_at s sub n)"
proof (induction names arbitrary: tot s)
  case Nil
  then show ?case by simp
next
  case (Cons n ns)
  obtain r s1 where rm: "fs_remove e SubPending n s = (r, s1)" by (meson surj_pair)
  show ?case
  proof (cases "tot + inc > cap \<and> r = Done")
    case False
    then have "tot + inc > cap \<Longrightarrow> s1 = s"
      using rm by (auto simp: fs_remove_def split: if_splits option.splits)
    with False rm Cons show ?thesis by (cases r) (auto split: if_splits)
  next
    case True
    let ?u = "drop_event e ''queue_overflow'' s1"
    have s1: "s1 = del_file SubPending n s"
      using rm True by (auto simp: fs_remove_def split: if_splits option.splits)
    have "evictLoop e cap inc sizes ns (tot - mget sizes n) ?u = (tot', t)"
      using Cons.prems True rm by simp
    note ih = Cons.IH [OF this]
    have "lost s t \<subseteq> insert n (lost ?u t)" by (auto simp: lost_def s1)
    then have "card (lost s t) \<le> card (insert n (lost ?u t))" by (intro card_mono) simp_all
    also have "\<dots> \<le> Suc (card (lost ?u t))" by (simp add: card_insert_if)
    finally have "card (lost s t) \<le> Suc (card (lost ?u t))" .
    with ih s1 show ?thesis by (simp add: mget_dropped_Record)
  qed
qed

lemma lost_state [simp]:
  "lost s (mutateState e f t) = lost s t" "lost s (drop_event e r t) = lost s t"
  by (simp_all add: lost_def)

lemma enforceCap_counts:
  assumes "enforceCap e inc s = (r, t)"
  shows "int (card (lost s t)) \<le> mget (dropped t) ''queue_overflow'' - mget (dropped s) ''queue_overflow'' \<and>
     (\<forall>sub n. sub \<noteq> SubPending \<longrightarrow> file_at t sub n = file_at s sub n)"
proof (cases "trustsEstimate e inc s")
  case True
  with assms show ?thesis by (simp add: enforceCap_def)
next
  case False
  show ?thesis
  proof (cases "pendingNames e s")
    case (Inl err)
    with False assms show ?thesis by (simp add: enforceCap_def)
  next
    case (Inr names)
    obtain tot' s1 where ev: "evictLoop e (maxBytes (opts s)) inc (map_of (measure_sizes e s names)) names
        (sum_list (map snd (measure_sizes e s names))) s = (tot', s1)" by (meson surj_pair)
    from evictLoop_counts [OF this] False Inr assms ev show ?thesis
      by (auto simp: enforceCap_def Let_def mget_dropped_Record split: if_splits)
  qed
qed

lemma publish_frame:
  assumes "publish e it len s = (r, t)"
  shows "dropped t = dropped s" and "sub \<noteq> SubPending \<Longrightarrow> file_at t sub n = file_at s sub n"
    and "published n \<Longrightarrow> file_at t SubPending n = file_at s SubPending n \<or>
      r = None \<and> n = itemName (now e) (item_id it) \<and> file_at t SubPending n = Some (doc_file e it len)"
  using assms
  by (auto simp: publish_def Let_def fs_write_def fs_rename_def fs_remove_def
      split: if_splits option.splits prod.splits)

lemma publish_done:
  assumes "publish e it len s = (None, t)"
  shows "file_at t SubPending (itemName (now e) (item_id it)) = Some (doc_file e it len)"
  using assms by (auto simp: publish_def Let_def fs_write_def fs_rename_def split: if_splits)

lemma evictLoop_ok: "spool_ok s \<Longrightarrow> spool_ok (snd (evictLoop e cap inc sizes names tot s))"
proof (induction names arbitrary: tot s)
  case Nil
  then show ?case by simp
next
  case (Cons n ns)
  obtain r s1 where rm: "fs_remove e SubPending n s = (r, s1)" by (meson surj_pair)
  have "spool_ok s1" using fs_remove_ok [OF Cons.prems, of e SubPending n] rm by simp
  with Cons rm show ?case by (auto split: syscall_result.splits)
qed

lemma enforceCap_ok: "spool_ok s \<Longrightarrow> spool_ok (snd (enforceCap e inc s))"
proof -
  assume ok: "spool_ok s"
  have "spool_ok t" if "evictLoop e cap inc sizes names tot s = (tot', t)" for cap sizes names tot tot' t
    using evictLoop_ok [OF ok, of e cap inc sizes names tot] that by simp
  with ok show ?thesis by (auto simp: enforceCap_def Let_def split: sum.splits prod.splits)
qed

lemma publish_keeps:
  assumes "spool_ok s" "ms_ok (now e)" "id_ok (item_id it)"
  shows "keeps s (snd (publish e it len s))"
proof -
  let ?name = "itemName (now e) (item_id it)"
  obtain b s1 where w: "fs_write e SubPending (addTempName ?name) (doc_file e it len) s = (b, s1)"
    by (meson surj_pair)
  have k1: "keeps s s1" using write_fail_keeps [OF assms(1) _ w] by simp
  show ?thesis
  proof (cases b)
    case False
    with k1 w show ?thesis by (simp add: publish_def Let_def)
  next
    case True
    obtain r s2 where rn: "fs_rename e SubPending (addTempName ?name) SubPending ?name s1 = (r, s2)"
      by (meson surj_pair)
    from w True have w': "fs_write e SubPending (addTempName ?name) (doc_file e it len) s = (True, s1)" by simp
    have "keeps s (snd (fs_rename e SubPending (addTempName ?name) SubPending ?name s1))"
      by (rule write_rename_keeps [OF assms(1) _ _ _ w'])
        (simp_all add: assms name_id_itemName not_corrupt_itemName)
    with rn have k2: "keeps s s2" by simp
    have "keeps s2 (snd (fs_remove e SubPending (addTempName ?name) s2))"
      by (rule fs_remove_unpublished_keeps [OF keeps_ok [OF k2]]) simp
    with keeps_trans [OF k2 this] k2 w rn True show ?thesis
      by (simp add: publish_def Let_def split: syscall_result.splits)
  qed
qed

text \<open>
  A write that reports success has published its item in pending, under the name made of
  the time and its id and with nothing else changed in it, keeps the spool well formed and
  leaves quarantine and parked alone.
\<close>
theorem Add_publishes:
  assumes "spool_ok s" "ms_ok (now e)" "id_ok (item_id (prepareItem e it))" "Add e it s = (None, t)"
  shows "spool_ok t \<and> item_id (prepareItem e it) \<in> held t \<and>
    stores t SubPending (itemName (now e) (item_id (prepareItem e it))) (prepareItem e it) \<and>
    (\<forall>sub n. sub \<noteq> SubPending \<longrightarrow> file_at t sub n = file_at s sub n)"
proof -
  let ?it = "prepareItem e it"
  from assms(4) obtain len s1 where c: "enforceCap e (int len) s = (None, s1)"
    and p: "publish e ?it len s1 = (None, t)"
    by (auto simp: Add_def Let_def split: option.splits prod.splits)
  have ok: "spool_ok s1" using enforceCap_ok [OF assms(1), of e "int len"] c by simp
  have "keeps s1 t" using publish_keeps [OF ok assms(2,3), of len] p by simp
  then have "spool_ok t" by (rule keeps_ok)
  moreover have st: "stores t SubPending (itemName (now e) (item_id ?it)) ?it"
    using publish_done [OF p] by (simp add: stores_def doc_file_def)
  moreover have "item_id ?it \<in> held t"
    using published_itemName [OF assms(2,3)] st by (auto intro: heldI)
  moreover have "file_at t sub n = file_at s sub n" if "sub \<noteq> SubPending" for sub n
    using that publish_frame(2) [OF p that] enforceCap_counts [OF c] by simp
  ultimately show ?thesis by blast
qed

lemmas spool_eval = Let_def prepareItem_def sample_env_def sample_item_def guardDisk_def IsZero_def
  enforceCap_def trustsEstimate_def readState_def sample_spool_def empty_spool_def zero_State_def
  pendingNames_def fs_readdir_def dir_names_def sample_names sample_opts_def measure_sizes_def fs_stat_def
  file_at_def sample_file_def publish_def fs_write_def fs_rename_def fs_remove_def put_file_def map_of_dir_put
  mutateState_def drop_event_def Record_def adjustPendingBytes_def

lemma sample_add:
  "Add sample_env (sample_item ''z'') sample_spool = (None, snd (Add sample_env (sample_item ''z'') sample_spool))"
  by (rule prod_eqI)
    (simp_all add: Add_def spool_eval)

lemma sample_now: "ms_ok (now sample_env)" "id_ok (item_id (prepareItem sample_env (sample_item ''z'')))"
  by code_simp+

theorem Add_publishes_witness:
  "item_id (prepareItem sample_env (sample_item ''z'')) \<in> held (snd (Add sample_env (sample_item ''z'') sample_spool))"
  using Add_publishes [OF sample_ok sample_now sample_add] by simp

text \<open>
  Adding discards nothing silently: however it ends and whatever system calls fail, the
  pending files it removed are at most the drops it counted under \<open>queue_overflow\<close>, and it
  changes no file of quarantine or parked.
\<close>
theorem Add_counts_evictions:
  "case Add e it s of (r, t) \<Rightarrow>
     int (card (lost s t)) \<le> mget (dropped t) ''queue_overflow'' - mget (dropped s) ''queue_overflow'' \<and>
     (\<forall>sub n. sub = SubPending \<or> file_at t sub n = file_at s sub n)"
proof (cases "\<exists>len s1. marshal e (prepareItem e it) = Some len \<and> guardDisk e s = None \<and>
    enforceCap e (int len) s = (None, s1)")
  case False
  then show ?thesis
    using enforceCap_counts [of e _ s]
    by (auto simp: Add_def Let_def mget_dropped_Record split: option.splits prod.splits)
next
  case True
  then obtain len s1 where a: "marshal e (prepareItem e it) = Some len" "guardDisk e s = None"
    and c: "enforceCap e (int len) s = (None, s1)" by blast
  obtain r t where p: "publish e (prepareItem e it) len s1 = (r, t)" by (meson surj_pair)
  have "lost s t \<subseteq> lost s s1" using publish_frame(3) [OF p] by (fastforce simp: lost_def)
  then have "card (lost s t) \<le> card (lost s s1)" by (intro card_mono) simp_all
  moreover note enforceCap_counts [OF c] publish_frame(1) [OF p]
  ultimately show ?thesis using publish_frame(2) [OF p] a c p by (auto simp: Add_def)
qed

text \<open>
  A write that reports success leaves pending within its byte cap, provided files can be
  measured and the cached estimate, where it is trusted, does not understate what is there.
\<close>
theorem Add_within_cap:
  assumes "spool_ok s" "\<forall>n. \<not> fault e (OpStat SubPending n)" "est_honest e s" "Add e it s = (None, t)"
  shows "pendBytes t \<le> maxBytes (opts s)"
  using assms by (rule Add_fits)

theorem Add_within_cap_witness: "pendBytes (snd (Add sample_env (sample_item ''z'') sample_spool)) \<le> 30"
proof -
  have "\<forall>n. \<not> fault sample_env (OpStat SubPending n)" "est_honest sample_env sample_spool"
    by (simp_all add: est_honest_def spool_eval)
  from Add_within_cap [OF sample_ok this sample_add] show ?thesis
    by (simp add: sample_spool_def empty_spool_def sample_opts_def)
qed

lemma reliableD [simp]: "reliable e \<Longrightarrow> \<not> fault e x"
  by (simp add: reliable_def)

lemma enforceCap_scan:
  assumes ok: "spool_ok s" and e: "reliable e" and n: "pendingNames e s = Inr names"
    and tr: "\<not> trustsEstimate e inc s" and r: "enforceCap e inc s = (res, t)"
  shows "\<exists>k\<le>length names.
     (\<forall>n. file_at t SubPending n = (if n \<in> set (take k names) then None else file_at s SubPending n)) \<and>
     (\<forall>j<k. maxBytes (opts s) < sum_list (map (bytes_at s) (drop j names)) + inc) \<and>
     (k < length names \<or> res = None \<longrightarrow> sum_list (map (bytes_at s) (drop k names)) + inc \<le> maxBytes (opts s)) \<and>
     (k = length names \<and> maxBytes (opts s) < inc \<longrightarrow> res = Some (ErrExceedsCap inc (maxBytes (opts s))))"
proof -
  let ?m = "map_of (measure_sizes e s names)" and ?tot = "sum_list (map snd (measure_sizes e s names))"
  note p = pendingNames_Inr [OF n ok]
  obtain tot' s1 where ev: "evictLoop e (maxBytes (opts s)) inc ?m names ?tot s = (tot', s1)"
    by (meson surj_pair)
  have t: "file_at t SubPending n = file_at s1 SubPending n"
    "res = (if tot' + inc > maxBytes (opts s) then Some (ErrExceedsCap inc (maxBytes (opts s))) else None)" for n
    using r tr n ev by (auto simp: enforceCap_def Let_def split: if_splits)
  obtain k where k: "k \<le> length names" "tot' = ?tot - sum_list (map (mget ?m) (take k names))"
    "\<forall>n. file_at s1 SubPending n = (if n \<in> set (take k names) then None else file_at s SubPending n)"
    "k = length names \<or> tot' + inc \<le> maxBytes (opts s)"
    "\<forall>j<k. maxBytes (opts s) < ?tot - sum_list (map (mget ?m) (take j names)) + inc"
    using evictLoop_prefix [OF _ p(1) _ ev] e p(4) by auto
  have sz: "map (mget ?m) (take j names) = map (bytes_at s) (take j names)" for j
    using measure_size_of [OF _ p(1), of e _ s] e p(4) by (intro map_cong) (auto dest: in_set_takeD)
  have tt: "?tot = sum_list (map (bytes_at s) names)" using sum_measure [of e s names] e by simp
  have rest: "?tot - sum_list (map (mget ?m) (take j names)) = sum_list (map (bytes_at s) (drop j names))" for j
    unfolding sz tt by (metis add_diff_cancel_left' append_take_drop_id map_append sum_list_append)
  show ?thesis
    using k t unfolding rest by (intro exI [of _ k]) (auto split: if_splits)
qed

text \<open>
  Eviction takes the oldest first and no more than it must: the files it removes are a
  prefix of the pending names in order, and before each removal what was left did not fit.
\<close>
theorem enforceCap_oldest_first:
  assumes "spool_ok s" "reliable e" "pendingNames e s = Inr names"
    and "\<not> trustsEstimate e inc s" "enforceCap e inc s = (res, t)"
  shows "sorted names \<and> (\<exists>k\<le>length names.
     (\<forall>n. file_at t SubPending n = (if n \<in> set (take k names) then None else file_at s SubPending n)) \<and>
     (\<forall>j<k. maxBytes (opts s) < sum_list (map (bytes_at s) (drop j names)) + inc) \<and>
     (res = None \<longrightarrow> sum_list (map (bytes_at s) (drop k names)) + inc \<le> maxBytes (opts s)))"
  using enforceCap_scan [OF assms] pendingNames_Inr(2) [OF assms(3,1)] by blast

lemma sample_pendingNames: "pendingNames sample_env sample_spool = Inr [''1-a.json'', ''2-b.json'']"
  using sample_names by (simp add: spool_eval)

theorem enforceCap_oldest_first_witness:
  "\<exists>k\<le>2. \<forall>n. file_at (snd (enforceCap sample_env 10 sample_spool)) SubPending n =
     (if n \<in> set (take k [''1-a.json'', ''2-b.json'']) then None else file_at sample_spool SubPending n)"
proof -
  have "\<not> trustsEstimate sample_env 10 sample_spool" by (simp add: spool_eval)
  from enforceCap_oldest_first [OF sample_ok sample_reliable sample_pendingNames this prod.collapse [symmetric]]
  obtain k where k: "k \<le> length [''1-a.json'', ''2-b.json'']"
    and f: "\<forall>n. file_at (snd (enforceCap sample_env 10 sample_spool)) SubPending n =
      (if n \<in> set (take k [''1-a.json'', ''2-b.json'']) then None else file_at sample_spool SubPending n)"
    by blast
  have "k \<le> 2" using k by (simp only: list.size)
  with f show ?thesis by (intro exI [of _ k] conjI)
qed

text \<open>
  A single item larger than the cap costs the whole queue: every pending item is evicted
  before the write is refused, so the spool ends with neither the old items nor the new one.
\<close>
theorem Add_oversized_empties_pending:
  assumes ok: "spool_ok s" and e: "reliable e" and d: "guardDisk e s = None"
    and m: "marshal e (prepareItem e it) = Some len" "0 \<le> maxBytes (opts s)" "maxBytes (opts s) < int len"
  shows "fst (Add e it s) = Some (ErrExceedsCap (int len) (maxBytes (opts s))) \<and>
    (\<forall>n. published n \<longrightarrow> file_at (snd (Add e it s)) SubPending n = None)"
proof -
  obtain names where n: "pendingNames e s = Inr names"
    using e by (auto simp: pendingNames_def fs_readdir_def)
  have tr: "\<not> trustsEstimate e (int len) s"
    using m by (auto simp: trustsEstimate_def split: sum.splits)
  obtain res t where r: "enforceCap e (int len) s = (res, t)" by (meson surj_pair)
  have nn: "0 \<le> sum_list (map (bytes_at s) ns)" for ns
    by (rule sum_list_nonneg) (auto simp: bytes_at_def split: option.splits)
  from enforceCap_scan [OF ok e n tr r] obtain k where k: "k \<le> length names"
    "\<forall>n. file_at t SubPending n = (if n \<in> set (take k names) then None else file_at s SubPending n)"
    "k < length names \<or> res = None \<longrightarrow> sum_list (map (bytes_at s) (drop k names)) + int len \<le> maxBytes (opts s)"
    "k = length names \<and> maxBytes (opts s) < int len \<longrightarrow> res = Some (ErrExceedsCap (int len) (maxBytes (opts s)))"
    by blast
  have "\<not> sum_list (map (bytes_at s) (drop k names)) + int len \<le> maxBytes (opts s)"
    using nn [of "drop k names"] m(3) by linarith
  with k(1,3) have "k = length names" by auto
  with k(2,4) m(3) have "res = Some (ErrExceedsCap (int len) (maxBytes (opts s)))"
    "\<forall>n. file_at t SubPending n = (if n \<in> set names then None else file_at s SubPending n)" by auto
  with r d m pendingNames_Inr(4) [OF n ok] show ?thesis by (auto simp: Add_def)
qed

theorem Add_oversized_empties_pending_witness:
  "file_at (snd (Add sample_env ((sample_item ''z'')\<lparr>payload := replicate 30 CHR ''x''\<rparr>) sample_spool))
     SubPending ''1-a.json'' = None"
proof -
  let ?it = "(sample_item ''z'')\<lparr>payload := replicate 30 CHR ''x''\<rparr>"
  have "guardDisk sample_env sample_spool = None" "marshal sample_env (prepareItem sample_env ?it) = Some 40"
    "0 \<le> maxBytes (opts sample_spool)" "maxBytes (opts sample_spool) < int 40"
    by (simp_all add: spool_eval)
  from Add_oversized_empties_pending [OF sample_ok sample_reliable this] sample_names show ?thesis by simp
qed

section \<open>Leasing\<close>

lemma subseq_sorted: "subseq xs ys \<Longrightarrow> sorted ys \<Longrightarrow> sorted (xs :: string list)"
proof (induction rule: list_emb.induct)
  case (list_emb_Cons2 x y xs ys)
  then show ?case using list_emb_set [of "(=)" xs ys] by fastforce
qed auto

lemma Lease_stored:
  assumes "spool_ok s" "Lease e k s = (Inr ls, t)"
  shows "\<forall>l\<in>set ls. fst (l_path l) = SubPending \<and> stores t SubPending (snd (l_path l)) (l_item l)"
proof -
  obtain names where "lease_post (firstN k names) (sweepTemp e s) ls t" using assms by (rule Lease_post)
  then show ?thesis by (auto simp: lease_post_def leased_ok_def)
qed

text \<open>
  Under any failures, a lease returns at most the batch asked for, oldest first and no
  file twice; every item it returns is what its pending file holds and is named by its id;
  and no stored id is gone afterwards, though undecodable files have moved to quarantine.
\<close>
theorem Lease_oldest_first:
  assumes "spool_ok s" "Lease e k s = (Inr ls, t)"
  shows "spool_ok t \<and> held s \<subseteq> held t \<and> (0 < k \<longrightarrow> int (length ls) \<le> k) \<and>
    sorted (map (\<lambda>l. snd (l_path l)) ls) \<and> distinct (map l_path ls) \<and>
    (\<forall>l\<in>set ls. fst (l_path l) = SubPending \<and> stores t SubPending (snd (l_path l)) (l_item l) \<and>
       name_id (snd (l_path l)) = item_id (l_item l))"
proof -
  obtain names where n: "pendingNames e (sweepTemp e s) = Inr names"
    and p: "lease_post (firstN k names) (sweepTemp e s) ls t" "held s \<subseteq> held t" "distinct (firstN k names)"
    using assms by (rule Lease_post)
  note q = pendingNames_Inr [OF n keeps_ok [OF sweepTemp_keeps [OF assms(1)]]]
  have sub: "subseq (map (\<lambda>l. snd (l_path l)) ls) (firstN k names)" using p(1) by (simp add: lease_post_def)
  have "sorted (firstN k names)" using q(2) by (simp add: firstN_def sorted_wrt_take)
  then have "sorted (map (\<lambda>l. snd (l_path l)) ls)" using sub by (rule subseq_sorted [rotated])
  moreover have "0 < k \<longrightarrow> int (length ls) \<le> k"
    using firstN_props(3) [OF q(1,3), of k] list_emb_length [OF sub] by auto
  moreover have "distinct (map l_path ls)" using assms by (rule Lease_docs(3))
  ultimately show ?thesis using p by (auto simp: lease_post_def leased_ok_def)
qed

theorem Lease_oldest_first_witness:
  "sorted (map (\<lambda>l. snd (l_path l)) (case fst (Lease sample_env 1 sample_spool) of Inr ls \<Rightarrow> ls | Inl e \<Rightarrow> []))"
proof (cases "Lease sample_env 1 sample_spool")
  case (Pair r t)
  have "\<not> isl r" using Pair
    by (auto simp: Lease_def sweepTemp_def spool_eval HasSuffix_def split: prod.splits)
  then obtain ls where "r = Inr ls" by (cases r) auto
  with Lease_oldest_first [OF sample_ok] Pair show ?thesis by simp
qed

section \<open>Verdicts\<close>

lemma stores_bookkeeping [frame, simp]:
  "stores (mutateState e f s) sub n it = stores s sub n it"
  "stores (adjustPendingBytes e d s) sub n it = stores s sub n it"
  "stores (recordSuccess e s) sub n it = stores s sub n it"
  by (simp_all add: stores_def)

lemma moveOut_reliable:
  assumes "reliable e" "file_at s sub n = Some f" "dst \<noteq> sub"
  shows "fst (moveOut e (sub, n) dst tag s) = None"
    and "file_at (snd (moveOut e (sub, n) dst tag s)) sub' m =
      (if sub' = dst \<and> m = taggedName n tag then Some f
       else if sub' = sub \<and> m = n then None else file_at s sub' m)"
  using assms by (auto simp: moveOut_def Let_def fs_rename_def)

lemma rewrite_reliable:
  assumes "reliable e" "published n"
  shows "fst (rewrite e \<lparr>l_item = it, l_path = (sub, n)\<rparr> s) = None"
    and "stores (snd (rewrite e \<lparr>l_item = it, l_path = (sub, n)\<rparr> s)) sub n it"
proof -
  obtain len where m: "marshal e it = Some len" using assms(1) by (auto simp: reliable_def)
  have "n \<noteq> tempName (pid e) n" using assms(2) by (metis not_published_temp(2))
  with assms m show "fst (rewrite e \<lparr>l_item = it, l_path = (sub, n)\<rparr> s) = None"
    "stores (snd (rewrite e \<lparr>l_item = it, l_path = (sub, n)\<rparr> s)) sub n it"
    by (auto simp: rewrite_def Let_def fs_write_def fs_rename_def stores_def doc_file_def)
qed

text \<open>
  A verdict that names the item in neither list costs it one undecided count and leaves it
  pending until the count reaches the limit; that very delivery moves it, whole, to parked
  under its base name. Its attempt count is never touched.
\<close>
theorem Undecided_parks_at_limit:
  assumes e: "reliable e" and l: "l_path l = (SubPending, n)" "published n"
    and st: "stores s SubPending n (l_item l)"
  shows "case Undecided e l s of ((parked, err), t) \<Rightarrow> err = None \<and>
    (if undecided (l_item l) + 1 < maxUndecided (opts s)
     then \<not> parked \<and>
       stores t SubPending n ((l_item l)\<lparr>undecided := undecided (l_item l) + 1\<rparr>)
     else parked \<and> file_at t SubPending n = None \<and> stores t SubParked (baseName n) (l_item l) \<and>
       (\<forall>m. m \<noteq> n \<longrightarrow> file_at t SubPending m = file_at s SubPending m))"
proof (cases "undecided (l_item l) + 1 < maxUndecided (opts s)")
  case True
  have "l\<lparr>l_item := it\<rparr> = \<lparr>l_item = it, l_path = (SubPending, n)\<rparr>" for it
    using l(1) by (cases l) simp
  with True rewrite_reliable [OF e l(2), of "(l_item l)\<lparr>undecided := undecided (l_item l) + 1\<rparr>" SubPending s]
  show ?thesis by (auto simp: Undecided_def Let_def split: prod.splits)
next
  case False
  obtain f where f: "file_at s SubPending n = Some f" "f_content f = Doc (l_item l)"
    using st by (auto simp: stores_def)
  let ?u = "drop_event e ''parked'' s"
  have "file_at ?u SubPending n = Some f" "SubParked \<noteq> SubPending" using f by simp_all
  note mv = moveOut_reliable [OF e this, of "[]"]
  obtain r t where rt: "moveOut e (SubPending, n) SubParked [] ?u = (r, t)" by (meson surj_pair)
  have "r = None" "\<And>sub' m. file_at t sub' m = (if sub' = SubParked \<and> m = baseName n then Some f
      else if sub' = SubPending \<and> m = n then None else file_at s sub' m)"
    using mv rt by (simp_all add: taggedName_def Let_def)
  with False l rt f(2) show ?thesis by (simp add: Undecided_def Let_def stores_def)
qed

definition sample_lease :: Leased where
  "sample_lease = \<lparr>l_item = (sample_item ''a''), l_path = (SubPending, ''1-a.json'')\<rparr>"

lemma sample_stores: "stores sample_spool SubPending ''1-a.json'' (sample_item ''a'')"
  by (simp add: stores_def file_at_def dir_of_sample sample_file_def)

theorem Undecided_parks_at_limit_witness:
  "stores (snd (Undecided sample_env sample_lease sample_spool)) SubPending ''1-a.json''
     ((sample_item ''a'')\<lparr>undecided := 1\<rparr>)"
  using Undecided_parks_at_limit [OF sample_reliable, of sample_lease "''1-a.json''" sample_spool] sample_stores sample_names
  by (auto simp: sample_lease_def sample_spool_def empty_spool_def sample_opts_def sample_item_def)

text \<open>
  A rejected item leaves pending at once, whatever its counters say, for the quarantine
  file whose name carries the reason's tag; nothing of it changes, and the name still
  yields its base name.
\<close>
theorem Quarantine_keeps_evidence:
  assumes e: "reliable e" and l: "l_path l = (SubPending, n)"
    and f: "file_at s SubPending n = Some f"
  shows "case Quarantine e l reason s of (err, t) \<Rightarrow> err = None \<and>
    file_at t SubPending n = None \<and>
    file_at t SubQuarantine (taggedName n (''rejected-'' @ reasonTag reason)) = Some f \<and>
    baseName (taggedName n (''rejected-'' @ reasonTag reason)) = baseName n \<and>
    mget (dropped t) (''rejected:'' @ reasonTag reason) = mget (dropped s) (''rejected:'' @ reasonTag reason) + 1"
proof -
  let ?u = "drop_event e (''rejected:'' @ reasonTag reason) s"
  obtain r t where rt: "moveOut e (SubPending, n) SubQuarantine (''rejected-'' @ reasonTag reason) ?u = (r, t)"
    by (meson surj_pair)
  have "file_at ?u SubPending n = Some f" "SubQuarantine \<noteq> SubPending" using f by simp_all
  note mv = moveOut_reliable [OF e this, of "''rejected-'' @ reasonTag reason"]
  have "dropped t = dropped ?u"
    using rt by (auto simp: moveOut_def Let_def fs_rename_def split: if_splits option.splits)
  with mv rt l show ?thesis by (simp add: Quarantine_def Let_def baseName_taggedName mget_dropped_Record)
qed

theorem Quarantine_keeps_evidence_witness:
  "file_at (snd (Quarantine sample_env sample_lease ''Too big'' sample_spool)) SubPending ''1-a.json'' = None"
proof -
  obtain f where "file_at sample_spool SubPending ''1-a.json'' = Some f"
    using sample_stores by (auto simp: stores_def)
  from Quarantine_keeps_evidence [OF sample_reliable _ this, of sample_lease "''Too big''"]
  show ?thesis by (auto simp: sample_lease_def split: prod.splits)
qed

section \<open>Redriving\<close>

text \<open>The item a file was redriven to: in pending under the base name, its counters at zero.\<close>

definition redriven :: "Spool \<Rightarrow> string \<Rightarrow> bool" where
  "redriven s n \<longleftrightarrow> (\<exists>it. stores s SubPending (baseName n) it \<and> item_id it = name_id n \<and>
     attempts it = 0 \<and> undecided it = 0)"

lemma published_json: "published n \<Longrightarrow> HasSuffix n ''.json''"
  by (simp add: published_def)

lemma read_item_reliable: "reliable e \<Longrightarrow> stores s sub n it \<Longrightarrow> read_item e sub n s = ReadItem it"
  by (auto simp: read_item_def stores_def)

lemma redriveOne_stored:
  assumes e: "reliable e" and ok: "spool_ok s" and sub: "sub \<noteq> SubPending" and n: "published n"
    and st: "stores s sub n it"
  defines "t \<equiv> snd (redriveOne e sub n s)"
  shows "fst (redriveOne e sub n s) = 1"
    and "file_at t sub n = None" and "redriven t n"
    and "m \<noteq> n \<Longrightarrow> file_at t sub m = file_at s sub m"
    and "published m \<Longrightarrow> m \<noteq> baseName n \<Longrightarrow> file_at t SubPending m = file_at s SubPending m"
proof -
  let ?it = "it\<lparr>attempts := 0, undecided := 0\<rparr>" and ?tmp = "tempName (pid e) (baseName n)"
  obtain len where m: "marshal e ?it = Some len" using e by (auto simp: reliable_def)
  obtain f where f: "file_at s sub n = Some f" using st by (auto simp: stores_def)
  have tmp: "?tmp \<noteq> baseName n" using n by (metis not_published_temp(2) published_baseName)
  let ?g = "doc_file e ?it len"
  have one: "redriveOne e sub n s = (1, adjustPendingBytes e (int len)
      (del_file sub n (put_file SubPending (baseName n) ?g (del_file SubPending ?tmp (put_file SubPending ?tmp ?g s)))))"
    using e f m sub read_item_reliable [OF e st] published_json [OF n]
    by (simp add: redriveOne_def Let_def fs_write_def fs_rename_def fs_remove_def)
  show "fst (redriveOne e sub n s) = 1" by (simp add: one)
  show "file_at t sub n = None" by (simp add: t_def one)
  have "name_id n = item_id it" using spool_ok_name [OF ok n st] .
  then show "redriven t n" using sub by (auto simp: t_def one redriven_def stores_def doc_file_def)
  show "m \<noteq> n \<Longrightarrow> file_at t sub m = file_at s sub m" using sub by (simp add: t_def one)
  show "published m \<Longrightarrow> m \<noteq> baseName n \<Longrightarrow> file_at t SubPending m = file_at s SubPending m"
    using sub by (auto simp: t_def one)
qed

lemma redriveOne_other:
  "reliable e \<Longrightarrow> \<nexists>it. stores s sub n it \<Longrightarrow> redriveOne e sub n s = (0, s)"
  by (auto simp: redriveOne_def read_item_def stores_def split: option.splits content.splits)

lemma redriveOne_redriven:
  assumes e: "reliable e" and ok: "spool_ok s" and sub: "sub \<noteq> SubPending" and n: "published n"
    and m: "published m" "redriven s m"
  shows "redriven (snd (redriveOne e sub n s)) m"
proof (cases "\<exists>it. stores s sub n it")
  case False
  with redriveOne_other [OF e] m(2) show ?thesis by simp
next
  case True
  then obtain it where st: "stores s sub n it" by blast
  note r = redriveOne_stored [OF e ok sub n st]
  show ?thesis
  proof (cases "baseName m = baseName n")
    case True
    then have "name_id m = name_id n" by (metis name_id_baseName)
    with True r(3) show ?thesis by (simp add: redriven_def)
  next
    case False
    with m r(5) show ?thesis by (auto simp: redriven_def stores_def)
  qed
qed

lemma redriveLoop_stored:
  "reliable e \<Longrightarrow> spool_ok s \<Longrightarrow> sub \<noteq> SubPending \<Longrightarrow> distinct ns \<Longrightarrow> \<forall>n\<in>set ns. published n \<Longrightarrow>
   redriveLoop e sub ns s = (k, t) \<Longrightarrow>
   k = length (filter (\<lambda>n. \<exists>it. stores s sub n it) ns) \<and>
   (\<forall>n\<in>set ns. (\<exists>it. stores s sub n it) \<longrightarrow> file_at t sub n = None \<and> redriven t n) \<and>
   (\<forall>m. published m \<longrightarrow> redriven s m \<longrightarrow> redriven t m) \<and>
   (\<forall>m. m \<notin> set ns \<longrightarrow> file_at t sub m = file_at s sub m)"
proof (induction ns arbitrary: s k)
  case Nil
  then show ?case by simp
next
  case (Cons n ns)
  obtain j s1 where one: "redriveOne e sub n s = (j, s1)" by (meson surj_pair)
  obtain k' where loop: "redriveLoop e sub ns s1 = (k', t)" "k = j + k'"
    using Cons.prems(6) one unfolding redriveLoop_step by (auto simp: Let_def split: prod.splits)
  have "keeps s s1" using redriveOne_keeps [OF Cons.prems(2,3), of n e] Cons.prems(5) one by simp
  then have ok: "spool_ok s1" by (rule keeps_ok)
  have ih: "k' = length (filter (\<lambda>n. \<exists>it. stores s1 sub n it) ns) \<and>
   (\<forall>n\<in>set ns. (\<exists>it. stores s1 sub n it) \<longrightarrow> file_at t sub n = None \<and> redriven t n) \<and>
   (\<forall>m. published m \<longrightarrow> redriven s1 m \<longrightarrow> redriven t m) \<and>
   (\<forall>m. m \<notin> set ns \<longrightarrow> file_at t sub m = file_at s1 sub m)"
    using Cons.prems ok loop by (intro Cons.IH) auto
  have keep: "redriven s1 m" if "published m" "redriven s m" for m
    using redriveOne_redriven [OF Cons.prems(1-3) _ that, of n] Cons.prems(5) one by simp
  have rest: "file_at s1 sub m = file_at s sub m" if "m \<noteq> n" for m
    using redriveOne_stored(4) [OF Cons.prems(1-3) _ _ that] redriveOne_other [OF Cons.prems(1), of s sub n]
      Cons.prems(5) one by (cases "\<exists>it. stores s sub n it") auto
  have same: "(\<exists>it. stores s1 sub m it) = (\<exists>it. stores s sub m it)" if "m \<in> set ns" for m
  proof -
    have "m \<noteq> n" using Cons.prems(4) that by auto
    then have "file_at s1 sub m = file_at s sub m" by (rule rest)
    then show ?thesis by (simp add: stores_def)
  qed
  have len: "length (filter (\<lambda>n. \<exists>it. stores s1 sub n it) ns) = length (filter (\<lambda>n. \<exists>it. stores s sub n it) ns)"
    using same by (intro arg_cong [where f = length] filter_cong) auto
  have hd: "j = (if \<exists>it. stores s sub n it then 1 else 0) \<and>
      ((\<exists>it. stores s sub n it) \<longrightarrow> file_at s1 sub n = None \<and> redriven s1 n)"
  proof (cases "\<exists>it. stores s sub n it")
    case True
    then obtain it where "stores s sub n it" by blast
    with redriveOne_stored(1-3) [OF Cons.prems(1-3) _ this] Cons.prems(5) one True show ?thesis by simp
  next
    case False
    with redriveOne_other [OF Cons.prems(1), of s sub n] one show ?thesis by simp
  qed
  show ?case
  proof (intro conjI ballI impI allI)
    show "k = length (filter (\<lambda>n. \<exists>it. stores s sub n it) (n # ns))" using ih len hd loop(2) by simp
    show "redriven t m" if "published m" "redriven s m" for m
      using ih [THEN conjunct2, THEN conjunct2, THEN conjunct1] keep [OF that] that(1) by simp
    show "file_at t sub m = file_at s sub m" if "m \<notin> set (n # ns)" for m using ih rest that by simp
    fix m assume m: "m \<in> set (n # ns)" "\<exists>it. stores s sub m it"
    then show "file_at t sub m = None" "redriven t m"
      using ih hd same Cons.prems(4,5) by (cases "m = n"; simp)+
  qed
qed

text \<open>
  Redriving loses nothing: whatever system calls fail on the way, every id that quarantine,
  parked or pending stored is still stored, and the spool stays well formed.
\<close>
theorem redriveFrom_keeps_ids:
  assumes "spool_ok s" "sub \<noteq> SubPending"
    and "\<forall>n. file_at s sub n \<noteq> None \<longrightarrow> HasSuffix n ''.json'' \<longrightarrow> published n"
  shows "spool_ok (snd (redriveFrom e sub s)) \<and> held s \<subseteq> held (snd (redriveFrom e sub s))"
proof (cases "fs_readdir e sub s")
  case None
  with assms(1) show ?thesis by (simp add: redriveFrom_def)
next
  case (Some ents)
  then have "\<forall>n\<in>set ents. HasSuffix n ''.json'' \<longrightarrow> published n"
    using assms(3) fs.names_get [of "dir_of sub s"]
    by (auto simp: fs_readdir_def file_at_def dom_def split: if_splits)
  from redriveLoop_keeps [OF assms(1,2) this, of e] Some show ?thesis
    by (auto simp: redriveFrom_def keeps_def split: prod.splits)
qed

lemma sample_parked: "\<forall>n. file_at sample_spool SubParked n \<noteq> None \<longrightarrow> HasSuffix n ''.json'' \<longrightarrow> published n"
  using sample_names by (auto simp: file_at_def dir_of_sample)

theorem redriveFrom_keeps_ids_witness:
  "held sample_spool \<subseteq> held (snd (redriveFrom (sample_env\<lparr>fault := (\<lambda>x. x = OpRename SubPending (tempName ''7'' ''0-c.json'') SubPending ''0-c.json'')\<rparr>) SubParked sample_spool))"
  using redriveFrom_keeps_ids [OF sample_ok _ sample_parked] by simp

text \<open>
  C37. With nothing failing, redriving brings every stored item of the directory back: each is
  in pending under its base name with the same id and both counters at zero, is gone from
  where it was, and the count returned is how many there were.
\<close>
theorem redriveFrom_returns_all:
  assumes "spool_ok s" "reliable e" "sub \<noteq> SubPending"
    and all: "\<forall>n. file_at s sub n \<noteq> None \<longrightarrow> published n"
    and "stores s sub n it"
  shows "case redriveFrom e sub s of (r, t) \<Rightarrow>
     r = Inr (length (filter (\<lambda>n. \<exists>it. stores s sub n it) (dir_names (dir_of sub s)))) \<and>
     file_at t sub n = None \<and>
     (\<exists>it'. stores t SubPending (baseName n) it' \<and> item_id it' = item_id it \<and> attempts it' = 0 \<and> undecided it' = 0)"
proof -
  let ?ns = "dir_names (dir_of sub s)"
  obtain k t where r: "redriveLoop e sub ?ns s = (k, t)" by (meson surj_pair)
  have pub: "\<forall>n\<in>set ?ns. published n"
    using all fs.names_get [of "dir_of sub s"] by (auto simp: file_at_def dom_def)
  have n: "n \<in> set ?ns" using assms(5) fs.names_get [of "dir_of sub s"] by (auto simp: stores_def file_at_def)
  have "distinct ?ns" using fs.ok_names spool_ok_dir [OF assms(1)] by blast
  from redriveLoop_stored [OF assms(2,1,3) this pub r] n assms(5)
  have "k = length (filter (\<lambda>n. \<exists>it. stores s sub n it) ?ns)" "file_at t sub n = None" "redriven t n" by auto
  moreover have "name_id n = item_id it" using spool_ok_name [OF assms(1) _ assms(5)] pub n by simp
  ultimately show ?thesis using r assms(2) by (auto simp: redriveFrom_def fs_readdir_def redriven_def)
qed

theorem redriveFrom_returns_all_witness:
  "file_at (snd (redriveFrom sample_env SubParked sample_spool)) SubParked ''0-c.json'' = None"
proof -
  have "stores sample_spool SubParked ''0-c.json'' (sample_item ''c'')"
    by (simp add: stores_def file_at_def dir_of_sample sample_file_def)
  moreover have "\<forall>n. file_at sample_spool SubParked n \<noteq> None \<longrightarrow> published n"
    using sample_names by (auto simp: file_at_def dir_of_sample)
  ultimately show ?thesis
    using redriveFrom_returns_all [OF sample_ok sample_reliable, of SubParked] by (fastforce split: prod.splits)
qed

section \<open>The durable record\<close>

lemma readState_mutate:
  "reliable e \<Longrightarrow> reliable e' \<Longrightarrow> readState e s = Inr st \<Longrightarrow> readState e' (mutateState e f s) = Inr (f st)"
  by (simp add: readState_def mutateState_def)

text \<open>Two records that differ in the byte estimate only.\<close>

definition same_record :: "State \<Rightarrow> State \<Rightarrow> bool" where
  "same_record x y \<longleftrightarrow> last_success y = last_success x \<and> last_error y = last_error x \<and>
     last_error_at y = last_error_at x \<and> dropped_total y = dropped_total x"

lemma readState_adjust:
  assumes "reliable e" "readState e s = Inr x"
  shows "\<exists>y. readState e (adjustPendingBytes e d s) = Inr y \<and> same_record x y"
proof (cases "d = 0")
  case True
  with assms show ?thesis by (simp add: adjustPendingBytes_def same_record_def)
next
  case False
  with readState_mutate [OF assms(1,1,2)] show ?thesis by (simp add: adjustPendingBytes_def same_record_def Let_def)
qed

lemma readState_frame [simp]:
  "readState e (put_file sub n f s) = readState e s" "readState e (del_file sub n s) = readState e s"
  "readState e (s\<lparr>lastSuccessWritten := t\<rparr>) = readState e s" "readState e (s\<lparr>dropped := m\<rparr>) = readState e s"
  by (simp_all add: readState_def)

text \<open>
  An acknowledged item is on record as a delivery: the last success is the later of the
  recorded one and now, an older failure no longer reads as current, and the drop counts
  stand. (Within a second of the process's last written success nothing is written.)
\<close>
theorem Ack_records_delivery:
  assumes e: "reliable e" "readState e s = Inr st" "0 < now e" "last_error_at st \<le> now e"
    and w: "lastSuccessWritten s = 0 \<or> successWriteInterval \<le> Sub (now e) (lastSuccessWritten s)"
  shows "\<exists>st'. readState e (snd (Ack e l s)) = Inr st' \<and> Delivered st' \<and>
    last_success st' = max (last_success st) (now e) \<and> FailingSince st' = None \<and>
    dropped_total st' = dropped_total st"
proof -
  let ?f = "\<lambda>st. if last_success st < now e then st\<lparr>last_success := now e\<rparr> else st"
  have rs: "recordSuccess e s = mutateState e ?f (s\<lparr>lastSuccessWritten := now e\<rparr>)"
    using w by (auto simp: recordSuccess_def IsZero_def)
  let ?r = "recordSuccess e s"
  have r0: "readState e ?r = Inr (?f st)"
    unfolding rs using readState_mutate [OF e(1) e(1), of "s\<lparr>lastSuccessWritten := now e\<rparr>"] e(2) by simp
  obtain r s1 where rm: "fs_remove e (fst (l_path l)) (snd (l_path l)) ?r = (r, s1)" by (meson surj_pair)
  have "readState e s1 = Inr (?f st)" "r \<noteq> Failed"
    using rm r0 e(1) by (auto simp: fs_remove_def split: option.splits)
  moreover have "snd (Ack e l s) = s1 \<or> (\<exists>d. snd (Ack e l s) = adjustPendingBytes e d s1)"
    using rm by (auto simp: Ack_def Let_def split: syscall_result.splits)
  ultimately obtain st' where "readState e (snd (Ack e l s)) = Inr st'" "same_record (?f st) st'"
    using readState_adjust [OF e(1)] same_record_def by (metis (no_types))
  moreover have "last_success (?f st) = max (last_success st) (now e)" by auto
  ultimately show ?thesis
    using e(3,4) by (intro exI [of _ st']) (auto simp: same_record_def Delivered_def IsZero_def FailingSince_def)
qed

theorem Ack_records_delivery_witness:
  "\<exists>st'. readState sample_env (snd (Ack sample_env sample_lease sample_spool)) = Inr st' \<and> Delivered st'"
proof -
  have "readState sample_env sample_spool = Inr zero_State" "0 < now sample_env" "last_error_at zero_State \<le> now sample_env"
    "lastSuccessWritten sample_spool = 0 \<or> successWriteInterval \<le> Sub (now sample_env) (lastSuccessWritten sample_spool)"
    by (simp_all add: readState_def sample_spool_def empty_spool_def sample_env_def zero_State_def)
  from Ack_records_delivery [OF sample_reliable this] show ?thesis by blast
qed

text \<open>
  A drop is never under-reported: the process that counted it reports at least its own
  count under any failures, and when the state file could be written, so does any process
  that opens the spool later, on top of what was recorded before.
\<close>
theorem drops_reported:
  assumes "reliable e" "reliable e'" "readState e s = Inr st" "0 < n" "0 \<le> mget (dropped_total st) reason"
  shows "mget (dropped s) reason + n \<le> mget (snapshotDropped e'' (Record e reason n s)) reason \<and>
    mget (dropped_total st) reason + n \<le>
      mget (snapshotDropped e' ((Record e reason n s)\<lparr>dropped := Map.empty\<rparr>)) reason"
proof -
  have "mget (dropped t) k \<le> mget (snapshotDropped e'' t) k" for t k
    by (auto simp: snapshotDropped_def mget_def split: sum.splits option.splits)
  from this [of "Record e reason n s" reason]
  have "mget (dropped s) reason + n \<le> mget (snapshotDropped e'' (Record e reason n s)) reason"
    using assms(4) by (simp add: Record_def)
  moreover have "readState e' ((Record e reason n s)\<lparr>dropped := Map.empty\<rparr>) =
      Inr (st\<lparr>dropped_total := (dropped_total st)(reason \<mapsto> mget (dropped_total st) reason + n)\<rparr>)"
    using readState_mutate [OF assms(1,2), of "s\<lparr>dropped := (dropped s)(reason \<mapsto> mget (dropped s) reason + n)\<rparr>" st]
      assms(3,4) by (simp add: Record_def)
  then have "mget (snapshotDropped e' ((Record e reason n s)\<lparr>dropped := Map.empty\<rparr>)) reason =
      (if 0 < mget (dropped_total st) reason + n then mget (dropped_total st) reason + n else 0)"
    by (simp add: snapshotDropped_def mget_def split: option.splits)
  ultimately show ?thesis using assms(4,5) by auto
qed

theorem drops_reported_witness:
  "1 \<le> mget (snapshotDropped sample_env ((Record sample_env ''corrupt'' 1 sample_spool)\<lparr>dropped := Map.empty\<rparr>)) ''corrupt''"
proof -
  have "readState sample_env sample_spool = Inr zero_State"
    by (simp add: readState_def sample_spool_def empty_spool_def sample_env_def zero_State_def)
  from drops_reported [OF sample_reliable sample_reliable this, of 1 "''corrupt''"] show ?thesis
    by (auto simp: zero_State_def)
qed

section \<open>Names and the disk guard\<close>

lemma reasonLoop_head:
  "b = [] \<or> tag_char (hd b) \<Longrightarrow> reasonLoop rs b lu = [] \<or> tag_char (hd (reasonLoop rs b lu))"
proof (induction rs b lu rule: reasonLoop.induct)
  case (1 b lu)
  then show ?case by simp
next
  case (2 r rs b lu)
  then show ?case by (cases b) (auto simp: Let_def split: if_splits)
qed

text \<open>
  A reason tag is safe in a file name and a metric label: 1 to 48 characters of
  \<open>[a-z0-9_]\<close>, starting and ending with a letter or digit, whatever the server sent.
\<close>
theorem reasonTag_shape:
  "reasonTag reason \<noteq> [] \<and> length (reasonTag reason) \<le> 48 \<and>
   list_all (\<lambda>c. tag_char c \<or> c = CHR ''_'') (reasonTag reason) \<and>
   tag_char (hd (reasonTag reason)) \<and> last (reasonTag reason) \<noteq> CHR ''_''"
proof -
  let ?b = "reasonLoop (ToLower (TrimSpace reason)) [] False"
  let ?o = "rev (dropWhile (\<lambda>c. c = CHR ''_'') (rev ?b))"
  show ?thesis
  proof (cases "?o = []")
    case True
    then have "reasonTag reason = ''unspecified''" by (simp add: reasonTag_def)
    moreover have "list_all tag_char ''unspecified''" by code_simp
    ultimately show ?thesis by simp
  next
    case False
    then have r: "reasonTag reason = ?o" unfolding reasonTag_def Let_def by (rule if_not_P)
    obtain rest where pre: "?b = ?o @ rest"
      by (metis rev_append rev_rev_ident takeWhile_dropWhile_id)
    have "?b \<noteq> []" using False by auto
    then have "tag_char (hd ?b)" using reasonLoop_head [of "[]"] by blast
    then have "tag_char (hd ?o)" using pre False by (metis hd_append2)
    moreover have "length ?o \<le> 48"
      using length_dropWhile_rev [of _ ?b] reasonLoop_length [of "[]"] by (rule order_trans) auto
    moreover have "last ?o \<noteq> CHR ''_''"
      using hd_dropWhile [of "\<lambda>c. c = CHR ''_''" "rev ?b"] False by (simp add: last_rev)
    moreover have "list_all (\<lambda>c. tag_char c \<or> c = CHR ''_'') ?o"
      using set_dropWhile_rev reasonLoop_chars [of "[]"] by (force simp: list_all_iff)
    ultimately show ?thesis using False unfolding r by auto
  qed
qed

text \<open>
  Names sort as the items were written: a later millisecond gives a greater name whatever
  the ids, and a name is a published one that yields its item's id back.
\<close>
theorem itemName_chronological:
  assumes "ms_ok t" "ms_ok u" "UnixMilli t < UnixMilli u" "id_ok i"
  shows "itemName t i < itemName u j \<and> published (itemName t i) \<and> name_id (itemName t i) = i"
  using assms by (simp add: itemName_less published_itemName name_id_itemName)

theorem itemName_chronological_witness:
  "itemName 62135596800005000000 ''zz'' < itemName 62135596800006000000 ''aa''"
  using itemName_chronological [of 62135596800005000000 62135596800006000000 "''zz''" "''aa''"]
  by (simp add: ms_ok_def id_ok_def UnixMilli_def unix_epoch_def)

lemma guard_sweepLoop [frame, simp]: "guard (sweepLoop e ns s) = guard s"
proof (induction e ns s rule: sweepLoop.induct)
  case (1 e s)
  then show ?case by simp
next
  case (2 e n ns s)
  obtain r s1 where rm: "fs_remove e SubPending n s = (r, s1)" by (meson surj_pair)
  then have "guard s1 = guard s"
    by (auto simp: fs_remove_def del_file_def split: if_splits option.splits)
  moreover have "guard (drop_event e ''tmp_swept'' s1) = guard s1"
    by (simp add: drop_event_def Record_def mutateState_def Let_def)
  ultimately show ?case using 2 rm by (auto split: option.splits syscall_result.splits)
qed

text \<open>
  A spool opened with the default or the superseded ratio refuses a write exactly when
  \<open>WriteAllowed\<close>, which the status report uses, says no; the free space asked for grows with
  the filesystem between the byte floor and the cap.
\<close>
theorem guard_agrees_with_status:
  assumes "Open e o0 s = Inr t" "optMinFreeRatio o0 \<le> 0 \<or> optMinFreeRatio o0 = LegacyMinFreeRatio"
  shows "(guardDisk e t = None \<longleftrightarrow>
      (case disk_free e of None \<Rightarrow> True | Some (free, tot) \<Rightarrow> tot = 0 \<or> fst (WriteAllowed free tot))) \<and>
    MinFreeBytes \<le> Threshold (guard t) a \<and> Threshold (guard t) a \<le> MaxRatioBytes \<and>
    Threshold (guard t) a \<le> Threshold (guard t) (a + b)"
proof -
  have g: "guard t = DefaultGuard"
    using assms by (auto simp: Open_def sweepTemp_def DefaultGuard_def guard_withDefaults_def LegacyMinFreeRatio_def
        split: if_splits option.splits)
  have "minFreeBytes (guard_withDefaults DefaultGuard) = MinFreeBytes"
    "maxRatioBytes (guard_withDefaults DefaultGuard) = MaxRatioBytes" "MinFreeBytes \<le> MaxRatioBytes"
    by (simp_all add: DefaultGuard_def guard_withDefaults_def MinFreeBytes_def MaxRatioBytes_def)
  then have "MinFreeBytes \<le> Threshold DefaultGuard a \<and> Threshold DefaultGuard a \<le> MaxRatioBytes"
    unfolding Threshold_clamp by simp
  moreover have "Threshold DefaultGuard a \<le> Threshold DefaultGuard (a + b)" by (rule Threshold_mono) simp
  ultimately show ?thesis using g
    by (auto simp: guardDisk_def WriteAllowed_def Allowed_def Let_def split: option.splits bool.splits)
qed

theorem guard_agrees_with_status_witness:
  "\<exists>t. Open sample_env sample_opts sample_spool = Inr t \<and> guardDisk sample_env t = None"
proof -
  obtain t where t: "Open sample_env sample_opts sample_spool = Inr t"
    by (simp add: Open_def sample_env_def sample_opts_def)
  from guard_agrees_with_status [OF this] t show ?thesis by (auto simp: sample_opts_def sample_env_def)
qed

end
