(* ===== verification/DrainProps.thy ===== *)
theory DrainProps
  imports Drain SpoolProps
begin

text \<open>
  The properties of delivery: what a run can and cannot take out of the spool, what a
  transport failure costs, the byte cap, the waits, and that a reachable server that accepts
  what it is sent sees the queue empty.
\<close>

section \<open>Witness values\<close>

definition sample_drain_opts :: DrainOptions where
  "sample_drain_opts = New \<lparr>BatchSize = 0, MaxBytes = 0, Interval = 0,
     Backoff = \<lparr>Initial = 0, Max_wait = 0, Multiplier = 0, Jitter = False\<rparr>\<rparr>"

definition sample_cycle :: "(Leased list \<Rightarrow> Response \<times> string option) \<Rightarrow> cycle_env" where
  "sample_cycle f = \<lparr>at_lease = sample_env, at_verdict = sample_env, ctx_err = (\<lambda>i. False), send = f,
     enrich = (\<lambda>ls. ls), rand_int = (\<lambda>n. 0)\<rparr>"

definition accept_all :: "Leased list \<Rightarrow> Response \<times> string option" where
  "accept_all ls = (\<lparr>Accepted = map (\<lambda>l. item_id (l_item l)) ls, Rejected = [], RetryAfter = 0\<rparr>, None)"

definition answer_nothing :: "Leased list \<Rightarrow> Response \<times> string option" where
  "answer_nothing ls = (\<lparr>Accepted = [], Rejected = [], RetryAfter = 0\<rparr>, None)"

definition unreachable :: "Leased list \<Rightarrow> Response \<times> string option" where
  "unreachable ls = (\<lparr>Accepted = [], Rejected = [], RetryAfter = 30 * second\<rparr>, Some ''connection refused'')"

lemma enrich_id [simp]: "enrich_ok (\<lambda>ls. ls)"
  by (simp add: enrich_ok_def)

lemma sample_held: "''a'' \<in> held sample_spool"
  using sample_stores sample_names by (intro heldI [of "''1-a.json''"]) (auto simp: sample_item_def)

section \<open>What leaves the spool\<close>

text \<open>
  C2. Nothing leaves the spool undelivered: over any run, with any system calls failing, any
  batches cut short and the context ending anywhere, an id that no error-free response
  accepted is still stored when the run ends.
\<close>
theorem Run_keeps_unaccepted:
  assumes "spool_ok s" "i \<in> held s"
    and "\<forall>ce\<in>set ces. enrich_ok (enrich ce) \<and> (\<forall>batch resp. send ce batch = (resp, None) \<longrightarrow> i \<notin> set (Accepted resp))"
  shows "i \<in> held (snd (snd (Run o0 ces d s)))"
proof (rule ccontr)
  assume no: "i \<notin> held (snd (snd (Run o0 ces d s)))"
  obtain ws d' s' where r: "Run o0 ces d s = (ws, d', s')" by (metis prod_cases3)
  with no have "i \<notin> held s'" by simp
  from Run_held [OF assms(1) _ r assms(2) this] assms(3) show False by blast
qed

theorem Run_keeps_unaccepted_witness:
  "''a'' \<in> held (snd (snd (Run sample_drain_opts [sample_cycle answer_nothing, sample_cycle unreachable] new_Drain sample_spool)))"
  by (rule Run_keeps_unaccepted [OF sample_ok sample_held])
    (simp add: sample_cycle_def answer_nothing_def unreachable_def)

text \<open>Leasing moves no file that holds an item.\<close>

lemma sweepLoop_file: "published m \<Longrightarrow> file_at (sweepLoop e ns s) sub m = file_at s sub m"
proof (induction e ns s rule: sweepLoop.induct)
  case (1 e s)
  then show ?case by simp
next
  case (2 e n ns s)
  have np: "HasSuffix n ''.tmp'' \<Longrightarrow> n \<noteq> m" using "2.prems" by (auto simp: published_def HasSuffix_iff)
  obtain r s1 where rm: "fs_remove e SubPending n s = (r, s1)" by (meson surj_pair)
  have s1: "HasSuffix n ''.tmp'' \<Longrightarrow> file_at s1 sub m = file_at s sub m"
    using rm np by (auto simp: fs_remove_def split: if_splits option.splits)
  show ?case
  proof (cases "HasSuffix n ''.tmp'' \<and> (\<exists>f. fs_stat e SubPending n s = Some f \<and> f_mtime f < now e - tmpSweepAge)")
    case False
    with 2 show ?thesis by (auto split: option.splits)
  next
    case True
    then obtain f where f: "fs_stat e SubPending n s = Some f" "f_mtime f < now e - tmpSweepAge" by blast
    with True "2.IH"(4-6) [OF _ f(1) _ rm [symmetric]] "2.prems" rm s1 show ?thesis
      by (cases r) auto
  qed
qed

lemma sweepTemp_file: "published m \<Longrightarrow> file_at (sweepTemp e s) sub m = file_at s sub m"
  by (simp add: sweepTemp_def sweepLoop_file split: option.splits)

lemma moveOut_torn_stores:
  assumes "spool_ok s" "file_at s SubPending n = Some f" "f_content f = Torn"
    and "published m" "stores s sub m it"
  shows "stores (snd (moveOut e (SubPending, n) SubQuarantine ''corrupt'' s)) sub m it"
proof -
  have "\<not> corrupt_named m" using spool_ok_corrupt [OF assms(1,4,5)] .
  then have "m \<noteq> taggedName n ''corrupt''" using corrupt_named_tagged by blast
  moreover have "\<not> (sub = SubPending \<and> m = n)" using assms(2,3,5) by (auto simp: stores_def)
  ultimately show ?thesis using assms(2,5)
    by (auto simp: moveOut_def Let_def fs_rename_def stores_def)
qed

lemma leaseLoop_stores:
  "spool_ok s \<Longrightarrow> published m \<Longrightarrow> stores s sub m it \<Longrightarrow> stores (snd (leaseLoop e ns s)) sub m it"
proof (induction e ns s rule: leaseLoop.induct)
  case (1 e s)
  then show ?case by simp
next
  case (2 e n ns s)
  show ?case
  proof (cases "read_item e SubPending n s")
    case ReadFailed
    with 2 show ?thesis by simp
  next
    case ReadCorrupt
    obtain err s1 where q: "quarantine e (SubPending, n) ''corrupt'' s = (err, s1)" by (meson surj_pair)
    obtain f where f: "file_at s SubPending n = Some f" "f_content f = Torn"
      using read_item_Corrupt [OF ReadCorrupt] by blast
    have s1: "s1 = snd (moveOut e (SubPending, n) SubQuarantine ''corrupt'' s)"
      using q by (simp add: quarantine_def)
    have "spool_ok s1" using moveOut_torn(1) [OF "2.prems"(1) f, of SubQuarantine e] s1 by simp
    moreover have "stores s1 sub m it"
      using moveOut_torn_stores [OF "2.prems"(1) f "2.prems"(2,3)] s1 by simp
    ultimately show ?thesis using "2.IH"(2) [OF ReadCorrupt q [symmetric]] "2.prems"(2) ReadCorrupt q by simp
  next
    case (ReadItem it0)
    with 2 show ?thesis by (auto split: prod.splits)
  qed
qed

lemma Lease_stores:
  assumes "spool_ok s" "published m" "stores s sub m it"
  shows "stores (snd (Lease e k s)) sub m it"
proof -
  have "stores (sweepTemp e s) sub m it" using assms(2,3) by (simp add: stores_def sweepTemp_file)
  with leaseLoop_stores [OF keeps_ok [OF sweepTemp_keeps [OF assms(1)]] assms(2)] show ?thesis
    by (auto simp: Lease_def Let_def split: sum.splits prod.splits) (metis snd_conv)
qed

text \<open>
  A transport failure costs the items nothing: every stored item is where it was with its
  counters unchanged. The drain counts one more consecutive failure, waits by the curve at
  the count before it, and has accepted, rejected and parked nothing.
\<close>
theorem RunOnce_transport_failure:
  assumes "spool_ok s" "RunOnce o0 ce d s = (Some (ErrSend msg), d', s')"
    and "published n" "stores s sub n it"
  shows "stores s' sub n it \<and> attempt d' = Suc (attempt d) \<and>
    backoff (stats d') = computeBackoff (rand_int ce) (Backoff o0) (attempt d) \<and>
    n_accepted (stats d') = n_accepted (stats d) \<and> n_rejected (stats d') = n_rejected (stats d) \<and>
    n_undecided (stats d') = n_undecided (stats d) \<and> n_parked (stats d') = n_parked (stats d)"
proof -
  obtain lr s1 where l: "Lease (at_lease ce) (BatchSize o0) s = (lr, s1)" by (meson surj_pair)
  with assms(2) obtain leased where lr: "lr = Inr leased" "leased \<noteq> []"
    by (auto simp: RunOnce_def Let_def split: if_splits sum.splits)
  obtain resp se where sd: "send ce (limitBytes o0 (enrich ce leased)) = (resp, se)" by (meson surj_pair)
  with assms(2) l lr have "se = Some msg" "s' = s1"
    by (auto simp: RunOnce_def Let_def split: if_splits option.splits prod.splits)
  moreover have "stores s1 sub n it" using Lease_stores [OF assms(1,3,4), of "at_lease ce" "BatchSize o0"] l by simp
  ultimately show ?thesis using assms(2) l lr sd
    by (auto simp: RunOnce_def Let_def recordTransportFailure_def split: if_splits)
qed

lemma sample_lease_all: "Lease sample_env 100 sample_spool =
    (Inr [sample_lease, \<lparr>l_item = sample_item ''b'', l_path = (SubPending, ''2-b.json'')\<rparr>], sample_spool)"
  using sample_names
  by (simp add: Lease_def sweepTemp_def fs_readdir_def pendingNames_def sample_env_def sample_spool_def
      empty_spool_def dir_names_def HasSuffix_def firstN_def read_item_def file_at_def sample_file_def sample_lease_def)

lemmas drain_eval = sample_drain_opts_def New_def defaultBatchSize_def defaultBatchBytes_def
  defaultInterval_def defaultInitial_def defaultMax_def defaultMultiplier_def sample_cycle_def

lemma sample_RunOnce_unreachable:
  "fst (RunOnce sample_drain_opts (sample_cycle unreachable) new_Drain sample_spool) = Some (ErrSend ''connection refused'')"
  by (simp add: RunOnce_def drain_eval sample_lease_all unreachable_def)

theorem RunOnce_transport_failure_witness:
  "stores (snd (snd (RunOnce sample_drain_opts (sample_cycle unreachable) new_Drain sample_spool)))
     SubPending ''1-a.json'' (sample_item ''a'')"
proof -
  obtain r d s where "RunOnce sample_drain_opts (sample_cycle unreachable) new_Drain sample_spool = (r, d, s)"
    by (metis prod_cases3)
  moreover from this have "r = Some (ErrSend ''connection refused'')"
    using sample_RunOnce_unreachable by simp
  ultimately show ?thesis
    using RunOnce_transport_failure [OF sample_ok _ sample_names(7) sample_stores] by simp
qed

section \<open>The byte cap\<close>

abbreviation bytes_of :: "Leased list \<Rightarrow> int" where
  "bytes_of ls \<equiv> sum_list (map itemBytes ls)"

lemma limitLoop_sum: "limitLoop cap False tot ls \<noteq> [] \<Longrightarrow> tot + bytes_of (limitLoop cap False tot ls) \<le> cap"
proof (induction ls arbitrary: tot)
  case Nil
  then show ?case by simp
next
  case (Cons l ls)
  then show ?case
    using Cons.IH [of "tot + itemBytes l"]
    by (cases "limitLoop cap False (tot + itemBytes l) ls = []") (auto simp: add.assoc split: if_splits)
qed

lemma limitLoop_next:
  "ls = limitLoop cap False tot ls @ x # rest \<Longrightarrow> cap < tot + bytes_of (limitLoop cap False tot ls) + itemBytes x"
proof (induction ls arbitrary: tot)
  case Nil
  then show ?case by simp
next
  case (Cons l ls)
  show ?case
  proof (cases "tot + itemBytes l > cap")
    case True
    with Cons.prems show ?thesis by simp
  next
    case False
    with Cons.prems have "ls = limitLoop cap False (tot + itemBytes l) ls @ x # rest" by simp
    from Cons.IH [OF this] False show ?thesis by (simp add: add.assoc)
  qed
qed

text \<open>
  The byte cap never stalls the queue and is otherwise met: the batch sent is a prefix of
  the one leased, never empty, within the cap unless it is a single item, and cut only where
  the next item would not have fitted.
\<close>
theorem limitBytes_batch:
  assumes "ls \<noteq> []"
  shows "\<exists>rest. ls = limitBytes o0 ls @ rest \<and> limitBytes o0 ls \<noteq> [] \<and>
    (length (limitBytes o0 ls) = 1 \<or> bytes_of (limitBytes o0 ls) \<le> MaxBytes o0) \<and>
    (rest = [] \<or> MaxBytes o0 < bytes_of (limitBytes o0 ls) + itemBytes (hd rest))"
proof -
  obtain l ls' where ls: "ls = l # ls'" using assms by (cases ls) auto
  let ?r = "limitLoop (MaxBytes o0) False (itemBytes l) ls'"
  have b: "limitBytes o0 ls = l # ?r" by (simp add: limitBytes_def ls)
  obtain rest where rest: "ls' = ?r @ rest" using limitLoop_prefix by blast
  have "rest = [] \<or> MaxBytes o0 < itemBytes l + bytes_of ?r + itemBytes (hd rest)"
    using rest limitLoop_next [of ls' "MaxBytes o0" "itemBytes l"] by (cases rest) auto
  moreover have "?r = [] \<or> itemBytes l + bytes_of ?r \<le> MaxBytes o0" using limitLoop_sum by blast
  moreover have "ls = (l # ?r) @ rest" unfolding ls append_Cons by (rule arg_cong [OF rest])
  ultimately show ?thesis unfolding b by (intro exI [of _ rest]) auto
qed

theorem limitBytes_batch_witness:
  "limitBytes (sample_drain_opts\<lparr>MaxBytes := 10\<rparr>) [sample_lease, sample_lease] \<noteq> []"
  using limitBytes_batch [of "[sample_lease, sample_lease]"] by blast

section \<open>Waiting\<close>

text \<open>
  The backoff delay stays within a nanosecond and the maximum whatever the options asked
  for and the random source returned, and its ceiling never falls as failures follow one
  another.
\<close>
theorem computeBackoff_bounds:
  assumes "\<And>n. 0 < n \<Longrightarrow> 0 \<le> rand n \<and> rand n < n"
  shows "1 \<le> computeBackoff rand (Backoff (New o0)) n \<and>
    computeBackoff rand (Backoff (New o0)) n \<le> Max_wait (Backoff (New o0)) \<and>
    backoff_ceiling (Backoff (New o0)) n \<le> backoff_ceiling (Backoff (New o0)) (n + m)"
proof -
  let ?p = "Backoff (New o0)"
  have c: "1 \<le> backoff_ceiling ?p n" "backoff_ceiling ?p n \<le> of_int (Max_wait ?p)"
    using backoff_ceiling_bounds New_policy by blast+
  then have f: "1 \<le> \<lfloor>backoff_ceiling ?p n\<rfloor>" "\<lfloor>backoff_ceiling ?p n\<rfloor> \<le> Max_wait ?p"
    by (simp_all add: le_floor_iff floor_le_iff)
  moreover have "\<not> backoff_ceiling ?p n \<le> 0" using c(1) by linarith
  moreover have "backoff_ceiling ?p n \<le> backoff_ceiling ?p (n + m)"
    using backoff_ceiling_mono New_policy by simp
  ultimately show ?thesis using assms [of "\<lfloor>backoff_ceiling ?p n\<rfloor>"] by (auto simp: computeBackoff_def Let_def)
qed

theorem computeBackoff_bounds_witness:
  "1 \<le> computeBackoff (\<lambda>n. n - 1) (Backoff sample_drain_opts) 40 \<and>
   computeBackoff (\<lambda>n. n - 1) (Backoff sample_drain_opts) 40 \<le> 300000000000"
proof -
  have "Max_wait (Backoff sample_drain_opts) = 300000000000"
    by (simp add: sample_drain_opts_def New_def defaultMax_def go_time)
  moreover have "\<And>n :: int. 0 < n \<Longrightarrow> 0 \<le> n - 1 \<and> n - 1 < n" by simp
  note computeBackoff_bounds [where n = 40, OF this]
  ultimately show ?thesis unfolding sample_drain_opts_def by metis
qed

text \<open>
  The server's pacing is honoured: after a cycle that got an answer, or a refusal carrying
  one, the pause is at least the \<open>RetryAfter\<close> it named.
\<close>
theorem RunOnce_honours_pacing:
  assumes "RunOnce o0 ce d s = (err, d', s')" "\<And>i. \<not> ctx_err ce i"
    and "Lease (at_lease ce) (BatchSize o0) s = (Inr leased, s1)" "leased \<noteq> []"
  shows "RetryAfter (fst (send ce (limitBytes o0 (enrich ce leased)))) \<le> nextWait o0 (err \<noteq> None) d'"
  using assms
  by (auto simp: RunOnce_def Let_def nextWait_def recordTransportFailure_def drain_recordSuccess_def
      split: prod.splits option.splits if_splits)

theorem RunOnce_honours_pacing_witness:
  "30 * second \<le> nextWait sample_drain_opts True
     (fst (snd (RunOnce sample_drain_opts (sample_cycle unreachable) new_Drain sample_spool)))"
proof -
  obtain r d s where r: "RunOnce sample_drain_opts (sample_cycle unreachable) new_Drain sample_spool = (r, d, s)"
    by (metis prod_cases3)
  have "r \<noteq> None" using sample_RunOnce_unreachable r by simp
  with RunOnce_honours_pacing [OF r _ _ list.simps(3), of sample_lease] r show ?thesis
    by (simp add: sample_cycle_def drain_eval sample_lease_all unreachable_def)
qed

text \<open>
  A spool whose pending directory cannot be listed makes the run loop spin: each cycle
  fails at once, the delay it would wait is the transport's, which is zero, and so however
  many cycles fail the loop never pauses.
\<close>
theorem Run_spins_when_lease_fails:
  assumes "\<forall>ce\<in>set ces. fault (at_lease ce) (OpReadDir SubPending) \<and> (\<forall>i. \<not> ctx_err ce i)"
    and "backoff (stats d) = 0" "retryAfter d \<le> 0"
  shows "case Run o0 ces d s of (ws, d', s') \<Rightarrow>
    ws = [] \<and> n_cycles (stats d') = n_cycles (stats d) + int (length ces)"
  using assms
proof (induction ces arbitrary: d s)
  case Nil
  then show ?case by simp
next
  case (Cons ce ces)
  let ?err = "ErrLease (ErrReadDir SubPending)"
  obtain s1 where "Lease (at_lease ce) (BatchSize o0) s = (Inl (ErrReadDir SubPending), s1)"
    using Cons.prems(1) by (auto simp: Lease_def Let_def pendingNames_def fs_readdir_def)
  moreover define d1 where "d1 = recordErr ?err (d\<lparr>stats := (stats d)\<lparr>n_cycles := n_cycles (stats d) + 1\<rparr>, batchFull := False\<rparr>)"
  ultimately have r: "RunOnce o0 ce d s = (Some ?err, d1, s1)" using Cons.prems(1) by (simp add: RunOnce_def)
  have d1: "backoff (stats d1) = 0" "retryAfter d1 \<le> 0" "n_cycles (stats d1) = n_cycles (stats d) + 1"
    using Cons.prems(2,3) by (simp_all add: d1_def recordErr_def)
  have "case Run o0 ces d1 s1 of (ws, d', s') \<Rightarrow> ws = [] \<and> n_cycles (stats d') = n_cycles (stats d1) + int (length ces)"
    using Cons.prems(1) d1(1,2) by (intro Cons.IH) auto
  with r d1 Cons.prems(1) show ?case by (auto simp: nextWait_def Let_def split: prod.splits)
qed

theorem Run_spins_when_lease_fails_witness:
  "fst (Run sample_drain_opts (replicate 1000
     ((sample_cycle accept_all)\<lparr>at_lease := sample_env\<lparr>fault := (\<lambda>x. x = OpReadDir SubPending)\<rparr>\<rparr>)) new_Drain sample_spool) = []"
  using Run_spins_when_lease_fails [of
      "replicate 1000 ((sample_cycle accept_all)\<lparr>at_lease := sample_env\<lparr>fault := (\<lambda>x. x = OpReadDir SubPending)\<rparr>\<rparr>)"
      new_Drain sample_drain_opts sample_spool]
  by (auto simp: sample_cycle_def new_Drain_def zero_DrainStats_def split: prod.splits)

section \<open>Counting\<close>

definition n_verdicts :: "DrainStats \<Rightarrow> int" where
  "n_verdicts st = n_accepted st + n_rejected st + n_undecided st"

text \<open>Applying a verdict changes nothing of a drain but its last error.\<close>

definition only_err :: "Drain \<Rightarrow> Drain \<Rightarrow> bool" where
  "only_err d d' \<longleftrightarrow> d'\<lparr>stats := (stats d')\<lparr>lastErr := None\<rparr>\<rparr> = d\<lparr>stats := (stats d)\<lparr>lastErr := None\<rparr>\<rparr>"

lemma only_err_refl [simp]: "only_err d d"
  by (simp add: only_err_def)

lemma only_err_record [simp]: "only_err (recordErr er d) d' = only_err d d'"
  by (simp add: only_err_def recordErr_def)

lemma only_err_fields:
  assumes "only_err d d'"
  shows "n_cycles (stats d') = n_cycles (stats d)" "n_sent (stats d') = n_sent (stats d)"
    "n_accepted (stats d') = n_accepted (stats d)" "n_rejected (stats d') = n_rejected (stats d)"
    "n_undecided (stats d') = n_undecided (stats d)" "n_parked (stats d') = n_parked (stats d)"
    "attempt d' = attempt d"
  using assms unfolding only_err_def by (cases "stats d"; cases "stats d'"; cases d; cases d'; simp)+

lemma applyLoop_counts:
  "applyLoop e resp ls (c, d, s) = (c', d', s') \<Longrightarrow>
   nAcc c' + nRej c' + nUnd c' \<le> nAcc c + nRej c + nUnd c + int (length ls) \<and>
   nPark c' - nPark c \<le> nUnd c' - nUnd c \<and> only_err d d'"
proof (induction ls arbitrary: c d s)
  case Nil
  then show ?case by simp
next
  case (Cons l ls)
  from Cons.prems show ?case
    by (auto simp: Let_def split: verdict.splits prod.splits option.splits if_splits dest!: Cons.IH)
qed

definition counts_ok :: "Drain \<Rightarrow> bool" where
  "counts_ok d \<longleftrightarrow> n_verdicts (stats d) \<le> n_sent (stats d) \<and> n_parked (stats d) \<le> n_undecided (stats d)"

lemma applyVerdict_counts:
  assumes "applyVerdict e batch resp d s = (d', s')"
  shows "n_verdicts (stats d') \<le> n_verdicts (stats d) + int (length batch) \<and>
    n_sent (stats d') = n_sent (stats d) \<and>
    n_parked (stats d') - n_parked (stats d) \<le> n_undecided (stats d') - n_undecided (stats d)"
proof -
  obtain c d1 s1 where a: "applyLoop e resp batch (\<lparr>nAcc = 0, nRej = 0, nUnd = 0, nPark = 0\<rparr>, d, s) = (c, d1, s1)"
    by (metis prod_cases3)
  from applyLoop_counts [OF a] only_err_fields [of d d1] assms a show ?thesis
    by (auto simp: applyVerdict_def n_verdicts_def)
qed

lemma RunOnce_counts:
  assumes "counts_ok d" "RunOnce o0 ce d s = (err, d', s')"
  shows "counts_ok d'"
proof -
  obtain lr s1 where l: "Lease (at_lease ce) (BatchSize o0) s = (lr, s1)" by (meson surj_pair)
  show ?thesis
  proof (cases lr)
    case (Inl err')
    with assms l show ?thesis
      by (auto simp: RunOnce_def Let_def counts_ok_def n_verdicts_def recordErr_def split: if_splits)
  next
    case (Inr leased)
    let ?batch = "limitBytes o0 (enrich ce leased)"
    let ?d2 = "d\<lparr>batchFull := False, stats := (stats d)\<lparr>n_cycles := n_cycles (stats d) + 1,
       n_sent := n_sent (stats d) + int (length ?batch)\<rparr>\<rparr>"
    obtain resp se where sd: "send ce ?batch = (resp, se)" by (meson surj_pair)
    obtain d3 s2 where av: "applyVerdict (at_verdict ce) ?batch resp ?d2 s1 = (d3, s2)" by (meson surj_pair)
    from applyVerdict_counts [OF av] assms(1) have "counts_ok d3" by (auto simp: counts_ok_def n_verdicts_def)
    with assms l Inr sd av show ?thesis
      by (auto simp: RunOnce_def Let_def counts_ok_def n_verdicts_def recordTransportFailure_def drain_recordSuccess_def
          split: if_splits option.splits)
  qed
qed

text \<open>
  The counters never claim more than was sent: over any run from a new drain, accepted,
  rejected and undecided together are at most the items handed to the transport, and parked
  at most undecided.
\<close>
theorem Run_counts:
  "case Run o0 ces new_Drain s of (ws, d, t) \<Rightarrow>
     n_accepted (stats d) + n_rejected (stats d) + n_undecided (stats d) \<le> n_sent (stats d) \<and>
     n_parked (stats d) \<le> n_undecided (stats d)"
proof -
  have "counts_ok d \<Longrightarrow> counts_ok (fst (snd (Run o0 ces d s)))" for d
  proof (induction ces arbitrary: d s)
    case Nil
    then show ?case by simp
  next
    case (Cons ce ces)
    obtain err d1 s1 where r: "RunOnce o0 ce d s = (err, d1, s1)" by (metis prod_cases3)
    have "counts_ok d1" using RunOnce_counts [OF Cons.prems r] .
    with Cons.IH [of d1 s1] Cons.prems r show ?case by (auto simp: Let_def split: prod.splits)
  qed
  from this [of new_Drain] show ?thesis
    by (auto simp: counts_ok_def n_verdicts_def new_Drain_def zero_DrainStats_def split: prod.splits)
qed

section \<open>The queue empties\<close>

text \<open>The published files of pending.\<close>

definition pending_set :: "Spool \<Rightarrow> string set" where
  "pending_set s = {n. published n \<and> file_at s SubPending n \<noteq> None}"

lemma finite_pending [simp]: "finite (pending_set s)"
proof (rule finite_subset)
  show "pending_set s \<subseteq> dom (map_of (dir_of SubPending s))" by (auto simp: pending_set_def file_at_def)
qed (rule fs.finite_dom)

lemma moveOut_pending:
  "dst \<noteq> SubPending \<Longrightarrow> pending_set (snd (moveOut e (SubPending, n) dst tag s)) \<subseteq> pending_set s"
  by (auto simp: moveOut_def Let_def fs_rename_def pending_set_def split: option.splits if_splits)

lemma pending_drop [simp]: "pending_set (drop_event e r s) = pending_set s"
  by (simp add: pending_set_def)

lemma leaseLoop_pending: "pending_set (snd (leaseLoop e ns s)) \<subseteq> pending_set s"
proof (induction e ns s rule: leaseLoop.induct)
  case (1 e s)
  then show ?case by simp
next
  case (2 e n ns s)
  have "pending_set (snd (quarantine e (SubPending, n) ''corrupt'' s)) \<subseteq> pending_set s"
    by (simp add: quarantine_def moveOut_pending)
  with 2 show ?case by (fastforce split: read_result.splits prod.splits)
qed

text \<open>A lease that returns nothing has moved every file it looked at to quarantine.\<close>

lemma leaseLoop_empty:
  "reliable e \<Longrightarrow> fst (leaseLoop e ns s) = [] \<Longrightarrow> n \<in> set ns \<Longrightarrow> n \<notin> pending_set (snd (leaseLoop e ns s))"
proof (induction e ns s rule: leaseLoop.induct)
  case (1 e s)
  then show ?case by simp
next
  case (2 e m ns s)
  show ?case
  proof (cases "read_item e SubPending m s")
    case ReadFailed
    then have "m \<notin> pending_set s" using "2.prems"(1)
      by (auto simp: read_item_def pending_set_def split: option.splits content.splits)
    with ReadFailed "2.IH"(1) "2.prems" leaseLoop_pending [of e ns s] show ?thesis by auto
  next
    case ReadCorrupt
    obtain err s1 where q: "quarantine e (SubPending, m) ''corrupt'' s = (err, s1)" by (meson surj_pair)
    obtain f where f: "file_at s SubPending m = Some f" using read_item_Corrupt [OF ReadCorrupt] by blast
    then have "m \<notin> pending_set (drop_event e ''corrupt'' s1)"
      using q "2.prems"(1) moveOut_reliable(2) [OF "2.prems"(1) f, of SubQuarantine "''corrupt''" SubPending m]
      by (simp add: quarantine_def pending_set_def)
    with ReadCorrupt q "2.IH"(2) [OF ReadCorrupt q [symmetric]] "2.prems"
      leaseLoop_pending [of e ns "drop_event e ''corrupt'' s1"] show ?thesis by auto
  next
    case (ReadItem it)
    with "2.prems"(2) show ?thesis by (auto split: prod.splits)
  qed
qed

lemma sweepTemp_pending [simp]: "pending_set (sweepTemp e s) = pending_set s"
  by (auto simp: pending_set_def sweepTemp_file)

lemma Lease_pending:
  assumes "spool_ok s" "reliable e" "0 < k" "Lease e k s = (r, t)"
  shows "pending_set t \<subseteq> pending_set s"
    and "\<exists>ls. r = Inr ls \<and> (ls = [] \<longrightarrow> pending_set s \<noteq> {} \<longrightarrow> pending_set t \<noteq> pending_set s)"
proof -
  let ?s = "sweepTemp e s"
  obtain names where n: "pendingNames e ?s = Inr names"
    using assms(2) by (auto simp: pendingNames_def fs_readdir_def)
  obtain ls where l: "leaseLoop e (firstN k names) ?s = (ls, t)" "r = Inr ls"
    using assms(4) n by (auto simp: Lease_def Let_def split: prod.splits)
  show "pending_set t \<subseteq> pending_set s" using leaseLoop_pending [of e "firstN k names" ?s] l by simp
  have names: "set names = pending_set s"
    using pendingNames_Inr(4) [OF n keeps_ok [OF sweepTemp_keeps [OF assms(1)]]] sweepTemp_pending
    unfolding pending_set_def by blast
  have "pending_set t \<noteq> pending_set s" if "ls = []" "pending_set s \<noteq> {}"
  proof -
    have "names \<noteq> []" using that(2) names by auto
    then have "hd names \<in> set (firstN k names)" "hd names \<in> pending_set s"
      using assms(3) names by (cases names; auto simp: firstN_def take_Cons' nat_eq_iff)+
    moreover have "hd names \<notin> pending_set t"
      using leaseLoop_empty [OF assms(2), of "firstN k names" ?s "hd names"] l(1) that(1) calculation(1) by simp
    ultimately show ?thesis by blast
  qed
  with l(2) show "\<exists>ls. r = Inr ls \<and> (ls = [] \<longrightarrow> pending_set s \<noteq> {} \<longrightarrow> pending_set t \<noteq> pending_set s)" by blast
qed

lemma Ack_pending: "pending_set (snd (Ack e l s)) \<subseteq> pending_set s"
proof -
  have "pending_set (snd (Ack e l s)) =
      pending_set (snd (fs_remove e (fst (l_path l)) (snd (l_path l)) (recordSuccess e s)))"
    using Ack_same [of e l s] by (simp add: same_files_def pending_set_def file_at_def)
  then show ?thesis by (auto simp: fs_remove_def pending_set_def split: option.splits if_splits)
qed

lemma Ack_removes: "reliable e \<Longrightarrow> file_at (snd (Ack e l s)) (fst (l_path l)) (snd (l_path l)) = None"
proof -
  assume "reliable e"
  moreover have "file_at (snd (Ack e l s)) sub n =
      file_at (snd (fs_remove e (fst (l_path l)) (snd (l_path l)) (recordSuccess e s))) sub n" for sub n
    using Ack_same [of e l s] by (simp add: same_files_def file_at_def)
  ultimately show ?thesis by (simp add: fs_remove_def split: option.splits)
qed

lemma Acks_pending: "pending_set (fold exec_op (map (DoAck e) ls) s) \<subseteq> pending_set s"
proof (induction ls arbitrary: s)
  case Nil
  then show ?case by simp
next
  case (Cons l ls)
  then show ?case using order_trans [OF Cons.IH [of "snd (Ack e l s)"] Ack_pending [of e l s]] by simp
qed

text \<open>What is assumed of the outside in a cycle that makes progress.\<close>

definition serves :: "cycle_env \<Rightarrow> bool" where
  "serves ce \<longleftrightarrow> reliable (at_lease ce) \<and> reliable (at_verdict ce) \<and> enrich_ok (enrich ce) \<and>
     (\<forall>i. \<not> ctx_err ce i) \<and>
     (\<forall>ls. snd (send ce ls) = None \<and> (\<forall>l\<in>set ls. item_id (l_item l) \<in> set (Accepted (fst (send ce ls)))))"

lemma RunOnce_progress:
  assumes ok: "spool_ok s" and sv: "serves ce" and b: "0 < BatchSize o0"
    and r: "RunOnce o0 ce d s = (err, d', s')"
  shows "pending_set s' \<subseteq> pending_set s \<and> (pending_set s \<noteq> {} \<longrightarrow> pending_set s' \<noteq> pending_set s)"
proof -
  have rel: "reliable (at_lease ce)" "reliable (at_verdict ce)" "\<And>i. \<not> ctx_err ce i" and enr: "enrich_ok (enrich ce)"
    using sv by (simp_all add: serves_def)
  obtain lr s1 where l: "Lease (at_lease ce) (BatchSize o0) s = (lr, s1)" by (meson surj_pair)
  note lp = Lease_pending [OF ok rel(1) b l]
  then obtain leased where lr: "lr = Inr leased"
    and lemp: "leased = [] \<longrightarrow> pending_set s \<noteq> {} \<longrightarrow> pending_set s1 \<noteq> pending_set s" by blast
  show ?thesis
  proof (cases "leased = []")
    case True
    with r l lr rel have "s' = s1" by (auto simp: RunOnce_def Let_def)
    with lp(1) lemp True show ?thesis by simp
  next
    case False
    let ?batch = "limitBytes o0 (enrich ce leased)"
    obtain resp where sd: "send ce ?batch = (resp, None)" "\<forall>l\<in>set ?batch. item_id (l_item l) \<in> set (Accepted resp)"
      using sv unfolding serves_def by (metis prod.collapse)
    obtain dd where "s' = snd (applyVerdict (at_verdict ce) ?batch resp dd s1)"
      using r l lr sd rel False by (auto simp: RunOnce_def Let_def split: prod.splits) (metis snd_conv)
    moreover have "map (op_for (at_verdict ce) resp) ?batch = map (DoAck (at_verdict ce)) ?batch"
      using sd(2) by (intro map_cong) (auto simp: op_for_def verdict_of_def)
    ultimately have s': "s' = fold exec_op (map (DoAck (at_verdict ce)) ?batch) s1" by (simp add: applyVerdict_ops)
    have "enrich ce leased \<noteq> []" using False enr by (metis enrich_ok_def length_0_conv length_map)
    then obtain x xs where x: "?batch = x # xs" by (cases "enrich ce leased") (auto simp: limitBytes_def)
    note le = Lease_stored [OF ok l [unfolded lr]]
    have "x \<in> set (enrich ce leased)" using x set_limitBytes by (metis list.set_intros(1) subsetD)
    moreover have "\<forall>l\<in>set leased. leased_ok l" using Lease_docs(2) [OF ok l [unfolded lr]] .
    ultimately have "l_path x \<in> l_path ` set leased" using enrich_leased [OF enr] by blast
    then obtain y where y: "y \<in> set leased" "l_path x = l_path y" by auto
    have xp: "fst (l_path x) = SubPending" "snd (l_path x) \<in> pending_set s1"
      using le y Lease_docs(2) [OF ok l [unfolded lr]] by (auto simp: pending_set_def stores_def leased_ok_def)
    have "snd (l_path x) \<notin> pending_set (snd (Ack (at_verdict ce) x s1))"
      using Ack_removes [OF rel(2), of x s1] xp(1) by (simp add: pending_set_def)
    moreover have "pending_set s' \<subseteq> pending_set (snd (Ack (at_verdict ce) x s1))"
      using Acks_pending by (simp add: s' x)
    ultimately show ?thesis using xp(2) lp(1) Ack_pending [of "at_verdict ce" x s1] by blast
  qed
qed

lemma Run_pending:
  "spool_ok s \<Longrightarrow> \<forall>ce\<in>set ces. serves ce \<Longrightarrow> 0 < BatchSize o0 \<Longrightarrow>
   card (pending_set s) \<le> length ces \<Longrightarrow> pending_set (snd (snd (Run o0 ces d s))) = {}"
proof (induction ces arbitrary: d s)
  case Nil
  then show ?case by simp
next
  case (Cons ce ces)
  have sv: "serves ce" "\<And>i. \<not> ctx_err ce i" "enrich_ok (enrich ce)"
    using Cons.prems(2) by (simp_all add: serves_def)
  obtain err d1 s1 where r: "RunOnce o0 ce d s = (err, d1, s1)" by (metis prod_cases3)
  note p = RunOnce_progress [OF Cons.prems(1) sv(1) Cons.prems(3) r]
  have ok: "spool_ok s1" using RunOnce_held [OF Cons.prems(1) sv(3) r] by blast
  have "card (pending_set s1) \<le> length ces"
  proof (cases "pending_set s = {}")
    case True
    with p show ?thesis by simp
  next
    case False
    then have "card (pending_set s1) < card (pending_set s)" using p by (intro psubset_card_mono) auto
    with Cons.prems(4) show ?thesis by simp
  qed
  then have "pending_set (snd (snd (Run o0 ces d1 s1))) = {}" using Cons.IH [OF ok] Cons.prems(2,3) by simp
  with r sv(2) show ?case by (auto simp: Let_def split: prod.splits)
qed

text \<open>
  C13. The queue empties: with system calls working and a server that accepts what it is sent,
  as many cycles as there are pending files leave none, undecodable files among them included.
\<close>
theorem Run_empties_pending:
  assumes "spool_ok s" "\<forall>ce\<in>set ces. serves ce" "card (pending_set s) \<le> length ces"
  shows "pending_set (snd (snd (Run (New o0) ces d s))) = {}"
proof -
  have "0 < BatchSize (New o0)" by (simp add: New_def defaultBatchSize_def)
  with assms show ?thesis by (intro Run_pending)
qed

lemma sample_serves: "serves (sample_cycle accept_all)"
  by (simp add: serves_def sample_cycle_def accept_all_def)

theorem Run_empties_pending_witness:
  "pending_set (snd (snd (Run sample_drain_opts (replicate 2 (sample_cycle accept_all)) new_Drain sample_spool))) = {}"
proof -
  have "pending_set sample_spool \<subseteq> {''1-a.json'', ''2-b.json''}"
    by (auto simp: pending_set_def file_at_def dir_of_sample split: if_splits)
  then have "card (pending_set sample_spool) \<le> card {''1-a.json'', ''2-b.json''}" by (intro card_mono) simp_all
  then show ?thesis
    unfolding sample_drain_opts_def using sample_serves by (intro Run_empties_pending) simp_all
qed

section \<open>What a cycle does not report\<close>

text \<open>Every acknowledgement of a batch failing.\<close>

lemma applyLoop_ack_fails:
  "\<forall>x. fault e x = (\<exists>sub n. x = OpRemove sub n) \<Longrightarrow> \<forall>l\<in>set ls. item_id (l_item l) \<in> set (Accepted resp) \<Longrightarrow>
   applyLoop e resp ls (c, d, s) = (c', d', s') \<Longrightarrow> c' = c \<and> pending_set s' = pending_set s"
proof (induction ls arbitrary: d s)
  case Nil
  then show ?case by simp
next
  case (Cons l ls)
  have v: "verdict_of resp (item_id (l_item l)) = VAccepted" using Cons.prems(2) by (simp add: verdict_of_def)
  have a: "Ack e l s = (Some ErrRemove, recordSuccess e s)" using Cons.prems(1)
    by (auto simp: Ack_def Let_def fs_remove_def)
  have "pending_set (recordSuccess e s) = pending_set s" by (simp add: pending_set_def)
  with Cons.IH [of "recordErr (ErrAck (item_id (l_item l)) ErrRemove) d" "recordSuccess e s"] Cons.prems v a
  show ?case by (simp add: Let_def)
qed

text \<open>
  A cycle hides what the spool refused: when the server accepted the whole batch and not
  one acknowledgement could remove its file, the cycle still returns no error, its last error
  reads none, and only the accepted count standing still shows that everything is still queued.
\<close>
theorem RunOnce_hides_failed_acks:
  assumes f: "\<forall>x. fault (at_verdict ce) x = (\<exists>sub n. x = OpRemove sub n)"
    and c: "\<forall>i. \<not> ctx_err ce i"
    and l: "Lease (at_lease ce) (BatchSize o0) s = (Inr leased, s1)" "leased \<noteq> []"
    and sd: "send ce (limitBytes o0 (enrich ce leased)) = (resp, None)"
      "\<forall>l\<in>set (limitBytes o0 (enrich ce leased)). item_id (l_item l) \<in> set (Accepted resp)"
  shows "case RunOnce o0 ce d s of (err, d', s') \<Rightarrow> err = None \<and> lastErr (stats d') = None \<and>
    n_accepted (stats d') = n_accepted (stats d) \<and> pending_set s' = pending_set s1"
proof -
  let ?batch = "limitBytes o0 (enrich ce leased)"
  let ?d2 = "d\<lparr>batchFull := False, stats := (stats d)\<lparr>n_cycles := n_cycles (stats d) + 1,
       n_sent := n_sent (stats d) + int (length ?batch)\<rparr>\<rparr>"
  obtain c' d3 s2 where a: "applyLoop (at_verdict ce) resp ?batch (\<lparr>nAcc = 0, nRej = 0, nUnd = 0, nPark = 0\<rparr>, ?d2, s1) = (c', d3, s2)"
    by (metis prod_cases3)
  note applyLoop_ack_fails [OF f sd(2) a]
  moreover have "n_accepted (stats d3) = n_accepted (stats d)"
    using applyLoop_counts [OF a] only_err_fields(3) [of ?d2 d3] by simp
  ultimately show ?thesis using l c sd(1) a
    by (auto simp: RunOnce_def Let_def applyVerdict_def drain_recordSuccess_def split: prod.splits)
qed

definition no_remove :: env where
  "no_remove = sample_env\<lparr>fault := (\<lambda>x. \<exists>sub n. x = OpRemove sub n)\<rparr>"

theorem RunOnce_hides_failed_acks_witness:
  "fst (RunOnce sample_drain_opts ((sample_cycle accept_all)\<lparr>at_verdict := no_remove\<rparr>) new_Drain sample_spool) = None"
proof -
  let ?ce = "(sample_cycle accept_all)\<lparr>at_verdict := no_remove\<rparr>"
  let ?ls = "[sample_lease, \<lparr>l_item = sample_item ''b'', l_path = (SubPending, ''2-b.json'')\<rparr>]"
  let ?b = "limitBytes sample_drain_opts (enrich ?ce ?ls)"
  have f: "\<forall>x. fault (at_verdict ?ce) x = (\<exists>sub n. x = OpRemove sub n)" "\<forall>i. \<not> ctx_err ?ce i"
    by (simp_all add: no_remove_def sample_cycle_def)
  have l: "Lease (at_lease ?ce) (BatchSize sample_drain_opts) sample_spool = (Inr ?ls, sample_spool)"
    by (simp add: drain_eval sample_lease_all)
  have sd: "send ?ce ?b = (fst (accept_all ?b), None)"
    by (simp add: sample_cycle_def accept_all_def)
  from RunOnce_hides_failed_acks [OF f l list.distinct(2) sd, of new_Drain] show ?thesis
    by (auto simp: accept_all_def split: prod.splits)
qed

text \<open>
  A batch cut by the byte cap counts as not full: although items it left behind are
  waiting, the next cycle is put off by the idle interval at least.
\<close>
theorem RunOnce_idles_behind_cap:
  assumes "\<forall>i. \<not> ctx_err ce i"
    and "Lease (at_lease ce) (BatchSize o0) s = (Inr leased, s1)" "leased \<noteq> []"
    and "send ce (limitBytes o0 (enrich ce leased)) = (resp, None)"
    and "int (length (limitBytes o0 (enrich ce leased))) < BatchSize o0"
  shows "case RunOnce o0 ce d s of (err, d', s') \<Rightarrow> err = None \<and> Interval o0 \<le> nextWait o0 False d'"
  using assms by (auto simp: RunOnce_def Let_def nextWait_def drain_recordSuccess_def split: prod.splits)

theorem RunOnce_idles_behind_cap_witness:
  "5 * second \<le> nextWait (sample_drain_opts\<lparr>BatchSize := 100, MaxBytes := 600\<rparr>) False
     (fst (snd (RunOnce (sample_drain_opts\<lparr>BatchSize := 100, MaxBytes := 600\<rparr>) (sample_cycle accept_all) new_Drain sample_spool)))"
proof -
  let ?o = "sample_drain_opts\<lparr>BatchSize := 100, MaxBytes := 600\<rparr>"
  let ?ls = "[sample_lease, \<lparr>l_item = sample_item ''b'', l_path = (SubPending, ''2-b.json'')\<rparr>]"
  have l: "Lease (at_lease (sample_cycle accept_all)) (BatchSize ?o) sample_spool = (Inr ?ls, sample_spool)"
    by (simp add: sample_cycle_def sample_lease_all)
  have "int (length (limitBytes ?o (enrich (sample_cycle accept_all) ?ls))) < BatchSize ?o"
    by (simp add: sample_cycle_def limitBytes_def itemBytes_def sample_lease_def sample_item_def envelopeBytes_def)
  with RunOnce_idles_behind_cap [OF _ l _ _ this, of _ new_Drain] show ?thesis
    by (auto simp: sample_cycle_def accept_all_def sample_drain_opts_def New_def defaultInterval_def split: prod.splits)
qed

end
