(* ===== verification/Deliver.thy ===== *)
theory Deliver
  imports DaemonProps DrainProps
begin

text \<open>
  The composition of the client's outbound path (\<open>cmd/loop-sessions/deliver.go\<close>): the
  flusher the daemon is given takes the delivery lock, runs one drain cycle on the shared
  spool and reports the delta of the drain's counters. Whether an error is the context's
  (\<open>errors.Is\<close>) and how it reads are parameters; log lines are not represented.
\<close>

section \<open>The flusher\<close>

record spoolFlusher =
  fl_d :: Drain
  fl_sp :: Spool
  resolved :: int
  refused :: int
  fl_locks :: locks
  fl_cycle :: nat

definition deliveryLockName :: string where "deliveryLockName = ''.delivery.lock''"

record flusher_env =
  fe_opts :: DrainOptions
  fe_cycle :: "nat \<Rightarrow> cycle_env"
  fe_lock :: denv
  fe_is_ctx :: "drain_error \<Rightarrow> bool"
  fe_text :: "drain_error \<Rightarrow> string"

definition flusher_report :: "flusher_env \<Rightarrow> env \<Rightarrow> drain_error option \<Rightarrow> Spool \<Rightarrow> Spool" where
  "flusher_report fe e err s =
     (case err of
        None \<Rightarrow> s
      | Some x \<Rightarrow> if fe_is_ctx fe x then s else RecordDeliveryFailure e (Some (fe_text fe x)) s)"

definition flusher_RunOnce :: "flusher_env \<Rightarrow> spoolFlusher flusher" where
  "flusher_RunOnce fe f0 =
     (let ce = fe_cycle fe (fl_cycle f0);
          f = f0\<lparr>fl_cycle := Suc (fl_cycle f0)\<rparr>
      in case TryLock (fe_lock fe) deliveryLockName (fl_locks f) of
           (Inl ErrLocked, l) \<Rightarrow> ((0, False), f\<lparr>fl_locks := l\<rparr>)
         | (Inl _, l) \<Rightarrow> ((0, True), f\<lparr>fl_locks := l\<rparr>)
         | (Inr _, l) \<Rightarrow>
             (case RunOnce (fe_opts fe) ce (fl_d f) (fl_sp f) of
                (err, d1, s1) \<Rightarrow>
                  let total = n_accepted (stats d1) + n_rejected (stats d1)
                  in ((total - resolved f, err \<noteq> None),
                      f\<lparr>fl_d := d1, fl_sp := flusher_report fe (at_verdict ce) err s1, resolved := total,
                        refused := n_rejected (stats d1), fl_locks := Close deliveryLockName l\<rparr>)))"

text \<open>\<open>newDelivery\<close>'s policy: the drain's defaults, with jitter.\<close>

definition deliveryOptions :: DrainOptions where
  "deliveryOptions = New \<lparr>BatchSize = 0, MaxBytes = 0, Interval = 0,
     Backoff = \<lparr>Initial = 0, Max_wait = 0, Multiplier = 0, Jitter = True\<rparr>\<rparr>"

section \<open>Cycles that leave nothing undecodable behind\<close>

definition docs_only :: "Spool \<Rightarrow> bool" where
  "docs_only s \<longleftrightarrow> (\<forall>n\<in>pending_set s. \<exists>it. stores s SubPending n it)"

lemma leaseLoop_docs:
  "reliable e \<Longrightarrow> \<forall>n\<in>set ns. \<exists>it. stores s SubPending n it \<Longrightarrow>
   snd (leaseLoop e ns s) = s \<and> length (fst (leaseLoop e ns s)) = length ns"
proof (induction ns)
  case Nil
  then show ?case by simp
next
  case (Cons n ns)
  then obtain it where "stores s SubPending n it" by auto
  with Cons.prems(1) have "read_item e SubPending n s = ReadItem it"
    by (auto simp: read_item_def stores_def reliable_def)
  with Cons show ?case by (auto split: prod.split)
qed

lemma Lease_nonempty:
  assumes ok: "spool_ok s" and e: "reliable e" and k: "0 < k" and dc: "docs_only s" and ne: "pending_set s \<noteq> {}"
  shows "\<exists>ls. Lease e k s = (Inr ls, sweepTemp e s) \<and> ls \<noteq> []"
proof -
  let ?s = "sweepTemp e s"
  obtain names where n: "pendingNames e ?s = Inr names"
    using e by (auto simp: pendingNames_def fs_readdir_def)
  have names: "set names = pending_set s"
    using pendingNames_Inr(4) [OF n keeps_ok [OF sweepTemp_keeps [OF ok]]] sweepTemp_pending [of e s]
    by (simp only: pending_set_def)
  have "\<exists>it. stores ?s SubPending m it" if "m \<in> set (firstN k names)" for m
  proof -
    have "m \<in> set names" using that set_take_subset [of "nat k" names] by (auto simp: firstN_def split: if_splits)
    then have "m \<in> pending_set s" using names by blast
    with dc obtain it where "stores s SubPending m it" by (auto simp: docs_only_def)
    moreover have "published m" using \<open>m \<in> pending_set s\<close> by (simp add: pending_set_def)
    ultimately show ?thesis by (auto simp: stores_def sweepTemp_file)
  qed
  then have l: "snd (leaseLoop e (firstN k names) ?s) = ?s"
    "length (fst (leaseLoop e (firstN k names) ?s)) = length (firstN k names)"
    using leaseLoop_docs [OF e] by blast+
  have "names \<noteq> []" using ne names by auto
  then have "firstN k names \<noteq> []" using k by (auto simp: firstN_def)
  with l n show ?thesis
    by (cases "leaseLoop e (firstN k names) ?s") (auto simp: Lease_def Let_def)
qed

lemma Acks_stores:
  assumes "docs_only s"
  shows "docs_only (fold exec_op (map (DoAck e) ls) s)"
  unfolding docs_only_def
proof
  fix n assume n: "n \<in> pending_set (fold exec_op (map (DoAck e) ls) s)"
  then have p: "published n" "file_at (fold exec_op (map (DoAck e) ls) s) SubPending n \<noteq> None"
    by (simp_all add: pending_set_def)
  have "file_at (fold exec_op (map (DoAck e) ls) s) SubPending n = file_at s SubPending n"
    using p(2)
  proof (induction ls arbitrary: s)
    case Nil
    then show ?case by simp
  next
    case (Cons l ls)
    let ?s1 = "snd (Ack e l s)"
    have i: "file_at (fold exec_op (map (DoAck e) ls) ?s1) SubPending n = file_at ?s1 SubPending n"
      using Cons by simp
    then have "file_at ?s1 SubPending n \<noteq> None" using Cons.prems by simp
    moreover have "file_at ?s1 SubPending n =
        file_at (snd (fs_remove e (fst (l_path l)) (snd (l_path l)) (recordSuccess e s))) SubPending n"
      using Ack_same [of e l s] by (simp add: same_files_def file_at_def)
    ultimately have "file_at ?s1 SubPending n = file_at s SubPending n"
      by (auto simp: fs_remove_def split: option.splits if_splits)
    with i show ?case by simp
  qed
  moreover have "n \<in> pending_set s" using calculation p by (simp add: pending_set_def)
  ultimately show "\<exists>it. stores (fold exec_op (map (DoAck e) ls) s) SubPending n it"
    using assms by (auto simp: docs_only_def stores_def)
qed

lemma Ack_served: "reliable e \<Longrightarrow> fst (Ack e l s) = None"
  by (auto simp: Ack_def Let_def fs_remove_def reliable_def split: option.split)

lemma applyLoop_served:
  "reliable e \<Longrightarrow> \<forall>l\<in>set ls. item_id (l_item l) \<in> set (Accepted resp) \<Longrightarrow>
   applyLoop e resp ls (c, d, s) = (c', d', s') \<Longrightarrow>
   nAcc c' = nAcc c + int (length ls) \<and> nRej c' = nRej c \<and> stats d' = stats d"
proof (induction ls arbitrary: c s)
  case Nil
  then show ?case by simp
next
  case (Cons l ls)
  have v: "verdict_of resp (item_id (l_item l)) = VAccepted" using Cons.prems(2) by (simp add: verdict_of_def)
  obtain s1 where a: "Ack e l s = (None, s1)" using Ack_served [OF Cons.prems(1), of l s] by (metis prod.collapse)
  from Cons.prems v a have "applyLoop e resp ls (c\<lparr>nAcc := nAcc c + 1\<rparr>, d, s1) = (c', d', s')" by simp
  from Cons.IH [OF Cons.prems(1) _ this] Cons.prems(2) show ?case by simp
qed

text \<open>One cycle of a served drain over a queue of documents.\<close>

definition moved :: "Drain \<Rightarrow> int" where
  "moved d = n_accepted (stats d) + n_rejected (stats d)"

lemma docs_only_sweep: "docs_only s \<Longrightarrow> docs_only (sweepTemp e s)"
  by (auto simp: docs_only_def stores_def pending_set_def sweepTemp_file)

lemma RunOnce_idle:
  assumes sv: "serves ce" and ok: "spool_ok s" and b: "0 < BatchSize o0" and dc: "docs_only s" and emp: "pending_set s = {}"
    and r: "RunOnce o0 ce d s = (err, d', s')"
  shows "docs_only s' \<and> err = None \<and> moved d' = moved d"
proof -
  have rel: "reliable (at_lease ce)" "\<And>i. \<not> ctx_err ce i" using sv by (simp_all add: serves_def)
  obtain lr s1 where l: "Lease (at_lease ce) (BatchSize o0) s = (lr, s1)" by (meson surj_pair)
  note lp = Lease_pending [OF ok rel(1) b l]
  then obtain ls where lr: "lr = Inr ls" by blast
  have "ls = []"
  proof (rule ccontr)
    assume "ls \<noteq> []"
    then obtain x where "x \<in> set ls" by (cases ls) auto
    with Lease_stored [OF ok l [unfolded lr]] Lease_docs(2) [OF ok l [unfolded lr]]
    have "snd (l_path x) \<in> pending_set s1" by (auto simp: pending_set_def stores_def leased_ok_def)
    with lp(1) emp show False by auto
  qed
  with r l lr rel have "err = None \<and> d' = d\<lparr>stats := (stats d)\<lparr>n_cycles := n_cycles (stats d) + 1\<rparr>, batchFull := False\<rparr> \<and> s' = s1"
    by (auto simp: RunOnce_def Let_def)
  with lp(1) emp show ?thesis by (auto simp: docs_only_def moved_def)
qed

lemma RunOnce_busy:
  assumes sv: "serves ce" and ok: "spool_ok s" and b: "0 < BatchSize o0" and dc: "docs_only s" and ne: "pending_set s \<noteq> {}"
    and r: "RunOnce o0 ce d s = (err, d', s')"
  shows "docs_only s' \<and> err = None \<and> moved d < moved d'"
proof -
  have rel: "reliable (at_lease ce)" "reliable (at_verdict ce)" "\<And>i. \<not> ctx_err ce i" and enr: "enrich_ok (enrich ce)"
    using sv by (simp_all add: serves_def)
  obtain ls where l: "Lease (at_lease ce) (BatchSize o0) s = (Inr ls, sweepTemp (at_lease ce) s)" "ls \<noteq> []"
    using Lease_nonempty [OF ok rel(1) b dc ne] by blast
  let ?batch = "limitBytes o0 (enrich ce ls)" and ?s1 = "sweepTemp (at_lease ce) s"
  obtain resp where sd: "send ce ?batch = (resp, None)" "\<forall>l\<in>set ?batch. item_id (l_item l) \<in> set (Accepted resp)"
    using sv unfolding serves_def by (metis prod.collapse)
  define d2 where "d2 = d\<lparr>batchFull := False, stats := (stats d)\<lparr>n_cycles := n_cycles (stats d) + 1,
      n_sent := n_sent (stats d) + int (length ?batch)\<rparr>\<rparr>"
  obtain c d3 s3 where a: "applyLoop (at_verdict ce) resp ?batch
      (\<lparr>nAcc = 0, nRej = 0, nUnd = 0, nPark = 0\<rparr>, d2, ?s1) = (c, d3, s3)" by (metis prod_cases3)
  note n = applyLoop_served [OF rel(2) sd(2) a]
  have "enrich ce ls \<noteq> []" using l(2) enr by (metis enrich_ok_def length_0_conv length_map)
  then have len: "0 < length ?batch" by (cases "enrich ce ls") (auto simp: limitBytes_def)
  have av: "applyVerdict (at_verdict ce) ?batch resp d2 ?s1 = (d3\<lparr>stats := (stats d3)\<lparr>
       n_accepted := n_accepted (stats d3) + nAcc c, n_rejected := n_rejected (stats d3) + nRej c,
       n_undecided := n_undecided (stats d3) + nUnd c, n_parked := n_parked (stats d3) + nPark c\<rparr>\<rparr>, s3)"
    using a by (simp add: applyVerdict_def)
  have "moved d < moved d'" and err: "err = None" and s': "s' = s3"
    using r l sd(1) rel av n len by (auto simp: RunOnce_def Let_def d2_def drain_recordSuccess_def moved_def)
  moreover have m: "map (op_for (at_verdict ce) resp) ?batch = map (DoAck (at_verdict ce)) ?batch"
    using sd(2) by (intro map_cong) (auto simp: op_for_def verdict_of_def)
  have "s3 = fold exec_op (map (DoAck (at_verdict ce)) ?batch) ?s1"
    using applyVerdict_ops [of "at_verdict ce" ?batch resp d2 ?s1] unfolding av m by (simp only: snd_conv)
  then have "docs_only s'" using Acks_stores [OF docs_only_sweep [OF dc]] s' by simp
  ultimately show ?thesis by simp
qed

section \<open>The shutdown drain empties the queue\<close>

text \<open>A flusher whose cycles are served, that can take its lock, over a queue of documents.\<close>

definition flusher_ok :: "flusher_env \<Rightarrow> spoolFlusher \<Rightarrow> bool" where
  "flusher_ok fe f \<longleftrightarrow> spool_ok (fl_sp f) \<and> docs_only (fl_sp f) \<and> 0 < BatchSize (fe_opts fe) \<and>
     (\<forall>i. serves (fe_cycle fe i)) \<and> (\<forall>x. \<not> d_fault (fe_lock fe) x) \<and>
     deliveryLockName \<notin> fl_locks f \<and> resolved f = moved (fl_d f)"

lemma flusher_cycle:
  assumes "flusher_ok fe f" "flusher_RunOnce fe f = ((sent, err), f')"
  shows "flusher_ok fe f' \<and> \<not> err \<and>
    (if pending_set (fl_sp f) = {} then sent = 0 \<and> pending_set (fl_sp f') = {}
     else 0 < sent \<and> card (pending_set (fl_sp f')) < card (pending_set (fl_sp f)))"
proof -
  let ?ce = "fe_cycle fe (fl_cycle f)" and ?s = "fl_sp f"
  have ok: "spool_ok ?s" "docs_only ?s" "0 < BatchSize (fe_opts fe)" "serves ?ce" "resolved f = moved (fl_d f)"
    using assms(1) by (simp_all add: flusher_ok_def)
  obtain er d' s' where r: "RunOnce (fe_opts fe) ?ce (fl_d f) ?s = (er, d', s')" by (metis prod_cases3)
  have enr: "enrich_ok (enrich ?ce)" using ok(4) by (simp add: serves_def)
  have ok': "spool_ok s'" using RunOnce_held [OF ok(1) enr r] by blast
  note p = RunOnce_progress [OF ok(1,4,3) r]
  have lk: "TryLock (fe_lock fe) deliveryLockName (fl_locks f) = (Inr (), insert deliveryLockName (fl_locks f))"
    using assms(1) by (simp add: TryLock_def flusher_ok_def)
  have e: "docs_only s' \<and> er = None \<and> (if pending_set ?s = {} then moved d' = moved (fl_d f) else moved (fl_d f) < moved d')"
    using RunOnce_idle [OF ok(4,1,3,2) _ r] RunOnce_busy [OF ok(4,1,3,2) _ r] by simp
  then have f': "f' = f\<lparr>fl_cycle := Suc (fl_cycle f), fl_d := d', fl_sp := s', resolved := moved d',
      refused := n_rejected (stats d'), fl_locks := Close deliveryLockName (insert deliveryLockName (fl_locks f))\<rparr>"
    and se: "sent = moved d' - moved (fl_d f)" "\<not> err"
    using assms(2) lk r ok(5) by (auto simp: flusher_RunOnce_def Let_def flusher_report_def moved_def)
  have "flusher_ok fe f'"
    using assms(1) e ok' by (simp add: flusher_ok_def f' Close_def)
  moreover have "card (pending_set s') < card (pending_set ?s)" if "pending_set ?s \<noteq> {}"
    using p that by (intro psubset_card_mono) auto
  ultimately show ?thesis using e se p by (auto simp: f')
qed

lemma drainLoop_empties:
  "flusher_ok fe f \<Longrightarrow> card (pending_set (fl_sp f)) \<le> n \<Longrightarrow> card (pending_set (fl_sp f)) \<le> grace \<Longrightarrow>
   pending_set (fl_sp (snd (drainLoop n (flusher_RunOnce fe) grace f))) = {}"
proof (induction n arbitrary: grace f)
  case 0
  then show ?case by simp
next
  case (Suc n)
  obtain sent err f1 where r: "flusher_RunOnce fe f = ((sent, err), f1)" by (metis surj_pair)
  note c = flusher_cycle [OF Suc.prems(1) r]
  show ?case
  proof (cases "pending_set (fl_sp f) = {}")
    case True
    with c r show ?thesis by simp
  next
    case False
    then have "0 < card (pending_set (fl_sp f))" by (simp add: card_gt_0_iff)
    then have g: "grace \<noteq> 0" using Suc.prems(3) by simp
    have "pending_set (fl_sp (snd (drainLoop n (flusher_RunOnce fe) (grace - 1) f1))) = {}"
      using False c Suc.prems by (intro Suc.IH) auto
    with g r c False show ?thesis by (auto split: prod.split)
  qed
qed

lemma recover_path [simp]: "dm_path (r_daemon (recover_session recover r)) = dm_path (r_daemon r)"
  "r_dir (recover_session recover r) = r_dir r"
  by (auto simp: recover_session_def Let_def split: option.split prod.split)

lemma Finalize_written:
  assumes "\<forall>x. \<not> d_fault e x" "json_name (dm_path dm)" "Finalize e reason dm d = (ok, dm', d')"
  shows "ok \<and> (\<exists>st. sessions d' (dm_path dm) = Some st \<and> Finalized st \<and> EndReason st = reason)"
proof -
  let ?dm = "dm\<lparr>dm_state := (dm_state dm)\<lparr>Finalized := True, EndedAt := d_now e, EndReason := reason\<rparr>\<rparr>"
  have v: "via_ok e tmp p" for tmp p using assms(1) by (simp add: via_ok_def)
  have s: "save e ?dm d = (ok, d')" using assms(3) by (auto simp: Finalize_def Let_def split: prod.splits)
  have "fst (save e ?dm d)" by (simp add: save_def write_via_fst v)
  then have "ok" by (simp only: s fst_conv)
  moreover have "sessions (snd (save e ?dm d)) = (sessions d)(dm_path dm \<mapsto> dm_state ?dm)"
    using assms(2) by (simp add: save_def write_via_sessions v)
  then have "sessions d' (dm_path dm) = Some (dm_state ?dm)" by (simp only: s snd_conv) simp
  ultimately show ?thesis by simp
qed

lemma finish_result: "\<exists>ok r'. finish_session fl recover e reason r = (RunFinalized ok, r')"
  by (simp add: finish_session_def Let_def split: prod.split)


definition sample_fe :: flusher_env where
  "sample_fe = \<lparr>fe_opts = sample_drain_opts, fe_cycle = (\<lambda>i. sample_cycle accept_all), fe_lock = sample_denv,
     fe_is_ctx = (\<lambda>x. False), fe_text = (\<lambda>x. [])\<rparr>"

definition sample_flusher :: spoolFlusher where
  "sample_flusher = \<lparr>fl_d = new_Drain, fl_sp = sample_spool, resolved = 0, refused = 0, fl_locks = {}, fl_cycle = 0\<rparr>"

definition sample_running :: "spoolFlusher running" where
  "sample_running = \<lparr>r_daemon = sample_daemon, r_dir = sample_dir, r_flusher = sample_flusher\<rparr>"

lemma sample_pending: "pending_set sample_spool = {''1-a.json'', ''2-b.json''}"
  using sample_names by (auto simp: pending_set_def file_at_def dir_of_sample split: if_splits)

lemma sample_docs: "docs_only sample_spool"
  unfolding docs_only_def sample_pending
  by (auto simp: stores_def file_at_def dir_of_sample sample_file_def)

lemma sample_flusher_ok: "flusher_ok sample_fe sample_flusher"
proof -
  have "0 < BatchSize sample_drain_opts" by (simp add: sample_drain_opts_def New_def defaultBatchSize_def)
  then show ?thesis
    by (simp add: flusher_ok_def sample_fe_def sample_flusher_def sample_docs sample_serves moved_def new_Drain_def
        zero_DrainStats_def sample_denv_def)
qed


end
