(* ===== verification/StoreErrors.thy ===== *)
theory StoreErrors
  imports StoreClaims
begin

text \<open>
  Errors of the ingest transaction: a failed call changes nothing, and it fails only where the
  server fails a statement or an event cannot be encoded. No batch makes its own transaction
  break a rule of the database: its statements never touch one row twice and never name an event
  that is not stored.
\<close>

section \<open>Whose fault a failure is\<close>

definition blame :: "tx_env \<Rightarrow> Ingest list \<Rightarrow> stmt \<Rightarrow> bool" where
  "blame e items st \<longleftrightarrow> \<not> stmt_ok e st \<or>
     (\<exists>it\<in>set items. st = SBody (item_id_of it) \<and> ingestBody (tx_codec e) it = None)"

definition blamed :: "tx_env \<Rightarrow> Ingest list \<Rightarrow> 'a result \<Rightarrow> bool" where
  "blamed e items m \<longleftrightarrow> (\<forall>st. m = Inl st \<longrightarrow> blame e items st)"

named_theorems server_steps "steps whose failure is to blame on the server or the encoding"

lemma blamed_Inr [simp, server_steps]: "blamed e items (Inr r)"
  by (simp add: blamed_def)

lemma blamed_exec [simp, server_steps]: "blamed e items (exec e st r)"
  by (simp add: blamed_def blame_def exec_def)

lemma blamed_bind:
  "blamed e items m \<Longrightarrow> (\<And>x d. m = Inr (x, d) \<Longrightarrow> blamed e items (f x d)) \<Longrightarrow> blamed e items (bindS m f)"
  by (cases m) (auto simp: blamed_def)

lemma blamed_if: "(c \<Longrightarrow> blamed e items m) \<Longrightarrow> (\<not> c \<Longrightarrow> blamed e items m') \<Longrightarrow> blamed e items (if c then m else m')"
  by simp

lemma bindS_Inl: "bindS m f = Inl st \<longleftrightarrow> m = Inl st \<or> (\<exists>x d. m = Inr (x, d) \<and> f x d = Inl st)"
  by (cases m) auto

lemma admit_server: "blamed e items (admit e its st d)"
proof (induction e its st d rule: admit.induct)
  case (1 e st d)
  then show ?case by simp
next
  case (2 e it its st d)
  show ?case
  proof (cases "map_of (ad_owners st) (session_of it)")
    case None
    then show ?thesis using "2.IH"(1) [OF None]
      by (simp add: claimSession_def) (rule blamed_bind, simp_all)
  next
    case (Some own)
    with "2.IH"(2) show ?thesis by simp
  qed
qed

lemma each_server:
  assumes "\<And>x d. blamed e items (f x d)"
  shows "blamed e items (each f xs d)"
proof (induction xs arbitrary: d)
  case Nil
  then show ?case by simp
next
  case (Cons x xs)
  then show ?case by (simp add: assms blamed_bind)
qed

lemma title_server [server_steps]: "blamed e items (refreshFirstPrompt e dl d)"
  by (simp add: refreshFirstPrompt_def Let_def)

lemma mark_server [server_steps]: "blamed e items (markAutomation e sid d)"
  unfolding markAutomation_def
  by (rule blamed_bind) (simp_all add: markSessionType_def title_server)

lemma dirty_server [server_steps]: "blamed e items (mark_dirty e sids d)"
  by (simp add: mark_dirty_def)

lemma fold_in_server [server_steps]: "blamed e items (fold_in e dl d)"
  unfolding fold_in_def by (rule blamed_bind) (simp_all add: applyDelta_def Let_def title_server)

lemma credit_server [server_steps]: "blamed e items (creditUsage e its d)"
  by (auto simp: creditUsage_def credit_stmt_def Let_def intro!: blamed_bind)

section \<open>Encoding\<close>

lemma elect_row_items: "snd ` set (elect_row it r el) \<subseteq> insert it (snd ` set el)"
  by (induction it r el rule: elect_row.induct) auto

lemma elect_rows_items: "snd ` set (fold (elect_row it) rs el) \<subseteq> insert it (snd ` set el)"
proof (induction rs arbitrary: el)
  case Nil
  then show ?case by auto
next
  case (Cons r rs)
  from Cons.IH [of "elect_row it r el"] elect_row_items [of it r el] show ?case by auto
qed

lemma elected_items: "snd ` set (elected ms) \<subseteq> fst ` set ms"
proof -
  have "snd ` set (fold (\<lambda>(it, rs) el. fold (elect_row it) rs el) ms el) \<subseteq> fst ` set ms \<union> snd ` set el" for el
  proof (induction ms arbitrary: el)
    case Nil
    then show ?case by simp
  next
    case (Cons m ms)
    obtain it rs where m: "m = (it, rs)" by (cases m)
    from Cons.IH [of "fold (elect_row it) rs el"] elect_rows_items [of it rs el] show ?case by (auto simp: m)
  qed
  from this [of "[]"] show ?thesis by (simp add: elected_def)
qed

lemma upgrades_fail: "upgrades e el = Inl st \<Longrightarrow> \<exists>it\<in>snd ` set el. st = SBody (item_id_of it) \<and> ingestBody (tx_codec e) it = None"
  by (induction e el rule: upgrades.induct) (auto split: if_splits option.splits sum.splits)

lemma event_rows_fail: "event_rows e its = Inl st \<Longrightarrow> \<exists>it\<in>set its. st = SBody (item_id_of it) \<and> ingestBody (tx_codec e) it = None"
  by (induction e its rule: event_rows.induct) (auto split: option.splits sum.splits)

lemma upgradeByIdentity_fail:
  assumes "upgradeByIdentity e its d = Inl st"
  shows "blame e its st"
proof -
  let ?ms = "matched_items (tx_codec e) d its"
  consider "\<not> stmt_ok e st" | "upgrades e (elected ?ms) = Inl st"
    using assms by (auto simp: upgradeByIdentity_def Let_def bindS_Inl exec_def split: if_splits sum.splits list.splits)
  then show ?thesis
  proof cases
    case 1
    then show ?thesis by (simp add: blame_def)
  next
    case 2
    have "fst ` set ?ms \<subseteq> set its" by (auto simp: matched_items_def)
    with upgrades_fail [OF 2] elected_items [of ?ms] show ?thesis unfolding blame_def by blast
  qed
qed

lemma insertEvents_fail:
  assumes "insertEvents e its d = Inl st" "distinct (map item_id_of its)"
  shows "blame e its st"
proof (cases "upgradeByIdentity e its d")
  case (Inl st')
  with assms(1) have "upgradeByIdentity e its d = Inl st" by (simp add: insertEvents_def)
  then show ?thesis by (rule upgradeByIdentity_fail)
next
  case (Inr r)
  obtain held up d1 where r: "r = ((held, up), d1)" by (metis prod_cases3 surj_pair)
  let ?its = "filter (\<lambda>it. \<not> is_alias held (item_id_of it)) its"
  show ?thesis
  proof (cases "event_rows e ?its")
    case inl: (Inl st')
    with assms(1) Inr have "event_rows e ?its = Inl st" by (simp add: insertEvents_def r)
    from event_rows_fail [OF this] show ?thesis by (auto simp: blame_def)
  next
    case rs: (Inr rs)
    have "distinct (map er_id rs)"
      using imm_item_ids [OF event_rows_spec [OF rs]] assms(2) by (simp add: distinct_map_filter)
    then have "\<not> stmt_ok e st"
      using assms(1) Inr rs by (auto simp: insertEvents_def r insert_stmt_def bindS_Inl exec_def split: list.splits prod.splits if_splits)
    then show ?thesis by (simp add: blame_def)
  qed
qed

section \<open>The rules of the database\<close>

lemma messages_of_events: "mr_event ` set (List.map_filter (message_of c) its) \<subseteq> item_id_of ` set its"
proof
  fix i assume "i \<in> mr_event ` set (List.map_filter (message_of c) its)"
  then obtain it m where "it \<in> set its" "message_of c it = Some m" "i = mr_event m"
    by (auto simp: List.map_filter_def)
  then show "i \<in> item_id_of ` set its"
    by (auto simp: message_of_def Let_def split: option.splits if_splits)
qed

lemma messages_of_distinct:
  "distinct (map item_id_of its) \<Longrightarrow> distinct (map mr_event (List.map_filter (message_of c) its))"
proof (induction its)
  case Nil
  then show ?case by (simp add: List.map_filter_def)
next
  case (Cons it its)
  have "mr_event m = item_id_of it" if "message_of c it = Some m" for m
    using that by (auto simp: message_of_def Let_def split: option.splits if_splits)
  then show ?case using Cons messages_of_events [of c its]
    by (auto simp: map_filter_simps split: option.split)
qed

lemma filter_key_le: "distinct (map f xs) \<Longrightarrow> length (filter (\<lambda>x. f x = i) xs) \<le> 1"
proof (induction xs)
  case Nil
  then show ?case by simp
next
  case (Cons x xs)
  have "f x \<notin> f ` set xs" using Cons.prems by simp
  then have "filter (\<lambda>y. f y = f x) xs = []" unfolding filter_empty_conv by (metis imageI)
  with Cons show ?case by auto
qed

lemma at_stored_position_distinct:
  assumes "distinct (event_ids d)" "distinct (map mr_event ms)"
  shows "distinct (map mr_event (concat (map (at_stored_position d) ms)))"
  using assms(2)
proof (induction ms)
  case Nil
  then show ?case by simp
next
  case (Cons m ms)
  have one: "map mr_event (at_stored_position d m) = map (\<lambda>_. mr_event m) (filter (\<lambda>x. er_id x = mr_event m) (t_events d))" for m
    by (simp add: at_stored_position_def)
  have "length (filter (\<lambda>x. er_id x = mr_event m) (t_events d)) \<le> 1"
    using assms(1) unfolding event_ids_def by (rule filter_key_le)
  moreover have "mr_event m \<notin> mr_event ` set (concat (map (at_stored_position d) ms))"
  proof -
    have "mr_event ` set (concat (map (at_stored_position d) ms)) \<subseteq> mr_event ` set ms"
      by (auto simp: at_stored_position_def)
    moreover have "mr_event m \<notin> mr_event ` set ms" using Cons.prems by simp
    ultimately show ?thesis by blast
  qed
  ultimately show ?case using Cons
    by (cases "filter (\<lambda>x. er_id x = mr_event m) (t_events d)") (auto simp: one image_iff at_stored_position_def)
qed

lemma fresh_messages_server:
  "item_id_of ` set its \<subseteq> set (event_ids d) \<Longrightarrow> blamed e items (writeMessages e its False d)"
  using order_trans [OF messages_of_events [of "tx_codec e" its]] by (auto simp: writeMessages_def messages_stmt_def Let_def image_subset_iff)

lemma refresh_server:
  "distinct (event_ids d) \<Longrightarrow> distinct (map item_id_of its) \<Longrightarrow> blamed e items (writeMessages e its True d)"
  using at_stored_position_distinct messages_of_distinct by (auto simp: writeMessages_def refresh_stmt_def Let_def)

lemma derive_server:
  assumes "item_id_of ` set fresh \<subseteq> set (event_ids d)"
  shows "blamed e items (derive_rows e fresh d)"
  unfolding derive_rows_def using fresh_messages_server [OF assms]
  by (auto intro!: blamed_bind)

lemma rollup_server:
  assumes "distinct (event_ids d)" "distinct (map item_id_of stored)"
    and "item_id_of ` set (filter (\<lambda>it. item_id_of it \<in> set inserted) admitted) \<subseteq> set (event_ids d)"
  shows "blamed e items (rollup e admitted inserted up stored counted d)"
  unfolding rollup_def Let_def
proof (intro blamed_bind derive_server assms each_server server_steps blamed_if)
  fix x :: unit and d1
  assume "derive_rows e (filter (\<lambda>it. item_id_of it \<in> set inserted) admitted) d = Inr (x, d1)"
  then have "t_events d1 = t_events d" using quiet_rel.keeps_derive by (cases x) (auto simp: quiet_def sess_same_def)
  then show "blamed e items (writeMessages e (filter (\<lambda>it. item_id_of it \<in> set up) stored) True d1)"
    using assms by (intro refresh_server) (simp_all add: event_ids_def distinct_map_filter)
qed

lemma committed_events:
  assumes "committed e admitted inserted stored counted new d1 d3 d'" "distinct (event_ids d1)"
  shows "distinct (event_ids d3)" "item_id_of ` set (filter (\<lambda>it. item_id_of it \<in> set inserted) admitted) \<subseteq> set (event_ids d3)"
    "distinct (map item_id_of stored)"
proof -
  let ?fresh = "filter (\<lambda>it. item_id_of it \<in> set inserted) admitted"
  have C: "map imm (t_events d3) = map imm (t_events d1) @ map item_imm ?fresh" "distinct (map item_id_of admitted)"
    "\<forall>it\<in>set ?fresh. item_id_of it \<notin> set (event_ids d1)" "distinct (map item_id_of stored)"
    using assms(1) unfolding committed_def Let_def by blast+
  have "event_ids d3 = event_ids d1 @ map item_id_of ?fresh"
    using arg_cong [OF C(1), of "map fst"] by (simp add: comp_def imm_def item_imm_def event_ids_def)
  moreover have "distinct (map item_id_of ?fresh)" using C(2) by (simp add: distinct_map_filter)
  moreover have "set (event_ids d1) \<inter> item_id_of ` set ?fresh = {}" using C(3) by (simp add: disjoint_iff image_iff) metis
  ultimately show "distinct (event_ids d3)" "item_id_of ` set ?fresh \<subseteq> set (event_ids d3)" using assms(2) by simp_all
  show "distinct (map item_id_of stored)" by (rule C(4))
qed

lemma blame_mono: "blame e its st \<Longrightarrow> set its \<subseteq> set items \<Longrightarrow> blame e items st"
  unfolding blame_def by blast

lemma insert_blamed:
  "distinct (map item_id_of its) \<Longrightarrow> set its \<subseteq> set items \<Longrightarrow> blamed e items (insertEvents e its d)"
  using insertEvents_fail blame_mono unfolding blamed_def by blast

lemma upsert_tx_blamed:
  assumes ok: "distinct (event_ids d)"
  shows "blamed e items (upsert_tx e (screened_batch e items) d)"
  unfolding upsert_tx_def Let_def
proof (intro blamed_bind blamed_if blamed_exec admit_server)
  fix x :: unit and d0 ad d1
  assume "exec e SBegin ((), d) = Inr (x, d0)"
  then have d0: "d0 = d" by simp
  assume "admit e (sort_by (\<lambda>a b. session_of a < session_of b) (sc_kept (screened_batch e items)))
      \<lparr>ad_owners = [], ad_admitted = [], ad_refused = sc_refused (screened_batch e items)\<rparr> d0 = Inr (ad, d1)"
  note adm = this [unfolded d0]
  note S = screened_batch_spec [where e = e and items = items]
  have dist: "distinct (map item_id_of (ad_admitted ad))"
    using admit_spec [OF adm] S(4) by (simp add: owners_ok_def distinct_map_filter distinct_map_sort_by)
  show "blamed e items (insertEvents e (ad_admitted ad) d1)"
    using dist admit_answers(3) [OF adm] S(3) by (intro insert_blamed) auto
  fix ins d2
  assume ins: "insertEvents e (ad_admitted ad) d1 = Inr (ins, d2)"
  obtain inserted held up where i: "ins = (inserted, held, up)" by (cases ins)
  let ?stored = "collapseByStoredID (ad_admitted ad) held"
  have "blamed e items (rollup e (ad_admitted ad) inserted up ?stored counted d3)"
    if cred: "creditUsage e ?stored d2 = Inr (counted, d3)" for counted d3
  proof -
    obtain new where c: "committed e (ad_admitted ad) inserted ?stored counted new d1 d3 d3"
      using committed_stages [OF adm S(4) ins [unfolded i] cred] by blast
    have "distinct (event_ids d1)"
      using ok admit_spec [OF adm] by (simp add: owners_ok_def grown_def event_ids_def)
    with committed_events [OF c] show ?thesis by (intro rollup_server) simp_all
  qed
  then show "blamed e items ((case ins of (inserted, held, up) \<Rightarrow> \<lambda>d2.
      bindS (creditUsage e (collapseByStoredID (ad_admitted ad) held) d2) (\<lambda>counted d3.
        bindS (rollup e (ad_admitted ad) inserted up (collapseByStoredID (ad_admitted ad) held) counted d3) (\<lambda>sessions d4.
          exec e SCommit
            (\<lparr>Inserted = filter (\<lambda>i. i \<in> set inserted) (map item_id_of (ad_admitted ad)),
              Duplicate = sc_dups (screened_batch e items) @ filter (\<lambda>i. i \<notin> set inserted) (map item_id_of (ad_admitted ad)),
              Refused = ad_refused ad, Sessions = sessions\<rparr>, d4)))) d2)"
    unfolding i by (auto intro!: blamed_bind credit_server)
qed


definition broken_tx :: tx_env where
  "broken_tx = sample_tx\<lparr>stmt_ok := (\<lambda>st. st \<noteq> SCredit)\<rparr>"

lemma broken_result: "fst (UpsertEvents broken_tx sample_batch sample_stored) = (Some SCredit, zero_UpsertResult)"
  by code_simp


end
