(* ===== verification/StoreFindings.thy ===== *)
theory StoreFindings
  imports StoreErrors
begin

text \<open>
  Where the transaction falls short of what its comments promise: an event acknowledged and
  refused at once, a stored event rewritten by another principal, launcher evidence lost beside a
  late credit.
\<close>

section \<open>Acknowledged and refused\<close>

text \<open>
  An event that arrives twice in one batch, for a session another principal owns, is reported
  both as a duplicate and as refused, and no row is stored for it: the caller that counts
  duplicates as accepted tells the client to delete an event the store turned away.
\<close>
theorem UpsertEvents_duplicate_and_refused:
  assumes "validateIngest (tx_codec e) it = []" "owner_of d (session_of it) = Some own" "own \<noteq> in_Email it"
    and "\<forall>st. stmt_ok e st"
  shows "\<exists>d'. UpsertEvents e [it, it] d = ((None, \<lparr>Inserted = [], Duplicate = [item_id_of it],
      Refused = [\<lparr>rf_ID = item_id_of it, rf_Reason = ''session belongs to another principal''\<rparr>], Sessions = []\<rparr>), d') \<and>
    t_events d' = t_events d"
proof -
  obtain s where s: "find_session d (session_of it) = Some s" "sr_email s = own"
    using assms(2) by (auto simp: owner_of_def)
  show ?thesis
    using assms(1,3,4) s
    by (simp add: UpsertEvents_def upsert_tx_def Let_def claimSession_def claim_stmt_def exec_def admit_as_def)
qed

theorem UpsertEvents_duplicate_and_refused_witness:
  "\<exists>d'. UpsertEvents sample_tx [sample_item ''e3'' ToolCall ''bob'', sample_item ''e3'' ToolCall ''bob''] sample_stored =
      ((None, \<lparr>Inserted = [], Duplicate = [''e3''],
        Refused = [\<lparr>rf_ID = ''e3'', rf_Reason = ''session belongs to another principal''\<rparr>], Sessions = []\<rparr>), d') \<and>
    event_ids d' = [''e1'', ''e2'']"
proof -
  let ?it = "sample_item ''e3'' ToolCall ''bob''"
  have "validateIngest (tx_codec sample_tx) ?it = []" by code_simp
  moreover have "owner_of sample_stored (session_of ?it) = Some ''ana''" by code_simp
  moreover have "''ana'' \<noteq> in_Email ?it" "\<forall>st. stmt_ok sample_tx st" by (simp_all add: sample_item_def sample_tx_def)
  ultimately obtain d' where "UpsertEvents sample_tx [?it, ?it] sample_stored = ((None, \<lparr>Inserted = [], Duplicate = [item_id_of ?it],
      Refused = [\<lparr>rf_ID = item_id_of ?it, rf_Reason = ''session belongs to another principal''\<rparr>], Sessions = []\<rparr>), d')"
    "t_events d' = t_events sample_stored"
    using UpsertEvents_duplicate_and_refused by blast
  moreover have "item_id_of ?it = ''e3''" by (simp add: sample_item_def)
  ultimately show ?thesis using sample_columns(3) by (auto simp: event_ids_def)
qed

section \<open>A stored event rewritten by another principal\<close>

lemma find_distinct_key: "distinct (map f xs) \<Longrightarrow> x \<in> set xs \<Longrightarrow> f x = k \<Longrightarrow> find (\<lambda>y. f y = k) xs = Some x"
proof (induction xs)
  case Nil
  then show ?case by simp
next
  case (Cons y ys)
  have "f y \<noteq> f x" if "x \<in> set ys" using Cons.prems(1) that by (metis distinct.simps(2) image_eqI list.simps(9) set_map)
  with Cons show ?case by (cases "y = x") auto
qed

lemma single_insert:
  assumes run: "insertEvents e [it] d = Inr ((inserted, held, up), d2)"
    and plain: "\<not> index_ready e \<or> IdentityOf (in_Event it) (keysFor (tx_codec e) it) = None"
    and x: "x \<in> set (t_events d)" "er_id x = item_id_of it" "distinct (event_ids d)"
    and newer: "er_version x < to_int32 (ev_CaptureVersion (in_Event it))" and body: "in_Body it \<noteq> []"
  shows "conflict_update (row_of (tx_codec e) it (item_id_of it) (in_Body it)) x \<in> set (t_events d2)"
proof -
  let ?r = "row_of (tx_codec e) it (item_id_of it) (in_Body it)"
  have "upgradeByIdentity e [it] d = Inr (([], []), d)" using plain by (auto simp: upgradeByIdentity_def Let_def)
  moreover have "event_rows e [it] = Inr [?r]" using body by (simp add: ingestBody_def)
  moreover have "find (\<lambda>y. er_id y = er_id ?r) (t_events d) = Some x"
    using x by (intro find_distinct_key) (auto simp: event_ids_def)
  moreover have "er_version ?r = to_int32 (ev_CaptureVersion (in_Event it))" by (simp add: row_of_def Let_def)
  ultimately have "t_events d2 = map (\<lambda>y. if er_id y = item_id_of it then conflict_update ?r y else y) (t_events d)"
    using run newer by (auto simp: insertEvents_def is_alias_def insert_stmt_def insert_row_def bindS_Inr)
  with x show ?thesis by force
qed

text \<open>
  A newer copy of an event replaces the stored body whoever sends it: the upgrade on an id that
  is already stored asks neither for the row's session nor for its owner. A principal who claims
  a session of their own and sends an event under another principal's event id with a higher
  capture version rewrites that principal's transcript, in a row that keeps the victim's name.
\<close>
theorem UpsertEvents_rewrites_foreign:
  assumes run: "UpsertEvents e [it] d = ((None, res), d')"
    and mine: "validateIngest (tx_codec e) it = []" "owner_of d (session_of it) = Some (in_Email it)"
    and plain: "\<not> index_ready e \<or> IdentityOf (in_Event it) (keysFor (tx_codec e) it) = None"
    and victim: "x \<in> set (t_events d)" "er_id x = item_id_of it" "distinct (event_ids d)"
    and newer: "er_version x < to_int32 (ev_CaptureVersion (in_Event it))" and body: "in_Body it \<noteq> []"
  shows "\<exists>x'\<in>set (t_events d'). er_id x' = er_id x \<and> er_email x' = er_email x \<and> er_session x' = er_session x \<and>
    er_body x' = in_Body it"
proof -
  have sc: "screened_batch e [it] = \<lparr>sc_kept = [it], sc_dups = [], sc_refused = []\<rparr>"
    using mine(1) by (simp add: screened_batch_def)
  then have "upsert_tx e (screened_batch e [it]) d = Inr (res, d')"
    using run by (auto simp: UpsertEvents_def Let_def screened_batch_def split: sum.splits)
  then show ?thesis
  proof (cases rule: upsert_tx_stages)
    case (1 ad d1)
    have g: "grown d d1" "ad_admitted ad = filter (own_item d1) [it]"
      using admit_spec [OF 1(1)] sc by (simp_all add: owners_ok_def)
    with 1(2) grown_owner [OF g(1) mine(2)] show ?thesis by (simp add: own_item_def)
  next
    case (2 ad d1 inserted held up d2 counted d3 sessions)
    have g: "grown d d1" "ad_admitted ad = filter (own_item d1) [it]"
      using admit_spec [OF 2(1)] sc by (simp_all add: owners_ok_def)
    then have adm: "ad_admitted ad = [it]" using grown_owner [OF g(1) mine(2)] by (simp add: own_item_def)
    have t: "t_events d1 = t_events d" using g(1) by (simp add: grown_def)
    have kept: "distinct (map item_id_of (sc_kept (screened_batch e [it])))" by (simp add: sc)
    obtain new where c: "committed e (ad_admitted ad) inserted (collapseByStoredID (ad_admitted ad) held) counted new d1 d3 d'"
      using committed_stages [OF 2(1) kept 2(2,3)] by blast
    have "t_events d' = t_events d3" using committed_quiet [OF c 2(4)] by (simp add: quiet_def sess_same_def)
    also have "t_events d3 = t_events d2" using 2(3) by (auto simp: creditUsage_def Let_def credit_stmt_def bindS_Inr split: if_splits)
    finally have "conflict_update (row_of (tx_codec e) it (item_id_of it) (in_Body it)) x \<in> set (t_events d')"
      using single_insert [OF 2(2) [unfolded adm] plain] victim newer body by (simp add: t event_ids_def)
    moreover have "er_body (row_of (tx_codec e) it i b) = b" for i b by (simp add: row_of_def Let_def)
    ultimately show ?thesis by (intro bexI) (auto simp: conflict_update_def merge_keys_def)
  qed
qed

definition foreign_item :: Ingest where
  "foreign_item = (sample_item ''e2'' AssistantTurn ''bob'')\<lparr>in_Event :=
     (in_Event (sample_item ''e2'' AssistantTurn ''bob''))\<lparr>ev_SessionID := ''s2'', ev_CaptureVersion := 2\<rparr>, in_Body := ''[]''\<rparr>"

definition shared_db :: db where
  "shared_db = sample_stored\<lparr>t_sessions := t_sessions sample_stored @ [claimed_row sample_tx ''s2'' ''bob'' ''dev'' SourceClaudeCode 7]\<rparr>"

lemma foreign_result: "fst (fst (UpsertEvents sample_tx [foreign_item] shared_db)) = None"
  by code_simp

theorem UpsertEvents_rewrites_foreign_witness:
  "\<exists>x'\<in>set (t_events (snd (UpsertEvents sample_tx [foreign_item] shared_db))).
     er_id x' = ''e2'' \<and> er_email x' = ''ana'' \<and> er_session x' = ''s1'' \<and> er_body x' = ''[]''"
proof -
  obtain res d' where run: "UpsertEvents sample_tx [foreign_item] shared_db = ((None, res), d')"
    using foreign_result by (metis prod.collapse)
  have "validateIngest (tx_codec sample_tx) foreign_item = []" by code_simp
  moreover have "owner_of shared_db (session_of foreign_item) = Some (in_Email foreign_item)" by code_simp
  moreover have "\<not> index_ready sample_tx" by (simp add: sample_tx_def)
  moreover have "distinct (event_ids shared_db)" by code_simp
  moreover have f: "in_Body foreign_item \<noteq> []" "item_id_of foreign_item = ''e2''" "in_Body foreign_item = ''[]''"
    "to_int32 (ev_CaptureVersion (in_Event foreign_item)) = 2"
    by (simp_all add: foreign_item_def sample_item_def to_int32_def)
  have "\<exists>x\<in>set (t_events shared_db). er_id x = ''e2'' \<and> er_email x = ''ana'' \<and> er_session x = ''s1'' \<and> er_version x = 1"
    by code_simp
  then obtain x where x: "x \<in> set (t_events shared_db)" "er_id x = ''e2''" "er_email x = ''ana''" "er_session x = ''s1''" "er_version x = 1"
    by blast
  ultimately show ?thesis
    using UpsertEvents_rewrites_foreign [OF run, of x] f by (auto simp: run)
qed

section \<open>Launcher evidence beside a late credit\<close>

text \<open>A copy of the stored assistant turn by a newer capture, with the usage the first copy lacked.\<close>

definition recaptured :: "Usage option \<Rightarrow> Ingest" where
  "recaptured u = (sample_item ''e4'' AssistantTurn ''ana'')\<lparr>in_Event :=
     (in_Event (sample_item ''e4'' AssistantTurn ''ana''))\<lparr>ev_Usage := u, ev_CaptureVersion := 2, ev_Entrypoint := ''sdk-cli''\<rparr>\<rparr>"

definition without_usage :: Ingest where
  "without_usage = (sample_item ''e4'' AssistantTurn ''ana'')\<lparr>in_Event :=
     (in_Event (sample_item ''e4'' AssistantTurn ''ana''))\<lparr>ev_Usage := None\<rparr>\<rparr>"

definition session_type_of :: "db \<Rightarrow> string \<Rightarrow> string option" where
  "session_type_of d sid = map_option sr_type (find_session d sid)"

definition after_both :: "Usage option \<Rightarrow> db" where
  "after_both u = snd (UpsertEvents sample_tx [recaptured u] (snd (UpsertEvents sample_tx [without_usage] empty_db)))"

text \<open>
  Launcher evidence on a stored event promotes its session to automation, unless the same copy
  also brings usage that had not been credited: then the increment made for the credit carries no
  evidence, the promotion of sessions without an increment skips it, and the session stays as it was.
\<close>
theorem UpsertEvents_late_credit_drops_evidence:
  "session_type_of (after_both None) ''s1'' = Some ''automation'' \<and>
   session_type_of (after_both (Some (zero_Usage\<lparr>InputTokens := 10, u_MessageID := ''m4''\<rparr>))) ''s1'' = Some ''user'' \<and>
   colval sr_input (after_both (Some (zero_Usage\<lparr>InputTokens := 10, u_MessageID := ''m4''\<rparr>))) ''s1'' = 10"
proof (intro conjI)
  show "session_type_of (after_both None) ''s1'' = Some ''automation''" by code_simp
  show "session_type_of (after_both (Some (zero_Usage\<lparr>InputTokens := 10, u_MessageID := ''m4''\<rparr>))) ''s1'' = Some ''user''"
    by code_simp
  show "colval sr_input (after_both (Some (zero_Usage\<lparr>InputTokens := 10, u_MessageID := ''m4''\<rparr>))) ''s1'' = 10"
    by code_simp
qed

end
