(* ===== verification/StoreAnswer.thy ===== *)
theory StoreAnswer
  imports StoreClaims
begin

text \<open>
  What the lists of an answer contain: the ids of the batch, none of them empty, and with no id
  twice in the batch nothing acknowledged that is also refused; stored ids stay stored.
\<close>

lemma screen_distinct:
  "distinct (map item_id_of its) \<Longrightarrow> item_id_of ` set its \<inter> (item_id_of ` set (sc_kept st) \<union> rf_ID ` set (sc_refused st)) = {} \<Longrightarrow>
   item_id_of ` set (sc_kept st) \<inter> rf_ID ` set (sc_refused st) = {} \<Longrightarrow>
   sc_dups (screen c its st) = sc_dups st \<and>
   item_id_of ` set (sc_kept (screen c its st)) \<inter> rf_ID ` set (sc_refused (screen c its st)) = {}"
proof (induction c its st rule: screen.induct)
  case (1 c st)
  then show ?case by simp
next
  case (2 c it its st)
  show ?case
  proof (cases "validateIngest c it = []")
    case True
    with 2(4,5,6) have new: "item_id_of it \<notin> item_id_of ` set (sc_kept st)" by simp
    have "distinct (map item_id_of its)" "item_id_of it \<notin> item_id_of ` set its" using 2(4) by simp_all
    with 2(3) [OF refl _ new] True 2(5,6) new show ?thesis by (simp add: Let_def)
  next
    case False
    have "distinct (map item_id_of its)" "item_id_of it \<notin> item_id_of ` set its" using 2(4) by simp_all
    with 2(1) [OF refl False] False 2(5,6) show ?thesis by (simp add: Let_def)
  qed
qed

lemma screened_distinct:
  assumes "distinct (map item_id_of items)"
  shows "sc_dups (screened_batch e items) = []"
    "item_id_of ` set (sc_kept (screened_batch e items)) \<inter> rf_ID ` set (sc_refused (screened_batch e items)) = {}"
  using screen_distinct [OF assms, of "\<lparr>sc_kept = [], sc_dups = [], sc_refused = []\<rparr>" "tx_codec e"]
  by (simp_all add: screened_batch_def)

lemma admit_refusals:
  assumes "admit e (sort_by lt kept) \<lparr>ad_owners = [], ad_admitted = [], ad_refused = rf\<rparr> d = Inr (ad, d1)"
    "distinct (map item_id_of kept)" "item_id_of ` set kept \<inter> rf_ID ` set rf = {}"
  shows "item_id_of ` set (ad_admitted ad) \<inter> rf_ID ` set (ad_refused ad) = {}"
proof -
  have A: "ad_admitted ad = filter (own_item d1) (sort_by lt kept)"
    "map rf_ID (ad_refused ad) = map rf_ID rf @ map item_id_of (filter (\<lambda>it. \<not> own_item d1 it) (sort_by lt kept))"
    using admit_spec [OF assms(1)] by (simp_all add: owners_ok_def)
  have R: "rf_ID ` set (ad_refused ad) = rf_ID ` set rf \<union> item_id_of ` {it \<in> set kept. \<not> own_item d1 it}"
    using arg_cong [OF A(2), of set] by (simp add: image_Un)
  have "item_id_of x = item_id_of y \<Longrightarrow> x \<in> set kept \<Longrightarrow> y \<in> set kept \<Longrightarrow> x = y" for x y
    using assms(2) by (simp add: distinct_map inj_on_def)
  with assms(3) show ?thesis unfolding R A(1) by (auto simp: disjoint_iff)
qed

lemma UpsertEvents_runs:
  assumes "UpsertEvents e items d = ((None, res), d')"
  obtains
    (empty) "sc_kept (screened_batch e items) = []" "d' = d" "Inserted res = []" "Duplicate res = sc_dups (screened_batch e items)"
      "Refused res = sc_refused (screened_batch e items)"
  | (admitted) ad d1 where
      "admit e (sort_by (\<lambda>a b. session_of a < session_of b) (sc_kept (screened_batch e items)))
         \<lparr>ad_owners = [], ad_admitted = [], ad_refused = sc_refused (screened_batch e items)\<rparr> d = Inr (ad, d1)"
      "set (Inserted res) \<union> set (Duplicate res) = set (sc_dups (screened_batch e items)) \<union> item_id_of ` set (ad_admitted ad)"
      "Refused res = ad_refused ad"
proof (cases "sc_kept (screened_batch e items) = []")
  case True
  with assms empty show thesis by (auto simp: UpsertEvents_def Let_def screened_batch_def)
next
  case False
  with assms have "upsert_tx e (screened_batch e items) d = Inr (res, d')"
    by (auto simp: UpsertEvents_def Let_def screened_batch_def split: sum.splits)
  then show thesis
  proof (cases rule: upsert_tx_stages)
    case (1 ad d1)
    with admitted [of ad d1] show thesis by simp
  next
    case (2 ad d1 inserted held up d2 counted d3 sessions)
    have "set (Inserted res) \<union> set (Duplicate res) = set (sc_dups (screened_batch e items)) \<union> item_id_of ` set (ad_admitted ad)"
      unfolding 2(5) by auto
    with 2 admitted [of ad d1] show thesis by simp
  qed
qed

lemma acknowledged_from:
  assumes "UpsertEvents e items d = ((None, res), d')"
  shows "set (Inserted res) \<union> set (Duplicate res) \<subseteq> item_id_of ` set items" "[] \<notin> set (Inserted res) \<union> set (Duplicate res)"
proof -
  note S = screened_batch_spec [where e = e and items = items]
  have "\<forall>it\<in>set (sc_kept (screened_batch e items)). valid_item (tx_codec e) it"
    using screened [of e items] by (simp add: kept_ok_def screened_batch_def)
  then have ne: "[] \<notin> item_id_of ` set (sc_kept (screened_batch e items))"
    by (fastforce simp: valid_item_def validateIngest_def Let_def)
  have sub: "set (Inserted res) \<union> set (Duplicate res) \<subseteq> item_id_of ` set (sc_kept (screened_batch e items))"
    using assms
  proof (cases rule: UpsertEvents_runs)
    case empty
    with S(1) show ?thesis by simp
  next
    case (admitted ad d1)
    have "item_id_of ` set (ad_admitted ad) \<subseteq> item_id_of ` set (sc_kept (screened_batch e items))"
      using admit_answers(3) [OF admitted(1)] by (rule image_mono)
    with admitted(2) S(1) show ?thesis by simp
  qed
  with ne show "[] \<notin> set (Inserted res) \<union> set (Duplicate res)" by blast
  from sub image_mono [OF S(3)] show "set (Inserted res) \<union> set (Duplicate res) \<subseteq> item_id_of ` set items" by (rule order_trans)
qed

lemma acknowledged_not_refused:
  assumes "UpsertEvents e items d = ((None, res), d')" "distinct (map item_id_of items)"
  shows "(set (Inserted res) \<union> set (Duplicate res)) \<inter> rf_ID ` set (Refused res) = {}"
  using assms(1)
proof (cases rule: UpsertEvents_runs)
  case empty
  with screened_distinct [OF assms(2)] show ?thesis by simp
next
  case (admitted ad d1)
  with screened_distinct [OF assms(2)] admit_refusals [OF admitted(1) screened_batch_spec(4)] show ?thesis by simp
qed

lemma UpsertEvents_failed: "UpsertEvents e items d = ((Some st, res), d') \<Longrightarrow> d' = d"
  by (auto simp: UpsertEvents_def Let_def split: if_splits sum.splits)

lemma UpsertEvents_keeps_ids:
  assumes "UpsertEvents e items d = ((err, res), d')"
  shows "set (event_ids d) \<subseteq> set (event_ids d')"
  using assms
proof (cases rule: UpsertEvents_stages)
  case same
  then show ?thesis by simp
next
  case claimed
  then show ?thesis by (simp add: grown_def event_ids_def)
next
  case (batch d1 d3 admitted inserted stored counted new up sessions)
  have "event_ids d1 = event_ids d" using batch(1) by (simp add: grown_def event_ids_def)
  with batch_tables(5) [OF batch(2,3)] show ?thesis by auto
qed

end
