(* ===== verification/IngestProps.thy ===== *)
theory IngestProps
  imports IngestAdapter StoreAnswer
begin

text \<open>
  The answer the upload endpoint gives: which items it lists and in what order, and, over the
  contract of its store port, that an item is listed as accepted only when its event is kept and
  that a request that is not answered leaves the store alone. The contract is a locale; the
  adapter on \<open>UpsertEvents\<close> is its interpretation.
\<close>

section \<open>The lists of an answer\<close>

definition verdict_accepted :: "Result \<Rightarrow> verdict \<Rightarrow> bool" where
  "verdict_accepted res v \<longleftrightarrow> v_reason v = [] \<and> v_eventID v \<in> stored_ids res"

definition verdict_reason :: "Result \<Rightarrow> verdict \<Rightarrow> string option" where
  "verdict_reason res v =
     (if v_reason v \<noteq> [] then Some (v_reason v)
      else if v_eventID v \<in> stored_ids res then None
      else refused_reason res (v_eventID v))"

definition rejects_of :: "Result \<Rightarrow> verdict list \<Rightarrow> WireReject list" where
  "rejects_of res vs = List.map_filter (\<lambda>v. map_option (\<lambda>x. \<lparr>wj_ID = v_itemID v, wj_Reason = x\<rparr>) (verdict_reason res v)) vs"

lemma map_filter_Cons: "List.map_filter f (x # xs) = (case f x of None \<Rightarrow> List.map_filter f xs | Some y \<Rightarrow> y # List.map_filter f xs)"
  by (simp add: List.map_filter_def split: option.split)

lemma refused_reason_None: "refused_reason res i = None \<longleftrightarrow> i \<notin> rx_ID ` set (rs_Rejected res)"
  by (simp add: refused_reason_def map_of_eq_None_iff image_image)

lemma respondLoop_wire:
  "fst (respondLoop res vs cl (w, bo)) = w\<lparr>wr_Accepted := wr_Accepted w @ map v_itemID (filter (verdict_accepted res) vs),
     wr_Rejected := wr_Rejected w @ rejects_of res vs\<rparr>"
proof (induction res vs cl "(w, bo)" arbitrary: w bo rule: respondLoop.induct)
  case (1 res cl)
  then show ?case by (simp add: rejects_of_def List.map_filter_def)
next
  case (2 res v vs cl w bo)
  then show ?case
    by (simp add: rejects_of_def map_filter_Cons verdict_accepted_def verdict_reason_def Let_def split: option.split)
qed

lemma respond_wire: "fst (respond vs res) = \<lparr>wr_Accepted = map v_itemID (filter (verdict_accepted res) vs),
   wr_Rejected = rejects_of res vs, wr_RetryAfterMS = 0\<rparr>"
  by (simp add: respond_def respondLoop_wire)

lemma refused_reason_Some: "i \<in> rx_ID ` set (rs_Rejected res) \<Longrightarrow> refused_reason res i \<noteq> None"
  by (simp add: refused_reason_None)

text \<open>The counts: each inserted id once.\<close>

definition accepted_events :: "Result \<Rightarrow> verdict list \<Rightarrow> string set" where
  "accepted_events res vs = set (rs_Inserted res) \<inter> v_eventID ` {v \<in> set vs. verdict_accepted res v}"

lemma accepted_events_Cons:
  "accepted_events res (v # vs) =
     (if verdict_accepted res v \<and> v_eventID v \<in> set (rs_Inserted res) then insert (v_eventID v) (accepted_events res vs)
      else accepted_events res vs)"
  by (auto simp: accepted_events_def)

lemma finite_accepted_events [simp]: "finite (accepted_events res vs)"
  by (simp add: accepted_events_def)

lemma respondLoop_counts:
  "snd (respondLoop res vs cl (w, bo)) = bo\<lparr>
     bo_accepted := bo_accepted bo + int (card (accepted_events res vs - set cl)),
     bo_duplicate := bo_duplicate bo + int (length (filter (verdict_accepted res) vs)) - int (card (accepted_events res vs - set cl)),
     bo_rejected := bo_rejected bo + int (length (rejects_of res vs)),
     bo_undecided := bo_undecided bo + int (length vs) - int (length (filter (verdict_accepted res) vs)) - int (length (rejects_of res vs))\<rparr>"
proof (induction res vs cl "(w, bo)" arbitrary: w bo rule: respondLoop.induct)
  case (1 res cl)
  then show ?case by (simp add: rejects_of_def List.map_filter_def accepted_events_def)
next
  case (2 res v vs cl w bo)
  consider (reason) "v_reason v \<noteq> []" | (new) "v_reason v = []" "v_eventID v \<in> set (rs_Inserted res)" "v_eventID v \<notin> set cl"
    | (dup) "v_reason v = []" "v_eventID v \<in> stored_ids res" "\<not> (v_eventID v \<in> set (rs_Inserted res) \<and> v_eventID v \<notin> set cl)"
    | (refused) "v_reason v = []" "v_eventID v \<notin> stored_ids res" by (auto simp: stored_ids_def)
  then show ?case
  proof cases
    case reason
    then show ?thesis
      by (simp add: 2(1) rejects_of_def map_filter_Cons verdict_accepted_def verdict_reason_def accepted_events_Cons)
  next
    case new
    then have st: "v_eventID v \<in> stored_ids res" by (simp add: stored_ids_def)
    have "insert (v_eventID v) (accepted_events res vs) - set cl = insert (v_eventID v) (accepted_events res vs - set (v_eventID v # cl))"
      using new(3) by auto
    then have card: "card (insert (v_eventID v) (accepted_events res vs) - set cl) = Suc (card (accepted_events res vs - insert (v_eventID v) (set cl)))"
      by (simp add: card_insert_if)
    show ?thesis using new st
      by (simp add: 2 Let_def rejects_of_def map_filter_Cons verdict_accepted_def verdict_reason_def accepted_events_Cons card)
  next
    case dup
    have "(if v_eventID v \<in> set (rs_Inserted res) then insert (v_eventID v) (accepted_events res vs) else accepted_events res vs) - set cl
        = accepted_events res vs - set cl" using dup(3) by auto
    then show ?thesis using dup
      by (auto simp: 2 Let_def rejects_of_def map_filter_Cons verdict_accepted_def verdict_reason_def accepted_events_Cons)
  next
    case refused
    then show ?thesis
      by (simp add: 2 rejects_of_def map_filter_Cons verdict_accepted_def verdict_reason_def accepted_events_Cons split: option.split)
  qed
qed

section \<open>What becomes of an item\<close>

abbreviation record_id :: "Record \<Rightarrow> string" where "record_id r \<equiv> ev_ID (rd_Event r)"

lemma prepare_item_id [simp]: "v_itemID (fst (prepare_item e h ca over it)) = item_id it"
  by (auto simp: prepare_item_def Let_def split: prod.splits sum.splits)

lemma prepare_item_over [simp]: "prepare_item e h ca True it =
    (\<lparr>v_itemID = item_id it, v_eventID = [], v_reason = ReasonBatchTooBig, v_eventType = no_type\<rparr>, None)"
  by (simp add: prepare_item_def)

lemma prepare_item_record:
  "snd (prepare_item e h ca over it) = Some r \<Longrightarrow> v_eventID (fst (prepare_item e h ca over it)) = record_id r \<and>
    v_reason (fst (prepare_item e h ca over it)) = [] \<and> rd_Email r = ca_Email ca \<and> rd_DeviceID r = ca_DeviceID ca"
  by (auto simp: prepare_item_def split: prod.splits sum.splits if_splits)

lemma reasons_nonempty [simp]: "ReasonNoID \<noteq> []" "ReasonNoSessionID \<noteq> []" "ReasonBadPayload \<noteq> []" "ReasonInvalid \<noteq> []"
  "ReasonBatchTooBig \<noteq> []"
  by (simp_all add: ReasonNoID_def ReasonNoSessionID_def ReasonBadPayload_def ReasonInvalid_def ReasonBatchTooBig_def)

lemma prepare_item_event:
  "v_reason (fst (prepare_item e h ca over it)) = [] \<Longrightarrow> v_eventID (fst (prepare_item e h ca over it)) \<noteq> [] \<Longrightarrow>
   \<exists>r. snd (prepare_item e h ca over it) = Some r"
  by (auto simp: prepare_item_def split: prod.splits sum.splits if_splits)

lemma set_map_filter_iff: "y \<in> set (List.map_filter f xs) \<longleftrightarrow> (\<exists>x\<in>set xs. f x = Some y)"
  by (induction xs) (auto simp: map_filter_Cons List.map_filter_def [of f "[]"] split: option.splits)

definition item_verdicts :: "'s ingest_env \<Rightarrow> Handler \<Rightarrow> Caller \<Rightarrow> bool \<Rightarrow> item list \<Rightarrow> verdict list" where
  "item_verdicts e h ca over its = fst (prepare e h ca its over)"

definition item_records :: "'s ingest_env \<Rightarrow> Handler \<Rightarrow> Caller \<Rightarrow> bool \<Rightarrow> item list \<Rightarrow> Record list" where
  "item_records e h ca over its = snd (prepare e h ca its over)"

lemma item_records_over [simp]: "item_records e h ca True its = []"
  by (induction its) (simp_all add: item_records_def prepare_def map_filter_Cons List.map_filter_def [of _ "[]"])

lemma item_records_iff: "r \<in> set (item_records e h ca over its) \<longleftrightarrow> (\<exists>it\<in>set its. snd (prepare_item e h ca over it) = Some r)"
  by (simp add: item_records_def prepare_def set_map_filter_iff)

section \<open>The runs of the endpoint\<close>

lemma handleEvents_runs:
  assumes "handleEvents e h v r d = (rp, d')"
  obtains
    (caller) "identify e h r = Inl rp" "d' = d"
  | (unreadable) ca err where "identify e h r = Inr ca" "decodeBatch (ie_wire e) h (rq_Body r) = Inl err" "d' = d"
      "rp = writeBodyFailure (ie_wire e) err"
  | (failed) ca its n over where "identify e h r = Inr ca" "decodeBatch (ie_wire e) h (rq_Body r) = Inr (its, n, over)"
      "ie_upsert e v (item_records e h ca over its) d = (None, d')" "rp = writeUnavailable (ie_wire e) h"
  | (answered) ca its n over res where "identify e h r = Inr ca" "decodeBatch (ie_wire e) h (rq_Body r) = Inr (its, n, over)"
      "item_records e h ca over its = [] \<and> res = zero_Result \<and> d' = d \<or>
       ie_upsert e v (item_records e h ca over its) d = (Some res, d')"
      "rp = writeJSON 200 [] (enc_wire (ie_wire e) (fst (respond (item_verdicts e h ca over its) res)))"
proof (cases "identify e h r")
  case (Inl x)
  with assms caller show thesis by (simp add: handleEvents_def)
next
  case ca: (Inr ca)
  show thesis
  proof (cases "decodeBatch (ie_wire e) h (rq_Body r)")
    case (Inl err)
    with assms ca unreadable show thesis by (simp add: handleEvents_def)
  next
    case (Inr dec)
    obtain its n over where dec: "dec = (its, n, over)" by (metis prod_cases3)
    have p: "prepare e h ca its over = (item_verdicts e h ca over its, item_records e h ca over its)"
      by (simp add: item_verdicts_def item_records_def)
    let ?run = "if item_records e h ca over its = [] then (Some zero_Result, d) else ie_upsert e v (item_records e h ca over its) d"
    obtain ro d1 where run: "?run = (ro, d1)" by (meson surj_pair)
    note step = assms [unfolded handleEvents_def ca sum.case Inr dec prod.case p run]
    show thesis
    proof (cases ro)
      case None
      with run step ca Inr dec failed [of ca its n over] show thesis by (auto split: if_splits)
    next
      case (Some res)
      with run step ca Inr dec answered [of ca its n over res] show thesis by (auto split: if_splits)
    qed
  qed
qed

section \<open>The store port\<close>

locale event_store =
  fixes upsert :: "string \<Rightarrow> Record list \<Rightarrow> 's \<Rightarrow> Result option \<times> 's"
    and kept :: "'s \<Rightarrow> 's \<Rightarrow> Record \<Rightarrow> bool"
  assumes failure: "upsert v rs d = (None, d') \<Longrightarrow> d' = d"
    and complete: "upsert v rs d = (Some res, d') \<Longrightarrow> record_id ` set rs \<subseteq> stored_ids res \<union> rx_ID ` set (rs_Rejected res)"
    and truthful: "upsert v rs d = (Some res, d') \<Longrightarrow> i \<in> stored_ids res \<Longrightarrow> i \<notin> rx_ID ` set (rs_Rejected res) \<Longrightarrow>
      \<exists>r\<in>set rs. record_id r = i \<and> kept d d' r"
    and exclusive: "upsert v rs d = (Some res, d') \<Longrightarrow> distinct (map record_id rs) \<Longrightarrow>
      stored_ids res \<inter> rx_ID ` set (rs_Rejected res) = {}"
    and named: "upsert v rs d = (Some res, d') \<Longrightarrow> [] \<notin> stored_ids res"
begin

lemma accepted_record:
  assumes "ie_upsert e v (item_records e h ca over its) d = (Some res, d')" "ie_upsert e = upsert"
    "i \<in> set (wr_Accepted (fst (respond (item_verdicts e h ca over its) res)))"
  obtains it r where "it \<in> set its" "item_id it = i" "snd (prepare_item e h ca over it) = Some r" "record_id r \<in> stored_ids res"
proof -
  obtain it where it: "it \<in> set its" "item_id it = i" "verdict_accepted res (fst (prepare_item e h ca over it))"
    using assms(3) by (auto simp: respond_wire item_verdicts_def prepare_def)
  let ?v = "fst (prepare_item e h ca over it)"
  have v: "v_reason ?v = []" "v_eventID ?v \<in> stored_ids res" using it(3) by (simp_all add: verdict_accepted_def)
  with named [OF assms(1) [unfolded assms(2)]] have "v_eventID ?v \<noteq> []" by metis
  with prepare_item_event v(1) obtain r where r: "snd (prepare_item e h ca over it) = Some r" by blast
  with prepare_item_record v(2) it(1,2) that show thesis by metis
qed

lemma accepted_kept:
  assumes "ie_upsert e v (item_records e h ca over its) d = (Some res, d')" "ie_upsert e = upsert"
    "distinct (map record_id (item_records e h ca over its))"
    "it \<in> set its" "snd (prepare_item e h ca over it) = Some r" "record_id r \<in> stored_ids res"
  shows "kept d d' r"
proof -
  note run = assms(1) [unfolded assms(2)]
  have "record_id r \<notin> rx_ID ` set (rs_Rejected res)" using exclusive [OF run assms(3)] assms(6) by blast
  with truthful [OF run assms(6)] obtain r' where r': "r' \<in> set (item_records e h ca over its)" "record_id r' = record_id r" "kept d d' r'"
    by blast
  have "r \<in> set (item_records e h ca over its)" using assms(4,5) by (auto simp: item_records_iff)
  with r' assms(3) have "r' = r" by (auto simp: distinct_map inj_on_def)
  with r'(3) show ?thesis by simp
qed

lemma record_answered:
  assumes "ie_upsert e v (item_records e h ca over its) d = (Some res, d')" "ie_upsert e = upsert"
    "it \<in> set its" "snd (prepare_item e h ca over it) = Some r"
  shows "verdict_accepted res (fst (prepare_item e h ca over it)) \<or> verdict_reason res (fst (prepare_item e h ca over it)) \<noteq> None"
proof -
  note v = prepare_item_record [OF assms(4)]
  have "r \<in> set (item_records e h ca over its)" using assms(3,4) by (auto simp: item_records_iff)
  then have "record_id r \<in> stored_ids res \<union> rx_ID ` set (rs_Rejected res)"
    using complete [OF assms(1) [unfolded assms(2)]] by blast
  with v refused_reason_Some [of "record_id r" res] show ?thesis by (auto simp: verdict_accepted_def verdict_reason_def)
qed

lemma unanswered_untouched:
  assumes "handleEvents e h v r d = (rp, d')" "ie_upsert e = upsert" "\<And>w. enc_wire (ie_wire e) w \<noteq> None" "rp_Status rp \<noteq> 200"
  shows "d' = d"
  using assms(1)
proof (cases rule: handleEvents_runs)
  case (failed ca its n over)
  then show ?thesis using failure assms(2) by metis
next
  case (answered ca its n over res)
  moreover obtain b where "enc_wire (ie_wire e) (fst (respond (item_verdicts e h ca over its) res)) = Some b"
    using assms(3) by blast
  ultimately show ?thesis using assms(4) by (simp add: writeJSON_def)
qed simp_all

end

text \<open>The database under the adapter keeps the contract.\<close>

definition kept_record :: "tx_env \<Rightarrow> db \<Rightarrow> db \<Rightarrow> Record \<Rightarrow> bool" where
  "kept_record e d d' r \<longleftrightarrow> record_id r \<in> set (event_ids d') \<or> matched_rows (tx_codec e) d (to_ingest [] r) \<noteq> []"

lemma to_ingest_ids [simp]: "item_id_of (to_ingest v r) = record_id r" "in_Event (to_ingest v r) = rd_Event r"
  by (simp_all add: to_ingest_def)

lemma to_ingest_matched: "matched_rows c d (to_ingest v r) = matched_rows c d (to_ingest w r)"
  by (simp add: matched_rows_def keysFor_def)

interpretation database: event_store "ingest_store e" "kept_record e"
proof unfold_locales
  fix v rs d d'
  assume "ingest_store e v rs d = (None, d')"
  then show "d' = d"
    using UpsertEvents_failed by (fastforce simp: ingest_store_def ingestVerdict_def split: prod.splits option.splits)
next
  fix v rs d res d'
  assume "ingest_store e v rs d = (Some res, d')"
  then obtain ur where ur: "UpsertEvents e (map (to_ingest v) rs) d = ((None, ur), d')"
    "rs_Inserted res = Inserted ur" "rs_Duplicate res = Duplicate ur" "rx_ID ` set (rs_Rejected res) = rf_ID ` set (Refused ur)"
    by (auto simp: ingest_store_def ingestVerdict_def image_image split: prod.splits option.splits)
  have ids: "item_id_of ` set (map (to_ingest v) rs) = record_id ` set rs" "map item_id_of (map (to_ingest v) rs) = map record_id rs"
    by (simp_all add: image_image comp_def)
  have st: "stored_ids res = set (Inserted ur) \<union> set (Duplicate ur)" by (simp add: stored_ids_def ur)
  note A = acknowledged_stored [OF ur(1), unfolded ids] and F = acknowledged_from [OF ur(1), unfolded ids]
  show "record_id ` set rs \<subseteq> stored_ids res \<union> rx_ID ` set (rs_Rejected res)" using A by (simp add: st ur(4))
  show "[] \<notin> stored_ids res" using F(2) by (simp add: st)
  show "stored_ids res \<inter> rx_ID ` set (rs_Rejected res) = {}" if "distinct (map record_id rs)"
    using acknowledged_not_refused [OF ur(1), unfolded ids] that by (simp add: st ur(4))
  fix i assume i: "i \<in> stored_ids res" "i \<notin> rx_ID ` set (rs_Rejected res)"
  with A have "i \<in> set (event_ids d') \<or> (\<exists>it\<in>set (map (to_ingest v) rs). item_id_of it = i \<and> matched_rows (tx_codec e) d it \<noteq> [])"
    by (simp add: st ur(4))
  moreover obtain r where r: "r \<in> set rs" "record_id r = i" using i(1) F(1) by (auto simp: st)
  ultimately show "\<exists>r\<in>set rs. record_id r = i \<and> kept_record e d d' r"
    using to_ingest_matched [of "tx_codec e" d v _ "[]"] by (fastforce simp: kept_record_def)
qed

end
