(* ===== verification/IngestClaims.thy ===== *)
theory IngestClaims
  imports IngestProps
begin

text \<open>
  What a client can rely on when the upload endpoint answers, in terms of the reply it reads.
\<close>

text \<open>Reading a verdict back gives the verdict that was written, and a part of it gives none.\<close>

definition wire_faithful :: "wire_codec \<Rightarrow> bool" where
  "wire_faithful c \<longleftrightarrow>
     (\<forall>w b k. enc_wire c w = Some b \<longrightarrow> dec_wire c (take k b) = (if length b \<le> k then Some w else None))"

lemma wire_faithful_whole: "wire_faithful c \<Longrightarrow> enc_wire c w = Some b \<Longrightarrow> dec_wire c b = Some w"
  unfolding wire_faithful_def by (metis order_refl take_all)

section \<open>A sample request\<close>

definition sample_event_item :: item where
  "sample_event_item = \<lparr>item_id = ''e1'', kind = ''event'', session_id = ''s1'', seq = 1, event_time = 7, attempts = 0, undecided = 0,
     payload = ''{}''\<rparr>"

definition sample_wire :: Wire where
  "sample_wire = \<lparr>wr_Accepted = [''e1''], wr_Rejected = [], wr_RetryAfterMS = 0\<rparr>"

definition sample_wire_codec :: wire_codec where
  "sample_wire_codec = \<lparr>enc_items = (\<lambda>its. Some ''[]''), dec_items = (\<lambda>b. Decoded [sample_event_item] (length b)),
     enc_wire = (\<lambda>w. if w = sample_wire then Some ''ok'' else None), enc_error = (\<lambda>c t. Some c),
     dec_wire = (\<lambda>b. if b = ''ok'' then Some sample_wire else None)\<rparr>"

lemma take_eq_same: "take k b = b \<longleftrightarrow> length b \<le> k"
  by (metis nat_le_linear take_all take_all_iff)

lemma sample_wire_faithful: "wire_faithful sample_wire_codec"
  using take_eq_same [of _ "''ok''"] by (auto simp: wire_faithful_def sample_wire_codec_def)

definition sample_ingest_env :: "db ingest_env" where
  "sample_ingest_env = \<lparr>ie_verify = (\<lambda>t. if t = ''tok'' then Inr \<lparr>ca_Email = '' Ana'', ca_DeviceID = ''dev''\<rparr> else Inl Unauthenticated),
     ie_upsert = ingest_store sample_tx,
     ie_codec = sample_codec\<lparr>dec_event := (\<lambda>s. Some (in_Event (sample_item ''e1'' UserPrompt ''ana''))), dec_number := (\<lambda>s. Some JNull)\<rparr>,
     ie_wire = sample_wire_codec, ie_scrub = (\<lambda>s. (s, []))\<rparr>"

definition sample_handler :: Handler where
  "sample_handler = \<lparr>h_maxBatchBytes = 100, h_hardBodyLimit = 800, h_maxHealthBytes = 100, h_repo = RepoFromCwd, h_retryAfter = 0\<rparr>"

definition sample_request :: "string \<Rightarrow> string \<Rightarrow> Request" where
  "sample_request auth body = \<lparr>rq_Authorization = auth, rq_UserAgent = ''loop-sessions/abc linux'', rq_Body = body\<rparr>"

definition sample_answered :: db where
  "sample_answered = snd (handleEvents sample_ingest_env sample_handler ''abc'' (sample_request ''Bearer tok'' ''[]'') empty_db)"

lemma sample_reply: "fst (handleEvents sample_ingest_env sample_handler ''abc'' (sample_request ''Bearer tok'' ''[]'') empty_db) =
    \<lparr>rp_Status = 200, rp_RetryAfter = [], rp_Body = ''ok''\<rparr>"
  by code_simp

section \<open>An accepted item is kept\<close>

lemma identify_status: "identify e h r = Inl rp \<Longrightarrow> rp_Status rp \<noteq> 200"
  by (auto simp: identify_def writeError_def writeUnavailable_def writeJSON_def Let_def
      split: if_splits sum.splits verify_error.splits option.splits)

lemma failure_status [simp]: "rp_Status (writeBodyFailure c err) \<noteq> 200" "rp_Status (writeUnavailable c h) \<noteq> 200"
  by (auto simp: writeBodyFailure_def writeError_def writeUnavailable_def writeJSON_def split: body_error.splits option.splits)

lemma stored_ids_zero [simp]: "stored_ids zero_Result = {}"
  by (simp add: stored_ids_def zero_Result_def)

lemma answered_reply:
  assumes "handleEvents e h v r d = (rp, d')" "rp_Status rp = 200" "wire_faithful (ie_wire e)" "dec_wire (ie_wire e) (rp_Body rp) = Some w"
  obtains ca its n over res where "identify e h r = Inr ca" "decodeBatch (ie_wire e) h (rq_Body r) = Inr (its, n, over)"
    "item_records e h ca over its = [] \<and> res = zero_Result \<and> d' = d \<or> ie_upsert e v (item_records e h ca over its) d = (Some res, d')"
    "w = fst (respond (item_verdicts e h ca over its) res)"
  using assms(1)
proof (cases rule: handleEvents_runs)
  case caller
  with identify_status assms(2) show thesis by blast
next
  case (unreadable ca err)
  with assms(2) show thesis by simp
next
  case (failed ca its n over)
  with assms(2) show thesis by simp
next
  case (answered ca its n over res)
  then obtain b where b: "enc_wire (ie_wire e) (fst (respond (item_verdicts e h ca over its) res)) = Some b" "rp_Body rp = b"
    using assms(2) by (auto simp: writeJSON_def split: option.splits)
  with assms(4) wire_faithful_whole [OF assms(3)] have "w = fst (respond (item_verdicts e h ca over its) res)" by simp
  with answered that show thesis by blast
qed

lemma over_cap_unrecorded: "it \<in> set its \<Longrightarrow> snd (prepare_item e h ca over it) = Some r \<Longrightarrow> \<not> over"
  by (cases over) simp_all

lemma accepted_item:
  assumes "handleEvents h_env h v r d = (rp, d')" "ie_upsert h_env = ingest_store e" "wire_faithful (ie_wire h_env)"
    "rp_Status rp = 200" "dec_wire (ie_wire h_env) (rp_Body rp) = Some w" "i \<in> set (wr_Accepted w)"
  shows "\<exists>ca its n. identify h_env h r = Inr ca \<and> decodeBatch (ie_wire h_env) h (rq_Body r) = Inr (its, n, False) \<and>
    (\<exists>it\<in>set its. \<exists>x. item_id it = i \<and> snd (prepare_item h_env h ca False it) = Some x \<and> rd_Email x = ca_Email ca \<and>
      (kept_record e d d' x \<or> \<not> distinct (map record_id (item_records h_env h ca False its))))"
  using assms(1,4,3,5)
proof (cases rule: answered_reply)
  case (1 ca its n over res)
  have w: "i \<in> set (wr_Accepted (fst (respond (item_verdicts h_env h ca over its) res)))" using assms(6) 1(4) by simp
  have "stored_ids res \<noteq> {}" using w by (auto simp: respond_wire verdict_accepted_def)
  with 1(3) have run: "ie_upsert h_env v (item_records h_env h ca over its) d = (Some res, d')" by auto
  obtain it x where it: "it \<in> set its" "item_id it = i" "snd (prepare_item h_env h ca over it) = Some x" "record_id x \<in> stored_ids res"
    using database.accepted_record [OF run assms(2) w] by metis
  have over: "over = False" using over_cap_unrecorded [OF it(1,3)] by simp
  have "kept_record e d d' x" if "distinct (map record_id (item_records h_env h ca over its))"
    using database.accepted_kept [OF run assms(2) that it(1,3,4)] .
  moreover have "rd_Email x = ca_Email ca" using prepare_item_record [OF it(3)] by simp
  ultimately show ?thesis using 1(1,2) it(1-3) unfolding over by blast
qed



section \<open>A request that is not answered\<close>

text \<open>
  A request that is not answered with a verdict leaves the store alone and accepts nothing:
  any status but 200 means an unchanged database; and a batch over the advertised cap is answered
  with every item of it rejected for its size, in order, and an unchanged database.
\<close>
theorem handleEvents_unanswered:
  assumes "handleEvents h_env h v r d = (rp, d')" "ie_upsert h_env = ingest_store e" "\<forall>w. enc_wire (ie_wire h_env) w \<noteq> None"
  shows "(rp_Status rp \<noteq> 200 \<longrightarrow> d' = d) \<and>
    (\<forall>ca its n. identify h_env h r = Inr ca \<longrightarrow> decodeBatch (ie_wire h_env) h (rq_Body r) = Inr (its, n, True) \<longrightarrow>
      d' = d \<and> rp = writeJSON 200 [] (enc_wire (ie_wire h_env) \<lparr>wr_Accepted = [],
        wr_Rejected = map (\<lambda>it. \<lparr>wj_ID = item_id it, wj_Reason = ReasonBatchTooBig\<rparr>) its, wr_RetryAfterMS = 0\<rparr>))"
proof (intro conjI allI impI)
  show "d' = d" if "rp_Status rp \<noteq> 200" using database.unanswered_untouched [OF assms(1,2) _ that] assms(3) by blast
next
  fix ca its n
  assume ca: "identify h_env h r = Inr ca" "decodeBatch (ie_wire h_env) h (rq_Body r) = Inr (its, n, True)"
  have p: "prepare h_env h ca its True = (item_verdicts h_env h ca True its, [])"
    using item_records_over [of h_env h ca its] by (simp add: item_verdicts_def item_records_def prod_eq_iff)
  have run: "(rp, d') = (writeJSON 200 [] (enc_wire (ie_wire h_env) (fst (respond (item_verdicts h_env h ca True its) zero_Result))), d)"
    using assms(1) by (simp add: handleEvents_def ca p)
  then show "d' = d" by simp
  have "verdict_reason zero_Result (fst (prepare_item h_env h ca True it)) = Some ReasonBatchTooBig" for it
    by (simp add: verdict_reason_def)
  then have "rejects_of zero_Result (item_verdicts h_env h ca True its) = map (\<lambda>it. \<lparr>wj_ID = item_id it, wj_Reason = ReasonBatchTooBig\<rparr>) its"
    by (induction its) (simp_all add: rejects_of_def item_verdicts_def prepare_def map_filter_Cons List.map_filter_def [of _ "[]"])
  with run show "rp = writeJSON 200 [] (enc_wire (ie_wire h_env) \<lparr>wr_Accepted = [],
      wr_Rejected = map (\<lambda>it. \<lparr>wj_ID = item_id it, wj_Reason = ReasonBatchTooBig\<rparr>) its, wr_RetryAfterMS = 0\<rparr>)"
    by (simp add: respond_wire verdict_accepted_def item_verdicts_def prepare_def comp_def filter_empty_conv)
qed

definition terse_env :: "db ingest_env" where
  "terse_env = sample_ingest_env\<lparr>ie_wire := sample_wire_codec\<lparr>enc_wire := \<lambda>w. Some ''ok''\<rparr>\<rparr>"

theorem handleEvents_unanswered_witness:
  "snd (handleEvents terse_env sample_handler ''abc'' (sample_request ''Basic tok'' ''[]'') sample_stored) = sample_stored"
proof -
  let ?run = "handleEvents terse_env sample_handler ''abc'' (sample_request ''Basic tok'' ''[]'') sample_stored"
  have st: "fst ?run = writeError (ie_wire terse_env) 401 ''unauthenticated'' ''device token required''"
    by (simp add: handleEvents_def identify_def bearerToken_def sample_request_def ToLower_def lower_char_def)
  have "rp_Status (fst ?run) \<noteq> 200" unfolding st
    by (simp add: writeError_def writeJSON_def terse_env_def sample_wire_codec_def sample_ingest_env_def)
  moreover have "ie_upsert terse_env = ingest_store sample_tx" "\<forall>w. enc_wire (ie_wire terse_env) w \<noteq> None"
    by (simp_all add: terse_env_def sample_ingest_env_def)
  ultimately show ?thesis
    using handleEvents_unanswered [of terse_env sample_handler "''abc''" "sample_request ''Basic tok'' ''[]''" sample_stored
        "fst ?run" "snd ?run" sample_tx] by simp
qed

section \<open>What an answer lists\<close>

text \<open>
  An answer lists the items in the order of the request and counts each once: the accepted
  ones are those whose event the store holds, the rejected ones those with a reason, no item is
  both, and the counts of accepted, duplicate, rejected and undecided items add up to the batch, an
  event inserted once being counted once however many items carry it.
\<close>
theorem respond_answers:
  fixes vs res
  defines "w \<equiv> fst (respond vs res)" and "n \<equiv> snd (respond vs res)"
  shows "wr_Accepted w = map v_itemID (filter (verdict_accepted res) vs) \<and>
    map wj_ID (wr_Rejected w) = map v_itemID (filter (\<lambda>v. verdict_reason res v \<noteq> None) vs) \<and>
    filter (\<lambda>v. verdict_accepted res v \<and> verdict_reason res v \<noteq> None) vs = [] \<and>
    bo_accepted n = int (card (accepted_events res vs)) \<and> bo_accepted n + bo_duplicate n = int (length (wr_Accepted w)) \<and>
    bo_rejected n = int (length (wr_Rejected w)) \<and>
    bo_accepted n + bo_duplicate n + bo_rejected n + bo_undecided n = int (length vs)"
proof -
  have r: "map wj_ID (rejects_of res vs) = map v_itemID (filter (\<lambda>v. verdict_reason res v \<noteq> None) vs)"
    by (induction vs) (simp_all add: rejects_of_def map_filter_Cons List.map_filter_def [of _ "[]"] split: option.split)
  have c: "n = \<lparr>bo_accepted = int (card (accepted_events res vs)),
     bo_duplicate = int (length (filter (verdict_accepted res) vs)) - int (card (accepted_events res vs)),
     bo_rejected = int (length (rejects_of res vs)),
     bo_undecided = int (length vs) - int (length (filter (verdict_accepted res) vs)) - int (length (rejects_of res vs))\<rparr>"
    by (simp add: n_def respond_def respondLoop_counts zero_outcome_def)
  show ?thesis unfolding c w_def respond_wire
    by (simp add: r filter_empty_conv verdict_accepted_def verdict_reason_def)
qed

section \<open>What is stored has been scrubbed\<close>

fun map_strings :: "(string \<Rightarrow> string) \<Rightarrow> json \<Rightarrow> json" where
  "map_strings f JNull = JNull"
| "map_strings f (JBool b) = JBool b"
| "map_strings f (JNumber n) = JNumber n"
| "map_strings f (JString t) = JString (f t)"
| "map_strings f (JArray vs) = JArray (map (map_strings f) vs)"
| "map_strings f (JObject fs) = JObject (map (\<lambda>(k, v). (k, map_strings f v)) fs)"

fun json_strings :: "json \<Rightarrow> string set" where
  "json_strings JNull = {}"
| "json_strings (JBool b) = {}"
| "json_strings (JNumber n) = {}"
| "json_strings (JString t) = {t}"
| "json_strings (JArray vs) = (\<Union>v\<in>set vs. json_strings v)"
| "json_strings (JObject fs) = (\<Union>p\<in>set fs. json_strings (snd p))"

text \<open>One string after the pass.\<close>

definition scrubbed :: "(string \<Rightarrow> string \<times> tally_map) \<Rightarrow> string \<Rightarrow> string" where
  "scrubbed scr t = ReplaceChar (CHR 0x00) replacement_rune (fst (scr t))"

lemma ReplaceChar_none: "ch \<notin> set s \<Longrightarrow> ReplaceChar ch by s = s"
  by (induction s) (auto simp: ReplaceChar_def)

lemma ReplaceChar_gone: "ch \<notin> set by \<Longrightarrow> ch \<notin> set (ReplaceChar ch by s)"
  by (auto simp: ReplaceChar_def)

lemma replacement_rune_clean [simp]: "CHR 0x00 \<notin> set replacement_rune"
  by (simp add: replacement_rune_def)

lemma scrub_string_clean: "scrub_string scr t st = (x, st1) \<Longrightarrow> x = scrubbed scr t"
  by (auto simp: scrub_string_def scrubbed_def Let_def ReplaceChar_none split: prod.splits if_splits)

lemma scrubValue_map:
  "fst (scrubValue scr v st) = map_strings (scrubbed scr) v"
  "fst (scrubArray scr vs st) = map (map_strings (scrubbed scr)) vs"
  "fst (scrubFields scr fs st) = map (\<lambda>(k, v). (k, map_strings (scrubbed scr) v)) fs"
  by (induction scr v st and scr vs st and scr fs st rule: scrubValue_scrubArray_scrubFields.induct)
     (auto dest: scrub_string_clean split: prod.splits)

text \<open>When nothing was counted and nothing rewritten, every string passed without a hit.\<close>

lemma bump_nonempty: "bump k n t \<noteq> []"
  by (cases t) (auto split: prod.splits)

lemma bump_all_nil: "bump_all f add into = [] \<longleftrightarrow> add = [] \<and> into = []"
proof
  assume "bump_all f add into = []"
  then show "add = [] \<and> into = []"
  proof (induction add arbitrary: into)
    case (Cons p add)
    have "fold (\<lambda>(k, n). bump (f k) n) add (bump (f (fst p)) (snd p) into) = []" using Cons.prems by (simp add: bump_all_def split_beta)
    then show ?case using Cons.IH [unfolded bump_all_def] bump_nonempty by blast
  qed (simp add: bump_all_def)
qed (simp add: bump_all_def)

definition unmarked :: "tally_map \<times> bool \<Rightarrow> bool" where
  "unmarked st \<longleftrightarrow> fst st = [] \<and> \<not> snd st"

text \<open>The scrubber's contract: it counts what it changes.\<close>

definition honest_scrub :: "(string \<Rightarrow> string \<times> tally_map) \<Rightarrow> bool" where
  "honest_scrub scr \<longleftrightarrow> (\<forall>t. snd (scr t) = [] \<longrightarrow> fst (scr t) = t)"

lemma scrub_string_unmarked:
  assumes "honest_scrub scr" "scrub_string scr t st = (x, st1)" "unmarked st1"
  shows "unmarked st \<and> scrubbed scr t = t"
proof -
  obtain clean hits where c: "scr t = (clean, hits)" by (meson surj_pair)
  with assms(2,3) have "hits = []" "unmarked st" "CHR 0x00 \<notin> set clean"
    by (auto simp: scrub_string_def unmarked_def Let_def bump_all_nil split: if_splits)
  moreover have "clean = t" using assms(1) c calculation(1) by (metis fst_conv honest_scrub_def snd_conv)
  ultimately show ?thesis using c by (simp add: scrubbed_def ReplaceChar_none)
qed

lemma scrubValue_unmarked:
  assumes "honest_scrub scr"
  shows "scrubValue scr v st = (v1, st1) \<Longrightarrow> unmarked st1 \<Longrightarrow> unmarked st \<and> map_strings (scrubbed scr) v = v"
    "scrubArray scr vs st = (vs1, st2) \<Longrightarrow> unmarked st2 \<Longrightarrow> unmarked st \<and> map (map_strings (scrubbed scr)) vs = vs"
    "scrubFields scr fs st = (fs1, st3) \<Longrightarrow> unmarked st3 \<Longrightarrow> unmarked st \<and> map (\<lambda>(k, v). (k, map_strings (scrubbed scr) v)) fs = fs"
  using assms
proof (induction scr v st and scr vs st and scr fs st arbitrary: v1 st1 and vs1 st2 and fs1 st3
    rule: scrubValue_scrubArray_scrubFields.induct)
  case (1 scr t st)
  obtain x y where x: "scrub_string scr t st = (x, y)" by (meson surj_pair)
  with 1 have "y = st1" by simp
  with scrub_string_unmarked [OF 1(3) x] 1(2) show ?case by simp
next
  case (8 scr v vs st)
  obtain x y where x: "scrubValue scr v st = (x, y)" by (meson surj_pair)
  obtain xs z where xs: "scrubArray scr vs y = (xs, z)" by (meson surj_pair)
  from 8(3) x xs have "unmarked z" using 8(4) by simp
  with 8(2) [OF x [symmetric] xs _ 8(5)] 8(1) [OF x _ 8(5)] show ?case by simp
next
  case (10 scr k v fs st)
  obtain x y where x: "scrubValue scr v st = (x, y)" by (meson surj_pair)
  obtain xs z where xs: "scrubFields scr fs y = (xs, z)" by (meson surj_pair)
  from 10(3) x xs have "unmarked z" using 10(4) by simp
  with 10(2) [OF x [symmetric] xs _ 10(5)] 10(1) [OF x _ 10(5)] show ?case by simp
qed (auto split: prod.splits)

lemma json_strings_map: "json_strings (map_strings f v) = f ` json_strings v"
proof (induction f v rule: map_strings.induct)
  case (6 f fs)
  have "(\<Union>p\<in>set fs. json_strings (map_strings f (snd p))) = (\<Union>p\<in>set fs. f ` json_strings (snd p))"
    by (rule SUP_cong) (use 6 in auto)
  then show ?case by (simp add: image_UN split_beta)
qed auto

lemma rescan_strings:
  assumes "rescan c scr ev body = Inr (ev1, body1)" "honest_scrub scr"
  shows "\<exists>doc0 doc. dec_number c body = Some doc0 \<and> doc = map_strings (scrubbed scr) doc0 \<and> (\<forall>t\<in>json_strings doc. CHR 0x00 \<notin> set t) \<and>
    (body1 = body \<and> ev1 = ev \<and> doc = doc0 \<or>
     enc_any c doc = Some body1 \<and> (\<exists>ev2. dec_event c body1 = Some ev2 \<and> ev1\<lparr>ev_Redactions := ev_Redactions ev2\<rparr> = ev2))"
proof -
  obtain doc0 where d: "dec_number c body = Some doc0" using assms(1) by (auto simp: rescan_def split: option.splits)
  obtain doc counts rw where sv: "scrubValue scr doc0 ([], False) = (doc, counts, rw)" by (metis prod_cases3)
  have doc: "doc = map_strings (scrubbed scr) doc0" using scrubValue_map(1) [of scr doc0 "([], False)"] sv by simp
  have nul: "\<forall>t\<in>json_strings doc. CHR 0x00 \<notin> set t"
    by (auto simp: doc json_strings_map scrubbed_def ReplaceChar_gone)
  show ?thesis
  proof (cases "counts = [] \<and> \<not> rw")
    case True
    then have "doc = doc0" using scrubValue_unmarked(1) [OF assms(2) sv] by (simp add: unmarked_def doc)
    with True assms(1) d sv doc nul show ?thesis by (auto simp: rescan_def)
  next
    case False
    with assms(1) d sv obtain ev2 where "enc_any c doc = Some body1" "dec_event c body1 = Some ev2"
      "ev1 = ev2\<lparr>ev_Redactions := mergeCounts (ev_Redactions ev2) counts ServerCaughtPrefix\<rparr>"
      by (auto simp: rescan_def split: option.splits)
    with d doc nul show ?thesis by auto
  qed
qed

text \<open>
  C36. What is stored has been scrubbed: the document a delivered payload is stored as is the
  delivered one with every string replaced by its scrubbed form, keys, numbers and structure as
  they were and no string with a NUL in it; when the pass finds nothing the delivered bytes and
  event are kept as they are, and that scrubbed document is the delivered one.
\<close>
theorem rescan_scrubs:
  assumes "rescan c scr ev body = Inr (ev1, body1)" "honest_scrub scr"
  shows "\<exists>doc0 doc. dec_number c body = Some doc0 \<and> doc = map_strings (scrubbed scr) doc0 \<and> (\<forall>t\<in>json_strings doc. CHR 0x00 \<notin> set t) \<and>
    (body1 = body \<and> ev1 = ev \<and> doc = doc0 \<or>
     enc_any c doc = Some body1 \<and> (\<exists>ev2. dec_event c body1 = Some ev2 \<and> ev1\<lparr>ev_Redactions := ev_Redactions ev2\<rparr> = ev2))"
  using assms by (rule rescan_strings)

text \<open>A scrubber of one word, on a document that holds it beside a key of the same spelling.\<close>

definition toy_scrub :: "string \<Rightarrow> string \<times> tally_map" where
  "toy_scrub t = (if t = ''sk'' then (''gone'', [(''key'', 1)]) else (t, []))"

definition leaky_doc :: json where
  "leaky_doc = JObject [(''sk'', JArray [JString ''sk'', JString [CHR 0x00], JNumber ''1''])]"

definition leaky_codec :: codec where
  "leaky_codec = sample_codec\<lparr>dec_number := (\<lambda>b. Some leaky_doc), enc_any := (\<lambda>j. Some ''clean''), dec_event := (\<lambda>b. Some zero_Event)\<rparr>"

theorem rescan_scrubs_witness:
  "map_strings (scrubbed toy_scrub) leaky_doc = JObject [(''sk'', JArray [JString ''gone'', JString replacement_rune, JNumber ''1''])] \<and>
   enc_any leaky_codec (map_strings (scrubbed toy_scrub) leaky_doc) = Some ''clean''"
proof -
  have m: "map_strings (scrubbed toy_scrub) leaky_doc = JObject [(''sk'', JArray [JString ''gone'', JString replacement_rune, JNumber ''1''])]"
    by code_simp
  have "fst (snd (scrubValue toy_scrub leaky_doc ([], False))) \<noteq> []" by code_simp
  then have "rescan leaky_codec toy_scrub zero_Event ''raw'' =
      Inr (zero_Event\<lparr>ev_Redactions := mergeCounts (ev_Redactions zero_Event) (fst (snd (scrubValue toy_scrub leaky_doc ([], False)))) ServerCaughtPrefix\<rparr>, ''clean'')"
    by (simp add: rescan_def leaky_codec_def split_beta)
  from rescan_scrubs [OF this] show ?thesis using m by (auto simp: toy_scrub_def leaky_codec_def honest_scrub_def)
qed

end
