(* ===== verification/Transport.thy ===== *)
theory Transport
  imports Drain Ingest
begin

text \<open>
  The client's transport (\<open>cmd/loop-sessions/deliver.go\<close>): a batch as one POST, and the answer as
  a verdict, a pacing instruction and an error. What \<open>net/http\<close> and \<open>encoding/json\<close> do is a
  parameter; the text of an error that comes from them is theirs.
\<close>

text \<open>\<open>strconv.Atoi\<close>, on a 64-bit \<open>int\<close>.\<close>

definition digit_val :: "char \<Rightarrow> int" where
  "digit_val ch = int (of_char ch) - 48"

definition Atoi :: "string \<Rightarrow> int option" where
  "Atoi s =
     (let ds = (if s \<noteq> [] \<and> (hd s = CHR ''-'' \<or> hd s = CHR ''+'') then tl s else s);
          n = foldl (\<lambda>acc ch. 10 * acc + digit_val ch) 0 ds;
          v = (if s \<noteq> [] \<and> hd s = CHR ''-'' then - n else n)
      in if ds = [] \<or> \<not> set ds \<subseteq> set ''0123456789'' then None
         else if - (2 ^ 63) \<le> v \<and> v < 2 ^ 63 then Some v
         else None)"

record httpTransport =
  tp_url :: string
  tp_token :: string
  tp_version :: string

text \<open>What posting gives: no answer, or an answer whose body may break off with an error.\<close>

datatype answer = NoAnswer string | Answered Reply "string option"

definition eventsPath :: string where "eventsPath = ''/v1/events''"
definition verdictLimit :: nat where "verdictLimit = 2 ^ 20"

definition zero_Response :: Response where
  "zero_Response = \<lparr>Accepted = [], Rejected = [], RetryAfter = 0\<rparr>"

definition statusError :: "int \<Rightarrow> string \<Rightarrow> string" where
  "statusError status url =
     (if status = 401 \<or> status = 403
      then ''delivery: '' @ url @ '' rejected this device'' @ [CHR 0x27] @ ''s credential (http '' @ FormatInt status @ ''); nothing will upload until you run '' @
        [CHR 0x60] @ ''loop-sessions install'' @ [CHR 0x60] @ '' to sign in again''
      else ''delivery: '' @ url @ '' answered http '' @ FormatInt status)"

definition retryAfterHeader :: "Reply \<Rightarrow> duration" where
  "retryAfterHeader res =
     (let v = TrimSpace (rp_RetryAfter res)
      in if v = [] then 0
         else case Atoi v of
                None \<Rightarrow> 0
              | Some secs \<Rightarrow> if secs \<le> 0 then 0 else wrap64 (secs * second))"

definition upload_request :: "httpTransport \<Rightarrow> string \<Rightarrow> Request" where
  "upload_request t body =
     \<lparr>rq_Authorization = ''Bearer '' @ tp_token t, rq_UserAgent = ''loop-sessions/'' @ tp_version t, rq_Body = body\<rparr>"

definition pacing_of :: "Wire option \<Rightarrow> Reply \<Rightarrow> duration" where
  "pacing_of wire res =
     (let ra = (case wire of
                  Some w \<Rightarrow> if wr_RetryAfterMS w > 0 then wrap64 (wr_RetryAfterMS w * 1000000) else 0
                | None \<Rightarrow> 0)
      in if retryAfterHeader res > ra then retryAfterHeader res else ra)"

definition http_Send :: "wire_codec \<Rightarrow> httpTransport \<Rightarrow> (Request \<Rightarrow> answer) \<Rightarrow> Leased list \<Rightarrow> Response \<times> string option" where
  "http_Send c t post batch =
     (case enc_items c (map l_item batch) of
        None \<Rightarrow> (zero_Response, Some ''delivery: encode batch'')
      | Some body \<Rightarrow>
          (case post (upload_request t body) of
             NoAnswer err \<Rightarrow> (zero_Response, Some (''delivery: post '' @ tp_url t @ '': '' @ err))
           | Answered res readErr \<Rightarrow>
               let wire = (if readErr = None then dec_wire c (take verdictLimit (rp_Body res)) else None);
                   out = zero_Response\<lparr>RetryAfter := pacing_of wire res\<rparr>
               in if rp_Status res div 100 \<noteq> 2 then (out, Some (statusError (rp_Status res) (tp_url t)))
                  else case readErr of
                         Some err \<Rightarrow> (out, Some (''delivery: read verdict from '' @ tp_url t @ '': '' @ err))
                       | None \<Rightarrow>
                           (case wire of
                              None \<Rightarrow> (out, Some (''delivery: '' @ tp_url t @ '' answered '' @ FormatInt (rp_Status res) @
                                '' with a body that is not a verdict''))
                            | Some w \<Rightarrow> (out\<lparr>Accepted := wr_Accepted w,
                                Rejected := map (\<lambda>x. \<lparr>rej_id = wj_ID x, rej_reason = wj_Reason x\<rparr>) (wr_Rejected w)\<rparr>, None))))"

text \<open>\<open>newTransport\<close>: a device token and an endpoint are required.\<close>

datatype transport_error = NoCredential | EmptyCredential | UnreadableCredential | NoEndpoint

datatype token_file = TokenFile string | NoTokenFile | UnreadableTokenFile

definition loadDeviceToken :: "token_file \<Rightarrow> transport_error + string" where
  "loadDeviceToken f =
     (case f of
        NoTokenFile \<Rightarrow> Inl NoCredential
      | UnreadableTokenFile \<Rightarrow> Inl UnreadableCredential
      | TokenFile b \<Rightarrow> let token = TrimSpace b in if token = [] then Inl EmptyCredential else Inr token)"

definition newTransport :: "string \<Rightarrow> token_file \<Rightarrow> string \<Rightarrow> transport_error + httpTransport" where
  "newTransport version f endpoint =
     (case loadDeviceToken f of
        Inl err \<Rightarrow> Inl err
      | Inr token \<Rightarrow>
          if TrimSpace endpoint = [] then Inl NoEndpoint
          else Inr \<lparr>tp_url = TrimSuffix endpoint ''/'' @ eventsPath, tp_token = token, tp_version = version\<rparr>)"

section \<open>What a verdict takes\<close>

text \<open>Only an answer that was read to its end, in the 200s and parsed, accepts anything.\<close>

lemma http_Send_ok:
  assumes "http_Send c t post batch = (resp, None)"
  obtains body res w where "enc_items c (map l_item batch) = Some body" "post (upload_request t body) = Answered res None"
    "rp_Status res div 100 = 2" "dec_wire c (take verdictLimit (rp_Body res)) = Some w" "Accepted resp = wr_Accepted w"
    "Rejected resp = map (\<lambda>x. \<lparr>rej_id = wj_ID x, rej_reason = wj_Reason x\<rparr>) (wr_Rejected w)" "RetryAfter resp = pacing_of (Some w) res"
  using assms by (auto simp: http_Send_def Let_def split: option.splits answer.splits if_splits)

lemma http_Send_failed: "http_Send c t post batch = (resp, Some err) \<Longrightarrow> Accepted resp = [] \<and> Rejected resp = []"
  by (auto simp: http_Send_def zero_Response_def Let_def split: option.splits answer.splits if_splits)

end
