(* ===== verification/EndToEnd.thy ===== *)
theory EndToEnd
  imports IngestClaims Transport DrainProps
begin

text \<open>
  Client and server together: a machine's spool delivers over a network that may lose a request or
  its answer, hooks add events to the spool between the cycles, and other clients upload to the
  same server. Nothing leaves the machine unless the server keeps it.
\<close>

section \<open>The composition\<close>

text \<open>What the network does with one request.\<close>

datatype fate = Lost string | AnswerLost string | Arrives

type_synonym server = "Request \<Rightarrow> db \<Rightarrow> Reply \<times> db"

definition post_via :: "server \<Rightarrow> db \<Rightarrow> fate \<Rightarrow> Request \<Rightarrow> answer" where
  "post_via srv d fate r =
     (case fate of Lost err \<Rightarrow> NoAnswer err | AnswerLost err \<Rightarrow> NoAnswer err | Arrives \<Rightarrow> Answered (fst (srv r d)) None)"

definition served :: "server \<Rightarrow> db \<Rightarrow> fate \<Rightarrow> Request \<Rightarrow> db" where
  "served srv d fate r = (case fate of Lost err \<Rightarrow> d | _ \<Rightarrow> snd (srv r d))"

text \<open>The batch a cycle hands to the transport, if it gets that far.\<close>

definition sent_batch :: "DrainOptions \<Rightarrow> cycle_env \<Rightarrow> Spool \<Rightarrow> Leased list option" where
  "sent_batch o0 ce s =
     (if ctx_err ce 0 \<or> ctx_err ce 1 then None
      else case fst (Lease (at_lease ce) (BatchSize o0) s) of
             Inl err \<Rightarrow> None
           | Inr leased \<Rightarrow> if leased = [] \<or> ctx_err ce 2 then None else Some (limitBytes o0 (enrich ce leased)))"

record site =
  si_opts :: DrainOptions
  si_codec :: wire_codec
  si_transport :: httpTransport
  si_server :: server

record world =
  w_drain :: Drain
  w_spool :: Spool
  w_db :: db

definition sent_request :: "site \<Rightarrow> Leased list option \<Rightarrow> Request option" where
  "sent_request si b =
     (case b of None \<Rightarrow> None
      | Some batch \<Rightarrow> map_option (upload_request (si_transport si)) (enc_items (si_codec si) (map l_item batch)))"

text \<open>One cycle of the drain, one event captured by a hook, one request of another client.\<close>

datatype action = Cycle cycle_env fate | Capture env item | Other Request

definition wired :: "site \<Rightarrow> db \<Rightarrow> fate \<Rightarrow> cycle_env \<Rightarrow> cycle_env" where
  "wired si d fate ce = ce\<lparr>send := http_Send (si_codec si) (si_transport si) (post_via (si_server si) d fate)\<rparr>"

fun act :: "site \<Rightarrow> action \<Rightarrow> world \<Rightarrow> world" where
  "act si (Cycle ce fate) w =
     (case RunOnce (si_opts si) (wired si (w_db w) fate ce) (w_drain w) (w_spool w) of
        (err, d1, s1) \<Rightarrow> w\<lparr>w_drain := d1, w_spool := s1,
          w_db := (case sent_request si (sent_batch (si_opts si) ce (w_spool w)) of
                     None \<Rightarrow> w_db w
                   | Some r \<Rightarrow> served (si_server si) (w_db w) fate r)\<rparr>)"
| "act si (Capture e it) w = w\<lparr>w_spool := snd (Add e it (w_spool w))\<rparr>"
| "act si (Other r) w = w\<lparr>w_db := snd (si_server si r (w_db w))\<rparr>"

definition acts :: "site \<Rightarrow> action list \<Rightarrow> world \<Rightarrow> world" where
  "acts si as w = fold (act si) as w"

lemma acts_Nil [simp]: "acts si [] w = w"
  by (simp add: acts_def)

lemma acts_snoc [simp]: "acts si (as @ [a]) w = act si a (acts si as w)"
  by (simp add: acts_def)

text \<open>A cycle calls the transport with that batch and with no other.\<close>

lemma RunOnce_sent:
  assumes "\<And>b. sent_batch o0 ce s = Some b \<Longrightarrow> send ce b = f b"
  shows "RunOnce o0 (ce\<lparr>send := f\<rparr>) d s = RunOnce o0 ce d s"
proof -
  obtain lr s1 where l: "Lease (at_lease ce) (BatchSize o0) s = (lr, s1)" by (meson surj_pair)
  show ?thesis
  proof (cases lr)
    case (Inl err)
    with l show ?thesis by (simp add: RunOnce_def)
  next
    case (Inr leased)
    show ?thesis
    proof (cases "ctx_err ce 0 \<or> ctx_err ce 1 \<or> leased = [] \<or> ctx_err ce 2")
      case True
      with l Inr show ?thesis by (auto simp: RunOnce_def Let_def)
    next
      case False
      with l Inr assms have "send ce (limitBytes o0 (enrich ce leased)) = f (limitBytes o0 (enrich ce leased))"
        by (simp add: sent_batch_def)
      with l Inr show ?thesis
        by (cases "f (limitBytes o0 (enrich ce leased))"; cases "snd (f (limitBytes o0 (enrich ce leased)))")
           (simp_all add: RunOnce_def Let_def)
    qed
  qed
qed

lemma RunOnce_unsent:
  assumes "sent_batch o0 ce s = None" "RunOnce o0 ce d s = (err, d', s')"
  shows "s' = s \<or> s' = snd (Lease (at_lease ce) (BatchSize o0) s)"
proof -
  obtain lr s1 where l: "Lease (at_lease ce) (BatchSize o0) s = (lr, s1)" by (meson surj_pair)
  with assms show ?thesis by (cases lr) (auto simp: RunOnce_def sent_batch_def Let_def split: if_splits)
qed

lemma RunOnce_released:
  assumes "spool_ok s" "enrich_ok (enrich ce)" "RunOnce o0 ce d s = (err, d', s')" "i \<in> held s" "i \<notin> held s'"
  obtains batch resp where "sent_batch o0 ce s = Some batch" "send ce batch = (resp, None)" "i \<in> set (Accepted resp)"
proof (cases "sent_batch o0 ce s")
  case None
  from RunOnce_unsent [OF this assms(3)] Lease_ok [OF assms(1), of "at_lease ce" "BatchSize o0"] assms(4,5) show thesis by auto
next
  case (Some batch)
  show thesis
  proof (rule RunOnce_cases [OF assms(3)])
    assume "s' = s"
    with assms(4,5) show thesis by simp
  next
    assume "s' = snd (Lease (at_lease ce) (BatchSize o0) s)"
    with Lease_ok [OF assms(1), of "at_lease ce" "BatchSize o0"] assms(4,5) show thesis by auto
  next
    fix leased s1 resp dd dd'
    assume l: "Lease (at_lease ce) (BatchSize o0) s = (Inr leased, s1)"
      and sd: "send ce (limitBytes o0 (enrich ce leased)) = (resp, None)"
      and av: "applyVerdict (at_verdict ce) (limitBytes o0 (enrich ce leased)) resp dd s1 = (dd', s')"
    have b: "batch = limitBytes o0 (enrich ce leased)" using Some l by (simp add: sent_batch_def split: if_splits)
    have s1: "spool_ok s1" "held s \<subseteq> held s1" using Lease_ok [OF assms(1), of "at_lease ce" "BatchSize o0"] l by auto
    note docs = Lease_docs [OF assms(1) l]
    have "\<forall>l\<in>set batch. leased_ok l \<and> l_path l \<in> l_path ` set leased"
      using enrich_leased [OF assms(2) docs(2)] set_limitBytes unfolding b by blast
    from applyVerdict_held(2) [OF s1(1) docs(1) this, where e = "at_verdict ce" and resp = resp and d = dd] av s1(2) assms(4,5)
    have "i \<in> set (Accepted resp)" unfolding b by auto
    with that Some sd b show thesis by blast
  qed
qed

section \<open>Captures\<close>

lemma evictLoop_shrinks:
  "evictLoop e cap inc sizes names tot s = (tot', t) \<Longrightarrow>
   file_at t SubPending n = None \<or> file_at t SubPending n = file_at s SubPending n"
proof (induction names arbitrary: tot s)
  case Nil
  then show ?case by simp
next
  case (Cons m ns)
  obtain r s1 where rm: "fs_remove e SubPending m s = (r, s1)" by (meson surj_pair)
  then have s1: "file_at s1 SubPending n = None \<or> file_at s1 SubPending n = file_at s SubPending n"
    by (auto simp: fs_remove_def split: if_splits option.splits)
  show ?case
  proof (cases "tot + inc > cap \<and> r = Done")
    case True
    with Cons.prems rm Cons.IH [of "tot - mget sizes m" "drop_event e ''queue_overflow'' s1"] s1 show ?thesis by auto
  next
    case False
    then have "tot + inc > cap \<Longrightarrow> s1 = s"
      using rm by (auto simp: fs_remove_def split: if_splits option.splits)
    with False rm Cons show ?thesis by (cases r) (auto split: if_splits)
  qed
qed

lemma enforceCap_shrinks:
  assumes "enforceCap e inc s = (r, t)"
  shows "file_at t SubPending n = None \<or> file_at t SubPending n = file_at s SubPending n"
proof (cases "trustsEstimate e inc s \<or> (\<exists>err. pendingNames e s = Inl err)")
  case True
  with assms show ?thesis by (cases "trustsEstimate e inc s") (auto simp: enforceCap_def)
next
  case False
  then obtain names where names: "\<not> trustsEstimate e inc s" "pendingNames e s = Inr names" by (meson sumE)
  obtain tot' s1 where ev: "evictLoop e (maxBytes (opts s)) inc (map_of (measure_sizes e s names)) names
      (sum_list (map snd (measure_sizes e s names))) s = (tot', s1)" by (meson surj_pair)
  from evictLoop_shrinks [OF this, of n] names assms ev show ?thesis
    by (auto simp: enforceCap_def Let_def split: if_splits)
qed

definition overflows :: "Spool \<Rightarrow> int" where
  "overflows s = mget (dropped s) ''queue_overflow''"

lemma enforceCap_evicts:
  assumes "enforceCap e inc s = (r, t)" "i \<in> held s" "i \<notin> held t"
  shows "overflows s < overflows t"
proof -
  note C = enforceCap_counts [OF assms(1)]
  obtain sub n it where st: "published n" "stores s sub n it" "item_id it = i" using assms(2) by (auto simp: held_def)
  have none: "\<not> stores t sub n it" using st assms(3) by (auto simp: held_def)
  then have "sub = SubPending" using C st(2) by (auto simp: stores_def)
  with none st(2) enforceCap_shrinks [OF assms(1), of n] have "n \<in> lost s t" using st(1) by (auto simp: lost_def stores_def)
  then have "0 < card (lost s t)" by (auto simp: card_gt_0_iff)
  with C show ?thesis by (simp add: overflows_def)
qed

lemma Add_world:
  assumes "spool_ok s" "ms_ok (now e)" "id_ok (item_id (prepareItem e it))" "Add e it s = (r, t)"
  shows "spool_ok t \<and> (i \<in> held s \<longrightarrow> i \<notin> held t \<longrightarrow> overflows s < overflows t)"
proof (cases "marshal e (prepareItem e it)")
  case None
  with assms(1,4) show ?thesis by (simp add: Add_def)
next
  case (Some len)
  show ?thesis
  proof (cases "guardDisk e s")
    case None
    obtain er s1 where c: "enforceCap e (int len) s = (er, s1)" by (meson surj_pair)
    have ok: "spool_ok s1" using enforceCap_ok [OF assms(1), of e "int len"] c by simp
    show ?thesis
    proof (cases er)
      case None
      with assms(4) Some \<open>guardDisk e s = None\<close> c have p: "publish e (prepareItem e it) len s1 = (r, t)" by (simp add: Add_def)
      have "keeps s1 t" using publish_keeps [OF ok assms(2,3), of len] p by simp
      moreover have "overflows t = overflows s1" using publish_frame(1) [OF p] by (simp add: overflows_def)
      ultimately show ?thesis using enforceCap_evicts [OF c] by (auto simp: keeps_def)
    next
      case (Some err)
      with assms(4) \<open>marshal e (prepareItem e it) = Some len\<close> None c have "t = s1" by (simp add: Add_def)
      with ok enforceCap_evicts [OF c] show ?thesis by blast
    qed
  next
    case (Some err)
    with assms(1,4) \<open>marshal e (prepareItem e it) = Some len\<close> have "t = drop_event e ''disk_full'' s" by (simp add: Add_def)
    with assms(1) show ?thesis by simp
  qed
qed

section \<open>What the server keeps of a cycle\<close>

text \<open>
  What encoding does to an item: its payload is compacted. A stream decoder reads the items back
  from the whole text and asks for more of a part of it.
\<close>

definition compacted :: "(string \<Rightarrow> string) \<Rightarrow> item \<Rightarrow> item" where
  "compacted f it = it\<lparr>payload := f (payload it)\<rparr>"

definition items_faithful :: "wire_codec \<Rightarrow> (string \<Rightarrow> string) \<Rightarrow> bool" where
  "items_faithful c f \<longleftrightarrow> (\<forall>its b k. enc_items c its = Some b \<longrightarrow>
     dec_items c (take k b) = (if length b \<le> k then Decoded (map (compacted f) its) (length b) else NeedMore))"

definition endpoint :: "db ingest_env \<Rightarrow> Handler \<Rightarrow> server" where
  "endpoint E h = withRequestAgentVersion (handleEvents E h) []"

lemma endpoint_run: "\<exists>v. endpoint E h r d = handleEvents E h v r d"
  by (auto simp: endpoint_def withRequestAgentVersion_def Let_def)

lemma handleEvents_keeps_ids:
  assumes "handleEvents E h v r d = (rp, d')" "ie_upsert E = ingest_store e"
  shows "set (event_ids d) \<subseteq> set (event_ids d')"
proof -
  have "set (event_ids d) \<subseteq> set (event_ids d1)" if "ingest_store e v rs d = (res, d1)" for rs res d1
    using that UpsertEvents_keeps_ids by (fastforce simp: ingest_store_def split: prod.splits)
  with assms(1) show ?thesis by (cases rule: handleEvents_runs) (auto simp: assms(2))
qed

lemma served_keeps_ids: "ie_upsert E = ingest_store e \<Longrightarrow> set (event_ids d) \<subseteq> set (event_ids (snd (endpoint E h r d)))"
  using endpoint_run [of E h r d] handleEvents_keeps_ids by (metis prod.collapse)

text \<open>The item's event, read from what was sent, under the address of the machine's credential.\<close>

definition delivered :: "db ingest_env \<Rightarrow> tx_env \<Rightarrow> Handler \<Rightarrow> (string \<Rightarrow> string) \<Rightarrow> site \<Rightarrow> cycle_env \<Rightarrow> world \<Rightarrow> db \<Rightarrow> string \<Rightarrow> bool" where
  "delivered E e h f si ce u d i \<longleftrightarrow>
     (\<exists>batch r ca. sent_batch (si_opts si) ce (w_spool u) = Some batch \<and> sent_request si (Some batch) = Some r \<and> identify E h r = Inr ca \<and>
       (\<exists>l\<in>set batch. \<exists>x. item_id (l_item l) = i \<and> snd (prepare_item E h ca False (compacted f (l_item l))) = Some x \<and>
         rd_Email x = ca_Email ca \<and>
         (kept_record e (w_db u) d x \<or> \<not> distinct (map record_id (item_records E h ca False (map (compacted f \<circ> l_item) batch))))))"

lemma kept_record_mono: "kept_record e d d1 x \<Longrightarrow> set (event_ids d1) \<subseteq> set (event_ids d2) \<Longrightarrow> kept_record e d d2 x"
  by (auto simp: kept_record_def)

lemma delivered_mono:
  "delivered E e h f si ce u d i \<Longrightarrow> set (event_ids d) \<subseteq> set (event_ids d') \<Longrightarrow> delivered E e h f si ce u d' i"
  unfolding delivered_def using kept_record_mono by meson

lemma failure_statuses:
  "identify E h r = Inl rp \<Longrightarrow> rp_Status rp div 100 \<noteq> 2"
  "rp_Status (writeBodyFailure c err) div 100 \<noteq> 2" "rp_Status (writeUnavailable c h) div 100 \<noteq> 2"
  by (auto simp: identify_def writeBodyFailure_def writeError_def writeUnavailable_def writeJSON_def Let_def
      split: if_splits sum.splits verify_error.splits option.splits body_error.splits)

lemma answer_status:
  assumes "handleEvents E h v r d = (rp, d')" "rp_Status rp div 100 = 2"
  shows "rp_Status rp = 200 \<and> (\<exists>w. enc_wire (ie_wire E) w = Some (rp_Body rp))"
  using assms(1)
proof (cases rule: handleEvents_runs)
  case caller
  with failure_statuses(1) assms(2) show ?thesis by blast
next
  case (unreadable ca err)
  with failure_statuses(2) assms(2) show ?thesis by blast
next
  case (failed ca its n over)
  with failure_statuses(3) assms(2) show ?thesis by blast
next
  case (answered ca its n over res)
  with assms(2) show ?thesis by (auto simp: writeJSON_def split: option.splits)
qed

lemma wired_simps [simp]: "enrich (wired si d fate ce) = enrich ce"
  "send (wired si d fate ce) = http_Send (si_codec si) (si_transport si) (post_via (si_server si) d fate)"
  "sent_batch o0 (wired si d fate ce) s = sent_batch o0 ce s"
  by (simp_all add: wired_def sent_batch_def split: sum.split)

text \<open>The server is the endpoint on the database, and both sides encode and decode alike.\<close>

definition deployed :: "db ingest_env \<Rightarrow> Handler \<Rightarrow> tx_env \<Rightarrow> site \<Rightarrow> (string \<Rightarrow> string) \<Rightarrow> bool" where
  "deployed E h e si f \<longleftrightarrow> si_server si = endpoint E h \<and> ie_upsert E = ingest_store e \<and> ie_wire E = si_codec si \<and>
     wire_faithful (si_codec si) \<and> items_faithful (si_codec si) f"

lemma deployedD:
  assumes "deployed E h e si f"
  shows "si_server si = endpoint E h" "ie_upsert E = ingest_store e" "ie_wire E = si_codec si"
    "wire_faithful (si_codec si)" "items_faithful (si_codec si) f"
  using assms by (simp_all add: deployed_def)

lemma act_keeps_ids:
  assumes dep: "deployed E h e si f"
  shows "set (event_ids (w_db u)) \<subseteq> set (event_ids (w_db (act si a u)))"
proof (cases a)
  case (Cycle ce fate)
  then show ?thesis
    using served_keeps_ids [OF deployedD(2) [OF dep]]
    by (auto simp: served_def deployedD(1) [OF dep] split: prod.split option.split fate.split)
next
  case (Other r)
  then show ?thesis using served_keeps_ids [OF deployedD(2) [OF dep]] by (simp add: deployedD(1) [OF dep])
qed simp

lemma cycle_delivers:
  assumes dep: "deployed E h e si f" and A: "spool_ok (w_spool u)" "enrich_ok (enrich ce)" "i \<in> held (w_spool u)" "i \<notin> held (w_spool (act si (Cycle ce fate) u))"
  shows "fate = Arrives \<and> delivered E e h f si ce u (w_db (act si (Cycle ce fate) u)) i"
proof -
  note server = deployedD(1) [OF dep] and store = deployedD(2) [OF dep] and codec = deployedD(3) [OF dep]
    and verdicts = deployedD(4) [OF dep] and items = deployedD(5) [OF dep]
  let ?ce = "wired si (w_db u) fate ce"
  obtain err d1 s1 where run: "RunOnce (si_opts si) ?ce (w_drain u) (w_spool u) = (err, d1, s1)" by (metis prod_cases3)
  have i: "i \<notin> held s1" using A(4) run by simp
  have enr: "enrich_ok (enrich ?ce)" using A(2) by simp
  obtain batch resp where b: "sent_batch (si_opts si) ce (w_spool u) = Some batch"
    and sd: "http_Send (si_codec si) (si_transport si) (post_via (si_server si) (w_db u) fate) batch = (resp, None)"
    and acc: "i \<in> set (Accepted resp)"
    using RunOnce_released [OF A(1) enr run A(3) i] by auto
  from sd obtain body res w where s: "enc_items (si_codec si) (map l_item batch) = Some body"
    "post_via (si_server si) (w_db u) fate (upload_request (si_transport si) body) = Answered res None"
    "rp_Status res div 100 = 2" "dec_wire (si_codec si) (take verdictLimit (rp_Body res)) = Some w" "Accepted resp = wr_Accepted w"
    by (rule http_Send_ok)
  let ?r = "upload_request (si_transport si) body"
  have fate: "fate = Arrives" "res = fst (endpoint E h ?r (w_db u))"
    using s(2) by (auto simp: post_via_def server split: fate.splits)
  obtain v where v: "endpoint E h ?r (w_db u) = handleEvents E h v ?r (w_db u)" using endpoint_run by blast
  let ?d = "snd (endpoint E h ?r (w_db u))"
  have ev: "handleEvents E h v ?r (w_db u) = (res, ?d)" using fate(2) v by (simp add: prod_eq_iff)
  have db: "w_db (act si (Cycle ce fate) u) = ?d"
    using run b s(1) fate(1) by (simp add: sent_request_def served_def server)
  obtain w0 where w0: "enc_wire (si_codec si) w0 = Some (rp_Body res)" "rp_Status res = 200"
    using answer_status [OF ev s(3)] codec by auto
  have w: "w = w0" using verdicts w0(1) s(4) by (auto simp: wire_faithful_def split: if_splits)
  have dec: "dec_wire (ie_wire E) (rp_Body res) = Some w" using wire_faithful_whole [OF verdicts w0(1)] by (simp add: w codec)
  have wf: "wire_faithful (ie_wire E)" using verdicts codec by simp
  have iw: "i \<in> set (wr_Accepted w)" using acc s(5) by simp
  obtain ca its n it x where B: "identify E h ?r = Inr ca" "decodeBatch (ie_wire E) h (rq_Body ?r) = Inr (its, n, False)"
    "it \<in> set its" "item_id it = i" "snd (prepare_item E h ca False it) = Some x" "rd_Email x = ca_Email ca"
    "kept_record e (w_db u) ?d x \<or> \<not> distinct (map record_id (item_records E h ca False its))"
    using accepted_item [OF ev store wf w0(2) dec iw] by blast
  have its: "its = map (compacted f \<circ> l_item) batch"
    using B(2) items s(1) by (auto simp: decodeBatch_def upload_request_def codec items_faithful_def split: if_splits)
  with B(3) obtain l where l: "l \<in> set batch" "it = compacted f (l_item l)" by auto
  moreover have "sent_request si (Some batch) = Some ?r" using s(1) by (simp add: sent_request_def)
  moreover have "item_id (l_item l) = i" using B(4) l(2) by (simp add: compacted_def)
  ultimately show ?thesis using fate(1) b B(1,5,6,7) unfolding delivered_def db its by blast
qed

section \<open>Nothing is lost on the way\<close>

text \<open>What is assumed of an action: an enricher within its contract, a clock and an id that make a file name.\<close>

fun action_ok :: "action \<Rightarrow> bool" where
  "action_ok (Cycle ce fate) \<longleftrightarrow> enrich_ok (enrich ce)"
| "action_ok (Capture ev it) \<longleftrightarrow> ms_ok (now ev) \<and> id_ok (item_id (prepareItem ev it))"
| "action_ok (Other r) \<longleftrightarrow> True"

lemma act_spool_ok:
  assumes "spool_ok (w_spool u)" "action_ok a"
  shows "spool_ok (w_spool (act si a u))"
proof (cases a)
  case (Cycle ce fate)
  obtain err d1 s1 where "RunOnce (si_opts si) (wired si (w_db u) fate ce) (w_drain u) (w_spool u) = (err, d1, s1)" by (metis prod_cases3)
  with RunOnce_held [OF assms(1) _ this] assms(2) Cycle show ?thesis by simp
next
  case (Capture ev it)
  obtain r t where "Add ev it (w_spool u) = (r, t)" by (meson surj_pair)
  with Add_world [OF assms(1) _ _ this] assms(2) Capture show ?thesis by simp
next
  case (Other r)
  with assms(1) show ?thesis by simp
qed

lemma acts_spool_ok: "spool_ok (w_spool w) \<Longrightarrow> \<forall>a\<in>set as. action_ok a \<Longrightarrow> spool_ok (w_spool (acts si as w))"
  by (induction as rule: rev_induct) (auto intro: act_spool_ok)

text \<open>What took an id off the machine in one step.\<close>

definition released :: "db ingest_env \<Rightarrow> tx_env \<Rightarrow> Handler \<Rightarrow> (string \<Rightarrow> string) \<Rightarrow> site \<Rightarrow> action \<Rightarrow> world \<Rightarrow> db \<Rightarrow> string \<Rightarrow> bool" where
  "released E e h f si a u d i \<longleftrightarrow>
     (\<exists>ce. a = Cycle ce Arrives \<and> delivered E e h f si ce u d i) \<or>
     (\<exists>ev it. a = Capture ev it \<and> overflows (w_spool u) < overflows (w_spool (act si a u)))"

lemma act_releases:
  assumes "deployed E h e si f" "spool_ok (w_spool u)" "action_ok a" "i \<in> held (w_spool u)" "i \<notin> held (w_spool (act si a u))"
  shows "released E e h f si a u (w_db (act si a u)) i"
proof (cases a)
  case (Cycle ce fate)
  with cycle_delivers [OF assms(1,2) _ assms(4)] assms(3,5) show ?thesis by (auto simp: released_def)
next
  case (Capture ev it)
  obtain r t where "Add ev it (w_spool u) = (r, t)" by (meson surj_pair)
  with Add_world [OF assms(2) _ _ this] assms(3-5) Capture show ?thesis by (simp add: released_def)
next
  case (Other r)
  with assms(4,5) show ?thesis by simp
qed


section \<open>A sample deployment\<close>

text \<open>One item of the sample spool, delivered in a batch of one.\<close>

definition first_item :: item where
  "first_item = SpoolProps.sample_item ''a''"

definition first_answer :: Wire where
  "first_answer = \<lparr>wr_Accepted = [''a''], wr_Rejected = [], wr_RetryAfterMS = 0\<rparr>"

definition first_codec :: wire_codec where
  "first_codec = \<lparr>enc_items = (\<lambda>its. if its = [first_item] then Some ''B'' else None),
     dec_items = (\<lambda>b. if b = ''B'' then Decoded [first_item] 1 else NeedMore),
     enc_wire = (\<lambda>w. if w = first_answer then Some ''ok'' else None), enc_error = (\<lambda>c t. Some c),
     dec_wire = (\<lambda>b. if b = ''ok'' then Some first_answer else None)\<rparr>"

definition first_env :: "db ingest_env" where
  "first_env = sample_ingest_env\<lparr>ie_wire := first_codec\<rparr>"

definition first_transport :: httpTransport where
  "first_transport = \<lparr>tp_url = ''https://x/v1/events'', tp_token = ''tok'', tp_version = ''abc''\<rparr>"

definition first_site :: site where
  "first_site = \<lparr>si_opts = sample_drain_opts\<lparr>BatchSize := 1\<rparr>, si_codec = first_codec, si_transport = first_transport,
     si_server = endpoint first_env sample_handler\<rparr>"

definition first_world :: world where
  "first_world = \<lparr>w_drain = new_Drain, w_spool = sample_spool, w_db = empty_db\<rparr>"

lemma first_deployed: "deployed first_env sample_handler sample_tx first_site (\<lambda>p. p)"
proof -
  have "compacted (\<lambda>p. p) = (\<lambda>it. it)" by (simp add: compacted_def fun_eq_iff)
  moreover have "take k ''B'' = ''B'' \<longleftrightarrow> 1 \<le> k" "take k ''ok'' = ''ok'' \<longleftrightarrow> 2 \<le> k" for k
    using take_eq_same [of k "''B''"] take_eq_same [of k "''ok''"] by (simp_all add: numeral_2_eq_2)
  ultimately show ?thesis
    by (auto simp: deployed_def first_site_def first_env_def sample_ingest_env_def first_codec_def wire_faithful_def items_faithful_def)
qed

lemma first_reply: "fst (endpoint first_env sample_handler (upload_request first_transport ''B'') empty_db) =
    \<lparr>rp_Status = 200, rp_RetryAfter = [], rp_Body = ''ok''\<rparr>"
  by code_simp

lemma first_lease: "Lease sample_env 1 sample_spool = (Inr [sample_lease], sample_spool)"
  using sample_names
  by (simp add: Lease_def sweepTemp_def fs_readdir_def pendingNames_def sample_env_def sample_spool_def
      empty_spool_def dir_names_def HasSuffix_def firstN_def read_item_def file_at_def sample_file_def sample_lease_def)

lemma first_send: "http_Send first_codec first_transport (post_via (endpoint first_env sample_handler) empty_db Arrives) [sample_lease] =
    (\<lparr>Accepted = [''a''], Rejected = [], RetryAfter = 0\<rparr>, None)"
proof -
  have "enc_items first_codec (map l_item [sample_lease]) = Some ''B''" by (simp add: first_codec_def first_item_def sample_lease_def)
  moreover have "dec_wire first_codec (take verdictLimit ''ok'') = Some first_answer"
  proof -
    have "length ''ok'' \<le> verdictLimit" by (simp add: verdictLimit_def)
    then have "take verdictLimit ''ok'' = ''ok''" by (rule take_all)
    then show ?thesis by (simp add: first_codec_def)
  qed
  ultimately show ?thesis
    by (simp add: http_Send_def post_via_def first_reply first_answer_def zero_Response_def pacing_of_def retryAfterHeader_def TrimSpace_def)
qed

lemma not_held:
  assumes "\<And>sub. \<forall>(n, f)\<in>set (dir_of sub s). case f_content f of Torn \<Rightarrow> True | Doc it \<Rightarrow> item_id it \<noteq> i"
  shows "i \<notin> held s"
proof
  assume "i \<in> held s"
  then obtain sub n it where "stores s sub n it" "item_id it = i" by (auto simp: held_def)
  then obtain f where "(n, f) \<in> set (dir_of sub s)" "f_content f = Doc it" by (auto simp: stores_def file_at_def dest: map_of_SomeD)
  with assms [of sub] \<open>item_id it = i\<close> show False by fastforce
qed

lemma first_cycle: "snd (snd (RunOnce (sample_drain_opts\<lparr>BatchSize := 1\<rparr>)
    (wired first_site empty_db Arrives (sample_cycle accept_all)) new_Drain sample_spool)) = snd (Ack sample_env sample_lease sample_spool)"
proof -
  let ?o = "sample_drain_opts\<lparr>BatchSize := 1\<rparr>"
  have l: "limitBytes ?o [sample_lease] = [sample_lease]" by (simp add: limitBytes_def)
  have "send (wired first_site empty_db Arrives (sample_cycle accept_all)) [sample_lease] =
      (\<lparr>Accepted = [''a''], Rejected = [], RetryAfter = 0\<rparr>, None)"
    using first_send by (simp add: first_site_def)
  moreover have "item_id (l_item sample_lease) = ''a''" by (simp add: sample_lease_def SpoolProps.sample_item_def)
  then have "snd (applyVerdict sample_env [sample_lease] \<lparr>Accepted = [''a''], Rejected = [], RetryAfter = 0\<rparr> dd sample_spool) =
      snd (Ack sample_env sample_lease sample_spool)" for dd
    by (simp add: applyVerdict_ops op_for_def verdict_of_def)
  ultimately show ?thesis
    by (simp add: RunOnce_def Let_def wired_def sample_cycle_def first_lease l split: prod.split) (metis snd_conv)
qed

lemma first_released: "''a'' \<notin> held (snd (Ack sample_env sample_lease sample_spool))"
  by (rule not_held, rename_tac sub, case_tac sub)
     (auto simp: Ack_def recordSuccess_def mutateState_def fs_remove_def sample_lease_def sample_env_def sample_spool_def
      empty_spool_def file_at_def sample_file_def SpoolProps.sample_item_def del_file_def adjustPendingBytes_def dir_del_def Let_def
      split: prod.splits)


end
