(* ===== verification/TransportProps.thy ===== *)
theory TransportProps
  imports Transport IngestClaims
begin

text \<open>
  The server's pacing as the client reads it: decimal numbers survive the header, milliseconds
  survive the body, and the wait the client is left with is the wait the server asked for.
\<close>

section \<open>Decimal numbers in a header\<close>

definition digits_value :: "string \<Rightarrow> int" where
  "digits_value ds = foldl (\<lambda>acc ch. 10 * acc + digit_val ch) 0 ds"

lemma header_digit: "n < 10 \<Longrightarrow> digit n \<in> set ''0123456789'' \<and> digit_val (digit n) = int n \<and> \<not> is_space (digit n)"
proof -
  assume "n < 10"
  then have "n \<in> {0, 1, 2, 3, 4, 5, 6, 7, 8, 9}" by auto
  moreover have "\<forall>n\<in>{0, 1, 2, 3, 4, 5, 6, 7, 8, 9}. digit n \<in> set ''0123456789'' \<and> digit_val (digit n) = int n \<and> \<not> is_space (digit n)"
    by code_simp
  ultimately show ?thesis by blast
qed

lemma dec_spec: "digits_value (dec n) = int n \<and> set (dec n) \<subseteq> set ''0123456789'' \<and> dec n \<noteq> [] \<and> (\<forall>ch\<in>set (dec n). \<not> is_space ch)"
proof (induction n rule: dec.induct)
  case (1 n)
  show ?case
  proof (cases "n < 10")
    case True
    then have "dec n = [digit n]" by (subst dec.simps) simp
    with header_digit [OF True] show ?thesis by (simp add: digits_value_def)
  next
    case False
    then have d: "dec n = dec (n div 10) @ [digit (n mod 10)]" by (subst dec.simps) simp
    have c: "n mod 10 < 10" by simp
    have "10 * int (n div 10) + int (n mod 10) = int n" by (simp add: zdiv_int zmod_int)
    with 1 [OF False] header_digit [OF c] show ?thesis by (simp add: d digits_value_def del: set_simps list.set) auto
  qed
qed

lemma Atoi_dec: "int n < 2 ^ 63 \<Longrightarrow> Atoi (dec n) = Some (int n)"
proof -
  assume n: "int n < 2 ^ 63"
  obtain c cs where d: "dec n = c # cs" using dec_spec [of n] by (meson neq_Nil_conv)
  have "c \<in> set ''0123456789''" using dec_spec [of n] d by auto
  then have c: "c \<noteq> CHR ''-''" "c \<noteq> CHR ''+''" by auto
  have "digits_value (dec n) = int n" "set (dec n) \<subseteq> set ''0123456789''" using dec_spec [of n] by blast+
  with c n show ?thesis by (simp add: Atoi_def d digits_value_def Let_def)
qed

lemma TrimSpace_dec: "TrimSpace (dec n) = dec n"
proof -
  have "\<forall>ch\<in>set (dec n). \<not> is_space ch" using dec_spec by blast
  then have "dropWhile is_space (dec n) = dec n" "dropWhile is_space (rev (dec n)) = rev (dec n)"
    by (auto simp: dropWhile_eq_self_iff hd_rev)
  then show ?thesis by (simp add: TrimSpace_def)
qed

lemma retryAfterHeader_dec:
  assumes "rp_RetryAfter rp = FormatInt n" "0 \<le> n" "n * second < 2 ^ 63"
  shows "retryAfterHeader rp = n * second"
proof -
  have n: "FormatInt n = dec (nat n)" "int (nat n) < 2 ^ 63" using assms(2,3) by (simp_all add: FormatInt_def go_time)
  have "dec (nat n) \<noteq> []" using dec_spec by blast
  with n assms show ?thesis
    by (simp add: retryAfterHeader_def TrimSpace_dec Atoi_dec wrap64_def go_time)
qed

section \<open>Being told to wait\<close>

lemma wrap64_id: "0 \<le> x \<Longrightarrow> x < 2 ^ 63 \<Longrightarrow> wrap64 x = x"
  by (simp add: wrap64_def)

lemma round_seconds_bounds:
  assumes "0 < d" "d \<le> max_duration - second"
  shows "0 \<le> round_seconds d" "round_seconds d * second \<le> d + second div 2" "round_seconds d * second < 2 ^ 63"
proof -
  define q r where "q = d div second" and "r = d mod second"
  have d: "d = q * second + r" "0 \<le> r" "r < second" "0 \<le> q"
    using assms(1) by (simp_all add: q_def r_def go_time pos_imp_zdiv_nonneg_iff)
  have e: "d - r = q * second" "d + second - r = (q + 1) * second" "d + second - r \<le> max_duration"
    using d(1,2) assms(2) by (simp_all add: algebra_simps)
  have "x * second div second = x" for x by (simp add: second_def)
  with e have rs: "round_seconds d = (if r + r < second then q else q + 1)"
    unfolding round_seconds_def Let_def r_def [symmetric] by (simp only: if_True)
  show "0 \<le> round_seconds d" "round_seconds d * second \<le> d + second div 2" "round_seconds d * second < 2 ^ 63"
    unfolding rs using d assms(2) by (auto simp: go_time)
qed

text \<open>
  A server that asks for time is given it: when it answers that it is unavailable, the client
  takes nothing as accepted or rejected, reports an error, and is left with a wait that falls short
  of what the server was configured to ask by less than a millisecond and exceeds it by at most
  half a second.
\<close>
theorem unavailable_paces:
  assumes "wire_faithful c" "0 < h_retryAfter h" "h_retryAfter h \<le> max_duration - second"
    and "enc_wire c \<lparr>wr_Accepted = [], wr_Rejected = [], wr_RetryAfterMS = Milliseconds (h_retryAfter h)\<rparr> = Some b" "length b \<le> verdictLimit"
    and "enc_items c (map l_item batch) = Some body" "post (upload_request t body) = Answered (writeUnavailable c h) None"
  shows "\<exists>resp err. http_Send c t post batch = (resp, Some err) \<and> Accepted resp = [] \<and> Rejected resp = [] \<and>
    h_retryAfter h - 1000000 < RetryAfter resp \<and> RetryAfter resp \<le> h_retryAfter h + second div 2"
proof -
  let ?d = "h_retryAfter h" and ?rp = "writeUnavailable c h"
  let ?w = "\<lparr>wr_Accepted = [], wr_Rejected = [], wr_RetryAfterMS = Milliseconds ?d\<rparr>"
  have rp: "?rp = \<lparr>rp_Status = 503, rp_RetryAfter = FormatInt (round_seconds ?d), rp_Body = b\<rparr>"
    using assms(2,4) by (simp add: writeUnavailable_def writeJSON_def)
  have dw: "dec_wire c (take verdictLimit b) = Some ?w" using assms(1,4,5) unfolding wire_faithful_def by presburger
  note R = round_seconds_bounds [OF assms(2,3)]
  have header: "retryAfterHeader ?rp = round_seconds ?d * second" using retryAfterHeader_dec [of ?rp] R(1,3) by (simp add: rp)
  have ms: "0 \<le> Milliseconds ?d * 1000000" "Milliseconds ?d * 1000000 \<le> ?d" "?d - 1000000 < Milliseconds ?d * 1000000"
    using assms(2) by (auto simp: Milliseconds_def)
  then have "wrap64 (Milliseconds ?d * 1000000) = Milliseconds ?d * 1000000"
    using assms(3) by (intro wrap64_id) (auto simp: go_time)
  then have pace: "pacing_of (Some ?w) ?rp = max (Milliseconds ?d * 1000000) (round_seconds ?d * second)"
    using ms(1) unfolding pacing_of_def header Let_def by (auto simp: max_def)
  have "http_Send c t post batch = (zero_Response\<lparr>RetryAfter := pacing_of (Some ?w) ?rp\<rparr>, Some (statusError 503 (tp_url t)))"
    using dw by (simp add: http_Send_def assms(6,7) Let_def) (simp add: rp)
  moreover have "?d - 1000000 < pacing_of (Some ?w) ?rp" "pacing_of (Some ?w) ?rp \<le> ?d + second div 2"
    unfolding pace using ms R(2) assms(2) by (auto simp: second_def less_max_iff_disj)
  ultimately show ?thesis by (simp add: zero_Response_def)
qed

definition busy_handler :: Handler where
  "busy_handler = sample_handler\<lparr>h_retryAfter := 1500 * 1000000\<rparr>"

definition busy_codec :: wire_codec where
  "busy_codec = sample_wire_codec\<lparr>enc_wire := (\<lambda>w. if w = \<lparr>wr_Accepted = [], wr_Rejected = [], wr_RetryAfterMS = 1500\<rparr> then Some ''b'' else None),
     dec_wire := (\<lambda>b. if b = ''b'' then Some \<lparr>wr_Accepted = [], wr_Rejected = [], wr_RetryAfterMS = 1500\<rparr> else None)\<rparr>"

theorem unavailable_paces_witness:
  "\<exists>resp err. http_Send busy_codec \<lparr>tp_url = ''u'', tp_token = ''tok'', tp_version = ''abc''\<rparr>
      (\<lambda>r. Answered (writeUnavailable busy_codec busy_handler) None) [] = (resp, Some err) \<and>
    Accepted resp = [] \<and> 1499 * 1000000 < RetryAfter resp \<and> RetryAfter resp \<le> 2 * second"
proof -
  have c: "wire_faithful busy_codec" using take_eq_same [of _ "''b''"] by (auto simp: wire_faithful_def busy_codec_def)
  have h: "h_retryAfter busy_handler = 1500000000" by (simp add: busy_handler_def)
  have e: "enc_wire busy_codec \<lparr>wr_Accepted = [], wr_Rejected = [], wr_RetryAfterMS = Milliseconds (h_retryAfter busy_handler)\<rparr> = Some ''b''"
    "enc_items busy_codec (map l_item []) = Some ''[]''" "length ''b'' \<le> verdictLimit"
    by (simp_all add: busy_codec_def h Milliseconds_def sample_wire_codec_def verdictLimit_def)
  have d: "0 < h_retryAfter busy_handler" "h_retryAfter busy_handler \<le> max_duration - second" by (simp_all add: h go_time)
  show ?thesis
    using unavailable_paces [OF c d e(1,3,2), where post = "\<lambda>r. Answered (writeUnavailable busy_codec busy_handler) None"
        and t = "\<lparr>tp_url = ''u'', tp_token = ''tok'', tp_version = ''abc''\<rparr>"]
    by (auto simp: h go_time)
qed

end
