(* ===== verification/Regex.thy ===== *)
theory Regex
  imports GoLib
begin

text \<open>
  What the program uses of package \<open>regexp\<close>: patterns over bytes, the runs of a pattern at a
  position in the order Go prefers them, the leftmost match and all matches that do not overlap.
  Repetition is only ever of one character class. Folding case takes \<open>s\<close> for U+017F and \<open>k\<close> for
  U+212A as well, as Unicode does.
\<close>

section \<open>Patterns\<close>

text \<open>A class is a list of ranges; \<open>each_char\<close> makes one of single characters.\<close>

datatype chars = In "(char \<times> char) list" | NotIn "(char \<times> char) list"

definition each_char :: "string \<Rightarrow> (char \<times> char) list" where
  "each_char = map (\<lambda>ch. (ch, ch))"

text \<open>
  \<open>Lit\<close> and \<open>Fold\<close> are a word as it is and a word without regard to case, \<open>Many c m n lazy\<close> is a
  class from \<open>m\<close> to \<open>n\<close> times, \<open>Grp\<close> a capture group and \<open>Bound\<close> a word boundary.
\<close>

datatype rx =
    Lit string
  | Fold string
  | Many chars nat "nat option" bool
  | Bound
  | Grp nat rx
  | Seq rx rx
  | Alt rx rx

definition empty_rx :: rx where "empty_rx = Lit []"
definition Opt :: "rx \<Rightarrow> rx" where "Opt r = Alt r empty_rx"
definition Chr :: "chars \<Rightarrow> rx" where "Chr c = Many c 1 (Some 1) False"

fun seqs :: "rx list \<Rightarrow> rx" where
  "seqs [] = empty_rx"
| "seqs [r] = r"
| "seqs (r # rs) = Seq r (seqs rs)"

fun alts :: "rx \<Rightarrow> rx list \<Rightarrow> rx" where
  "alts r [] = r"
| "alts r (q # rs) = Alt r (alts q rs)"

fun in_chars :: "chars \<Rightarrow> char \<Rightarrow> bool" where
  "in_chars (In rs) ch \<longleftrightarrow> list_ex (\<lambda>(a, b). a \<le> ch \<and> ch \<le> b) rs"
| "in_chars (NotIn rs) ch \<longleftrightarrow> \<not> list_ex (\<lambda>(a, b). a \<le> ch \<and> ch \<le> b) rs"

definition word_chars :: chars where
  "word_chars = In ([(CHR ''0'', CHR ''9''), (CHR ''A'', CHR ''Z''), (CHR ''a'', CHR ''z'')] @ each_char ''_'')"

definition word_at :: "string \<Rightarrow> nat \<Rightarrow> bool" where
  "word_at s i \<longleftrightarrow> i < length s \<and> in_chars word_chars (s ! i)"

section \<open>Runs\<close>

type_synonym groups = "(nat \<times> nat \<times> nat) list"

text \<open>How many characters of a class follow a position, up to a bound.\<close>

definition stretch :: "chars \<Rightarrow> nat option \<Rightarrow> string \<Rightarrow> nat \<Rightarrow> nat" where
  "stretch c hi s i =
     (let n = length (takeWhile (in_chars c) (drop i s)) in case hi of None \<Rightarrow> n | Some m \<Rightarrow> min m n)"

text \<open>How many bytes of a text a letter, and a word, fold with.\<close>

definition fold_char :: "char \<Rightarrow> string \<Rightarrow> nat option" where
  "fold_char ch t =
     (if t \<noteq> [] \<and> lower_char (hd t) = lower_char ch then Some 1
      else if lower_char ch = CHR ''s'' \<and> HasPrefix t [CHR 0xC5, CHR 0xBF] then Some 2
      else if lower_char ch = CHR ''k'' \<and> HasPrefix t [CHR 0xE2, CHR 0x84, CHR 0xAA] then Some 3
      else None)"

primrec fold_word :: "string \<Rightarrow> string \<Rightarrow> nat option" where
  "fold_word [] t = Some 0"
| "fold_word (ch # w) t =
     (case fold_char ch t of None \<Rightarrow> None | Some n \<Rightarrow> map_option ((+) n) (fold_word w (drop n t)))"

text \<open>The ends of the runs from a position, with the groups they leave, preferred ones first.\<close>

primrec runs :: "rx \<Rightarrow> string \<Rightarrow> nat \<Rightarrow> groups \<Rightarrow> (nat \<times> groups) list" where
  "runs (Lit w) s i g = (if HasPrefix (drop i s) w then [(i + length w, g)] else [])"
| "runs (Fold w) s i g = (case fold_word w (drop i s) of None \<Rightarrow> [] | Some n \<Rightarrow> [(i + n, g)])"
| "runs (Many c lo hi lazy) s i g =
     (let ks = map (\<lambda>k. (i + k, g)) [lo ..< Suc (stretch c hi s i)] in if lazy then ks else rev ks)"
| "runs Bound s i g = (if (0 < i \<and> word_at s (i - 1)) \<noteq> word_at s i then [(i, g)] else [])"
| "runs (Grp n r) s i g = map (\<lambda>(j, g'). (j, (n, i, j) # g')) (runs r s i g)"
| "runs (Seq a b) s i g = concat (map (\<lambda>(j, g'). runs b s j g') (runs a s i g))"
| "runs (Alt a b) s i g = runs a s i g @ runs b s i g"

section \<open>Matches\<close>

record match =
  m_start :: nat
  m_end :: nat
  m_groups :: groups

definition find_match :: "rx \<Rightarrow> string \<Rightarrow> nat \<Rightarrow> match option" where
  "find_match r s i =
     (case find (\<lambda>k. runs r s k [] \<noteq> []) [i ..< Suc (length s)] of
        None \<Rightarrow> None
      | Some k \<Rightarrow> Some \<lparr>m_start = k, m_end = fst (hd (runs r s k [])), m_groups = snd (hd (runs r s k []))\<rparr>)"

lemma find_match_Some:
  assumes "find_match r s i = Some m"
  shows "i \<le> m_start m" "m_start m \<le> length s" "(m_end m, m_groups m) \<in> set (runs r s (m_start m) [])"
    "\<And>k. i \<le> k \<Longrightarrow> k < m_start m \<Longrightarrow> runs r s k [] = []"
proof -
  let ?P = "\<lambda>k. runs r s k [] \<noteq> []"
  from assms obtain k where f: "find ?P [i ..< Suc (length s)] = Some k"
    and m: "m_start m = k" "m_end m = fst (hd (runs r s k []))" "m_groups m = snd (hd (runs r s k []))"
    by (auto simp: find_match_def split: option.splits)
  from f obtain n where n: "n < length [i ..< Suc (length s)]" "?P ([i ..< Suc (length s)] ! n)"
    "k = [i ..< Suc (length s)] ! n" "\<forall>j<n. \<not> ?P ([i ..< Suc (length s)] ! j)"
    by (auto simp: find_Some_iff)
  from n(1) have "i + n < Suc (length s)" by (simp del: upt_Suc)
  then have "[i ..< Suc (length s)] ! n = i + n" by (rule nth_upt)
  with n(3) \<open>i + n < Suc (length s)\<close> have k: "k = i + n" "k \<le> length s" by simp_all
  from k m(1) show "i \<le> m_start m" "m_start m \<le> length s" by simp_all
  have "hd (runs r s k []) \<in> set (runs r s k [])" using n(2,3) by simp
  with m show "(m_end m, m_groups m) \<in> set (runs r s (m_start m) [])" by simp
  fix q assume q: "i \<le> q" "q < m_start m"
  then have "q - i < n" using k m(1) by simp
  moreover have "[i ..< Suc (length s)] ! (q - i) = q" using nth_upt [of i "q - i" "Suc (length s)"] q k m(1) by simp
  ultimately show "runs r s q [] = []" using n(4) by metis
qed

lemma find_match_None: "find_match r s i = None \<Longrightarrow> i \<le> k \<Longrightarrow> k \<le> length s \<Longrightarrow> runs r s k [] = []"
  by (auto simp: find_match_def find_None_iff split: option.splits)

text \<open>
  \<open>FindAllStringSubmatchIndex\<close>: after a match the search goes on at its end, one character
  further for an empty match.
\<close>

function findAll :: "rx \<Rightarrow> string \<Rightarrow> nat \<Rightarrow> match list" where
  "findAll r s i =
     (case find_match r s i of
        None \<Rightarrow> []
      | Some m \<Rightarrow> m # findAll r s (max (m_end m) (Suc (m_start m))))"
  by pat_completeness auto
termination
proof (relation "measure (\<lambda>(r, s, i). Suc (length s) - i)")
  fix r s i m
  assume "find_match r s i = Some m"
  from find_match_Some(1,2) [OF this]
  show "((r, s, max (m_end m) (Suc (m_start m))), (r, s, i)) \<in> measure (\<lambda>(r, s, i). Suc (length s) - i)" by auto
qed simp

declare findAll.simps [simp del]

text \<open>A group's text; a group that took no part is empty.\<close>

definition submatch :: "string \<Rightarrow> match \<Rightarrow> nat \<Rightarrow> string" where
  "submatch s m n =
     (if n = 0 then take (m_end m - m_start m) (drop (m_start m) s)
      else case map_of (m_groups m) n of None \<Rightarrow> [] | Some (a, b) \<Rightarrow> take (b - a) (drop a s))"

subsection \<open>Evaluation\<close>

text \<open>Equations that leave the rest of a pattern alone until there is a run to continue.\<close>

definition continue_runs :: "rx \<Rightarrow> string \<Rightarrow> (nat \<times> groups) list \<Rightarrow> (nat \<times> groups) list" where
  "continue_runs r s ends = concat (map (\<lambda>(j, g). runs r s j g) ends)"

lemma continue_runs_code [code]:
  "continue_runs r s [] = []"
  "continue_runs r s ((j, g) # ends) = runs r s j g @ continue_runs r s ends"
  by (simp_all add: continue_runs_def)

lemma runs_Seq_code: "runs (Seq a b) s i g = continue_runs b s (runs a s i g)"
  by (simp add: continue_runs_def)

lemmas runs_code [code] = runs.simps(1-5) runs_Seq_code runs.simps(7)

primrec scan_runs :: "rx \<Rightarrow> string \<Rightarrow> nat \<Rightarrow> nat \<Rightarrow> match option" where
  "scan_runs r s 0 k = None"
| "scan_runs r s (Suc n) k =
     (case runs r s k [] of [] \<Rightarrow> scan_runs r s n (Suc k) | e # es \<Rightarrow> Some \<lparr>m_start = k, m_end = fst e, m_groups = snd e\<rparr>)"

lemma find_match_code [code]: "find_match r s i = scan_runs r s (Suc (length s) - i) i"
proof -
  have "(case find (\<lambda>k. runs r s k [] \<noteq> []) [k ..< k + n] of None \<Rightarrow> None
      | Some k \<Rightarrow> Some \<lparr>m_start = k, m_end = fst (hd (runs r s k [])), m_groups = snd (hd (runs r s k []))\<rparr>) = scan_runs r s n k" for n k
  proof (induction n arbitrary: k)
    case (Suc n)
    from Suc [of "Suc k"] show ?case by (auto simp: upt_conv_Cons simp del: upt_Suc split: list.split)
  qed simp
  from this [of i "Suc (length s) - i"] show ?thesis
    by (cases "i \<le> Suc (length s)") (simp_all add: find_match_def del: upt_Suc)
qed

lemma lower_char_code [code]:
  "lower_char (Char b0 b1 b2 b3 b4 b5 b6 b7) =
     (if \<not> b7 \<and> b6 \<and> \<not> b5 \<and> (b0 \<or> b1 \<or> b2 \<or> b3 \<or> b4) \<and> \<not> (b4 \<and> b3 \<and> (b2 \<or> b1 \<and> b0))
      then Char b0 b1 b2 b3 b4 True b6 b7 else Char b0 b1 b2 b3 b4 b5 b6 b7)"
  by (cases b0; cases b1; cases b2; cases b3; cases b4; cases b5; cases b6; cases b7)
     (simp_all add: lower_char_def Let_def char_of_def odd_iff_mod_2_eq_one bit_0)

section \<open>Words a pattern needs\<close>

lemma fold_char_length: "fold_char ch t = Some n \<Longrightarrow> n \<le> length t"
  by (auto simp: fold_char_def HasPrefix_iff Suc_le_eq split: if_splits)

lemma fold_word_length: "fold_word w t = Some n \<Longrightarrow> n \<le> length t"
proof (induction w arbitrary: t n)
  case (Cons ch w)
  then obtain a b where ab: "fold_char ch t = Some a" "fold_word w (drop a t) = Some b" "n = a + b" by (auto split: option.splits)
  from Cons.IH [OF ab(2)] fold_char_length [OF ab(1)] ab(3) show ?case by simp
qed simp

definition ascii :: "string \<Rightarrow> bool" where
  "ascii s \<longleftrightarrow> (\<forall>ch\<in>set s. of_char ch < (128 :: nat))"

lemma ascii_drop: "ascii s \<Longrightarrow> ascii (drop n s)"
  by (auto simp: ascii_def dest: in_set_dropD)

lemma fold_char_ascii: "ascii t \<Longrightarrow> fold_char ch t = Some n \<Longrightarrow> n = 1 \<and> (\<exists>x u. t = x # u \<and> lower_char x = lower_char ch)"
  by (cases t) (auto simp: fold_char_def HasPrefix_iff ascii_def split: if_splits)

lemma fold_word_ascii: "ascii t \<Longrightarrow> fold_word w t = Some n \<Longrightarrow> n = length w \<and> HasPrefix (ToLower t) (ToLower w)"
proof (induction w arbitrary: t n)
  case Nil
  then show ?case by (simp add: ToLower_def HasPrefix_def)
next
  case (Cons ch w)
  then obtain a b where ab: "fold_char ch t = Some a" "fold_word w (drop a t) = Some b" "n = a + b" by (auto split: option.splits)
  from fold_char_ascii [OF Cons.prems(1) ab(1)] obtain x u where x: "a = 1" "t = x # u" "lower_char x = lower_char ch" by blast
  with Cons.IH [of u b] Cons.prems(1) ab show ?case by (auto simp: ascii_def ToLower_def HasPrefix_def)
qed

lemma runs_Fold: "(j, g') \<in> set (runs (Fold w) s i g) \<Longrightarrow> \<exists>n. fold_word w (drop i s) = Some n \<and> j = i + n \<and> g' = g"
  by (cases "fold_word w (drop i s)") auto

lemma runs_bounds: "(j, g') \<in> set (runs r s i g) \<Longrightarrow> i \<le> length s \<Longrightarrow> i \<le> j \<and> j \<le> length s"
proof (induction r arbitrary: i j g g')
  case (Lit w)
  then show ?case by (auto simp: HasPrefix_iff split: if_splits) (metis diff_add_inverse le_add_diff_inverse length_append length_drop nat_add_left_cancel_le le_add1)
next
  case (Fold w)
  with runs_Fold obtain n where "fold_word w (drop i s) = Some n" "j = i + n" by blast
  with fold_word_length [of w "drop i s" n] Fold.prems(2) show ?case by simp
next
  case (Many c lo hi lazy)
  have "length (takeWhile (in_chars c) (drop i s)) \<le> length (drop i s)" by (rule length_takeWhile_le)
  then have "stretch c hi s i \<le> length s - i" by (auto simp: stretch_def Let_def split: option.split)
  with Many show ?case by (auto simp: Let_def split: if_splits)
next
  case (Seq a b)
  then show ?case by (fastforce intro: order_trans)
next
  case (Alt a b)
  then show ?case by auto
qed (auto split: if_splits)

definition span :: "string \<Rightarrow> nat \<Rightarrow> nat \<Rightarrow> string" where
  "span s i j = take (j - i) (drop i s)"

lemma span_same [simp]: "span s i i = []"
  by (simp add: span_def)

lemma span_append: "i \<le> j \<Longrightarrow> j \<le> k \<Longrightarrow> span s i j @ span s j k = span s i k"
proof -
  assume "i \<le> j" "j \<le> k"
  then obtain a b where "j = i + a" "k = i + a + b" by (metis le_add_diff_inverse)
  then show ?thesis by (simp add: span_def take_add add.commute)
qed

lemma span_prefix: "HasPrefix (drop i s) w \<Longrightarrow> span s i (i + length w) = w"
  by (simp add: span_def HasPrefix_def)

text \<open>The text with or without regard to case.\<close>

definition view :: "bool \<Rightarrow> string \<Rightarrow> string" where
  "view f s = (if f then ToLower s else s)"

lemma view_append [simp]: "view f (s @ t) = view f s @ view f t"
  by (simp add: view_def ToLower_def)

lemma ToLower_take [simp]: "ToLower (take n s) = take n (ToLower s)" "ToLower (drop n s) = drop n (ToLower s)" "length (ToLower s) = length s"
  by (simp_all add: ToLower_def take_map drop_map)

text \<open>The words of a pattern with finitely many of them.\<close>

primrec words :: "bool \<Rightarrow> rx \<Rightarrow> string list option" where
  "words f (Lit w) = Some [view f w]"
| "words f (Fold w) = (if f then Some [ToLower w] else None)"
| "words f (Many c lo hi lazy) =
     (case c of
        In rs \<Rightarrow> (if lo = 1 \<and> hi = Some 1 \<and> list_all (\<lambda>(a, b). a = b) rs then Some (map (\<lambda>(a, b). view f [a]) rs) else None)
      | NotIn rs \<Rightarrow> None)"
| "words f Bound = Some [[]]"
| "words f (Grp n r) = words f r"
| "words f (Seq a b) =
     (case (words f a, words f b) of (Some us, Some vs) \<Rightarrow> Some (concat (map (\<lambda>u. map (\<lambda>v. u @ v) vs) us)) | _ \<Rightarrow> None)"
| "words f (Alt a b) = (case (words f a, words f b) of (Some us, Some vs) \<Rightarrow> Some (us @ vs) | _ \<Rightarrow> None)"

lemma Contains_iff: "Contains s p \<longleftrightarrow> (\<exists>u v. s = u @ p @ v)"
proof (induction s)
  case Nil
  then show ?case by (simp add: Contains_def)
next
  case (Cons ch s)
  have "Contains (ch # s) p \<longleftrightarrow> HasPrefix (ch # s) p \<or> Contains s p" by (simp add: Contains_def)
  also have "\<dots> \<longleftrightarrow> (\<exists>v. ch # s = p @ v) \<or> (\<exists>u v. ch # s = (ch # u) @ p @ v)" by (simp add: HasPrefix_iff Cons.IH)
  also have "\<dots> \<longleftrightarrow> (\<exists>u v. ch # s = u @ p @ v)" by (auto simp: Cons_eq_append_conv)
  finally show ?case .
qed

lemma Contains_span: "Contains (view f (span s i j)) g \<Longrightarrow> Contains (view f s) g"
proof -
  assume "Contains (view f (span s i j)) g"
  moreover have "s = take i s @ span s i j @ drop (j - i) (drop i s)" by (simp only: span_def append_take_drop_id)
  then have "view f s = view f (take i s) @ view f (span s i j) @ view f (drop (j - i) (drop i s))" by (metis view_append)
  ultimately show ?thesis unfolding Contains_iff by (metis append.assoc)
qed

lemma words_sound:
  "(f \<longrightarrow> ascii s) \<Longrightarrow> words f r = Some ws \<Longrightarrow> (j, g') \<in> set (runs r s i g) \<Longrightarrow> i \<le> length s \<Longrightarrow> view f (span s i j) \<in> set ws"
proof (induction r arbitrary: i j g g' ws)
  case (Lit w)
  then show ?case by (auto simp: span_prefix split: if_splits)
next
  case (Fold w)
  from runs_Fold [OF Fold.prems(3)] Fold.prems(2) obtain n where "fold_word w (drop i s) = Some n" "j = i + n" "ws = [ToLower w]" "f"
    by (auto split: if_splits)
  with Fold.prems(1) fold_word_ascii [OF ascii_drop] have "HasPrefix (drop i (ToLower s)) (ToLower w)" "j = i + length w" by fastforce+
  then have "ToLower (span s i j) = ToLower w" by (simp add: span_def HasPrefix_def)
  with \<open>f\<close> \<open>ws = [ToLower w]\<close> show ?case by (simp add: view_def)
next
  case (Many c lo hi lazy)
  then obtain rs where c: "c = In rs" "lo = 1" "hi = Some 1" "list_all (\<lambda>(a, b). a = b) rs" "ws = map (\<lambda>(a, b). view f [a]) rs"
    by (auto split: chars.splits if_splits)
  with Many.prems(3) have k: "1 \<le> stretch (In rs) (Some 1) s i" "j = i + 1" by (auto simp: stretch_def Let_def split: if_splits)
  then have "takeWhile (in_chars (In rs)) (drop i s) \<noteq> []" by (auto simp: stretch_def Let_def)
  then obtain ch rest where d: "drop i s = ch # rest" "in_chars (In rs) ch" by (cases "drop i s") (auto split: if_splits)
  then obtain a b where "(a, b) \<in> set rs" "a \<le> ch" "ch \<le> b" by (auto simp: list_ex_iff)
  with c(4) have "(ch, ch) \<in> set rs" by (fastforce simp: list_all_iff)
  then show ?case using k(2) c(5) d(1) by (force simp: span_def)
next
  case Bound
  then show ?case by (auto simp: view_def ToLower_def split: if_splits)
next
  case (Grp n r)
  then show ?case by auto
next
  case (Seq a b)
  from Seq.prems(2) obtain us vs where w: "words f a = Some us" "words f b = Some vs"
    "ws = concat (map (\<lambda>u. map (\<lambda>v. u @ v) vs) us)" by (auto split: option.splits)
  from Seq.prems(3) obtain k h where k: "(k, h) \<in> set (runs a s i g)" "(j, g') \<in> set (runs b s k h)" by auto
  have b: "i \<le> k" "k \<le> length s" "k \<le> j" using runs_bounds [OF k(1) Seq.prems(4)] runs_bounds [OF k(2)] by auto
  have "view f (span s i k) \<in> set us" "view f (span s k j) \<in> set vs"
    using Seq.IH(1) [OF Seq.prems(1) w(1) k(1) Seq.prems(4)] Seq.IH(2) [OF Seq.prems(1) w(2) k(2) b(2)] .
  then show ?case by (auto simp: w(3) span_append [OF b(1,3), symmetric])
next
  case (Alt a b)
  then show ?case by (auto split: option.splits)
qed

text \<open>Every word of the pattern contains one of the given ones.\<close>

primrec needs :: "bool \<Rightarrow> string list \<Rightarrow> rx \<Rightarrow> bool" where
  "needs f gs (Lit w) \<longleftrightarrow> (\<exists>g\<in>set gs. Contains (view f w) g)"
| "needs f gs (Fold w) \<longleftrightarrow> f \<and> (\<exists>g\<in>set gs. Contains (ToLower w) g)"
| "needs f gs (Many c lo hi lazy) \<longleftrightarrow> False"
| "needs f gs Bound \<longleftrightarrow> False"
| "needs f gs (Grp n r) \<longleftrightarrow> needs f gs r"
| "needs f gs (Seq a b) \<longleftrightarrow>
     (case words f (Seq a b) of Some ws \<Rightarrow> \<forall>w\<in>set ws. \<exists>g\<in>set gs. Contains w g | None \<Rightarrow> needs f gs a \<or> needs f gs b)"
| "needs f gs (Alt a b) \<longleftrightarrow> needs f gs a \<and> needs f gs b"

lemma needs_span:
  "(f \<longrightarrow> ascii s) \<Longrightarrow> needs f gs r \<Longrightarrow> (j, g') \<in> set (runs r s i g) \<Longrightarrow> i \<le> length s \<Longrightarrow> \<exists>w\<in>set gs. Contains (view f (span s i j)) w"
proof (induction r arbitrary: i j g g')
  case (Lit w)
  then show ?case by (auto simp: span_prefix split: if_splits)
next
  case (Fold w)
  from runs_Fold [OF Fold.prems(3)] Fold.prems(2) obtain n where "fold_word w (drop i s) = Some n" "j = i + n" f by auto
  with Fold.prems(1) fold_word_ascii [OF ascii_drop] have "HasPrefix (drop i (ToLower s)) (ToLower w)" "j = i + length w" by fastforce+
  then have "ToLower (span s i j) = ToLower w" by (simp add: span_def HasPrefix_def)
  with Fold show ?case by (simp add: view_def)
next
  case (Seq a b)
  show ?case
  proof (cases "words f (Seq a b)")
    case (Some ws)
    with Seq.prems have "view f (span s i j) \<in> set ws" "\<forall>w\<in>set ws. \<exists>g\<in>set gs. Contains w g"
      by (blast intro: words_sound) (use Some Seq.prems(2) in \<open>simp del: words.simps\<close>)
    then show ?thesis by blast
  next
    case None
    from Seq.prems(3) obtain k h where k: "(k, h) \<in> set (runs a s i g)" "(j, g') \<in> set (runs b s k h)" by auto
    have b: "i \<le> k" "k \<le> length s" "k \<le> j" using runs_bounds [OF k(1) Seq.prems(4)] runs_bounds [OF k(2)] by auto
    have "needs f gs a \<or> needs f gs b" using Seq.prems(2) None by (simp del: words.simps)
    then have "\<exists>w\<in>set gs. Contains (view f (span s i k)) w \<or> Contains (view f (span s k j)) w"
      using Seq.IH(1) [OF Seq.prems(1) _ k(1) Seq.prems(4)] Seq.IH(2) [OF Seq.prems(1) _ k(2) b(2)] by blast
    then show ?thesis unfolding Contains_iff span_append [OF b(1,3), symmetric] view_append by (metis append.assoc)
  qed
qed auto

text \<open>A text without any of the words a pattern needs has no run of it.\<close>

lemma needs_findAll: "(f \<longrightarrow> ascii s) \<Longrightarrow> needs f gs r \<Longrightarrow> \<not> (\<exists>w\<in>set gs. Contains (view f s) w) \<Longrightarrow> findAll r s i = []"
proof -
  assume a: "f \<longrightarrow> ascii s" and n: "needs f gs r" and none: "\<not> (\<exists>w\<in>set gs. Contains (view f s) w)"
  have "runs r s k [] = []" if "k \<le> length s" for k
    using needs_span [OF a n _ that] none Contains_span by (metis list.set_intros(1) neq_Nil_conv prod.exhaust)
  then have "find_match r s i = None" by (auto simp: find_match_def find_None_iff simp del: upt_Suc split: option.split)
  then show ?thesis by (simp add: findAll.simps)
qed

end
