(* ===== verification/ScrubVet.thy ===== *)
theory ScrubVet
  imports Scrub
begin

text \<open>
  Vetting and gates of the scrubber: the entropy floor as a comparison of integers and as a bound
  on the number of distinct bytes, and the search with two cursors as a search in the lowered text.
\<close>

section \<open>Entropy\<close>

lemma freq_sum: "(\<Sum>b<256. freq s b) = length s"
proof (induction s)
  case Nil
  then show ?case by (simp add: freq_def)
next
  case (Cons ch s)
  have "(\<Sum>b<256. freq (ch # s) b) = (\<Sum>b<256. freq s b + (if b = of_char ch then 1 else 0))"
    by (rule sum.cong) (auto simp: freq_def)
  also have "\<dots> = length s + 1" using Cons nat_of_char_less_256 [of ch] by (simp add: sum.distrib)
  finally show ?case by simp
qed

definition occurring :: "string \<Rightarrow> nat set" where
  "occurring s = {b. b < 256 \<and> freq s b \<noteq> 0}"

lemma occurring_finite [simp]: "finite (occurring s)"
  by (simp add: occurring_def)

lemma freq_count: "freq s (of_char ch) = count_list s ch"
  by (induction s) (auto simp: freq_def)

lemma occurring_set: "occurring s = of_char ` set s"
  by (auto simp: occurring_def freq_def filter_empty_conv)

lemma occurring_sum: "(\<Sum>b\<in>occurring s. freq s b) = length s"
proof -
  have "(\<Sum>b\<in>occurring s. freq s b) = (\<Sum>b<256. freq s b)"
    by (rule sum.mono_neutral_left) (auto simp: occurring_def)
  then show ?thesis by (simp add: freq_sum)
qed

lemma entropy_sum: "s \<noteq> [] \<Longrightarrow> shannonEntropy s =
    (\<Sum>b\<in>occurring s. - (real (freq s b) / real (length s) * log 2 (real (freq s b) / real (length s))))"
proof -
  assume "s \<noteq> []"
  have set: "occurring s = set (filter (\<lambda>b. freq s b \<noteq> 0) [0..<256])" by (auto simp: occurring_def)
  show ?thesis unfolding shannonEntropy_def set using \<open>s \<noteq> []\<close>
    by (simp only: if_False Let_def sum_list_distinct_conv_sum_set distinct_filter distinct_upt)
qed

text \<open>The entropy is the logarithm of a number, so the floor of three bits is a comparison of integers.\<close>

lemma entropy_log:
  assumes "s \<noteq> []"
  shows "real (length s) * shannonEntropy s =
    log 2 (real (length s) ^ length s) - log 2 (\<Prod>b\<in>occurring s. real (freq s b) ^ freq s b)"
proof -
  let ?n = "real (length s)"
  have n: "?n > 0" using assms by simp
  have pos: "0 < real (freq s b)" if "b \<in> occurring s" for b using that by (simp add: occurring_def)
  have "?n * shannonEntropy s = (\<Sum>b\<in>occurring s. real (freq s b) * log 2 ?n - real (freq s b) * log 2 (real (freq s b)))"
    unfolding entropy_sum [OF assms] sum_distrib_left
    by (rule sum.cong) (use n pos in \<open>auto simp: log_divide field_simps\<close>)
  also have "\<dots> = real (\<Sum>b\<in>occurring s. freq s b) * log 2 ?n - (\<Sum>b\<in>occurring s. log 2 (real (freq s b) ^ freq s b))"
    using pos by (simp add: sum_subtractf sum_distrib_right log_nat_power)
  also have "(\<Sum>b\<in>occurring s. log 2 (real (freq s b) ^ freq s b)) = log 2 (\<Prod>b\<in>occurring s. real (freq s b) ^ freq s b)"
    using pos by (simp add: log_def ln_prod sum_divide_distrib)
  finally show ?thesis using n by (simp add: occurring_sum log_nat_power)
qed

lemma entropy_floor:
  assumes "s \<noteq> []"
  shows "3 \<le> shannonEntropy s \<longleftrightarrow> 8 ^ length s * (\<Prod>ch\<leftarrow>remdups s. int (count_list s ch) ^ count_list s ch) \<le> int (length s) ^ length s"
proof -
  let ?n = "real (length s)" and ?P = "\<Prod>b\<in>occurring s. real (freq s b) ^ freq s b"
  have n: "?n > 0" using assms by simp
  have P: "?P > 0" by (rule prod_pos) (simp add: occurring_def)
  have "(3::real) = log 2 8" using log_pow_cancel [of 2 3] by simp
  then have "3 * ?n = log 2 (8 ^ length s)" by (simp add: log_nat_power)
  have "3 \<le> shannonEntropy s \<longleftrightarrow> 3 * ?n \<le> ?n * shannonEntropy s" using n by simp
  also have "\<dots> \<longleftrightarrow> log 2 (8 ^ length s) + log 2 ?P \<le> log 2 (?n ^ length s)"
    unfolding entropy_log [OF assms] \<open>3 * ?n = _\<close> by auto
  also have "log 2 (8 ^ length s) + log 2 ?P = log 2 (8 ^ length s * ?P)" using P by (subst log_mult) auto
  also have "log 2 (8 ^ length s * ?P) \<le> log 2 (?n ^ length s) \<longleftrightarrow> 8 ^ length s * ?P \<le> ?n ^ length s"
    by (rule log_le_cancel_iff) (use P n in simp_all)
  also have "?P = real_of_int (\<Prod>b\<in>occurring s. int (freq s b) ^ freq s b)" by simp
  also have "8 ^ length s * real_of_int (\<Prod>b\<in>occurring s. int (freq s b) ^ freq s b) \<le> ?n ^ length s \<longleftrightarrow>
      8 ^ length s * (\<Prod>b\<in>occurring s. int (freq s b) ^ freq s b) \<le> int (length s) ^ length s"
    by (simp only: of_int_le_iff [symmetric, where 'a = real] of_int_mult of_int_power of_int_numeral of_int_of_nat_eq)
  also have "(\<Prod>b\<in>occurring s. int (freq s b) ^ freq s b) = (\<Prod>ch\<in>set s. int (count_list s ch) ^ count_list s ch)"
    unfolding occurring_set by (simp add: prod.reindex inj_on_def freq_count)
  finally show ?thesis by (simp add: prod.distinct_set_conv_list [symmetric])
qed

lemma isHighEntropySecret_code [code]:
  "isHighEntropySecret v \<longleftrightarrow>
     \<not> looksLikePlaceholder v \<and> \<not> looksLikeCodeExpression v \<and> looksRandom v \<and> v \<noteq> [] \<and>
     8 ^ length v * (\<Prod>ch\<leftarrow>remdups v. int (count_list v ch) ^ count_list v ch) \<le> int (length v) ^ length v"
proof (cases "v = []")
  case True
  then show ?thesis by (simp add: isHighEntropySecret_def minSecretEntropy_def shannonEntropy_def)
next
  case False
  then show ?thesis unfolding isHighEntropySecret_def minSecretEntropy_def entropy_floor [OF False] by auto
qed

text \<open>Entropy is at most the logarithm of the number of distinct bytes.\<close>

lemma entropy_le_log_card:
  assumes "s \<noteq> []"
  shows "shannonEntropy s \<le> log 2 (card (occurring s))"
proof -
  let ?n = "real (length s)" and ?k = "real (card (occurring s))" and ?p = "\<lambda>b. real (freq s b) / real (length s)"
  have n: "?n > 0" using assms by simp
  have ne: "occurring s \<noteq> {}" using occurring_sum [of s] assms by auto
  then have k: "?k > 0" by (simp add: card_gt_0_iff)
  have pos: "0 < ?p b" if "b \<in> occurring s" for b using that n by (simp add: occurring_def)
  have one: "(\<Sum>b\<in>occurring s. ?p b) = 1"
    using n by (simp add: sum_divide_distrib [symmetric] of_nat_sum [symmetric] occurring_sum del: of_nat_sum)
  have "(\<Sum>b\<in>occurring s. ?p b * log 2 ?k) = log 2 ?k" using one by (simp only: sum_distrib_right [symmetric] mult_1)
  then have "shannonEntropy s - log 2 ?k = (\<Sum>b\<in>occurring s. - (?p b * log 2 (?p b)) - ?p b * log 2 ?k)"
    unfolding entropy_sum [OF assms] by (simp only: sum_subtractf)
  also have "\<dots> = (\<Sum>b\<in>occurring s. ?p b * ln (1 / (?p b * ?k)) / ln 2)"
  proof (rule sum.cong)
    have "- (p * log 2 p) - p * log 2 ?k = p * ln (1 / (p * ?k)) / ln 2" if "p > 0" for p
      using that k ne by (simp add: log_def ln_div ln_mult field_simps)
    then show "- (?p b * log 2 (?p b)) - ?p b * log 2 ?k = ?p b * ln (1 / (?p b * ?k)) / ln 2" if "b \<in> occurring s" for b
      using pos [OF that] by metis
  qed simp
  also have "\<dots> \<le> (\<Sum>b\<in>occurring s. ?p b * (1 / (?p b * ?k) - 1) / ln 2)"
  proof (rule sum_mono)
    have "p * ln (1 / (p * ?k)) / ln 2 \<le> p * (1 / (p * ?k) - 1) / ln 2" if "p > 0" for p
      using that k ln_le_minus_one [of "1 / (p * ?k)"] by (intro divide_right_mono mult_left_mono) auto
    then show "?p b * ln (1 / (?p b * ?k)) / ln 2 \<le> ?p b * (1 / (?p b * ?k) - 1) / ln 2" if "b \<in> occurring s" for b
      using pos [OF that] by metis
  qed
  also have "\<dots> = (\<Sum>b\<in>occurring s. (1 / ?k - ?p b)) / ln 2"
    unfolding sum_divide_distrib
  proof (rule sum.cong)
    have "p * (1 / (p * ?k) - 1) = 1 / ?k - p" if "p > 0" for p using that k by (simp add: right_diff_distrib)
    then show "?p b * (1 / (?p b * ?k) - 1) / ln 2 = (1 / ?k - ?p b) / ln 2" if "b \<in> occurring s" for b
      using pos [OF that] by metis
  qed simp
  also have "\<dots> = 0" using k ne by (simp add: sum_subtractf one)
  finally show ?thesis by simp
qed

section \<open>Searching a gate\<close>

lemma IndexByte_Some: "Index s [ch] = Some j \<longleftrightarrow> j < length s \<and> s ! j = ch \<and> (\<forall>k<j. s ! k \<noteq> ch)"
proof (induction s arbitrary: j)
  case (Cons x s)
  then show ?case by (cases j) (auto simp: HasPrefix_def All_less_Suc2)
qed simp

lemma IndexByte_None: "Index s [ch] = None \<longleftrightarrow> ch \<notin> set s"
  by (induction s) (auto simp: HasPrefix_def)

lemma window_nth: "limit < length s \<Longrightarrow> start \<le> limit \<Longrightarrow> k \<le> limit - start \<Longrightarrow>
    take (limit + 1 - start) (drop start s) ! k = s ! (start + k)"
  by simp

lemma indexByteFrom_Some:
  assumes "limit < length s" "indexByteFrom s ch start limit = Some j"
  shows "start \<le> j" "j \<le> limit" "s ! j = ch" "\<And>k. start \<le> k \<Longrightarrow> k < j \<Longrightarrow> s ! k \<noteq> ch"
proof -
  from assms obtain i where i: "start \<le> limit" "Index (take (limit + 1 - start) (drop start s)) [ch] = Some i" "j = start + i"
    by (auto simp: indexByteFrom_def split: if_splits)
  then have "i < limit + 1 - start" "s ! (start + i) = ch" "\<forall>k<i. s ! (start + k) \<noteq> ch"
    using assms(1) by (auto simp: IndexByte_Some)
  with i show "start \<le> j" "j \<le> limit" "s ! j = ch" by auto
  fix k assume "start \<le> k" "k < j"
  with \<open>\<forall>k<i. s ! (start + k) \<noteq> ch\<close> i(3) show "s ! k \<noteq> ch" by (auto dest!: spec [of _ "k - start"])
qed

lemma indexByteFrom_None:
  "limit < length s \<Longrightarrow> indexByteFrom s ch start limit = None \<Longrightarrow> start \<le> k \<Longrightarrow> k \<le> limit \<Longrightarrow> s ! k \<noteq> ch"
proof -
  assume a: "limit < length s" "indexByteFrom s ch start limit = None" "start \<le> k" "k \<le> limit"
  then have "ch \<notin> set (take (limit + 1 - start) (drop start s))" by (auto simp: indexByteFrom_def IndexByte_None split: if_splits)
  moreover have "take (limit + 1 - start) (drop start s) ! (k - start) = s ! k" using a by simp
  moreover have "k - start < length (take (limit + 1 - start) (drop start s))" using a by auto
  ultimately show ?thesis by (metis nth_mem)
qed

text \<open>A window of the text that is the gate up to the case of letters.\<close>

definition window :: "string \<Rightarrow> string \<Rightarrow> nat \<Rightarrow> bool" where
  "window s needle i \<longleftrightarrow> EqualFold (take (length needle) (drop i s)) needle"

lemma lowerASCII_lower: "lowerASCII ch = lower_char ch"
  by (simp add: lowerASCII_def lower_char_def byte_in_def less_eq_char_def Let_def)

lemma fold_first: "lower_char x = lower_char ch \<Longrightarrow> x = lowerASCII ch \<or> x = upperASCII ch"
proof -
  assume eq: "lower_char x = lower_char ch"
  have x: "x = char_of (of_char x :: nat)" by simp
  show ?thesis
  proof (cases "byte_in (CHR ''A'') (CHR ''Z'') x")
    case True
    then have "of_char (lower_char x) = of_char x + (32 :: nat)"
      by (auto simp: lower_char_def byte_in_def less_eq_char_def Let_def)
    with eq have "of_char ch = (of_char x :: nat) \<or> of_char ch = of_char x + (32 :: nat)"
      by (auto simp: lower_char_def Let_def split: if_splits)
    then consider "ch = x" | "of_char ch = of_char x + (32 :: nat)" by (auto simp: of_char_eq_iff)
    then show ?thesis
    proof cases
      case 2
      then have "upperASCII ch = char_of (of_char x :: nat)" using True by (auto simp: upperASCII_def byte_in_def less_eq_char_def)
      then show ?thesis by simp
    qed (use True in \<open>auto simp: upperASCII_def byte_in_def less_eq_char_def\<close>)
  next
    case False
    then have "lower_char x = x" by (auto simp: lower_char_def byte_in_def less_eq_char_def Let_def)
    with eq show ?thesis by (simp add: lowerASCII_lower)
  qed
qed

lemma window_first:
  assumes "window s needle i" "needle \<noteq> []" "i + length needle \<le> length s"
  shows "s ! i = lowerASCII (hd needle) \<or> s ! i = upperASCII (hd needle)"
proof -
  have "lower_char (take (length needle) (drop i s) ! 0) = lower_char (needle ! 0)"
    using assms unfolding window_def EqualFold_def ToLower_def by (metis length_greater_0_conv length_map nth_map)
  then have "lower_char (s ! i) = lower_char (hd needle)" using assms by (simp add: hd_conv_nth)
  then show ?thesis by (rule fold_first)
qed

lemma scanOne_window:
  assumes "limit < length s" "\<And>k. k \<le> limit \<Longrightarrow> window s needle k \<Longrightarrow> s ! k = ch"
  shows "scanOne s needle ch limit i \<longleftrightarrow> (\<exists>k. i \<le> k \<and> k \<le> limit \<and> window s needle k)"
  using assms
proof (induction s needle ch limit i rule: scanOne.induct)
  case (1 s needle ch limit i)
  show ?case
  proof (cases "limit < i")
    case True
    then show ?thesis by (subst scanOne.simps) auto
  next
    case False
    show ?thesis
    proof (cases "indexByteFrom s ch i limit")
      case None
      then show ?thesis using False indexByteFrom_None [OF 1(2) None] 1(3) by (subst scanOne.simps) auto
    next
      case (Some j)
      note j = indexByteFrom_Some [OF 1(2) Some]
      show ?thesis
      proof (cases "window s needle j")
        case True
        then show ?thesis using False Some j by (subst scanOne.simps) (auto simp: window_def)
      next
        case no: False
        then have "scanOne s needle ch limit i = scanOne s needle ch limit (Suc j)"
          using False Some by (subst scanOne.simps) (auto simp: window_def)
        also have "\<dots> \<longleftrightarrow> (\<exists>k. Suc j \<le> k \<and> k \<le> limit \<and> window s needle k)"
          using False Some no 1(2,3) by (intro 1(1)) (auto simp: window_def)
        also have "\<dots> \<longleftrightarrow> (\<exists>k. i \<le> k \<and> k \<le> limit \<and> window s needle k)"
          using j(1,4) 1(3) no by (metis Suc_le_eq le_trans less_imp_le linorder_neqE_nat not_less)
        finally show ?thesis .
      qed
    qed
  qed
qed

text \<open>What a cursor says: its byte is where it points, and nowhere between \<open>i\<close> and there.\<close>

definition cursor_at :: "string \<Rightarrow> char \<Rightarrow> nat \<Rightarrow> nat \<Rightarrow> nat option \<Rightarrow> bool" where
  "cursor_at s ch limit i q \<longleftrightarrow>
     (case q of None \<Rightarrow> \<forall>k. i \<le> k \<and> k \<le> limit \<longrightarrow> s ! k \<noteq> ch
      | Some j \<Rightarrow> i \<le> j \<and> j \<le> limit \<and> s ! j = ch \<and> (\<forall>k. i \<le> k \<and> k < j \<longrightarrow> s ! k \<noteq> ch))"

lemma cursor_start: "limit < length s \<Longrightarrow> cursor_at s ch limit i (indexByteFrom s ch i limit)"
  by (cases "indexByteFrom s ch i limit") (auto simp: cursor_at_def dest: indexByteFrom_None indexByteFrom_Some)

lemma cursor_advance:
  "limit < length s \<Longrightarrow> cursor_at s ch limit i q \<Longrightarrow> i \<le> j \<Longrightarrow> (\<And>j'. q = Some j' \<Longrightarrow> j \<le> j') \<Longrightarrow>
    cursor_at s ch limit (Suc j) (advance s ch limit j q)"
  using cursor_start [of limit s ch "Suc j"] by (auto simp: advance_def cursor_at_def split: option.splits)

lemma first_cursor_None: "first_cursor p q = None \<longleftrightarrow> p = None \<and> q = None"
  by (auto simp: first_cursor_def split: option.splits)

lemma first_cursor_Some:
  "first_cursor p q = Some j \<Longrightarrow> (p = Some j \<or> q = Some j) \<and> (\<forall>j'. p = Some j' \<or> q = Some j' \<longrightarrow> j \<le> j')"
  by (auto simp: first_cursor_def split: option.splits if_splits)

lemma scanTwo_window:
  assumes "limit < length s" "\<And>k. k \<le> limit \<Longrightarrow> window s needle k \<Longrightarrow> s ! k = lo \<or> s ! k = up"
    "cursor_at s lo limit i nextLo" "cursor_at s up limit i nextUp"
  shows "scanTwo s needle lo up limit nextLo nextUp \<longleftrightarrow> (\<exists>k. i \<le> k \<and> k \<le> limit \<and> window s needle k)"
  using assms
proof (induction s needle lo up limit nextLo nextUp arbitrary: i rule: scanTwo.induct)
  case (1 s needle lo up limit nextLo nextUp)
  note cursors = 1(4,5) and bytes = 1(3)
  show ?case
  proof (cases "first_cursor nextLo nextUp")
    case None
    then have "nextLo = None" "nextUp = None" by (simp_all add: first_cursor_None)
    with None cursors bytes show ?thesis by (subst scanTwo.simps) (auto simp: cursor_at_def)
  next
    case (Some j)
    note f = first_cursor_Some [OF Some]
    then have j: "i \<le> j" "j \<le> limit" using cursors by (auto simp: cursor_at_def split: option.splits)
    have none: "s ! k \<noteq> lo \<and> s ! k \<noteq> up" if "i \<le> k" "k < j" for k
      using that cursors f j by (fastforce simp: cursor_at_def split: option.splits)
    show ?thesis
    proof (cases "window s needle j")
      case True
      then show ?thesis using Some j by (subst scanTwo.simps) (auto simp: window_def)
    next
      case no: False
      have "scanTwo s needle lo up limit nextLo nextUp =
          scanTwo s needle lo up limit (advance s lo limit j nextLo) (advance s up limit j nextUp)"
        using Some no by (subst scanTwo.simps) (auto simp: window_def)
      also have "\<dots> \<longleftrightarrow> (\<exists>k. Suc j \<le> k \<and> k \<le> limit \<and> window s needle k)"
        using Some no 1(2) bytes cursors f j by (intro 1(1)) (auto simp: window_def intro!: cursor_advance)
      also have "\<dots> \<longleftrightarrow> (\<exists>k. i \<le> k \<and> k \<le> limit \<and> window s needle k)"
        using none j bytes no by (metis Suc_le_eq le_trans less_imp_le linorder_neqE_nat not_less)
      finally show ?thesis .
    qed
  qed
qed

text \<open>The search with two cursors finds a gate exactly where lowering the whole text would.\<close>

lemma Contains_window: "Contains (ToLower s) (ToLower needle) \<longleftrightarrow> (\<exists>i. i + length needle \<le> length s \<and> window s needle i)"
proof
  assume "Contains (ToLower s) (ToLower needle)"
  then obtain i where "Index (ToLower s) (ToLower needle) = Some i" by (auto simp: Contains_def)
  from Index_Some [OF this] show "\<exists>i. i + length needle \<le> length s \<and> window s needle i"
    by (auto simp: window_def EqualFold_def)
next
  assume "\<exists>i. i + length needle \<le> length s \<and> window s needle i"
  then obtain i where i: "ToLower (span s i (i + length needle)) = ToLower needle" by (auto simp: window_def EqualFold_def span_def)
  have "Contains (view True s) (ToLower needle)"
    by (rule Contains_span [of _ _ i "i + length needle"]) (use i in \<open>simp add: view_def Contains_iff, metis append_Nil append_Nil2\<close>)
  then show "Contains (ToLower s) (ToLower needle)" by (simp add: view_def)
qed

lemma containsFold_iff [code]: "containsFold s needle \<longleftrightarrow> Contains (ToLower s) (ToLower needle)"
proof (cases "needle = [] \<or> length s < length needle")
  case True
  then show ?thesis by (auto simp: containsFold_def Contains_window) (auto simp: window_def EqualFold_def)
next
  case False
  define limit where "limit = length s - length needle"
  let ?lo = "lowerASCII (hd needle)" and ?up = "upperASCII (hd needle)"
  have limit: "limit < length s" "\<And>k. k \<le> limit \<longleftrightarrow> k + length needle \<le> length s" using False by (auto simp: limit_def intro!: diff_less)
  have first: "k \<le> limit \<Longrightarrow> window s needle k \<Longrightarrow> s ! k = ?lo \<or> s ! k = ?up" for k
    using window_first [of s needle k] False limit(2) by blast
  have "containsFold s needle \<longleftrightarrow> (\<exists>k. 0 \<le> k \<and> k \<le> limit \<and> window s needle k)"
  proof (cases "?lo = ?up")
    case True
    then show ?thesis using False scanOne_window [OF limit(1), of needle ?lo 0] first
      by (simp add: containsFold_def limit_def [symmetric] Let_def)
  next
    case ne: False
    then show ?thesis using False scanTwo_window [OF limit(1) first cursor_start cursor_start, of needle 0] limit(1)
      by (simp add: containsFold_def limit_def [symmetric] Let_def)
  qed
  then show ?thesis by (simp add: Contains_window limit(2))
qed

end
