(* ===== verification/ScrubProps.thy ===== *)
theory ScrubProps
  imports ScrubVet
begin

text \<open>
  What the scrubber does to a text: a rule that is skipped would have found nothing, every rule
  replaces parts of the text by markers and leaves the rest as it is, and a credential of the rules
  that look at nothing around it does not survive.
\<close>

section \<open>The gates\<close>

lemma gated_iff: "gated s r \<longleftrightarrow> (\<exists>g\<in>set (ru_gates r). Contains s g) \<or> (\<exists>g\<in>set (ru_foldGates r). Contains (ToLower s) (ToLower g))"
  by (auto simp: gated_def list_ex_iff containsFold_iff)

lemma rules_need:
  "list_all (\<lambda>r. ru_kind r = KindAuthBasic \<or> needs False (ru_gates r) (ru_re r) \<or>
     ru_foldGates r \<noteq> [] \<and> needs True (map ToLower (ru_foldGates r)) (ru_re r)) rules"
  by code_simp

lemma ungated_none:
  assumes "r \<in> set rules" "ru_kind r \<noteq> KindAuthBasic" "ascii s \<or> ru_foldGates r = []" "\<not> gated s r"
  shows "findAll (ru_re r) s i = []"
proof -
  from rules_need assms(1,2) consider "needs False (ru_gates r) (ru_re r)"
    | "ru_foldGates r \<noteq> []" "needs True (map ToLower (ru_foldGates r)) (ru_re r)"
    by (auto simp: list_all_iff)
  then show ?thesis
  proof cases
    case 1
    then show ?thesis by (rule needs_findAll [rotated]) (use assms(4) in \<open>auto simp: gated_iff view_def\<close>)
  next
    case 2
    then show ?thesis using assms(3,4)
      by (intro needs_findAll [of True s "map ToLower (ru_foldGates r)"]) (auto simp: gated_iff view_def)
  qed
qed

section \<open>Patterns that look at nothing but what they match\<close>

text \<open>The brackets of a marker, and the bytes of U+FFFD that stand for a NUL on the server.\<close>

definition foreign :: string where "foreign = ''[]'' @ [CHR 0xEF, CHR 0xBF, CHR 0xBD]"

definition bare :: "string \<Rightarrow> bool" where
  "bare w \<longleftrightarrow> set w \<inter> set foreign = {}"

text \<open>No word boundary, no group, no folding, and no bracket in what is matched.\<close>

primrec plain :: "rx \<Rightarrow> bool" where
  "plain (Lit w) \<longleftrightarrow> list_all (\<lambda>ch. ch \<notin> set foreign) w"
| "plain (Fold w) \<longleftrightarrow> False"
| "plain (Many c lo hi lazy) \<longleftrightarrow> list_all (\<lambda>ch. \<not> in_chars c ch) foreign"
| "plain Bound \<longleftrightarrow> False"
| "plain (Grp n r) \<longleftrightarrow> False"
| "plain (Seq a b) \<longleftrightarrow> plain a \<and> plain b"
| "plain (Alt a b) \<longleftrightarrow> plain a \<and> plain b"

lemma stretch_le: "k \<le> stretch c hi s i \<longleftrightarrow>
    k \<le> length (takeWhile (in_chars c) (drop i s)) \<and> (case hi of None \<Rightarrow> True | Some m \<Rightarrow> k \<le> m)"
  by (auto simp: stretch_def Let_def split: option.split)

lemma takeWhile_prefix: "k \<le> length (takeWhile P xs) \<longleftrightarrow> k \<le> length xs \<and> (\<forall>ch\<in>set (take k xs). P ch)"
  by (induction xs arbitrary: k) (auto simp: take_Cons' split: if_splits, (metis Suc_pred not_less_eq_eq zero_less_iff_neq_zero gr0I le_0_eq)+)

lemma runs_Many: "(j, g') \<in> set (runs (Many c lo hi lazy) s i g) \<longleftrightarrow>
    (\<exists>k. j = i + k \<and> g' = g \<and> lo \<le> k \<and> k \<le> length (drop i s) \<and> (\<forall>ch\<in>set (take k (drop i s)). in_chars c ch) \<and>
       (case hi of None \<Rightarrow> True | Some m \<Rightarrow> k \<le> m))"
proof -
  have "set (runs (Many c lo hi lazy) s i g) = (\<lambda>k. (i + k, g)) ` {k. lo \<le> k \<and> k \<le> stretch c hi s i}"
    by (auto simp: Let_def less_Suc_eq_le simp del: upt_Suc)
  then show ?thesis unfolding stretch_le takeWhile_prefix by blast
qed

lemma runs_local:
  "plain r \<Longrightarrow> (j, g') \<in> set (runs r s i g) \<Longrightarrow> i \<le> length s \<Longrightarrow> drop i' s' = span s i j @ v \<Longrightarrow>
    g' = g \<and> (i' + (j - i), g) \<in> set (runs r s' i' g)"
proof (induction r arbitrary: i j g g' i' v)
  case (Lit w)
  then show ?case by (auto simp: span_prefix split: if_splits)
next
  case (Many c lo hi lazy)
  from Many.prems(2) obtain k where k: "j = i + k" "g' = g" "lo \<le> k" "k \<le> length (drop i s)"
    "\<forall>ch\<in>set (take k (drop i s)). in_chars c ch" "case hi of None \<Rightarrow> True | Some m \<Rightarrow> k \<le> m"
    unfolding runs_Many by blast
  then have w: "span s i j = take k (drop i s)" "length (take k (drop i s)) = k" by (simp_all add: span_def)
  have "take k (drop i' s') = take k (drop i s)" "k \<le> length (drop i' s')" unfolding Many.prems(4) w(1) using w(2) k(4) by simp_all
  then show ?case using k by (auto simp: runs_Many simp del: runs.simps length_drop)
next
  case (Seq a b)
  from Seq.prems(2) obtain k h where k: "(k, h) \<in> set (runs a s i g)" "(j, g') \<in> set (runs b s k h)" by auto
  have b: "i \<le> k" "k \<le> length s" "k \<le> j" using runs_bounds [OF k(1) Seq.prems(3)] runs_bounds [OF k(2)] by auto
  have d: "drop i' s' = span s i k @ span s k j @ v" using Seq.prems(4) span_append [OF b(1,3)] by (metis append.assoc)
  with Seq.IH(1) [OF _ k(1) Seq.prems(3) d] Seq.prems(1) have 1: "h = g" "(i' + (k - i), g) \<in> set (runs a s' i' g)" by auto
  have "length (span s i k) = k - i" using b by (simp add: span_def)
  with d have "drop (i' + (k - i)) s' = span s k j @ v" by (metis add.commute append_eq_conv_conj drop_drop)
  with Seq.IH(2) [OF _ k(2) b(2) this] Seq.prems(1) have "g' = h" "(i' + (k - i) + (j - k), h) \<in> set (runs b s' (i' + (k - i)) h)" by auto
  then show ?case using 1 b by force
next
  case (Alt a b)
  then show ?case by auto
qed (auto simp: plain_def)

lemma runs_bare: "plain r \<Longrightarrow> (j, g') \<in> set (runs r s i g) \<Longrightarrow> i \<le> length s \<Longrightarrow> bare (span s i j)"
proof (induction r arbitrary: i j g g')
  case (Lit w)
  then show ?case by (auto simp: span_prefix bare_def list_all_iff split: if_splits)
next
  case (Many c lo hi lazy)
  then show ?case by (auto simp: runs_Many span_def bare_def list_all_iff split: chars.splits simp del: runs.simps)
next
  case (Seq a b)
  from Seq.prems(2) obtain k h where k: "(k, h) \<in> set (runs a s i g)" "(j, g') \<in> set (runs b s k h)" by auto
  have b: "i \<le> k" "k \<le> length s" "k \<le> j" using runs_bounds [OF k(1) Seq.prems(3)] runs_bounds [OF k(2)] by auto
  have "bare (span s i k)" "bare (span s k j)" using Seq.IH(1) [OF _ k(1) Seq.prems(3)] Seq.IH(2) [OF _ k(2) b(2)] Seq.prems(1) by auto
  then show ?case unfolding span_append [OF b(1,3), symmetric] bare_def by auto
next
  case (Alt a b)
  then show ?case by auto
qed auto

text \<open>A text in which a pattern has no run, in terms of the words it contains.\<close>

definition absent :: "rx \<Rightarrow> string \<Rightarrow> bool" where
  "absent r s \<longleftrightarrow> (\<forall>i \<le> length s. runs r s i [] = [])"

lemma Contains_at: "Contains s w \<longleftrightarrow> (\<exists>i v. i \<le> length s \<and> drop i s = w @ v)"
  unfolding Contains_iff by (metis append_eq_conv_conj append_take_drop_id le_add1 length_append)

lemma absent_iff: "plain r \<Longrightarrow> absent r s \<longleftrightarrow> (\<forall>w g. Contains s w \<longrightarrow> (length w, g) \<notin> set (runs r w 0 []))"
proof
  assume p: "plain r" and a: "absent r s"
  show "\<forall>w g. Contains s w \<longrightarrow> (length w, g) \<notin> set (runs r w 0 [])"
  proof (intro allI impI notI)
    fix w g assume "Contains s w" and run: "(length w, g) \<in> set (runs r w 0 [])"
    then obtain i v where i: "i \<le> length s" "drop i s = w @ v" by (auto simp: Contains_at)
    have "drop i s = span w 0 (length w) @ v" using i by (simp add: span_def)
    from runs_local [OF p run _ this] i a show False by (auto simp: absent_def)
  qed
next
  assume p: "plain r" and none: "\<forall>w g. Contains s w \<longrightarrow> (length w, g) \<notin> set (runs r w 0 [])"
  show "absent r s"
  proof (unfold absent_def, intro allI impI, rule ccontr)
    fix i assume i: "i \<le> length s" "runs r s i [] \<noteq> []"
    then obtain j g where run: "(j, g) \<in> set (runs r s i [])" by (metis list.set_intros(1) neq_Nil_conv prod.exhaust)
    have b: "i \<le> j" "j \<le> length s" using runs_bounds [OF run i(1)] by auto
    let ?w = "span s i j"
    have "drop 0 ?w = span s i j @ []" "length ?w = j - i" using b by (simp_all add: span_def)
    with runs_local [OF p run i(1), of 0 ?w "[]"] have "(length ?w, []) \<in> set (runs r ?w 0 [])" by simp
    moreover have "drop i s = ?w @ drop j s" using b by (metis append_take_drop_id drop_drop le_add_diff_inverse2 span_def)
    then have "Contains s ?w" using i by (auto simp: Contains_at)
    ultimately show False using none by blast
  qed
qed

section \<open>What a rule leaves of a text\<close>

text \<open>\<open>redacts s t\<close>: \<open>t\<close> is \<open>s\<close> with parts of it replaced by markers.\<close>

inductive redacts :: "string \<Rightarrow> string \<Rightarrow> bool" where
  none: "redacts [] []"
| kept: "redacts s t \<Longrightarrow> redacts (ch # s) (ch # t)"
| marked: "redacts s t \<Longrightarrow> k \<in> set Kinds \<Longrightarrow> redacts (u @ s) (redaction k @ t)"

lemma redacts_kept: "redacts s t \<Longrightarrow> redacts (u @ s) (u @ t)"
  by (induction u) (auto intro: redacts.kept)

lemma redacts_refl: "redacts s s"
  using redacts_kept [OF redacts.none, of s] by simp

lemma redacts_append: "redacts s t \<Longrightarrow> redacts s' t' \<Longrightarrow> redacts (s @ s') (t @ t')"
  by (induction rule: redacts.induct) (auto intro: redacts.intros)

text \<open>A word across two texts.\<close>

lemma Contains_append:
  "Contains (a @ b) w \<Longrightarrow> Contains a w \<or> Contains b w \<or> (\<exists>w1 w2. w = w1 @ w2 \<and> w1 \<noteq> [] \<and> w2 \<noteq> [] \<and> HasSuffix a w1 \<and> HasPrefix b w2)"
proof -
  assume "Contains (a @ b) w"
  then obtain u v where "a @ b = u @ w @ v" by (auto simp: Contains_iff)
  then consider x where "a = u @ w @ x" | x where "b = x @ w @ v"
    | w1 w2 where "w = w1 @ w2" "a = u @ w1" "b = w2 @ v" "w1 \<noteq> []" "w2 \<noteq> []"
    by (auto simp: append_eq_append_conv2) (metis append.assoc append_Nil append_Nil2)+
  then show ?thesis
  proof cases
    case 3
    then have "HasSuffix a w1" "HasPrefix b w2" by (auto simp: HasSuffix_iff HasPrefix_iff)
    with 3 show ?thesis by blast
  qed (auto simp: Contains_iff)
qed

lemma Contains_appendI: "Contains a w \<or> Contains b w \<Longrightarrow> Contains (a @ b) w"
  unfolding Contains_iff by (metis append.assoc)

lemma redaction_ends: "\<exists>m. redaction k = CHR ''['' # m" "\<exists>m. redaction k = m @ '']''"
  by (simp_all add: redaction_def)

lemma bare_marker:
  assumes "bare w" "w \<noteq> []"
  shows "\<not> HasPrefix (redaction k @ t) w" "\<not> HasSuffix (redaction k) w"
proof -
  obtain m where "redaction k = CHR ''['' # m" using redaction_ends(1) by blast
  with assms show "\<not> HasPrefix (redaction k @ t) w" by (cases w) (auto simp: bare_def foreign_def HasPrefix_def)
  obtain m where m: "redaction k = m @ '']''" using redaction_ends(2) by blast
  show "\<not> HasSuffix (redaction k) w"
  proof
    assume "HasSuffix (redaction k) w"
    then obtain x where "m @ '']'' = x @ w" using m by (auto simp: HasSuffix_iff)
    then have "last w = CHR '']''" using assms(2) by (metis last_appendR last_snoc)
    with assms show False by (auto simp: bare_def foreign_def dest: last_in_set)
  qed
qed

lemma Contains_marked:
  assumes "bare w" "Contains (a @ redaction k @ b) w" "w \<noteq> []"
  shows "Contains a w \<or> Contains (redaction k) w \<or> Contains b w"
proof -
  have parts: "bare w1 \<and> bare w2" if "w = w1 @ w2" for w1 w2 using assms(1) that by (auto simp: bare_def)
  from Contains_append [OF assms(2)] parts bare_marker(1) have "Contains a w \<or> Contains (redaction k @ b) w" by blast
  moreover have "Contains (redaction k @ b) w \<Longrightarrow> Contains (redaction k) w \<or> Contains b w"
    using Contains_append [of "redaction k" b w] parts bare_marker(2) by blast
  ultimately show ?thesis by blast
qed

text \<open>A word without brackets in the result was in the text, or is in a marker.\<close>

lemma redacts_prefix: "redacts s t \<Longrightarrow> bare w \<Longrightarrow> HasPrefix t w \<Longrightarrow> HasPrefix s w"
proof (induction arbitrary: w rule: redacts.induct)
  case (kept s t ch)
  then show ?case by (cases w) (auto simp: HasPrefix_def bare_def)
next
  case (marked s t k u)
  then show ?case using bare_marker(1) [of w k t] by (cases "w = []") (auto simp: HasPrefix_def)
qed

lemma redacts_bare:
  "redacts s t \<Longrightarrow> bare w \<Longrightarrow> w \<noteq> [] \<Longrightarrow> Contains t w \<Longrightarrow> Contains s w \<or> (\<exists>k\<in>set Kinds. Contains (redaction k) w)"
proof (induction rule: redacts.induct)
  case (kept s t ch)
  show ?case
  proof (cases "HasPrefix (ch # t) w")
    case True
    have "HasPrefix (ch # s) w" using redacts_prefix [OF redacts.kept [OF kept.hyps] kept.prems(1) True] .
    then show ?thesis by (auto simp: Contains_def)
  next
    case False
    then have "Contains t w" using kept.prems(3) by (auto simp: Contains_def)
    then show ?thesis using kept.IH kept.prems by (auto simp: Contains_def)
  qed
next
  case (marked s t k u)
  have "Contains (redaction k) w \<or> Contains t w"
    using Contains_marked [of w "[]" k t] marked.prems by (auto simp: Contains_def)
  then show ?case using marked.IH marked.prems marked.hyps(2) Contains_appendI by blast
qed simp

text \<open>So what was absent stays absent, unless a marker brings it.\<close>

lemma absent_redacts:
  assumes "plain r" "absent r s" "redacts s t" "\<And>k. k \<in> set Kinds \<Longrightarrow> absent r (redaction k)"
  shows "absent r t"
  unfolding absent_iff [OF assms(1)]
proof (intro allI impI notI)
  fix w g assume "Contains t w" and run: "(length w, g) \<in> set (runs r w 0 [])"
  have "bare (span w 0 (length w))" by (rule runs_bare [OF assms(1) run]) simp
  then have "bare w" by (simp add: span_def)
  have "Contains s w \<or> (\<exists>k\<in>set Kinds. Contains (redaction k) w)"
  proof (cases "w = []")
    case True
    then show ?thesis by (auto simp: Contains_iff)
  next
    case False
    show ?thesis by (rule redacts_bare [OF assms(3) \<open>bare w\<close> False \<open>Contains t w\<close>])
  qed
  then show False using assms(2,4) run unfolding absent_iff [OF assms(1)] by blast
qed

end
