(* ===== verification/ScrubMarks.thy ===== *)
theory ScrubMarks
  imports ScrubProps
begin

text \<open>
  A rule of the scrubber puts a marker in place of part of a match and keeps the rest, so the
  result of every rule is the text with parts replaced; and the whole-match rules leave nothing of
  theirs behind, whatever the other rules do to the text.
\<close>

section \<open>What a replacement keeps\<close>

lemma group_free: "group_count r = 0 \<Longrightarrow> (j, g') \<in> set (runs r s i g) \<Longrightarrow> g' = g"
  by (induction r arbitrary: i j g g') (auto simp: Let_def split: if_splits option.splits, blast+)

lemma runs_Seq: "(j, g') \<in> set (runs (Seq a b) s i g) \<longleftrightarrow> (\<exists>k h. (k, h) \<in> set (runs a s i g) \<and> (j, g') \<in> set (runs b s k h))"
  by force

lemma runs_Grp: "group_count a = 0 \<Longrightarrow> (j, g') \<in> set (runs (Grp n a) s i g) \<longleftrightarrow> (j, g) \<in> set (runs a s i g) \<and> g' = (n, i, j) # g"
  by (auto dest: group_free)

lemma runs_Lit: "(j, g') \<in> set (runs (Lit w) s i g) \<longleftrightarrow> HasPrefix (drop i s) w \<and> j = i + length w \<and> g' = g"
  by auto

lemma runs_Bound: "(j, g') \<in> set (runs Bound s i g) \<Longrightarrow> j = i \<and> g' = g"
  by (auto split: if_splits)

lemmas run_steps = runs_Seq runs_Grp runs_Lit

text \<open>The marker stands for part of the match; what is before and after it is kept.\<close>

definition marks :: "scrub_rule \<Rightarrow> string \<Rightarrow> match \<Rightarrow> bool" where
  "marks r s m \<longleftrightarrow> (\<exists>before secret after.
     span s (m_start m) (m_end m) = before @ secret @ after \<and>
     replacement r (submatches (ru_re r) s m) = before @ redaction (ru_kind r) @ after)"

definition is_match :: "rx \<Rightarrow> string \<Rightarrow> match \<Rightarrow> bool" where
  "is_match r s m \<longleftrightarrow> m_start m \<le> length s \<and> (m_end m, m_groups m) \<in> set (runs r s (m_start m) [])"

lemma is_match_bounds: "is_match r s m \<Longrightarrow> m_start m \<le> m_end m \<and> m_end m \<le> length s"
  by (auto simp: is_match_def dest: runs_bounds)

lemma marks_whole: "ru_repl r = None \<Longrightarrow> marks r s m"
  unfolding marks_def by (rule exI [of _ "[]"], rule exI, rule exI [of _ "[]"]) (simp add: replacement_def)

lemma nth_submatch: "n \<le> group_count r \<Longrightarrow> map_of (m_groups m) n = Some (a, b) \<Longrightarrow> n \<noteq> 0 \<Longrightarrow> submatches r s m ! n = span s a b"
  by (simp add: submatches_def submatch_def span_def del: upt_Suc)

text \<open>A name, an assignment and a value, of which the value is replaced.\<close>

lemma marks_assignment:
  assumes r: "ru_re r = seqs [Grp 1 a, Grp 2 b, Grp 3 c]" "group_count a = 0" "group_count b = 0" "group_count c = 0"
    "ru_repl r = Some (\<lambda>sub. sub ! 1 @ sub ! 2 @ redaction (ru_kind r))" and m: "is_match (ru_re r) s m"
  shows "marks r s m"
proof -
  obtain i where i: "i = m_start m" by simp
  from m r(2-4) obtain p q where g: "(p, []) \<in> set (runs a s i [])" "(q, [(1, i, p)]) \<in> set (runs b s p [(1, i, p)])"
      "(m_end m, [(2, p, q), (1, i, p)]) \<in> set (runs c s q [(2, p, q), (1, i, p)])"
      "m_groups m = [(3, q, m_end m), (2, p, q), (1, i, p)]"
    unfolding is_match_def r(1) seqs.simps run_steps i by (auto simp: run_steps simp del: runs.simps)
  have bounds: "i \<le> p" "p \<le> q" "q \<le> m_end m"
    using m runs_bounds [OF g(1)] runs_bounds [OF g(2)] runs_bounds [OF g(3)] by (auto simp: is_match_def i)
  have sub: "submatches (ru_re r) s m ! 1 = span s i p" "submatches (ru_re r) s m ! 2 = span s p q"
    using nth_submatch [of 1 "ru_re r" m i p s] nth_submatch [of 2 "ru_re r" m p q s] g(4) by (simp_all add: r(1-4))
  have "span s i (m_end m) = (span s i p @ span s p q) @ span s q (m_end m) @ []"
    using span_append [of i p q s] span_append [of i q "m_end m" s] bounds by simp
  moreover have "replacement r (submatches (ru_re r) s m) = (span s i p @ span s p q) @ redaction (ru_kind r) @ []"
    by (simp add: replacement_def r(5) sub [simplified])
  ultimately show ?thesis unfolding marks_def i by blast
qed

text \<open>An authorization scheme and its value.\<close>

lemma marks_scheme:
  assumes r: "ru_re r = seqs [Bound, Grp 1 a, Grp 2 b]" "group_count a = 0" "group_count b = 0"
    "ru_repl r = Some (\<lambda>sub. sub ! 1 @ redaction (ru_kind r))" and m: "is_match (ru_re r) s m"
  shows "marks r s m"
proof -
  obtain i where i: "i = m_start m" by simp
  from m r(2,3) obtain p where g: "(p, []) \<in> set (runs a s i [])" "(m_end m, [(1, i, p)]) \<in> set (runs b s p [(1, i, p)])"
      "m_groups m = [(2, p, m_end m), (1, i, p)]"
    unfolding is_match_def r(1) seqs.simps run_steps i by (auto simp: run_steps simp del: runs.simps dest!: runs_Bound)
  have bounds: "i \<le> p" "p \<le> m_end m"
    using m runs_bounds [OF g(1)] runs_bounds [OF g(2)] by (auto simp: is_match_def i)
  have sub: "submatches (ru_re r) s m ! 1 = span s i p" using nth_submatch [of 1 "ru_re r" m i p s] g(3) by (simp add: r(1-3))
  have "span s i (m_end m) = span s i p @ span s p (m_end m) @ []" using span_append bounds by simp
  moreover have "replacement r (submatches (ru_re r) s m) = span s i p @ redaction (ru_kind r) @ []"
    by (simp add: replacement_def r(4) sub [simplified])
  ultimately show ?thesis unfolding marks_def i by blast
qed

lemma marks_userinfo:
  assumes m: "is_match (ru_re db_password_rule) s m"
  shows "marks db_password_rule s m"
proof -
  obtain a b c where r: "ru_re db_password_rule = seqs [Grp 1 a, Lit ''://'', Grp 2 b, Lit '':'', Grp 3 c, Lit ''@'']"
      "group_count a = 0" "group_count b = 0" "group_count c = 0"
    by (simp add: db_password_rule_def Opt_def empty_rx_def)
  obtain i where i: "i = m_start m" by simp
  from m r(2-4) obtain p q q' e where g: "(p, []) \<in> set (runs a s i [])"
      "HasPrefix (drop p s) ''://''" "(q, [(1, i, p)]) \<in> set (runs b s (p + 3) [(1, i, p)])"
      "HasPrefix (drop q s) '':''" "(e, [(2, p + 3, q), (1, i, p)]) \<in> set (runs c s (q + 1) [(2, p + 3, q), (1, i, p)])"
      "HasPrefix (drop e s) ''@''" "m_end m = e + 1"
      "m_groups m = [(3, q + 1, e), (2, p + 3, q), (1, i, p)]"
    unfolding is_match_def r(1) seqs.simps run_steps i by (auto simp: run_steps numeral_3_eq_3 simp del: runs.simps)
  have len: "HasPrefix (drop k s) w \<Longrightarrow> w \<noteq> [] \<Longrightarrow> k + length w \<le> length s" for k w
    by (cases "k \<le> length s") (auto simp: HasPrefix_iff dest!: arg_cong [of _ _ length])
  have bounds: "i \<le> p" "p + 3 \<le> q" "q + 1 \<le> e" "e + 1 \<le> length s"
    using m len [OF g(2)] len [OF g(4)] len [OF g(6)] runs_bounds [OF g(1)] runs_bounds [OF g(3)] runs_bounds [OF g(5)]
    by (auto simp: is_match_def i)
  have lits: "span s p (p + 3) = ''://''" "span s q (q + 1) = '':''" "span s e (e + 1) = ''@''"
    using span_prefix [OF g(2)] span_prefix [OF g(4)] span_prefix [OF g(6)] by (simp_all add: numeral_3_eq_3)
  have sub: "submatches (ru_re db_password_rule) s m ! 1 = span s i p" "submatches (ru_re db_password_rule) s m ! 2 = span s (p + 3) q"
    by (rule nth_submatch; simp add: r g(8))+
  have "span s i (m_end m) = span s i p @ span s p (p + 3) @ span s (p + 3) q @ span s q (q + 1) @ span s (q + 1) e @ span s e (e + 1)"
    unfolding g(7) using bounds by (simp add: span_append)
  then have "span s i (m_end m) = (span s i p @ ''://'' @ span s (p + 3) q @ '':'') @ span s (q + 1) e @ ''@''"
    by (simp only: lits append.assoc)
  moreover have "replacement db_password_rule (submatches (ru_re db_password_rule) s m) =
      (span s i p @ ''://'' @ span s (p + 3) q @ '':'') @ redaction (ru_kind db_password_rule) @ ''@''"
    unfolding replacement_def using sub [simplified] by (simp add: db_password_rule_def)
  ultimately show ?thesis unfolding marks_def i by blast
qed

lemma rule_marks: "r \<in> set rules \<Longrightarrow> is_match (ru_re r) s m \<Longrightarrow> marks r s m"
proof -
  assume r: "r \<in> set rules" and m: "is_match (ru_re r) s m"
  have "list_all (\<lambda>r. ru_repl r = None) (key_block_rules @ vendor_rules)"
    by (simp add: key_block_rules_def vendor_rules_def whole_rule_def)
  with r consider "ru_repl r = None" | "r = db_password_rule" | "r = aws_secret_rule" | "r = auth_bearer_rule"
    | "r = auth_basic_rule" | "r = generic_secret_rule" by (auto simp: rules_def list_all_iff)
  then show ?thesis
  proof cases
    case 1
    then show ?thesis by (rule marks_whole)
  next
    case 2
    with m marks_userinfo show ?thesis by simp
  next
    case 3
    show ?thesis by (rule marks_assignment [OF _ _ _ _ _ m], simp only: 3, simp add: aws_secret_rule_def)
        (simp_all add: 3 aws_secret_rule_def assign_re_def Opt_def empty_rx_def at_least_def Chr_def)
  next
    case 4
    show ?thesis by (rule marks_scheme [OF _ _ _ _ m], simp only: 4, simp add: auth_bearer_rule_def)
        (simp_all add: 4 auth_bearer_rule_def at_least_def)
  next
    case 5
    show ?thesis by (rule marks_scheme [OF _ _ _ _ m], simp only: 5, simp add: auth_basic_rule_def)
        (simp_all add: 5 auth_basic_rule_def at_least_def)
  next
    case 6
    show ?thesis by (rule marks_assignment [OF _ _ _ _ _ m], simp only: 6, simp add: generic_secret_rule_def)
        (simp_all add: 6 generic_secret_rule_def assign_re_def Opt_def empty_rx_def at_least_def Chr_def)
  qed
qed

lemma find_is_match: "find_match r s i = Some m \<Longrightarrow> is_match r s m"
  by (simp add: is_match_def find_match_Some)

lemma rule_kinds: "r \<in> set rules \<Longrightarrow> ru_kind r \<in> set Kinds"
proof -
  have "map ru_kind rules = Kinds"
    by (simp add: rules_def key_block_rules_def vendor_rules_def whole_rule_def db_password_rule_def aws_secret_rule_def
        auth_bearer_rule_def auth_basic_rule_def generic_secret_rule_def Kinds_def)
  then show "r \<in> set rules \<Longrightarrow> ?thesis" by (metis image_eqI list.set_map)
qed

lemma hitLoop_redacts:
  "r \<in> set rules \<Longrightarrow> hitLoop r s (findAll (ru_re r) s i) b c h = (b', c', h') \<Longrightarrow> c \<le> i \<Longrightarrow> c \<le> length s \<Longrightarrow>
    redacts (take c s) b \<Longrightarrow> redacts (take c' s) b' \<and> c' \<le> length s"
proof (induction "ru_re r" s i arbitrary: b c h rule: findAll.induct)
  case (1 s i)
  show ?case
  proof (cases "find_match (ru_re r) s i")
    case None
    with 1(3,5,6) show ?thesis by (simp add: findAll.simps)
  next
    case (Some m)
    let ?n = "max (m_end m) (Suc (m_start m))" and ?sub = "submatches (ru_re r) s m"
    note match = find_is_match [OF Some] and start = find_match_Some(1) [OF Some]
    note bounds = is_match_bounds [OF match]
    have all: "findAll (ru_re r) s i = m # findAll (ru_re r) s ?n" by (subst findAll.simps) (simp add: Some)
    show ?thesis
    proof (cases "accepted r ?sub")
      case False
      with 1(3) all have "hitLoop r s (findAll (ru_re r) s ?n) b c h = (b', c', h')" by simp
      with 1(1) [OF Some 1(2)] 1(4-6) start show ?thesis by (auto simp: max_def)
    next
      case True
      let ?b = "b @ span s c (m_start m) @ replacement r ?sub"
      from True 1(3) all have h: "hitLoop r s (findAll (ru_re r) s ?n) ?b (m_end m) (h + 1) = (b', c', h')" by simp
      obtain u v w where m: "span s (m_start m) (m_end m) = u @ v @ w" "replacement r ?sub = u @ redaction (ru_kind r) @ w"
        using rule_marks [OF 1(2) match] by (auto simp: marks_def)
      have "redacts (u @ v @ w) (u @ redaction (ru_kind r) @ w)"
        by (intro redacts_kept redacts.marked redacts_refl rule_kinds 1(2))
      then have "redacts (take c s @ span s c (m_start m) @ span s (m_start m) (m_end m)) ?b"
        unfolding m by (rule redacts_append [OF 1(6) redacts_append [OF redacts_refl]])
      moreover have "take c s @ span s c (m_start m) @ span s (m_start m) (m_end m) = take (m_end m) s"
        using span_append [of 0 c "m_start m" s] span_append [of 0 "m_start m" "m_end m" s] bounds 1(4) start
        by (simp add: span_def) (metis append.assoc)
      ultimately have "redacts (take (m_end m) s) ?b" by simp
      with 1(1) [OF Some 1(2) h] bounds show ?thesis by simp
    qed
  qed
qed

lemma apply_redacts: "r \<in> set rules \<Longrightarrow> redacts s (fst (apply_rule r (s, counts)))"
proof -
  assume r: "r \<in> set rules"
  obtain b c h where h: "hitLoop r s (findAll (ru_re r) s 0) [] 0 0 = (b, c, h)" by (metis prod_cases3)
  with hitLoop_redacts [OF r h] have "redacts (take c s) b" by (simp add: redacts.none)
  then have "redacts (take c s @ drop c s) (b @ drop c s)" by (rule redacts_append) (rule redacts_refl)
  then show ?thesis using h by (auto simp: apply_rule_def Let_def intro: redacts_refl)
qed

section \<open>What does not survive\<close>

text \<open>The rules that look only at what they match: a credential found there is replaced as a whole.\<close>

lemma plain_rules:
  "list_all (\<lambda>r. plain (ru_re r) \<longrightarrow> Option.is_none (ru_repl r) \<and> Option.is_none (ru_accept r) \<and> ru_kind r \<noteq> KindAuthBasic \<and>
     ru_foldGates r = [] \<and> [] \<notin> set (ru_gates r) \<and> needs False (ru_gates r) (ru_re r) \<and>
     list_all (\<lambda>k. \<not> list_ex (Contains (redaction k)) (ru_gates r)) Kinds) rules"
  by code_simp

lemma plain_rule:
  assumes "r \<in> set rules" "plain (ru_re r)"
  shows "ru_repl r = None" "ru_accept r = None" "ru_kind r \<noteq> KindAuthBasic" "ru_foldGates r = []" "[] \<notin> set (ru_gates r)"
    "needs False (ru_gates r) (ru_re r)" "\<And>k. k \<in> set Kinds \<Longrightarrow> \<not> (\<exists>g\<in>set (ru_gates r). Contains (redaction k) g)"
  using plain_rules assms by (auto simp: list_all_iff list_ex_iff Option.is_none_def)

lemma absent_findAll: "findAll r s 0 = [] \<Longrightarrow> absent r s"
  by (auto simp: absent_def findAll.simps dest: find_match_None split: option.splits)

lemma absent_found: "absent r s \<Longrightarrow> findAll r s i = []"
  by (subst findAll.simps) (auto simp: absent_def find_match_def find_None_iff simp del: upt_Suc split: option.split)

lemma absent_ungated:
  assumes "r \<in> set rules" "plain (ru_re r)" "\<not> (\<exists>g\<in>set (ru_gates r). Contains s g)"
  shows "absent (ru_re r) s"
  by (rule absent_findAll, rule needs_findAll [of False]) (use plain_rule(6) assms in \<open>auto simp: view_def\<close>)

lemma absent_nothing: "r \<in> set rules \<Longrightarrow> plain (ru_re r) \<Longrightarrow> absent (ru_re r) []"
  by (rule absent_ungated) (auto dest: plain_rule(5) simp: Contains_iff)

lemma absent_marker: "r \<in> set rules \<Longrightarrow> plain (ru_re r) \<Longrightarrow> k \<in> set Kinds \<Longrightarrow> absent (ru_re r) (redaction k)"
  by (rule absent_ungated) (auto dest: plain_rule(7))

lemma run_not_empty: "r \<in> set rules \<Longrightarrow> plain (ru_re r) \<Longrightarrow> (j, g) \<in> set (runs (ru_re r) s i []) \<Longrightarrow> i \<le> length s \<Longrightarrow> i < j"
proof -
  assume r: "r \<in> set rules" "plain (ru_re r)" and run: "(j, g) \<in> set (runs (ru_re r) s i [])" "i \<le> length s"
  from needs_span [OF _ plain_rule(6) [OF r] run] obtain w where "w \<in> set (ru_gates r)" "Contains (span s i j) w"
    by (auto simp: view_def)
  with plain_rule(5) [OF r] have "span s i j \<noteq> []" by (auto simp: Contains_iff)
  then show ?thesis by (auto simp: span_def)
qed

text \<open>A stretch in which no run starts.\<close>

lemma absent_stretch:
  assumes "plain r" "i \<le> j" "j \<le> length s" "\<And>k. i \<le> k \<Longrightarrow> k < j \<Longrightarrow> runs r s k [] = []" "runs r [] 0 [] = []"
  shows "absent r (span s i j)"
  unfolding absent_iff [OF assms(1)]
proof (intro allI impI notI)
  fix w g assume c: "Contains (span s i j) w" and run: "(length w, g) \<in> set (runs r w 0 [])"
  then have "w \<noteq> []" using assms(5) by auto
  from c obtain u v where uv: "span s i j = u @ w @ v" by (auto simp: Contains_iff)
  then have len: "length u + length w \<le> j - i" using assms(2,3) by (metis length_append le_add1 add.assoc length_take length_drop min.bounded_iff span_def nat_le_linear order_trans)
  have "drop i s = (u @ w @ v) @ drop j s" using assms(2) unfolding uv [symmetric]
    by (metis append_take_drop_id drop_drop le_add_diff_inverse2 span_def)
  then have "drop (i + length u) s = span w 0 (length w) @ v @ drop j s"
    by (metis append.assoc append_eq_conv_conj drop_drop add.commute span_def take_all_iff drop0 diff_zero order_refl)
  from runs_local [OF assms(1) run _ this] have "runs r s (i + length u) [] \<noteq> []" by auto
  moreover have "i + length u < j" using len \<open>w \<noteq> []\<close> assms(2) by (cases w) auto
  ultimately show False using assms(4) by simp
qed

lemma absent_joined:
  assumes "plain r" "absent r a" "absent r (redaction k)" "absent r b" "runs r [] 0 [] = []"
  shows "absent r (a @ redaction k @ b)"
  unfolding absent_iff [OF assms(1)]
proof (intro allI impI notI)
  fix w g assume c: "Contains (a @ redaction k @ b) w" and run: "(length w, g) \<in> set (runs r w 0 [])"
  then have "w \<noteq> []" using assms(5) by auto
  have "bare (span w 0 (length w))" by (rule runs_bare [OF assms(1) run]) simp
  then have "bare w" by (simp add: span_def)
  from Contains_marked [OF this c \<open>w \<noteq> []\<close>] assms(2-4) run show False unfolding absent_iff [OF assms(1)] by blast
qed

lemma hitLoop_absent:
  assumes "r \<in> set rules" "plain (ru_re r)"
  shows "hitLoop r s (findAll (ru_re r) s i) b i h = (b', c', h') \<Longrightarrow> i \<le> length s \<Longrightarrow>
    \<exists>t. b' @ drop c' s = b @ t \<and> absent (ru_re r) t \<and> h \<le> h' \<and> (h' = h \<longrightarrow> findAll (ru_re r) s i = [])"
  using assms
proof (induction "ru_re r" s i arbitrary: b h rule: findAll.induct)
  case (1 s i)
  note r = 1(4,5)
  have none: "runs (ru_re r) [] 0 [] = []" using absent_nothing [OF r] by (simp add: absent_def)
  show ?case
  proof (cases "find_match (ru_re r) s i")
    case None
    then have "findAll (ru_re r) s i = []" by (simp add: findAll.simps)
    moreover have "absent (ru_re r) (span s i (length s))"
      by (rule absent_stretch [OF r(2) 1(3) _ _ none]) (use find_match_None [OF None] in auto)
    ultimately show ?thesis using 1(2) by (auto simp: span_def)
  next
    case (Some m)
    note match = find_is_match [OF Some] and start = find_match_Some(1) [OF Some]
    note bounds = is_match_bounds [OF match]
    have step: "max (m_end m) (Suc (m_start m)) = m_end m"
      using match run_not_empty [OF r, of "m_end m" "m_groups m" s "m_start m"] by (simp add: is_match_def)
    have all: "findAll (ru_re r) s i = m # findAll (ru_re r) s (m_end m)" by (subst findAll.simps) (simp add: Some step)
    let ?b = "b @ span s i (m_start m) @ redaction (ru_kind r)"
    have "hitLoop r s (findAll (ru_re r) s (m_end m)) ?b (m_end m) (h + 1) = (b', c', h')"
      using 1(2) unfolding all by (simp add: accepted_def replacement_def plain_rule(1,2) [OF r])
    from 1(1) [OF Some, unfolded step, OF this _ r] bounds obtain t where
      t: "b' @ drop c' s = ?b @ t" "absent (ru_re r) t" "h + 1 \<le> h'" by auto
    have "absent (ru_re r) (span s i (m_start m))"
      by (rule absent_stretch [OF r(2) start _ _ none]) (use bounds find_match_Some(4) [OF Some] in auto)
    then have "absent (ru_re r) (span s i (m_start m) @ redaction (ru_kind r) @ t)"
      by (rule absent_joined [OF r(2) _ absent_marker [OF r rule_kinds [OF r(1)]] t(2) none])
    with t(1,3) show ?thesis by auto
  qed
qed

lemma apply_absent: "r \<in> set rules \<Longrightarrow> plain (ru_re r) \<Longrightarrow> absent (ru_re r) (fst (apply_rule r (s, counts)))"
proof -
  assume r: "r \<in> set rules" "plain (ru_re r)"
  obtain b c h where h: "hitLoop r s (findAll (ru_re r) s 0) [] 0 0 = (b, c, h)" by (metis prod_cases3)
  from hitLoop_absent [OF r h] have t: "absent (ru_re r) (b @ drop c s)" "h = 0 \<Longrightarrow> findAll (ru_re r) s 0 = []" by auto
  have "fst (apply_rule r (s, counts)) = (if findAll (ru_re r) s 0 = [] \<or> h = 0 then s else b @ drop c s)"
    by (simp add: apply_rule_def Let_def h)
  then show ?thesis using t absent_findAll by metis
qed

lemma fold_absent_keeps:
  assumes "r \<in> set rules" "plain (ru_re r)"
  shows "set rs \<subseteq> set rules \<Longrightarrow> absent (ru_re r) (fst sc) \<Longrightarrow> absent (ru_re r) (fst (fold apply_rule rs sc))"
proof (induction rs arbitrary: sc)
  case (Cons q rs)
  have "redacts (fst sc) (fst (apply_rule q (fst sc, snd sc)))" by (rule apply_redacts) (use Cons.prems in auto)
  then have "absent (ru_re r) (fst (apply_rule q (fst sc, snd sc)))"
    by (rule absent_redacts [OF assms(2) Cons.prems(2) _ absent_marker [OF assms]])
  with Cons show ?case by auto
qed simp

lemma fold_absent:
  assumes "r \<in> set rules" "plain (ru_re r)"
  shows "set rs \<subseteq> set rules \<Longrightarrow> r \<in> set rs \<Longrightarrow> absent (ru_re r) (fst (fold apply_rule rs sc))"
proof (induction rs arbitrary: sc)
  case (Cons q rs)
  show ?case
  proof (cases "q = r")
    case True
    have "absent (ru_re r) (fst (apply_rule r (fst sc, snd sc)))" by (rule apply_absent [OF assms])
    with Cons.prems True fold_absent_keeps [OF assms, of rs] show ?thesis by auto
  next
    case False
    with Cons show ?thesis by auto
  qed
qed simp

lemma Scrub_absent: "r \<in> set rules \<Longrightarrow> plain (ru_re r) \<Longrightarrow> absent (ru_re r) (sb_Text (Scrub s))"
proof -
  assume r: "r \<in> set rules" "plain (ru_re r)"
  let ?active = "filter (gated s) rules"
  have "absent (ru_re r) (fst (fold apply_rule ?active (s, [])))"
  proof (cases "gated s r")
    case True
    then show ?thesis by (intro fold_absent [OF r]) (use r in auto)
  next
    case False
    then have "absent (ru_re r) s" by (intro absent_ungated r) (auto simp: gated_iff)
    then show ?thesis by (intro fold_absent_keeps [OF r]) auto
  qed
  then show ?thesis using absent_nothing [OF r] by (auto simp: Scrub_def Let_def split: prod.split)
qed

end
