(* ===== verification/Spec2Isabelle.thy ===== *)
theory Spec2Isabelle
  imports Authz RegistryClaims Resume FoldClaims DeriveClaims Deliver StoreFindings EndToEnd TransportProps ScrubClaims
begin

text \<open>
  A model of loop-sessions and what is proved of it.

  THE PROGRAM. An agent on each laptop captures the sessions of coding assistants, removes
  credentials from them and puts each event in an outbox on disk; a daemon per session delivers the
  outbox in batches to a server, which answers for every item, stores events in Postgres, and folds
  them into turns for a dashboard. The parts meet at few places: what captures an event adds it to
  the spool (\<open>internal/spool\<close>); the daemon (\<open>internal/daemon\<close>) flushes through the client's delivery
  (\<open>cmd/loop-sessions/deliver.go\<close>), which holds a lock and runs the drain (\<open>internal/drain\<close>); the drain
  leases from the spool, hands the batch to a transport and settles each item as the answer says; the
  transport is one POST to the upload endpoint (\<open>server/ingest\<close>), which judges items, scrubs again
  and calls the store (\<open>server/store\<close>) through an adapter (\<open>server/app\<close>); the store keeps event rows
  and the session's totals, and \<open>server/store/derive\<close> computes turns from the rows.

  THE THEORIES AND THE CODE THEY MODEL.
  Prelude: results as \<open>error + value\<close>, Go maps, the directory of named files and its interface
  (locale \<open>directory\<close>), and the locale \<open>keeper\<close>: operations that keep an invariant.
  GoLib: what is used of packages strings, strconv, fmt and time. Regex: what is used of regexp.
  SpoolGuard, SpoolNames, Spool (\<open>internal/spool/spool.go\<close>): a \<open>Spool\<close> record holds the three
  directories, the state file and the options; each method is a definition on it. SpoolInv,
  SpoolCap, SpoolLease and SpoolProps are its lemmas and properties.
  Drain (\<open>internal/drain/drain.go\<close>): the \<open>Drain\<close> record is the Go struct; \<open>RunOnce\<close> is one cycle on
  a drain and a spool, \<open>Run\<close> a run over the environments of its cycles. DrainProps: its properties.
  Daemon (\<open>internal/daemon/daemon.go\<close>, \<open>lock_unix.go\<close>): the state directory, locks, the daemon's ticks,
  and the operations of other processes on the directory. DaemonInv, DaemonProps: what each operation
  does to each session, as a pointwise effect (locale \<open>pointwise\<close>).
  Deliver: \<open>spoolFlusher\<close> of \<open>deliver.go\<close>, daemon, drain and spool together. Transport: \<open>httpTransport\<close> of
  the same file. TransportProps: pacing from the server's header to the client's wait.
  Scrub (\<open>internal/scrub/scrub.go\<close>): every rule as a pattern with gates, vetting and replacement, the
  gate search and the replacement loop. ScrubVet, ScrubProps, ScrubMarks, ScrubClaims: its properties.
  Event (\<open>internal/event/event.go\<close>): the event both sides exchange, and what is used of encoding/json.
  Keys (\<open>derive/keys.go\<close>), Pricing (\<open>ingest/cost.go\<close>), Authz (\<open>auth/authz.go\<close>, \<open>auth/auth.go\<close>), Normalize
  (\<open>internal/normalize\<close>): pure functions of the server.
  Ingest (\<open>ingest/ingest.go\<close>, \<open>ingest/scrub.go\<close>): the handler of /v1/events as a function of the
  request and the store's state. IngestAdapter (\<open>app/ingest_adapter.go\<close>): the store port on the
  database. IngestProps, IngestClaims: the answer, over the port's contract (locale \<open>event_store\<close>), of
  which the adapter on \<open>UpsertEvents\<close> is the interpretation.
  Tables, Store, Rollup (\<open>store/store.go\<close> and the tables of its migrations): the database as a record of
  tables, each SQL statement as a function on it that may fail, and \<open>UpsertEvents\<close> composed of them in
  the order of the code. StoreInv, StoreRows, StoreSums, StoreTx, StoreProps: the consistency of the
  store and what a batch adds (locales \<open>rollup_column\<close>, \<open>tx_relation\<close>, with an interpretation for
  each column and relation). StoreAnswer, StoreClaims, StoreErrors, StoreFindings: what an answer means.
  Fold (\<open>derive/fold.go\<close>, \<open>derive/thread.go\<close>): rows into turns; the sweep and its closures are
  operations on one state. FoldRows, FoldTools, FoldKeys, FoldProps, FoldClaims: its properties.
  Derived, Classify (\<open>store/turns.go\<close>): the statements around the fold, on a \<open>work_db\<close> of the store's
  tables and those of migration 0018: \<open>foldSession\<close> reads the projection and rewrites turns, the map of
  events to turns and the marks on hook rows; \<open>rollupFromTurns\<close>, \<open>classifySession\<close>, \<open>retitleSession\<close>
  and \<open>classifyMessages\<close> settle the session's row. Dirty (\<open>store/runner.go\<close>): \<open>DeriveDirty\<close> runs
  \<open>deriveOne\<close> over the touched sessions and parks those that fail. FoldPos, DerivedProps, ClassifyProps,
  DirtyProps, DeriveClaims: what a fold writes, as one function of the rows (\<open>fold_spec\<close>), and the properties.
  Access, Roster, Devices, Shares, Listing (\<open>store/store.go\<close>, \<open>store/admin_queries.go\<close>,
  \<open>store/bootstrap_admins.go\<close>, \<open>admin/handler.go\<close>, the verifier of \<open>app/app.go\<close>): the tables of
  principals, devices, tokens, grants and the access log beside those of captured work, and every
  operation on them as a transaction that answers with an error or with the tables it leaves. Paging
  (locale \<open>keyset\<close>): reading by a key, once for the list of sessions and for events in both orders.
  Resume (\<open>api/resume.go\<close>): the bundle a session is continued from. SharesProps, ReadClaims,
  RosterProps, DeviceProps: what one operation does; AccessClaims: all of them as one step relation
  (\<open>access_step\<close>) under the locale \<open>ruled\<close>; RegistryClaims: the properties of reachable states.
  EndToEnd: a laptop, a network that loses requests or answers, other clients and the server as one
  transition function.

  WHAT THE LEMMAS SHOW. Of the outbox: a write publishes or counts, nothing leaves but by an
  acknowledgement or a counted eviction, redriving loses no id. Of delivery: an item the answer does not
  accept stays, a healthy server empties the queue, a failure changes nothing but the pace. Of the
  daemon: reaping refines a contract on the map of sessions, and no interleaving re-opens a finalized
  session. Of the scrubber: a skipped rule would have found nothing, the result is the text with parts
  replaced by markers, no key of the vendors is left, on the client and in what the server stores. Of
  the endpoint and store: an accepted item is kept under its sender, the totals of a session are
  the sums of its rows after every batch, a repeated batch moves nothing, a failed call changes nothing.
  Of access: no read of another's session without its row in the log, no way back for a revoked device,
  never without an administrator, a trail that explains the roster, an enrolment confined to its person,
  and pages that show everything once where their key tells rows apart.
  Of folding: every row is in exactly one turn and turns have distinct keys. Of derivation: a session
  left clean is current, every event is in one row of the table, each model call is charged once,
  folding and classifying again change nothing, a fold fails on its own rows only where a prompt id
  looks like a numbered key, and a session that fails keeps no other from being reached. End to end: what left the
  machine is kept by the server or was counted as evicted.

  BOUNDS AND FUEL. \<open>drainLoop\<close> carries the code's own bound of 1000 cycles. \<open>Run\<close> and \<open>daemon_Run\<close>
  recurse on the list of the environments of their cycles, so a run is any finite number of cycles.
  \<open>Count\<close>, \<open>stripLoop\<close>, \<open>search_loop\<close>, \<open>findAll\<close>, \<open>scanOne\<close>, \<open>scanTwo\<close> and \<open>scrubValue\<close> are total
  by a measure; everything else is structural. Only the readers who follow pages (\<open>list_pages\<close>,
  \<open>event_pages\<close>, \<open>resume_pages\<close>) have fuel, one page each, and their properties ask for more of it than
  there are rows.

  HOW THE CODE IS READ. Every system call and SQL statement may fail, by a predicate of the
  environment; a failed one leaves what the code's error path leaves. A definition takes one clock
  reading. Transactions are serial, since the session row is locked by its claim, the rows of active
  administrators by the edit that removes one, and a claimed device by its enrolment. The exception is
  the derivation of a session, which takes its row lock late: what others commit before its facts are
  read, between that and its rows, and from then until the row is locked are functions of the
  environment (\<open>dd_early\<close>, \<open>dd_mid\<close>, \<open>dd_late\<close>). The NULL of a text column is the empty string. Strings are lists
  of bytes; the Unicode tables behind case and white space are represented by ASCII (case folding in
  patterns also takes the two letters outside ASCII that fold into it). float64 is an exact rational,
  a real in the scrubber's entropy; durations and sizes are integers with the wrap or saturation
  written out where the code relies on it; bigint columns are unbounded. JSON is a parameter
  (\<open>codec\<close>) with the laws it is documented to have as hypotheses. Random ids, the disk probe, live
  pids, held locks, signals, the identity provider and net/http are parameters too.

  NOT MODELLED. Inside the modelled packages: mutexes and the OnCycle callback of the drain, the
  daemon's reporter goroutine and the test for a live process, log lines, the health endpoint, the
  adapter's nil checks, \<open>Session.Apply\<close>, which serves tools, and in the store the rows of artifacts,
  links and skills; of the runner the versioned pass (\<open>RunDerive\<close>, \<open>perSession\<close>, \<open>eventKeysBatch\<close>,
  \<open>indexStep\<close> and the rows of \<open>derive_jobs\<close>), with the drain of the skill queue as a parameter. The order of elements in merged array columns is fixed where SQL leaves it open.
  Outside them: packages that read or edit files of other programs (capture, hooks, backfill,
  discovery), whose formats are not under src; services (Slack, export, the identity provider);
  queries and pages that only read (web, fleet, the rest of api, admin and the store), whose meaning is
  their SQL; ILIKE, the collation, SHA-256, date_trunc, the text of a cursor and the token digest are parameters; settings, enrolment, upgrade and the command line, which are file and process handling.
\<close>

end
